(* ===== verification/Prelude.thy ===== *)
theory Prelude
  imports Main
begin

text \<open>
  Shared vocabulary of the development: the named theorem collections the
  component theories fill, generic facts on lists that are searched and updated
  in place (the JavaScript \<open>find\<close>, \<open>findIndex\<close>, \<open>some\<close> idioms), and the
  interface of an event-sourced component (a state that is rebuilt from its own
  journal), stated once as a locale and proved once.
\<close>

named_theorems fold_defs \<open>small definitions that proofs unfold\<close>
named_theorems frame_simps \<open>fields an operation leaves unchanged\<close>

subsection \<open>Searching and updating lists\<close>

text \<open>\<open>xs.find(p)\<close> and \<open>xs.findIndex(p)\<close>; the library's \<open>List.find\<close> is the former.\<close>

fun find_index :: "('a \<Rightarrow> bool) \<Rightarrow> 'a list \<Rightarrow> nat option" where
  "find_index p [] = None"
| "find_index p (x # xs) = (if p x then Some 0 else map_option Suc (find_index p xs))"

text \<open>Rewrite the first element that satisfies \<open>p\<close>: \<open>const x = xs.find(p); mutate x\<close>.\<close>

fun update_first :: "('a \<Rightarrow> bool) \<Rightarrow> ('a \<Rightarrow> 'a) \<Rightarrow> 'a list \<Rightarrow> 'a list" where
  "update_first p f [] = []"
| "update_first p f (x # xs) = (if p x then f x # xs else x # update_first p f xs)"

lemma find_index_Some_nth:
  "find_index p xs = Some i \<Longrightarrow> i < length xs \<and> p (xs ! i)"
  by (induction xs arbitrary: i) (auto split: if_splits)

lemma find_index_None: "find_index p xs = None \<longleftrightarrow> (\<forall>x\<in>set xs. \<not> p x)"
  by (induction xs) auto

lemma length_update_first [simp]: "length (update_first p f xs) = length xs"
  by (induction xs) auto

lemma map_update_first_frame:
  "(\<And>x. g (f x) = g x) \<Longrightarrow> map g (update_first p f xs) = map g xs"
  by (induction xs) auto

lemma set_update_firstD:
  "y \<in> set (update_first p f xs) \<Longrightarrow> y \<in> set xs \<or> (\<exists>x\<in>set xs. p x \<and> y = f x)"
  by (induction xs) (auto split: if_splits)

lemma update_first_id: "\<forall>x\<in>set xs. \<not> p x \<Longrightarrow> update_first p f xs = xs"
  by (induction xs) auto

lemma find_Some_set: "List.find p xs = Some x \<Longrightarrow> x \<in> set xs \<and> p x"
  by (induction xs) (auto split: if_splits)

lemma find_None_set: "List.find p xs = None \<longleftrightarrow> (\<forall>x\<in>set xs. \<not> p x)"
  by (induction xs) auto

lemma find_append:
  "List.find p (xs @ ys) = (case List.find p xs of None \<Rightarrow> List.find p ys | Some x \<Rightarrow> Some x)"
  by (induction xs) auto

lemma find_update_first:
  "(\<And>x. p (f x) = p x) \<Longrightarrow> List.find p (update_first p f xs) = map_option f (List.find p xs)"
  by (induction xs) auto

lemma find_update_first_other:
  "(\<And>x. q (f x) = q x) \<Longrightarrow> (\<And>x. p x \<Longrightarrow> \<not> q x) \<Longrightarrow>
   List.find q (update_first p f xs) = List.find q xs"
  by (induction xs) auto

text \<open>Order-preserving removal of repeats, keeping the first occurrence
  (\<open>if (!seen.has(v)) { seen.add(v); out.push(v); }\<close>).\<close>

fun dedup_acc :: "'a list \<Rightarrow> 'a list \<Rightarrow> 'a list" where
  "dedup_acc out [] = out"
| "dedup_acc out (x # xs) = (if x \<in> set out then dedup_acc out xs else dedup_acc (out @ [x]) xs)"

lemma set_dedup_acc [simp]: "set (dedup_acc out xs) = set out \<union> set xs"
  by (induction xs arbitrary: out) auto

lemma distinct_dedup_acc: "distinct out \<Longrightarrow> distinct (dedup_acc out xs)"
  by (induction xs arbitrary: out) auto

subsection \<open>The event-sourced component interface\<close>

text \<open>
  A component whose state is authoritative only as the fold of its journal.
  \<open>live s e\<close> is what a door does to a live state: the new state and the row it
  journals, or a refusal. \<open>replay s r\<close> is what the rebuild does with one
  journaled row. The law: a row the door journaled for an admissible request replays
  to the state the door produced.
\<close>

locale event_sourced =
  fixes live :: "'s \<Rightarrow> 'e \<Rightarrow> ('s \<times> 'r) option"
    and replay :: "'s \<Rightarrow> 'r \<Rightarrow> 's option"
    and ok :: "'s \<Rightarrow> bool"
    and admissible :: "'e \<Rightarrow> bool"
  assumes live_ok: "ok s \<Longrightarrow> admissible e \<Longrightarrow> live s e = Some (s', r) \<Longrightarrow> ok s'"
    and live_replay: "ok s \<Longrightarrow> admissible e \<Longrightarrow> live s e = Some (s', r) \<Longrightarrow> replay s r = Some s'"
begin

fun run_live :: "'s \<Rightarrow> 'e list \<Rightarrow> 's \<times> 'r list" where
  "run_live s [] = (s, [])"
| "run_live s (e # es) =
     (case live s e of
        None \<Rightarrow> run_live s es
      | Some (s', r) \<Rightarrow> (let (t, rs) = run_live s' es in (t, r # rs)))"

fun rebuild :: "'s \<Rightarrow> 'r list \<Rightarrow> 's option" where
  "rebuild s [] = Some s"
| "rebuild s (r # rs) = (case replay s r of None \<Rightarrow> None | Some s' \<Rightarrow> rebuild s' rs)"

lemma rebuild_append:
  "rebuild s (xs @ ys) = (case rebuild s xs of None \<Rightarrow> None | Some t \<Rightarrow> rebuild t ys)"
  by (induction xs arbitrary: s) (auto split: option.splits)

text \<open>The journal reproduces the state, and replaying it never fails.\<close>

lemma rebuild_run_live:
  "ok s \<Longrightarrow> list_all admissible es \<Longrightarrow> run_live s es = (t, rs) \<Longrightarrow> rebuild s rs = Some t \<and> ok t"
proof (induction es arbitrary: s t rs)
  case Nil
  then show ?case by simp
next
  case (Cons e es)
  show ?case
  proof (cases "live s e")
    case None
    with Cons show ?thesis by simp
  next
    case (Some p)
    obtain s' r where p: "p = (s', r)" by (cases p)
    obtain t' rs' where run: "run_live s' es = (t', rs')" by (cases "run_live s' es")
    have "ok s'" "replay s r = Some s'"
      using live_ok live_replay Cons.prems Some p by auto
    with Cons.IH [OF _ _ run] Cons.prems Some p run show ?thesis by auto
  qed
qed

end

end
