(* ===== verification/JsValue.thy ===== *)
theory JsValue
  imports Prelude
begin

text \<open>
  JavaScript values as the kernel modules see them: decoded JSON, plus
  \<open>undefined\<close> for an absent property. The coercions the source uses
  (\<open>String(v)\<close>, \<open>Number(v)\<close>, truthiness, \<open>v != null\<close>), property access and update
  on plain objects (property order kept, because the source compares
  \<open>JSON.stringify\<close> results), and \<open>Date.parse\<close> on the ECMAScript date-time format.

  Numbers are the integers: every number these modules exchange is a counter, an
  index, a fence or a count of milliseconds. \<open>NaN\<close>, which only coercion
  produces, is \<open>None\<close> of \<^typ>\<open>int option\<close>. Characters are those of the Isabelle
  type \<open>char\<close>.
\<close>

datatype jsval =
    JUndef
  | JNull
  | JBool bool
  | JNum int
  | JStr string
  | JArr "jsval list"
  | JObj "(string \<times> jsval) list"

subsection \<open>Tests and property access\<close>

text \<open>\<open>v == null\<close>: null or undefined.\<close>

definition nullish :: "jsval \<Rightarrow> bool" where
  "nullish v \<longleftrightarrow> v = JUndef \<or> v = JNull"

fun truthy :: "jsval \<Rightarrow> bool" where
  "truthy JUndef = False"
| "truthy JNull = False"
| "truthy (JBool b) = b"
| "truthy (JNum n) = (n \<noteq> 0)"
| "truthy (JStr s) = (s \<noteq> [])"
| "truthy (JArr _) = True"
| "truthy (JObj _) = True"

text \<open>\<open>typeof v === "object"\<close> for a value already known to be truthy or non-null.\<close>

fun is_objectlike :: "jsval \<Rightarrow> bool" where
  "is_objectlike (JArr _) = True"
| "is_objectlike (JObj _) = True"
| "is_objectlike _ = False"

fun is_plain_object :: "jsval \<Rightarrow> bool" where
  "is_plain_object (JObj _) = True"
| "is_plain_object _ = False"

fun js_get :: "jsval \<Rightarrow> string \<Rightarrow> jsval" where
  "js_get (JObj fs) k = (case map_of fs k of Some v \<Rightarrow> v | None \<Rightarrow> JUndef)"
| "js_get _ k = JUndef"

fun upd_prop :: "string \<Rightarrow> jsval \<Rightarrow> (string \<times> jsval) list \<Rightarrow> (string \<times> jsval) list" where
  "upd_prop k v [] = [(k, v)]"
| "upd_prop k v ((k', v') # fs) = (if k = k' then (k, v) # fs else (k', v') # upd_prop k v fs)"

text \<open>\<open>{...o, k: v}\<close>: an existing property keeps its position, a new one goes last.
  Spreading a value with no own enumerable properties of interest gives \<open>{}\<close>.\<close>

fun js_set :: "jsval \<Rightarrow> string \<Rightarrow> jsval \<Rightarrow> jsval" where
  "js_set (JObj fs) k v = JObj (upd_prop k v fs)"
| "js_set _ k v = JObj [(k, v)]"

text \<open>\<open>delete o[k]\<close>.\<close>

fun js_delete :: "jsval \<Rightarrow> string \<Rightarrow> jsval" where
  "js_delete (JObj fs) k = JObj (filter (\<lambda>p. fst p \<noteq> k) fs)"
| "js_delete v k = v"

lemma map_of_filter_key: "map_of (filter (\<lambda>p. fst p \<noteq> k) fs) = (map_of fs)(k := None)"
  by (induction fs) (auto simp: fun_eq_iff)

lemma js_get_delete [simp]: "js_get (js_delete v k) k' = (if k' = k then JUndef else js_get v k')"
  by (cases v) (auto simp: map_of_filter_key)

lemma map_of_upd_prop: "map_of (upd_prop k v fs) = (map_of fs)(k \<mapsto> v)"
  by (induction fs) (auto simp: fun_eq_iff)

lemma js_get_set [simp]: "js_get (js_set o' k v) k' = (if k' = k then v else
    (case o' of JObj fs \<Rightarrow> js_get o' k' | _ \<Rightarrow> JUndef))"
  by (cases o') (auto simp: map_of_upd_prop)

lemma js_get_nonobj [simp]: "\<not> is_plain_object v \<Longrightarrow> js_get v k = JUndef"
  by (cases v) auto

lemma js_get_set_same: "js_get (js_set o' k v) k = v"
  by simp

lemma js_get_set_other: "k' \<noteq> k \<Longrightarrow> js_get (js_set o' k v) k' = js_get o' k'"
  by (cases o') (auto simp: map_of_upd_prop)

declare js_get_set [simp del]
declare js_get_set_same [simp] js_get_set_other [simp]

lemma is_plain_object_set [simp]: "is_plain_object (js_set o' k v)"
  by (cases o') auto

lemma upd_prop_upd_prop [simp]: "upd_prop k v (upd_prop k w fs) = upd_prop k v fs"
  by (induction fs) auto

lemma js_set_set [simp]: "js_set (js_set o' k v) k w = js_set o' k w"
  by (cases o') auto

lemma upd_prop_same: "map_of fs k = Some v \<Longrightarrow> upd_prop k v fs = fs"
  by (induction fs) (auto split: if_splits)

lemma js_set_get_same:
  "js_get o' k = v \<Longrightarrow> v \<noteq> JUndef \<Longrightarrow> js_set o' k v = o'"
  by (cases o') (auto split: option.splits simp: upd_prop_same)

subsection \<open>Coercions\<close>

definition digit_char :: "nat \<Rightarrow> char" where
  "digit_char n = char_of (48 + n)"

fun nat_string :: "nat \<Rightarrow> string" where
  "nat_string n = (if n < 10 then [digit_char n] else nat_string (n div 10) @ [digit_char (n mod 10)])"

declare nat_string.simps [simp del]

definition int_string :: "int \<Rightarrow> string" where
  "int_string n = (if n < 0 then ''-'' @ nat_string (nat (- n)) else nat_string (nat n))"

definition is_digit :: "char \<Rightarrow> bool" where
  "is_digit c \<longleftrightarrow> 48 \<le> (of_char c :: nat) \<and> (of_char c :: nat) \<le> 57"

definition digit_value :: "char \<Rightarrow> nat" where
  "digit_value c = of_char c - 48"

fun nat_of_digits :: "nat \<Rightarrow> string \<Rightarrow> nat" where
  "nat_of_digits acc [] = acc"
| "nat_of_digits acc (c # cs) = nat_of_digits (10 * acc + digit_value c) cs"

fun join :: "string \<Rightarrow> string list \<Rightarrow> string" where
  "join sep [] = []"
| "join sep [x] = x"
| "join sep (x # y # xs) = x @ sep @ join sep (y # xs)"

text \<open>\<open>String(v)\<close>; an array joins its elements with commas, null and undefined
  elements reading as the empty string.\<close>

function (sequential) js_string :: "jsval \<Rightarrow> string" where
  "js_string JUndef = ''undefined''"
| "js_string JNull = ''null''"
| "js_string (JBool b) = (if b then ''true'' else ''false'')"
| "js_string (JNum n) = int_string n"
| "js_string (JStr s) = s"
| "js_string (JArr vs) = join '','' (map (\<lambda>v. if nullish v then [] else js_string v) vs)"
| "js_string (JObj _) = ''[object Object]''"
  by pat_completeness auto
termination by (relation "measure size") (auto simp: less_Suc_eq_le size_list_estimation')

definition ws_chars :: "char list" where
  "ws_chars = [CHR '' '', CHR 0x09, CHR 0x0A, CHR 0x0B, CHR 0x0C, CHR 0x0D]"

text \<open>\<open>s.trim()\<close> on the whitespace a \<open>char\<close> can spell.\<close>

definition trim :: "string \<Rightarrow> string" where
  "trim s = rev (dropWhile (\<lambda>c. c \<in> set ws_chars) (rev (dropWhile (\<lambda>c. c \<in> set ws_chars) s)))"

lemma trim_idem [simp]: "trim (trim s) = trim s"
proof -
  let ?p = "\<lambda>c. c \<in> set ws_chars"
  let ?d = "dropWhile ?p s"
  have l: "trim s = [] \<or> \<not> ?p (last (trim s))"
    unfolding trim_def by (metis hd_dropWhile last_rev rev.simps(1))
  have h: "trim s = [] \<or> \<not> ?p (hd (trim s))"
  proof (cases "trim s")
    case (Cons c cs)
    have "?d = trim s @ rev (takeWhile ?p (rev ?d))"
      unfolding trim_def by (metis rev_append rev_rev_ident takeWhile_dropWhile_id)
    then have "?d \<noteq> [] \<and> hd ?d = hd (trim s)" using Cons by (metis append_is_Nil_conv hd_append2 list.distinct(1))
    then show ?thesis by (metis hd_dropWhile)
  qed simp
  have "dropWhile ?p (trim s) = trim s" "dropWhile ?p (rev (trim s)) = rev (trim s)"
    using l h by (auto simp: dropWhile_eq_self_iff hd_rev)
  then show ?thesis by (subst trim_def) simp
qed

text \<open>\<open>s.replace(/[p]+/g, c)\<close>: every run of characters in a class becomes one character.\<close>

fun squeeze :: "(char \<Rightarrow> bool) \<Rightarrow> char \<Rightarrow> bool \<Rightarrow> string \<Rightarrow> string" where
  "squeeze p c inside [] = []"
| "squeeze p c inside (x # xs) =
     (if p x then (if inside then squeeze p c True xs else c # squeeze p c True xs)
      else x # squeeze p c False xs)"

text \<open>\<open>Number(s)\<close> for a string: blank is 0, an optionally signed run of decimal
  digits is its value, anything else is NaN. Other numeric notations (a fraction, an
  exponent, a radix prefix) are not numbers of this model.\<close>

definition string_number :: "string \<Rightarrow> int option" where
  "string_number s =
     (case trim s of
        [] \<Rightarrow> Some 0
      | c # cs \<Rightarrow>
          if c = CHR ''-'' then
            (if cs \<noteq> [] \<and> list_all is_digit cs then Some (- int (nat_of_digits 0 cs)) else None)
          else if c = CHR ''+'' then
            (if cs \<noteq> [] \<and> list_all is_digit cs then Some (int (nat_of_digits 0 cs)) else None)
          else if list_all is_digit (c # cs) then Some (int (nat_of_digits 0 (c # cs)))
          else None)"

fun js_number :: "jsval \<Rightarrow> int option" where
  "js_number JUndef = None"
| "js_number JNull = Some 0"
| "js_number (JBool b) = Some (if b then 1 else 0)"
| "js_number (JNum n) = Some n"
| "js_number (JStr s) = string_number s"
| "js_number (JArr vs) = string_number (js_string (JArr vs))"
| "js_number (JObj _) = None"

text \<open>\<open>Number(v) || d\<close>: both NaN and 0 fall through to the default.\<close>

definition number_or :: "jsval \<Rightarrow> int \<Rightarrow> int" where
  "number_or v d = (case js_number v of None \<Rightarrow> d | Some n \<Rightarrow> if n = 0 then d else n)"

text \<open>\<open>v != null ? String(v) : null\<close>.\<close>

definition string_or_null :: "jsval \<Rightarrow> string option" where
  "string_or_null v = (if nullish v then None else Some (js_string v))"

text \<open>\<open>a ?? b\<close> and \<open>a || b\<close>.\<close>

definition coalesce :: "jsval \<Rightarrow> jsval \<Rightarrow> jsval" where
  "coalesce a b = (if nullish a then b else a)"

definition js_or :: "jsval \<Rightarrow> jsval \<Rightarrow> jsval" where
  "js_or a b = (if truthy a then a else b)"

lemma nullish_simps [simp]:
  "nullish JUndef" "nullish JNull" "\<not> nullish (JBool b)" "\<not> nullish (JNum n)"
  "\<not> nullish (JStr s)" "\<not> nullish (JArr vs)" "\<not> nullish (JObj fs)"
  by (auto simp: nullish_def)

lemma truthy_not_nullish: "truthy v \<Longrightarrow> \<not> nullish v"
  by (cases v) auto

subsection \<open>Date.parse\<close>

text \<open>Days from 1970-01-01 of a proleptic Gregorian date (an out-of-range day of the
  month rolls into the next month, as \<open>Date.UTC\<close> does).\<close>

definition days_from_civil :: "int \<Rightarrow> int \<Rightarrow> int \<Rightarrow> int" where
  "days_from_civil y m d =
     (let y' = (if m \<le> 2 then y - 1 else y);
          era = y' div 400;
          yoe = y' - era * 400;
          mp = (m + 9) mod 12;
          doy = (153 * mp + 2) div 5 + d - 1;
          doe = yoe * 365 + yoe div 4 - yoe div 100 + doy
      in era * 146097 + doe - 719468)"

text \<open>A field of exactly \<open>k\<close> digits at the head of the input.\<close>

definition digits_field :: "nat \<Rightarrow> string \<Rightarrow> (int \<times> string) option" where
  "digits_field k s =
     (if length (take k s) = k \<and> list_all is_digit (take k s)
      then Some (int (nat_of_digits 0 (take k s)), drop k s) else None)"

definition sep_field :: "char \<Rightarrow> nat \<Rightarrow> string \<Rightarrow> (int \<times> string) option" where
  "sep_field c k s = (case s of [] \<Rightarrow> None | x # xs \<Rightarrow> if x = c then digits_field k xs else None)"

text \<open>Milliseconds of a fraction: the first three digits count, the rest are dropped.\<close>

definition fraction_field :: "string \<Rightarrow> (int \<times> string) option" where
  "fraction_field s =
     (case s of
        [] \<Rightarrow> Some (0, s)
      | x # xs \<Rightarrow>
          if x = CHR ''.'' then
            (let ds = takeWhile is_digit xs in
             if ds = [] then None
             else Some (int (nat_of_digits 0 (take 3 (ds @ ''00''))), dropWhile is_digit xs))
          else Some (0, s))"

text \<open>The zone: \<open>Z\<close>, a signed \<open>HH:MM\<close>, or nothing (the host's zone, taken as UTC).
  The result is the offset in minutes.\<close>

definition zone_field :: "string \<Rightarrow> int option" where
  "zone_field s =
     (if s = [] \<or> s = ''Z'' then Some 0
      else case digits_field 2 (tl s) of
        None \<Rightarrow> None
      | Some (h, r) \<Rightarrow>
          (case sep_field (CHR '':'') 2 r of
             None \<Rightarrow> None
           | Some (mi, r') \<Rightarrow>
               if r' \<noteq> [] \<or> h > 23 \<or> mi > 59 then None
               else if hd s = CHR ''+'' then Some (h * 60 + mi)
               else if hd s = CHR ''-'' then Some (- (h * 60 + mi))
               else None))"

text \<open>The time of day after the date: milliseconds, with the zone taken off.\<close>

definition time_field :: "string \<Rightarrow> int option" where
  "time_field s =
     (case digits_field 2 s of
        None \<Rightarrow> None
      | Some (h, r1) \<Rightarrow>
          (case sep_field (CHR '':'') 2 r1 of
             None \<Rightarrow> None
           | Some (mi, r2) \<Rightarrow>
               (let (sec, r3) = (case sep_field (CHR '':'') 2 r2 of None \<Rightarrow> (0, r2) | Some p \<Rightarrow> p) in
                case fraction_field r3 of
                  None \<Rightarrow> None
                | Some (ms, r4) \<Rightarrow>
                    (case zone_field r4 of
                       None \<Rightarrow> None
                     | Some off \<Rightarrow>
                         if (h < 24 \<and> mi < 60 \<and> sec < 60) \<or> (h = 24 \<and> mi = 0 \<and> sec = 0 \<and> ms = 0)
                         then Some (((h * 60 + mi - off) * 60 + sec) * 1000 + ms)
                         else None))))"

text \<open>\<open>Date.parse(s)\<close> in milliseconds, on the language's own date-time format
  (\<open>YYYY\<close>, \<open>YYYY-MM\<close>, \<open>YYYY-MM-DD\<close>, each with an optional \<open>T\<close> time). A string outside
  that format, whose reading the language leaves to the host, is \<open>None\<close> (NaN).\<close>

definition date_parse :: "string \<Rightarrow> int option" where
  "date_parse s =
     (case digits_field 4 s of
        None \<Rightarrow> None
      | Some (y, r1) \<Rightarrow>
          (let (mo, r2) = (case sep_field (CHR ''-'') 2 r1 of None \<Rightarrow> (1, r1) | Some p \<Rightarrow> p);
               (d, r3) = (if r2 = r1 then (1, r2) else
                          (case sep_field (CHR ''-'') 2 r2 of None \<Rightarrow> (1, r2) | Some p \<Rightarrow> p))
           in if mo < 1 \<or> mo > 12 \<or> d < 1 \<or> d > 31 then None
              else (case r3 of
                      [] \<Rightarrow> Some (days_from_civil y mo d * 86400000)
                    | c # r4 \<Rightarrow>
                        if c = CHR ''T'' then
                          map_option (\<lambda>t. days_from_civil y mo d * 86400000 + t) (time_field r4)
                        else None)))"

text \<open>\<open>Date.parse(v)\<close> on any value: the argument is read as a string first.\<close>

definition js_date_parse :: "jsval \<Rightarrow> int option" where
  "js_date_parse v = date_parse (js_string v)"

end
