(* ===== verification/Workflow.thy ===== *)
theory Workflow
  imports JsValue
begin

text \<open>
  The durable-workflow replay kernel, \<^verbatim>\<open>src/lib/kernel/workflow.js\<close>: the journal
  entries, the \<open>Execution\<close> object (\<open>run\<close>, \<open>signal\<close>, \<open>tombstone\<close>) and the five
  operations its context offers a workflow.

  A workflow function is a value of the datatype \<open>wf\<close>: each context call
  carries the continuation that receives the call's value, or the exception it threw,
  so a workflow may catch any exception, as JavaScript lets it. Everything outside the
  kernel (activities, the clock, the persist callback, the observer) is an \<open>env\<close> over
  an abstract world; activities do not reach back into the execution object.
\<close>

subsection \<open>Journal entries and exceptions\<close>

record failure =
  f_message :: string
  f_name :: string
  f_code :: jsval
  f_replayed :: bool

record await_outcome =
  received :: bool
  payload :: jsval

record journaled_failure =
  j_error :: string
  j_name :: "string option"
  j_code :: jsval

text \<open>One constructor per entry kind of \<open>ENTRY_KINDS\<close>; an effect is journaled with its
  result or with its failure. A signal's key is \<open>signal:<name>\<close>.\<close>

datatype entry =
    EVersion int "string option" string
  | EEffect string jsval
  | EEffectThrew string journaled_failure
  | ENow string int
  | ETimer string int
  | EAwait string await_outcome
  | ESignal string jsval
  | ETombstone string jsval

datatype kind = KVersion | KEffect | KNow | KTimer | KAwait | KSignal | KTombstone

fun entry_kind :: "entry \<Rightarrow> kind" where
  "entry_kind (EVersion _ _ _) = KVersion"
| "entry_kind (EEffect _ _) = KEffect"
| "entry_kind (EEffectThrew _ _) = KEffect"
| "entry_kind (ENow _ _) = KNow"
| "entry_kind (ETimer _ _) = KTimer"
| "entry_kind (EAwait _ _) = KAwait"
| "entry_kind (ESignal _ _) = KSignal"
| "entry_kind (ETombstone _ _) = KTombstone"

fun entry_key :: "entry \<Rightarrow> string option" where
  "entry_key (EEffect k _) = Some k"
| "entry_key (EEffectThrew k _) = Some k"
| "entry_key (ENow k _) = Some k"
| "entry_key (ETimer k _) = Some k"
| "entry_key (EAwait k _) = Some k"
| "entry_key (ESignal k _) = Some k"
| "entry_key _ = None"

abbreviation is_signal :: "entry \<Rightarrow> bool" where
  "is_signal e \<equiv> entry_kind e = KSignal"

type_synonym wf_version = "string option \<times> string"

datatype suspension =
    OnTimer string int jsval
  | OnSignal string string "int option" jsval

datatype nondeterminism =
    KeyUsedTwice string
  | Unexpected entry nat kind string
  | DefinitionMismatch string jsval jsval

text \<open>What a context call can throw: an activity's own failure, a missing activity
  (\<open>TypeError\<close>), or one of the kernel's control-flow throws.\<close>

datatype exn =
    XActivity failure
  | XNoActivity string
  | XSuspend suspension
  | XCrash string
  | XNonDeterminism nondeterminism
  | XVersionMismatch "wf_version option" wf_version
  | XTombstoned entry
  | XPersist failure

fun is_control_flow :: "exn \<Rightarrow> bool" where
  "is_control_flow (XActivity _) = False"
| "is_control_flow (XNoActivity _) = False"
| "is_control_flow _ = True"

text \<open>The failure an activity threw, as journaled, and as rebuilt on replay: message,
  name and code survive, the class does not, and \<open>replayed\<close> marks it.\<close>

definition journal_failure :: "failure \<Rightarrow> journaled_failure" where
  "journal_failure f =
     \<lparr>j_error = (if f_message f \<noteq> [] then f_message f else f_name f),
      j_name = (if f_name f \<noteq> [] \<and> f_name f \<noteq> ''Error'' then Some (f_name f) else None),
      j_code = (if nullish (f_code f) then JUndef else f_code f)\<rparr>"

definition replayed_failure :: "journaled_failure \<Rightarrow> failure" where
  "replayed_failure p =
     \<lparr>f_message = j_error p,
      f_name = (case j_name p of Some n \<Rightarrow> (if n \<noteq> [] then n else ''Error'') | None \<Rightarrow> ''Error''),
      f_code = (if nullish (j_code p) then JUndef else j_code p),
      f_replayed = True\<rparr>"

subsection \<open>Workflow functions\<close>

datatype wf =
    Done jsval
  | Throw exn
  | Run string string jsval "exn + jsval \<Rightarrow> wf"
  | Now string "exn + int \<Rightarrow> wf"
  | SleepUntil string int jsval "exn + unit \<Rightarrow> wf"
  | YieldUntil string int jsval "exn + unit \<Rightarrow> wf"
  | AwaitSignal string string "int option" jsval "exn + await_outcome \<Rightarrow> wf"
  | IsReplaying "bool \<Rightarrow> wf"

subsection \<open>The execution object\<close>

datatype crash_at = BeforeExecute | BeforeJournal | AfterJournal

text \<open>The injected collaborators: \<open>activities[name]\<close>, \<open>clock.now()\<close>, \<open>persist\<close> (absent, or
  a callback that may throw) and the \<open>onActivity\<close> observer.\<close>

record 'w env =
  activities :: "string \<Rightarrow> (jsval \<Rightarrow> string \<Rightarrow> 'w \<Rightarrow> (failure + jsval) \<times> 'w) option"
  clock :: "'w \<Rightarrow> int"
  persist :: "(entry \<Rightarrow> 'w \<Rightarrow> failure option \<times> 'w) option"
  on_activity :: "string \<Rightarrow> string \<Rightarrow> jsval \<Rightarrow> jsval \<Rightarrow> 'w \<Rightarrow> 'w"

datatype run_result =
    Completed jsval
  | Failed exn
  | Suspended suspension
  | Crashed string
  | Rejected exn

text \<open>The fields of \<open>Execution\<close>, and the three run-scoped variables of \<open>_ctx()\<close>
  (\<open>cursor\<close>, \<open>pending\<close>, \<open>seen\<close>), which every run starts afresh. \<open>settled\<close> holds what
  \<open>status\<close>, \<open>result\<close> and \<open>error\<close> were last set to.\<close>

record 'w st =
  journal :: "entry list"
  version :: "wf_version option"
  poisoned :: "failure option"
  crash_plan :: "(crash_at \<times> nat) option"
  executed_effects :: nat
  settled :: "run_result option"
  world :: 'w
  cursor :: nat
  pending :: "entry list"
  seen :: "string list"

definition JOURNAL_SPEC_VERSION :: int where
  "JOURNAL_SPEC_VERSION = 1"

fun journal_version :: "entry list \<Rightarrow> wf_version option" where
  "journal_version (EVersion _ w v # _) = Some (w, v)"
| "journal_version _ = None"

definition journal_tombstone :: "entry list \<Rightarrow> entry option" where
  "journal_tombstone j = List.find (\<lambda>e. entry_kind e = KTombstone) j"

definition workflow_name :: "wf_version \<Rightarrow> string" where
  "workflow_name v = (case fst v of Some w \<Rightarrow> w | None \<Rightarrow> [])"

definition same_version :: "wf_version \<Rightarrow> wf_version \<Rightarrow> bool" where
  "same_version a b \<longleftrightarrow> snd a = snd b \<and> workflow_name a = workflow_name b"

text \<open>\<open>_append\<close>: push, then persist; a persist that throws poisons the execution and
  leaves the pushed entry in memory.\<close>

definition append_entry :: "'w env \<Rightarrow> entry \<Rightarrow> 'w st \<Rightarrow> exn option \<times> 'w st" where
  "append_entry E e s =
     (let s1 = s\<lparr>journal := journal s @ [e]\<rparr> in
      case persist E of
        None \<Rightarrow> (None, s1)
      | Some p \<Rightarrow>
          (case p e (world s1) of
             (None, w) \<Rightarrow> (None, s1\<lparr>world := w\<rparr>)
           | (Some f, w) \<Rightarrow> (Some (XPersist f), s1\<lparr>world := w, poisoned := Some f\<rparr>)))"

text \<open>The header a versioned journal opens with, whichever write comes first.\<close>

definition append_header :: "'w env \<Rightarrow> 'w st \<Rightarrow> exn option \<times> 'w st" where
  "append_header E s =
     (case version s of
        Some (w, v) \<Rightarrow>
          if journal s = [] then append_entry E (EVersion JOURNAL_SPEC_VERSION w v) s else (None, s)
      | None \<Rightarrow> (None, s))"

text \<open>\<open>signal(name, payload)\<close>: the exception it throws, if any.\<close>

definition signal :: "'w env \<Rightarrow> string \<Rightarrow> jsval \<Rightarrow> 'w st \<Rightarrow> exn option \<times> 'w st" where
  "signal E name pl s =
     (case poisoned s of
        Some f \<Rightarrow> (Some (XPersist f), s)
      | None \<Rightarrow>
          (case journal_tombstone (journal s) of
             Some t \<Rightarrow> (Some (XTombstoned t), s)
           | None \<Rightarrow>
               (case append_header E s of
                  (Some x, s1) \<Rightarrow> (Some x, s1)
                | (None, s1) \<Rightarrow> append_entry E (ESignal (''signal:'' @ name) pl) s1)))"

text \<open>\<open>tombstone(reason, detail)\<close>: the terminal entry, or what it throws. An empty
  reason reads \<open>refused\<close>; a null detail is left out.\<close>

definition tombstone :: "'w env \<Rightarrow> string \<Rightarrow> jsval \<Rightarrow> 'w st \<Rightarrow> (exn + entry) \<times> 'w st" where
  "tombstone E reason detail s =
     (case poisoned s of
        Some f \<Rightarrow> (Inl (XPersist f), s)
      | None \<Rightarrow>
          (case journal_tombstone (journal s) of
             Some t \<Rightarrow> (Inr t, s)
           | None \<Rightarrow>
               (case append_header E s of
                  (Some x, s1) \<Rightarrow> (Inl x, s1)
                | (None, s1) \<Rightarrow>
                    (let e = ETombstone (if reason = [] then ''refused'' else reason)
                               (if nullish detail then JUndef else detail) in
                     case append_entry E e s1 of
                       (Some x, s2) \<Rightarrow> (Inl x, s2)
                     | (None, s2) \<Rightarrow> (Inr e, s2)))))"

text \<open>\<open>_bindVersion()\<close>: \<open>Inl\<close> an exception thrown by the header's append, \<open>Inr\<close> the error to fail with.\<close>

definition bind_version :: "'w env \<Rightarrow> 'w st \<Rightarrow> (exn + exn option) \<times> 'w st" where
  "bind_version E s =
     (case version s of
        None \<Rightarrow> (Inr None, s)
      | Some v \<Rightarrow>
          (case journal_version (journal s) of
             None \<Rightarrow>
               if journal s \<noteq> [] then (Inr (Some (XVersionMismatch None v)), s)
               else (case append_entry E (EVersion JOURNAL_SPEC_VERSION (fst v) (snd v)) s of
                       (Some x, s1) \<Rightarrow> (Inl x, s1)
                     | (None, s1) \<Rightarrow> (Inr None, s1))
           | Some r \<Rightarrow>
               if same_version r v then (Inr None, s)
               else (Inr (Some (XVersionMismatch (Some r) v)), s)))"

subsection \<open>The context: replay, append, drain\<close>

text \<open>\<open>drainSignals()\<close>: the run of signal entries at the cursor joins \<open>pending\<close>.\<close>

definition drain_signals :: "'w st \<Rightarrow> 'w st" where
  "drain_signals s =
     (let sigs = takeWhile is_signal (drop (cursor s) (journal s))
      in s\<lparr>pending := pending s @ sigs, cursor := cursor s + length sigs\<rparr>)"

definition is_replaying :: "'w st \<Rightarrow> bool" where
  "is_replaying s \<longleftrightarrow> dropWhile is_signal (drop (cursor s) (journal s)) \<noteq> []"

text \<open>\<open>journal[cursor]\<close>, undefined past the end.\<close>

definition entry_at_cursor :: "'w st \<Rightarrow> entry option" where
  "entry_at_cursor s = (if cursor s < length (journal s) then Some (journal s ! cursor s) else None)"

definition replay :: "kind \<Rightarrow> string \<Rightarrow> 'w st \<Rightarrow> (exn + entry option) \<times> 'w st" where
  "replay k key s =
     (if key \<in> set (seen s) then (Inl (XNonDeterminism (KeyUsedTwice key)), s)
      else
        (let s1 = drain_signals (s\<lparr>seen := key # seen s\<rparr>) in
         case entry_at_cursor s1 of
           None \<Rightarrow> (Inr None, s1)
         | Some e \<Rightarrow>
             if entry_key e = Some key \<and> entry_kind e = k
             then (Inr (Some e), s1\<lparr>cursor := cursor s1 + 1\<rparr>)
             else (Inl (XNonDeterminism (Unexpected e (cursor s1) k key)), s1)))"

text \<open>The context's \<open>append\<close>: refused when poisoned, and the cursor moves past the new entry.\<close>

definition ctx_append :: "'w env \<Rightarrow> entry \<Rightarrow> 'w st \<Rightarrow> exn option \<times> 'w st" where
  "ctx_append E e s =
     (case poisoned s of
        Some f \<Rightarrow> (Some (XPersist f), s)
      | None \<Rightarrow>
          (case append_entry E e s of
             (Some x, s1) \<Rightarrow> (Some x, s1)
           | (None, s1) \<Rightarrow> (None, s1\<lparr>cursor := length (journal s1)\<rparr>)))"

definition crash_now :: "crash_at \<Rightarrow> nat \<Rightarrow> 'w st \<Rightarrow> bool" where
  "crash_now at n s \<longleftrightarrow> crash_plan s = Some (at, n)"

text \<open>\<open>settle\<close>: the observer, the at-least-once window, the journal append, the
  after-journal crash point.\<close>

definition settle ::
  "'w env \<Rightarrow> string \<Rightarrow> string \<Rightarrow> jsval \<Rightarrow> nat \<Rightarrow> failure + jsval \<Rightarrow> 'w st \<Rightarrow> (exn + jsval) \<times> 'w st" where
  "settle E key name args n out s =
     (let s1 = (case out of Inl _ \<Rightarrow> s | Inr r \<Rightarrow> s\<lparr>world := on_activity E key name args r (world s)\<rparr>) in
      if crash_now BeforeJournal n s1
      then (Inl (XCrash (''after executing '' @ key @ '', before journaling'')), s1)
      else (case out of
              Inl f \<Rightarrow>
                (case ctx_append E (EEffectThrew key (journal_failure f)) s1 of
                   (Some x, s2) \<Rightarrow> (Inl x, s2)
                 | (None, s2) \<Rightarrow> (Inl (XActivity f), s2))
            | Inr r \<Rightarrow>
                (case ctx_append E (EEffect key r) s1 of
                   (Some x, s2) \<Rightarrow> (Inl x, s2)
                 | (None, s2) \<Rightarrow>
                     if crash_now AfterJournal n s2 then (Inl (XCrash (''after journaling '' @ key)), s2)
                     else (Inr r, s2))))"

definition op_run ::
  "'w env \<Rightarrow> string \<Rightarrow> string \<Rightarrow> jsval \<Rightarrow> 'w st \<Rightarrow> (exn + jsval) \<times> 'w st" where
  "op_run E key name args s =
     (case replay KEffect key s of
        (Inl x, s1) \<Rightarrow> (Inl x, s1)
      | (Inr (Some (EEffectThrew _ p)), s1) \<Rightarrow> (Inl (XActivity (replayed_failure p)), s1)
      | (Inr (Some (EEffect _ r)), s1) \<Rightarrow> (Inr r, s1)
      | (Inr (Some _), s1) \<Rightarrow> (Inr JUndef, s1)
      | (Inr None, s1) \<Rightarrow>
          (case activities E name of
             None \<Rightarrow> (Inl (XNoActivity name), s1)
           | Some act \<Rightarrow>
               (let n = executed_effects s1 + 1; s2 = s1\<lparr>executed_effects := n\<rparr> in
                if crash_now BeforeExecute n s2 then (Inl (XCrash (''before executing '' @ key)), s2)
                else (case act args key (world s2) of
                        (out, w) \<Rightarrow> settle E key name args n out (s2\<lparr>world := w\<rparr>)))))"

definition op_now :: "'w env \<Rightarrow> string \<Rightarrow> 'w st \<Rightarrow> (exn + int) \<times> 'w st" where
  "op_now E key s =
     (case replay KNow key s of
        (Inl x, s1) \<Rightarrow> (Inl x, s1)
      | (Inr (Some (ENow _ t)), s1) \<Rightarrow> (Inr t, s1)
      | (Inr (Some _), s1) \<Rightarrow> (Inr 0, s1)
      | (Inr None, s1) \<Rightarrow>
          (let t = clock E (world s1) in
           case ctx_append E (ENow key t) s1 of
             (Some x, s2) \<Rightarrow> (Inl x, s2)
           | (None, s2) \<Rightarrow> (Inr t, s2)))"

text \<open>The wake a timer call reads back, or journals: \<open>prior ? prior.fireAt : wakeAt\<close>, and whether
  this call was the one that journaled it.\<close>

definition timer_wake :: "'w env \<Rightarrow> string \<Rightarrow> int \<Rightarrow> 'w st \<Rightarrow> (exn + int \<times> bool) \<times> 'w st" where
  "timer_wake E key wake s =
     (case replay KTimer key s of
        (Inl x, s1) \<Rightarrow> (Inl x, s1)
      | (Inr (Some (ETimer _ t)), s1) \<Rightarrow> (Inr (t, False), s1)
      | (Inr (Some _), s1) \<Rightarrow> (Inr (wake, False), s1)
      | (Inr None, s1) \<Rightarrow>
          (case ctx_append E (ETimer key wake) s1 of
             (Some x, s2) \<Rightarrow> (Inl x, s2)
           | (None, s2) \<Rightarrow> (Inr (wake, True), s2)))"

definition op_sleep :: "'w env \<Rightarrow> string \<Rightarrow> int \<Rightarrow> jsval \<Rightarrow> 'w st \<Rightarrow> (exn + unit) \<times> 'w st" where
  "op_sleep E key wake meta s =
     (case timer_wake E key wake s of
        (Inl x, s1) \<Rightarrow> (Inl x, s1)
      | (Inr (fire, _), s1) \<Rightarrow>
          if clock E (world s1) < fire then (Inl (XSuspend (OnTimer key fire meta)), s1)
          else (Inr (), s1))"

definition op_yield :: "'w env \<Rightarrow> string \<Rightarrow> int \<Rightarrow> jsval \<Rightarrow> 'w st \<Rightarrow> (exn + unit) \<times> 'w st" where
  "op_yield E key wake meta s =
     (case timer_wake E key wake s of
        (Inl x, s1) \<Rightarrow> (Inl x, s1)
      | (Inr (fire, fresh), s1) \<Rightarrow>
          if fresh \<or> clock E (world s1) < fire then (Inl (XSuspend (OnTimer key fire meta)), s1)
          else (Inr (), s1))"

text \<open>Take the first pending signal of a name out of \<open>pending\<close> (\<open>findIndex\<close>, then \<open>splice\<close>).\<close>

fun take_signal :: "string \<Rightarrow> entry list \<Rightarrow> (jsval \<times> entry list) option" where
  "take_signal key [] = None"
| "take_signal key (e # es) =
     (case e of
        ESignal k pl \<Rightarrow>
          if k = key then Some (pl, es) else map_option (\<lambda>(p, r). (p, e # r)) (take_signal key es)
      | _ \<Rightarrow> map_option (\<lambda>(p, r). (p, e # r)) (take_signal key es))"

definition consume_signal :: "string \<Rightarrow> 'w st \<Rightarrow> 'w st" where
  "consume_signal key s =
     (case take_signal key (pending s) of None \<Rightarrow> s | Some (_, ps) \<Rightarrow> s\<lparr>pending := ps\<rparr>)"

definition op_await ::
  "'w env \<Rightarrow> string \<Rightarrow> string \<Rightarrow> int option \<Rightarrow> jsval \<Rightarrow> 'w st \<Rightarrow> (exn + await_outcome) \<times> 'w st" where
  "op_await E key name deadline meta s =
     (case replay KAwait key s of
        (Inl x, s1) \<Rightarrow> (Inl x, s1)
      | (Inr (Some (EAwait _ out)), s1) \<Rightarrow>
          (Inr out, if received out then consume_signal (''signal:'' @ name) (drain_signals s1) else s1)
      | (Inr (Some _), s1) \<Rightarrow> (Inr \<lparr>received = False, payload = JUndef\<rparr>, s1)
      | (Inr None, s1) \<Rightarrow>
          (let s2 = drain_signals s1 in
           case take_signal (''signal:'' @ name) (pending s2) of
             Some (pl, ps) \<Rightarrow>
               (let out = \<lparr>received = True, payload = pl\<rparr> in
                case ctx_append E (EAwait key out) (s2\<lparr>pending := ps\<rparr>) of
                  (Some x, s3) \<Rightarrow> (Inl x, s3)
                | (None, s3) \<Rightarrow> (Inr out, s3))
           | None \<Rightarrow>
               (case deadline of
                  Some d \<Rightarrow>
                    if d \<le> clock E (world s2)
                    then (let out = \<lparr>received = False, payload = JUndef\<rparr> in
                          case ctx_append E (EAwait key out) s2 of
                            (Some x, s3) \<Rightarrow> (Inl x, s3)
                          | (None, s3) \<Rightarrow> (Inr out, s3))
                    else (Inl (XSuspend (OnSignal key name deadline meta)), s2)
                | None \<Rightarrow> (Inl (XSuspend (OnSignal key name deadline meta)), s2))))"

subsection \<open>Running a workflow\<close>

text \<open>The workflow function's own body: every context call in order, the continuation
  receiving the call's value or its exception.\<close>

primrec interp :: "'w env \<Rightarrow> wf \<Rightarrow> 'w st \<Rightarrow> (exn + jsval) \<times> 'w st" where
  "interp E (Done v) = (\<lambda>s. (Inr v, s))"
| "interp E (Throw x) = (\<lambda>s. (Inl x, s))"
| "interp E (Run key name args c) = (\<lambda>s. case op_run E key name args s of (r, s1) \<Rightarrow> interp E (c r) s1)"
| "interp E (Now key c) = (\<lambda>s. case op_now E key s of (r, s1) \<Rightarrow> interp E (c r) s1)"
| "interp E (SleepUntil key wake meta c) =
     (\<lambda>s. case op_sleep E key wake meta s of (r, s1) \<Rightarrow> interp E (c r) s1)"
| "interp E (YieldUntil key wake meta c) =
     (\<lambda>s. case op_yield E key wake meta s of (r, s1) \<Rightarrow> interp E (c r) s1)"
| "interp E (AwaitSignal key name deadline meta c) =
     (\<lambda>s. case op_await E key name deadline meta s of (r, s1) \<Rightarrow> interp E (c r) s1)"
| "interp E (IsReplaying c) = (\<lambda>s. interp E (c (is_replaying s)) s)"

text \<open>A fresh context: the cursor past the header, nothing pending, no key seen.\<close>

definition start_ctx :: "'w st \<Rightarrow> 'w st" where
  "start_ctx s =
     s\<lparr>cursor := (case journal_version (journal s) of Some _ \<Rightarrow> 1 | None \<Rightarrow> 0), pending := [], seen := []\<rparr>"

definition classify :: "(exn + jsval) \<times> 'w st \<Rightarrow> run_result" where
  "classify p =
     (case poisoned (snd p) of
        Some f \<Rightarrow> Failed (XPersist f)
      | None \<Rightarrow>
          (case fst p of
             Inr v \<Rightarrow> Completed v
           | Inl (XSuspend d) \<Rightarrow> Suspended d
           | Inl (XCrash wh) \<Rightarrow> Crashed wh
           | Inl x \<Rightarrow> Failed x))"

text \<open>\<open>run()\<close>. A persist failure of the header's append is thrown outside the try
  block, so the promise rejects and the status stays \<open>running\<close> (\<open>None\<close> here).\<close>

definition run_wf :: "'w env \<Rightarrow> wf \<Rightarrow> 'w st \<Rightarrow> run_result \<times> 'w st" where
  "run_wf E w s =
     (case poisoned s of
        Some f \<Rightarrow> (Failed (XPersist f), s\<lparr>settled := Some (Failed (XPersist f))\<rparr>)
      | None \<Rightarrow>
          (case journal_tombstone (journal s) of
             Some t \<Rightarrow> (Failed (XTombstoned t), s\<lparr>settled := Some (Failed (XTombstoned t))\<rparr>)
           | None \<Rightarrow>
               (case bind_version E s of
                  (Inl x, s1) \<Rightarrow> (Rejected x, s1\<lparr>settled := None\<rparr>)
                | (Inr (Some x), s1) \<Rightarrow> (Failed x, s1\<lparr>settled := Some (Failed x)\<rparr>)
                | (Inr None, s1) \<Rightarrow>
                    (let p = interp E w (start_ctx s1); r = classify p
                     in (r, (snd p)\<lparr>settled := Some r\<rparr>)))))"

end
