(* ===== verification/WorkflowReplay.thy ===== *)
theory WorkflowReplay
  imports Workflow
begin

text \<open>
  What makes the journal the progress of a workflow: a run only appends to the
  journal, appends step entries under keys not used before, and a run over the
  journal another run left behind reads every step back, touches no activity, and
  lands on the same result.
\<close>

subsection \<open>Growth of the journal\<close>

abbreviation is_step :: "entry \<Rightarrow> bool" where
  "is_step e \<equiv> entry_kind e \<in> {KEffect, KNow, KTimer, KAwait}"

definition grows :: "entry list \<Rightarrow> entry list \<Rightarrow> bool" where
  "grows j j' \<longleftrightarrow> (\<exists>ext. j' = j @ ext \<and> (\<forall>e\<in>set ext. is_step e))"

lemma grows_refl [simp, intro]: "grows j j"
  by (auto simp: grows_def)

lemma grows_trans [trans]: "grows a b \<Longrightarrow> grows b c \<Longrightarrow> grows a c"
  by (auto simp: grows_def)

lemma grows_snoc [simp]: "grows j (j @ [e]) \<longleftrightarrow> is_step e"
  by (auto simp: grows_def)

lemma grows_length: "grows a b \<Longrightarrow> length a \<le> length b"
  by (auto simp: grows_def)

lemma grows_nth: "grows a b \<Longrightarrow> i < length a \<Longrightarrow> b ! i = a ! i"
  by (auto simp: grows_def nth_append)

lemma grows_tombstone:
  assumes "grows a b"
  shows "journal_tombstone b = journal_tombstone a"
proof -
  from assms obtain ext where b: "b = a @ ext" and st: "\<forall>e\<in>set ext. is_step e"
    by (auto simp: grows_def)
  from st have "List.find (\<lambda>e. entry_kind e = KTombstone) ext = None"
    by (auto simp: find_None_set)
  then show ?thesis by (simp add: b journal_tombstone_def find_append split: option.split)
qed

lemma grows_version:
  assumes "grows a b"
  shows "journal_version b = journal_version a"
proof -
  from assms obtain ext where b: "b = a @ ext" and st: "\<forall>e\<in>set ext. is_step e"
    by (auto simp: grows_def)
  show ?thesis
  proof (cases a)
    case Nil
    with b st show ?thesis by (cases ext rule: journal_version.cases) auto
  next
    case (Cons e es)
    with b show ?thesis by (cases e) auto
  qed
qed

lemma takeWhile_no: "\<forall>e\<in>set ext. \<not> p e \<Longrightarrow> takeWhile p ext = []"
  by (cases ext) auto

lemma grows_drain:
  assumes "grows a b" and "c \<le> length a"
  shows "takeWhile is_signal (drop c b) = takeWhile is_signal (drop c a)"
proof -
  from assms obtain ext where b: "b = a @ ext" and st: "\<forall>e\<in>set ext. is_step e"
    by (auto simp: grows_def)
  from st have "\<forall>e\<in>set ext. \<not> is_signal e" by auto
  then have "takeWhile is_signal (xs @ ext) = takeWhile is_signal xs" for xs
    by (induction xs) (auto simp: takeWhile_no)
  with b assms(2) show ?thesis by simp
qed

subsection \<open>Frame facts of the context operations\<close>

definition cursor_ok :: "'w st \<Rightarrow> bool" where
  "cursor_ok s \<longleftrightarrow> cursor s \<le> length (journal s)"

text \<open>What every context call keeps: the journal grows by step entries, the cursor
  stays inside it, a poisoned execution stays poisoned and journals nothing more.\<close>

definition advances :: "'w st \<Rightarrow> 'w st \<Rightarrow> bool" where
  "advances s t \<longleftrightarrow> grows (journal s) (journal t) \<and> cursor_ok t \<and> version t = version s
     \<and> (\<forall>f. poisoned s = Some f \<longrightarrow> poisoned t = Some f \<and> journal t = journal s)"

lemma advances_refl [simp]: "advances s s \<longleftrightarrow> cursor_ok s"
  by (auto simp: advances_def)

lemma advances_trans [trans]: "advances a b \<Longrightarrow> advances b c \<Longrightarrow> advances a c"
  by (auto simp: advances_def intro: grows_trans)

lemma advances_ok: "advances s t \<Longrightarrow> cursor_ok t"
  by (simp add: advances_def)

lemma drain_frame [simp]:
  "journal (drain_signals s) = journal s" "version (drain_signals s) = version s"
  "poisoned (drain_signals s) = poisoned s" "world (drain_signals s) = world s"
  "seen (drain_signals s) = seen s" "executed_effects (drain_signals s) = executed_effects s"
  "crash_plan (drain_signals s) = crash_plan s"
  by (simp_all add: drain_signals_def Let_def)

lemma drain_cursor_ok: "cursor_ok s \<Longrightarrow> cursor_ok (drain_signals s)"
proof -
  assume ok: "cursor_ok s"
  have "length (takeWhile is_signal (drop (cursor s) (journal s))) \<le> length (journal s) - cursor s"
    using length_takeWhile_le [of is_signal "drop (cursor s) (journal s)"] by simp
  with ok show ?thesis by (simp add: drain_signals_def Let_def cursor_ok_def)
qed

lemma replay_frame:
  assumes "replay k key s = (r, s1)"
  shows "journal s1 = journal s" "version s1 = version s" "poisoned s1 = poisoned s"
    "world s1 = world s" "executed_effects s1 = executed_effects s" "crash_plan s1 = crash_plan s"
  using assms by (auto simp: replay_def Let_def split: if_splits option.splits)

lemma replay_advances: "replay k key s = (r, s1) \<Longrightarrow> cursor_ok s \<Longrightarrow> advances s s1"
  using drain_cursor_ok [of "s\<lparr>seen := key # seen s\<rparr>"]
  by (auto simp: replay_def Let_def advances_def cursor_ok_def entry_at_cursor_def split: if_splits option.splits)

lemma replay_frontier:
  "replay k key s = (Inr None, s1) \<Longrightarrow> cursor_ok s \<Longrightarrow> cursor s1 = length (journal s1)"
  using drain_cursor_ok [of "s\<lparr>seen := key # seen s\<rparr>"]
  by (auto simp: replay_def Let_def cursor_ok_def entry_at_cursor_def split: if_splits option.splits)

lemma append_entry_frame:
  assumes "append_entry E e s = (x, s1)"
  shows "journal s1 = journal s @ [e]" "version s1 = version s" "cursor s1 = cursor s"
    "pending s1 = pending s" "seen s1 = seen s" "executed_effects s1 = executed_effects s"
    "crash_plan s1 = crash_plan s"
    "poisoned s1 = (case x of Some (XPersist f) \<Rightarrow> Some f | _ \<Rightarrow> poisoned s)"
  using assms by (auto simp: append_entry_def Let_def split: option.splits prod.splits)

lemma ctx_append_advances:
  assumes "ctx_append E e s = (x, s1)" and "cursor_ok s" and "is_step e"
  shows "advances s s1"
proof (cases "poisoned s")
  case None
  obtain y t where ae: "append_entry E e s = (y, t)" by (cases "append_entry E e s")
  note f = append_entry_frame [OF ae]
  from None ae assms(1) have "journal s1 = journal s @ [e]" "version s1 = version s" "cursor_ok s1"
    using f assms(2) by (auto simp: ctx_append_def cursor_ok_def split: option.splits)
  with None assms(3) show ?thesis by (simp add: advances_def)
next
  case (Some f)
  with assms show ?thesis by (simp add: ctx_append_def)
qed

lemma ctx_append_ok:
  assumes "ctx_append E e s = (None, s1)"
  shows "poisoned s1 = None" "journal s1 = journal s @ [e]" "cursor s1 = Suc (length (journal s))"
    "pending s1 = pending s" "seen s1 = seen s" "executed_effects s1 = executed_effects s"
proof -
  obtain y t where ae: "append_entry E e s = (y, t)" by (cases "append_entry E e s")
  note f = append_entry_frame [OF ae]
  from assms ae have n: "poisoned s = None" "y = None" and s1: "s1 = t\<lparr>cursor := length (journal t)\<rparr>"
    by (auto simp: ctx_append_def split: option.splits)
  show "poisoned s1 = None" "journal s1 = journal s @ [e]" "cursor s1 = Suc (length (journal s))"
    "pending s1 = pending s" "seen s1 = seen s" "executed_effects s1 = executed_effects s"
    using f n by (simp_all add: s1)
qed

lemma ctx_append_Some_poisoned:
  assumes "ctx_append E e s = (Some x, s1)"
  shows "poisoned s1 \<noteq> None"
  using assms
  by (auto simp: ctx_append_def append_entry_def Let_def split: option.splits prod.splits)

lemma advances_frame:
  "journal t' = journal t \<Longrightarrow> version t' = version t \<Longrightarrow> poisoned t' = poisoned t \<Longrightarrow>
   cursor t' = cursor t \<Longrightarrow> advances s t \<Longrightarrow> advances s t'"
  by (auto simp: advances_def cursor_ok_def)

lemma advances_frame_left:
  "journal s' = journal s \<Longrightarrow> version s' = version s \<Longrightarrow> poisoned s' = poisoned s \<Longrightarrow>
   advances s' t \<Longrightarrow> advances s t"
  by (auto simp: advances_def)

lemma settle_advances:
  assumes "settle E key name args n out s = (r, s1)" and "cursor_ok s"
  shows "advances s s1"
proof -
  let ?s0 = "case out of Inl _ \<Rightarrow> s | Inr v \<Rightarrow> s\<lparr>world := on_activity E key name args v (world s)\<rparr>"
  have fr: "journal ?s0 = journal s" "version ?s0 = version s" "poisoned ?s0 = poisoned s"
    "cursor ?s0 = cursor s"
    by (auto split: sum.splits)
  then have ok: "cursor_ok ?s0" using assms(2) by (simp add: cursor_ok_def)
  have "advances ?s0 s1"
    using assms(1) ok
    by (auto simp: settle_def Let_def split: if_splits sum.splits option.splits prod.splits
        dest: ctx_append_advances)
  then show ?thesis by (rule advances_frame_left [OF fr(1-3)])
qed

lemma op_run_advances:
  assumes "op_run E key name args s = (r, s1)" and "cursor_ok s"
  shows "advances s s1"
proof -
  obtain p t where rp: "replay KEffect key s = (p, t)" by (cases "replay KEffect key s")
  note adv = replay_advances [OF rp assms(2)]
  then have okt: "cursor_ok t" by (rule advances_ok)
  have "advances t s1"
  proof (cases "p = Inr None \<and> activities E name \<noteq> None")
    case True
    then obtain act where act: "activities E name = Some act" and p: "p = Inr None" by auto
    let ?n = "executed_effects t + 1"
    let ?s2 = "t\<lparr>executed_effects := ?n\<rparr>"
    obtain out w where out: "act args key (world ?s2) = (out, w)" by (cases "act args key (world ?s2)")
    show ?thesis
    proof (cases "crash_now BeforeExecute ?n ?s2")
      case True
      with assms(1) rp p act okt show ?thesis
        by (auto simp: op_run_def Let_def advances_def cursor_ok_def)
    next
      case False
      with assms(1) rp p act out have "settle E key name args ?n out (?s2\<lparr>world := w\<rparr>) = (r, s1)"
        by (simp add: op_run_def Let_def)
      from settle_advances [OF this] okt have "advances (?s2\<lparr>world := w\<rparr>) s1"
        by (simp add: cursor_ok_def)
      then show ?thesis by (rule advances_frame_left [rotated 3]) simp_all
    qed
  next
    case False
    with assms(1) rp okt have "s1 = t"
      by (auto simp: op_run_def split: sum.splits option.splits entry.splits)
    with okt show ?thesis by simp
  qed
  with adv show ?thesis by (rule advances_trans)
qed

lemma op_now_advances:
  assumes "op_now E key s = (r, s1)" and "cursor_ok s"
  shows "advances s s1"
proof -
  obtain p t where rp: "replay KNow key s = (p, t)" by (cases "replay KNow key s")
  note adv = replay_advances [OF rp assms(2)]
  then have okt: "cursor_ok t" by (rule advances_ok)
  then have "advances t s1"
    using assms(1) rp
    by (auto simp: op_now_def Let_def split: sum.splits option.splits prod.splits entry.splits
        dest: ctx_append_advances)
  with adv show ?thesis by (rule advances_trans)
qed

lemma timer_wake_advances:
  assumes "timer_wake E key wake s = (r, s1)" and "cursor_ok s"
  shows "advances s s1"
proof -
  obtain p t where rp: "replay KTimer key s = (p, t)" by (cases "replay KTimer key s")
  note adv = replay_advances [OF rp assms(2)]
  then have okt: "cursor_ok t" by (rule advances_ok)
  then have "advances t s1"
    using assms(1) rp
    by (auto simp: timer_wake_def Let_def split: sum.splits option.splits prod.splits entry.splits
        dest: ctx_append_advances)
  with adv show ?thesis by (rule advances_trans)
qed

lemma op_sleep_advances:
  "op_sleep E key wake meta s = (r, s1) \<Longrightarrow> cursor_ok s \<Longrightarrow> advances s s1"
  by (auto simp: op_sleep_def split: sum.splits prod.splits if_splits dest: timer_wake_advances)

lemma op_yield_advances:
  "op_yield E key wake meta s = (r, s1) \<Longrightarrow> cursor_ok s \<Longrightarrow> advances s s1"
  by (auto simp: op_yield_def split: sum.splits prod.splits if_splits dest: timer_wake_advances)

lemma drain_advances: "cursor_ok s \<Longrightarrow> advances s (drain_signals s)"
  by (simp add: advances_def drain_cursor_ok)

lemma consume_frame [simp]:
  "journal (consume_signal k s) = journal s" "version (consume_signal k s) = version s"
  "poisoned (consume_signal k s) = poisoned s" "cursor (consume_signal k s) = cursor s"
  "world (consume_signal k s) = world s" "seen (consume_signal k s) = seen s"
  "executed_effects (consume_signal k s) = executed_effects s"
  by (auto simp: consume_signal_def split: option.splits)

lemma ctx_append_pending_advances:
  assumes "ctx_append E e (s\<lparr>pending := ps\<rparr>) = (x, s1)" and "cursor_ok s" and "is_step e"
  shows "advances s s1"
proof -
  have "cursor_ok (s\<lparr>pending := ps\<rparr>)" using assms(2) by (simp add: cursor_ok_def)
  from ctx_append_advances [OF assms(1) this assms(3)] show ?thesis
    by (rule advances_frame_left [rotated 3]) simp_all
qed

lemma op_await_advances:
  assumes "op_await E key name deadline meta s = (r, s1)" and "cursor_ok s"
  shows "advances s s1"
proof -
  obtain p t where rp: "replay KAwait key s = (p, t)" by (cases "replay KAwait key s")
  note adv = replay_advances [OF rp assms(2)]
  then have okt: "cursor_ok t" by (rule advances_ok)
  let ?d = "drain_signals t"
  have d: "advances t ?d" by (rule drain_advances [OF okt])
  have "advances t s1"
  proof (cases "p = Inr None")
    case True
    have "advances ?d s1"
      using assms(1) rp True advances_ok [OF d]
      by (auto simp: op_await_def Let_def split: option.splits prod.splits if_splits
          dest: ctx_append_advances ctx_append_pending_advances)
    with d show ?thesis by (rule advances_trans)
  next
    case False
    have "advances t (consume_signal k ?d)" for k
      by (rule advances_frame [OF _ _ _ _ d]) simp_all
    with False assms(1) rp okt show ?thesis
      by (auto simp: op_await_def split: sum.splits option.splits entry.splits)
  qed
  with adv show ?thesis by (rule advances_trans)
qed

lemmas op_advances =
  op_run_advances op_now_advances op_sleep_advances op_yield_advances op_await_advances

lemma interp_advances:
  "interp E w s = (r, s1) \<Longrightarrow> cursor_ok s \<Longrightarrow> advances s s1"
proof (induction w arbitrary: s)
  case (Run key name args c)
  obtain p t where op: "op_run E key name args s = (p, t)" by (cases "op_run E key name args s")
  from op_run_advances [OF op Run.prems(2)] have a: "advances s t" .
  also from Run op a have "advances t s1" by (auto dest: advances_ok)
  finally show ?case .
next
  case (Now key c)
  obtain p t where op: "op_now E key s = (p, t)" by (cases "op_now E key s")
  from op_now_advances [OF op Now.prems(2)] have a: "advances s t" .
  also from Now op a have "advances t s1" by (auto dest: advances_ok)
  finally show ?case .
next
  case (SleepUntil key wake meta c)
  obtain p t where op: "op_sleep E key wake meta s = (p, t)" by (cases "op_sleep E key wake meta s")
  from op_sleep_advances [OF op SleepUntil.prems(2)] have a: "advances s t" .
  also from SleepUntil op a have "advances t s1" by (auto dest: advances_ok)
  finally show ?case .
next
  case (YieldUntil key wake meta c)
  obtain p t where op: "op_yield E key wake meta s = (p, t)" by (cases "op_yield E key wake meta s")
  from op_yield_advances [OF op YieldUntil.prems(2)] have a: "advances s t" .
  also from YieldUntil op a have "advances t s1" by (auto dest: advances_ok)
  finally show ?case .
next
  case (AwaitSignal key name deadline meta c)
  obtain p t where op: "op_await E key name deadline meta s = (p, t)"
    by (cases "op_await E key name deadline meta s")
  from op_await_advances [OF op AwaitSignal.prems(2)] have a: "advances s t" .
  also from AwaitSignal op a have "advances t s1" by (auto dest: advances_ok)
  finally show ?case .
qed auto


subsection \<open>Well-behaved workflows\<close>

text \<open>
  What the kernel asks of a workflow function: every exception that is not an activity's
  own failure passes through untouched (\<open>isControlFlow\<close>), an activity's failure is read
  only through what replay can restore of it (or is simply rethrown), and
  \<open>isReplaying\<close> decides no journaled step.
\<close>

definition passes_through :: "(exn + 'a \<Rightarrow> wf) \<Rightarrow> bool" where
  "passes_through c \<longleftrightarrow> (\<forall>x. (\<forall>f. x \<noteq> XActivity f) \<longrightarrow> c (Inl x) = Throw x)"

definition reads_failures_blind :: "(exn + 'a \<Rightarrow> wf) \<Rightarrow> bool" where
  "reads_failures_blind c \<longleftrightarrow>
     (\<forall>f. let f' = replayed_failure (journal_failure f) in
       c (Inl (XActivity f)) = c (Inl (XActivity f')) \<or>
       (c (Inl (XActivity f)) = Throw (XActivity f) \<and> c (Inl (XActivity f')) = Throw (XActivity f')))"

primrec well_behaved :: "wf \<Rightarrow> bool" where
  "well_behaved (Done v) = True"
| "well_behaved (Throw x) = True"
| "well_behaved (Run key name args c) =
     (passes_through c \<and> reads_failures_blind c \<and> (\<forall>r. well_behaved (c r)))"
| "well_behaved (Now key c) = (passes_through c \<and> (\<forall>r. well_behaved (c r)))"
| "well_behaved (SleepUntil key wake meta c) = (passes_through c \<and> (\<forall>r. well_behaved (c r)))"
| "well_behaved (YieldUntil key wake meta c) = (passes_through c \<and> (\<forall>r. well_behaved (c r)))"
| "well_behaved (AwaitSignal key name deadline meta c) = (passes_through c \<and> (\<forall>r. well_behaved (c r)))"
| "well_behaved (IsReplaying c) = (c True = c False \<and> (\<forall>b. well_behaved (c b)))"

subsection \<open>A replaying run mirrors the run that wrote the journal\<close>

text \<open>\<open>mirrors J s t\<close>: the context of \<open>t\<close>, over the finished journal \<open>J\<close>, stands where the
  context of \<open>s\<close> stands, over a journal \<open>J\<close> extends by steps.\<close>

definition mirrors :: "entry list \<Rightarrow> 'w st \<Rightarrow> 'v st \<Rightarrow> bool" where
  "mirrors J s t \<longleftrightarrow> journal t = J \<and> grows (journal s) J \<and> cursor t = cursor s
     \<and> pending t = pending s \<and> seen t = seen s \<and> poisoned t = None"

text \<open>A call that only read the journal: nothing executed, nothing appended.\<close>

definition quiet :: "'w st \<Rightarrow> 'w st \<Rightarrow> bool" where
  "quiet t t1 \<longleftrightarrow> world t1 = world t \<and> executed_effects t1 = executed_effects t
     \<and> journal t1 = journal t \<and> version t1 = version t \<and> poisoned t1 = poisoned t"

lemma quiet_refl [simp]: "quiet t t"
  by (simp add: quiet_def)

lemma quiet_trans: "quiet a b \<Longrightarrow> quiet b c \<Longrightarrow> quiet a c"
  by (simp add: quiet_def)

lemma quiet_drain [simp]: "quiet t (drain_signals t)"
  by (simp add: quiet_def)

lemma quiet_consume [simp]: "quiet t (consume_signal k t)"
  by (simp add: quiet_def)

lemma drain_mirrors:
  assumes "mirrors J s t" and "cursor_ok s"
  shows "mirrors J (drain_signals s) (drain_signals t)"
proof -
  have "takeWhile is_signal (drop (cursor s) J) = takeWhile is_signal (drop (cursor s) (journal s))"
    using assms by (intro grows_drain) (auto simp: mirrors_def cursor_ok_def)
  with assms(1) show ?thesis by (simp add: mirrors_def drain_signals_def Let_def)
qed

lemma consume_mirrors: "mirrors J s t \<Longrightarrow> mirrors J (consume_signal k s) (consume_signal k t)"
  by (auto simp: mirrors_def consume_signal_def split: option.splits)

lemma replay_mirrors:
  assumes m: "mirrors J s t" and ok: "cursor_ok s"
    and r: "replay k key s = (r, s1)" and ne: "r \<noteq> Inr None"
  shows "\<exists>t1. replay k key t = (r, t1) \<and> mirrors J s1 t1 \<and> quiet t t1"
proof (cases "key \<in> set (seen s)")
  case True
  with m r show ?thesis by (auto simp: replay_def mirrors_def)
next
  case False
  let ?s0 = "s\<lparr>seen := key # seen s\<rparr>" and ?t0 = "t\<lparr>seen := key # seen t\<rparr>"
  let ?ds = "drain_signals ?s0" and ?dt = "drain_signals ?t0"
  have m0: "mirrors J ?ds ?dt"
    using m ok by (intro drain_mirrors) (auto simp: mirrors_def cursor_ok_def)
  from False r ne have lt: "cursor ?ds < length (journal ?ds)"
    by (auto simp: replay_def Let_def entry_at_cursor_def split: if_splits)
  from m0 have g: "grows (journal ?ds) J" and j: "journal ?dt = J" and c: "cursor ?dt = cursor ?ds"
    by (auto simp: mirrors_def)
  have e: "entry_at_cursor ?dt = entry_at_cursor ?ds"
    using lt grows_length [OF g] grows_nth [OF g lt] unfolding entry_at_cursor_def j c by simp
  have "key \<notin> set (seen t)" using False m by (simp add: mirrors_def)
  with False r e c m0 show ?thesis
    by (auto simp: replay_def Let_def mirrors_def quiet_def split: option.splits if_splits)
qed

lemma replay_mirrors_frontier:
  assumes m: "mirrors J s t" and ok: "cursor_ok s"
    and r: "replay k key s = (Inr None, s1)"
    and g: "grows (journal s @ [e]) J" and ek: "entry_key e = Some key" "entry_kind e = k"
  shows "\<exists>t1. replay k key t = (Inr (Some e), t1) \<and> quiet t t1 \<and>
    mirrors J (s1\<lparr>journal := journal s @ [e], cursor := Suc (length (journal s))\<rparr>) t1"
proof -
  let ?s0 = "s\<lparr>seen := key # seen s\<rparr>" and ?t0 = "t\<lparr>seen := key # seen t\<rparr>"
  let ?ds = "drain_signals ?s0" and ?dt = "drain_signals ?t0"
  have m0: "mirrors J ?ds ?dt"
    using m ok by (intro drain_mirrors) (auto simp: mirrors_def cursor_ok_def)
  from r have ns: "key \<notin> set (seen s)" and s1: "s1 = ?ds"
    by (auto simp: replay_def Let_def split: if_splits option.splits)
  have cs: "cursor s1 = length (journal s)"
    using replay_frontier [OF r ok] replay_frame(1) [OF r] by simp
  from m0 have j: "journal ?dt = J" and c: "cursor ?dt = length (journal s)"
    using cs s1 by (auto simp: mirrors_def)
  have "J ! length (journal s) = e" "length (journal s) < length J"
    using grows_nth [OF g, of "length (journal s)"] grows_length [OF g] by auto
  then have "entry_at_cursor ?dt = Some e"
    unfolding entry_at_cursor_def j c by simp
  moreover have "key \<notin> set (seen t)" using ns m by (simp add: mirrors_def)
  ultimately show ?thesis
    using ek g m0 j c s1 by (auto simp: replay_def Let_def mirrors_def quiet_def)
qed

lemma mirrors_frame:
  assumes "mirrors J s t" and "journal s' = journal s" "cursor s' = cursor s"
    "pending s' = pending s" "seen s' = seen s"
  shows "mirrors J s' t"
  using assms by (simp add: mirrors_def)

definition same_outcome :: "exn + 'a \<Rightarrow> exn + 'a \<Rightarrow> bool" where
  "same_outcome r r' \<longleftrightarrow> r' = r \<or>
     (\<exists>f. r = Inl (XActivity f) \<and> r' = Inl (XActivity (replayed_failure (journal_failure f))))"

definition verdict :: "exn + 'a \<Rightarrow> bool" where
  "verdict r \<longleftrightarrow> (case r of Inr _ \<Rightarrow> True | Inl x \<Rightarrow> (\<exists>f. x = XActivity f))"

lemma same_outcome_refl [simp]: "same_outcome r r"
  by (simp add: same_outcome_def)

text \<open>What replay gives back for the outcome \<open>r\<close> of an activity call: the outcome itself, or the
  failure an activity threw live, rebuilt from the journal.\<close>

definition restored :: "'w env \<Rightarrow> string \<Rightarrow> string \<Rightarrow> exn + jsval \<Rightarrow> exn + jsval \<Rightarrow> bool" where
  "restored E name key r r' \<longleftrightarrow>
     (r' = r \<and> (\<forall>f. r = Inl (XActivity f) \<longrightarrow> f_replayed f)) \<or>
     (\<exists>f act args w w'. r = Inl (XActivity f) \<and> r' = Inl (XActivity (replayed_failure (journal_failure f)))
        \<and> activities E name = Some act \<and> act args key w = (Inl f, w'))"

lemma restored_same: "restored E name key r r' \<Longrightarrow> same_outcome r r'"
  by (auto simp: restored_def same_outcome_def)

lemma replay_no_failure: "replay k key s = (Inl x, u) \<Longrightarrow> is_control_flow x"
  by (auto simp: replay_def Let_def split: if_splits option.splits)


lemma append_mirrors:
  assumes "ctx_append E e u = (None, s1)" and "journal u = j"
    and "mirrors J (s0\<lparr>journal := j @ [e], cursor := Suc (length j)\<rparr>) t1"
    and "pending u = pending s0" "seen u = seen s0"
  shows "mirrors J s1 t1"
  by (rule mirrors_frame [OF assms(3)]) (use ctx_append_ok [OF assms(1)] assms in simp_all)

lemma settle_verdict:
  assumes "settle E key name args n out u = (r, s1)" and "verdict r" and "poisoned s1 = None"
  shows "\<exists>e u'. ctx_append E e u' = (None, s1) \<and> journal u' = journal u \<and> pending u' = pending u
    \<and> seen u' = seen u \<and>
    ((\<exists>v. r = Inr v \<and> e = EEffect key v) \<or>
     (\<exists>f. r = Inl (XActivity f) \<and> out = Inl f \<and> e = EEffectThrew key (journal_failure f)))"
proof (cases out)
  case (Inl f)
  with assms have "ctx_append E (EEffectThrew key (journal_failure f)) u = (None, s1)"
    "r = Inl (XActivity f)"
    using ctx_append_Some_poisoned
    by (fastforce simp: settle_def verdict_def Let_def split: if_splits option.splits prod.splits)+
  with Inl show ?thesis by blast
next
  case (Inr v)
  let ?u = "u\<lparr>world := on_activity E key name args v (world u)\<rparr>"
  from Inr assms have "ctx_append E (EEffect key v) ?u = (None, s1)" "r = Inr v"
    using ctx_append_Some_poisoned
    by (fastforce simp: settle_def verdict_def Let_def split: if_splits option.splits prod.splits)+
  then show ?thesis by (intro exI [of _ "EEffect key v"] exI [of _ ?u]) simp
qed

lemma grows_between: "grows (a @ [e]) b \<Longrightarrow> grows a c \<Longrightarrow> grows c b \<Longrightarrow> grows (a @ [e]) b"
  by simp

lemma op_run_mirrors:
  assumes op: "op_run E key name args s = (r, s1)" and ok: "cursor_ok s"
    and m: "mirrors J s t" and g: "grows (journal s1) J"
    and v: "verdict r" and np: "poisoned s1 = None"
  shows "\<exists>r' t1. op_run E' key name' args' t = (r', t1) \<and> mirrors J s1 t1 \<and> quiet t t1
    \<and> restored E name key r r'"
proof -
  obtain p u where rp: "replay KEffect key s = (p, u)" by (cases "replay KEffect key s")
  show ?thesis
  proof (cases "p = Inr None")
    case False
    from replay_mirrors [OF m ok rp False] obtain t1
      where t1: "replay KEffect key t = (p, t1)" "mirrors J u t1" "quiet t t1" by blast
    from op rp False have "s1 = u" "op_run E' key name' args' t = (r, t1)"
      using t1(1) by (auto simp: op_run_def split: sum.splits option.splits entry.splits)
    moreover have "restored E name key r r"
      using op rp False replay_no_failure [of KEffect key s _ u]
      by (auto simp: restored_def op_run_def replayed_failure_def split: sum.splits option.splits entry.splits)
    ultimately show ?thesis using t1 by auto
  next
    case True
    note fr = replay_frame [OF rp]
    from op rp True v obtain act where act: "activities E name = Some act"
      by (auto simp: op_run_def verdict_def split: option.splits)
    let ?n = "executed_effects u + 1"
    let ?u2 = "u\<lparr>executed_effects := ?n\<rparr>"
    obtain out w where out: "act args key (world ?u2) = (out, w)" by (cases "act args key (world ?u2)")
    from op rp True act out v have "settle E key name args ?n out (?u2\<lparr>world := w\<rparr>) = (r, s1)"
      by (auto simp: op_run_def Let_def verdict_def split: if_splits)
    from settle_verdict [OF this v np] obtain e u'
      where ap: "ctx_append E e u' = (None, s1)" and u': "journal u' = journal u" "pending u' = pending u"
        "seen u' = seen u" and
        e: "(\<exists>v. r = Inr v \<and> e = EEffect key v) \<or>
            (\<exists>f. r = Inl (XActivity f) \<and> out = Inl f \<and> e = EEffectThrew key (journal_failure f))"
      by auto
    from e have ek: "entry_key e = Some key" "entry_kind e = KEffect" by auto
    have "journal s1 = journal s @ [e]" using ctx_append_ok(2) [OF ap] u' fr by simp
    with g have "grows (journal s @ [e]) J" by simp
    from replay_mirrors_frontier [OF m ok _ this ek] rp True obtain t1
      where t1: "replay KEffect key t = (Inr (Some e), t1)" "quiet t t1"
        and m1: "mirrors J (u\<lparr>journal := journal s @ [e], cursor := Suc (length (journal s))\<rparr>) t1"
      by blast
    have "mirrors J s1 t1" using append_mirrors [OF ap _ m1] u' fr by simp
    moreover have "\<exists>r'. op_run E' key name' args' t = (r', t1) \<and> restored E name key r r'"
      using e t1(1) act out by (auto simp: op_run_def restored_def)
    ultimately show ?thesis using t1(2) by blast
  qed
qed

lemma op_now_mirrors:
  assumes op: "op_now E key s = (r, s1)" and ok: "cursor_ok s"
    and m: "mirrors J s t" and g: "grows (journal s1) J"
    and v: "verdict r" and np: "poisoned s1 = None"
  shows "\<exists>t1. op_now E' key t = (r, t1) \<and> mirrors J s1 t1 \<and> quiet t t1"
proof -
  obtain p u where rp: "replay KNow key s = (p, u)" by (cases "replay KNow key s")
  show ?thesis
  proof (cases "p = Inr None")
    case False
    from replay_mirrors [OF m ok rp False] obtain t1
      where t1: "replay KNow key t = (p, t1)" "mirrors J u t1" "quiet t t1" by blast
    from op rp False have "s1 = u" "op_now E' key t = (r, t1)"
      using t1(1) by (auto simp: op_now_def split: sum.splits option.splits entry.splits)
    with t1 show ?thesis by auto
  next
    case True
    note fr = replay_frame [OF rp]
    let ?e = "ENow key (clock E (world u))"
    from op rp True np have ap: "ctx_append E ?e u = (None, s1)" and r: "r = Inr (clock E (world u))"
      using ctx_append_Some_poisoned
      by (fastforce simp: op_now_def Let_def split: option.splits prod.splits)+
    have "journal s1 = journal s @ [?e]" using ctx_append_ok(2) [OF ap] fr by simp
    with g have "grows (journal s @ [?e]) J" by simp
    from replay_mirrors_frontier [OF m ok _ this, of KNow key u] rp True obtain t1
      where t1: "replay KNow key t = (Inr (Some ?e), t1)" "quiet t t1"
        and m1: "mirrors J (u\<lparr>journal := journal s @ [?e], cursor := Suc (length (journal s))\<rparr>) t1"
      by auto
    have "mirrors J s1 t1" using append_mirrors [OF ap _ m1] fr by simp
    with t1 r show ?thesis by (auto simp: op_now_def)
  qed
qed

lemma timer_wake_mirrors:
  assumes op: "timer_wake E key wake s = (Inr (fire, fresh), s1)" and ok: "cursor_ok s"
    and m: "mirrors J s t" and g: "grows (journal s1) J" and np: "poisoned s1 = None"
  shows "\<exists>t1. timer_wake E' key wake' t = (Inr (fire, False), t1) \<and> mirrors J s1 t1 \<and> quiet t t1
    \<and> ETimer key fire \<in> set J"
proof -
  obtain p u where rp: "replay KTimer key s = (p, u)" by (cases "replay KTimer key s")
  show ?thesis
  proof (cases "p = Inr None")
    case False
    from replay_mirrors [OF m ok rp False] obtain t1
      where t1: "replay KTimer key t = (p, t1)" "mirrors J u t1" "quiet t t1" by blast
    from op rp False obtain e where p: "p = Inr (Some e)"
      by (cases p) (auto simp: timer_wake_def split: option.splits)
    from rp p have ek: "entry_kind e = KTimer" "entry_key e = Some key" and mem: "e \<in> set (journal s)"
      by (auto simp: replay_def Let_def entry_at_cursor_def split: option.splits if_splits)
    from ek op rp p have e: "e = ETimer key fire" "fresh = False" "s1 = u"
      by (cases e; simp add: timer_wake_def)+
    moreover have "e \<in> set J" using mem m by (auto simp: mirrors_def grows_def)
    ultimately show ?thesis using t1 p by (auto simp: timer_wake_def)
  next
    case True
    note fr = replay_frame [OF rp]
    let ?e = "ETimer key wake"
    from op rp True np have ap: "ctx_append E ?e u = (None, s1)" and r: "fire = wake" "fresh"
      using ctx_append_Some_poisoned
      by (fastforce simp: timer_wake_def Let_def split: option.splits prod.splits)+
    have "journal s1 = journal s @ [?e]" using ctx_append_ok(2) [OF ap] fr by simp
    with g have g': "grows (journal s @ [?e]) J" by simp
    from replay_mirrors_frontier [OF m ok _ this, of KTimer key u] rp True obtain t1
      where t1: "replay KTimer key t = (Inr (Some ?e), t1)" "quiet t t1"
        and m1: "mirrors J (u\<lparr>journal := journal s @ [?e], cursor := Suc (length (journal s))\<rparr>) t1"
      by auto
    have "mirrors J s1 t1" using append_mirrors [OF ap _ m1] fr by simp
    with t1 r g' show ?thesis by (auto simp: timer_wake_def grows_def)
  qed
qed

text \<open>The clock of the replaying run has passed every wake the journal holds.\<close>

definition wakes_passed :: "entry list \<Rightarrow> int \<Rightarrow> bool" where
  "wakes_passed J now \<longleftrightarrow> (\<forall>k fire. ETimer k fire \<in> set J \<longrightarrow> fire \<le> now)"

lemma op_sleep_mirrors:
  assumes op: "op_sleep E key wake meta s = (r, s1)" and ok: "cursor_ok s"
    and m: "mirrors J s t" and g: "grows (journal s1) J"
    and v: "verdict r" and np: "poisoned s1 = None" and late: "wakes_passed J (clock E' (world t))"
  shows "\<exists>t1. op_sleep E' key wake' meta' t = (r, t1) \<and> mirrors J s1 t1 \<and> quiet t t1"
proof -
  obtain q u where tw: "timer_wake E key wake s = (q, u)" by (cases "timer_wake E key wake s")
  show ?thesis
  proof (cases q)
    case (Inl x)
    with op tw v show ?thesis
      using ctx_append_Some_poisoned np
      by (fastforce simp: op_sleep_def timer_wake_def replay_def verdict_def Let_def
          split: sum.splits option.splits prod.splits if_splits entry.splits)
  next
    case (Inr ff)
    obtain fire fresh where ff: "ff = (fire, fresh)" by (cases ff)
    from op tw Inr ff v have s1: "s1 = u" and r: "r = Inr ()"
      by (auto simp: op_sleep_def verdict_def split: if_splits)
    from timer_wake_mirrors [OF _ ok m, of E key wake fire fresh u E'] tw Inr ff g np s1 obtain t1
      where "timer_wake E' key wake' t = (Inr (fire, False), t1)" "mirrors J s1 t1" "quiet t t1"
        "ETimer key fire \<in> set J" by auto
    with late r show ?thesis
      by (fastforce simp: op_sleep_def wakes_passed_def quiet_def)
  qed
qed


lemma timer_wake_no_failure: "timer_wake E key wake s = (Inl x, u) \<Longrightarrow> poisoned u = None \<Longrightarrow> \<not> verdict (Inl x :: exn + 'a)"
  using ctx_append_Some_poisoned
  by (fastforce simp: timer_wake_def replay_def verdict_def Let_def
      split: sum.splits option.splits prod.splits if_splits entry.splits)

lemma op_yield_mirrors:
  assumes op: "op_yield E key wake meta s = (r, s1)" and ok: "cursor_ok s"
    and m: "mirrors J s t" and g: "grows (journal s1) J"
    and v: "verdict r" and np: "poisoned s1 = None" and late: "wakes_passed J (clock E' (world t))"
  shows "\<exists>t1. op_yield E' key wake' meta' t = (r, t1) \<and> mirrors J s1 t1 \<and> quiet t t1"
proof -
  obtain q u where tw: "timer_wake E key wake s = (q, u)" by (cases "timer_wake E key wake s")
  show ?thesis
  proof (cases q)
    case (Inl x)
    with op tw have "r = Inl x" "s1 = u" by (auto simp: op_yield_def)
    with timer_wake_no_failure tw Inl v np show ?thesis by blast
  next
    case (Inr ff)
    obtain fire fresh where ff: "ff = (fire, fresh)" by (cases ff)
    from op tw Inr ff v have s1: "s1 = u" and r: "r = Inr ()"
      by (auto simp: op_yield_def verdict_def split: if_splits)
    from timer_wake_mirrors [OF _ ok m, of E key wake fire fresh u E'] tw Inr ff g np s1 obtain t1
      where "timer_wake E' key wake' t = (Inr (fire, False), t1)" "mirrors J s1 t1" "quiet t t1"
        "ETimer key fire \<in> set J" by auto
    with late r show ?thesis
      by (fastforce simp: op_yield_def wakes_passed_def quiet_def)
  qed
qed

lemma drain_frontier: "cursor s = length (journal s) \<Longrightarrow> drain_signals s = s"
  by (simp add: drain_signals_def)

lemma drain_mirrors_id:
  assumes "mirrors J s t" and "cursor s = length (journal s)"
  shows "drain_signals t = t"
proof -
  have "cursor_ok s" using assms(2) by (simp add: cursor_ok_def)
  from drain_mirrors [OF assms(1) this] have "cursor (drain_signals t) = cursor (drain_signals s)"
    by (simp add: mirrors_def)
  also have "\<dots> = cursor t" using assms by (simp add: drain_frontier mirrors_def)
  finally have "takeWhile is_signal (drop (cursor t) (journal t)) = []"
    by (simp add: drain_signals_def Let_def)
  then show ?thesis by (simp add: drain_signals_def)
qed

lemma op_await_mirrors:
  assumes op: "op_await E key name deadline meta s = (r, s1)" and ok: "cursor_ok s"
    and m: "mirrors J s t" and g: "grows (journal s1) J"
    and v: "verdict r" and np: "poisoned s1 = None"
  shows "\<exists>t1. op_await E' key name deadline' meta' t = (r, t1) \<and> mirrors J s1 t1 \<and> quiet t t1"
proof -
  let ?sig = "''signal:'' @ name"
  obtain p u where rp: "replay KAwait key s = (p, u)" by (cases "replay KAwait key s")
  have oku: "cursor_ok u" using replay_advances [OF rp ok] by (rule advances_ok)
  show ?thesis
  proof (cases "p = Inr None")
    case False
    from replay_mirrors [OF m ok rp False] obtain t1
      where t1: "replay KAwait key t = (p, t1)" and m1: "mirrors J u t1" and q: "quiet t t1" by blast
    have m2: "mirrors J (consume_signal ?sig (drain_signals u)) (consume_signal ?sig (drain_signals t1))"
      by (intro consume_mirrors drain_mirrors m1 oku)
    have q2: "quiet t (consume_signal ?sig (drain_signals t1))"
      using q by (simp add: quiet_def)
    show ?thesis
    proof (cases "\<exists>k out. p = Inr (Some (EAwait k out))")
      case True
      then obtain k out where p: "p = Inr (Some (EAwait k out))" by blast
      show ?thesis
      proof (cases "received out")
        case True
        with op rp p t1 m2 q2 show ?thesis by (auto simp: op_await_def)
      next
        case False
        with op rp p t1 m1 q show ?thesis by (auto simp: op_await_def)
      qed
    next
      case False
      with op rp \<open>p \<noteq> Inr None\<close> have "s1 = u" "op_await E' key name deadline' meta' t = (r, t1)"
        using t1 by (auto simp: op_await_def split: sum.splits option.splits entry.splits)
      with m1 q show ?thesis by auto
    qed
  next
    case True
    note fr = replay_frame [OF rp]
    have cu: "cursor u = length (journal u)" using replay_frontier rp True ok by blast
    then have du: "drain_signals u = u" by (rule drain_frontier)
    show ?thesis
    proof (cases "take_signal ?sig (pending u)")
      case (Some pp)
      obtain pl ps where pp: "pp = (pl, ps)" by (cases pp)
      let ?out = "\<lparr>received = True, payload = pl\<rparr>"
      let ?e = "EAwait key ?out" and ?u = "u\<lparr>pending := ps\<rparr>"
      from op rp True Some pp du np have ap: "ctx_append E ?e ?u = (None, s1)" and r: "r = Inr ?out"
        using ctx_append_Some_poisoned
        by (fastforce simp: op_await_def Let_def split: option.splits prod.splits)+
      have "journal s1 = journal s @ [?e]" using ctx_append_ok(2) [OF ap] fr by simp
      with g have g': "grows (journal s @ [?e]) J" by simp
      from replay_mirrors_frontier [OF m ok _ this, of KAwait key u] rp True obtain t1
        where t1: "replay KAwait key t = (Inr (Some ?e), t1)" "quiet t t1"
          and m1: "mirrors J (u\<lparr>journal := journal s @ [?e], cursor := Suc (length (journal s))\<rparr>) t1"
        by auto
      have dt: "drain_signals t1 = t1" by (rule drain_mirrors_id [OF m1]) simp
      have "mirrors J s1 (consume_signal ?sig t1)"
      proof (rule append_mirrors [OF ap])
        show "journal ?u = journal s" using fr by simp
        have "pending t1 = pending u" using m1 by (simp add: mirrors_def)
        with m1 Some pp show "mirrors J (?u\<lparr>journal := journal s @ [?e],
            cursor := Suc (length (journal s))\<rparr>) (consume_signal ?sig t1)"
          by (simp add: mirrors_def consume_signal_def)
      qed simp_all
      moreover have "quiet t (consume_signal ?sig t1)" using t1(2) by (simp add: quiet_def)
      ultimately show ?thesis using t1(1) r dt by (simp add: op_await_def)
    next
      case None
      let ?out = "\<lparr>received = False, payload = JUndef\<rparr>"
      let ?e = "EAwait key ?out"
      from op rp True None du np v have ap: "ctx_append E ?e u = (None, s1)" and r: "r = Inr ?out"
        using ctx_append_Some_poisoned
        by (fastforce simp: op_await_def verdict_def Let_def split: option.splits prod.splits if_splits)+
      have "journal s1 = journal s @ [?e]" using ctx_append_ok(2) [OF ap] fr by simp
      with g have g': "grows (journal s @ [?e]) J" by simp
      from replay_mirrors_frontier [OF m ok _ this, of KAwait key u] rp True obtain t1
        where t1: "replay KAwait key t = (Inr (Some ?e), t1)" "quiet t t1"
          and m1: "mirrors J (u\<lparr>journal := journal s @ [?e], cursor := Suc (length (journal s))\<rparr>) t1"
        by auto
      have "mirrors J s1 t1" using append_mirrors [OF ap _ m1] fr by simp
      with t1 r show ?thesis by (simp add: op_await_def)
    qed
  qed
qed

lemma poisoned_back: "advances s t \<Longrightarrow> poisoned t = None \<Longrightarrow> poisoned s = None"
  by (cases "poisoned s") (auto simp: advances_def)

lemma verdict_interp_Throw: "interp E (Throw x) s = (r, s1) \<Longrightarrow> verdict r \<Longrightarrow> \<exists>f. x = XActivity f"
  by (auto simp: verdict_def)

text \<open>A context call whose continuation passes control flow through ends in a verdict only
  if the call itself did.\<close>

lemma passes_verdict:
  assumes "passes_through c" and "interp E (c p) u = (r, s1)" and "verdict r"
  shows "verdict p"
proof (cases p)
  case (Inl x)
  with assms show ?thesis
    by (cases "\<exists>f. x = XActivity f") (auto simp: passes_through_def verdict_def)
qed (simp add: verdict_def)

text \<open>One context call of the induction below: the call mirrors, and the rest of the run
  starts from mirrored contexts.\<close>

lemma mirror_call:
  assumes a: "advances s u" and i: "interp E (c p) u = (r, s1)" and pt: "passes_through c"
    and g: "grows (journal s1) J" and v: "verdict r" and np: "poisoned s1 = None"
    and late: "wakes_passed J (clock E' (world t))"
    and call: "grows (journal u) J \<Longrightarrow> verdict p \<Longrightarrow> poisoned u = None \<Longrightarrow>
      \<exists>t1. Q t1 \<and> mirrors J u t1 \<and> quiet t t1"
  shows "\<exists>t1. Q t1 \<and> mirrors J u t1 \<and> quiet t t1 \<and> cursor_ok u \<and> wakes_passed J (clock E' (world t1))"
proof -
  have ok: "cursor_ok u" using a by (rule advances_ok)
  from interp_advances [OF i ok] have b: "advances u s1" .
  then have "grows (journal u) J" using g by (auto simp: advances_def intro: grows_trans)
  from call [OF this passes_verdict [OF pt i v] poisoned_back [OF b np]] ok late show ?thesis
    by (auto simp: quiet_def)
qed

lemma continue_blind:
  assumes "same_outcome p p'" and "reads_failures_blind c" and "interp E (c p) u = (r, s1)"
    and "interp E' (c p) t1 = (r', t2)" and "same_outcome r r'" and "quiet t1 t2"
  shows "\<exists>r' t2. interp E' (c p') t1 = (r', t2) \<and> same_outcome r r' \<and> quiet t1 t2"
proof (cases "p' = p")
  case True
  with assms(4-6) show ?thesis by blast
next
  case False
  with assms(1) obtain f where p: "p = Inl (XActivity f)"
      and p': "p' = Inl (XActivity (replayed_failure (journal_failure f)))"
    by (auto simp: same_outcome_def)
  from assms(2) have "c p' = c p \<or> (c p = Throw (XActivity f) \<and>
      c p' = Throw (XActivity (replayed_failure (journal_failure f))))"
    unfolding p p' reads_failures_blind_def Let_def by metis
  with assms(3-6) show ?thesis by (auto simp: same_outcome_def)
qed

lemma interp_mirrors:
  assumes "well_behaved w" and "interp E w s = (r, s1)" and "cursor_ok s"
    and "mirrors J s t" and "grows (journal s1) J" and "verdict r" and "poisoned s1 = None"
    and "wakes_passed J (clock E' (world t))"
  shows "\<exists>r' t1. interp E' w t = (r', t1) \<and> same_outcome r r' \<and> quiet t t1"
  using assms
proof (induction w arbitrary: s t)
  case (Run key name args c)
  obtain p u where op: "op_run E key name args s = (p, u)" by (cases "op_run E key name args s")
  from Run.prems(2) op have i: "interp E (c p) u = (r, s1)" by simp
  have "\<exists>t1. (\<exists>p'. op_run E' key name args t = (p', t1) \<and> same_outcome p p') \<and> mirrors J u t1 \<and>
      quiet t t1 \<and> cursor_ok u \<and> wakes_passed J (clock E' (world t1))"
    by (rule mirror_call [where c = c and p = p and E' = E', OF op_run_advances [OF op Run.prems(3)] i _ Run.prems(5-8)])
      (use Run.prems(1) op_run_mirrors [OF op Run.prems(3,4), of E' name args] in \<open>auto dest: restored_same\<close>)
  then obtain p' t1 where t1: "op_run E' key name args t = (p', t1)" "same_outcome p p'"
      "mirrors J u t1" "quiet t t1" "cursor_ok u" "wakes_passed J (clock E' (world t1))" by blast
  from Run.IH [of "c p" u t1] Run.prems i t1 obtain r' t2
    where "interp E' (c p) t1 = (r', t2)" "same_outcome r r'" "quiet t1 t2" by auto
  from continue_blind [where c = c and p = p, OF t1(2) _ i this] Run.prems(1) t1(1,4) show ?case
    by (auto intro: quiet_trans)
next
  case (Now key c)
  obtain p u where op: "op_now E key s = (p, u)" by (cases "op_now E key s")
  from Now.prems(2) op have i: "interp E (c p) u = (r, s1)" by simp
  have "\<exists>t1. op_now E' key t = (p, t1) \<and> mirrors J u t1 \<and>
      quiet t t1 \<and> cursor_ok u \<and> wakes_passed J (clock E' (world t1))"
    by (rule mirror_call [where c = c and p = p and E' = E', OF op_now_advances [OF op Now.prems(3)] i _ Now.prems(5-8)])
      (use Now.prems(1,8) op_now_mirrors [OF op Now.prems(3,4), of E'] in auto)
  with Now.IH [of "c p" u] Now.prems i show ?case
    by (fastforce intro: quiet_trans)
next
  case (SleepUntil key wake meta c)
  obtain p u where op: "op_sleep E key wake meta s = (p, u)" by (cases "op_sleep E key wake meta s")
  from SleepUntil.prems(2) op have i: "interp E (c p) u = (r, s1)" by simp
  have "\<exists>t1. op_sleep E' key wake meta t = (p, t1) \<and> mirrors J u t1 \<and>
      quiet t t1 \<and> cursor_ok u \<and> wakes_passed J (clock E' (world t1))"
    by (rule mirror_call [where c = c and p = p and E' = E', OF op_sleep_advances [OF op SleepUntil.prems(3)] i _ SleepUntil.prems(5-8)])
      (use SleepUntil.prems(1,8) op_sleep_mirrors [OF op SleepUntil.prems(3,4), of E'] in auto)
  with SleepUntil.IH [of "c p" u] SleepUntil.prems i show ?case
    by (fastforce intro: quiet_trans)
next
  case (YieldUntil key wake meta c)
  obtain p u where op: "op_yield E key wake meta s = (p, u)" by (cases "op_yield E key wake meta s")
  from YieldUntil.prems(2) op have i: "interp E (c p) u = (r, s1)" by simp
  have "\<exists>t1. op_yield E' key wake meta t = (p, t1) \<and> mirrors J u t1 \<and>
      quiet t t1 \<and> cursor_ok u \<and> wakes_passed J (clock E' (world t1))"
    by (rule mirror_call [where c = c and p = p and E' = E', OF op_yield_advances [OF op YieldUntil.prems(3)] i _ YieldUntil.prems(5-8)])
      (use YieldUntil.prems(1,8) op_yield_mirrors [OF op YieldUntil.prems(3,4), of E'] in auto)
  with YieldUntil.IH [of "c p" u] YieldUntil.prems i show ?case
    by (fastforce intro: quiet_trans)
next
  case (AwaitSignal key name deadline meta c)
  obtain p u where op: "op_await E key name deadline meta s = (p, u)" by (cases "op_await E key name deadline meta s")
  from AwaitSignal.prems(2) op have i: "interp E (c p) u = (r, s1)" by simp
  have "\<exists>t1. op_await E' key name deadline meta t = (p, t1) \<and> mirrors J u t1 \<and>
      quiet t t1 \<and> cursor_ok u \<and> wakes_passed J (clock E' (world t1))"
    by (rule mirror_call [where c = c and p = p and E' = E', OF op_await_advances [OF op AwaitSignal.prems(3)] i _ AwaitSignal.prems(5-8)])
      (use AwaitSignal.prems(1,8) op_await_mirrors [OF op AwaitSignal.prems(3,4), of E'] in auto)
  with AwaitSignal.IH [of "c p" u] AwaitSignal.prems i show ?case
    by (fastforce intro: quiet_trans)
next
  case (IsReplaying c)
  have c: "c b = c b'" for b b' using IsReplaying.prems(1) by (cases b; cases b') auto
  from IsReplaying.prems(2) have i: "interp E (c True) s = (r, s1)"
    by (simp only: interp.simps c [of "is_replaying s" True])
  from IsReplaying.IH [of "c True" s t] IsReplaying.prems i
  have "\<exists>r' t1. interp E' (c True) t = (r', t1) \<and> same_outcome r r' \<and> quiet t t1" by auto
  then show ?case by (simp only: interp.simps c [of "is_replaying t" True])
qed auto

end
