(* ===== verification/WorkflowProps.thy ===== *)
theory WorkflowProps
  imports WorkflowReplay
begin

text \<open>
  The properties of the workflow kernel: a recorded verdict is replayed from the
  journal alone, a journaled activity never executes again, the journal is append-only
  with step keys used once, and tombstones, version mismatches and poisoning refuse.
\<close>

subsection \<open>Where a run starts\<close>

lemma start_ctx_frame [simp]:
  "journal (start_ctx s) = journal s" "version (start_ctx s) = version s"
  "poisoned (start_ctx s) = poisoned s" "world (start_ctx s) = world s"
  "seen (start_ctx s) = []" "pending (start_ctx s) = []"
  "executed_effects (start_ctx s) = executed_effects s" "crash_plan (start_ctx s) = crash_plan s"
  by (simp_all add: start_ctx_def)

lemma start_ctx_ok: "cursor_ok (start_ctx s)"
  by (cases "journal s" rule: journal_version.cases) (simp_all add: cursor_ok_def start_ctx_def)

text \<open>What binding the version leaves when it lets the run go on.\<close>

lemma bind_version_ok:
  assumes "bind_version E s = (Inr None, s1)" and "poisoned s = None"
  shows "poisoned s1 = None" "version s1 = version s" "executed_effects s1 = executed_effects s"
    "journal s1 = journal s \<or> (\<exists>w v. journal s = [] \<and> journal s1 = [EVersion JOURNAL_SPEC_VERSION w v])"
    "version s = Some v \<Longrightarrow> \<exists>r. journal_version (journal s1) = Some r \<and> same_version r v"
proof -
  have sv: "same_version v v" for v by (simp add: same_version_def)
  show "poisoned s1 = None" "version s1 = version s" "executed_effects s1 = executed_effects s"
    "journal s1 = journal s \<or> (\<exists>w v. journal s = [] \<and> journal s1 = [EVersion JOURNAL_SPEC_VERSION w v])"
    using assms
    by (auto simp: bind_version_def append_entry_def Let_def split: option.splits if_splits prod.splits)
  show "version s = Some v \<Longrightarrow> \<exists>r. journal_version (journal s1) = Some r \<and> same_version r v"
    using assms sv
    by (cases v) (auto simp: bind_version_def append_entry_def Let_def split: option.splits if_splits prod.splits)
qed

lemma bind_version_bound:
  assumes "\<And>v. version t = Some v \<Longrightarrow> \<exists>r. journal_version (journal t) = Some r \<and> same_version r v"
  shows "bind_version E t = (Inr None, t)"
  using assms by (cases "version t") (auto simp: bind_version_def)

lemma tombstone_after_bind:
  assumes "bind_version E s = (Inr None, s1)" and "poisoned s = None"
  shows "journal_tombstone (journal s1) = journal_tombstone (journal s)"
  using bind_version_ok(4) [OF assms] by (auto simp: journal_tombstone_def)

text \<open>A run that reached its workflow function.\<close>

lemma run_wf_reached:
  assumes "run_wf E w s = (r, s1)" and "(\<exists>v. r = Completed v) \<or> (\<exists>f. r = Failed (XActivity f))"
  obtains sb q u where "poisoned s = None" "journal_tombstone (journal s) = None"
    "bind_version E s = (Inr None, sb)" "interp E w (start_ctx sb) = (q, u)"
    "r = classify (q, u)" "s1 = u\<lparr>settled := Some r\<rparr>"
proof -
  have np: "poisoned s = None" and nt: "journal_tombstone (journal s) = None"
    using assms by (auto simp: run_wf_def split: option.splits)
  have bv: "\<exists>sb. bind_version E s = (Inr None, sb)"
  proof -
    obtain b sb where b: "bind_version E s = (b, sb)" by (cases "bind_version E s")
    have "b = Inr None"
    proof (cases b)
      case (Inr o')
      with assms np nt b show ?thesis
        by (cases o') (auto simp: run_wf_def bind_version_def split: option.splits if_splits prod.splits)
    qed (use assms np nt b in \<open>auto simp: run_wf_def\<close>)
    with b show ?thesis by simp
  qed
  then obtain sb where sb: "bind_version E s = (Inr None, sb)" by blast
  obtain q u where i: "interp E w (start_ctx sb) = (q, u)" by (cases "interp E w (start_ctx sb)")
  from assms(1) np nt sb i have "r = classify (q, u)" "s1 = u\<lparr>settled := Some r\<rparr>"
    by (auto simp: run_wf_def Let_def)
  with np nt sb i that show ?thesis by blast
qed

subsection \<open>Replay\<close>

text \<open>A verdict, as the journal reproduces it: the completed value, or the failure as
  message, name and code restore it.\<close>

definition same_verdict :: "run_result \<Rightarrow> run_result \<Rightarrow> bool" where
  "same_verdict r r' \<longleftrightarrow> r' = r \<or>
     (\<exists>f. r = Failed (XActivity f) \<and> r' = Failed (XActivity (replayed_failure (journal_failure f))))"

definition is_verdict :: "run_result \<Rightarrow> bool" where
  "is_verdict r \<longleftrightarrow> (case r of Completed _ \<Rightarrow> True | Failed (XActivity _) \<Rightarrow> True | _ \<Rightarrow> False)"

lemma is_verdict_iff: "is_verdict r \<longleftrightarrow> (\<exists>v. r = Completed v) \<or> (\<exists>f. r = Failed (XActivity f))"
  by (auto simp: is_verdict_def split: run_result.splits exn.splits)

lemma classify_verdict:
  assumes "classify (q, u) = r" and "is_verdict r" and "poisoned u = None"
  shows "verdict q"
  using assms by (auto simp: classify_def verdict_def is_verdict_def split: sum.splits exn.splits)

lemma is_verdict_unpoisoned: "is_verdict (classify (q, u)) \<Longrightarrow> poisoned u = None"
  by (cases "poisoned u") (auto simp: classify_def is_verdict_def)

lemma classify_same:
  assumes "verdict q" and "same_outcome q q'" and "poisoned u = None" and "poisoned u' = None"
  shows "same_verdict (classify (q, u)) (classify (q', u'))"
  using assms by (auto simp: classify_def same_outcome_def same_verdict_def split: sum.splits exn.splits)

text \<open>
  C1. Replay determinism. A well-behaved workflow whose run over a journal came to a
  verdict (it completed, or failed with an activity's failure) comes to the same verdict
  when it is run again over the journal that run left: whatever the activities, the clock
  and the persist callback of the second run are (its clock only past the wakes the
  journal holds), no activity executes, the world is untouched and nothing is appended.
\<close>

theorem replay_returns_the_recorded_verdict:
  assumes wb: "well_behaved w" and run: "run_wf E w s = (r, s1)" and vd: "is_verdict r"
    and t: "journal t = journal s1" "version t = version s1" "poisoned t = None"
    and late: "wakes_passed (journal s1) (clock E' (world t))"
  shows "\<exists>r' t1. run_wf E' w t = (r', t1) \<and> same_verdict r r' \<and> world t1 = world t
    \<and> executed_effects t1 = executed_effects t \<and> journal t1 = journal t"
proof -
  from run_wf_reached [OF run vd [unfolded is_verdict_iff]] obtain sb q u where
    np: "poisoned s = None" and nt: "journal_tombstone (journal s) = None" and
    sb: "bind_version E s = (Inr None, sb)" and i: "interp E w (start_ctx sb) = (q, u)" and
    r: "r = classify (q, u)" and s1: "s1 = u\<lparr>settled := Some r\<rparr>" by blast
  have pu: "poisoned u = None" using is_verdict_unpoisoned vd r by blast
  have vq: "verdict q" using classify_verdict [OF r [symmetric] vd pu] .
  note a = interp_advances [OF i start_ctx_ok]
  then have g: "grows (journal sb) (journal u)" and v: "version u = version sb"
    by (auto simp: advances_def)
  have bt: "bind_version E' t = (Inr None, t)"
  proof (rule bind_version_bound)
    fix x assume "version t = Some x"
    with t s1 v bind_version_ok(2) [OF sb np] have "version s = Some x" by simp
    from bind_version_ok(5) [OF sb np this] grows_version [OF g] t s1
    show "\<exists>r. journal_version (journal t) = Some r \<and> same_version r x" by simp
  qed
  have nt': "journal_tombstone (journal t) = None"
    using grows_tombstone [OF g] tombstone_after_bind [OF sb np] nt t s1 by simp
  have "mirrors (journal u) (start_ctx sb) (start_ctx t)"
    using g t s1 grows_version [OF g] by (simp add: mirrors_def start_ctx_def)
  from interp_mirrors [OF wb i start_ctx_ok this _ vq pu, of E'] late s1 obtain q' t1 where
    j: "interp E' w (start_ctx t) = (q', t1)" and so: "same_outcome q q'" and qt: "quiet (start_ctx t) t1"
    by auto
  have "run_wf E' w t = (classify (q', t1), t1\<lparr>settled := Some (classify (q', t1))\<rparr>)"
    using t nt' bt j by (simp add: run_wf_def Let_def)
  moreover have "same_verdict r (classify (q', t1))"
    unfolding r by (rule classify_same [OF vq so pu]) (use qt t in \<open>simp add: quiet_def\<close>)
  ultimately show ?thesis using qt by (simp add: quiet_def)
qed

subsection \<open>Step keys\<close>

definition step_keys :: "entry list \<Rightarrow> string list" where
  "step_keys j = map (\<lambda>e. the (entry_key e)) (filter is_step j)"

lemma step_keys_append [simp]: "step_keys (a @ b) = step_keys a @ step_keys b"
  by (simp add: step_keys_def)

lemma step_keys_Nil [simp]: "step_keys [] = []"
  by (simp add: step_keys_def)

lemma step_keys_step: "is_step e \<Longrightarrow> step_keys [e] = [the (entry_key e)]"
  by (simp add: step_keys_def)

lemma step_keys_other: "\<not> is_step e \<Longrightarrow> step_keys [e] = []"
  by (simp add: step_keys_def)

lemma step_keys_signals: "\<forall>e\<in>set es. is_signal e \<Longrightarrow> step_keys es = []"
  by (auto simp: step_keys_def filter_empty_conv)

text \<open>The key discipline of a context: the steps behind the cursor are under seen keys.\<close>

definition keyed :: "'w st \<Rightarrow> bool" where
  "keyed s \<longleftrightarrow> cursor_ok s \<and> set (step_keys (take (cursor s) (journal s))) \<subseteq> set (seen s)"

definition keeps_keys :: "'w st \<Rightarrow> 'w st \<Rightarrow> bool" where
  "keeps_keys s t \<longleftrightarrow> keyed t \<and> set (seen s) \<subseteq> set (seen t)
     \<and> (distinct (step_keys (journal s)) \<longrightarrow> distinct (step_keys (journal t)))"

lemma keeps_keys_trans [trans]: "keeps_keys a b \<Longrightarrow> keeps_keys b c \<Longrightarrow> keeps_keys a c"
  by (auto simp: keeps_keys_def)

lemma keeps_keys_refl [simp]: "keeps_keys s s \<longleftrightarrow> keyed s"
  by (auto simp: keeps_keys_def)

lemma keeps_keyed: "keeps_keys s t \<Longrightarrow> keyed t"
  by (simp add: keeps_keys_def)

lemma keeps_keys_frame:
  "journal t' = journal t \<Longrightarrow> cursor t' = cursor t \<Longrightarrow> seen t' = seen t \<Longrightarrow>
   keeps_keys s t \<Longrightarrow> keeps_keys s t'"
  by (auto simp: keeps_keys_def keyed_def cursor_ok_def)

lemma keeps_keys_frame_left:
  "journal s' = journal s \<Longrightarrow> seen s' = seen s \<Longrightarrow> keeps_keys s' t \<Longrightarrow> keeps_keys s t"
  by (auto simp: keeps_keys_def)

lemma keyed_frame:
  "journal t = journal s \<Longrightarrow> cursor t = cursor s \<Longrightarrow> seen t = seen s \<Longrightarrow> keyed t = keyed s"
  by (simp add: keyed_def cursor_ok_def)

lemma take_drain:
  "take (cursor (drain_signals s)) (journal s) =
   take (cursor s) (journal s) @ takeWhile is_signal (drop (cursor s) (journal s))"
proof -
  let ?tw = "takeWhile is_signal (drop (cursor s) (journal s))"
  have "take (length ?tw) (drop (cursor s) (journal s)) = ?tw"
    by (metis takeWhile_eq_take)
  then show ?thesis by (simp add: drain_signals_def Let_def take_add)
qed

lemma step_keys_takeWhile [simp]: "step_keys (takeWhile is_signal es) = []"
  by (rule step_keys_signals) (auto dest: set_takeWhileD)

lemma drain_keyed: "keyed s \<Longrightarrow> keyed (drain_signals s)"
  by (simp add: keyed_def drain_cursor_ok take_drain)

lemma drain_keeps_keys: "keyed s \<Longrightarrow> keeps_keys s (drain_signals s)"
  by (simp add: keeps_keys_def drain_keyed)

lemma keyed_step:
  assumes "keyed s" and "cursor s < length (journal s)" and "journal s ! cursor s = e"
    and "is_step e \<Longrightarrow> the (entry_key e) \<in> set (seen s)"
  shows "keyed (s\<lparr>cursor := Suc (cursor s)\<rparr>)"
proof -
  have "take (Suc (cursor s)) (journal s) = take (cursor s) (journal s) @ [e]"
    using assms(2,3) by (simp add: take_Suc_conv_app_nth)
  then show ?thesis
    using assms by (cases "is_step e") (auto simp: keyed_def cursor_ok_def step_keys_step step_keys_other)
qed

lemma replay_keys:
  assumes rp: "replay k key s = (r, s1)" and ok: "keyed s"
  shows "keeps_keys s s1"
    and "r = Inr None \<Longrightarrow> key \<in> set (seen s1) \<and> key \<notin> set (seen s) \<and> key \<notin> set (step_keys (journal s1))
      \<and> cursor s1 = length (journal s1)"
proof -
  let ?s0 = "s\<lparr>seen := key # seen s\<rparr>"
  let ?d = "drain_signals ?s0"
  have k0: "keyed ?s0" using ok by (auto simp: keyed_def cursor_ok_def)
  note kd = drain_keyed [OF k0]
  show "keeps_keys s s1"
  proof (cases "entry_at_cursor ?d")
    case None
    with rp ok kd show ?thesis
      by (auto simp: replay_def Let_def keeps_keys_def split: if_splits)
  next
    case (Some e)
    then have e: "cursor ?d < length (journal ?d)" "journal ?d ! cursor ?d = e"
      by (auto simp: entry_at_cursor_def split: if_splits)
    have "entry_key e = Some key \<Longrightarrow> keyed (?d\<lparr>cursor := Suc (cursor ?d)\<rparr>)"
      by (rule keyed_step [OF kd e]) simp
    with Some rp ok kd show ?thesis
      by (auto simp: replay_def Let_def keeps_keys_def split: if_splits)
  qed
  assume r: "r = Inr None"
  with rp have ns: "key \<notin> set (seen s)" and s1: "s1 = ?d"
    by (auto simp: replay_def Let_def split: if_splits option.splits)
  have c: "cursor s1 = length (journal s1)"
    using replay_frontier rp r ok by (auto simp: keyed_def)
  have "take (cursor (drain_signals s)) (journal s) = journal s"
    using c s1 by (simp add: drain_signals_def Let_def)
  moreover have "keyed (drain_signals s)" by (rule drain_keyed [OF ok])
  ultimately have "set (step_keys (journal s)) \<subseteq> set (seen s)" by (simp add: keyed_def)
  with ns c show "key \<in> set (seen s1) \<and> key \<notin> set (seen s) \<and> key \<notin> set (step_keys (journal s1))
      \<and> cursor s1 = length (journal s1)"
    by (auto simp: s1)
qed

lemma ctx_append_keys:
  assumes ap: "ctx_append E e s = (x, s1)" and k: "keyed s" and c: "cursor s = length (journal s)"
    and e: "is_step e" "entry_key e = Some key" and s: "key \<in> set (seen s)" and n: "key \<notin> set (step_keys (journal s))"
  shows "keeps_keys s s1"
proof (cases "poisoned s")
  case None
  obtain y t where ae: "append_entry E e s = (y, t)" by (cases "append_entry E e s")
  note f = append_entry_frame [OF ae]
  from None ae ap have s1: "s1 = t \<or> s1 = t\<lparr>cursor := length (journal t)\<rparr>"
    by (auto simp: ctx_append_def split: option.splits)
  have "journal s1 = journal s @ [e]" "seen s1 = seen s"
    "cursor s1 = cursor s \<or> cursor s1 = length (journal s @ [e])"
    using s1 f by auto
  with k c e s n show ?thesis
    by (auto simp: keeps_keys_def keyed_def cursor_ok_def step_keys_step)
next
  case (Some f)
  with ap k show ?thesis by (simp add: ctx_append_def)
qed

subsection \<open>Executed activities\<close>

text \<open>An environment whose world also logs the keys the activities execute under.\<close>

definition traced :: "'w env \<Rightarrow> ('w \<times> string list) env" where
  "traced E = \<lparr>
     activities = (\<lambda>name. map_option (\<lambda>act args key (w, l).
        (case act args key w of (out, w') \<Rightarrow> (out, (w', l @ [key])))) (activities E name)),
     clock = (\<lambda>(w, l). clock E w),
     persist = map_option (\<lambda>p e (w, l). (case p e w of (f, w') \<Rightarrow> (f, (w', l)))) (persist E),
     on_activity = (\<lambda>key name args r (w, l). (on_activity E key name args r w, l))\<rparr>"

abbreviation run_log :: "('w \<times> string list) st \<Rightarrow> string list" where
  "run_log s \<equiv> snd (world s)"

text \<open>\<open>executes s t\<close>: from \<open>s\<close> to \<open>t\<close> activities executed only under fresh keys, each once; with
  \<open>b\<close>, every one of them is journaled.\<close>

definition executes :: "bool \<Rightarrow> ('w \<times> string list) st \<Rightarrow> ('w \<times> string list) st \<Rightarrow> bool" where
  "executes b s t \<longleftrightarrow> (\<exists>new. run_log t = run_log s @ new \<and> distinct new
     \<and> set new \<subseteq> set (seen t) - set (seen s) \<and> set new \<inter> set (step_keys (journal s)) = {}
     \<and> (b \<longrightarrow> set new \<subseteq> set (step_keys (journal t))))"

lemma executes_none: "run_log t = run_log s \<Longrightarrow> executes b s t"
  by (auto simp: executes_def)

lemma grows_step_keys: "grows a b \<Longrightarrow> set (step_keys a) \<subseteq> set (step_keys b)"
  by (auto simp: grows_def)

lemma executes_trans:
  assumes ab: "executes p a b" and bc: "executes q b c"
    and k: "set (seen a) \<subseteq> set (seen b)" "set (seen b) \<subseteq> set (seen c)"
    and g: "grows (journal a) (journal b)" "grows (journal b) (journal c)" and pq: "r \<Longrightarrow> p \<and> q"
  shows "executes r a c"
proof -
  from ab obtain n1 where 1: "run_log b = run_log a @ n1" "distinct n1"
    "set n1 \<subseteq> set (seen b) - set (seen a)" "set n1 \<inter> set (step_keys (journal a)) = {}"
    "p \<longrightarrow> set n1 \<subseteq> set (step_keys (journal b))" unfolding executes_def by blast
  from bc obtain n2 where 2: "run_log c = run_log b @ n2" "distinct n2"
    "set n2 \<subseteq> set (seen c) - set (seen b)" "set n2 \<inter> set (step_keys (journal b)) = {}"
    "q \<longrightarrow> set n2 \<subseteq> set (step_keys (journal c))" unfolding executes_def by blast
  note s = grows_step_keys [OF g(1)] grows_step_keys [OF g(2)]
  have "run_log c = run_log a @ (n1 @ n2)" using 1 2 by simp
  moreover have "distinct (n1 @ n2)" using 1 2 by auto
  moreover have "set (n1 @ n2) \<subseteq> set (seen c) - set (seen a)" using 1 2 k by auto
  moreover have "set (n1 @ n2) \<inter> set (step_keys (journal a)) = {}" using 1 2 s by auto
  moreover have "r \<longrightarrow> set (n1 @ n2) \<subseteq> set (step_keys (journal c))" using 1 2 s pq by auto
  ultimately show ?thesis unfolding executes_def by blast
qed

lemma append_entry_log: "append_entry (traced E) e s = (x, s1) \<Longrightarrow> run_log s1 = run_log s"
  by (cases "world s")
    (auto simp: append_entry_def traced_def Let_def split: option.splits prod.splits)

lemma ctx_append_log: "ctx_append (traced E) e s = (x, s1) \<Longrightarrow> run_log s1 = run_log s"
  by (auto simp: ctx_append_def split: option.splits prod.splits dest: append_entry_log)

lemma replay_log: "replay k key s = (r, s1) \<Longrightarrow> run_log s1 = run_log s"
  by (drule replay_frame(4)) simp

text \<open>Every context call keeps the key discipline and executes at most its own fresh key.\<close>

definition call_ok :: "(exn + 'a) \<Rightarrow> ('w \<times> string list) st \<Rightarrow> ('w \<times> string list) st \<Rightarrow> bool" where
  "call_ok r s t \<longleftrightarrow> keeps_keys s t \<and>
     executes (poisoned t = None \<and> \<not> (\<exists>wh. r = Inl (XCrash wh))) s t"

lemma call_ok_quiet: "keeps_keys s t \<Longrightarrow> run_log t = run_log s \<Longrightarrow> call_ok r s t"
  by (simp add: call_ok_def executes_none)

lemma op_now_call: "op_now (traced E) key s = (r, s1) \<Longrightarrow> keyed s \<Longrightarrow> call_ok r s s1"
proof -
  assume op: "op_now (traced E) key s = (r, s1)" and k: "keyed s"
  obtain p t where rp: "replay KNow key s = (p, t)" by (cases "replay KNow key s")
  note st = replay_keys [OF rp k] and l = replay_log [OF rp]
  show ?thesis
  proof (cases "p = Inr None")
    case True
    obtain x u where ap: "ctx_append (traced E) (ENow key (clock (traced E) (world t))) t = (x, u)"
      by (cases "ctx_append (traced E) (ENow key (clock (traced E) (world t))) t")
    have "s1 = u" using op rp True ap by (auto simp: op_now_def Let_def split: option.splits)
    with ctx_append_keys [OF ap, of key] ctx_append_log [OF ap] st True l show ?thesis
      by (auto intro!: call_ok_quiet intro: keeps_keys_trans dest: keeps_keyed)
  next
    case False
    with op rp have "s1 = t" by (auto simp: op_now_def split: sum.splits option.splits entry.splits)
    with st l show ?thesis by (auto intro: call_ok_quiet)
  qed
qed

lemma timer_wake_call:
  assumes op: "timer_wake (traced E) key wake s = (r, s1)" and k: "keyed s"
  shows "keeps_keys s s1 \<and> run_log s1 = run_log s"
proof -
  obtain p t where rp: "replay KTimer key s = (p, t)" by (cases "replay KTimer key s")
  note st = replay_keys [OF rp k] and l = replay_log [OF rp]
  show ?thesis
  proof (cases "p = Inr None")
    case True
    obtain x u where ap: "ctx_append (traced E) (ETimer key wake) t = (x, u)"
      by (cases "ctx_append (traced E) (ETimer key wake) t")
    have "s1 = u" using op rp True ap by (auto simp: timer_wake_def split: option.splits)
    with ctx_append_keys [OF ap, of key] ctx_append_log [OF ap] st True l show ?thesis
      by (auto intro: keeps_keys_trans dest: keeps_keyed)
  next
    case False
    with op rp have "s1 = t" by (auto simp: timer_wake_def split: sum.splits option.splits entry.splits)
    with st l show ?thesis by auto
  qed
qed

lemma op_sleep_call: "op_sleep (traced E) key wake meta s = (r, s1) \<Longrightarrow> keyed s \<Longrightarrow> call_ok r s s1"
  by (auto simp: op_sleep_def split: sum.splits prod.splits if_splits
      dest!: timer_wake_call intro!: call_ok_quiet)

lemma op_yield_call: "op_yield (traced E) key wake meta s = (r, s1) \<Longrightarrow> keyed s \<Longrightarrow> call_ok r s s1"
  by (auto simp: op_yield_def split: sum.splits prod.splits if_splits
      dest!: timer_wake_call intro!: call_ok_quiet)

lemma op_await_call:
  assumes op: "op_await (traced E) key name deadline meta s = (r, s1)" and k: "keyed s"
  shows "call_ok r s s1"
proof -
  obtain p t where rp: "replay KAwait key s = (p, t)" by (cases "replay KAwait key s")
  note st = replay_keys [OF rp k] and l = replay_log [OF rp]
  have kt: "keyed t" using st(1) by (rule keeps_keyed)
  show ?thesis
  proof (cases "p = Inr None")
    case True
    have d: "drain_signals t = t" using st(2) True by (intro drain_frontier) simp
    have sub: "keeps_keys t u \<and> run_log u = run_log t"
      if ap: "ctx_append (traced E) (EAwait key out) (t\<lparr>pending := ps\<rparr>) = (x, u)" for out ps x u
    proof -
      have "keyed (t\<lparr>pending := ps\<rparr>)" using kt by (simp add: keyed_def cursor_ok_def)
      from ctx_append_keys [OF ap this, of key] ctx_append_log [OF ap] st(2) [OF True] show ?thesis
        by (auto intro: keeps_keys_frame_left [rotated 2])
    qed
    have sub': "keeps_keys t u \<and> run_log u = run_log t"
      if "ctx_append (traced E) (EAwait key out) t = (x, u)" for out x u
      using sub [of out "pending t" x u] that by simp
    have "keeps_keys t s1 \<and> run_log s1 = run_log t"
      using op rp True d kt
      by (auto simp: op_await_def Let_def split: option.splits prod.splits if_splits dest: sub sub')
    with st(1) l show ?thesis by (auto intro: call_ok_quiet keeps_keys_trans)
  next
    case False
    have "keeps_keys t (consume_signal q (drain_signals t))" for q
      by (rule keeps_keys_frame [OF _ _ _ drain_keeps_keys [OF kt]]) simp_all
    with False op rp kt have "keeps_keys t s1 \<and> run_log s1 = run_log t"
      by (auto simp: op_await_def split: sum.splits option.splits entry.splits if_splits)
    with st(1) l show ?thesis by (auto intro: call_ok_quiet keeps_keys_trans)
  qed
qed

lemma traced_observer: "snd (on_activity (traced E) key name args v w) = snd w"
  by (cases w) (simp add: traced_def)

text \<open>The activity has executed: \<open>s\<close> is the context at the frontier, the log holds the key.\<close>

lemma settle_call:
  assumes op: "settle (traced E) key name args n out s = (r, s1)" and k: "keyed s"
    and c: "cursor s = length (journal s)" and key: "key \<in> set (seen s)" "key \<notin> set (step_keys (journal s))"
  shows "keeps_keys s s1 \<and> run_log s1 = run_log s \<and>
    (poisoned s1 = None \<longrightarrow> (\<exists>wh. r = Inl (XCrash wh)) \<or> key \<in> set (step_keys (journal s1)))"
proof -
  let ?s = "case out of Inl _ \<Rightarrow> s
    | Inr v \<Rightarrow> s\<lparr>world := on_activity (traced E) key name args v (world s)\<rparr>"
  have fr: "journal ?s = journal s" "cursor ?s = cursor s" "seen ?s = seen s" "run_log ?s = run_log s"
    by (cases out; simp add: traced_observer)+
  have k': "keyed ?s" using k by (simp only: keyed_frame [OF fr(1-3)])
  have ap: "keeps_keys ?s u \<and> run_log u = run_log s \<and>
      (poisoned u = None \<longrightarrow> key \<in> set (step_keys (journal u)))"
    if ap: "ctx_append (traced E) e ?s = (x, u)" and e: "is_step e" "entry_key e = Some key" for e x u
  proof -
    have "x = None \<or> poisoned u \<noteq> None" using ctx_append_Some_poisoned [of "traced E" e ?s] ap by (cases x) auto
    moreover have "x = None \<Longrightarrow> key \<in> set (step_keys (journal u))"
      using ctx_append_ok(2) [of "traced E" e ?s u] ap e by (simp add: step_keys_step)
    ultimately show ?thesis
      using ctx_append_keys [OF ap k' _ e] ctx_append_log [OF ap] c key fr by auto
  qed
  have "keeps_keys ?s s1 \<and> run_log s1 = run_log s \<and>
    (poisoned s1 = None \<longrightarrow> (\<exists>wh. r = Inl (XCrash wh)) \<or> key \<in> set (step_keys (journal s1)))"
  proof (cases "crash_now BeforeJournal n ?s")
    case True
    with op k' fr show ?thesis by (auto simp: settle_def)
  next
    case False
    show ?thesis
    proof (cases out)
      case (Inl f)
      obtain x u where a: "ctx_append (traced E) (EEffectThrew key (journal_failure f)) ?s = (x, u)"
        by (cases "ctx_append (traced E) (EEffectThrew key (journal_failure f)) ?s")
      with op False Inl have "s1 = u" by (auto simp: settle_def split: option.splits)
      with ap [OF a] show ?thesis by simp
    next
      case (Inr v)
      obtain x u where a: "ctx_append (traced E) (EEffect key v) ?s = (x, u)"
        by (cases "ctx_append (traced E) (EEffect key v) ?s")
      with op False Inr have "s1 = u" by (auto simp: settle_def Let_def split: option.splits if_splits)
      with ap [OF a] show ?thesis by simp
    qed
  qed
  then show ?thesis using keeps_keys_frame_left [OF fr(1) fr(3)] by blast
qed

lemma op_run_call:
  assumes op: "op_run (traced E) key name args s = (r, s1)" and k: "keyed s"
  shows "call_ok r s s1"
proof -
  obtain p t where rp: "replay KEffect key s = (p, t)" by (cases "replay KEffect key s")
  note st = replay_keys [OF rp k] and l = replay_log [OF rp]
  have kt: "keyed t" using st(1) by (rule keeps_keyed)
  show ?thesis
  proof (cases "p = Inr None \<and> activities (traced E) name \<noteq> None")
    case True
    then obtain act where act: "activities (traced E) name = Some act" and p: "p = Inr None" by auto
    note fr = st(2) [OF p]
    let ?n = "executed_effects t + 1"
    let ?s2 = "t\<lparr>executed_effects := ?n\<rparr>"
    obtain out w where out: "act args key (world ?s2) = (out, w)" by (cases "act args key (world ?s2)")
    have w: "snd w = run_log t @ [key]"
      using act out by (auto simp: traced_def split: prod.splits)
    show ?thesis
    proof (cases "crash_now BeforeExecute ?n ?s2")
      case True
      with op rp p act have s1: "s1 = ?s2" by (auto simp: op_run_def Let_def)
      have "keeps_keys s ?s2" by (rule keeps_keys_frame [OF _ _ _ st(1)]) simp_all
      then show ?thesis unfolding s1 by (rule call_ok_quiet) (simp add: l)
    next
      case False
      let ?s3 = "?s2\<lparr>world := w\<rparr>"
      have op': "settle (traced E) key name args ?n out ?s3 = (r, s1)"
        using op rp p act out False by (simp add: op_run_def Let_def)
      have "keyed ?s3" using kt by (simp add: keyed_def cursor_ok_def)
      from settle_call [OF op' this] fr have
        sc: "keeps_keys ?s3 s1" "run_log s1 = run_log t @ [key]"
        "poisoned s1 = None \<longrightarrow> (\<exists>wh. r = Inl (XCrash wh)) \<or> key \<in> set (step_keys (journal s1))"
        using w by auto
      have a: "keeps_keys t s1" by (rule keeps_keys_frame_left [OF _ _ sc(1)]) simp_all
      have "executes (poisoned s1 = None \<and> \<not> (\<exists>wh. r = Inl (XCrash wh))) s s1"
        unfolding executes_def
      proof (intro exI [of _ "[key]"] conjI)
        show "run_log s1 = run_log s @ [key]" using sc(2) l by simp
        show "set [key] \<subseteq> set (seen s1) - set (seen s)" using fr a by (auto simp: keeps_keys_def)
        show "set [key] \<inter> set (step_keys (journal s)) = {}" using fr replay_frame(1) [OF rp] by simp
      qed (use sc(3) in auto)
      with keeps_keys_trans [OF st(1) a] show ?thesis by (simp add: call_ok_def)
    qed
  next
    case False
    with op rp have "s1 = t"
      by (auto simp: op_run_def split: sum.splits option.splits entry.splits)
    with st l show ?thesis by (auto intro: call_ok_quiet)
  qed
qed

text \<open>A call and the rest of the run.\<close>

lemma call_then:
  assumes a: "call_ok p s u" "advances s u" and b: "call_ok q u t" "advances u t"
    and x: "\<And>wh. poisoned t = None \<Longrightarrow> p = Inl (XCrash wh) \<Longrightarrow> \<exists>wh. q = Inl (XCrash wh)"
  shows "call_ok q s t"
proof -
  have k: "keeps_keys s u" "keeps_keys u t" using a b by (auto simp: call_ok_def)
  have "executes (poisoned t = None \<and> \<not> (\<exists>wh. q = Inl (XCrash wh))) s t"
    by (rule executes_trans [of "poisoned u = None \<and> \<not> (\<exists>wh. p = Inl (XCrash wh))" s u
        "poisoned t = None \<and> \<not> (\<exists>wh. q = Inl (XCrash wh))"])
      (use a b k x poisoned_back [OF b(2)] in \<open>auto simp: call_ok_def advances_def keeps_keys_def\<close>)
  with keeps_keys_trans [OF k] show ?thesis by (simp add: call_ok_def)
qed

text \<open>A workflow that does not swallow the test seam's crash: all the execution count needs.\<close>

definition passes_crash :: "(exn + 'a \<Rightarrow> wf) \<Rightarrow> bool" where
  "passes_crash c \<longleftrightarrow> (\<forall>wh. c (Inl (XCrash wh)) = Throw (XCrash wh))"

primrec lets_crashes_through :: "wf \<Rightarrow> bool" where
  "lets_crashes_through (Done v) = True"
| "lets_crashes_through (Throw x) = True"
| "lets_crashes_through (Run key name args c) = (passes_crash c \<and> (\<forall>r. lets_crashes_through (c r)))"
| "lets_crashes_through (Now key c) = (passes_crash c \<and> (\<forall>r. lets_crashes_through (c r)))"
| "lets_crashes_through (SleepUntil key wake meta c) = (passes_crash c \<and> (\<forall>r. lets_crashes_through (c r)))"
| "lets_crashes_through (YieldUntil key wake meta c) = (passes_crash c \<and> (\<forall>r. lets_crashes_through (c r)))"
| "lets_crashes_through (AwaitSignal key name deadline meta c) =
     (passes_crash c \<and> (\<forall>r. lets_crashes_through (c r)))"
| "lets_crashes_through (IsReplaying c) = (\<forall>b. lets_crashes_through (c b))"

lemma passes_through_crash: "passes_through c \<Longrightarrow> passes_crash c"
  by (simp add: passes_through_def passes_crash_def)

lemma well_behaved_lets_crashes_through: "well_behaved w \<Longrightarrow> lets_crashes_through w"
  by (induction w) (auto intro: passes_through_crash)

lemma crash_passes:
  "passes_crash c \<Longrightarrow> interp E (c (Inl (XCrash wh))) s = (q, t) \<Longrightarrow> q = Inl (XCrash wh)"
  by (simp add: passes_crash_def)

lemma interp_call_step:
  assumes a: "call_ok p s u" and ad: "cursor_ok s \<Longrightarrow> advances s u"
    and i: "interp (traced E) (c p) u = (r, s1)" and pc: "passes_crash c"
    and ih: "keyed u \<Longrightarrow> call_ok r u s1" and ok: "cursor_ok s"
  shows "call_ok r s s1"
proof -
  have k: "keyed u" using a by (auto simp: call_ok_def dest: keeps_keyed)
  show ?thesis
  proof (rule call_then [OF a ad [OF ok] ih [OF k]])
    show "advances u s1" using interp_advances [OF i] k by (simp add: keyed_def)
    show "\<exists>wh. r = Inl (XCrash wh)" if "p = Inl (XCrash wh)" for wh
      using crash_passes [where c = c and wh = wh, OF pc] i that by blast
  qed
qed

lemma interp_call:
  assumes "lets_crashes_through w" and "interp (traced E) w s = (r, s1)" and "keyed s"
  shows "call_ok r s s1"
  using assms
proof (induction w arbitrary: s)
  case (Done v)
  then show ?case by (auto intro: call_ok_quiet)
next
  case (Throw x)
  then show ?case by (auto intro: call_ok_quiet)
next
  case (Run key name args c)
  obtain p u where op: "op_run (traced E) key name args s = (p, u)"
    by (cases "op_run (traced E) key name args s")
  from Run.prems op have i: "interp (traced E) (c p) u = (r, s1)" and wc: "lets_crashes_through (c p)"
    and pc: "passes_crash c" by simp_all
  show ?case
    by (rule interp_call_step [OF op_run_call [OF op Run.prems(3)] op_run_advances [OF op] i pc])
      (use Run.IH [OF _ wc i] Run.prems(3) in \<open>auto simp: keyed_def\<close>)
next
  case (Now key c)
  obtain p u where op: "op_now (traced E) key s = (p, u)"
    by (cases "op_now (traced E) key s")
  from Now.prems op have i: "interp (traced E) (c p) u = (r, s1)" and wc: "lets_crashes_through (c p)"
    and pc: "passes_crash c" by simp_all
  show ?case
    by (rule interp_call_step [OF op_now_call [OF op Now.prems(3)] op_now_advances [OF op] i pc])
      (use Now.IH [OF _ wc i] Now.prems(3) in \<open>auto simp: keyed_def\<close>)
next
  case (SleepUntil key wake meta c)
  obtain p u where op: "op_sleep (traced E) key wake meta s = (p, u)"
    by (cases "op_sleep (traced E) key wake meta s")
  from SleepUntil.prems op have i: "interp (traced E) (c p) u = (r, s1)" and wc: "lets_crashes_through (c p)"
    and pc: "passes_crash c" by simp_all
  show ?case
    by (rule interp_call_step [OF op_sleep_call [OF op SleepUntil.prems(3)] op_sleep_advances [OF op] i pc])
      (use SleepUntil.IH [OF _ wc i] SleepUntil.prems(3) in \<open>auto simp: keyed_def\<close>)
next
  case (YieldUntil key wake meta c)
  obtain p u where op: "op_yield (traced E) key wake meta s = (p, u)"
    by (cases "op_yield (traced E) key wake meta s")
  from YieldUntil.prems op have i: "interp (traced E) (c p) u = (r, s1)" and wc: "lets_crashes_through (c p)"
    and pc: "passes_crash c" by simp_all
  show ?case
    by (rule interp_call_step [OF op_yield_call [OF op YieldUntil.prems(3)] op_yield_advances [OF op] i pc])
      (use YieldUntil.IH [OF _ wc i] YieldUntil.prems(3) in \<open>auto simp: keyed_def\<close>)
next
  case (AwaitSignal key name deadline meta c)
  obtain p u where op: "op_await (traced E) key name deadline meta s = (p, u)"
    by (cases "op_await (traced E) key name deadline meta s")
  from AwaitSignal.prems op have i: "interp (traced E) (c p) u = (r, s1)" and wc: "lets_crashes_through (c p)"
    and pc: "passes_crash c" by simp_all
  show ?case
    by (rule interp_call_step [OF op_await_call [OF op AwaitSignal.prems(3)] op_await_advances [OF op] i pc])
      (use AwaitSignal.IH [OF _ wc i] AwaitSignal.prems(3) in \<open>auto simp: keyed_def\<close>)
next
  case (IsReplaying c)
  then show ?case by auto
qed

lemma start_ctx_keyed: "keyed (start_ctx s)"
proof -
  have "step_keys (take (cursor (start_ctx s)) (journal s)) = []"
    by (cases "journal s" rule: journal_version.cases) (simp_all add: start_ctx_def step_keys_def)
  then show ?thesis by (simp add: keyed_def start_ctx_ok)
qed

lemma bind_version_keys:
  assumes "bind_version E s = (r, s1)"
  shows "step_keys (journal s1) = step_keys (journal s) \<and> (\<exists>ext. journal s1 = journal s @ ext)"
  using assms
  by (auto simp: bind_version_def append_entry_def Let_def step_keys_def
      split: option.splits if_splits prod.splits)

lemma bind_version_log: "bind_version (traced E) s = (r, s1) \<Longrightarrow> run_log s1 = run_log s"
  by (auto simp: bind_version_def split: option.splits if_splits prod.splits dest: append_entry_log)

lemma run_wf_cases [consumes 1, case_names refused unbound reached]:
  assumes "run_wf E w s = (r, s1)"
  obtains (refused) x where "s1 = s\<lparr>settled := x\<rparr>"
    | (unbound) b sb x where "bind_version E s = (b, sb)" "s1 = sb\<lparr>settled := x\<rparr>"
    | (reached) sb q u where "bind_version E s = (Inr None, sb)" "interp E w (start_ctx sb) = (q, u)"
        "r = classify (q, u)" "s1 = u\<lparr>settled := Some r\<rparr>" "poisoned s = None"
proof (cases "poisoned s = None \<and> journal_tombstone (journal s) = None")
  case True
  obtain b sb where b: "bind_version E s = (b, sb)" by (cases "bind_version E s")
  show ?thesis
  proof (cases "b = Inr None")
    case bn: True
    obtain q u where "interp E w (start_ctx sb) = (q, u)" by (cases "interp E w (start_ctx sb)")
    with assms True b bn reached show ?thesis by (auto simp: run_wf_def Let_def)
  next
    case False
    with assms True b have "\<exists>x. s1 = sb\<lparr>settled := x\<rparr>"
      by (auto simp: run_wf_def split: sum.splits option.splits)
    with unbound b show ?thesis by blast
  qed
next
  case False
  with assms have "\<exists>x. s1 = s\<lparr>settled := x\<rparr>" by (auto simp: run_wf_def split: option.splits)
  with refused show ?thesis by blast
qed

lemma executions_are_fresh:
  assumes wb: "lets_crashes_through w" and run: "run_wf (traced E) w s = (r, s1)"
  shows "\<exists>new. run_log s1 = run_log s @ new \<and> distinct new
    \<and> set new \<inter> set (step_keys (journal s)) = {}
    \<and> (poisoned s1 = None \<and> (\<nexists>wh. r = Crashed wh) \<longrightarrow> set new \<subseteq> set (step_keys (journal s1)))"
using run
proof (cases rule: run_wf_cases)
  case (refused x)
  then show ?thesis by simp
next
  case (unbound b sb x)
  with bind_version_log [OF unbound(1)] bind_version_keys [OF unbound(1)] show ?thesis by simp
next
  case (reached sb q u)
  from interp_call [OF wb reached(2) start_ctx_keyed]
  obtain new where n: "run_log u = run_log sb @ new" "distinct new"
    "set new \<inter> set (step_keys (journal sb)) = {}"
    "poisoned u = None \<and> \<not> (\<exists>wh. q = Inl (XCrash wh)) \<longrightarrow> set new \<subseteq> set (step_keys (journal u))"
    "distinct (step_keys (journal sb)) \<longrightarrow> distinct (step_keys (journal u))"
    by (auto simp: call_ok_def executes_def keeps_keys_def)
  have "q = Inl (XCrash wh) \<Longrightarrow> poisoned u = None \<Longrightarrow> r = Crashed wh" for wh
    using reached(3) by (simp add: classify_def)
  with n reached bind_version_log [OF reached(1)] bind_version_keys [OF reached(1)] show ?thesis
    by (intro exI [of _ new]) auto
qed

text \<open>
  C2. No journaled activity executes again. Whatever journal a run of a workflow that
  lets the crash seam through starts from, the activities it executes run under keys that journal does not
  hold, each key once; and unless the run crashed or was poisoned, every key it executed
  is journaled when it ends, so the next run will not execute it either. The only
  repeated execution is the one cut between executing and journaling. A step key is
  journaled at most once.
\<close>

theorem journaled_activity_never_reexecutes:
  assumes wb: "lets_crashes_through w" and run: "run_wf (traced E) w s = (r, s1)"
  shows "\<exists>new. run_log s1 = run_log s @ new \<and> distinct new
    \<and> set new \<inter> set (step_keys (journal s)) = {}
    \<and> (poisoned s1 = None \<and> (\<nexists>wh. r = Crashed wh) \<longrightarrow> set new \<subseteq> set (step_keys (journal s1)))"
  by (rule executions_are_fresh [OF wb run])

subsection \<open>Append-only, terminal, version-bound\<close>

lemma append_entry_extends: "append_entry E e s = (x, s1) \<Longrightarrow> \<exists>ext. journal s1 = journal s @ ext"
  by (simp add: append_entry_frame(1))

lemma append_entry_journal [simp]: "journal (snd (append_entry E e s)) = journal s @ [e]"
  by (cases "append_entry E e s") (simp add: append_entry_frame(1))

lemma append_header_extends: "append_header E s = (x, s1) \<Longrightarrow> \<exists>ext. journal s1 = journal s @ ext"
  by (auto simp: append_header_def split: option.splits if_splits prod.splits dest: append_entry_extends)

lemma extends_trans: "\<exists>e. b = a @ e \<Longrightarrow> \<exists>e. c = b @ e \<Longrightarrow> \<exists>e. c = a @ e"
  by auto

text \<open>
  The journal is append-only: a run, a delivered signal and a tombstone only ever add
  entries at the end, whether they succeed, throw, crash or lose their disk.
\<close>

theorem journal_is_append_only:
  "(\<exists>ext. journal (snd (run_wf E w s)) = journal s @ ext)
   \<and> (\<exists>ext. journal (snd (signal E name pl s)) = journal s @ ext)
   \<and> (\<exists>ext. journal (snd (tombstone E reason detail s)) = journal s @ ext)"
proof -
  obtain r s1 where run: "run_wf E w s = (r, s1)" by (cases "run_wf E w s")
  then have "\<exists>ext. journal s1 = journal s @ ext"
  proof (cases rule: run_wf_cases)
    case (reached sb q u)
    have "\<exists>ext. journal u = journal sb @ ext"
      using interp_advances [OF reached(2) start_ctx_ok] by (auto simp: advances_def grows_def)
    with bind_version_keys [OF reached(1)] reached(4) show ?thesis by (auto intro: extends_trans)
  qed (auto dest: bind_version_keys)
  then have "\<exists>ext. journal (snd (run_wf E w s)) = journal s @ ext" by (simp add: run)
  moreover have "\<exists>ext. journal (snd (signal E name pl s)) = journal s @ ext"
    by (auto simp: signal_def split: option.splits prod.splits
        dest!: append_entry_extends append_header_extends intro: extends_trans)
  moreover have "\<exists>ext. journal (snd (tombstone E reason detail s)) = journal s @ ext"
    by (auto simp: tombstone_def Let_def split: option.splits prod.splits
        dest!: append_entry_extends append_header_extends intro: extends_trans)
  ultimately show ?thesis by blast
qed

lemma append_entry_ok:
  assumes "append_entry E e s = (None, s1)"
  shows "journal s1 = journal s @ [e]" "poisoned s1 = poisoned s" "version s1 = version s"
  using append_entry_frame [OF assms] by auto

lemma append_header_ok:
  assumes "append_header E s = (None, s1)" and "journal_tombstone (journal s) = None"
  shows "journal_tombstone (journal s1) = None" "poisoned s1 = poisoned s" "version s1 = version s"
  using assms
  by (auto simp: append_header_def journal_tombstone_def split: option.splits if_splits prod.splits
      dest: append_entry_ok)

lemma tombstone_read:
  assumes "tombstone E reason detail s = (Inr e, s1)"
  shows "journal_tombstone (journal s1) = Some e" "poisoned s1 = None"
proof -
  have "journal_tombstone (journal s1) = Some e \<and> poisoned s1 = None"
  proof (cases "poisoned s = None \<and> journal_tombstone (journal s) = None")
    case True
    obtain x sh where h: "append_header E s = (x, sh)" by (cases "append_header E s")
    from assms True h have x: "x = None" by (auto simp: tombstone_def split: option.splits)
    note hf = append_header_ok [OF h [unfolded x] conjunct2 [OF True]]
    let ?e = "ETombstone (if reason = [] then ''refused'' else reason) (if nullish detail then JUndef else detail)"
    have "append_entry E ?e sh = (None, s1)" and e: "e = ?e"
      using assms True h x by (auto simp: tombstone_def Let_def split: option.splits prod.splits)
    from append_entry_ok [OF this(1)] hf True show ?thesis
      unfolding e by (simp add: journal_tombstone_def find_append)
  next
    case False
    with assms show ?thesis by (auto simp: tombstone_def split: option.splits)
  qed
  then show "journal_tombstone (journal s1) = Some e" "poisoned s1 = None" by auto
qed

text \<open>
  C4. A tombstone is terminal. Once \<open>tombstone\<close> has returned its entry, every later run, by
  any workflow under any environment, fails with \<open>WorkflowTombstoned\<close> and changes neither
  the journal nor the world; a signal is refused with it; and a second tombstone, whatever
  its reason, returns the first one.
\<close>

theorem tombstone_is_terminal:
  assumes "tombstone E reason detail s = (Inr e, s1)"
  shows "run_wf E' w s1 = (Failed (XTombstoned e), s1\<lparr>settled := Some (Failed (XTombstoned e))\<rparr>)
      \<and> signal E' name pl s1 = (Some (XTombstoned e), s1)
      \<and> tombstone E' reason' detail' s1 = (Inr e, s1)"
  using tombstone_read [OF assms] by (simp_all add: run_wf_def signal_def tombstone_def)

text \<open>
  A journal is run only by the workflow version it was opened with: an execution
  bound to another name or version (or a versioned one over an unversioned journal with
  entries) fails with \<open>WorkflowVersionMismatch\<close>, naming what was recorded, before the
  workflow function is called: journal and world are as they were.
\<close>

theorem other_version_is_refused:
  assumes "poisoned s = None" "journal_tombstone (journal s) = None" "version s = Some v"
    and "journal s \<noteq> []" "\<And>rec. journal_version (journal s) = Some rec \<Longrightarrow> \<not> same_version rec v"
  shows "run_wf E w s = (Failed (XVersionMismatch (journal_version (journal s)) v),
    s\<lparr>settled := Some (Failed (XVersionMismatch (journal_version (journal s)) v))\<rparr>)"
  using assms by (auto simp: run_wf_def bind_version_def split: option.splits)

text \<open>
  A lost disk is final for the execution. If a persist failed at any point of a run,
  the run fails with that persist error whatever the workflow function made of it, and
  from then on every run, signal and tombstone of the execution refuses with the same
  error without touching the journal.
\<close>

theorem poisoned_execution_refuses:
  assumes "run_wf E w s = (r, s1)" and "poisoned s1 = Some f"
  shows "(r = Failed (XPersist f) \<or> r = Rejected (XPersist f))
    \<and> run_wf E' w' s1 = (Failed (XPersist f), s1\<lparr>settled := Some (Failed (XPersist f))\<rparr>)
    \<and> signal E' name pl s1 = (Some (XPersist f), s1)
    \<and> tombstone E' reason detail s1 = (Inl (XPersist f), s1)"
proof (intro conjI)
  show "r = Failed (XPersist f) \<or> r = Rejected (XPersist f)"
  proof (cases "poisoned s")
    case None
    show ?thesis
    proof (cases "bind_version E s")
      case (Pair b sb)
      have pb: "poisoned sb = (case b of Inl (XPersist g) \<Rightarrow> Some g | _ \<Rightarrow> None)"
        using Pair None
        by (auto simp: bind_version_def append_entry_def Let_def split: option.splits if_splits prod.splits)
      have bx: "b = Inl x \<Longrightarrow> \<exists>g. x = XPersist g" for x
        using Pair
        by (auto simp: bind_version_def append_entry_def Let_def split: option.splits if_splits prod.splits)
      show ?thesis
      proof (cases b)
        case (Inl x)
        with bx obtain g where "x = XPersist g" by blast
        with assms None Pair Inl pb show ?thesis by (auto simp: run_wf_def split: option.splits)
      next
        case (Inr o')
        with assms None Pair pb show ?thesis
          by (auto simp: run_wf_def Let_def classify_def split: option.splits)
      qed
    qed
  qed (use assms in \<open>auto simp: run_wf_def\<close>)
qed (use assms in \<open>simp_all add: run_wf_def signal_def tombstone_def\<close>)

subsection \<open>Concrete runs\<close>

text \<open>A two-step workflow (one activity, one timer) over a world that is its own clock; the
  activity takes one tick.\<close>

definition demo_env :: "int env" where
  "demo_env = \<lparr>
     activities = (\<lambda>name. if name = ''build'' then Some (\<lambda>args key w. (Inr (JStr ''ok''), w + 1)) else None),
     clock = (\<lambda>w. w), persist = None, on_activity = (\<lambda>key name args r w. w)\<rparr>"

definition demo_wf :: wf where
  "demo_wf = Run ''build:1'' ''build'' JNull (\<lambda>r. case r of Inl x \<Rightarrow> Throw x | Inr v \<Rightarrow>
     SleepUntil ''cool'' 0 JUndef (\<lambda>q. case q of Inl x \<Rightarrow> Throw x | Inr _ \<Rightarrow> Done v))"

definition fresh_execution :: "'w \<Rightarrow> 'w st" where
  "fresh_execution w = \<lparr>journal = [], version = Some (Some ''gates'', ''1''), poisoned = None,
     crash_plan = None, executed_effects = 0, settled = None, world = w, cursor = 0, pending = [], seen = []\<rparr>"

definition demo_journal :: "entry list" where
  "demo_journal = [EVersion 1 (Some ''gates'') ''1'', EEffect ''build:1'' (JStr ''ok''), ETimer ''cool'' 0]"

lemmas run_defs =
  run_wf_def bind_version_def append_entry_def start_ctx_def classify_def op_run_def op_now_def
  op_sleep_def timer_wake_def settle_def ctx_append_def replay_def drain_signals_def
  entry_at_cursor_def crash_now_def journal_tombstone_def JOURNAL_SPEC_VERSION_def
  append_header_def signal_def tombstone_def same_version_def workflow_name_def

lemma demo_well_behaved: "well_behaved demo_wf"
  by (auto simp: demo_wf_def passes_through_def reads_failures_blind_def split: sum.split)

lemma demo_run:
  "run_wf demo_env demo_wf (fresh_execution 5) = (Completed (JStr ''ok''),
     (fresh_execution 6)\<lparr>journal := demo_journal, executed_effects := 1,
       settled := Some (Completed (JStr ''ok'')), cursor := 3, seen := [''cool'', ''build:1'']\<rparr>)"
  by (simp add: run_defs demo_env_def demo_wf_def fresh_execution_def demo_journal_def Let_def)

text \<open>The replaying environment has no activity at all.\<close>

definition empty_env :: "int env" where
  "empty_env = \<lparr>activities = (\<lambda>name. None), clock = (\<lambda>w. w), persist = None,
     on_activity = (\<lambda>key name args r w. w)\<rparr>"

theorem replay_returns_the_recorded_verdict_witness:
  "\<exists>r' t1. run_wf empty_env demo_wf ((fresh_execution 100)\<lparr>journal := demo_journal\<rparr>) = (r', t1)
    \<and> same_verdict (Completed (JStr ''ok'')) r' \<and> world t1 = 100 \<and> executed_effects t1 = 0
    \<and> journal t1 = demo_journal"
  using replay_returns_the_recorded_verdict [OF demo_well_behaved demo_run,
      of "(fresh_execution 100)\<lparr>journal := demo_journal\<rparr>" empty_env]
  by (simp add: is_verdict_def fresh_execution_def wakes_passed_def demo_journal_def empty_env_def)

lemma demo_traced_run:
  "run_wf (traced demo_env) demo_wf (fresh_execution (5, [])) = (Completed (JStr ''ok''),
     (fresh_execution (6, [''build:1'']))\<lparr>journal := demo_journal, executed_effects := 1,
       settled := Some (Completed (JStr ''ok'')), cursor := 3, seen := [''cool'', ''build:1'']\<rparr>)"
  by (simp add: run_defs demo_env_def traced_def demo_wf_def fresh_execution_def demo_journal_def Let_def)

theorem journaled_activity_never_reexecutes_witness:
  "\<exists>new. [''build:1''] = new \<and> distinct new \<and> set new \<subseteq> set (step_keys demo_journal)"
  using journaled_activity_never_reexecutes [OF well_behaved_lets_crashes_through [OF demo_well_behaved] demo_traced_run]
  by (simp add: fresh_execution_def)

lemma demo_tombstone:
  "tombstone demo_env ''refused'' JNull (fresh_execution 5) = (Inr (ETombstone ''refused'' JUndef),
     (fresh_execution 5)\<lparr>journal := [EVersion 1 (Some ''gates'') ''1'', ETombstone ''refused'' JUndef]\<rparr>)"
  by (simp add: run_defs demo_env_def fresh_execution_def Let_def)

theorem tombstone_is_terminal_witness:
  "fst (run_wf demo_env demo_wf ((fresh_execution 5)\<lparr>journal :=
     [EVersion 1 (Some ''gates'') ''1'', ETombstone ''refused'' JUndef]\<rparr>))
   = Failed (XTombstoned (ETombstone ''refused'' JUndef))"
  using tombstone_is_terminal [OF demo_tombstone, of demo_env demo_wf] by simp

theorem other_version_is_refused_witness:
  "fst (run_wf demo_env demo_wf ((fresh_execution 5)\<lparr>journal := demo_journal, version := Some (Some ''gates'', ''2'')\<rparr>))
   = Failed (XVersionMismatch (Some (Some ''gates'', ''1'')) (Some ''gates'', ''2''))"
  using other_version_is_refused [of "(fresh_execution 5)\<lparr>journal := demo_journal, version := Some (Some ''gates'', ''2'')\<rparr>"
      "(Some ''gates'', ''2'')" demo_env demo_wf]
  by (simp add: fresh_execution_def demo_journal_def journal_tombstone_def same_version_def)

definition lost_disk :: failure where
  "lost_disk = \<lparr>f_message = ''EIO'', f_name = ''Error'', f_code = JUndef, f_replayed = False\<rparr>"

definition failing_env :: "int env" where
  "failing_env = demo_env\<lparr>persist := Some (\<lambda>e w. case e of EEffect _ _ \<Rightarrow> (Some lost_disk, w) | _ \<Rightarrow> (None, w))\<rparr>"

lemma demo_poisoned_run:
  "run_wf failing_env demo_wf (fresh_execution 5) = (Failed (XPersist lost_disk),
     (fresh_execution 6)\<lparr>journal := take 2 demo_journal, executed_effects := 1, poisoned := Some lost_disk,
       settled := Some (Failed (XPersist lost_disk)), cursor := 1, seen := [''build:1'']\<rparr>)"
  by (simp add: run_defs failing_env_def demo_env_def demo_wf_def fresh_execution_def demo_journal_def Let_def)

theorem poisoned_execution_refuses_witness:
  "fst (signal demo_env ''approved'' JNull ((fresh_execution 6)\<lparr>journal := take 2 demo_journal,
     executed_effects := 1, poisoned := Some lost_disk, settled := Some (Failed (XPersist lost_disk)),
     cursor := 1, seen := [''build:1'']\<rparr>)) = Some (XPersist lost_disk)"
  using poisoned_execution_refuses [OF demo_poisoned_run, of lost_disk demo_env demo_wf "''approved''" JNull]
  by simp

end
