(* ===== verification/WorkflowRelations.thy ===== *)
theory WorkflowRelations
  imports WorkflowProps
begin

text \<open>
  Relations between workflow functions that the kernel turns into facts about their runs: \<open>replays_to\<close> (a
  run of the one that completes is reproduced by the other over the journal it left), \<open>held\<close> (a run executes
  nothing but a closing activity), \<open>agree\<close> (two functions run alike from every context close to
  the end of its journal). Each has one rule per context call, so a workflow function written with the
  context's calls is related by walking over it once.
\<close>

subsection \<open>A replaying context executes nothing\<close>

lemma drain_dropWhile:
  "drop (cursor (drain_signals s)) (journal s) = dropWhile is_signal (drop (cursor s) (journal s))"
proof -
  let ?d = "drop (cursor s) (journal s)"
  have "drop (length (takeWhile is_signal ?d)) ?d = dropWhile is_signal ?d"
    by (metis dropWhile_eq_drop)
  then show ?thesis by (simp add: drain_signals_def Let_def add.commute)
qed

lemma replay_live_iff:
  assumes "replay k key s = (Inr q, s1)"
  shows "q = None \<longleftrightarrow> \<not> is_replaying s"
proof -
  let ?s0 = "s\<lparr>seen := key # seen s\<rparr>"
  have "drop (cursor (drain_signals ?s0)) (journal ?s0) = dropWhile is_signal (drop (cursor s) (journal s))"
    using drain_dropWhile [of ?s0] by simp
  then have "is_replaying s \<longleftrightarrow> drop (cursor (drain_signals ?s0)) (journal s) \<noteq> []"
    by (simp only: is_replaying_def) simp
  then have "is_replaying s \<longleftrightarrow> cursor (drain_signals ?s0) < length (journal s)" by auto
  with assms show ?thesis
    by (auto simp: replay_def Let_def entry_at_cursor_def split: if_splits option.splits)
qed

text \<open>What a call that replays leaves alone.\<close>

lemma replay_quiet: "replay k key s = (r, s1) \<Longrightarrow> quiet s s1"
  by (auto simp: replay_def Let_def quiet_def split: if_splits option.splits)

lemma op_run_replaying:
  assumes op: "op_run E key name args s = (r, s1)" and rep: "is_replaying s"
  shows "quiet s s1"
proof -
  obtain p u where rp: "replay KEffect key s = (p, u)" by (cases "replay KEffect key s")
  with rep have "p \<noteq> Inr None" using replay_live_iff [of KEffect key s None u] by auto
  with op rp have "s1 = u" by (auto simp: op_run_def split: sum.splits option.splits entry.splits)
  with replay_quiet [OF rp] show ?thesis by simp
qed

lemma op_now_replaying:
  assumes op: "op_now E key s = (r, s1)" and rep: "is_replaying s"
  shows "quiet s s1"
proof -
  obtain p u where rp: "replay KNow key s = (p, u)" by (cases "replay KNow key s")
  with rep have "p \<noteq> Inr None" using replay_live_iff [of KNow key s None u] by auto
  with op rp have "s1 = u" by (auto simp: op_now_def split: sum.splits option.splits entry.splits)
  with replay_quiet [OF rp] show ?thesis by simp
qed

lemma timer_wake_replaying:
  assumes op: "timer_wake E key wake s = (r, s1)" and rep: "is_replaying s"
  shows "quiet s s1"
proof -
  obtain p u where rp: "replay KTimer key s = (p, u)" by (cases "replay KTimer key s")
  with rep have "p \<noteq> Inr None" using replay_live_iff [of KTimer key s None u] by auto
  with op rp have "s1 = u" by (auto simp: timer_wake_def split: sum.splits option.splits entry.splits)
  with replay_quiet [OF rp] show ?thesis by simp
qed

lemma op_sleep_replaying: "op_sleep E key wake meta s = (r, s1) \<Longrightarrow> is_replaying s \<Longrightarrow> quiet s s1"
  by (auto simp: op_sleep_def split: sum.splits prod.splits if_splits dest: timer_wake_replaying)

lemma op_yield_replaying: "op_yield E key wake meta s = (r, s1) \<Longrightarrow> is_replaying s \<Longrightarrow> quiet s s1"
  by (auto simp: op_yield_def split: sum.splits prod.splits if_splits dest: timer_wake_replaying)

lemma op_await_replaying:
  assumes op: "op_await E key name deadline meta s = (r, s1)" and rep: "is_replaying s"
  shows "quiet s s1"
proof -
  obtain p u where rp: "replay KAwait key s = (p, u)" by (cases "replay KAwait key s")
  with rep have "p \<noteq> Inr None" using replay_live_iff [of KAwait key s None u] by auto
  with op rp have "s1 = u \<or> s1 = consume_signal (''signal:'' @ name) (drain_signals u)"
    by (auto simp: op_await_def split: sum.splits option.splits entry.splits if_splits)
  with replay_quiet [OF rp] show ?thesis by (auto simp: quiet_def)
qed

text \<open>And a live call that came to an outcome did not leave everything alone.\<close>

lemma op_run_live:
  assumes op: "op_run E key name args s = (r, s1)" and q: "quiet s s1" and v: "verdict r"
  shows "is_replaying s"
proof (rule ccontr)
  assume live: "\<not> is_replaying s"
  obtain p u where rp: "replay KEffect key s = (p, u)" by (cases "replay KEffect key s")
  have "p = Inr None"
    using replay_live_iff [of KEffect key s _ u] live rp op v replay_no_failure [of KEffect key s _ u]
    by (cases p) (auto simp: op_run_def verdict_def)
  with op rp v have "executed_effects s1 = Suc (executed_effects u)"
    by (auto simp: op_run_def verdict_def Let_def settle_def ctx_append_def append_entry_def
        split: option.splits if_splits prod.splits sum.splits)
  with q replay_quiet [OF rp] show False by (simp add: quiet_def)
qed

lemma quiet_append: "ctx_append E e s = (None, s1) \<Longrightarrow> \<not> quiet s s1"
  by (auto simp: quiet_def dest: ctx_append_ok(2))

lemma replay_verdict:
  "replay k key s = (p, u) \<Longrightarrow> \<not> is_replaying s \<Longrightarrow> (\<exists>x. p = Inl x \<and> is_control_flow x) \<or> p = Inr None"
  using replay_live_iff [of k key s _ u] replay_no_failure [of k key s _ u] by (cases p) auto

lemma quiet_from: "quiet s s1 \<Longrightarrow> quiet s u \<Longrightarrow> quiet u s1"
  by (simp add: quiet_def)

lemma op_now_live:
  assumes op: "op_now E key s = (Inr n, s1)" and q: "quiet s s1"
  shows "is_replaying s"
proof (rule ccontr)
  assume live: "\<not> is_replaying s"
  obtain p u where rp: "replay KNow key s = (p, u)" by (cases "replay KNow key s")
  from replay_verdict [OF rp live] op rp obtain e where "ctx_append E e u = (None, s1)"
    by (auto simp: op_now_def Let_def split: option.splits prod.splits)
  with quiet_append quiet_from [OF q replay_quiet [OF rp]] show False by blast
qed

lemma timer_wake_live:
  assumes op: "timer_wake E key wake s = (Inr w, s1)" and q: "quiet s s1"
  shows "is_replaying s"
proof (rule ccontr)
  assume live: "\<not> is_replaying s"
  obtain p u where rp: "replay KTimer key s = (p, u)" by (cases "replay KTimer key s")
  from replay_verdict [OF rp live] op rp obtain e where "ctx_append E e u = (None, s1)"
    by (auto simp: timer_wake_def Let_def split: option.splits prod.splits)
  with quiet_append quiet_from [OF q replay_quiet [OF rp]] show False by blast
qed

lemma op_sleep_live: "op_sleep E key wake meta s = (Inr w, s1) \<Longrightarrow> quiet s s1 \<Longrightarrow> is_replaying s"
  by (auto simp: op_sleep_def split: sum.splits prod.splits if_splits dest: timer_wake_live)

lemma op_yield_live: "op_yield E key wake meta s = (Inr w, s1) \<Longrightarrow> quiet s s1 \<Longrightarrow> is_replaying s"
  by (auto simp: op_yield_def split: sum.splits prod.splits if_splits dest: timer_wake_live)

lemma op_await_live:
  assumes op: "op_await E key name deadline meta s = (Inr w, s1)" and q: "quiet s s1"
  shows "is_replaying s"
proof (rule ccontr)
  assume live: "\<not> is_replaying s"
  obtain p u where rp: "replay KAwait key s = (p, u)" by (cases "replay KAwait key s")
  have p: "p = Inr None" using replay_verdict [OF rp live] op rp by (auto simp: op_await_def)
  have qu: "quiet u s1" by (rule quiet_from [OF q replay_quiet [OF rp]])
  from op rp p have "\<exists>e ps. ctx_append E e (drain_signals u\<lparr>pending := ps\<rparr>) = (None, s1)
      \<or> ctx_append E e (drain_signals u) = (None, s1)"
    by (auto simp: op_await_def Let_def split: option.splits prod.splits if_splits)
  then have "journal s1 \<noteq> journal u" by (auto dest!: ctx_append_ok(2))
  with qu show False by (simp add: quiet_def)
qed

subsection \<open>Replaying another function's journal\<close>

definition named_failure :: "failure \<Rightarrow> bool" where
  "named_failure f \<longleftrightarrow> f_message f \<noteq> [] \<or> f_name f \<noteq> []"

text \<open>\<open>replays_to N w w'\<close>: \<open>w\<close> calls the activities \<open>N\<close> and passes control flow through, and over the
  journal a completed run of \<open>w\<close> left, \<open>w'\<close> takes the same steps. Arguments, wake times and the driver's
  side channel may differ, since replay reads none of them. A live read of \<open>isReplaying\<close> may
  part the two only where \<open>w\<close> goes on to journal a step, over which \<open>w'\<close> is then replaying.\<close>

fun journals_next :: "wf \<Rightarrow> bool" where
  "journals_next (Done v) = False"
| "journals_next (IsReplaying c) = False"
| "journals_next w = True"

abbreviation lets_control :: "(exn + 'a \<Rightarrow> wf) \<Rightarrow> bool" where
  "lets_control c \<equiv> (\<forall>x. is_control_flow x \<longrightarrow> c (Inl x) = Throw x)"

abbreviation only_control :: "(exn + 'a \<Rightarrow> wf) \<Rightarrow> bool" where
  "only_control c \<equiv> (\<forall>x. c (Inl x) = Throw x)"

inductive replays_to :: "string set \<Rightarrow> wf \<Rightarrow> wf \<Rightarrow> bool" for N where
  replays_done: "replays_to N (Done v) (Done v)"
| replays_throw: "replays_to N (Throw x) w'"
| replays_run: "name \<in> N \<Longrightarrow> lets_control c \<Longrightarrow>
    (\<And>v. replays_to N (c (Inr v)) (c' (Inr v))) \<Longrightarrow>
    (\<And>f. f_replayed f \<Longrightarrow> replays_to N (c (Inl (XActivity f))) (c' (Inl (XActivity f)))) \<Longrightarrow>
    (\<And>f. named_failure f \<Longrightarrow>
       replays_to N (c (Inl (XActivity f))) (c' (Inl (XActivity (replayed_failure (journal_failure f)))))) \<Longrightarrow>
    replays_to N (Run key name args c) (Run key name args' c')"
| replays_now: "only_control c \<Longrightarrow> (\<And>v. replays_to N (c (Inr v)) (c' (Inr v))) \<Longrightarrow>
    replays_to N (Now key c) (Now key c')"
| replays_sleep: "only_control c \<Longrightarrow> (\<And>v. replays_to N (c (Inr v)) (c' (Inr v))) \<Longrightarrow>
    replays_to N (SleepUntil key wake meta c) (SleepUntil key wake' meta' c')"
| replays_yield: "only_control c \<Longrightarrow> (\<And>v. replays_to N (c (Inr v)) (c' (Inr v))) \<Longrightarrow>
    replays_to N (YieldUntil key wake meta c) (YieldUntil key wake' meta' c')"
| replays_await: "only_control c \<Longrightarrow> (\<And>v. replays_to N (c (Inr v)) (c' (Inr v))) \<Longrightarrow>
    replays_to N (AwaitSignal key name deadline meta c) (AwaitSignal key name deadline' meta' c')"
| replays_guard: "replays_to N (c True) (c' True) \<Longrightarrow> replays_to N (c False) (c' True) \<Longrightarrow>
    journals_next (c False) \<Longrightarrow> journals_next (c' True) \<Longrightarrow> replays_to N (IsReplaying c) (IsReplaying c')"

text \<open>What the first run's collaborators have to be: every activity bound, and no activity throwing an
  error without a name and a message.\<close>

definition binds :: "'w env \<Rightarrow> string set \<Rightarrow> bool" where
  "binds E N \<longleftrightarrow> (\<forall>name\<in>N. \<exists>act. activities E name = Some act \<and>
     (\<forall>args key w. \<forall>f w'. act args key w = (Inl f, w') \<longrightarrow> named_failure f))"

lemma bound_run_outcome:
  assumes "op_run E key name args s = (Inl x, s1)" and "binds E N" and "name \<in> N"
  shows "is_control_flow x \<or> (\<exists>f. x = XActivity f)"
  using assms
  by (cases x) (auto simp: op_run_def binds_def settle_def replay_def Let_def ctx_append_def append_entry_def
      split: option.splits if_splits prod.splits sum.splits entry.splits)

lemma mirrors_replaying:
  assumes "mirrors J s t" and "is_replaying s" and "cursor_ok s"
  shows "is_replaying t"
  using assms by (auto simp: mirrors_def grows_def is_replaying_def cursor_ok_def)

text \<open>The frame of one call: the rest of the run keeps what the call left.\<close>

lemma rest_of_run:
  assumes a: "advances s u" and i: "interp E w u = (r, s1)" and g: "grows (journal s1) J" and np: "poisoned s1 = None"
  shows "cursor_ok u" "grows (journal u) J" "poisoned u = None"
proof -
  show ok: "cursor_ok u" using a by (rule advances_ok)
  have "advances u s1" by (rule interp_advances [OF i ok])
  then show "grows (journal u) J" "poisoned u = None"
    using g np by (auto simp: advances_def intro: grows_trans poisoned_back [of u s1])
qed

lemma only_control_value: "only_control c \<Longrightarrow> interp E (c p) u = (Inr v, s1) \<Longrightarrow> \<exists>a. p = Inr a"
  by (cases p) auto

lemma interp_replays:
  assumes "replays_to N w w'" and "interp E w s = (Inr v, s1)" and "cursor_ok s"
    and "mirrors J s t" and "grows (journal s1) J" and "poisoned s1 = None"
    and b: "binds E N" and "wakes_passed J (clock E' (world t))"
  shows "\<exists>t1. interp E' w' t = (Inr v, t1) \<and> quiet t t1 \<and> (journals_next w' \<longrightarrow> is_replaying t)"
  using assms(1-6,8)
proof (induction arbitrary: s t rule: replays_to.induct)
  case (replays_run name c c' key args args')
  obtain p u where op: "op_run E key name args s = (p, u)" by (cases "op_run E key name args s")
  with replays_run.prems(1) have i: "interp E (c p) u = (Inr v, s1)" by simp
  note rest = rest_of_run [OF op_run_advances [OF op replays_run.prems(2)] i replays_run.prems(4,5)]
  have "verdict p"
    using bound_run_outcome [OF _ b replays_run.hyps(1)] op i replays_run.hyps(2)
    by (cases p) (fastforce simp: verdict_def)+
  from op_run_mirrors [OF op replays_run.prems(2,3) rest(2) this rest(3), of E' name args'] obtain p' t1
    where t1: "op_run E' key name args' t = (p', t1)" "mirrors J u t1" "quiet t t1" and
      re: "restored E name key p p'" by blast
  have w: "wakes_passed J (clock E' (world t1))" using replays_run.prems(6) t1(3) by (simp add: quiet_def)
  have "\<exists>t2. interp E' (c' p') t1 = (Inr v, t2) \<and> quiet t1 t2"
  proof (cases p)
    case (Inr a)
    with re have "p' = Inr a" by (auto simp: restored_def)
    with replays_run.IH(1) [OF i [unfolded Inr] rest(1) t1(2) replays_run.prems(4,5) w] show ?thesis by blast
  next
    case (Inl x)
    with \<open>verdict p\<close> obtain f where p: "p = Inl (XActivity f)" by (auto simp: verdict_def)
    have i': "interp E (c (Inl (XActivity f))) u = (Inr v, s1)" using i p by simp
    from re p consider "f_replayed f" "p' = Inl (XActivity f)"
      | "named_failure f" "p' = Inl (XActivity (replayed_failure (journal_failure f)))"
      using b replays_run.hyps(1) by (fastforce simp: restored_def binds_def)
    then show ?thesis
    proof cases
      case 1
      with replays_run.IH(2) [OF _ i' rest(1) t1(2) replays_run.prems(4,5) w] show ?thesis by blast
    next
      case 2
      with replays_run.IH(3) [OF _ i' rest(1) t1(2) replays_run.prems(4,5) w] show ?thesis by blast
    qed
  qed
  moreover have "verdict p'" using re \<open>verdict p\<close> by (auto simp: restored_def verdict_def)
  ultimately show ?case using t1 op_run_live [OF t1(1,3)] by (auto intro: quiet_trans)
next
  case (replays_now c c' key)
  obtain p u where op: "op_now E key s = (p, u)" by (cases "op_now E key s")
  with replays_now.prems(1) have i: "interp E (c p) u = (Inr v, s1)" by simp
  note rest = rest_of_run [OF op_now_advances [OF op replays_now.prems(2)] i replays_now.prems(4,5)]
  obtain a where p: "p = Inr a" using only_control_value [OF replays_now.hyps(1) i] by blast
  from op_now_mirrors [OF op replays_now.prems(2,3) rest(2) _ rest(3), of E'] p obtain t1
    where t1: "op_now E' key t = (Inr a, t1)" "mirrors J u t1" "quiet t t1" by (auto simp: verdict_def)
  have w: "wakes_passed J (clock E' (world t1))" using replays_now.prems(6) t1(3) by (simp add: quiet_def)
  from replays_now.IH [OF i [unfolded p] rest(1) t1(2) replays_now.prems(4,5) w] show ?case
    using t1 op_now_live [OF t1(1,3)] by (auto intro: quiet_trans)
next
  case (replays_sleep c c' key wake meta wake' meta')
  obtain p u where op: "op_sleep E key wake meta s = (p, u)" by (cases "op_sleep E key wake meta s")
  with replays_sleep.prems(1) have i: "interp E (c p) u = (Inr v, s1)" by simp
  note rest = rest_of_run [OF op_sleep_advances [OF op replays_sleep.prems(2)] i replays_sleep.prems(4,5)]
  obtain a where p: "p = Inr a" using only_control_value [OF replays_sleep.hyps(1) i] by blast
  from op_sleep_mirrors [OF op replays_sleep.prems(2,3) rest(2) _ rest(3) replays_sleep.prems(6)] p obtain t1
    where t1: "op_sleep E' key wake' meta' t = (Inr a, t1)" "mirrors J u t1" "quiet t t1" by (auto simp: verdict_def)
  have w: "wakes_passed J (clock E' (world t1))" using replays_sleep.prems(6) t1(3) by (simp add: quiet_def)
  from replays_sleep.IH [OF i [unfolded p] rest(1) t1(2) replays_sleep.prems(4,5) w] show ?case
    using t1 op_sleep_live [OF t1(1,3)] by (auto intro: quiet_trans)
next
  case (replays_yield c c' key wake meta wake' meta')
  obtain p u where op: "op_yield E key wake meta s = (p, u)" by (cases "op_yield E key wake meta s")
  with replays_yield.prems(1) have i: "interp E (c p) u = (Inr v, s1)" by simp
  note rest = rest_of_run [OF op_yield_advances [OF op replays_yield.prems(2)] i replays_yield.prems(4,5)]
  obtain a where p: "p = Inr a" using only_control_value [OF replays_yield.hyps(1) i] by blast
  from op_yield_mirrors [OF op replays_yield.prems(2,3) rest(2) _ rest(3) replays_yield.prems(6)] p obtain t1
    where t1: "op_yield E' key wake' meta' t = (Inr a, t1)" "mirrors J u t1" "quiet t t1" by (auto simp: verdict_def)
  have w: "wakes_passed J (clock E' (world t1))" using replays_yield.prems(6) t1(3) by (simp add: quiet_def)
  from replays_yield.IH [OF i [unfolded p] rest(1) t1(2) replays_yield.prems(4,5) w] show ?case
    using t1 op_yield_live [OF t1(1,3)] by (auto intro: quiet_trans)
next
  case (replays_await c c' key name deadline meta deadline' meta')
  obtain p u where op: "op_await E key name deadline meta s = (p, u)" by (cases "op_await E key name deadline meta s")
  with replays_await.prems(1) have i: "interp E (c p) u = (Inr v, s1)" by simp
  note rest = rest_of_run [OF op_await_advances [OF op replays_await.prems(2)] i replays_await.prems(4,5)]
  obtain a where p: "p = Inr a" using only_control_value [OF replays_await.hyps(1) i] by blast
  from op_await_mirrors [OF op replays_await.prems(2,3) rest(2) _ rest(3), of E' deadline' meta'] p obtain t1
    where t1: "op_await E' key name deadline' meta' t = (Inr a, t1)" "mirrors J u t1" "quiet t t1"
    by (auto simp: verdict_def)
  have w: "wakes_passed J (clock E' (world t1))" using replays_await.prems(6) t1(3) by (simp add: quiet_def)
  from replays_await.IH [OF i [unfolded p] rest(1) t1(2) replays_await.prems(4,5) w] show ?case
    using t1 op_await_live [OF t1(1,3)] by (auto intro: quiet_trans)
next
  case (replays_guard c c')
  have "\<exists>t1. interp E' (c' True) t = (Inr v, t1) \<and> quiet t t1 \<and> (journals_next (c' True) \<longrightarrow> is_replaying t)"
  proof (cases "is_replaying s")
    case True
    with replays_guard.IH(1) [OF _ replays_guard.prems(2-6)] replays_guard.prems(1) show ?thesis by simp
  next
    case False
    with replays_guard.IH(2) [OF _ replays_guard.prems(2-6)] replays_guard.prems(1) show ?thesis by simp
  qed
  with replays_guard.hyps show ?case by auto
qed auto

text \<open>
  The composition with \<open>run\<close>: over the journal a completed run of \<open>w\<close> left, \<open>w'\<close> completes with the same
  result, executing nothing and journaling nothing.
\<close>

lemma run_replays:
  assumes rel: "replays_to N w w'" and run: "run_wf E w s = (Completed v, s1)" and b: "binds E N"
    and t: "journal t = journal s1" "version t = version s1" "poisoned t = None"
    and late: "wakes_passed (journal s1) (clock E' (world t))"
  shows "\<exists>t1. run_wf E' w' t = (Completed v, t1) \<and> world t1 = world t
    \<and> executed_effects t1 = executed_effects t \<and> journal t1 = journal t"
proof -
  from run_wf_reached [OF run] obtain sb q u where
    np: "poisoned s = None" and nt: "journal_tombstone (journal s) = None" and
    sb: "bind_version E s = (Inr None, sb)" and i: "interp E w (start_ctx sb) = (q, u)" and
    r: "Completed v = classify (q, u)" and s1: "s1 = u\<lparr>settled := Some (Completed v)\<rparr>" by blast
  from r have pu: "poisoned u = None" and q: "q = Inr v"
    by (auto simp: classify_def split: option.splits sum.splits exn.splits)
  note a = interp_advances [OF i start_ctx_ok]
  then have g: "grows (journal sb) (journal u)" and ver: "version u = version sb"
    by (auto simp: advances_def)
  have bt: "bind_version E' t = (Inr None, t)"
  proof (rule bind_version_bound)
    fix x assume "version t = Some x"
    with t s1 ver bind_version_ok(2) [OF sb np] have "version s = Some x" by simp
    from bind_version_ok(5) [OF sb np this] grows_version [OF g] t s1
    show "\<exists>r. journal_version (journal t) = Some r \<and> same_version r x" by simp
  qed
  have nt': "journal_tombstone (journal t) = None"
    using grows_tombstone [OF g] tombstone_after_bind [OF sb np] nt t s1 by simp
  have "mirrors (journal u) (start_ctx sb) (start_ctx t)"
    using g t s1 grows_version [OF g] by (simp add: mirrors_def start_ctx_def)
  from interp_replays [OF rel i [unfolded q] start_ctx_ok this _ pu b, of E'] late s1 obtain t1
    where "interp E' w' (start_ctx t) = (Inr v, t1)" "quiet (start_ctx t) t1" by auto
  with t nt' bt show ?thesis by (simp add: run_wf_def Let_def classify_def quiet_def)
qed

subsection \<open>Functions that execute nothing live\<close>

text \<open>\<open>held K w\<close>: every step of \<open>w\<close> stands behind a guard that throws where the step would be live, except a
  last activity under the key \<open>K\<close>.\<close>

fun ends :: "wf \<Rightarrow> bool" where
  "ends (Done v) = True"
| "ends (Throw x) = True"
| "ends w = False"

inductive held :: "string \<Rightarrow> wf \<Rightarrow> bool" for K where
  held_end: "ends w \<Longrightarrow> held K w"
| held_closing: "(\<And>r. ends (c r)) \<Longrightarrow> held K (Run K name args c)"
| held_run: "c False = Throw x \<Longrightarrow> c True = Run key name args k \<Longrightarrow> (\<And>r. held K (k r)) \<Longrightarrow> held K (IsReplaying c)"
| held_now: "c False = Throw x \<Longrightarrow> c True = Now key k' \<Longrightarrow> (\<And>r. held K (k' r)) \<Longrightarrow> held K (IsReplaying c)"
| held_sleep: "c False = Throw x \<Longrightarrow> c True = SleepUntil key wake meta k'' \<Longrightarrow> (\<And>r. held K (k'' r)) \<Longrightarrow>
    held K (IsReplaying c)"
| held_yield: "c False = Throw x \<Longrightarrow> c True = YieldUntil key wake meta k'' \<Longrightarrow> (\<And>r. held K (k'' r)) \<Longrightarrow>
    held K (IsReplaying c)"
| held_await: "c False = Throw x \<Longrightarrow> c True = AwaitSignal key name deadline meta k3 \<Longrightarrow> (\<And>r. held K (k3 r)) \<Longrightarrow>
    held K (IsReplaying c)"

lemma interp_ends: "ends w \<Longrightarrow> interp E w s = (r, u) \<Longrightarrow> u = s"
  by (cases w) auto

text \<open>What a held run leaves: entries and executions under the closing key only.\<close>

definition only_closes :: "string \<Rightarrow> ('w \<times> string list) st \<Rightarrow> ('w \<times> string list) st \<Rightarrow> bool" where
  "only_closes K s u \<longleftrightarrow> (\<exists>es new. journal u = journal s @ es \<and> run_log u = run_log s @ new
     \<and> (\<forall>e\<in>set es. entry_key e = Some K) \<and> set new \<subseteq> {K})"

lemma only_closes_quiet: "quiet s u \<Longrightarrow> only_closes K u t \<Longrightarrow> only_closes K s t"
  by (auto simp: only_closes_def quiet_def)

lemma only_closes_refl [simp]: "only_closes K s s"
  by (auto simp: only_closes_def)

lemma ctx_append_journal: "ctx_append E e s = (x, u) \<Longrightarrow> journal u = journal s \<or> journal u = journal s @ [e]"
  by (auto simp: ctx_append_def split: option.splits prod.splits dest!: append_entry_frame(1))

lemma ctx_append_closes:
  assumes "ctx_append (traced E) e s = (x, u)" and "entry_key e = Some K"
  shows "(journal u = journal s \<or> (\<exists>e. journal u = journal s @ [e] \<and> entry_key e = Some K)) \<and> run_log u = run_log s"
  using ctx_append_journal [OF assms(1)] ctx_append_log [OF assms(1)] assms(2) by auto

lemmas effect_closes =
  ctx_append_closes [where e = "EEffect K v" and K = K for K v, simplified]
  ctx_append_closes [where e = "EEffectThrew K f" and K = K for K f, simplified]

lemma settle_closes:
  assumes "settle (traced E) K name args n out s = (r, u)"
  shows "(journal u = journal s \<or> (\<exists>e. journal u = journal s @ [e] \<and> entry_key e = Some K)) \<and> run_log u = run_log s"
  using assms
  by (cases out)
    (auto simp: settle_def Let_def traced_observer split: if_splits option.splits prod.splits dest!: effect_closes)

lemma op_run_closes:
  assumes op: "op_run (traced E) K name args s = (r, u)"
  shows "only_closes K s u"
proof -
  obtain p t where rp: "replay KEffect K s = (p, t)" by (cases "replay KEffect K s")
  note q = replay_quiet [OF rp]
  show ?thesis
  proof (cases "p = Inr None \<and> activities (traced E) name \<noteq> None")
    case True
    then obtain act where act: "activities (traced E) name = Some act" and p: "p = Inr None" by auto
    let ?n = "executed_effects t + 1"
    let ?t = "t\<lparr>executed_effects := ?n\<rparr>"
    obtain out w where out: "act args K (world ?t) = (out, w)" by (cases "act args K (world ?t)")
    have w: "snd w = run_log t @ [K]" using act out by (auto simp: traced_def split: prod.splits)
    show ?thesis
    proof (cases "crash_now BeforeExecute ?n ?t")
      case True
      with op rp p act have "u = ?t" by (simp add: op_run_def Let_def)
      with q show ?thesis by (auto simp: only_closes_def quiet_def)
    next
      case False
      with op rp p act out have "settle (traced E) K name args ?n out (?t\<lparr>world := w\<rparr>) = (r, u)"
        by (simp add: op_run_def Let_def)
      from settle_closes [OF this] w q
      have "(\<exists>es. journal u = journal s @ es \<and> (\<forall>e\<in>set es. entry_key e = Some K)) \<and> run_log u = run_log s @ [K]"
        by (auto simp: quiet_def)
      then show ?thesis by (auto simp: only_closes_def)
    qed
  next
    case False
    with op rp have "u = t" by (auto simp: op_run_def split: sum.splits option.splits entry.splits)
    with q show ?thesis by (auto simp: only_closes_def quiet_def)
  qed
qed

lemma interp_held:
  assumes "held K w" and "interp (traced E) w s = (r, u)"
  shows "only_closes K s u"
  using assms
proof (induction arbitrary: s rule: held.induct)
  case (held_end w)
  then show ?case by (auto dest: interp_ends)
next
  case (held_closing c name args)
  obtain p t where op: "op_run (traced E) K name args s = (p, t)"
    by (cases "op_run (traced E) K name args s")
  with held_closing have "u = t" by (auto dest: interp_ends)
  with op_run_closes [OF op] show ?case by simp
next
  case (held_run c x key name args k)
  show ?case
  proof (cases "is_replaying s")
    case True
    with held_run held_run.IH show ?thesis
      by (auto split: prod.splits dest!: op_run_replaying intro: only_closes_quiet)
  qed (use held_run in simp)
next
  case (held_now c x key k)
  show ?case
  proof (cases "is_replaying s")
    case True
    with held_now held_now.IH show ?thesis
      by (auto split: prod.splits dest!: op_now_replaying intro: only_closes_quiet)
  qed (use held_now in simp)
next
  case (held_sleep c x key wake meta k)
  show ?case
  proof (cases "is_replaying s")
    case True
    with held_sleep held_sleep.IH show ?thesis
      by (auto split: prod.splits dest!: op_sleep_replaying intro: only_closes_quiet)
  qed (use held_sleep in simp)
next
  case (held_yield c x key wake meta k)
  show ?case
  proof (cases "is_replaying s")
    case True
    with held_yield held_yield.IH show ?thesis
      by (auto split: prod.splits dest!: op_yield_replaying intro: only_closes_quiet)
  qed (use held_yield in simp)
next
  case (held_await c x key name deadline meta k)
  show ?case
  proof (cases "is_replaying s")
    case True
    with held_await held_await.IH show ?thesis
      by (auto split: prod.splits dest!: op_await_replaying intro: only_closes_quiet)
  qed (use held_await in simp)
qed

subsection \<open>Functions that run alike near the end of the journal\<close>

definition remaining :: "'w st \<Rightarrow> nat" where
  "remaining s = length (journal s) - cursor s"

definition agree :: "'w env \<Rightarrow> nat \<Rightarrow> wf \<Rightarrow> wf \<Rightarrow> bool" where
  "agree E n w w' \<longleftrightarrow> (\<forall>s. cursor_ok s \<and> remaining s \<le> n \<longrightarrow> interp E w s = interp E w' s)"

lemma agree_refl [simp]: "agree E n w w"
  by (simp add: agree_def)

lemma agree_le: "agree E n w w' \<Longrightarrow> m \<le> n \<Longrightarrow> agree E m w w'"
  by (simp add: agree_def)

lemma remaining_drain: "remaining (drain_signals s) \<le> remaining s"
  by (simp add: remaining_def drain_signals_def Let_def)

lemma replay_remaining:
  assumes rp: "replay k key s = (Inr q, u)" and ok: "cursor_ok s"
  shows "remaining u \<le> remaining s" "q \<noteq> None \<Longrightarrow> remaining u < remaining s" "q = None \<Longrightarrow> remaining u = 0"
proof -
  let ?d = "drain_signals (s\<lparr>seen := key # seen s\<rparr>)"
  have d: "remaining ?d \<le> remaining s" using remaining_drain [of "s\<lparr>seen := key # seen s\<rparr>"]
    by (simp add: remaining_def)
  from rp consider "q = None" "u = ?d" "\<not> cursor ?d < length (journal ?d)"
    | e where "q = Some e" "u = ?d\<lparr>cursor := Suc (cursor ?d)\<rparr>" "cursor ?d < length (journal ?d)"
    by (auto simp: replay_def Let_def entry_at_cursor_def split: if_splits option.splits)
  then have "remaining u \<le> remaining s \<and> (q \<noteq> None \<longrightarrow> remaining u < remaining s) \<and> (q = None \<longrightarrow> remaining u = 0)"
    using d by cases (auto simp: remaining_def)
  then show "remaining u \<le> remaining s" "q \<noteq> None \<Longrightarrow> remaining u < remaining s" "q = None \<Longrightarrow> remaining u = 0"
    by auto
qed

lemma append_remaining: "ctx_append E e s = (None, u) \<Longrightarrow> remaining u = 0"
  by (auto simp: ctx_append_def remaining_def split: option.splits prod.splits)

lemma append_control: "ctx_append E e s = (Some x, u) \<Longrightarrow> is_control_flow x"
  by (auto simp: ctx_append_def append_entry_def Let_def split: option.splits prod.splits)

lemma settle_remaining:
  "settle E key name args n out s = (r, u) \<Longrightarrow> (\<And>x. r = Inl x \<Longrightarrow> \<not> is_control_flow x) \<Longrightarrow> remaining u = 0"
  by (auto simp: settle_def Let_def split: if_splits sum.splits option.splits prod.splits
      dest: append_remaining append_control)

lemma op_run_remaining:
  assumes op: "op_run E key name args s = (r, u)" and ok: "cursor_ok s"
    and r: "\<And>x. r = Inl x \<Longrightarrow> \<not> is_control_flow x"
  shows "remaining u \<le> remaining s"
proof -
  obtain p t where rp: "replay KEffect key s = (p, t)" by (cases "replay KEffect key s")
  show ?thesis
  proof (cases p)
    case (Inl x)
    with op rp r replay_no_failure [of KEffect key s x t] show ?thesis by (auto simp: op_run_def)
  next
    case (Inr q)
    note rem = replay_remaining [OF rp [unfolded Inr] ok]
    show ?thesis
    proof (cases q)
      case None
      with op rp Inr rem r show ?thesis
        by (auto simp: op_run_def Let_def split: option.splits if_splits prod.splits dest!: settle_remaining)
    next
      case (Some e)
      with op rp Inr rem show ?thesis by (cases e) (auto simp: op_run_def)
    qed
  qed
qed

lemma op_now_remaining:
  assumes op: "op_now E key s = (Inr n, u)" and ok: "cursor_ok s"
  shows "remaining u \<le> remaining s"
proof -
  obtain p t where rp: "replay KNow key s = (p, t)" by (cases "replay KNow key s")
  with op obtain q where q: "p = Inr q" by (cases p) (auto simp: op_now_def)
  note rem = replay_remaining [OF rp [unfolded q] ok]
  show ?thesis
  proof (cases q)
    case None
    with op rp q show ?thesis
      by (auto simp: op_now_def Let_def split: option.splits prod.splits dest!: append_remaining)
  next
    case (Some e)
    with op rp q rem show ?thesis by (cases e) (auto simp: op_now_def)
  qed
qed

lemma timer_wake_remaining:
  assumes op: "timer_wake E key wake s = (Inr (fire, fresh), u)" and ok: "cursor_ok s"
  shows "remaining u \<le> remaining s" "\<not> fresh \<Longrightarrow> remaining u < remaining s"
proof -
  obtain p t where rp: "replay KTimer key s = (p, t)" by (cases "replay KTimer key s")
  with op obtain q where q: "p = Inr q" by (cases p) (auto simp: timer_wake_def)
  note rem = replay_remaining [OF rp [unfolded q] ok]
  have "remaining u \<le> remaining s \<and> (\<not> fresh \<longrightarrow> remaining u < remaining s)"
  proof (cases q)
    case None
    with op rp q show ?thesis
      by (auto simp: timer_wake_def split: option.splits prod.splits dest!: append_remaining)
  next
    case (Some e)
    with op rp q rem show ?thesis by (cases e) (auto simp: timer_wake_def)
  qed
  then show "remaining u \<le> remaining s" "\<not> fresh \<Longrightarrow> remaining u < remaining s" by auto
qed

lemma op_sleep_remaining: "op_sleep E key wake meta s = (Inr v, u) \<Longrightarrow> cursor_ok s \<Longrightarrow> remaining u \<le> remaining s"
  by (auto simp: op_sleep_def split: sum.splits prod.splits if_splits dest: timer_wake_remaining(1))

lemma op_yield_remaining: "op_yield E key wake meta s = (Inr v, u) \<Longrightarrow> cursor_ok s \<Longrightarrow> remaining u < remaining s"
  by (auto simp: op_yield_def split: sum.splits prod.splits if_splits dest: timer_wake_remaining(2))

lemma op_await_remaining:
  assumes op: "op_await E key name deadline meta s = (Inr v, u)" and ok: "cursor_ok s"
  shows "remaining u \<le> remaining s"
proof -
  obtain p t where rp: "replay KAwait key s = (p, t)" by (cases "replay KAwait key s")
  with op obtain q where q: "p = Inr q" by (cases p) (auto simp: op_await_def)
  note rem = replay_remaining [OF rp [unfolded q] ok]
  show ?thesis
  proof (cases q)
    case None
    with op rp q show ?thesis
      by (auto simp: op_await_def Let_def split: option.splits prod.splits if_splits dest!: append_remaining)
  next
    case (Some e)
    have "remaining (consume_signal (''signal:'' @ name) (drain_signals t)) \<le> remaining t"
      using remaining_drain [of t] by (simp add: remaining_def)
    with op rp q rem Some show ?thesis
      by (cases e) (auto simp: op_await_def split: if_splits)
  qed
qed

text \<open>One congruence per context call; behind a yield the journal is strictly shorter.\<close>

lemma agreeI: "(\<And>s. cursor_ok s \<Longrightarrow> remaining s \<le> n \<Longrightarrow> interp E w s = interp E w' s) \<Longrightarrow> agree E n w w'"
  by (simp add: agree_def)

lemma agree_replaying: "(\<And>b. agree E n (c b) (c' b)) \<Longrightarrow> agree E n (IsReplaying c) (IsReplaying c')"
  by (simp add: agree_def)

lemma agree_run:
  assumes x: "\<And>x. is_control_flow x \<Longrightarrow> c (Inl x) = c' (Inl x)" and k: "\<And>r. agree E n (c r) (c' r)"
  shows "agree E n (Run key name args c) (Run key name args c')"
proof (rule agreeI)
  fix s :: "'a st" assume s: "cursor_ok s" "remaining s \<le> n"
  obtain p u where op: "op_run E key name args s = (p, u)" by (cases "op_run E key name args s")
  show "interp E (Run key name args c) s = interp E (Run key name args c') s"
  proof (cases "\<exists>x. p = Inl x \<and> is_control_flow x")
    case False
    then have "remaining u \<le> n" using op_run_remaining [OF op s(1)] s(2) by auto
    moreover have "cursor_ok u" using op_run_advances [OF op s(1)] by (rule advances_ok)
    ultimately show ?thesis using k [of p] op by (simp add: agree_def)
  qed (use op x in auto)
qed

lemma agree_now:
  assumes x: "\<And>x. c (Inl x) = c' (Inl x)" and k: "\<And>v. agree E n (c (Inr v)) (c' (Inr v))"
  shows "agree E n (Now key c) (Now key c')"
proof (rule agreeI)
  fix s :: "'a st" assume s: "cursor_ok s" "remaining s \<le> n"
  obtain p u where op: "op_now E key s = (p, u)" by (cases "op_now E key s")
  show "interp E (Now key c) s = interp E (Now key c') s"
  proof (cases p)
    case (Inr v)
    then have "remaining u \<le> n" using op_now_remaining [of E key s v u] op s by auto
    moreover have "cursor_ok u" using op_now_advances [OF op s(1)] by (rule advances_ok)
    ultimately show ?thesis using k [of v] op Inr by (simp add: agree_def)
  qed (use op x in auto)
qed

lemma agree_sleep:
  assumes x: "\<And>x. c (Inl x) = c' (Inl x)" and k: "\<And>v. agree E n (c (Inr v)) (c' (Inr v))"
  shows "agree E n (SleepUntil key wake meta c) (SleepUntil key wake meta c')"
proof (rule agreeI)
  fix s :: "'a st" assume s: "cursor_ok s" "remaining s \<le> n"
  obtain p u where op: "op_sleep E key wake meta s = (p, u)" by (cases "op_sleep E key wake meta s")
  show "interp E (SleepUntil key wake meta c) s = interp E (SleepUntil key wake meta c') s"
  proof (cases p)
    case (Inr v)
    then have "remaining u \<le> n" using op_sleep_remaining [of E key wake meta s v u] op s by auto
    moreover have "cursor_ok u" using op_sleep_advances [OF op s(1)] by (rule advances_ok)
    ultimately show ?thesis using k [of v] op Inr by (simp add: agree_def)
  qed (use op x in auto)
qed

lemma agree_yield:
  assumes x: "\<And>x. c (Inl x) = c' (Inl x)" and k: "\<And>v m. m < n \<Longrightarrow> agree E m (c (Inr v)) (c' (Inr v))"
  shows "agree E n (YieldUntil key wake meta c) (YieldUntil key wake meta c')"
proof (rule agreeI)
  fix s :: "'a st" assume s: "cursor_ok s" "remaining s \<le> n"
  obtain p u where op: "op_yield E key wake meta s = (p, u)" by (cases "op_yield E key wake meta s")
  show "interp E (YieldUntil key wake meta c) s = interp E (YieldUntil key wake meta c') s"
  proof (cases p)
    case (Inr v)
    then have "remaining u < n" using op_yield_remaining [of E key wake meta s v u] op s by auto
    moreover have "cursor_ok u" using op_yield_advances [OF op s(1)] by (rule advances_ok)
    ultimately show ?thesis using k [of "remaining u" v] op Inr by (simp add: agree_def)
  qed (use op x in auto)
qed

lemma agree_await:
  assumes x: "\<And>x. c (Inl x) = c' (Inl x)" and k: "\<And>v. agree E n (c (Inr v)) (c' (Inr v))"
  shows "agree E n (AwaitSignal key name deadline meta c) (AwaitSignal key name deadline meta c')"
proof (rule agreeI)
  fix s :: "'a st" assume s: "cursor_ok s" "remaining s \<le> n"
  obtain p u where op: "op_await E key name deadline meta s = (p, u)"
    by (cases "op_await E key name deadline meta s")
  show "interp E (AwaitSignal key name deadline meta c) s = interp E (AwaitSignal key name deadline meta c') s"
  proof (cases p)
    case (Inr v)
    then have "remaining u \<le> n" using op_await_remaining [of E key name deadline meta s v u] op s by auto
    moreover have "cursor_ok u" using op_await_advances [OF op s(1)] by (rule advances_ok)
    ultimately show ?thesis using k [of v] op Inr by (simp add: agree_def)
  qed (use op x in auto)
qed

text \<open>Two functions that agree run alike from the top of a journal no longer than the bound.\<close>

lemma run_agree:
  assumes a: "agree E n w w'"
    and n: "length (journal s) < n"
  shows "run_wf E w s = run_wf E w' s"
proof -
  have "interp E w (start_ctx t) = interp E w' (start_ctx t)"
    if "bind_version E s = (Inr None, t)" "poisoned s = None" for t
  proof -
    have "length (journal t) \<le> Suc (length (journal s))" using bind_version_ok(4) [OF that] by auto
    with a n start_ctx_ok [of t] show ?thesis by (auto simp: agree_def remaining_def)
  qed
  then show ?thesis by (auto simp: run_wf_def Let_def split: option.splits sum.splits prod.splits)
qed

end
