(* ===== verification/Resolution.thy ===== *)
theory Resolution
  imports JsValue
begin

text \<open>
  Edge-derived resolution, \<^verbatim>\<open>src/lib/kernel/resolution.js\<close>: which statuses are
  terminal for a node of a type, the execution hold, and which node resolves which
  (\<open>resolutionMap\<close> by a scan, \<open>resolutionOf\<close> and \<open>inboundResolvers\<close> through the
  reverse index).

  A graph is its nodes in declaration order under their keys, the superseded set, and
  the registry it carries, if any; the seed registry is an argument of every function that may
  fall back to it. A registry is what the module asks of it. The memos (vocabularies per
  graph and type, the index on the graph object) are caches of the pure functions below and
  are not modelled. A lookup finds the declared nodes only: an id that spells a name every object literal
  inherits (\<open>constructor\<close>, \<open>toString\<close>) is not taken for a node, here and wherever the graph is read.
\<close>

subsection \<open>Graph and registry\<close>

record edge =
  e_type :: string
  e_to :: string

record node =
  n_id :: string
  n_type :: "string option"
  n_status :: "string option"
  n_date :: "string option"
  n_summary :: "string option"
  n_title :: "string option"
  n_execution :: jsval
  n_project :: jsval
  n_requires :: jsval
  n_readiness :: jsval
  n_edges :: "edge list"

text \<open>\<open>registerClasses(name)\<close>, \<open>nonResolvingStatuses(type?)\<close>, \<open>inertStatuses(type)\<close>; each may be
  missing on a hand-built registry.\<close>

record registry =
  register_classes :: "(string \<Rightarrow> string list) option"
  non_resolving :: "(string option \<Rightarrow> string list) option"
  inert_statuses :: "(string \<Rightarrow> string list) option"

record graph =
  g_nodes :: "(string \<times> node) list"
  g_superseded :: "string \<Rightarrow> bool"
  g_registry :: "registry option"

abbreviation g_values :: "graph \<Rightarrow> node list" where
  "g_values g \<equiv> map snd (g_nodes g)"

definition g_node :: "graph \<Rightarrow> string \<Rightarrow> node option" where
  "g_node g i = map_of (g_nodes g) i"

text \<open>Nodes are keyed by their id.\<close>

definition keyed_by_id :: "graph \<Rightarrow> bool" where
  "keyed_by_id g \<longleftrightarrow> distinct (map fst (g_nodes g)) \<and> list_all (\<lambda>p. n_id (snd p) = fst p) (g_nodes g)"

definition lower_char :: "char \<Rightarrow> char" where
  "lower_char c = (if 65 \<le> (of_char c :: nat) \<and> (of_char c :: nat) \<le> 90 then char_of ((of_char c :: nat) + 32) else c)"

definition lower :: "string \<Rightarrow> string" where
  "lower s = map lower_char s"

text \<open>\<open>(s || "").toLowerCase()\<close>.\<close>

definition lower_or_empty :: "string option \<Rightarrow> string" where
  "lower_or_empty s = (case s of None \<Rightarrow> [] | Some x \<Rightarrow> lower x)"

subsection \<open>Vocabularies\<close>

text \<open>\<open>registryOf(graph, method)\<close>: the graph's own registry when it answers, else the seed.\<close>

definition non_resolving_for :: "registry \<Rightarrow> graph option \<Rightarrow> string option \<Rightarrow> string list" where
  "non_resolving_for seed g type =
     (case (case g of None \<Rightarrow> None | Some gr \<Rightarrow>
              (case g_registry gr of None \<Rightarrow> None | Some reg \<Rightarrow> non_resolving reg)) of
        Some f \<Rightarrow> f type
      | None \<Rightarrow> (case non_resolving seed of Some f \<Rightarrow> f type | None \<Rightarrow> []))"

definition inert_for :: "registry \<Rightarrow> graph option \<Rightarrow> string \<Rightarrow> string list" where
  "inert_for seed g type =
     (case (case g of None \<Rightarrow> None | Some gr \<Rightarrow>
              (case g_registry gr of None \<Rightarrow> None | Some reg \<Rightarrow> inert_statuses reg)) of
        Some f \<Rightarrow> f type
      | None \<Rightarrow> (case inert_statuses seed of Some f \<Rightarrow> f type | None \<Rightarrow> []))"

definition universal_vocabulary :: "registry \<Rightarrow> string list" where
  "universal_vocabulary seed =
     (case register_classes seed of Some f \<Rightarrow> map lower (f ''terminal-status'') | None \<Rightarrow> [])"

definition terminal_vocabulary :: "registry \<Rightarrow> graph option \<Rightarrow> string list" where
  "terminal_vocabulary seed g =
     (let universal = universal_vocabulary seed in
      case g of
        None \<Rightarrow> universal
      | Some gr \<Rightarrow>
          (let classes = (case g_registry gr of None \<Rightarrow> []
                          | Some reg \<Rightarrow> (case register_classes reg of Some f \<Rightarrow> f ''terminal-status'' | None \<Rightarrow> []));
               extra = filter (\<lambda>s. s \<notin> set universal) (map lower classes)
           in universal @ extra))"

definition inert_vocabulary :: "registry \<Rightarrow> graph option \<Rightarrow> string option \<Rightarrow> string list" where
  "inert_vocabulary seed g type =
     (case type of
        None \<Rightarrow> terminal_vocabulary seed g
      | Some t \<Rightarrow>
          if t = [] then terminal_vocabulary seed g
          else
            (let blind = terminal_vocabulary seed g
             in blind @ filter (\<lambda>v. v \<notin> set blind) (inert_for seed g t)))"

definition is_terminal_status :: "registry \<Rightarrow> string option \<Rightarrow> string option \<Rightarrow> graph option \<Rightarrow> bool" where
  "is_terminal_status seed s type g \<longleftrightarrow> lower_or_empty s \<in> set (inert_vocabulary seed g type)"

definition is_give_up_status :: "registry \<Rightarrow> string option \<Rightarrow> string option \<Rightarrow> graph option \<Rightarrow> bool" where
  "is_give_up_status seed s type g =
     (case type of
        None \<Rightarrow> False
      | Some t \<Rightarrow> t \<noteq> [] \<and> lower_or_empty s \<in> set (non_resolving_for seed g type) \<and> is_terminal_status seed s type g)"

subsection \<open>Resolution\<close>

definition execution_held :: "node \<Rightarrow> bool" where
  "execution_held n = (case n_execution n of JStr s \<Rightarrow> trim s \<noteq> [] | _ \<Rightarrow> False)"

record resolution =
  r_by :: string
  r_edge :: string
  r_date :: "string option"
  r_summary :: "string option"
  r_title :: "string option"

definition resolution_by :: "node \<Rightarrow> string \<Rightarrow> resolution" where
  "resolution_by r edge = \<lparr>r_by = n_id r, r_edge = edge, r_date = n_date r, r_summary = n_summary r, r_title = n_title r\<rparr>"

definition resolving_edge :: "string \<Rightarrow> bool" where
  "resolving_edge t \<longleftrightarrow> t = ''resolves'' \<or> t = ''answers''"

text \<open>A superseded or non-resolving source resolves nothing.\<close>

definition can_resolve :: "registry \<Rightarrow> graph \<Rightarrow> node \<Rightarrow> bool" where
  "can_resolve seed g r \<longleftrightarrow> \<not> g_superseded g (n_id r)
     \<and> lower_or_empty (n_status r) \<notin> set (non_resolving_for seed (Some g) None)"

text \<open>One edge of the scan, over the map built so far.\<close>

definition scan_edge :: "graph \<Rightarrow> node \<Rightarrow> (string \<rightharpoonup> resolution) \<Rightarrow> edge \<Rightarrow> (string \<rightharpoonup> resolution)" where
  "scan_edge g r out e =
     (if \<not> resolving_edge (e_type e) then out
      else case g_node g (e_to e) of
        None \<Rightarrow> out
      | Some target \<Rightarrow>
          if out (e_to e) \<noteq> None then out
          else if e_type e = ''answers'' \<and> n_type target \<noteq> Some ''question'' then out
          else if execution_held target then out
          else out(e_to e \<mapsto> resolution_by r (e_type e)))"

definition scan_node :: "registry \<Rightarrow> graph \<Rightarrow> (string \<rightharpoonup> resolution) \<Rightarrow> node \<Rightarrow> (string \<rightharpoonup> resolution)" where
  "scan_node seed g out r = (if can_resolve seed g r then foldl (scan_edge g r) out (n_edges r) else out)"

definition resolution_map :: "registry \<Rightarrow> graph \<Rightarrow> (string \<rightharpoonup> resolution)" where
  "resolution_map seed g = foldl (scan_node seed g) Map.empty (g_values g)"

text \<open>\<open>inboundIndex\<close>: the resolving edges by target, in scan order. The map is a function from
  the target to its list; \<open>push_entry\<close> is one step of the build.\<close>

type_synonym index = "string \<Rightarrow> (string \<times> string) list"

definition push_entry :: "node \<Rightarrow> index \<Rightarrow> edge \<Rightarrow> index" where
  "push_entry r by e = (if resolving_edge (e_type e) then by(e_to e := by (e_to e) @ [(n_id r, e_type e)]) else by)"

definition inbound_index :: "graph \<Rightarrow> index" where
  "inbound_index g = foldl (\<lambda>by r. foldl (push_entry r) by (n_edges r)) (\<lambda>_. []) (g_values g)"

definition eligible_inbound :: "registry \<Rightarrow> graph \<Rightarrow> string \<Rightarrow> node \<Rightarrow> (node \<times> string) list" where
  "eligible_inbound seed g i target =
     List.map_filter (\<lambda>(from, edge).
       (case g_node g from of
          None \<Rightarrow> None
        | Some r \<Rightarrow>
            if \<not> can_resolve seed g r then None
            else if edge = ''answers'' \<and> n_type target \<noteq> Some ''question'' then None
            else Some (r, edge))) (inbound_index g i)"

record resolver_row =
  rr_by :: string
  rr_edge :: string
  rr_type :: "string option"
  rr_status :: "string option"

definition inbound_resolvers :: "registry \<Rightarrow> graph \<Rightarrow> string \<Rightarrow> resolver_row list" where
  "inbound_resolvers seed g i =
     (case g_node g i of
        None \<Rightarrow> []
      | Some target \<Rightarrow> map (\<lambda>(r, edge). \<lparr>rr_by = n_id r, rr_edge = edge, rr_type = n_type r, rr_status = n_status r\<rparr>)
          (eligible_inbound seed g i target))"

definition resolution_of :: "registry \<Rightarrow> graph \<Rightarrow> string \<Rightarrow> resolution option" where
  "resolution_of seed g i =
     (case g_node g i of
        None \<Rightarrow> None
      | Some target \<Rightarrow>
          if execution_held target then None
          else (case eligible_inbound seed g i target of
                  [] \<Rightarrow> None
                | (r, edge) # _ \<Rightarrow> Some (resolution_by r edge)))"

text \<open>The open findings of a node: live, unsuperseded findings that relate to it.\<close>

record finding_row =
  fn_id :: string
  fn_title :: "string option"
  fn_summary :: "string option"

definition finding_edge :: "graph \<Rightarrow> node \<Rightarrow> (string \<Rightarrow> finding_row list) \<Rightarrow> edge \<Rightarrow> (string \<Rightarrow> finding_row list)" where
  "finding_edge g f out e =
     (if e_type e \<noteq> ''relates-to'' \<or> g_node g (e_to e) = None then out
      else out(e_to e := out (e_to e) @ [\<lparr>fn_id = n_id f, fn_title = n_title f, fn_summary = n_summary f\<rparr>]))"

definition open_findings_map :: "registry \<Rightarrow> graph \<Rightarrow> string \<Rightarrow> finding_row list" where
  "open_findings_map seed g =
     foldl (\<lambda>out f.
         if n_type f \<noteq> Some ''finding'' \<or> g_superseded g (n_id f) \<or> is_terminal_status seed (n_status f) (n_type f) (Some g)
         then out else foldl (finding_edge g f) out (n_edges f))
       (\<lambda>_. []) (g_values g)"

subsection \<open>The scan and the index see the same edges\<close>

definition scan_order :: "graph \<Rightarrow> (node \<times> edge) list" where
  "scan_order g = concat (map (\<lambda>r. map (Pair r) (n_edges r)) (g_values g))"

lemma foldl_concat_map: "foldl f a (concat (map h xs)) = foldl (\<lambda>b x. foldl f b (h x)) a xs"
  by (induction xs arbitrary: a) auto

lemma foldl_pairs: "foldl f a (map (Pair r) es) = foldl (\<lambda>b e. f b (r, e)) a es"
  by (induction es arbitrary: a) auto

lemma foldl_id: "foldl (\<lambda>b e. b) a es = a"
  by (induction es) auto

lemma scan_node_pairs:
  "scan_node seed g out r = foldl (\<lambda>b e. if can_resolve seed g r then scan_edge g r b e else b) out (n_edges r)"
  by (simp add: scan_node_def foldl_id)

lemma resolution_map_pairs:
  "resolution_map seed g = foldl (\<lambda>out (r, e). if can_resolve seed g r then scan_edge g r out e else out)
     Map.empty (scan_order g)"
  by (simp add: resolution_map_def scan_order_def foldl_concat_map foldl_pairs foldl_map scan_node_pairs [abs_def])

text \<open>An edge of the scan that may resolve \<open>i\<close>.\<close>

definition resolves_into :: "registry \<Rightarrow> graph \<Rightarrow> string \<Rightarrow> node \<Rightarrow> node \<times> edge \<Rightarrow> bool" where
  "resolves_into seed g i target p \<longleftrightarrow> can_resolve seed g (fst p) \<and> resolving_edge (e_type (snd p)) \<and> e_to (snd p) = i
     \<and> (e_type (snd p) = ''answers'' \<longrightarrow> n_type target = Some ''question'')"

lemma scan_first:
  "foldl (\<lambda>out (r, e). if can_resolve seed g r then scan_edge g r out e else out) out ps i =
     (case out i of Some x \<Rightarrow> Some x
      | None \<Rightarrow> (case g_node g i of None \<Rightarrow> None
          | Some target \<Rightarrow> if execution_held target then None
              else map_option (\<lambda>(r, e). resolution_by r (e_type e)) (List.find (resolves_into seed g i target) ps)))"
proof (induction ps arbitrary: out)
  case Nil
  then show ?case by (simp split: option.split)
next
  case (Cons p ps)
  obtain r e where p: "p = (r, e)" by (cases p)
  show ?case
  proof (cases "e_to e = i")
    case False
    then have "(if can_resolve seed g r then scan_edge g r out e else out) i = out i"
      by (auto simp: scan_edge_def split: option.splits)
    with False show ?thesis
      by (simp add: p Cons.IH resolves_into_def split: option.split)
  next
    case True
    then show ?thesis
      by (auto simp: p Cons.IH resolves_into_def scan_edge_def split: option.split)
  qed
qed

lemma index_pairs: "inbound_index g = foldl (\<lambda>by (r, e). push_entry r by e) (\<lambda>_. []) (scan_order g)"
  by (simp add: inbound_index_def scan_order_def foldl_concat_map foldl_pairs foldl_map)

definition entry_into :: "string \<Rightarrow> node \<times> edge \<Rightarrow> bool" where
  "entry_into i p \<longleftrightarrow> resolving_edge (e_type (snd p)) \<and> e_to (snd p) = i"

lemma index_entries:
  "foldl (\<lambda>by (r, e). push_entry r by e) by ps i =
     by i @ map (\<lambda>(r, e). (n_id r, e_type e)) (filter (entry_into i) ps)"
  by (induction ps arbitrary: "by") (auto simp: push_entry_def entry_into_def)

lemma inbound_index_entries:
  "inbound_index g i = map (\<lambda>(r, e). (n_id r, e_type e)) (filter (entry_into i) (scan_order g))"
  by (simp add: index_pairs index_entries)

lemma node_of_source:
  assumes "keyed_by_id g" and "(r, e) \<in> set (scan_order g)"
  shows "g_node g (n_id r) = Some r"
proof -
  from assms(2) obtain k where "(k, r) \<in> set (g_nodes g)" by (auto simp: scan_order_def)
  with assms(1) show ?thesis by (auto simp: keyed_by_id_def g_node_def list_all_iff)
qed

lemma eligible_entries:
  assumes "keyed_by_id g"
  shows "eligible_inbound seed g i target =
    map (\<lambda>(r, e). (r, e_type e)) (filter (resolves_into seed g i target) (scan_order g))"
proof -
  have "List.map_filter (\<lambda>(from, edge). case g_node g from of None \<Rightarrow> None
      | Some r \<Rightarrow> if \<not> can_resolve seed g r then None
          else if edge = ''answers'' \<and> n_type target \<noteq> Some ''question'' then None else Some (r, edge))
      (map (\<lambda>(r, e). (n_id r, e_type e)) (filter (entry_into i) ps)) =
    map (\<lambda>(r, e). (r, e_type e)) (filter (resolves_into seed g i target) ps)"
    if "set ps \<subseteq> set (scan_order g)" for ps
    using that
  proof (induction ps)
    case (Cons p ps)
    obtain r e where p: "p = (r, e)" by (cases p)
    with Cons.prems node_of_source [OF assms] have "g_node g (n_id r) = Some r" by auto
    with Cons p show ?case by (simp add: map_filter_simps entry_into_def resolves_into_def)
  qed (simp add: map_filter_simps)
  from this [OF subset_refl] show ?thesis
    by (simp add: eligible_inbound_def inbound_index_entries)
qed

lemma find_filter: "List.find p xs = (case filter p xs of [] \<Rightarrow> None | x # _ \<Rightarrow> Some x)"
  by (induction xs) auto

text \<open>
  C21. The indexed read is the scan. On a graph whose nodes are keyed by their ids,
  \<open>resolutionOf(graph, id)\<close>, which looks only at the inbound edges of \<open>id\<close>, returns exactly the
  entry \<open>resolutionMap(graph)\<close> records for it with its first-wins scan over all nodes.
\<close>

theorem resolution_of_is_resolution_map:
  assumes "keyed_by_id g"
  shows "resolution_of seed g i = resolution_map seed g i"
  using eligible_entries [OF assms, of seed i]
  by (simp add: resolution_of_def resolution_map_pairs scan_first find_filter
      split: option.split list.split prod.split)

text \<open>
  What resolves a node. An entry of \<open>resolutionMap\<close> always names an existing target with no
  execution hold on it, and a source of the graph that is neither superseded nor in a
  non-resolving status and has an edge of the recorded type onto the target, \<open>answers\<close>
  only onto a question; and conversely an unheld node with such an inbound edge has an
  entry. So a held item is released by nobody, and a withdrawn or superseded resolver
  retires nothing.
\<close>

theorem resolution_map_sound_and_complete:
  "(\<exists>res. resolution_map seed g i = Some res) \<longleftrightarrow>
     (\<exists>target. g_node g i = Some target \<and> \<not> execution_held target \<and>
        (\<exists>r\<in>set (g_values g). \<exists>e\<in>set (n_edges r). resolves_into seed g i target (r, e)))"
proof -
  have mem: "(\<exists>p\<in>set (scan_order g). Q p) \<longleftrightarrow> (\<exists>r\<in>set (g_values g). \<exists>e\<in>set (n_edges r). Q (r, e))" for Q
    by (auto simp: scan_order_def)
  show ?thesis
  proof (cases "g_node g i")
    case None
    then show ?thesis by (simp add: resolution_map_pairs scan_first)
  next
    case (Some target)
    have "(\<exists>x. List.find (resolves_into seed g i target) (scan_order g) = Some x) \<longleftrightarrow>
        (\<exists>p\<in>set (scan_order g). resolves_into seed g i target p)"
      using find_None_set [of "resolves_into seed g i target" "scan_order g"] by (metis not_None_eq)
    with Some mem show ?thesis
      by (auto simp: resolution_map_pairs scan_first)
  qed
qed

text \<open>
  A graph's own registry only ever adds terminal words. Every status the seed's
  \<open>terminal-status\<close> register names is terminal for every node type on every graph,
  whatever register override the graph carries; a per-type partition adds to it, and a
  give-up status is always terminal and non-resolving for its type.
\<close>

theorem terminal_words_are_never_removed:
  "(lower_or_empty s \<in> set (universal_vocabulary seed) \<longrightarrow> is_terminal_status seed s type g)
   \<and> (is_terminal_status seed s None g \<longrightarrow> is_terminal_status seed s type g)
   \<and> (is_give_up_status seed s type g \<longrightarrow>
        is_terminal_status seed s type g \<and> lower_or_empty s \<in> set (non_resolving_for seed g type))"
  by (auto simp: is_terminal_status_def inert_vocabulary_def terminal_vocabulary_def is_give_up_status_def Let_def
      split: option.splits)

subsection \<open>A concrete graph\<close>

definition demo_node :: "string \<Rightarrow> string \<Rightarrow> edge list \<Rightarrow> node" where
  "demo_node i type es = \<lparr>n_id = i, n_type = Some type, n_status = Some ''open'', n_date = None, n_summary = None,
     n_title = None, n_execution = JUndef, n_project = JUndef, n_requires = JUndef, n_readiness = JUndef, n_edges = es\<rparr>"

definition demo_seed :: registry where
  "demo_seed = \<lparr>register_classes = Some (\<lambda>_. [''Done'']), non_resolving = Some (\<lambda>_. [''abandoned'']),
     inert_statuses = Some (\<lambda>_. [])\<rparr>"

definition demo_graph :: graph where
  "demo_graph = \<lparr>g_nodes = [(''t1'', demo_node ''t1'' ''task'' []),
       (''d1'', demo_node ''d1'' ''decision'' [\<lparr>e_type = ''resolves'', e_to = ''t1''\<rparr>])],
     g_superseded = (\<lambda>_. False), g_registry = None\<rparr>"

theorem resolution_of_is_resolution_map_witness:
  "resolution_of demo_seed demo_graph ''t1'' = resolution_map demo_seed demo_graph ''t1''"
  by (rule resolution_of_is_resolution_map) (simp add: keyed_by_id_def demo_graph_def demo_node_def)

theorem terminal_words_are_never_removed_witness: "is_terminal_status demo_seed (Some ''DONE'') (Some ''task'') None"
proof -
  have "lower_or_empty (Some ''DONE'') \<in> set (universal_vocabulary demo_seed)" by code_simp
  with terminal_words_are_never_removed [of "Some ''DONE''" demo_seed "Some ''task''" None] show ?thesis by blast
qed

end
