(* ===== verification/Satisfiability.thy ===== *)
theory Satisfiability
  imports Resolution
begin

text \<open>
  Capability matching, \<^verbatim>\<open>src/lib/kernel/satisfiability.js\<close>: a machine's effective
  capabilities, whether it satisfies a profile or a factory's integration stage, and whether a
  provider's described capabilities satisfy an attempt spec.

  Configuration, profiles, factories, capabilities and attempt specs are decoded JSON. A
  refusal is the axis (or the failing atom's kind) it names; the sentence is left out, so the
  list of reasons is a list of axes, one per sentence, in the order the source pushes them.
  The contract's test of a repository url is an argument (\<open>isAllowedReference\<close> of the provider
  contract), as is the clock.
\<close>

subsection \<open>String lists and unions\<close>

fun nonempty_string :: "jsval \<Rightarrow> bool" where
  "nonempty_string (JStr s) = (s \<noteq> [])"
| "nonempty_string _ = False"

fun string_of :: "jsval \<Rightarrow> string" where
  "string_of (JStr s) = s"
| "string_of _ = []"

fun str_array :: "jsval \<Rightarrow> string list" where
  "str_array (JArr vs) = map string_of (filter nonempty_string vs)"
| "str_array (JStr s) = (if s = [] then [] else [s])"
| "str_array _ = []"

definition union_lists :: "jsval list \<Rightarrow> string list" where
  "union_lists ls = dedup_acc [] (concat (map str_array ls))"

lemma union_lists_set: "set (union_lists ls) = (\<Union>l\<in>set ls. set (str_array l))"
  by (auto simp: union_lists_def)

lemma union_lists_distinct: "distinct (union_lists ls)"
  by (simp add: union_lists_def distinct_dedup_acc)

definition object_or_empty :: "jsval \<Rightarrow> jsval" where
  "object_or_empty v = (if is_plain_object v then v else JObj [])"

subsection \<open>A machine and a profile\<close>

definition graph_launch_field_names :: "string list" where
  "graph_launch_field_names = [''command'', ''args'', ''argv'', ''bin'', ''exec'', ''entrypoint'', ''env'', ''report'',
     ''session'', ''launch_mode'', ''launchMode'', ''identity_mode'', ''identityMode'']"

text \<open>Presence, not truthiness.\<close>

definition graph_launch_fields :: "jsval \<Rightarrow> string list" where
  "graph_launch_fields profile = filter (\<lambda>k. \<not> nullish (js_get profile k)) graph_launch_field_names"

record capabilities =
  harnesses :: "string list"
  reachable_mcp :: "string list"
  skills :: "string list"
  plugins :: "string list"
  deny :: "string list"
  gh :: bool

text \<open>\<open>typeof v === "object"\<close> also holds of an array, which has none of these properties.\<close>

definition effective_capabilities :: "jsval \<Rightarrow> capabilities" where
  "effective_capabilities cap =
     (let c = object_or_empty cap; probed = js_get c ''probed''; declared = js_get c ''declared'';
          axis = (\<lambda>k. union_lists [js_get probed k, js_get declared k, js_get c k]) in
      \<lparr>harnesses = axis ''harnesses'', reachable_mcp = axis ''reachable_mcp'', skills = axis ''skills'',
       plugins = axis ''plugins'', deny = union_lists [js_get c ''deny'', js_get declared ''deny''],
       gh = (truthy (js_get probed ''gh'') \<or> truthy (js_get declared ''gh'') \<or> truthy (js_get c ''gh''))\<rparr>)"

record profile_spec =
  ps_id :: "string option"
  ps_harness :: "string option"
  ps_mcp :: "string list"
  ps_skills :: "string list"
  ps_plugins :: "string list"

definition profile_spec_of :: "jsval \<Rightarrow> profile_spec" where
  "profile_spec_of p = \<lparr>
     ps_id = (case js_get p ''id'' of JStr s \<Rightarrow> Some s | _ \<Rightarrow> None),
     ps_harness = (case js_get p ''harness'' of JStr s \<Rightarrow> (if s = [] then None else Some s) | _ \<Rightarrow> None),
     ps_mcp = str_array (js_get p ''mcp''), ps_skills = str_array (js_get p ''skills''),
     ps_plugins = str_array (js_get p ''plugins'')\<rparr>"

datatype atom = ADeny | AHarness | AMcp "string list" | ASkills "string list" | APlugins "string list"

definition missing :: "string list \<Rightarrow> string list \<Rightarrow> (string list \<Rightarrow> atom) \<Rightarrow> atom list" where
  "missing req have f = (let gap = filter (\<lambda>x. x \<notin> set have) req in if gap = [] then [] else [f gap])"

text \<open>The failing atoms, in order; empty means satisfiable.\<close>

definition satisfies :: "capabilities \<Rightarrow> jsval \<Rightarrow> atom list" where
  "satisfies m profile =
     (let p = profile_spec_of profile in
      (case ps_id p of Some i \<Rightarrow> (if i \<noteq> [] \<and> i \<in> set (deny m) then [ADeny] else []) | None \<Rightarrow> [])
      @ (case ps_harness p of Some h \<Rightarrow> (if h \<in> set (harnesses m) then [] else [AHarness]) | None \<Rightarrow> [])
      @ missing (ps_mcp p) (reachable_mcp m) AMcp
      @ missing (ps_skills p) (skills m) ASkills
      @ missing (ps_plugins p) (plugins m) APlugins)"

definition factory_uses_ci :: "jsval \<Rightarrow> bool" where
  "factory_uses_ci f = (truthy (js_get (js_get f ''integration'') ''ci'') \<or>
     (case js_get f ''gates'' of JArr gs \<Rightarrow> list_ex (\<lambda>g. truthy (js_get g ''ci'')) gs | _ \<Rightarrow> False))"

definition needs_gh :: "jsval \<Rightarrow> bool" where
  "needs_gh f = (js_get (js_get f ''integration'') ''mode'' = JStr ''propose'' \<or> factory_uses_ci f)"

definition satisfies_integration :: "capabilities \<Rightarrow> jsval \<Rightarrow> bool" where
  "satisfies_integration m f = (if \<not> needs_gh f then True else gh m)"

subsection \<open>A provider and an attempt\<close>

datatype axis =
    XDeny | XHarnesses | XMcp | XSkills | XPlugins | XTools | XRepos | XEgress | XSecretDelivery
  | XSecretSchemes | XIsolation | XResources | XLifecycle | XDeadline

record provider_caps =
  pc_harnesses :: "string list"
  pc_mcp :: "string list"
  pc_skills :: "string list"
  pc_plugins :: "string list"
  pc_tools :: "string list"
  pc_repos :: "string list"
  pc_egress :: "string list"
  pc_isolation :: "string list"
  pc_secret_delivery :: "string list"
  pc_secret_schemes :: "string list"
  pc_lifecycle :: "string list"
  pc_deny :: "string list"
  pc_resources :: "string \<Rightarrow> int option"
  pc_max_deadline :: "int option"

fun num_or_null :: "jsval \<Rightarrow> int option" where
  "num_or_null (JNum n) = Some n"
| "num_or_null _ = None"

definition resource_keys :: "string list" where
  "resource_keys = [''cpu'', ''memory_mb'', ''disk_mb'']"

definition provider_capabilities :: "jsval \<Rightarrow> provider_caps" where
  "provider_capabilities caps =
     (let raw = object_or_empty caps;
          c = (if is_plain_object (js_get raw ''capabilities'') then js_get raw ''capabilities'' else raw);
          ax = (\<lambda>k. str_array (js_get c k)) in
      \<lparr>pc_harnesses = ax ''harnesses'', pc_mcp = ax ''reachable_mcp'', pc_skills = ax ''skills'', pc_plugins = ax ''plugins'',
       pc_tools = ax ''tools'', pc_repos = ax ''repos'', pc_egress = ax ''egress'', pc_isolation = ax ''isolation'',
       pc_secret_delivery = ax ''secret_delivery'', pc_secret_schemes = ax ''secret_schemes'', pc_lifecycle = ax ''lifecycle'',
       pc_deny = ax ''deny'',
       pc_resources = (\<lambda>k. if k \<in> set resource_keys then num_or_null (js_get (js_get c ''resources'') k) else None),
       pc_max_deadline = num_or_null (js_get c ''max_deadline_ms'')\<rparr>)"

text \<open>A requested list: absent asks for nothing, present must be strings; \<open>None\<close> is malformed.\<close>

definition wanted :: "jsval \<Rightarrow> string list option" where
  "wanted v =
     (if nullish v then Some []
      else case v of
        JArr vs \<Rightarrow> (if list_all nonempty_string vs then Some (str_array v) else None)
      | _ \<Rightarrow> (if nonempty_string v then Some (str_array v) else None))"

definition subset_axis :: "axis \<Rightarrow> jsval \<Rightarrow> string list \<Rightarrow> axis list" where
  "subset_axis x v have =
     (case wanted v of
        None \<Rightarrow> [x]
      | Some want \<Rightarrow> if filter (\<lambda>w. w \<notin> set have) want = [] then [] else [x])"

definition deny_axis :: "provider_caps \<Rightarrow> jsval \<Rightarrow> axis list" where
  "deny_axis c v = (if nullish v then [] else if \<not> nonempty_string v then [XDeny]
     else if string_of v \<in> set (pc_deny c) then [XDeny] else [])"

definition harness_axis :: "provider_caps \<Rightarrow> jsval \<Rightarrow> axis list" where
  "harness_axis c v =
     (if nullish v then []
      else (let h = (if is_plain_object v then js_get v ''id'' else v) in
            if \<not> nonempty_string h then [XHarnesses]
            else if string_of h \<notin> set (pc_harnesses c) then [XHarnesses] else []))"

definition is_hex :: "char \<Rightarrow> bool" where
  "is_hex ch \<longleftrightarrow> is_digit ch \<or> (97 \<le> (of_char ch :: nat) \<and> (of_char ch :: nat) \<le> 102)"

definition object_name :: "jsval \<Rightarrow> bool" where
  "object_name v = (case v of JStr s \<Rightarrow> (length s = 40 \<or> length s = 64) \<and> list_all is_hex s | _ \<Rightarrow> False)"

definition any_name :: string where
  "any_name = ''*''"

text \<open>The pin of a checkout: commit, NUL, branch.\<close>

definition repo_pin :: "jsval \<Rightarrow> string" where
  "repo_pin r = js_string (coalesce (js_get r ''commit'') (JStr [])) @ [char_of (0::nat)]
     @ js_string (coalesce (js_get r ''branch'') (JStr []))"

text \<open>The pin checks of one checkout after another, over the pins met so far (last one wins).\<close>

fun pin_checks :: "(string \<rightharpoonup> string) \<Rightarrow> jsval list \<Rightarrow> axis list" where
  "pin_checks pins [] = []"
| "pin_checks pins (r # rs) =
     (let slug = string_of (js_get r ''slug'') in
      (if \<not> nullish (js_get r ''commit'') \<and> \<not> object_name (js_get r ''commit'') then [XRepos] else [])
      @ (if \<not> nullish (js_get r ''branch'') \<and> \<not> nonempty_string (js_get r ''branch'') then [XRepos] else [])
      @ (if pins slug \<noteq> None \<and> pins slug \<noteq> Some (repo_pin r) then [XRepos] else [])
      @ pin_checks (pins(slug \<mapsto> repo_pin r)) rs)"

definition slug_of :: "jsval \<Rightarrow> string" where
  "slug_of r = string_of (js_get r ''slug'')"

definition tainted_repo :: "(string \<Rightarrow> bool) \<Rightarrow> provider_caps \<Rightarrow> jsval \<Rightarrow> bool" where
  "tainted_repo allowed_url c r \<longleftrightarrow> any_name \<in> set (pc_repos c) \<and> slug_of r \<notin> set (pc_repos c)
     \<and> nonempty_string (js_get r ''url'') \<and> \<not> allowed_url (string_of (js_get r ''url''))"

definition no_repo :: "(string \<Rightarrow> bool) \<Rightarrow> provider_caps \<Rightarrow> jsval \<Rightarrow> bool" where
  "no_repo allowed_url c r \<longleftrightarrow> \<not> tainted_repo allowed_url c r \<and> \<not> (slug_of r \<in> set (pc_repos c)
     \<or> (any_name \<in> set (pc_repos c) \<and> nonempty_string (js_get r ''url'')))"

definition repos_axis :: "(string \<Rightarrow> bool) \<Rightarrow> provider_caps \<Rightarrow> jsval \<Rightarrow> axis list" where
  "repos_axis allowed_url c v =
     (if nullish v then []
      else case v of
        JArr rs \<Rightarrow>
          if list_ex (\<lambda>r. \<not> is_plain_object r \<or> \<not> nonempty_string (js_get r ''slug'')) rs then [XRepos]
          else pin_checks Map.empty rs
            @ (if filter (tainted_repo allowed_url c) rs \<noteq> [] then [XRepos] else [])
            @ (if filter (no_repo allowed_url c) rs \<noteq> [] then [XRepos] else [])
      | _ \<Rightarrow> [XRepos])"

definition egress_axis :: "provider_caps \<Rightarrow> jsval \<Rightarrow> axis list" where
  "egress_axis c v =
     (if nullish v then []
      else if \<not> is_plain_object v then [XEgress]
      else case wanted (js_get v ''allow'') of
        None \<Rightarrow> [XEgress]
      | Some allow \<Rightarrow>
          if any_name \<in> set (pc_egress c) then []
          else if filter (\<lambda>h. h \<notin> set (pc_egress c)) allow = [] then [] else [XEgress])"

fun is_array :: "jsval \<Rightarrow> bool" where
  "is_array (JArr _) = True"
| "is_array _ = False"

fun items :: "jsval \<Rightarrow> jsval list" where
  "items (JArr vs) = vs"
| "items _ = []"

definition delivery_axis :: "provider_caps \<Rightarrow> jsval \<Rightarrow> jsval \<Rightarrow> axis list" where
  "delivery_axis c delivery secrets =
     (case wanted delivery of
        None \<Rightarrow> XSecretDelivery # (if \<not> nullish secrets \<and> \<not> is_array secrets then [XSecretDelivery] else [])
      | Some modes \<Rightarrow>
          if \<not> nullish secrets \<and> \<not> is_array secrets then [XSecretDelivery]
          else if modes = [] \<and> \<not> nullish delivery \<and> items secrets \<noteq> [] then [XSecretDelivery]
          else if modes \<noteq> [] then
            (if list_ex (\<lambda>m. m \<in> set (pc_secret_delivery c)) modes then [] else [XSecretDelivery])
          else if items secrets \<noteq> [] \<and> pc_secret_delivery c = [] then [XSecretDelivery]
          else [])"

definition is_letter :: "char \<Rightarrow> bool" where
  "is_letter ch \<longleftrightarrow> (65 \<le> (of_char ch :: nat) \<and> (of_char ch :: nat) \<le> 90) \<or> (97 \<le> (of_char ch :: nat) \<and> (of_char ch :: nat) \<le> 122)"

definition is_scheme_char :: "char \<Rightarrow> bool" where
  "is_scheme_char ch \<longleftrightarrow> is_letter ch \<or> is_digit ch \<or> ch \<in> {CHR ''+'', CHR ''.'', CHR ''-''}"

text \<open>\<open>REF_SCHEME_RE\<close>: the scheme before \<open>://\<close>.\<close>

definition ref_scheme :: "jsval \<Rightarrow> string option" where
  "ref_scheme v =
     (case v of
        JStr (ch # cs) \<Rightarrow>
          (let sch = ch # takeWhile is_scheme_char cs; rest = dropWhile is_scheme_char cs in
           if is_letter ch \<and> take 3 rest = ''://'' then Some sch else None)
      | _ \<Rightarrow> None)"

definition schemes_axis :: "provider_caps \<Rightarrow> jsval \<Rightarrow> axis list" where
  "schemes_axis c secrets =
     (let schemes = map lower (pc_secret_schemes c);
          unknown = filter (\<lambda>x. case ref_scheme (js_get x ''ref'') of None \<Rightarrow> True | Some sch \<Rightarrow> lower sch \<notin> set schemes)
            (items secrets)
      in if unknown = [] then [] else [XSecretSchemes])"

definition isolation_axis :: "provider_caps \<Rightarrow> jsval \<Rightarrow> axis list" where
  "isolation_axis c v = (if \<not> nonempty_string v then [XIsolation]
     else if string_of v \<notin> set (pc_isolation c) then [XIsolation] else [])"

definition resource_check :: "provider_caps \<Rightarrow> jsval \<Rightarrow> string \<Rightarrow> axis list" where
  "resource_check c v k =
     (if nullish (js_get v k) then []
      else case num_or_null (js_get v k) of
        None \<Rightarrow> [XResources]
      | Some want \<Rightarrow>
          (case pc_resources c k of
             None \<Rightarrow> [XResources]
           | Some have \<Rightarrow> if want > have then [XResources] else []))"

definition resources_axis :: "provider_caps \<Rightarrow> jsval \<Rightarrow> axis list" where
  "resources_axis c v =
     (if nullish v then [] else if \<not> is_plain_object v then [XResources]
      else concat (map (resource_check c v) resource_keys))"

text \<open>\<open>ZONED_DATE_TIME_RE\<close>.\<close>

definition fields_then :: "(char \<times> nat) list \<Rightarrow> string \<Rightarrow> string option" where
  "fields_then fs s = foldl (\<lambda>r (ch, k). case r of None \<Rightarrow> None | Some t \<Rightarrow> map_option snd (sep_field ch k t)) (Some s) fs"

definition zone_ok :: "string \<Rightarrow> bool" where
  "zone_ok s \<longleftrightarrow> s = ''Z'' \<or> fields_then [(CHR ''+'', 2), (CHR '':'', 2)] s = Some []
     \<or> fields_then [(CHR ''-'', 2), (CHR '':'', 2)] s = Some []"

definition zoned_date_time :: "string \<Rightarrow> bool" where
  "zoned_date_time s =
     (case digits_field 4 s of
        None \<Rightarrow> False
      | Some (_, r) \<Rightarrow>
          (case fields_then [(CHR ''-'', 2), (CHR ''-'', 2), (CHR ''T'', 2), (CHR '':'', 2), (CHR '':'', 2)] r of
             None \<Rightarrow> False
           | Some t \<Rightarrow>
               zone_ok (case t of
                  [] \<Rightarrow> t
                | x # xs \<Rightarrow> if x = CHR ''.'' \<and> takeWhile is_digit xs \<noteq> [] then dropWhile is_digit xs else t)))"

definition deadline_axis :: "provider_caps \<Rightarrow> jsval \<Rightarrow> int \<Rightarrow> axis list" where
  "deadline_axis c v now =
     (case pc_max_deadline c of
        None \<Rightarrow> []
      | Some cap \<Rightarrow>
          (case (case v of JStr s \<Rightarrow> (if zoned_date_time s then date_parse s else None) | _ \<Rightarrow> None) of
             None \<Rightarrow> [XDeadline]
           | Some at \<Rightarrow> if at - now > cap then [XDeadline] else []))"

definition match_attempt :: "(string \<Rightarrow> bool) \<Rightarrow> provider_caps \<Rightarrow> jsval \<Rightarrow> int \<Rightarrow> axis list" where
  "match_attempt allowed_url c a now =
     deny_axis c (js_get a ''profile'') @ harness_axis c (js_get a ''harness'')
     @ subset_axis XMcp (js_get a ''mcp'') (pc_mcp c)
     @ subset_axis XSkills (js_get a ''skills'') (pc_skills c)
     @ subset_axis XPlugins (js_get a ''plugins'') (pc_plugins c)
     @ subset_axis XTools (js_get a ''tools'') (pc_tools c)
     @ repos_axis allowed_url c (js_get a ''repos'') @ egress_axis c (js_get a ''egress'')
     @ delivery_axis c (js_get a ''secret_delivery'') (js_get a ''secrets'')
     @ schemes_axis c (js_get a ''secrets'')
     @ isolation_axis c (js_get a ''isolation'') @ resources_axis c (js_get a ''resources'')
     @ subset_axis XLifecycle (js_get a ''lifecycle'') (pc_lifecycle c)
     @ deadline_axis c (js_get a ''deadline'') now"

text \<open>\<open>satisfiesAttempt\<close>: the refusals and the failing axes, each once.\<close>

definition satisfies_attempt :: "(string \<Rightarrow> bool) \<Rightarrow> jsval \<Rightarrow> jsval \<Rightarrow> int \<Rightarrow> axis list \<times> axis list" where
  "satisfies_attempt allowed_url caps spec now =
     (let reasons = match_attempt allowed_url (provider_capabilities caps) (object_or_empty spec) now
      in (reasons, dedup_acc [] reasons))"

subsection \<open>What a match means\<close>

lemma missing_Nil [simp]: "missing req have f = [] \<longleftrightarrow> set req \<subseteq> set have"
  by (auto simp: missing_def Let_def filter_empty_conv)

lemma filter_notin_Nil [simp]: "filter (\<lambda>w. w \<notin> A) xs = [] \<longleftrightarrow> set xs \<subseteq> A"
  by (auto simp: filter_empty_conv)

definition layers :: "jsval \<Rightarrow> string \<Rightarrow> string set" where
  "layers cap k = (let c = object_or_empty cap in
     set (str_array (js_get (js_get c ''probed'') k)) \<union> set (str_array (js_get (js_get c ''declared'') k))
     \<union> set (str_array (js_get c k)))"

definition denied_by :: "jsval \<Rightarrow> string set" where
  "denied_by cap = (let c = object_or_empty cap in
     set (str_array (js_get c ''deny'')) \<union> set (str_array (js_get (js_get c ''declared'') ''deny'')))"

definition named_in :: "jsval \<Rightarrow> string set" where
  "named_in v = (case v of JStr s \<Rightarrow> {s} - {[]} | _ \<Rightarrow> {})"

lemma effective_sets [simp]:
  "set (harnesses (effective_capabilities cap)) = layers cap ''harnesses''"
  "set (reachable_mcp (effective_capabilities cap)) = layers cap ''reachable_mcp''"
  "set (skills (effective_capabilities cap)) = layers cap ''skills''"
  "set (plugins (effective_capabilities cap)) = layers cap ''plugins''"
  "set (deny (effective_capabilities cap)) = denied_by cap"
  by (simp_all add: effective_capabilities_def layers_def denied_by_def Let_def union_lists_set Un_assoc)

lemma effective_distinct:
  "distinct (harnesses (effective_capabilities cap))" "distinct (reachable_mcp (effective_capabilities cap))"
  "distinct (skills (effective_capabilities cap))" "distinct (plugins (effective_capabilities cap))"
  "distinct (deny (effective_capabilities cap))"
  by (simp_all add: effective_capabilities_def Let_def union_lists_distinct)

lemma deny_atom:
  "((case (case v of JStr s \<Rightarrow> Some s | _ \<Rightarrow> None) of Some i \<Rightarrow> (if i \<noteq> [] \<and> i \<in> D then [ADeny] else []) | None \<Rightarrow> []) = [])
   \<longleftrightarrow> named_in v \<inter> D = {}"
  by (cases v) (auto simp: named_in_def)

lemma harness_atom:
  "((case (case v of JStr s \<Rightarrow> (if s = [] then None else Some s) | _ \<Rightarrow> None) of
       Some h \<Rightarrow> (if h \<in> H then [] else [AHarness]) | None \<Rightarrow> []) = []) \<longleftrightarrow> named_in v \<subseteq> H"
  by (cases v) (auto simp: named_in_def)

text \<open>
  Machine against profile, from the raw configuration: nothing is refused exactly when the
  profile is on no deny list, its harness (if it names one) is probed, declared or listed, and
  every MCP server, skill and plugin it names is probed, declared or listed. The effective
  harness and deny lists hold no name twice, and a probe can never put a profile on the deny
  list.
\<close>

theorem satisfies_decides_the_profile:
  "(satisfies (effective_capabilities cap) profile = [] \<longleftrightarrow>
      named_in (js_get profile ''id'') \<inter> denied_by cap = {}
      \<and> named_in (js_get profile ''harness'') \<subseteq> layers cap ''harnesses''
      \<and> set (str_array (js_get profile ''mcp'')) \<subseteq> layers cap ''reachable_mcp''
      \<and> set (str_array (js_get profile ''skills'')) \<subseteq> layers cap ''skills''
      \<and> set (str_array (js_get profile ''plugins'')) \<subseteq> layers cap ''plugins'')
    \<and> distinct (harnesses (effective_capabilities cap)) \<and> distinct (deny (effective_capabilities cap))"
  by (simp add: satisfies_def profile_spec_of_def Let_def deny_atom harness_atom effective_distinct)

subsection \<open>A wider provider refuses no more\<close>

text \<open>
  \<open>wider c d\<close>: the provider \<open>d\<close> offers everything \<open>c\<close> does on every set axis, denies no more
  profiles, has ceilings at least as high and a lifetime cap no shorter.
\<close>

definition offers_more :: "provider_caps \<Rightarrow> provider_caps \<Rightarrow> bool" where
  "offers_more c d \<longleftrightarrow>
     set (pc_harnesses c) \<subseteq> set (pc_harnesses d) \<and> set (pc_mcp c) \<subseteq> set (pc_mcp d)
     \<and> set (pc_skills c) \<subseteq> set (pc_skills d) \<and> set (pc_plugins c) \<subseteq> set (pc_plugins d)
     \<and> set (pc_tools c) \<subseteq> set (pc_tools d) \<and> set (pc_repos c) \<subseteq> set (pc_repos d)
     \<and> set (pc_egress c) \<subseteq> set (pc_egress d) \<and> set (pc_isolation c) \<subseteq> set (pc_isolation d)
     \<and> set (pc_secret_delivery c) \<subseteq> set (pc_secret_delivery d)
     \<and> set (pc_secret_schemes c) \<subseteq> set (pc_secret_schemes d) \<and> set (pc_lifecycle c) \<subseteq> set (pc_lifecycle d)"

definition limits_less :: "provider_caps \<Rightarrow> provider_caps \<Rightarrow> bool" where
  "limits_less c d \<longleftrightarrow> set (pc_deny d) \<subseteq> set (pc_deny c)
     \<and> list_all (\<lambda>k. case pc_resources c k of None \<Rightarrow> True
          | Some n \<Rightarrow> (case pc_resources d k of None \<Rightarrow> False | Some n' \<Rightarrow> n \<le> n')) resource_keys
     \<and> (case pc_max_deadline d of None \<Rightarrow> True
          | Some n' \<Rightarrow> (case pc_max_deadline c of None \<Rightarrow> False | Some n \<Rightarrow> n \<le> n'))"

definition wider :: "provider_caps \<Rightarrow> provider_caps \<Rightarrow> bool" where
  "wider c d \<longleftrightarrow> offers_more c d \<and> limits_less c d"

lemma subset_axis_mono: "subset_axis x v as = [] \<Longrightarrow> set as \<subseteq> set bs \<Longrightarrow> subset_axis x v bs = []"
  by (auto simp: subset_axis_def split: option.splits if_splits)

lemma deny_axis_mono: "deny_axis c v = [] \<Longrightarrow> set (pc_deny d) \<subseteq> set (pc_deny c) \<Longrightarrow> deny_axis d v = []"
  by (auto simp: deny_axis_def split: if_splits)

lemma harness_axis_mono:
  "harness_axis c v = [] \<Longrightarrow> set (pc_harnesses c) \<subseteq> set (pc_harnesses d) \<Longrightarrow> harness_axis d v = []"
  by (auto simp: harness_axis_def Let_def split: if_splits)

lemma repo_refusal_mono:
  assumes "set (pc_repos c) \<subseteq> set (pc_repos d)" "\<not> tainted_repo u c r" "\<not> no_repo u c r"
  shows "\<not> tainted_repo u d r \<and> \<not> no_repo u d r"
  using assms by (auto simp: tainted_repo_def no_repo_def)

lemma repos_axis_mono:
  "repos_axis u c v = [] \<Longrightarrow> set (pc_repos c) \<subseteq> set (pc_repos d) \<Longrightarrow> repos_axis u d v = []"
  using repo_refusal_mono [of c d u]
  by (auto simp: repos_axis_def filter_empty_conv split: jsval.splits if_splits)

lemma egress_axis_mono:
  "egress_axis c v = [] \<Longrightarrow> set (pc_egress c) \<subseteq> set (pc_egress d) \<Longrightarrow> egress_axis d v = []"
  by (auto simp: egress_axis_def split: option.splits if_splits)

lemma delivery_axis_mono:
  "delivery_axis c v s = [] \<Longrightarrow> set (pc_secret_delivery c) \<subseteq> set (pc_secret_delivery d) \<Longrightarrow> delivery_axis d v s = []"
  by (auto simp: delivery_axis_def list_ex_iff split: option.splits if_splits)

lemma schemes_axis_mono:
  "schemes_axis c v = [] \<Longrightarrow> set (pc_secret_schemes c) \<subseteq> set (pc_secret_schemes d) \<Longrightarrow> schemes_axis d v = []"
  by (fastforce simp: schemes_axis_def Let_def filter_empty_conv split: option.splits if_splits)

lemma isolation_axis_mono:
  "isolation_axis c v = [] \<Longrightarrow> set (pc_isolation c) \<subseteq> set (pc_isolation d) \<Longrightarrow> isolation_axis d v = []"
  by (auto simp: isolation_axis_def split: if_splits)

lemma resource_check_mono:
  assumes "resource_check c v k = []"
    and "case pc_resources c k of None \<Rightarrow> True
       | Some n \<Rightarrow> (case pc_resources d k of None \<Rightarrow> False | Some n' \<Rightarrow> n \<le> n')"
  shows "resource_check d v k = []"
  using assms by (auto simp: resource_check_def split: option.splits if_splits)

lemma resources_axis_mono: "resources_axis c v = [] \<Longrightarrow> limits_less c d \<Longrightarrow> resources_axis d v = []"
  using resource_check_mono [of c v _ d]
  by (auto simp: resources_axis_def limits_less_def list_all_iff split: if_splits)

lemma deadline_axis_mono: "deadline_axis c v now = [] \<Longrightarrow> limits_less c d \<Longrightarrow> deadline_axis d v now = []"
  by (auto simp: deadline_axis_def limits_less_def split: option.splits if_splits)

text \<open>
  An attempt a provider accepts is accepted by every wider one: whatever capability the
  wider provider adds (the repository wildcard included), however it raises a ceiling or drops
  a denial, no axis of the attempt starts to refuse.
\<close>

theorem wider_provider_refuses_no_more:
  assumes "wider (provider_capabilities caps) (provider_capabilities caps')"
    and "satisfies_attempt allowed_url caps spec now = ([], [])"
  shows "satisfies_attempt allowed_url caps' spec now = ([], [])"
proof -
  have off: "offers_more (provider_capabilities caps) (provider_capabilities caps')"
    and lim: "limits_less (provider_capabilities caps) (provider_capabilities caps')"
    using assms(1) by (simp_all add: wider_def)
  note o = off [unfolded offers_more_def]
  have d: "set (pc_deny (provider_capabilities caps')) \<subseteq> set (pc_deny (provider_capabilities caps))"
    using lim by (simp add: limits_less_def)
  have m: "match_attempt allowed_url (provider_capabilities caps) (object_or_empty spec) now = []"
    using assms(2) by (simp add: satisfies_attempt_def Let_def)
  have "match_attempt allowed_url (provider_capabilities caps') (object_or_empty spec) now = []"
    using m unfolding match_attempt_def append_is_Nil_conv
    by (elim conjE, intro conjI)
      (erule deny_axis_mono harness_axis_mono subset_axis_mono repos_axis_mono egress_axis_mono delivery_axis_mono
        schemes_axis_mono isolation_axis_mono resources_axis_mono deadline_axis_mono,
       simp only: o d lim)+
  then show ?thesis
    by (simp add: satisfies_attempt_def Let_def)
qed

definition small_box :: jsval where
  "small_box = JObj [(''harnesses'', JArr [JStr ''claude'']), (''isolation'', JArr [JStr ''container'']),
     (''resources'', JObj [(''cpu'', JNum 2)]), (''repos'', JArr [JStr ''app'']), (''deny'', JArr [JStr ''prof-x''])]"

definition large_box :: jsval where
  "large_box = JObj [(''harnesses'', JArr [JStr ''claude'', JStr ''codex'']), (''isolation'', JArr [JStr ''container'']),
     (''resources'', JObj [(''cpu'', JNum 8)]), (''repos'', JArr [JStr ''*'', JStr ''app''])]"

definition small_attempt :: jsval where
  "small_attempt = JObj [(''harness'', JObj [(''id'', JStr ''claude'')]), (''isolation'', JStr ''container''),
     (''resources'', JObj [(''cpu'', JNum 2)]), (''repos'', JArr [JObj [(''slug'', JStr ''app'')]])]"

lemma wider_provider_refuses_no_more_witness:
  "satisfies_attempt (\<lambda>_. False) large_box small_attempt 0 = ([], [])
   \<and> satisfies_attempt (\<lambda>_. False) small_box (JObj [(''isolation'', JStr ''container''), (''profile'', JStr ''prof-x'')]) 0
       = ([XDeny], [XDeny])"
proof
  show "satisfies_attempt (\<lambda>_. False) large_box small_attempt 0 = ([], [])"
    by (rule wider_provider_refuses_no_more [of small_box]) (code_simp, code_simp)
  show "satisfies_attempt (\<lambda>_. False) small_box (JObj [(''isolation'', JStr ''container''), (''profile'', JStr ''prof-x'')]) 0
       = ([XDeny], [XDeny])"
    by code_simp
qed

end
