(* ===== verification/GateAttempts.thy ===== *)
theory GateAttempts
  imports Satisfiability
begin

text \<open>
  Attempts and budgets of a pipeline, \<^verbatim>\<open>src/lib/kernel/gates.js\<close>: how one dispatch is classified and which
  pool it charges, the implementation stage's attempt ledger (reserve, settle, spent), the stage's
  next move, fix cycles and reruns, the reviewer cooldown, the evidence obligations that survive a re-gate;
  and the loop of \<^verbatim>\<open>src/lib/shell/implementation-workflow.js\<close> that settles, decides and reserves.

  Run records, ledger entries and stamps are decoded JSON. The reason sentences and the reset hint of a
  classification are left out. \<open>Object.entries\<close> is read in insertion order (the keys here are gate ids and
  run keys, never array indices). The stage loop here is its decision skeleton, with the ledger writes succeeding; the whole loop, with every
  activity and every failure, is \<open>stage_loop\<close> of \<open>ImplementationStage\<close>.
\<close>

subsection \<open>Pools and outcomes\<close>

datatype charge_pool = CodePool | RetryPool

definition pool_name :: "charge_pool \<Rightarrow> string" where
  "pool_name p = (case p of CodePool \<Rightarrow> ''implementation'' | RetryPool \<Rightarrow> ''retry'')"

definition pool_value :: "charge_pool option \<Rightarrow> jsval" where
  "pool_value p = (case p of None \<Rightarrow> JNull | Some q \<Rightarrow> JStr (pool_name q))"

datatype exec_outcome = OCompleted | OFailed | OInfrastructure | OCancelled | ODeclined | OUnroutable

definition outcome_pool :: "exec_outcome \<Rightarrow> charge_pool option" where
  "outcome_pool o' = (case o' of OFailed \<Rightarrow> Some CodePool | OInfrastructure \<Rightarrow> Some RetryPool | OCancelled \<Rightarrow> Some CodePool
     | _ \<Rightarrow> None)"

text \<open>\<open>String(v || "")\<close>.\<close>

definition plain_text :: "jsval \<Rightarrow> string" where
  "plain_text v = js_string (js_or v (JStr []))"

definition publish_outcome_pool :: "jsval \<Rightarrow> charge_pool option" where
  "publish_outcome_pool c = (if plain_text c = ''infrastructure'' then Some RetryPool else None)"

definition infrastructure_reading :: "jsval \<Rightarrow> bool" where
  "infrastructure_reading r \<longleftrightarrow>
     plain_text (js_get r ''termination_class'') = ''environment''
     \<or> plain_text (js_get r ''state'') = ''failed_launch''
     \<or> plain_text (js_get r ''termination_signal'') = ''supervisor-gone''
     \<or> (js_get r ''terminal_unreachable'' = JBool True \<and> js_get r ''terminal_enforced'' \<noteq> JBool True)"

definition refusal_text :: "jsval \<Rightarrow> string" where
  "refusal_text v = (case v of JStr s \<Rightarrow> trim s | JObj _ \<Rightarrow> trim (plain_text (js_get v ''reason'')) | _ \<Rightarrow> [])"

definition classify_execution_outcome :: "jsval \<Rightarrow> jsval \<Rightarrow> exec_outcome" where
  "classify_execution_outcome r refusal =
     (if \<not> is_plain_object r then (if refusal_text refusal \<noteq> [] then OUnroutable else OFailed)
      else if plain_text (js_get r ''terminal_state'') = ''declined'' then ODeclined
      else if infrastructure_reading r then OInfrastructure
      else if plain_text (js_get r ''termination_class'') = ''idle'' then OCancelled
      else if plain_text (js_get r ''termination_class'') = ''completed'' then OCompleted
      else OFailed)"

definition outcome_settles :: "exec_outcome \<Rightarrow> bool" where
  "outcome_settles o' \<longleftrightarrow> o' \<noteq> OCompleted"

subsection \<open>Caps and small decisions\<close>

text \<open>\<open>intOr(v, fallback, {max})\<close>: a number is clamped to \<open>0..max\<close>.\<close>

definition int_or :: "jsval \<Rightarrow> int \<Rightarrow> int \<Rightarrow> int" where
  "int_or v fallback cap = (case js_number v of None \<Rightarrow> fallback | Some n \<Rightarrow> min cap (max 0 n))"

definition execution_pool_cap :: "jsval \<Rightarrow> charge_pool \<Rightarrow> int" where
  "execution_pool_cap impl p =
     (if \<not> is_plain_object impl then 0
      else case p of
        RetryPool \<Rightarrow> int_or (js_get (js_get impl ''retry'') ''attempts'') 0 3
      | CodePool \<Rightarrow> int_or (js_get (js_get impl ''budget'') ''attempts'') 0 3)"

definition execution_pool_headroom :: "jsval \<Rightarrow> charge_pool \<Rightarrow> int \<Rightarrow> int" where
  "execution_pool_headroom impl p spent = max 0 (execution_pool_cap impl p - max 0 spent)"

definition cycle_cap :: "jsval \<Rightarrow> int" where
  "cycle_cap gate = int_or (js_get gate ''cycles'') 0 10"

definition retries_cycle :: "jsval \<Rightarrow> int \<Rightarrow> bool" where
  "retries_cycle gate cycle \<longleftrightarrow> cycle < cycle_cap gate"

definition rerun_cap :: "jsval \<Rightarrow> int" where
  "rerun_cap d = int_or (js_get d ''reruns'') 0 3"

definition reruns :: "jsval \<Rightarrow> int \<Rightarrow> bool" where
  "reruns d attempt \<longleftrightarrow> attempt \<le> rerun_cap d"

text \<open>The reviewer cooldown; \<open>None\<close> where the source's numbers are NaN.\<close>

definition reviewer_cooldown_active :: "jsval \<Rightarrow> int \<Rightarrow> int option \<Rightarrow> bool" where
  "reviewer_cooldown_active stamp now success_at \<longleftrightarrow> is_plain_object stamp
     \<and> (case js_number (js_get stamp ''until'') of None \<Rightarrow> False | Some u \<Rightarrow> u > now)
     \<and> \<not> (case success_at of None \<Rightarrow> False | Some s \<Rightarrow>
            (case js_number (js_get stamp ''at'') of None \<Rightarrow> False | Some a \<Rightarrow> s > a))"

definition merge_reviewer_cooldown :: "jsval \<Rightarrow> jsval \<Rightarrow> jsval" where
  "merge_reviewer_cooldown prev next =
     (if \<not> is_plain_object next then (if is_plain_object prev then prev else JNull)
      else if \<not> is_plain_object prev then next
      else case (js_number (js_get next ''at''), js_number (js_get prev ''at'')) of
        (Some n, Some p) \<Rightarrow> (if n \<ge> p then next else prev)
      | _ \<Rightarrow> prev)"

subsection \<open>The attempt ledger\<close>

definition impl_code_pool_outcomes :: "string list" where
  "impl_code_pool_outcomes = [''candidate'', ''no-candidate'', ''failed'', ''cancelled'']"

definition impl_attempt_pool :: "jsval \<Rightarrow> charge_pool option" where
  "impl_attempt_pool o' =
     (if plain_text o' \<in> set impl_code_pool_outcomes then Some CodePool
      else if plain_text o' = ''infrastructure'' then Some RetryPool else None)"

definition impl_attempt_settled :: "jsval \<Rightarrow> bool" where
  "impl_attempt_settled e \<longleftrightarrow> is_plain_object e \<and> truthy (js_get e ''outcome'') \<and> js_get e ''outcome'' \<noteq> JStr ''pending''"

definition impl_attempt_key :: "jsval \<Rightarrow> int" where
  "impl_attempt_key e = max 0 (number_or (js_get e ''attempt'') 0)"

definition impl_attempts_for :: "jsval list \<Rightarrow> int \<Rightarrow> jsval list" where
  "impl_attempts_for attempts key = filter (\<lambda>e. is_plain_object e \<and> impl_attempt_key e = max 0 key) attempts"

definition index_of :: "jsval \<Rightarrow> int option" where
  "index_of e = js_number (js_get e ''index'')"

definition is_attempt :: "int \<Rightarrow> int \<Rightarrow> jsval \<Rightarrow> bool" where
  "is_attempt i key e \<longleftrightarrow> index_of e = Some i \<and> impl_attempt_key e = key"

definition sort_number :: "jsval \<Rightarrow> int" where
  "sort_number e = (case index_of e of Some i \<Rightarrow> i | None \<Rightarrow> 0)"

text \<open>The sort by attempt, then index: two stable passes. An entry without a numeric index (none is ever
  written) sorts as 0.\<close>

definition sort_ledger :: "jsval list \<Rightarrow> jsval list" where
  "sort_ledger es = sort_key impl_attempt_key (sort_key sort_number es)"

definition reservation :: "int \<Rightarrow> int \<Rightarrow> jsval \<Rightarrow> jsval \<Rightarrow> jsval" where
  "reservation i key run_id started_at = JObj ([(''index'', JNum i)] @ (if key \<noteq> 0 then [(''attempt'', JNum key)] else [])
     @ [(''run_id'', js_or run_id JNull), (''outcome'', JStr ''pending''), (''pool'', JNull),
        (''started_at'', js_or started_at JNull), (''finished_at'', JNull), (''reason'', JNull)])"

definition reserve_impl_attempt :: "jsval list \<Rightarrow> int \<Rightarrow> int \<Rightarrow> jsval \<Rightarrow> jsval \<Rightarrow> jsval list" where
  "reserve_impl_attempt attempts index attempt run_id started_at =
     (let es = filter is_plain_object attempts; i = max 1 (if index = 0 then 1 else index); key = max 0 attempt in
      if list_ex (is_attempt i key) es then es
      else sort_ledger (es @ [reservation i key run_id started_at]))"

datatype settle_result = Settled "jsval list" | Unreserved | AlreadySettled

definition spread_onto :: "jsval \<Rightarrow> jsval \<Rightarrow> jsval" where
  "spread_onto e extra = (case extra of JObj fs \<Rightarrow> foldl (\<lambda>a (k, v). js_set a k v) e fs | _ \<Rightarrow> e)"

definition settled_entry :: "jsval \<Rightarrow> jsval \<Rightarrow> jsval \<Rightarrow> jsval \<Rightarrow> jsval \<Rightarrow> jsval \<Rightarrow> jsval" where
  "settled_entry e run_id outcome reason finished_at extra =
     (let e1 = (if truthy run_id then js_set e ''run_id'' run_id else e);
          e2 = js_set e1 ''outcome'' (JStr (plain_text outcome));
          e3 = js_set e2 ''pool'' (pool_value (impl_attempt_pool (JStr (plain_text outcome))));
          e4 = js_set e3 ''finished_at'' (js_or finished_at JNull);
          e5 = js_set e4 ''reason'' (if truthy reason then JStr (take 300 (js_string reason)) else JNull)
      in spread_onto e5 extra)"

definition settle_impl_attempt ::
  "jsval list \<Rightarrow> int \<Rightarrow> int \<Rightarrow> jsval \<Rightarrow> jsval \<Rightarrow> jsval \<Rightarrow> jsval \<Rightarrow> jsval \<Rightarrow> settle_result" where
  "settle_impl_attempt attempts i attempt run_id outcome reason finished_at extra =
     (let es = filter is_plain_object attempts; key = max 0 attempt in
      case find_index (is_attempt i key) es of
        None \<Rightarrow> Unreserved
      | Some at \<Rightarrow>
          if impl_attempt_settled (es ! at) then AlreadySettled
          else Settled (es[at := settled_entry (es ! at) run_id outcome reason finished_at extra]))"

definition charged :: "charge_pool \<Rightarrow> jsval \<Rightarrow> bool" where
  "charged p e \<longleftrightarrow> impl_attempt_settled e \<and> js_get e ''pool'' = JStr (pool_name p)"

definition impl_attempts_spent :: "jsval list \<Rightarrow> charge_pool \<Rightarrow> int \<Rightarrow> int" where
  "impl_attempts_spent attempts p attempt = int (length (filter (charged p) (impl_attempts_for attempts attempt)))"

datatype move = MCandidate | MDeclined | MMismatch | MRetry charge_pool | MEscalated | MExhausted

definition impl_attempt_decision :: "jsval \<Rightarrow> jsval \<Rightarrow> int \<Rightarrow> int \<Rightarrow> move" where
  "impl_attempt_decision impl outcome spent retry_spent =
     (let o' = plain_text outcome in
      if o' = ''candidate'' then MCandidate
      else if o' = ''declined'' then MDeclined
      else if o' = ''candidate-mismatch'' then MMismatch
      else if o' = ''infrastructure''
      then (if execution_pool_headroom impl RetryPool retry_spent > 0 then MRetry RetryPool else MEscalated)
      else if o' \<in> set impl_code_pool_outcomes
      then (if execution_pool_headroom impl CodePool spent > 0 then MRetry CodePool else MExhausted)
      else MExhausted)"

subsection \<open>The stage loop\<close>

definition stage_iteration_cap :: nat where
  "stage_iteration_cap = 8"

text \<open>What one run of the implementer came to, as the loop settles it.\<close>

record run_end =
  re_run_id :: jsval
  re_outcome :: string
  re_reason :: jsval
  re_finished :: jsval
  re_dirty :: bool
  re_handoff :: jsval
  re_unfollowable :: bool

definition stage_extra :: "run_end \<Rightarrow> jsval" where
  "stage_extra e = JObj ((if re_dirty e then [(''dirty'', JBool True)] else [])
     @ (if truthy (re_handoff e) then [(''handoff'', re_handoff e)] else [])
     @ (if re_unfollowable e then [(''unfollowed'', JBool True)] else []))"

datatype stage_end = StageEnds move "jsval list" int | StageOverran

definition settle_last :: "jsval list \<Rightarrow> int \<Rightarrow> jsval \<Rightarrow> run_end \<Rightarrow> jsval list" where
  "settle_last attempts key entry e =
     (if impl_attempt_settled entry then attempts
      else case settle_impl_attempt attempts (sort_number entry) key (re_run_id e) (JStr (re_outcome e)) (re_reason e)
                  (re_finished e) (stage_extra e) of
        Settled es \<Rightarrow> es
      | _ \<Rightarrow> attempts)"

text \<open>One pass: the last entry of the segment is settled unless it is already, the next move decided on it,
  and a retry is charged and reserved before the loop goes round. A run that could not be followed
  stops the stage. \<open>ends\<close> gives the end of the run of attempt \<open>idx\<close>.\<close>

fun run_stage :: "nat \<Rightarrow> jsval \<Rightarrow> int \<Rightarrow> (int \<Rightarrow> run_end) \<Rightarrow> jsval list \<Rightarrow> int \<Rightarrow> stage_end" where
  "run_stage 0 impl key ends attempts retry_spent = StageOverran"
| "run_stage (Suc n) impl key ends attempts retry_spent =
     (if impl_attempts_for attempts key = [] then StageEnds MEscalated attempts retry_spent
      else
        (let entry = last (impl_attempts_for attempts key); idx = sort_number entry;
             es = settle_last attempts key entry (ends idx);
             settled = last (impl_attempts_for es key)
         in if \<not> impl_attempt_settled entry \<and> re_unfollowable (ends idx) then StageEnds MEscalated es retry_spent
            else case impl_attempt_decision impl (js_get settled ''outcome'') (impl_attempts_spent es CodePool key) retry_spent of
              MRetry p \<Rightarrow>
                run_stage n impl key ends (reserve_impl_attempt es (idx + 1) key JNull JNull)
                  (if p = RetryPool then retry_spent + 1 else retry_spent)
            | m \<Rightarrow> StageEnds m es retry_spent))"

subsection \<open>An attempt is charged once\<close>

text \<open>Properties an \<open>extra\<close> object leaves alone.\<close>

definition harmless :: "jsval \<Rightarrow> bool" where
  "harmless extra = (case extra of JObj fs \<Rightarrow>
     list_all (\<lambda>(k, v). k \<notin> {''index'', ''attempt'', ''outcome'', ''pool''}) fs | _ \<Rightarrow> True)"

lemma get_foldl_set: "\<forall>(k, v)\<in>set fs. k \<noteq> q \<Longrightarrow> js_get (foldl (\<lambda>a (k, v). js_set a k v) e fs) q = js_get e q"
  by (induction fs arbitrary: e) auto

lemma plain_foldl_set: "is_plain_object e \<Longrightarrow> is_plain_object (foldl (\<lambda>a (k, v). js_set a k v) e fs)"
  by (induction fs arbitrary: e) auto

lemma spread_onto_plain [simp]: "is_plain_object e \<Longrightarrow> is_plain_object (spread_onto e extra)"
  by (auto simp: spread_onto_def plain_foldl_set split: jsval.splits)

lemma spread_get: "harmless extra \<Longrightarrow> q \<in> {''index'', ''attempt'', ''outcome'', ''pool''} \<Longrightarrow> js_get (spread_onto e extra) q = js_get e q"
  by (auto simp: spread_onto_def harmless_def list_all_iff intro!: get_foldl_set split: jsval.splits)

lemma settled_entry_simps:
  assumes "harmless extra"
  shows "js_get (settled_entry e run_id o' reason fin extra) ''index'' = js_get e ''index''"
    "js_get (settled_entry e run_id o' reason fin extra) ''attempt'' = js_get e ''attempt''"
    "js_get (settled_entry e run_id o' reason fin extra) ''outcome'' = JStr (plain_text o')"
    "js_get (settled_entry e run_id o' reason fin extra) ''pool'' = pool_value (impl_attempt_pool o')"
  using assms by (simp_all add: settled_entry_def Let_def spread_get impl_attempt_pool_def plain_text_def js_or_def)

lemma settled_entry_plain [simp]: "is_plain_object (settled_entry e run_id o' reason fin extra)"
  by (simp add: settled_entry_def Let_def)

lemma settled_entry_same [simp]:
  assumes "harmless extra"
  shows "index_of (settled_entry e run_id o' reason fin extra) = index_of e"
    "impl_attempt_key (settled_entry e run_id o' reason fin extra) = impl_attempt_key e"
    "sort_number (settled_entry e run_id o' reason fin extra) = sort_number e"
    "is_attempt i key (settled_entry e run_id o' reason fin extra) = is_attempt i key e"
  using assms by (simp_all add: index_of_def impl_attempt_key_def sort_number_def is_attempt_def settled_entry_simps)

definition final_outcome :: "jsval \<Rightarrow> bool" where
  "final_outcome o' \<longleftrightarrow> plain_text o' \<noteq> [] \<and> plain_text o' \<noteq> ''pending''"

lemma settled_entry_settled: "harmless extra \<Longrightarrow> impl_attempt_settled (settled_entry e run_id o' reason fin extra) \<longleftrightarrow> final_outcome o'"
  by (auto simp: impl_attempt_settled_def settled_entry_simps final_outcome_def)

lemma pool_name_inj [simp]: "pool_name p = pool_name q \<longleftrightarrow> p = q"
  by (cases p; cases q) (auto simp: pool_name_def)

lemma settled_entry_charged:
  "harmless extra \<Longrightarrow> final_outcome o' \<Longrightarrow> charged p (settled_entry e run_id o' reason fin extra) \<longleftrightarrow> impl_attempt_pool o' = Some p"
  by (auto simp: charged_def settled_entry_settled settled_entry_simps pool_value_def split: option.splits)

lemma find_index_update_same: "find_index P xs = Some i \<Longrightarrow> P y \<Longrightarrow> find_index P (xs[i := y]) = Some i"
  by (induction xs arbitrary: i) (auto split: if_splits nat.splits)

lemma count_update:
  assumes "i < length xs"
  shows "length (filter P (xs[i := y])) + (if P (xs ! i) then 1 else 0) = length (filter P xs) + (if P y then 1 else (0::nat))"
  using assms
proof (induction xs arbitrary: i)
  case (Cons x xs)
  then show ?case using Cons.IH [of "i - 1"] by (cases i) auto
qed simp

lemma spent_filter: "impl_attempts_spent es p key = int (length (filter (\<lambda>e. is_plain_object e \<and> impl_attempt_key e = max 0 key \<and> charged p e) es))"
  by (auto simp: impl_attempts_spent_def impl_attempts_for_def intro!: arg_cong [where f = length] filter_cong)

lemma spent_plain: "impl_attempts_spent (filter is_plain_object es) p key = impl_attempts_spent es p key"
  by (auto simp: impl_attempts_spent_def impl_attempts_for_def intro!: arg_cong [where f = length] filter_cong)

lemma settle_once:
  assumes "settle_impl_attempt attempts i key run_id outcome reason fin extra = Settled es"
    and "harmless extra" and "final_outcome outcome"
  shows "impl_attempts_spent es p key' = impl_attempts_spent attempts p key'
      + (if max 0 key' = max 0 key \<and> impl_attempt_pool outcome = Some p then 1 else 0)
    \<and> settle_impl_attempt es i key run_id' outcome' reason' fin' extra' = AlreadySettled"
proof -
  let ?L = "filter is_plain_object attempts" and ?new = "\<lambda>e. settled_entry e run_id outcome reason fin extra"
  obtain at where at: "find_index (is_attempt i (max 0 key)) ?L = Some at" and un: "\<not> impl_attempt_settled (?L ! at)"
    and es: "es = ?L[at := ?new (?L ! at)]"
    using assms(1) by (auto simp: settle_impl_attempt_def Let_def split: option.splits if_splits)
  have lt: "at < length ?L" and hit: "is_attempt i (max 0 key) (?L ! at)" using find_index_Some_nth [OF at] by auto
  have plain: "is_plain_object (?L ! at)" using lt nth_mem by fastforce
  have all: "filter is_plain_object es = es"
    unfolding es filter_id_conv using set_update_subset_insert [of ?L at "?new (?L ! at)"] by auto
  have again: "settle_impl_attempt es i key run_id' outcome' reason' fin' extra' = AlreadySettled"
    using find_index_update_same [OF at, of "?new (?L ! at)"] hit lt assms(2,3)
    by (simp add: settle_impl_attempt_def all [unfolded es] es settled_entry_settled)
  have "\<not> charged p (?L ! at)" using un by (simp add: charged_def)
  then have "impl_attempts_spent es p key' = impl_attempts_spent ?L p key'
      + (if max 0 key' = max 0 key \<and> impl_attempt_pool outcome = Some p then 1 else 0)"
    using count_update [OF lt, of "\<lambda>e. is_plain_object e \<and> impl_attempt_key e = max 0 key' \<and> charged p e" "?new (?L ! at)"]
      hit plain assms(2,3)
    by (auto simp: spent_filter es settled_entry_charged is_attempt_def split: if_splits)
  with again show ?thesis by (simp add: spent_plain)
qed

text \<open>
  C29. An attempt is charged exactly once. When \<open>settleImplAttempt\<close> settles a reserved attempt with a
  final outcome, the count of settled charges of each pool grows by one for the pool the outcome names and
  by nothing for the other pool or another pipeline attempt; and settling the same attempt again, with
  whatever outcome, is refused with the ledger as it is, so a resumed worker cannot charge it twice.
\<close>

theorem attempt_is_charged_once:
  assumes "settle_impl_attempt attempts i key run_id outcome reason fin extra = Settled es"
    and "harmless extra" and "final_outcome outcome"
  shows "impl_attempts_spent es p key' = impl_attempts_spent attempts p key'
      + (if max 0 key' = max 0 key \<and> impl_attempt_pool outcome = Some p then 1 else 0)
    \<and> settle_impl_attempt es i key run_id' outcome' reason' fin' extra' = AlreadySettled"
  using settle_once [OF assms] .

subsection \<open>The stage settles within its budget\<close>

lemma insort_key_snoc: "f y \<le> f x \<Longrightarrow> insort_key f y (zs @ [x]) = insort_key f y zs @ [x]"
  by (induction zs) auto

lemma sort_key_snoc: "\<forall>y\<in>set xs. f y \<le> f x \<Longrightarrow> sort_key f (xs @ [x]) = sort_key f xs @ [x]"
  by (induction xs) (auto simp: insort_key_snoc)

lemma sort_ledger_segment: "impl_attempts_for (sort_ledger es) key = sort_key sort_number (impl_attempts_for es key)"
proof -
  let ?P = "\<lambda>e. is_plain_object e \<and> impl_attempt_key e = max 0 key"
  have "map impl_attempt_key (filter ?P xs) = replicate (length (filter ?P xs)) (max 0 key)" for xs
    by (induction xs) auto
  then have "sorted (map impl_attempt_key (filter ?P xs))" for xs by simp
  then have "sort_key impl_attempt_key (filter ?P xs) = filter ?P xs" for xs by (rule sort_key_id_if_sorted)
  from this [of "sort_key sort_number es"] have "filter ?P (sort_ledger es) = filter ?P (sort_key sort_number es)"
    by (simp only: sort_ledger_def filter_sort)
  then show ?thesis by (simp add: impl_attempts_for_def filter_sort)
qed

lemma filter_update_last:
  "filter P xs = ss @ [e] \<Longrightarrow> find_index Q xs = Some at \<Longrightarrow> \<forall>s\<in>set ss. \<not> Q s \<Longrightarrow> (\<And>x. Q x \<Longrightarrow> x \<in> set xs \<Longrightarrow> P x) \<Longrightarrow> P y \<Longrightarrow>
   xs ! at = e \<and> filter P (xs[at := y]) = ss @ [y]"
proof (induction xs arbitrary: ss at)
  case (Cons x xs)
  show ?case
  proof (cases "Q x")
    case True
    then have "P x" "at = 0" using Cons.prems by auto
    with Cons.prems True show ?thesis by (cases ss) auto
  next
    case False
    then obtain a where a: "find_index Q xs = Some a" "at = Suc a" using Cons.prems(2) by auto
    show ?thesis
    proof (cases "P x")
      case True
      have "ss \<noteq> []"
      proof
        assume "ss = []"
        then have "filter P xs = []" using Cons.prems(1) True by simp
        moreover have "xs ! a \<in> set xs" "Q (xs ! a)" using find_index_Some_nth [OF a(1)] by auto
        ultimately show False using Cons.prems(4) [of "xs ! a"] by (auto simp: filter_empty_conv)
      qed
      then obtain ss' where "ss = x # ss'" "filter P xs = ss' @ [e]" using Cons.prems(1) True by (cases ss) auto
      with Cons.IH [of ss' a] Cons.prems a True show ?thesis by auto
    next
      case False
      with Cons.IH [of ss a] Cons.prems a show ?thesis by auto
    qed
  qed
qed simp

text \<open>The ledger between two passes: the segment's last entry is the pending reservation of attempt \<open>idx\<close>, after
  entries of smaller index.\<close>

definition stage_inv :: "int \<Rightarrow> jsval list \<Rightarrow> int \<Rightarrow> bool" where
  "stage_inv key es idx \<longleftrightarrow> 0 \<le> key \<and> 1 \<le> idx \<and> filter is_plain_object es = es \<and>
     (\<exists>ss e. impl_attempts_for es key = ss @ [e] \<and> index_of e = Some idx \<and> \<not> impl_attempt_settled e
        \<and> (\<forall>s\<in>set ss. \<exists>i. index_of s = Some i \<and> i < idx))"

lemma stage_extra_harmless [simp]: "harmless (stage_extra e)"
  by (simp add: harmless_def stage_extra_def)

lemma find_index_exists: "x \<in> set xs \<Longrightarrow> P x \<Longrightarrow> \<exists>i. find_index P xs = Some i"
  using find_index_None [of P xs] by (cases "find_index P xs") auto

lemma settle_last_inv:
  assumes "stage_inv key es idx"
  defines "entry \<equiv> last (impl_attempts_for es key)"
  obtains ss where "impl_attempts_for es key = ss @ [entry]" "index_of entry = Some idx" "\<not> impl_attempt_settled entry"
    "\<forall>s\<in>set ss. \<exists>i. index_of s = Some i \<and> i < idx"
    "settle_impl_attempt es idx key (re_run_id e) (JStr (re_outcome e)) (re_reason e) (re_finished e) (stage_extra e) = Settled (settle_last es key entry e)"
    "filter is_plain_object (settle_last es key entry e) = settle_last es key entry e"
    "impl_attempts_for (settle_last es key entry e) key
       = ss @ [settled_entry entry (re_run_id e) (JStr (re_outcome e)) (re_reason e) (re_finished e) (stage_extra e)]"
proof -
  obtain ss x where seg: "impl_attempts_for es key = ss @ [x]" and x: "index_of x = Some idx" "\<not> impl_attempt_settled x"
    and ss: "\<forall>s\<in>set ss. \<exists>i. index_of s = Some i \<and> i < idx" and key: "0 \<le> key" and plain: "filter is_plain_object es = es"
    using assms(1) by (auto simp: stage_inv_def)
  have en: "entry = x" by (simp add: entry_def seg)
  let ?new = "settled_entry x (re_run_id e) (JStr (re_outcome e)) (re_reason e) (re_finished e) (stage_extra e)"
  have "x \<in> set (impl_attempts_for es key)" by (simp add: seg)
  then have xin: "x \<in> set es" "is_plain_object x" "impl_attempt_key x = key" using key by (auto simp: impl_attempts_for_def)
  obtain at where at: "find_index (is_attempt idx key) es = Some at"
    using find_index_exists [OF xin(1), of "is_attempt idx key"] x xin by (auto simp: is_attempt_def)
  have hit: "es ! at = x \<and> impl_attempts_for (es[at := ?new]) key = ss @ [?new]"
    unfolding impl_attempts_for_def
  proof (rule filter_update_last [OF _ at])
    show "filter (\<lambda>e. is_plain_object e \<and> impl_attempt_key e = max 0 key) es = ss @ [x]" using seg by (simp add: impl_attempts_for_def)
    show "\<forall>s\<in>set ss. \<not> is_attempt idx key s" using ss by (fastforce simp: is_attempt_def)
    fix y assume "is_attempt idx key y" "y \<in> set es"
    then show "is_plain_object y \<and> impl_attempt_key y = max 0 key" using plain key by (auto simp: is_attempt_def filter_id_conv)
  next
    show "is_plain_object ?new \<and> impl_attempt_key ?new = max 0 key" using xin key by simp
  qed
  have settle: "settle_impl_attempt es idx key (re_run_id e) (JStr (re_outcome e)) (re_reason e) (re_finished e) (stage_extra e)
      = Settled (es[at := ?new])"
    using at hit x key by (simp add: settle_impl_attempt_def plain max_def)
  have last: "settle_last es key entry e = es[at := ?new]"
    using settle x en by (simp add: settle_last_def sort_number_def)
  have "filter is_plain_object (es[at := ?new]) = es[at := ?new]"
    using plain set_update_subset_insert [of es at ?new] by (auto simp: filter_id_conv)
  with that [of ss] show thesis using seg x ss settle last hit en by simp
qed

lemma reserve_inv:
  assumes "0 \<le> key" "1 \<le> idx" "filter is_plain_object es = es" "\<forall>s\<in>set (impl_attempts_for es key). \<exists>i. index_of s = Some i \<and> i < idx"
  shows "stage_inv key (reserve_impl_attempt es idx key r t) idx
    \<and> length (impl_attempts_for (reserve_impl_attempt es idx key r t) key) = Suc (length (impl_attempts_for es key))
    \<and> impl_attempts_spent (reserve_impl_attempt es idx key r t) p key = impl_attempts_spent es p key"
proof -
  let ?x = "reservation idx key r t"
  have x: "index_of ?x = Some idx" "impl_attempt_key ?x = key" "\<not> impl_attempt_settled ?x" "is_plain_object ?x"
    using assms(1) by (auto simp: index_of_def reservation_def impl_attempt_key_def impl_attempt_settled_def number_or_def)
  have new: "\<not> list_ex (is_attempt idx key) es"
  proof
    assume "list_ex (is_attempt idx key) es"
    then obtain e where "e \<in> set es" "is_attempt idx key e" by (auto simp: list_ex_iff)
    then have "e \<in> set (impl_attempts_for es key)" "index_of e = Some idx"
      using assms(1,3) by (auto simp: impl_attempts_for_def is_attempt_def filter_id_conv)
    with assms(4) show False by auto
  qed
  have eq: "reserve_impl_attempt es idx key r t = sort_ledger (es @ [?x])"
    using new assms(1-3) by (simp add: reserve_impl_attempt_def Let_def max_def)
  have seg: "impl_attempts_for (reserve_impl_attempt es idx key r t) key = sort_key sort_number (impl_attempts_for es key) @ [?x]"
  proof -
    have "impl_attempts_for (es @ [?x]) key = impl_attempts_for es key @ [?x]" using x assms(1) by (simp add: impl_attempts_for_def)
    moreover have "\<forall>y\<in>set (impl_attempts_for es key). sort_number y \<le> sort_number ?x"
      using assms(4) x(1) by (fastforce simp: sort_number_def)
    ultimately show ?thesis by (simp add: eq sort_ledger_segment sort_key_snoc)
  qed
  have "filter is_plain_object (sort_ledger (es @ [?x])) = sort_ledger (es @ [?x])"
    using assms(3) x by (auto simp: filter_id_conv sort_ledger_def)
  then have "stage_inv key (reserve_impl_attempt es idx key r t) idx"
    unfolding stage_inv_def using assms x seg eq by auto
  moreover have "length (filter P (sort_key f xs)) = length (filter P xs)" for P :: "jsval \<Rightarrow> bool" and f :: "jsval \<Rightarrow> int" and xs
    by (simp add: filter_sort)
  then have "impl_attempts_spent (reserve_impl_attempt es idx key r t) p key = impl_attempts_spent es p key"
    unfolding impl_attempts_spent_def seg using x by (simp add: charged_def)
  ultimately show ?thesis by (simp add: seg)
qed

lemma decision_retries:
  "impl_attempt_decision impl (JStr o') spent r = MRetry p \<Longrightarrow>
   final_outcome (JStr o') \<and> impl_attempt_pool (JStr o') = Some p
   \<and> (p = CodePool \<longrightarrow> spent < execution_pool_cap impl CodePool) \<and> (p = RetryPool \<longrightarrow> r < execution_pool_cap impl RetryPool)"
  by (auto simp: impl_attempt_decision_def final_outcome_def impl_attempt_pool_def execution_pool_headroom_def Let_def
      impl_code_pool_outcomes_def plain_text_def js_or_def max_def split: if_splits)

definition code_left :: "jsval \<Rightarrow> jsval list \<Rightarrow> int \<Rightarrow> int" where
  "code_left impl es key = max 0 (execution_pool_cap impl CodePool - 1 - impl_attempts_spent es CodePool key)"

definition retries_left :: "jsval \<Rightarrow> int \<Rightarrow> int" where
  "retries_left impl r = max 0 (execution_pool_cap impl RetryPool - r)"

lemma run_stage_settles:
  assumes "stage_inv key es idx" and "code_left impl es key + retries_left impl r < int n"
  shows "\<exists>m fs r'. run_stage n impl key ends es r = StageEnds m fs r'
    \<and> int (length (impl_attempts_for fs key)) \<le> int (length (impl_attempts_for es key)) + code_left impl es key + retries_left impl r
    \<and> r' \<le> max r (execution_pool_cap impl RetryPool)"
  using assms
proof (induction n arbitrary: es idx r)
  case 0
  then show ?case by (simp add: code_left_def retries_left_def)
next
  case (Suc n)
  let ?entry = "last (impl_attempts_for es key)"
  let ?fin = "ends idx"
  let ?fs = "settle_last es key ?entry ?fin"
  obtain ss where seg: "impl_attempts_for es key = ss @ [?entry]" and ix: "index_of ?entry = Some idx" and un: "\<not> impl_attempt_settled ?entry"
    and ss: "\<forall>s\<in>set ss. \<exists>i. index_of s = Some i \<and> i < idx"
    and settle: "settle_impl_attempt es idx key (re_run_id ?fin) (JStr (re_outcome ?fin)) (re_reason ?fin) (re_finished ?fin) (stage_extra ?fin) = Settled ?fs"
    and plain: "filter is_plain_object ?fs = ?fs"
    and seg': "impl_attempts_for ?fs key = ss @ [settled_entry ?entry (re_run_id ?fin) (JStr (re_outcome ?fin)) (re_reason ?fin) (re_finished ?fin) (stage_extra ?fin)]"
    using settle_last_inv [OF Suc.prems(1), of ?fin] by metis
  have num: "sort_number ?entry = idx" and ne: "impl_attempts_for es key \<noteq> []" using ix seg by (auto simp: sort_number_def)
  have lens: "length (impl_attempts_for ?fs key) = length (impl_attempts_for es key)" using seg seg' by (metis length_append_singleton)
  have out: "js_get (last (impl_attempts_for ?fs key)) ''outcome'' = JStr (re_outcome ?fin)"
    unfolding seg' by (simp add: settled_entry_simps plain_text_def js_or_def)
  let ?d = "impl_attempt_decision impl (JStr (re_outcome ?fin)) (impl_attempts_spent ?fs CodePool key) r"
  have step: "run_stage (Suc n) impl key ends es r =
      (if re_unfollowable ?fin then StageEnds MEscalated ?fs r
       else case ?d of MRetry p \<Rightarrow> run_stage n impl key ends (reserve_impl_attempt ?fs (idx + 1) key JNull JNull)
              (if p = RetryPool then r + 1 else r) | m \<Rightarrow> StageEnds m ?fs r)"
    using ne un unfolding run_stage.simps Let_def num out by simp
  have left: "0 \<le> code_left impl es key" "0 \<le> retries_left impl r" by (simp_all add: code_left_def retries_left_def)
  show ?case
  proof (cases "re_unfollowable ?fin \<or> (\<forall>p. ?d \<noteq> MRetry p)")
    case True
    then have "\<exists>m. run_stage (Suc n) impl key ends es r = StageEnds m ?fs r"
      unfolding step by (cases "re_unfollowable ?fin"; cases ?d) auto
    then show ?thesis using lens left by auto
  next
    case False
    then obtain p where nu: "\<not> re_unfollowable ?fin" and d: "?d = MRetry p" by auto
    let ?gs = "reserve_impl_attempt ?fs (idx + 1) key JNull JNull" and ?r = "if p = RetryPool then r + 1 else r"
    note ret = decision_retries [OF d]
    have spent: "impl_attempts_spent ?fs CodePool key = impl_attempts_spent es CodePool key + (if p = CodePool then 1 else 0)"
      using settle_once [OF settle stage_extra_harmless, of CodePool key] ret by (simp split: if_splits)
    have key: "0 \<le> key" "1 \<le> idx" using Suc.prems(1) by (auto simp: stage_inv_def)
    have small: "\<forall>s\<in>set (impl_attempts_for ?fs key). \<exists>i. index_of s = Some i \<and> i < idx + 1"
      unfolding seg' using ss ix by force
    note res = reserve_inv [OF key(1) _ plain small, of JNull JNull CodePool]
    have inv: "stage_inv key ?gs (idx + 1)"
      and len: "length (impl_attempts_for ?gs key) = Suc (length (impl_attempts_for ?fs key))"
      and sp: "impl_attempts_spent ?gs CodePool key = impl_attempts_spent ?fs CodePool key" using res key by auto
    have dec: "code_left impl ?gs key + retries_left impl ?r = code_left impl es key + retries_left impl r - 1"
      and cap: "max ?r (execution_pool_cap impl RetryPool) = max r (execution_pool_cap impl RetryPool)"
      using ret spent sp by (cases p; auto simp: code_left_def retries_left_def)+
    have "code_left impl ?gs key + retries_left impl ?r < int n" using dec Suc.prems(2) by simp
    from Suc.IH [OF inv this] obtain m hs r' where ih: "run_stage n impl key ends ?gs ?r = StageEnds m hs r'"
      "int (length (impl_attempts_for hs key)) \<le> int (length (impl_attempts_for ?gs key)) + code_left impl ?gs key + retries_left impl ?r"
      "r' \<le> max ?r (execution_pool_cap impl RetryPool)" by blast
    have "run_stage (Suc n) impl key ends es r = StageEnds m hs r'" unfolding step using nu d ih(1) by simp
    moreover have "int (length (impl_attempts_for hs key)) \<le> int (length (impl_attempts_for es key)) + code_left impl es key + retries_left impl r"
      using ih(2) dec len lens by simp
    ultimately show ?thesis using ih(3) cap by auto
  qed
qed

lemma cap_bounds: "0 \<le> execution_pool_cap impl p \<and> execution_pool_cap impl p \<le> 3"
  by (cases p) (auto simp: execution_pool_cap_def int_or_def split: option.splits)

text \<open>
  C30. The implementation stage always settles. Whatever its implementers do and however its budget is
  written, the loop that starts a segment ends with a move within the eight passes it allows itself, so
  the overrun escalation is unreachable; it dispatches at most \<open>1 + (budget - 1) + retries\<close> attempts (at most six), and never charges the
  shared retry pool past its cap.
\<close>

theorem stage_always_settles:
  assumes "0 \<le> key" and "filter is_plain_object earlier = earlier" and "impl_attempts_for earlier key = []" and "0 \<le> retry_spent"
  shows "\<exists>m es r. run_stage stage_iteration_cap impl key ends (reserve_impl_attempt earlier 1 key run_id started) retry_spent = StageEnds m es r
    \<and> int (length (impl_attempts_for es key)) \<le> 1 + max 0 (execution_pool_cap impl CodePool - 1) + max 0 (execution_pool_cap impl RetryPool - retry_spent)
    \<and> length (impl_attempts_for es key) \<le> 6 \<and> r \<le> max retry_spent (execution_pool_cap impl RetryPool)"
proof -
  let ?es = "reserve_impl_attempt earlier 1 key run_id started"
  have inv: "stage_inv key ?es 1" and len: "length (impl_attempts_for ?es key) = 1"
    and sp: "impl_attempts_spent ?es CodePool key = 0"
    using reserve_inv [OF assms(1) order_refl assms(2), of run_id started CodePool] assms(3) by (auto simp: impl_attempts_spent_def)
  have caps: "code_left impl ?es key \<le> 2" "retries_left impl retry_spent \<le> 3"
    using cap_bounds [of impl CodePool] cap_bounds [of impl RetryPool] sp assms(4) by (auto simp: code_left_def retries_left_def)
  then have "code_left impl ?es key + retries_left impl retry_spent < int stage_iteration_cap" by (simp add: stage_iteration_cap_def)
  from run_stage_settles [OF inv this, of ends] obtain m es r where "run_stage stage_iteration_cap impl key ends ?es retry_spent = StageEnds m es r"
    and l: "int (length (impl_attempts_for es key)) \<le> 1 + code_left impl ?es key + retries_left impl retry_spent"
    and "r \<le> max retry_spent (execution_pool_cap impl RetryPool)" using len by auto
  moreover have "length (impl_attempts_for es key) \<le> 6" using l caps by linarith
  ultimately show ?thesis using sp by (auto simp: code_left_def retries_left_def)
qed

definition demo_budget :: jsval where
  "demo_budget = JObj [(''budget'', JObj [(''attempts'', JNum 2)]), (''retry'', JObj [(''attempts'', JNum 1)])]"

definition ended :: "string \<Rightarrow> run_end" where
  "ended o' = \<lparr>re_run_id = JStr ''r1'', re_outcome = o', re_reason = JNull, re_finished = JNull, re_dirty = False, re_handoff = JNull,
     re_unfollowable = False\<rparr>"

text \<open>An outage, a failure, then a candidate: three attempts, one retry charged.\<close>

definition demo_ends :: "int \<Rightarrow> run_end" where
  "demo_ends i = ended (if i = 1 then ''infrastructure'' else if i = 2 then ''failed'' else ''candidate'')"

theorem attempt_is_charged_once_witness:
  "case settle_impl_attempt (reserve_impl_attempt [] 1 0 JNull JNull) 1 0 JNull (JStr ''failed'') JNull JNull JNull of
     Settled es \<Rightarrow> impl_attempts_spent es CodePool 0 = 1 \<and>
       settle_impl_attempt es 1 0 JNull (JStr ''infrastructure'') JNull JNull JNull = AlreadySettled
   | _ \<Rightarrow> False"
proof -
  obtain es where es: "settle_impl_attempt (reserve_impl_attempt [] 1 0 JNull JNull) 1 0 JNull (JStr ''failed'') JNull JNull JNull = Settled es"
    by (cases "settle_impl_attempt (reserve_impl_attempt [] 1 0 JNull JNull) 1 0 JNull (JStr ''failed'') JNull JNull JNull")
      (simp_all add: settle_impl_attempt_def reserve_impl_attempt_def reservation_def sort_ledger_def is_attempt_def index_of_def
        impl_attempt_key_def number_or_def impl_attempt_settled_def)
  have "impl_attempts_spent (reserve_impl_attempt [] 1 0 JNull JNull) CodePool 0 = 0" by code_simp
  moreover have "harmless JNull" "final_outcome (JStr ''failed'')" "impl_attempt_pool (JStr ''failed'') = Some CodePool" by code_simp+
  ultimately show ?thesis
    using attempt_is_charged_once [OF es, of CodePool 0 JNull "JStr ''infrastructure''" JNull JNull JNull] by (simp add: es)
qed

theorem stage_always_settles_witness:
  "\<exists>m es r. run_stage stage_iteration_cap demo_budget 0 demo_ends (reserve_impl_attempt [] 1 0 JNull JNull) 0 = StageEnds m es r
     \<and> length (impl_attempts_for es 0) \<le> 6"
proof -
  have "filter is_plain_object [] = []" "impl_attempts_for [] 0 = []" by (simp_all add: impl_attempts_for_def)
  from stage_always_settles [OF _ this, of 0 demo_budget demo_ends JNull JNull] show ?thesis by auto
qed

lemma demo_stage:
  "case run_stage stage_iteration_cap demo_budget 0 demo_ends (reserve_impl_attempt [] 1 0 JNull JNull) 0 of
     StageEnds m es r \<Rightarrow> m = MCandidate \<and> length es = 3 \<and> r = 1 | StageOverran \<Rightarrow> False"
  by code_simp

end
