(* ===== verification/ImplementationStage.thy ===== *)
theory ImplementationStage
  imports WorkflowRelations GateAttempts
begin

text \<open>
  The implementation stage as the workflow function it is, \<^verbatim>\<open>src/lib/shell/implementation-workflow.js\<close>:
  every call on the kernel's context is a constructor of \<open>wf\<close>, in the order the code makes them, with the code
  after an \<open>await\<close> as the call's continuation. The pass is guarded by \<open>guardedKernel\<close>
  (\<^verbatim>\<open>src/lib/shell/stage-workflow.js\<close>), the closing \<open>settled\<close> entry is not.

  The ledger functions and the classifier are those of \<open>GateAttempts\<close>. The digest of the factory definition is a
  parameter. Log lines are left out. Ledger entries are objects with a numeric index, as every writer makes
  them. The loop of a stop, which ends by suspending, is cut by a fuel; \<open>ImplementationProps\<close> shows that any
  fuel above the length of the journal runs alike. The dash of the sentences is the character \<open>0x97\<close>.
\<close>

subsection \<open>Texts and small readings\<close>

definition dash :: string where
  "dash = '' '' @ [CHR 0x97] @ '' ''"

definition pad :: "nat \<Rightarrow> int \<Rightarrow> string" where
  "pad k n = (let s = nat_string (nat n) in replicate (k - length s) (CHR ''0'') @ s)"

text \<open>\<open>new Date(ms).toISOString()\<close>.\<close>

definition civil_from_days :: "int \<Rightarrow> int \<times> int \<times> int" where
  "civil_from_days n =
     (let z = n + 719468; era = z div 146097; doe = z - era * 146097;
          yoe = (doe - doe div 1460 + doe div 36524 - doe div 146096) div 365;
          doy = doe - (365 * yoe + yoe div 4 - yoe div 100);
          mp = (5 * doy + 2) div 153;
          d = doy - (153 * mp + 2) div 5 + 1;
          m = (if mp < 10 then mp + 3 else mp - 9)
      in (yoe + era * 400 + (if m \<le> 2 then 1 else 0), m, d))"

definition iso_year :: "int \<Rightarrow> string" where
  "iso_year y = (if 0 \<le> y \<and> y \<le> 9999 then pad 4 y else (if y < 0 then ''-'' else ''+'') @ pad 6 (abs y))"

definition iso_string :: "int \<Rightarrow> string" where
  "iso_string ms =
     (let (y, m, d) = civil_from_days (ms div 86400000); t = ms mod 86400000 in
      iso_year y @ ''-'' @ pad 2 m @ ''-'' @ pad 2 d @ ''T'' @ pad 2 (t div 3600000) @ '':''
      @ pad 2 (t div 60000 mod 60) @ '':'' @ pad 2 (t div 1000 mod 60) @ ''.'' @ pad 3 (t mod 1000) @ ''Z'')"

definition is_alnum :: "char \<Rightarrow> bool" where
  "is_alnum c = (let n = (of_char c :: nat) in 48 \<le> n \<and> n \<le> 57 \<or> 65 \<le> n \<and> n \<le> 90 \<or> 97 \<le> n \<and> n \<le> 122)"

definition short_run :: "string \<Rightarrow> string" where
  "short_run run = (let s = map lower_char (take 8 (filter is_alnum run)) in if s = [] then ''unknown'' else s)"

definition short_run_attempt :: "string \<Rightarrow> int \<Rightarrow> string" where
  "short_run_attempt run n = short_run run @ (if n > 1 then ''-r'' @ int_string n else [])"

definition impl_run_name :: "string \<Rightarrow> int \<Rightarrow> int \<Rightarrow> string" where
  "impl_run_name run n idx = ''impl-'' @ short_run_attempt run n @ ''-'' @ int_string idx"

definition stage_iteration_cap_text :: string where
  "stage_iteration_cap_text = nat_string stage_iteration_cap"

definition stop_reason_cap :: nat where
  "stop_reason_cap = 3000"

definition yield_ms :: int where
  "yield_ms = 1000"

definition cap_reason :: "jsval \<Rightarrow> string" where
  "cap_reason r = take stop_reason_cap (plain_text r)"

definition record_view_fields :: "string list" where
  "record_view_fields =
     [''run_id'', ''node_id'', ''state'', ''terminal_state'', ''termination_class'', ''termination_signal'',
      ''termination_reason'', ''termination_reset_hint'', ''termination_utc_offset_min'', ''terminal_unreachable'',
      ''terminal_enforced'', ''terminal_note'', ''declined_reason'', ''started_at'', ''finished_at'', ''report_path'',
      ''impl_state'', ''impl_attempt'', ''impl_stop_reason'']"

definition record_view :: "jsval \<Rightarrow> jsval" where
  "record_view r = (if \<not> is_plain_object r then JNull
     else JObj (map (\<lambda>k. (k, js_get r k)) (filter (\<lambda>k. js_get r k \<noteq> JUndef) record_view_fields)))"

text \<open>\<open>depsShape\<close>: \<open>wired k\<close> is \<open>typeof deps[k] === "function"\<close>, \<open>composed\<close> the tag of \<open>deps.implement\<close>.\<close>

definition deps_shape :: "(string \<Rightarrow> bool) \<Rightarrow> bool \<Rightarrow> jsval" where
  "deps_shape wired composed = JObj
     (map (\<lambda>k. (k, JBool (wired k))) [''loadGatePools'', ''saveGatePools'', ''commitsLanded'', ''noCodeClaim'', ''escalateStage'']
      @ [(''implementSignals'', JBool (wired ''dispatchImplement'' \<and> wired ''awaitRun''
            \<and> (\<not> wired ''implement'' \<or> composed)))])"

text \<open>The reason \<open>classifyExecutionOutcome\<close> gives beside its outcome, and the classification whole.\<close>

definition outcome_word :: "exec_outcome \<Rightarrow> string" where
  "outcome_word o' = (case o' of OCompleted \<Rightarrow> ''completed'' | OFailed \<Rightarrow> ''failed''
     | OInfrastructure \<Rightarrow> ''infrastructure'' | OCancelled \<Rightarrow> ''cancelled'' | ODeclined \<Rightarrow> ''declined''
     | OUnroutable \<Rightarrow> ''unroutable'')"

definition outage_text :: "jsval \<Rightarrow> string" where
  "outage_text r = (let signal = plain_text (js_get r ''termination_signal'') in
     if plain_text (js_get r ''termination_class'') = ''environment''
     then ''the harness ended on an environment failure ('' @ (if signal = [] then ''environment'' else signal) @ '')''
     else if plain_text (js_get r ''state'') = ''failed_launch''
     then ''the harness process died at boot ('' @ (if signal = [] then ''launch-failed'' else signal) @ '')''
     else if signal = ''supervisor-gone'' then ''the run's supervisor vanished while it was running''
     else ''the terminal contract could not reach the graph to verify the run'')"

definition failure_text :: "jsval \<Rightarrow> string" where
  "failure_text r = (let cls = plain_text (js_get r ''termination_class''); signal = js_get r ''termination_signal'' in
     if truthy (js_get r ''termination_reason'') then take 300 (js_string (js_get r ''termination_reason''))
     else ''the run ended '' @ js_string (js_or (js_get r ''state'') (JStr ''failed''))
       @ (if cls = [] then []
          else '' ('' @ cls @ (if truthy signal then ''/'' @ js_string signal else []) @ '')''))"

definition classify_reason :: "jsval \<Rightarrow> jsval \<Rightarrow> string" where
  "classify_reason r refusal = (case classify_execution_outcome r refusal of
       OUnroutable \<Rightarrow> refusal_text refusal
     | ODeclined \<Rightarrow> take 300 (js_string (js_or (js_get r ''declined_reason'') (JStr ''the run declined the item'')))
     | OInfrastructure \<Rightarrow> outage_text r
     | OCancelled \<Rightarrow> ''the run was stopped for silence (''
         @ js_string (js_or (js_get r ''termination_signal'') (JStr ''idle-timeout'')) @ '')''
     | OCompleted \<Rightarrow> ''the run ended its turn cleanly'' @ dash @ ''its outcome is what it produced''
     | OFailed \<Rightarrow> (if is_plain_object r then failure_text r
         else ''the dispatch left no run record and named no refusal''))"

definition classification_value :: "jsval \<Rightarrow> jsval \<Rightarrow> jsval" where
  "classification_value r refusal = (let o' = classify_execution_outcome r refusal in
     JObj [(''outcome'', JStr (outcome_word o')), (''pool'', pool_value (outcome_pool o')),
           (''reason'', JStr (classify_reason r refusal))])"

text \<open>\<open>verifyStalePremise(...).ok\<close>; the check's \<open>checked\<close> is a list.\<close>

definition stale_premise_ok :: "jsval \<Rightarrow> bool" where
  "stale_premise_ok c \<longleftrightarrow> truthy (js_get c ''known'')
     \<and> (case js_get c ''checked'' of JArr vs \<Rightarrow> vs \<noteq> [] | _ \<Rightarrow> False) \<and> truthy (js_get c ''landed'')"

definition settled_impl_states :: "string list" where
  "settled_impl_states = [''candidate'', ''declined'', ''exhausted'', ''escalated'', ''unroutable'', ''mismatch'']"

definition impl_settled :: "jsval \<Rightarrow> bool" where
  "impl_settled st \<longleftrightarrow> truthy st \<and> js_string st \<in> set settled_impl_states"

subsection \<open>The stage's context\<close>

text \<open>What a pass works on: the item, the journaled input it opened under, and the guard's two digests.\<close>

record impl_stage =
  is_node :: string
  is_run :: string
  is_item_attempt :: jsval
  is_impl :: jsval
  is_has :: jsval
  is_trusted :: jsval
  is_journaled :: jsval
  is_live :: jsval
  is_fuel :: nat

text \<open>The variables of the pass: \<open>attempts\<close>, \<open>current\<close>, \<open>key\<close> and \<open>pools.retry.spent\<close>.\<close>

record stage_vars =
  sv_attempts :: "jsval list"
  sv_current :: jsval
  sv_key :: int
  sv_spent :: int

definition stage_key :: "impl_stage \<Rightarrow> string list \<Rightarrow> string" where
  "stage_key S parts = join ''/'' (is_run S # ''implementation'' # parts)"

definition has_dep :: "impl_stage \<Rightarrow> string \<Rightarrow> bool" where
  "has_dep S k \<longleftrightarrow> truthy (js_get (is_has S) k)"

definition code_cap :: "impl_stage \<Rightarrow> int" where
  "code_cap S = execution_pool_cap (is_impl S) CodePool"

definition retry_cap :: "impl_stage \<Rightarrow> int" where
  "retry_cap S = execution_pool_cap (is_impl S) RetryPool"

definition mine :: "stage_vars \<Rightarrow> jsval list" where
  "mine v = impl_attempts_for (sv_attempts v) (sv_key v)"

definition mine_value :: "stage_vars \<Rightarrow> jsval" where
  "mine_value v = JArr (mine v)"

definition last_of :: "jsval list \<Rightarrow> jsval" where
  "last_of es = (if es = [] then JNull else last es)"

definition seg :: "stage_vars \<Rightarrow> string" where
  "seg v = ''a'' @ int_string (sv_key v)"

definition site :: "int \<Rightarrow> string" where
  "site idx = ''i'' @ int_string idx"

text \<open>\<open>attempts.map((e) => (e === last ? f(e) : e))\<close> with \<open>last\<close> the last entry of the segment.\<close>

fun map_last :: "('a \<Rightarrow> bool) \<Rightarrow> ('a \<Rightarrow> 'a) \<Rightarrow> 'a list \<Rightarrow> 'a list" where
  "map_last P f [] = []"
| "map_last P f (x # xs) = (if P x \<and> \<not> list_ex P xs then f x # xs else x # map_last P f xs)"

definition of_segment :: "stage_vars \<Rightarrow> jsval \<Rightarrow> bool" where
  "of_segment v e \<longleftrightarrow> is_plain_object e \<and> impl_attempt_key e = max 0 (sv_key v)"

definition optional :: "bool \<Rightarrow> string \<Rightarrow> jsval \<Rightarrow> (string \<times> jsval) list" where
  "optional b k v = (if b then [(k, v)] else [])"

subsection \<open>Calls on the guarded context\<close>

text \<open>\<open>guardedKernel\<close>: a step that would execute, under another definition than the journaled one, throws.\<close>

definition guarded :: "impl_stage \<Rightarrow> wf \<Rightarrow> wf" where
  "guarded S w = IsReplaying (\<lambda>replaying.
     if \<not> replaying \<and> is_journaled S \<noteq> is_live S
     then Throw (XNonDeterminism (DefinitionMismatch (is_run S) (is_journaled S) (is_live S)))
     else w)"

definition rethrow :: "('a \<Rightarrow> wf) \<Rightarrow> exn + 'a \<Rightarrow> wf" where
  "rethrow k r = (case r of Inl x \<Rightarrow> Throw x | Inr v \<Rightarrow> k v)"

definition call_at :: "impl_stage \<Rightarrow> string \<Rightarrow> string \<Rightarrow> jsval \<Rightarrow> (jsval \<Rightarrow> wf) \<Rightarrow> wf" where
  "call_at S key name args k = guarded S (Run key name args (rethrow k))"

definition now_at :: "impl_stage \<Rightarrow> string \<Rightarrow> (int \<Rightarrow> wf) \<Rightarrow> wf" where
  "now_at S key k = guarded S (Now key (rethrow k))"

definition sleep_at :: "impl_stage \<Rightarrow> string \<Rightarrow> int \<Rightarrow> jsval \<Rightarrow> wf \<Rightarrow> wf" where
  "sleep_at S key at meta k = guarded S (SleepUntil key at meta (rethrow (\<lambda>_. k)))"

definition yield_at :: "impl_stage \<Rightarrow> string \<Rightarrow> int \<Rightarrow> jsval \<Rightarrow> wf \<Rightarrow> wf" where
  "yield_at S key at meta k = guarded S (YieldUntil key at meta (rethrow (\<lambda>_. k)))"

definition await_at :: "impl_stage \<Rightarrow> string \<Rightarrow> string \<Rightarrow> (await_outcome \<Rightarrow> wf) \<Rightarrow> wf" where
  "await_at S key name k = guarded S (AwaitSignal key name None JUndef (rethrow k))"

text \<open>\<open>${(e && e.message) || e}\<close> of what a call threw.\<close>

fun error_text :: "exn \<Rightarrow> string" where
  "error_text (XActivity f) = (if f_message f \<noteq> [] then f_message f else f_name f)"
| "error_text (XNoActivity name) = ''no activity '' @ name"
| "error_text _ = []"

text \<open>A live loss of the pipeline's lease is not the activity's failure; a replayed one is.\<close>

fun live_owner_loss :: "exn \<Rightarrow> bool" where
  "live_owner_loss (XActivity f) = (f_code f = JStr ''PIPELINE_OWNER_LOST'' \<and> \<not> f_replayed f)"
| "live_owner_loss _ = False"

definition caught :: "(string + jsval \<Rightarrow> wf) \<Rightarrow> exn + jsval \<Rightarrow> wf" where
  "caught k r = (case r of
       Inr v \<Rightarrow> k (Inr v)
     | Inl x \<Rightarrow> if is_control_flow x \<or> live_owner_loss x then Throw x else k (Inl (error_text x)))"

definition act :: "impl_stage \<Rightarrow> string \<Rightarrow> string \<Rightarrow> jsval \<Rightarrow> (string + jsval \<Rightarrow> wf) \<Rightarrow> wf" where
  "act S key name args k = guarded S (Run key name args (caught k))"

subsection \<open>Stamps, stops and escalations\<close>

definition entry_copy :: "jsval \<Rightarrow> jsval" where
  "entry_copy e = (if is_plain_object e then e else JObj [])"

definition ledger_copy :: "jsval list \<Rightarrow> jsval" where
  "ledger_copy es = JArr (map entry_copy es)"

text \<open>\<open>save\<close>: the continuation gets the failure's message, if any.\<close>

definition failed_message :: "string + jsval \<Rightarrow> string option" where
  "failed_message r = (case r of Inl m \<Rightarrow> Some m | Inr _ \<Rightarrow> None)"

definition save :: "impl_stage \<Rightarrow> string \<Rightarrow> stage_vars \<Rightarrow> jsval \<Rightarrow> (string option \<Rightarrow> wf) \<Rightarrow> wf" where
  "save S key v patch k = act S key ''saveImplAttempts''
     (JObj [(''attempts'', ledger_copy (sv_attempts v)), (''patch'', patch)]) (\<lambda>r. k (failed_message r))"

definition running_patch :: "int \<Rightarrow> jsval" where
  "running_patch idx = JObj [(''impl_attempt'', JNum idx), (''impl_state'', JStr ''running'')]"

text \<open>\<open>spentReason(state)\<close>.\<close>

definition spent_reason :: "impl_stage \<Rightarrow> stage_vars \<Rightarrow> string \<Rightarrow> string" where
  "spent_reason S v state =
     (let last = last_of (mine v); why = js_string (js_or (js_get last ''reason'') (JStr ''no reason recorded'')) in
      if state = ''escalated''
      then (if retry_cap S \<le> 0
            then ''this factory declares no infrastructure retry pool (`implementation.retry.attempts`), so the outage was not waited out''
            else ''the pipeline's shared infrastructure retry pool is spent ('' @ int_string (sv_spent v) @ ''/''
              @ int_string (retry_cap S) @ '') and the last attempt ended on an outage: '' @ why)
      else ''the implementation budget is spent ('' @ int_string (impl_attempts_spent (sv_attempts v) CodePool (sv_key v))
        @ ''/'' @ int_string (code_cap S) @ '' attempts) without a candidate; the last attempt ''
        @ js_string (js_or (js_get last ''outcome'') (JStr ''ended'')) @ '': '' @ why)"

text \<open>\<open>escalate\<close>: the continuation gets the fields it spreads into the result.\<close>

definition escalation_fields :: "jsval \<Rightarrow> string + jsval \<Rightarrow> (string \<times> jsval) list" where
  "escalation_fields again r = (case r of
       Inr v \<Rightarrow> if truthy (js_get v ''ok'') \<and> truthy (js_get v ''id'') then [(''escalated_to'', js_get v ''id'')]
               else [(''escalated_to'', JNull), (''escalation_failed'', JBool True), (''escalation_retry'', again)]
     | Inl _ \<Rightarrow> [(''escalated_to'', JNull), (''escalation_failed'', JBool True), (''escalation_retry'', again)])"

definition escalate :: "impl_stage \<Rightarrow> string \<Rightarrow> stage_vars \<Rightarrow> jsval \<Rightarrow> ((string \<times> jsval) list \<Rightarrow> wf) \<Rightarrow> wf" where
  "escalate S state v reason k =
     (let again = JObj [(''stage'', JStr ''implementation''), (''state'', JStr state), (''attempt'', is_item_attempt S),
            (''attempts'', ledger_copy (mine v)), (''reason'', JStr (cap_reason reason))]
      in if \<not> has_dep S ''escalateStage'' then k (escalation_fields again (Inl []))
         else act S (stage_key S [''escalate'', state]) ''escalateStage''
                (JObj [(''state'', JStr state), (''attempts'', js_get again ''attempts''), (''reason'', js_get again ''reason'')])
                (\<lambda>r. k (escalation_fields again r)))"

definition stage_result :: "string \<Rightarrow> stage_vars \<Rightarrow> jsval \<Rightarrow> (string \<times> jsval) list \<Rightarrow> jsval" where
  "stage_result state v reason extra =
     JObj ([(''state'', JStr state), (''attempts'', mine_value v), (''reason'', reason)] @ extra)"

text \<open>\<open>stop\<close>: the reason rides the segment's last entry, or the record where the segment is empty.\<close>

definition stop :: "impl_stage \<Rightarrow> string \<Rightarrow> stage_vars \<Rightarrow> jsval \<Rightarrow> (jsval \<Rightarrow> wf) \<Rightarrow> wf" where
  "stop S state v raw k =
     (let reason = JStr (cap_reason raw); empty = mine v = [];
          v1 = v\<lparr>sv_attempts := map_last (of_segment v) (\<lambda>e. js_set e ''stop_reason'' reason) (sv_attempts v)\<rparr>
      in save S (stage_key S [''stop'', state]) v1
           (JObj ((''impl_state'', JStr state) # optional empty ''impl_stop_reason'' reason))
           (\<lambda>_. escalate S state v1 reason (\<lambda>esc. k (stage_result state v1 reason esc))))"

text \<open>\<open>pauseIfStopping\<close>: ask, hand the interrupted result up, suspend, ask again.\<close>

primrec pause :: "nat \<Rightarrow> impl_stage \<Rightarrow> string list \<Rightarrow> jsval \<Rightarrow> jsval \<Rightarrow> nat \<Rightarrow> wf \<Rightarrow> wf" where
  "pause 0 S at mine' reason n k = Throw (XCrash ''out of fuel'')"
| "pause (Suc fuel) S at mine' reason n k =
     call_at S (stage_key S (at @ [''stop'', nat_string n])) ''stopping'' (JObj []) (\<lambda>s.
       if \<not> truthy (js_get s ''stopping'') then k
       else call_at S (stage_key S (at @ [''yield'', nat_string n])) ''yield''
              (JObj [(''state'', JStr ''interrupted''), (''attempts'', mine'), (''reason'', reason)]) (\<lambda>parked.
            now_at S (stage_key S (at @ [''pause'', nat_string n])) (\<lambda>t.
            yield_at S (stage_key S (at @ [''sleep'', nat_string n])) (t + yield_ms)
              (JObj [(''parked'', parked), (''mode'', JStr ''stop'')])
              (pause fuel S at mine' reason (Suc n) k))))"

definition pause_if_stopping :: "impl_stage \<Rightarrow> string list \<Rightarrow> stage_vars \<Rightarrow> string \<Rightarrow> wf \<Rightarrow> wf" where
  "pause_if_stopping S at v reason k = pause (is_fuel S) S at (mine_value v) (JStr reason) 0 k"

text \<open>\<open>chargeRetry(nextIndex)\<close>: the reason the charge may not be taken, or the new pool count.\<close>

definition charge_retry :: "impl_stage \<Rightarrow> stage_vars \<Rightarrow> int \<Rightarrow> (string + int \<Rightarrow> wf) \<Rightarrow> wf" where
  "charge_retry S v next k =
     (if retry_cap S \<le> 0 \<or> \<not> has_dep S ''saveGatePools''
      then k (Inl ''this factory declares no infrastructure retry pool (`implementation.retry.attempts`), so the outage was not waited out'')
      else if execution_pool_headroom (is_impl S) RetryPool (sv_spent v) \<le> 0
      then k (Inl (''the pipeline's shared infrastructure retry pool is spent ('' @ int_string (sv_spent v) @ ''/''
             @ int_string (retry_cap S) @ '')''))
      else pause_if_stopping S [seg v, site next, ''charge''] v
             (''the worker was asked to stop before the retry was taken'' @ dash @ ''the pool still has headroom'')
             (act S (stage_key S [seg v, site next, ''charge'']) ''saveGatePools''
                (JObj [(''pools'', JObj [(''retry'', JObj [(''spent'', JNum (sv_spent v + 1))])])]) (\<lambda>r.
                case r of
                  Inl _ \<Rightarrow> k (Inl ''the retry could not be charged durably, and an uncounted retry is an unbounded one'')
                | Inr _ \<Rightarrow> k (Inr (sv_spent v + 1)))))"

subsection \<open>What a clean run produced\<close>

record product =
  pr_outcome :: string
  pr_reason :: jsval
  pr_handoff :: "string option"
  pr_dirty :: bool

definition handoff_to_gates :: "string \<Rightarrow> product" where
  "handoff_to_gates h = \<lparr>pr_outcome = ''candidate'', pr_reason = JUndef, pr_handoff = Some h, pr_dirty = False\<rparr>"

definition plain_product :: "string \<Rightarrow> jsval \<Rightarrow> bool \<Rightarrow> product" where
  "plain_product out reason dirty = \<lparr>pr_outcome = out, pr_reason = reason, pr_handoff = None, pr_dirty = dirty\<rparr>"

text \<open>The reading of a tree that could not be read as clean.\<close>

definition judge_unread :: "impl_stage \<Rightarrow> jsval \<Rightarrow> product" where
  "judge_unread S r =
     (let reason = js_or (js_get r ''reason'') (JStr ''the change under judgement could not be read'') in
      if truthy (js_get r ''dirty'')
      then (if js_get (js_get (is_impl S) ''candidate'') ''requireClean'' = JBool False
            then handoff_to_gates (''the tree is dirty and the factory tolerates it (require_clean: false)'' @ dash
              @ ''the pipeline's commit-or-discard round-trip judges it'')
            else plain_product ''failed'' reason True)
      else if truthy (js_get r ''gone'')
      then handoff_to_gates (js_string reason @ dash @ ''the pipeline's superseded check reads it'')
      else handoff_to_gates (js_string reason @ dash @ ''the gates fail closed on it''))"

definition judge_claim :: "impl_stage \<Rightarrow> (string list \<Rightarrow> string) \<Rightarrow> jsval \<Rightarrow> (product \<Rightarrow> wf) \<Rightarrow> wf" where
  "judge_claim S A rec k =
     (let none = plain_product ''no-candidate'' (JStr (''the run ended cleanly but committed nothing past ''
            @ js_string (is_trusted S) @ '' in its checkout'')) False
      in if \<not> has_dep S ''noCodeClaim'' then k none
         else act S (A [''claim'']) ''noCodeClaim'' (JObj [(''record'', rec)]) (\<lambda>r.
           case r of
             Inr c \<Rightarrow> if truthy c
               then k (handoff_to_gates (''the run declared a no-code outcome'' @ dash
                 @ ''the pipeline verifies the claim against the graph''))
               else k none
           | Inl _ \<Rightarrow> k none))"

definition judge_empty :: "impl_stage \<Rightarrow> (string list \<Rightarrow> string) \<Rightarrow> jsval \<Rightarrow> (product \<Rightarrow> wf) \<Rightarrow> wf" where
  "judge_empty S A rec k =
     (if \<not> has_dep S ''commitsLanded'' then judge_claim S A rec k
      else act S (A [''landed'']) ''commitsLanded'' (JObj [(''trustedRef'', is_trusted S)]) (\<lambda>r.
        case r of
          Inr c \<Rightarrow> if stale_premise_ok c
            then k (handoff_to_gates (''the item's recorded commits already land on '' @ js_string (is_trusted S) @ dash
              @ ''the pipeline's stale-premise route settles it''))
            else judge_claim S A rec k
        | Inl _ \<Rightarrow> judge_claim S A rec k))"

definition changed_list :: "jsval \<Rightarrow> jsval list" where
  "changed_list r = (case js_get r ''paths'' of JArr vs \<Rightarrow> vs | _ \<Rightarrow> [])"

definition judge_product :: "impl_stage \<Rightarrow> (string list \<Rightarrow> string) \<Rightarrow> jsval \<Rightarrow> (product \<Rightarrow> wf) \<Rightarrow> wf" where
  "judge_product S A rec k =
     act S (A [''tree'']) ''changedPaths'' (JObj [(''trustedRef'', is_trusted S)]) (\<lambda>read.
       let r = (case read of Inr v \<Rightarrow> v
                | Inl m \<Rightarrow> JObj [(''ok'', JBool False), (''reason'', JStr (''the change under judgement could not be read: '' @ m))])
       in if \<not> truthy (js_get r ''ok'') then k (judge_unread S r)
          else if changed_list r = [] then judge_empty S A rec k
          else k (plain_product ''candidate'' (JStr (nat_string (length (changed_list r)) @ '' path(s) changed past ''
                 @ js_string (is_trusted S) @ '' at '' @ take 12 (plain_text (js_get r ''head'')))) False))"

subsection \<open>Launching an attempt\<close>

definition launch_name :: "impl_stage \<Rightarrow> stage_vars \<Rightarrow> int \<Rightarrow> string" where
  "launch_name S v idx = impl_run_name (is_run S) (sv_key v) idx"

definition prior_row :: "jsval \<Rightarrow> jsval" where
  "prior_row e = JObj [(''index'', js_get e ''index''), (''run_id'', js_get e ''run_id''),
     (''outcome'', js_get e ''outcome''), (''reason'', js_or (js_get e ''reason'') JNull)]"

definition prior_attempts :: "stage_vars \<Rightarrow> int \<Rightarrow> jsval list" where
  "prior_attempts v idx = filter (\<lambda>e. case index_of e of Some i \<Rightarrow> i < idx | None \<Rightarrow> False) (mine v)"

definition launch_args :: "impl_stage \<Rightarrow> stage_vars \<Rightarrow> int \<Rightarrow> (string \<times> jsval) list" where
  "launch_args S v idx = (let prior = prior_attempts v idx in
     [(''attempt'', JNum idx), (''of'', JNum (code_cap S)), (''name'', JStr (launch_name S v idx)),
      (''prior'', JArr (map prior_row prior)),
      (''dirty'', JBool (prior \<noteq> [] \<and> truthy (js_get (last prior) ''dirty'')))])"

definition stamp_launch :: "stage_vars \<Rightarrow> int \<Rightarrow> jsval \<Rightarrow> string \<Rightarrow> stage_vars" where
  "stamp_launch v idx run started = v\<lparr>sv_attempts := map (\<lambda>e.
     if is_attempt idx (sv_key v) e
     then js_set (js_set e ''run_id'' (js_or run (js_get e ''run_id''))) ''started_at''
            (js_or (js_get e ''started_at'') (JStr started))
     else e) (sv_attempts v)\<rparr>"

definition launched_of :: "string + jsval \<Rightarrow> jsval" where
  "launched_of r = (case r of Inr v \<Rightarrow> v
     | Inl m \<Rightarrow> JObj [(''ok'', JBool False), (''reason'', JStr (''the implementer could not be dispatched: '' @ m))])"

text \<open>What the signal of the run's end makes of the launch.\<close>

definition ended_launch :: "jsval \<Rightarrow> jsval \<Rightarrow> jsval" where
  "ended_launch launched p = JObj
     ([(''ok'', JBool True), (''runId'', js_get launched ''runId''),
       (''adopted'', JBool (truthy (js_get launched ''adopted''))), (''record'', js_or (js_get p ''record'') JNull)]
      @ (if \<not> truthy (js_get p ''ok'') \<or> truthy (js_get p ''unfollowable'')
         then [(''unfollowable'', JBool True), (''reason'', js_or (js_get p ''reason'') JNull)] else [])
      @ optional (truthy (js_get p ''classification'')) ''classification'' (js_get p ''classification''))"

definition was_launched :: "jsval \<Rightarrow> bool" where
  "was_launched l \<longleftrightarrow> truthy (js_get l ''ok'') \<and> truthy (js_get l ''runId'')"

text \<open>The launch half and the signal, then the one-shot launcher; both go on with the launch and the stamped
  ledger.\<close>

definition launch_signalled ::
  "impl_stage \<Rightarrow> (string list \<Rightarrow> string) \<Rightarrow> stage_vars \<Rightarrow> int \<Rightarrow> string \<Rightarrow> (jsval \<Rightarrow> stage_vars \<Rightarrow> wf) \<Rightarrow> wf" where
  "launch_signalled S A v idx started k =
     act S (A [''dispatch'']) ''dispatchImplement'' (JObj (launch_args S v idx)) (\<lambda>d.
       let l = launched_of d in
       if \<not> was_launched l then k l v
       else let v1 = stamp_launch v idx (js_get l ''runId'') started in
         save S (A [''launched'']) v1 (running_patch idx) (\<lambda>_.
           await_at S (A [''ended'']) (''run:'' @ js_string (js_get l ''runId'')) (\<lambda>e. k (ended_launch l (payload e)) v1)))"

definition launch_one_shot ::
  "impl_stage \<Rightarrow> (string list \<Rightarrow> string) \<Rightarrow> stage_vars \<Rightarrow> int \<Rightarrow> string \<Rightarrow> (jsval \<Rightarrow> stage_vars \<Rightarrow> wf) \<Rightarrow> wf" where
  "launch_one_shot S A v idx started k =
     act S (A [''implement'']) ''implement''
       (JObj (launch_args S v idx @ [(''attempts'', ledger_copy (sv_attempts v)),
          (''reservation'', JObj [(''index'', JNum idx), (''attempt'', JNum (sv_key v))]),
          (''startedAt'', JStr started), (''patch'', running_patch idx)])) (\<lambda>d.
       let l = launched_of d in
       k l (if was_launched l then stamp_launch v idx (js_get l ''runId'') started else v))"

definition launch ::
  "impl_stage \<Rightarrow> (string list \<Rightarrow> string) \<Rightarrow> stage_vars \<Rightarrow> int \<Rightarrow> (jsval \<Rightarrow> stage_vars \<Rightarrow> wf) \<Rightarrow> wf" where
  "launch S A v idx k =
     pause_if_stopping S [seg v, site idx, ''dispatch''] v
       (''the worker was asked to stop before implementation attempt '' @ int_string idx @ '' was dispatched'')
       (now_at S (A [''launch-at'']) (\<lambda>t.
          if has_dep S ''implementSignals'' then launch_signalled S A v idx (iso_string t) k
          else launch_one_shot S A v idx (iso_string t) k))"

text \<open>Refused before any run record: the reservation is withdrawn.\<close>

definition drop_attempt :: "stage_vars \<Rightarrow> int \<Rightarrow> stage_vars" where
  "drop_attempt v idx = v\<lparr>sv_attempts := filter (\<lambda>e. \<not> is_attempt idx (sv_key v) e) (sv_attempts v)\<rparr>"

definition unroutable ::
  "impl_stage \<Rightarrow> (string list \<Rightarrow> string) \<Rightarrow> stage_vars \<Rightarrow> int \<Rightarrow> jsval \<Rightarrow> (jsval \<Rightarrow> wf) \<Rightarrow> wf" where
  "unroutable S A v idx l finish =
     (let reason = js_or (js_get l ''reason'') (JStr ''the implementer could not be dispatched''); v1 = drop_attempt v idx
      in save S (A [''unroutable'']) v1 (JObj [(''impl_state'', JStr ''unroutable'')]) (\<lambda>_.
           finish (stage_result ''unroutable'' v1 reason
             [(''classification'', if truthy (js_get l ''classification'') then js_get l ''classification''
                                  else classification_value JNull reason)])))"

subsection \<open>Settling an attempt\<close>

text \<open>The run record to classify, and why the run could not be followed.\<close>

definition unfollowed_record :: "jsval \<Rightarrow> jsval" where
  "unfollowed_record run = JObj [(''run_id'', run), (''state'', JStr ''unknown''),
     (''termination_class'', JStr ''idle''), (''termination_signal'', JStr ''unfollowed'')]"

definition unfollowable_reason :: "int \<Rightarrow> jsval \<Rightarrow> jsval option" where
  "unfollowable_reason idx l =
     (let rec = js_or (js_get l ''record'') JNull in
      if truthy rec \<and> \<not> truthy (js_get l ''unfollowable'') then None
      else Some (js_or (js_get l ''reason'') (js_or (js_get rec ''terminal_note'')
        (JStr (''implementation attempt '' @ int_string idx
           @ '' did not reach a terminal state while this worker followed it'')))))"

definition launched_record :: "jsval \<Rightarrow> jsval" where
  "launched_record l = js_or (js_get l ''record'') (unfollowed_record (js_get l ''runId''))"

text \<open>Outcome and reason of the run, before and after what it produced is judged.\<close>

definition class_reason :: "jsval option \<Rightarrow> jsval \<Rightarrow> jsval" where
  "class_reason unfollowable rec = (case unfollowable of Some u \<Rightarrow> u | None \<Rightarrow> JStr (classify_reason rec JNull))"

definition judge_run ::
  "impl_stage \<Rightarrow> (string list \<Rightarrow> string) \<Rightarrow> jsval option \<Rightarrow> jsval \<Rightarrow> (product \<Rightarrow> wf) \<Rightarrow> wf" where
  "judge_run S A unfollowable rec k =
     (case unfollowable of
        Some u \<Rightarrow> k (plain_product ''cancelled'' u False)
      | None \<Rightarrow>
          (case classify_execution_outcome rec JNull of
             OCompleted \<Rightarrow> judge_product S A rec k
           | OUnroutable \<Rightarrow> k (plain_product ''failed'' (class_reason None rec) False)
           | o' \<Rightarrow> k (plain_product (outcome_word o') (class_reason None rec) False)))"

definition product_reason :: "product \<Rightarrow> jsval \<Rightarrow> jsval" where
  "product_reason p fallback = (case pr_handoff p of Some h \<Rightarrow> js_or (JStr h) (js_or (pr_reason p) fallback)
     | None \<Rightarrow> js_or (pr_reason p) fallback)"

definition settle_extra :: "product \<Rightarrow> bool \<Rightarrow> jsval" where
  "settle_extra p unfollowed = JObj (optional (pr_dirty p) ''dirty'' (JBool True)
     @ (case pr_handoff p of Some h \<Rightarrow> optional (h \<noteq> []) ''handoff'' (JStr h) | None \<Rightarrow> [])
     @ optional unfollowed ''unfollowed'' (JBool True))"

definition unfollowed_stop :: "int \<Rightarrow> jsval \<Rightarrow> jsval \<Rightarrow> string" where
  "unfollowed_stop idx rec u = ''implementation attempt '' @ int_string idx @ '' (run ''
     @ take 8 (js_string (js_or (js_get rec ''run_id'') (JStr ''?''))) @ '') could not be followed to its end'' @ dash
     @ js_string u @ ''; something may still be running in its checkout, so no further attempt is dispatched''"

text \<open>\<open>finish\<close> returns from the stage, \<open>k\<close> goes on to the decision.\<close>

definition settle_attempt ::
  "impl_stage \<Rightarrow> (string list \<Rightarrow> string) \<Rightarrow> stage_vars \<Rightarrow> int \<Rightarrow> jsval \<Rightarrow> jsval option \<Rightarrow> jsval \<Rightarrow>
   (jsval \<Rightarrow> wf) \<Rightarrow> (stage_vars \<Rightarrow> wf) \<Rightarrow> wf" where
  "settle_attempt S A v idx entry unfollowable rec finish k =
     judge_run S A unfollowable rec (\<lambda>p.
     now_at S (A [''finished'']) (\<lambda>t.
       let reason = product_reason p (class_reason unfollowable rec);
           cont = (\<lambda>w. case unfollowable of
             Some u \<Rightarrow> stop S ''escalated'' w (JStr (unfollowed_stop idx rec u)) finish | None \<Rightarrow> k w)
       in case settle_impl_attempt (sv_attempts v) idx (sv_key v)
                 (js_or (js_get rec ''run_id'') (js_or (js_get entry ''run_id'') JNull)) (JStr (pr_outcome p)) reason
                 (JStr (iso_string t)) (settle_extra p (unfollowable \<noteq> None)) of
            Settled es \<Rightarrow>
              (let v1 = v\<lparr>sv_attempts := es\<rparr> in
               save S (A [''settle'']) v1 (JObj [(''impl_attempt'', JNum idx)]) (\<lambda>m.
                 case m of
                   Some msg \<Rightarrow> stop S ''escalated'' v1 (JStr
                     (''the implementation ledger could not be stamped after attempt '' @ int_string idx @ '' settled ''
                      @ pr_outcome p @ '' ('' @ msg @ '')'' @ dash
                      @ ''the stage stops rather than act on a charge nobody recorded'')) finish
                 | None \<Rightarrow> cont v1))
          | _ \<Rightarrow> cont v))"

text \<open>A pending entry is a launch owed a classification.\<close>

definition attempt_run ::
  "impl_stage \<Rightarrow> stage_vars \<Rightarrow> int \<Rightarrow> jsval \<Rightarrow> (jsval \<Rightarrow> wf) \<Rightarrow> (stage_vars \<Rightarrow> wf) \<Rightarrow> wf" where
  "attempt_run S v idx entry finish k =
     (let A = (\<lambda>parts. stage_key S (seg v # site idx # parts)) in
      if impl_attempt_settled entry then k v
      else if idx = 1 then settle_attempt S A v idx entry None (sv_current v) finish k
      else launch S A v idx (\<lambda>l w.
             if \<not> truthy (js_get l ''ok'') then unroutable S A w idx l finish
             else settle_attempt S A w idx entry (unfollowable_reason idx l) (launched_record l) finish k))"

subsection \<open>Deciding, reserving, looping\<close>

definition backoff_ms :: "impl_stage \<Rightarrow> int" where
  "backoff_ms S = max 0 (number_or (js_get (js_get (is_impl S) ''retry'') ''backoffMs'') 0)"

definition back_off :: "impl_stage \<Rightarrow> stage_vars \<Rightarrow> int \<Rightarrow> wf \<Rightarrow> wf" where
  "back_off S v next k =
     (let N = (\<lambda>parts. stage_key S (seg v # site next # parts));
          why = ''the worker was asked to stop during the retry backoff'' @ dash @ ''attempt '' @ int_string next
            @ '' is reserved and a resume launches it''
      in call_at S (N [''backoff-parked'']) ''yield''
           (JObj [(''state'', JStr ''interrupted''), (''attempts'', mine_value v), (''reason'', JStr why)]) (\<lambda>parked.
         now_at S (N [''backoff-at'']) (\<lambda>t.
         sleep_at S (N [''backoff'']) (t + backoff_ms S) (JObj [(''parked'', parked), (''mode'', JStr ''backoff'')])
           (pause_if_stopping S [seg v, site next, ''backoff''] v why k))))"

definition reserve_next ::
  "impl_stage \<Rightarrow> stage_vars \<Rightarrow> int \<Rightarrow> bool \<Rightarrow> (jsval \<Rightarrow> wf) \<Rightarrow> (stage_vars \<Rightarrow> wf) \<Rightarrow> wf" where
  "reserve_next S v next backoff finish k =
     (let N = (\<lambda>parts. stage_key S (seg v # site next # parts)) in
      now_at S (N [''reserved-at'']) (\<lambda>t.
        let v1 = v\<lparr>sv_attempts := reserve_impl_attempt (sv_attempts v) next (sv_key v) JNull (JStr (iso_string t))\<rparr> in
        save S (N [''reserve'']) v1 (running_patch next) (\<lambda>m.
          case m of
            Some msg \<Rightarrow> stop S ''escalated'' (drop_attempt v1 next)
              (JStr (''the implementation ledger could not be stamped before attempt '' @ int_string next @ '' ('' @ msg
                @ '')'' @ dash @ ''the stage stops rather than dispatch an unrecorded attempt'')) finish
          | None \<Rightarrow> if backoff \<and> backoff_ms S > 0 then back_off S v1 next (k v1) else k v1)))"

definition decide ::
  "impl_stage \<Rightarrow> stage_vars \<Rightarrow> int \<Rightarrow> (jsval \<Rightarrow> wf) \<Rightarrow> (stage_vars \<Rightarrow> wf) \<Rightarrow> wf" where
  "decide S v idx finish again =
     (let entry = last_of (mine v); reason = js_get entry ''reason'' in
      case impl_attempt_decision (is_impl S) (js_get entry ''outcome'')
             (impl_attempts_spent (sv_attempts v) CodePool (sv_key v)) (sv_spent v) of
        MCandidate \<Rightarrow> finish (stage_result ''candidate'' v (js_or reason (JStr ''a candidate was produced''))
          (optional (truthy (js_get entry ''handoff'')) ''handoff'' (js_get entry ''handoff'')))
      | MDeclined \<Rightarrow> save S (stage_key S [seg v, site idx, ''declined'']) v (JObj [(''impl_state'', JStr ''declined'')])
          (\<lambda>_. finish (stage_result ''declined'' v (js_or reason (JStr ''the implementer declined the item'')) []))
      | MMismatch \<Rightarrow> stop S ''mismatch'' v (js_or reason (JStr ''the candidate's evidence did not verify'')) finish
      | MRetry RetryPool \<Rightarrow> charge_retry S v (idx + 1) (\<lambda>c.
          case c of
            Inl why \<Rightarrow> stop S ''escalated'' v (JStr why) finish
          | Inr spent \<Rightarrow> reserve_next S (v\<lparr>sv_spent := spent\<rparr>) (idx + 1) True finish again)
      | MRetry CodePool \<Rightarrow> pause_if_stopping S [seg v, site (idx + 1), ''next''] v
          (''the worker was asked to stop before the next implementation attempt was dispatched'' @ dash
           @ ''the budget still has headroom'')
          (reserve_next S v (idx + 1) False finish again)
      | MEscalated \<Rightarrow> stop S ''escalated'' v (JStr (spent_reason S v ''escalated'')) finish
      | MExhausted \<Rightarrow> stop S ''exhausted'' v (JStr (spent_reason S v ''exhausted'')) finish)"

text \<open>The loop, over the iterations left; \<open>finish\<close> is the stage's return.\<close>

primrec stage_loop :: "nat \<Rightarrow> impl_stage \<Rightarrow> (jsval \<Rightarrow> wf) \<Rightarrow> stage_vars \<Rightarrow> wf" where
  "stage_loop 0 S finish v = stop S ''escalated'' v (JStr (''the implementation stage on '' @ is_node S @ '' exceeded ''
     @ stage_iteration_cap_text @ '' iterations without settling'' @ dash @ ''its ledger is left as it stands'')) finish"
| "stage_loop (Suc n) S finish v =
     (if mine v = [] then stop S ''escalated'' v (JStr
        ''the implementation ledger holds no attempt for this segment, so there is nothing to classify or re-dispatch'') finish
      else let entry = last (mine v); idx = sort_number entry in
        attempt_run S v idx entry finish (\<lambda>w. decide S w idx finish (stage_loop n S finish)))"

subsection \<open>The pass\<close>

text \<open>A settled stage is read back.\<close>

definition resumed_result :: "string \<Rightarrow> stage_vars \<Rightarrow> jsval \<Rightarrow> (string \<times> jsval) list \<Rightarrow> jsval" where
  "resumed_result state v reason extra = stage_result state v reason ((''resumed'', JBool True) # extra)"

definition refiled_reason :: "impl_stage \<Rightarrow> stage_vars \<Rightarrow> string \<Rightarrow> jsval" where
  "refiled_reason S v state =
     (let spent = JStr (take stop_reason_cap (spent_reason S v state)) in
      if mine v \<noteq> []
      then js_or (js_get (last (mine v)) ''stop_reason'') spent
      else if truthy (js_get (sv_current v) ''impl_stop_reason'')
      then JStr (take stop_reason_cap (js_string (js_get (sv_current v) ''impl_stop_reason'')))
      else spent)"

definition read_back :: "impl_stage \<Rightarrow> stage_vars \<Rightarrow> string \<Rightarrow> (jsval \<Rightarrow> wf) \<Rightarrow> wf" where
  "read_back S v state finish =
     (if state = ''candidate'' then finish (resumed_result state v (JStr ''the stage already settled a candidate'') [])
      else if state = ''declined''
      then finish (resumed_result state v (js_or (js_get (sv_current v) ''declined_reason'') (JStr ''the stage already settled declined'')) [])
      else if state = ''exhausted'' \<or> state = ''escalated''
      then (let reason = refiled_reason S v state in
            escalate S state v reason (\<lambda>esc. finish (resumed_result state v reason esc)))
      else finish (resumed_result state v (JStr (''the stage already settled '' @ state)) []))"

text \<open>Attempt 1 of a fresh segment is the run the loop dispatched.\<close>

definition superseded :: "int \<Rightarrow> jsval \<Rightarrow> bool" where
  "superseded key e \<longleftrightarrow> \<not> (impl_attempt_key e \<ge> key \<or> impl_attempt_settled e \<or> truthy (js_get e ''run_id''))"

definition open_segment :: "impl_stage \<Rightarrow> stage_vars \<Rightarrow> (jsval \<Rightarrow> wf) \<Rightarrow> (stage_vars \<Rightarrow> wf) \<Rightarrow> wf" where
  "open_segment S v finish k =
     (if mine v \<noteq> [] then k v
      else let kept = (if sv_key v \<noteq> 0 then filter (\<lambda>e. \<not> superseded (sv_key v) e) (sv_attempts v) else sv_attempts v);
               v1 = v\<lparr>sv_attempts := reserve_impl_attempt kept 1 (sv_key v) (JStr (is_run S))
                 (js_or (js_get (sv_current v) ''started_at'') JNull)\<rparr>
           in if sv_key v = 0 then k v1
              else save S (stage_key S [seg v1, site 1, ''reserve'']) v1 (running_patch 1) (\<lambda>m.
                case m of
                  Some msg \<Rightarrow> stop S ''escalated'' v1
                    (JStr (''the implementation ledger could not be stamped for the re-gate ('' @ msg @ '')'')) finish
                | None \<Rightarrow> k v1))"

text \<open>A re-gate adopts the segment that still owes a launched attempt its classification.\<close>

definition owed_entries :: "stage_vars \<Rightarrow> jsval list" where
  "owed_entries v = filter (\<lambda>e. is_plain_object e \<and> impl_attempt_key e < sv_key v \<and> \<not> impl_attempt_settled e
     \<and> truthy (js_get e ''run_id'')) (sv_attempts v)"

definition adopt_owed :: "stage_vars \<Rightarrow> stage_vars" where
  "adopt_owed v = (if sv_key v > 0 \<and> mine v = [] \<and> owed_entries v \<noteq> []
     then v\<lparr>sv_key := impl_attempt_key (last (owed_entries v))\<rparr> else v)"

definition load_pools :: "impl_stage \<Rightarrow> stage_vars \<Rightarrow> (stage_vars \<Rightarrow> wf) \<Rightarrow> wf" where
  "load_pools S v k =
     (if \<not> has_dep S ''loadGatePools'' then k v
      else act S (stage_key S [''pools'']) ''loadGatePools'' (JObj []) (\<lambda>p. k (v\<lparr>sv_spent := (case p of
             Inl _ \<Rightarrow> retry_cap S
           | Inr pv \<Rightarrow> (case js_number (js_get (js_get pv ''retry'') ''spent'') of Some n \<Rightarrow> max 0 n | None \<Rightarrow> 0))\<rparr>)))"

definition loaded_vars :: "jsval \<Rightarrow> string + jsval \<Rightarrow> stage_vars" where
  "loaded_vars opened r =
     (let base = \<lparr>sv_attempts = [], sv_current = js_or (js_get opened ''record'') (JObj []),
                  sv_key = number_or (js_get opened ''attempt'') 0, sv_spent = 0\<rparr>
      in case r of
           Inl _ \<Rightarrow> base
         | Inr l \<Rightarrow> base\<lparr>sv_attempts := (case js_get l ''attempts'' of JArr es \<Rightarrow> es | _ \<Rightarrow> []),
             sv_current := js_or (js_get l ''record'') (sv_current base)\<rparr>)"

definition stage_body :: "impl_stage \<Rightarrow> jsval \<Rightarrow> (jsval \<Rightarrow> wf) \<Rightarrow> wf" where
  "stage_body S opened finish =
     act S (stage_key S [''ledger'']) ''loadImplAttempts'' (JObj []) (\<lambda>loaded.
       load_pools S (adopt_owed (loaded_vars opened loaded)) (\<lambda>v.
         if impl_settled (js_get (sv_current v) ''impl_state'')
         then read_back S v (js_string (js_get (sv_current v) ''impl_state'')) finish
         else open_segment S v finish (stage_loop stage_iteration_cap S finish)))"

subsection \<open>The workflow function\<close>

text \<open>\<open>input\<close>: the item, the harvested record, the live factory's two bound fields and the wired deps.\<close>

record stage_input =
  in_node :: string
  in_run :: string
  in_attempt :: jsval
  in_record :: jsval
  in_impl :: jsval
  in_trusted :: jsval
  in_has :: jsval

definition definition_binding :: "stage_input \<Rightarrow> jsval" where
  "definition_binding i = JObj [(''implementation'', js_or (in_impl i) JNull), (''trustedRef'', js_or (in_trusted i) JNull)]"

definition run_key :: "stage_input \<Rightarrow> string list \<Rightarrow> string" where
  "run_key i parts = join ''/'' (in_run i # ''implementation'' # parts)"

definition open_args :: "(jsval \<Rightarrow> string) \<Rightarrow> stage_input \<Rightarrow> jsval" where
  "open_args digest i = JObj [(''record'', record_view (in_record i)), (''has'', in_has i),
     (''attempt'', JNum (max 0 (number_or (in_attempt i) 0))), (''implementation'', js_or (in_impl i) JNull),
     (''trustedRef'', js_or (in_trusted i) JNull), (''digest'', JStr (digest (definition_binding i)))]"

definition opened_stage :: "nat \<Rightarrow> (jsval \<Rightarrow> string) \<Rightarrow> stage_input \<Rightarrow> jsval \<Rightarrow> impl_stage" where
  "opened_stage fuel digest i opened =
     \<lparr>is_node = in_node i, is_run = in_run i, is_item_attempt = in_attempt i, is_impl = js_get opened ''implementation'',
      is_has = js_get opened ''has'', is_trusted = js_get opened ''trustedRef'', is_journaled = js_get opened ''digest'',
      is_live = JStr (digest (definition_binding i)), is_fuel = fuel\<rparr>"

definition no_stage_result :: jsval where
  "no_stage_result = JObj [(''state'', JStr ''candidate''), (''attempts'', JArr []),
     (''reason'', JStr ''no implementation stage is declared''), (''skipped'', JBool True)]"

definition implementation_pass ::
  "nat \<Rightarrow> (jsval \<Rightarrow> string) \<Rightarrow> stage_input \<Rightarrow> (jsval \<Rightarrow> wf) \<Rightarrow> wf" where
  "implementation_pass fuel digest i finish =
     Run (run_key i [''open'']) ''open'' (open_args digest i) (rethrow (\<lambda>opened.
       if \<not> truthy (js_get opened ''implementation'') then finish no_stage_result
       else stage_body (opened_stage fuel digest i opened) opened finish))"

definition implementation_workflow :: "nat \<Rightarrow> (jsval \<Rightarrow> string) \<Rightarrow> stage_input \<Rightarrow> wf" where
  "implementation_workflow fuel digest i =
     implementation_pass fuel digest i (\<lambda>result.
       Run (run_key i [''settled'']) ''settled'' (JObj [(''state'', js_or (js_get result ''state'') JNull)])
         (rethrow (\<lambda>_. Done result)))"

end
