(* ===== verification/ImplementationProps.thy ===== *)
theory ImplementationProps
  imports ImplementationStage
begin

text \<open>
  The implementation stage over the replay kernel. The locale \<open>stage_relation\<close> names what a relation between
  workflow functions has to keep (one law per call on the guarded context) and walks over the stage
  once; its interpretations give that the stage replays under any live definition, lets a crash through, executes
  nothing under a mixed definition, and does not depend on its fuel.
\<close>

subsection \<open>The walk over the stage\<close>

definition stage_activities :: "string set" where
  "stage_activities = {''open'', ''yield'', ''settled'', ''stopping'', ''loadImplAttempts'', ''saveImplAttempts'',
     ''loadGatePools'', ''saveGatePools'', ''changedPaths'', ''commitsLanded'', ''noCodeClaim'', ''implement'',
     ''dispatchImplement'', ''escalateStage''}"

text \<open>Two stages of one pass: they differ at most in the live digest and the fuel, which no other part reads.\<close>

definition twins :: "impl_stage \<Rightarrow> impl_stage \<Rightarrow> bool" where
  "twins S S' \<longleftrightarrow> is_node S' = is_node S \<and> is_run S' = is_run S \<and> is_item_attempt S' = is_item_attempt S
     \<and> is_impl S' = is_impl S \<and> is_has S' = is_has S \<and> is_trusted S' = is_trusted S"

lemma twins_keys:
  assumes "twins S S'"
  shows "stage_key S' = stage_key S" "has_dep S' = has_dep S" "code_cap S' = code_cap S" "retry_cap S' = retry_cap S"
    "backoff_ms S' = backoff_ms S"
  using assms
  by (simp_all add: twins_def fun_eq_iff stage_key_def has_dep_def code_cap_def retry_cap_def backoff_ms_def)

lemma twins_texts:
  assumes "twins S S'"
  shows "spent_reason S' = spent_reason S" "judge_unread S' = judge_unread S" "launch_args S' = launch_args S"
    "refiled_reason S' = refiled_reason S"
proof -
  have f: "is_impl S' = is_impl S" "is_run S' = is_run S" using assms by (simp_all add: twins_def)
  show "spent_reason S' = spent_reason S" "judge_unread S' = judge_unread S" "launch_args S' = launch_args S"
    by (simp_all only: fun_eq_iff spent_reason_def judge_unread_def launch_args_def launch_name_def
        twins_keys [OF assms] f simp_thms)
  then show "refiled_reason S' = refiled_reason S" by (simp only: fun_eq_iff refiled_reason_def simp_thms)
qed

locale stage_relation =
  fixes R :: "wf \<Rightarrow> wf \<Rightarrow> bool" and S S' :: impl_stage
  assumes twin: "twins S S'"
    and call_law: "name \<in> stage_activities \<Longrightarrow> (\<And>v. R (k v) (k' v)) \<Longrightarrow>
      R (call_at S key name args k) (call_at S' key name args k')"
    and act_law: "name \<in> stage_activities \<Longrightarrow> (\<And>r. R (c r) (c' r)) \<Longrightarrow>
      R (act S key name args c) (act S' key name args c')"
    and now_law: "(\<And>t. R (kt t) (kt' t)) \<Longrightarrow> R (now_at S key kt) (now_at S' key kt')"
    and sleep_law: "R w w' \<Longrightarrow> R (sleep_at S key at meta w) (sleep_at S' key at meta w')"
    and await_law: "(\<And>e. R (ke e) (ke' e)) \<Longrightarrow> R (await_at S key name ke) (await_at S' key name ke')"
    and pause_law: "R w w' \<Longrightarrow> R (pause (is_fuel S) S sites m why n w) (pause (is_fuel S') S' sites m why n w')"
begin

lemma twin_fields:
  "is_node S' = is_node S" "is_run S' = is_run S" "is_item_attempt S' = is_item_attempt S" "is_impl S' = is_impl S"
  "is_has S' = is_has S" "is_trusted S' = is_trusted S"
  using twin by (simp_all add: twins_def)

lemmas twin_simps = twin_fields twins_keys [OF twin] twins_texts [OF twin]

lemma save_law: "(\<And>m. R (k m) (k' m)) \<Longrightarrow> R (save S key v patch k) (save S' key v patch k')"
  by (simp add: twin_simps save_def act_law stage_activities_def)

lemma escalate_law: "(\<And>e. R (k e) (k' e)) \<Longrightarrow> R (escalate S state v why k) (escalate S' state v why k')"
  by (simp add: twin_simps escalate_def Let_def act_law stage_activities_def)

lemma stop_law: "(\<And>r. R (k r) (k' r)) \<Longrightarrow> R (stop S state v why k) (stop S' state v why k')"
  by (simp add: twin_simps stop_def Let_def save_law escalate_law)

lemma pause_if_law: "R w w' \<Longrightarrow> R (pause_if_stopping S sites v why w) (pause_if_stopping S' sites v why w')"
  by (simp add: twin_simps pause_if_stopping_def pause_law)

lemma charge_law: "(\<And>c. R (k c) (k' c)) \<Longrightarrow> R (charge_retry S v next k) (charge_retry S' v next k')"
  by (auto simp: twin_simps charge_retry_def stage_activities_def intro!: pause_if_law act_law split: sum.split)

lemma claim_law: "(\<And>p. R (k p) (k' p)) \<Longrightarrow> R (judge_claim S A rec k) (judge_claim S' A rec k')"
  by (auto simp: twin_simps judge_claim_def Let_def stage_activities_def intro!: act_law split: sum.split)

lemma empty_law: "(\<And>p. R (k p) (k' p)) \<Longrightarrow> R (judge_empty S A rec k) (judge_empty S' A rec k')"
  by (auto simp: twin_simps judge_empty_def stage_activities_def intro!: act_law claim_law split: sum.split)

lemma product_law: "(\<And>p. R (k p) (k' p)) \<Longrightarrow> R (judge_product S A rec k) (judge_product S' A rec k')"
  by (auto simp: twin_simps judge_product_def Let_def stage_activities_def intro!: act_law empty_law)

lemma launch_law:
  "(\<And>l w. R (k l w) (k' l w)) \<Longrightarrow> R (launch S A v idx k) (launch S' A v idx k')"
  by (auto simp: twin_simps launch_def launch_signalled_def launch_one_shot_def Let_def stage_activities_def
      intro!: pause_if_law now_law act_law save_law await_law)

lemma unroutable_law:
  "(\<And>r. R (k r) (k' r)) \<Longrightarrow> R (unroutable S A v idx q k) (unroutable S' A v idx q k')"
  by (simp add: twin_simps unroutable_def Let_def save_law)

lemma judge_run_law: "(\<And>p. R (k p) (k' p)) \<Longrightarrow> R (judge_run S A u rec k) (judge_run S' A u rec k')"
  by (auto simp: twin_simps judge_run_def intro!: product_law split: option.split exec_outcome.split)

lemma settle_law:
  assumes "\<And>r. R (g r) (g' r)" and "\<And>w. R (k w) (k' w)"
  shows "R (settle_attempt S A v idx entry u rec g k) (settle_attempt S' A v idx entry u rec g' k')"
  unfolding settle_attempt_def
  by (auto simp: twin_simps Let_def assms intro!: judge_run_law now_law save_law stop_law
      split: option.split settle_result.split)

lemma attempt_law:
  assumes "\<And>r. R (g r) (g' r)" and "\<And>w. R (k w) (k' w)"
  shows "R (attempt_run S v idx entry g k) (attempt_run S' v idx entry g' k')"
  by (auto simp: twin_simps attempt_run_def Let_def assms intro!: settle_law launch_law unroutable_law)

lemma back_off_law: "R w w' \<Longrightarrow> R (back_off S v next w) (back_off S' v next w')"
  by (auto simp: twin_simps back_off_def Let_def stage_activities_def intro!: call_law now_law sleep_law pause_if_law)

lemma reserve_law:
  assumes "\<And>r. R (g r) (g' r)" and "\<And>w. R (k w) (k' w)"
  shows "R (reserve_next S v next b g k) (reserve_next S' v next b g' k')"
  by (auto simp: twin_simps reserve_next_def Let_def assms intro!: now_law save_law stop_law back_off_law split: option.split)

lemma decide_law:
  assumes "\<And>r. R (g r) (g' r)" and "\<And>w. R (k w) (k' w)"
  shows "R (decide S v idx g k) (decide S' v idx g' k')"
  unfolding decide_def
  by (auto simp: twin_simps Let_def assms intro!: save_law stop_law charge_law pause_if_law reserve_law
      split: move.split charge_pool.split sum.split)

lemma loop_law: "(\<And>r. R (g r) (g' r)) \<Longrightarrow> R (stage_loop n S g v) (stage_loop n S' g' v)"
  by (induction n arbitrary: v) (auto simp: twin_simps Let_def intro!: stop_law attempt_law decide_law)

lemma read_back_law: "(\<And>r. R (g r) (g' r)) \<Longrightarrow> R (read_back S v state g) (read_back S' v state g')"
  by (auto simp: twin_simps read_back_def Let_def intro!: escalate_law)

lemma segment_law:
  assumes "\<And>r. R (g r) (g' r)" and "\<And>w. R (k w) (k' w)"
  shows "R (open_segment S v g k) (open_segment S' v g' k')"
  by (auto simp: twin_simps open_segment_def Let_def assms intro!: save_law stop_law split: option.split)

lemma pools_law: "(\<And>w. R (k w) (k' w)) \<Longrightarrow> R (load_pools S v k) (load_pools S' v k')"
  by (auto simp: twin_simps load_pools_def stage_activities_def intro!: act_law split: sum.split)

lemma body_law: "(\<And>r. R (g r) (g' r)) \<Longrightarrow> R (stage_body S opened g) (stage_body S' opened g')"
  by (auto simp: twin_simps stage_body_def stage_activities_def
      intro!: act_law pools_law read_back_law segment_law loop_law)

end

subsection \<open>The stage under four relations\<close>

text \<open>A call on the guarded context, whatever the two live digests are.\<close>

lemma guarded_replays:
  assumes "replays_to N w w'" and "journals_next w" and "journals_next w'"
  shows "replays_to N (guarded S w) (guarded S' w')"
  unfolding guarded_def
  by (rule replays_guard) (use assms in \<open>auto intro: replays_throw\<close>)

lemma lets_rethrow: "only_control (rethrow k)"
  by (simp add: rethrow_def)

lemma error_text_restored:
  "named_failure f \<Longrightarrow> error_text (XActivity (replayed_failure (journal_failure f))) = error_text (XActivity f)"
  by (auto simp: named_failure_def replayed_failure_def journal_failure_def)

lemma caught_replays:
  assumes "\<And>r. replays_to N (k r) (k' r)"
  shows "replays_to N (caught k (Inr v)) (caught k' (Inr v))"
    and "f_replayed f \<Longrightarrow> replays_to N (caught k (Inl (XActivity f))) (caught k' (Inl (XActivity f)))"
    and "named_failure f \<Longrightarrow>
      replays_to N (caught k (Inl (XActivity f))) (caught k' (Inl (XActivity (replayed_failure (journal_failure f)))))"
proof -
  show "replays_to N (caught k (Inr v)) (caught k' (Inr v))"
    and "f_replayed f \<Longrightarrow> replays_to N (caught k (Inl (XActivity f))) (caught k' (Inl (XActivity f)))"
    using assms by (auto simp: caught_def intro: replays_throw)
  assume n: "named_failure f"
  have l: "\<not> live_owner_loss (XActivity (replayed_failure (journal_failure f)))"
    by (simp add: replayed_failure_def)
  show "replays_to N (caught k (Inl (XActivity f))) (caught k' (Inl (XActivity (replayed_failure (journal_failure f)))))"
    using assms l error_text_restored [OF n]
    by (auto simp: caught_def intro: replays_throw simp del: error_text.simps live_owner_loss.simps)
qed

lemma stage_activities_simps [simp]: "''stopping'' \<in> stage_activities" "''yield'' \<in> stage_activities"
  "''open'' \<in> stage_activities" "''settled'' \<in> stage_activities"
  by (simp_all add: stage_activities_def)

lemma pause_replays:
  assumes w: "replays_to stage_activities w w'" and S': "S' = S\<lparr>is_live := l, is_fuel := g\<rparr>" and f: "f \<le> f'"
  shows "replays_to stage_activities (pause f S sites m why n w) (pause f' S' sites m why n w')"
  using f
proof (induction f arbitrary: f' n)
  case (Suc f)
  then obtain f1 where f': "f' = Suc f1" "f \<le> f1" by (cases f') auto
  have k: "stage_key S' = stage_key S" by (rule twins_keys) (simp add: twins_def S')
  show ?case
    unfolding f'(1) pause.simps call_at_def now_at_def yield_at_def k
    by (intro guarded_replays replays_run replays_now replays_yield)
      (auto simp: rethrow_def w intro!: replays_throw guarded_replays replays_run replays_now
        replays_yield Suc.IH [OF f'(2)])
qed (auto intro: replays_throw)

interpretation replaying: stage_relation "replays_to stage_activities" S
    "S\<lparr>is_live := l, is_fuel := is_fuel S + d\<rparr>" for S l d
proof
  fix k k' :: "jsval \<Rightarrow> wf" and c c' name key args
  show "name \<in> stage_activities \<Longrightarrow> (\<And>v. replays_to stage_activities (k v) (k' v)) \<Longrightarrow>
    replays_to stage_activities (call_at S key name args k)
      (call_at (S\<lparr>is_live := l, is_fuel := is_fuel S + d\<rparr>) key name args k')"
    unfolding call_at_def
    by (intro guarded_replays replays_run) (auto simp: rethrow_def intro: replays_throw)
  show "name \<in> stage_activities \<Longrightarrow> (\<And>r. replays_to stage_activities (c r) (c' r)) \<Longrightarrow>
    replays_to stage_activities (act S key name args c)
      (act (S\<lparr>is_live := l, is_fuel := is_fuel S + d\<rparr>) key name args c')"
    unfolding act_def
    by (intro guarded_replays replays_run caught_replays) (auto simp: caught_def)
next
  fix kt kt' :: "int \<Rightarrow> wf" and key
  show "(\<And>t. replays_to stage_activities (kt t) (kt' t)) \<Longrightarrow>
    replays_to stage_activities (now_at S key kt) (now_at (S\<lparr>is_live := l, is_fuel := is_fuel S + d\<rparr>) key kt')"
    unfolding now_at_def by (intro guarded_replays replays_now) (auto simp: rethrow_def)
next
  fix w w' key at meta
  show "replays_to stage_activities w w' \<Longrightarrow> replays_to stage_activities (sleep_at S key at meta w)
    (sleep_at (S\<lparr>is_live := l, is_fuel := is_fuel S + d\<rparr>) key at meta w')"
    unfolding sleep_at_def by (intro guarded_replays replays_sleep) (auto simp: rethrow_def)
next
  fix ke ke' :: "await_outcome \<Rightarrow> wf" and key name
  show "(\<And>e. replays_to stage_activities (ke e) (ke' e)) \<Longrightarrow> replays_to stage_activities (await_at S key name ke)
    (await_at (S\<lparr>is_live := l, is_fuel := is_fuel S + d\<rparr>) key name ke')"
    unfolding await_at_def by (intro guarded_replays replays_await) (auto simp: rethrow_def)
next
  fix w w' sites m why n
  show "replays_to stage_activities w w' \<Longrightarrow> replays_to stage_activities (pause (is_fuel S) S sites m why n w)
    (pause (is_fuel (S\<lparr>is_live := l, is_fuel := is_fuel S + d\<rparr>))
      (S\<lparr>is_live := l, is_fuel := is_fuel S + d\<rparr>) sites m why n w')"
    by (rule pause_replays) auto
qed (simp add: twins_def)

lemma pause_crashes: "lets_crashes_through w \<Longrightarrow> lets_crashes_through (pause f S sites m why n w)"
  by (induction f arbitrary: n)
    (auto simp: call_at_def now_at_def yield_at_def guarded_def rethrow_def passes_crash_def split: sum.split)

interpretation crashing: stage_relation "\<lambda>w w'. lets_crashes_through w" S S for S
  by unfold_locales
    (auto simp: twins_def call_at_def act_def now_at_def sleep_at_def await_at_def guarded_def rethrow_def caught_def
      passes_crash_def pause_crashes split: sum.split)

text \<open>Under a mixed definition every call on the guarded context is held.\<close>

lemma guarded_held:
  assumes m: "is_journaled S \<noteq> is_live S"
  shows "(\<And>r. held K (c r)) \<Longrightarrow> held K (guarded S (Run key name args c))"
    and "(\<And>r. held K (ct r)) \<Longrightarrow> held K (guarded S (Now key ct))"
    and "(\<And>r. held K (cu r)) \<Longrightarrow> held K (guarded S (SleepUntil key at meta cu))"
    and "(\<And>r. held K (cu r)) \<Longrightarrow> held K (guarded S (YieldUntil key at meta cu))"
    and "(\<And>r. held K (ce r)) \<Longrightarrow> held K (guarded S (AwaitSignal key name deadline meta ce))"
  unfolding guarded_def
  subgoal using m by (intro held_run [where k = c]) auto
  subgoal using m by (intro held_now [where k' = ct]) auto
  subgoal using m by (intro held_sleep [where k'' = cu]) auto
  subgoal using m by (intro held_yield [where k'' = cu]) auto
  subgoal using m by (intro held_await [where ?k3.0 = ce]) auto
  done

lemma rethrow_held: "(\<And>v. held K (k v)) \<Longrightarrow> held K (rethrow k r)"
  by (auto simp: rethrow_def intro: held_end split: sum.split)

lemma caught_held: "(\<And>v. held K (k v)) \<Longrightarrow> held K (caught k r)"
  by (auto simp: caught_def intro: held_end split: sum.split)

lemma pause_held:
  assumes m: "is_journaled S \<noteq> is_live S" and w: "held K w"
  shows "held K (pause f S sites mn why n w)"
proof (induction f arbitrary: n)
  case (Suc f)
  then show ?case
    unfolding pause.simps call_at_def now_at_def yield_at_def
    by (simp add: guarded_held [OF m] rethrow_held w)
qed (simp add: held_end)

interpretation mixed: stage_relation "\<lambda>w w'. is_journaled S \<noteq> is_live S \<longrightarrow> held K w" S S for S K
  by unfold_locales
    (auto simp: twins_def call_at_def act_def now_at_def sleep_at_def await_at_def guarded_held rethrow_held
      caught_held pause_held)

text \<open>The fuel.\<close>

lemma guarded_agree: "agree E n w w' \<Longrightarrow> agree E n (guarded S w) (guarded (S\<lparr>is_fuel := g\<rparr>) w')"
  unfolding guarded_def by (rule agree_replaying) simp

lemma rethrow_Inl [simp]: "rethrow k (Inl x) = Throw x" and rethrow_Inr [simp]: "rethrow k (Inr v) = k v"
  by (simp_all add: rethrow_def)

lemma pause_agree:
  assumes "agree E n w w'" and "n < f" and "f \<le> f'"
  shows "agree E n (pause f S sites m why k w) (pause f' (S\<lparr>is_fuel := g\<rparr>) sites m why k w')"
  using assms
proof (induction f arbitrary: f' n k)
  case (Suc f)
  then obtain f1 where f': "f' = Suc f1" "f \<le> f1" by (cases f') auto
  have key: "stage_key (S\<lparr>is_fuel := g\<rparr>) = stage_key S" by (rule twins_keys) (simp add: twins_def)
  have again: "agree E m' (pause f S sites m why (Suc k) w) (pause f1 (S\<lparr>is_fuel := g\<rparr>) sites m why (Suc k) w')"
    if "m' < n" for m'
    using Suc.IH [OF agree_le [OF Suc.prems(1)] _ f'(2), of m'] that Suc.prems(2) by simp
  have rest: "agree E n (rethrow k r) (rethrow k' r)" if "\<And>v. agree E n (k v) (k' v)" for k k' and r :: "exn + jsval"
    using that by (cases r) auto
  show ?case
    unfolding f'(1) pause.simps call_at_def now_at_def yield_at_def key
    by (intro guarded_agree agree_run rest) (simp_all add: Suc.prems(1) guarded_agree agree_run agree_now agree_yield rest again)
qed simp

lemma sum_agree:
  "(\<And>v. agree E n (k v) (k' v)) \<Longrightarrow> agree E n (rethrow k r) (rethrow k' r)"
  "(\<And>v. agree E n (q v) (q' v)) \<Longrightarrow> agree E n (caught q p) (caught q' p)"
  by (auto simp: rethrow_def caught_def split: sum.split)

lemma caught_control: "is_control_flow x \<Longrightarrow> caught k (Inl x) = Throw x"
  by (simp add: caught_def)

interpretation fuelled: stage_relation "\<lambda>w w'. n < is_fuel S \<longrightarrow> agree E n w w'" S "S\<lparr>is_fuel := is_fuel S + d\<rparr>"
  for E n S d
  by unfold_locales
    (auto simp: twins_def call_at_def act_def now_at_def sleep_at_def await_at_def caught_control
      intro!: guarded_agree agree_run agree_now agree_sleep agree_await pause_agree sum_agree)

subsection \<open>The whole workflow function\<close>

definition same_item :: "stage_input \<Rightarrow> stage_input \<Rightarrow> bool" where
  "same_item i i' \<longleftrightarrow> in_node i' = in_node i \<and> in_run i' = in_run i \<and> in_attempt i' = in_attempt i"

lemma rethrow_replays:
  assumes "\<And>v. replays_to N (k v) (k' v)"
  shows "replays_to N (rethrow k (Inr v)) (rethrow k' (Inr v))" "replays_to N (rethrow k (Inl x)) w"
  using assms by (simp_all add: replays_throw)

lemma run_rethrow_replays:
  assumes "name \<in> N" and "\<And>v. replays_to N (k v) (k' v)"
  shows "replays_to N (Run key name args (rethrow k)) (Run key name args' (rethrow k'))"
  by (rule replays_run) (use assms in \<open>auto intro: replays_throw\<close>)

lemma workflow_replays:
  assumes "same_item i i'"
  shows "replays_to stage_activities (implementation_workflow f digest i) (implementation_workflow (f + d) digest' i')"
proof -
  have run: "run_key i' = run_key i" using assms by (simp add: same_item_def run_key_def fun_eq_iff)
  have closing: "replays_to stage_activities
      (Run (run_key i [''settled'']) ''settled'' (JObj [(''state'', js_or (js_get r ''state'') JNull)]) (rethrow (\<lambda>_. Done r)))
      (Run (run_key i' [''settled'']) ''settled'' (JObj [(''state'', js_or (js_get r ''state'') JNull)]) (rethrow (\<lambda>_. Done r)))" for r
    unfolding run by (rule run_rethrow_replays) (auto intro: replays_done)
  have body: "replays_to stage_activities (stage_body (opened_stage f digest i o') o' g)
      (stage_body (opened_stage (f + d) digest' i' o') o' g')"
    if "\<And>r. replays_to stage_activities (g r) (g' r)" for g g' o'
  proof -
    have "opened_stage (f + d) digest' i' o' = (opened_stage f digest i o')
        \<lparr>is_live := JStr (digest' (definition_binding i')), is_fuel := is_fuel (opened_stage f digest i o') + d\<rparr>"
      using assms by (simp add: opened_stage_def same_item_def)
    then show ?thesis by (simp only: replaying.body_law [OF that])
  qed
  show ?thesis
    unfolding implementation_workflow_def implementation_pass_def run
    by (rule run_rethrow_replays) (auto intro!: body closing [unfolded run])
qed

lemma workflow_lets_crashes_through: "lets_crashes_through (implementation_workflow f digest i)"
  unfolding implementation_workflow_def implementation_pass_def
  by (auto simp: passes_crash_def rethrow_def split: sum.split intro!: crashing.body_law)

lemma workflow_fuel:
  assumes "n < f"
  shows "agree E n (implementation_workflow f digest i) (implementation_workflow (f + d) digest i)"
proof -
  have "agree E n (stage_body (opened_stage f digest i o') o' g) (stage_body (opened_stage (f + d) digest i o') o' g)" for g o'
  proof -
    have "opened_stage (f + d) digest i o' = (opened_stage f digest i o')
        \<lparr>is_fuel := is_fuel (opened_stage f digest i o') + d\<rparr>"
      by (simp add: opened_stage_def)
    moreover have "n < is_fuel (opened_stage f digest i o')" using assms by (simp add: opened_stage_def)
    ultimately show ?thesis using fuelled.body_law [where n = n and S = "opened_stage f digest i o'" and E = E and d = d] by simp
  qed
  then show ?thesis
    unfolding implementation_workflow_def implementation_pass_def
    by (auto intro!: agree_run sum_agree)
qed

text \<open>
  C5. A settled stage replays to its settled result. Once a run of the implementation workflow has completed, any later
  run over the journal it left, on any worker, returns the same result, executing nothing and journaling
  nothing, whatever factory definition, run record and wired functions the later worker has: only the item is the same.
\<close>

theorem settled_stage_replays:
  assumes run: "run_wf E (implementation_workflow f digest i) s = (Completed v, s1)"
    and bound: "binds E stage_activities" and item: "same_item i i'" and fuel: "f \<le> f'"
    and t: "journal t = journal s1" "version t = version s1" "poisoned t = None"
    and late: "wakes_passed (journal s1) (clock E' (world t))"
  shows "\<exists>t1. run_wf E' (implementation_workflow f' digest' i') t = (Completed v, t1) \<and> world t1 = world t
    \<and> executed_effects t1 = executed_effects t \<and> journal t1 = journal t"
  using run_replays [OF workflow_replays [OF item, where d = "f' - f"] run bound t late] fuel by simp

text \<open>Every run executes under fresh keys, each once, as any workflow does.\<close>

lemmas stage_executes_once = executions_are_fresh [OF workflow_lets_crashes_through]

text \<open>The fuel of the stop loop decides nothing once it exceeds the journal's length by two: a round of the loop
  returns only over entries the journal already holds.\<close>

lemma fuel_is_enough:
  assumes "Suc (length (journal s)) < f"
  shows "run_wf E (implementation_workflow f digest i) s = run_wf E (implementation_workflow (f + d) digest i) s"
  by (rule run_agree [OF workflow_fuel [OF assms]]) simp

lemma start_replaying:
  assumes "EEffect k v \<in> set (journal s)"
  shows "is_replaying (start_ctx s)"
  using assms
  by (cases "journal s" rule: journal_version.cases) (auto simp: is_replaying_def start_ctx_def intro!: bexI [of _ "EEffect k v"])

lemma held_closing_call: "held K (Run K name args (rethrow (\<lambda>_. Done r)))"
  by (rule held_closing) (auto simp: rethrow_def split: sum.split)

lemma workflow_held:
  assumes "js_get q ''digest'' \<noteq> JStr (digest (definition_binding i))"
  shows "held (run_key i [''settled''])
    (if \<not> truthy (js_get q ''implementation'')
     then Run (run_key i [''settled'']) ''settled'' (JObj [(''state'', js_or (js_get no_stage_result ''state'') JNull)])
            (rethrow (\<lambda>_. Done no_stage_result))
     else stage_body (opened_stage f digest i q) q (\<lambda>r. Run (run_key i [''settled'']) ''settled''
            (JObj [(''state'', js_or (js_get r ''state'') JNull)]) (rethrow (\<lambda>_. Done r))))"
proof -
  have "is_journaled (opened_stage f digest i q) \<noteq> is_live (opened_stage f digest i q)"
    using assms by (simp add: opened_stage_def)
  with mixed.body_law [where S = "opened_stage f digest i q" and K = "run_key i [''settled'']"] show ?thesis
    by (simp add: held_closing_call)
qed

lemma replaying_run:
  assumes "op_run E key name args s = (r, u)" and "is_replaying s"
  shows "quiet s u \<and> ((\<exists>q. r = Inr q \<and> EEffect key q \<in> set (journal s)) \<or> (\<exists>x. r = Inl x))"
proof -
  obtain p t where rp: "replay KEffect key s = (p, t)" by (cases "replay KEffect key s")
  have "p \<noteq> Inr None" using rp assms(2) replay_live_iff [of KEffect key s None t] by auto
  moreover have "p = Inr (Some e) \<Longrightarrow> e \<in> set (journal s) \<and> entry_key e = Some key \<and> entry_kind e = KEffect" for e
    using rp by (auto simp: replay_def Let_def entry_at_cursor_def split: option.splits if_splits)
  ultimately have "(\<exists>q. r = Inr q \<and> EEffect key q \<in> set (journal s)) \<or> (\<exists>x. r = Inl x)"
    using assms(1) rp by (auto simp: op_run_def split: sum.splits option.splits entry.splits)
  with op_run_replaying [OF assms] show ?thesis by simp
qed

lemma bind_version_entries: "bind_version E s = (b, sb) \<Longrightarrow> journal s \<noteq> [] \<Longrightarrow> sb = s"
  by (auto simp: bind_version_def split: option.splits if_splits)

lemma interp_mixed:
  assumes "EEffect (run_key i [''open'']) opened \<in> set (journal s)"
    and mixed: "\<And>q. EEffect (run_key i [''open'']) q \<in> set (journal s) \<Longrightarrow>
      js_get q ''digest'' \<noteq> JStr (digest (definition_binding i))"
    and i: "interp (traced E) (implementation_workflow f digest i) (start_ctx s) = (r, u)"
  shows "only_closes (run_key i [''settled'']) s u"
proof -
  obtain p t where op: "op_run (traced E) (run_key i [''open'']) ''open'' (open_args digest i) (start_ctx s) = (p, t)"
    by (cases "op_run (traced E) (run_key i [''open'']) ''open'' (open_args digest i) (start_ctx s)")
  from replaying_run [OF op start_replaying [OF assms(1)]]
  have q: "quiet (start_ctx s) t" and "(\<exists>q. p = Inr q \<and> EEffect (run_key i [''open'']) q \<in> set (journal s)) \<or> (\<exists>x. p = Inl x)"
    by auto
  then have "only_closes (run_key i [''settled'']) t u"
  proof (elim disjE exE conjE)
    fix o' assume o': "p = Inr o'" "EEffect (run_key i [''open'']) o' \<in> set (journal s)"
    show ?thesis
      by (rule interp_held [OF workflow_held [where i = i and f = f and digest = digest, OF mixed [OF o'(2)]]])
        (use i op o' in \<open>simp add: implementation_workflow_def implementation_pass_def\<close>)
  next
    fix x assume "p = Inl x"
    with i op show ?thesis by (simp add: implementation_workflow_def implementation_pass_def)
  qed
  with q have "only_closes (run_key i [''settled'']) (start_ctx s) u" by (rule only_closes_quiet)
  then show ?thesis by (simp add: only_closes_def)
qed

text \<open>
  C6. Nothing executes under a mixed definition. If the journal opened under a digest that is not the one of the live
  factory, a run of the stage, wherever it was cut before, executes no activity and journals
  no entry of the pass, and neither reads the clock nor awaits anything live: the only entry it can add, and the only
  activity it can execute, is the closing one of a pass the journal already holds to its end.
\<close>

theorem mixed_definition_executes_nothing:
  assumes opened: "EEffect (run_key i [''open'']) opened \<in> set (journal s)"
    and mixed: "\<And>q. EEffect (run_key i [''open'']) q \<in> set (journal s) \<Longrightarrow>
      js_get q ''digest'' \<noteq> JStr (digest (definition_binding i))"
    and run: "run_wf (traced E) (implementation_workflow f digest i) s = (r, s1)"
  shows "\<exists>es new. journal s1 = journal s @ es \<and> run_log s1 = run_log s @ new
    \<and> (\<forall>e\<in>set es. entry_key e = Some (run_key i [''settled''])) \<and> set new \<subseteq> {run_key i [''settled'']}"
using run
proof (cases rule: run_wf_cases)
  case (unbound b sb x)
  have "sb = s" by (rule bind_version_entries [OF unbound(1)]) (use opened in auto)
  with unbound show ?thesis by simp
next
  case (reached sb q u)
  have sb: "sb = s" by (rule bind_version_entries [OF reached(1)]) (use opened in auto)
  from interp_mixed [OF opened mixed reached(2) [unfolded sb]] reached(4) show ?thesis
    by (simp add: only_closes_def)
qed simp

subsection \<open>A concrete stage\<close>

text \<open>A world that is its clock; the ledger read finds a stage already settled, everything else answers an
  empty object.\<close>

definition answers :: "string \<Rightarrow> jsval \<Rightarrow> jsval" where
  "answers name args =
     (if name = ''open'' then args
      else if name = ''loadImplAttempts''
      then JObj [(''record'', JObj [(''impl_state'', JStr ''candidate'')])]
      else JObj [])"

definition stage_env :: "int env" where
  "stage_env = \<lparr>
     activities = (\<lambda>name. if name \<in> stage_activities then Some (\<lambda>args key w. (Inr (answers name args), w + 1)) else None),
     clock = (\<lambda>w. w), persist = None, on_activity = (\<lambda>key name args r w. w)\<rparr>"

text \<open>Stands in for the hash: any function of the binding serves.\<close>

definition demo_digest :: "jsval \<Rightarrow> string" where
  "demo_digest v = (if js_get v ''trustedRef'' = JStr ''main'' then ''d1'' else ''d2'')"

definition demo_item :: "string \<Rightarrow> stage_input" where
  "demo_item trusted = \<lparr>in_node = ''task-x'', in_run = ''run-1'', in_attempt = JNum 0,
     in_record = JObj [(''run_id'', JStr ''run-1''), (''termination_class'', JStr ''completed'')],
     in_impl = JObj [(''budget'', JObj [(''attempts'', JNum 1)])], in_trusted = JStr trusted,
     in_has = deps_shape (\<lambda>_. False) False\<rparr>"

definition stage_start :: "'w \<Rightarrow> 'w st" where
  "stage_start w = (fresh_execution w)\<lparr>version := Some (Some ''implementation'', ''1'')\<rparr>"

definition demo_result :: jsval where
  "demo_result = JObj [(''state'', JStr ''candidate''), (''attempts'', JArr []),
     (''reason'', JStr ''the stage already settled a candidate''), (''resumed'', JBool True)]"

definition demo_opened :: "string \<Rightarrow> jsval" where
  "demo_opened trusted = open_args demo_digest (demo_item trusted)"

definition stage_journal :: "entry list" where
  "stage_journal = [EVersion 1 (Some ''implementation'') ''1'',
     EEffect ''run-1/implementation/open'' (demo_opened ''main''),
     EEffect ''run-1/implementation/ledger'' (answers ''loadImplAttempts'' JNull),
     EEffect ''run-1/implementation/settled'' (JObj [])]"

definition demo_stage :: "run_result \<times> int st" where
  "demo_stage = run_wf stage_env (implementation_workflow 9 demo_digest (demo_item ''main'')) (stage_start 5)"

lemma demo_stage_run: "fst demo_stage = Completed demo_result \<and> journal (snd demo_stage) = stage_journal
    \<and> version (snd demo_stage) = Some (Some ''implementation'', ''1'')"
  by code_simp

lemma stage_env_binds: "binds stage_env stage_activities"
  by (auto simp: binds_def stage_env_def)

text \<open>The later worker has no activity at all, another trusted ref and another clock.\<close>

theorem settled_stage_replays_witness:
  "\<exists>t1. run_wf empty_env (implementation_workflow 20 demo_digest (demo_item ''release''))
      ((stage_start 100)\<lparr>journal := stage_journal\<rparr>) = (Completed demo_result, t1)
    \<and> world t1 = 100 \<and> executed_effects t1 = 0 \<and> journal t1 = stage_journal"
proof -
  have "run_wf stage_env (implementation_workflow 9 demo_digest (demo_item ''main'')) (stage_start 5)
      = (Completed demo_result, snd demo_stage)"
    using demo_stage_run unfolding demo_stage_def by (metis prod.collapse)
  from settled_stage_replays [OF this stage_env_binds, of "demo_item ''release''" 20
      "(stage_start 100)\<lparr>journal := stage_journal\<rparr>" empty_env demo_digest]
  show ?thesis using demo_stage_run
    by (simp add: same_item_def demo_item_def stage_start_def fresh_execution_def wakes_passed_def stage_journal_def)
qed

text \<open>A worker that crashed after the ledger read comes back under another trusted ref.\<close>

lemma demo_binding: "demo_digest (definition_binding (demo_item ''release'')) = ''d2''"
    "js_get (demo_opened ''main'') ''digest'' = JStr ''d1''"
  by (code_simp, code_simp)

theorem mixed_definition_executes_nothing_witness:
  "\<exists>es new. journal (snd (run_wf (traced stage_env) (implementation_workflow 9 demo_digest (demo_item ''release''))
       ((stage_start (7, []))\<lparr>journal := take 2 stage_journal\<rparr>))) = take 2 stage_journal @ es
    \<and> run_log (snd (run_wf (traced stage_env) (implementation_workflow 9 demo_digest (demo_item ''release''))
       ((stage_start (7, []))\<lparr>journal := take 2 stage_journal\<rparr>))) = new
    \<and> (\<forall>e\<in>set es. entry_key e = Some ''run-1/implementation/settled'')
    \<and> set new \<subseteq> {''run-1/implementation/settled''}"
proof -
  let ?s = "(stage_start (7, []))\<lparr>journal := take 2 stage_journal\<rparr>"
  let ?w = "implementation_workflow 9 demo_digest (demo_item ''release'')"
  have k: "run_key (demo_item ''release'') [p] = ''run-1/implementation/'' @ p" for p
    by (simp add: run_key_def demo_item_def)
  obtain r s1 where run: "run_wf (traced stage_env) ?w ?s = (r, s1)" by (cases "run_wf (traced stage_env) ?w ?s")
  from mixed_definition_executes_nothing [OF _ _ run, of "demo_opened ''main''"] run show ?thesis
    by (auto simp: k stage_journal_def demo_binding stage_start_def fresh_execution_def)
qed

end
