(* ===== verification/StageDriver.thy ===== *)
theory StageDriver
  imports ImplementationProps
begin

text \<open>
  The driver of a stage, \<^verbatim>\<open>src/lib/shell/stage-workflow.js\<close>, with the implementation stage's handlers
  (\<open>driveImplementationStage\<close>, \<open>settleRefusal\<close> in \<^verbatim>\<open>src/lib/shell/implementation-workflow.js\<close>): the
  readings of a kernel failure, the refusal record, the tombstone-then-settle policy, the wait of a
  backoff, the delivery of a run's end, and the drive loop with its bounded re-open.

  The injected \<open>deps\<close> are functions on the world, absent or present; a call that throws is its message. Log
  lines are left out. The drive loop and the backoff wait, which the outside world may keep going, take a fuel.
\<close>

subsection \<open>Readings of a failure\<close>

fun owner_lost :: "exn \<Rightarrow> bool" where
  "owner_lost (XPersist f) = (f_code f = JStr ''PIPELINE_OWNER_LOST'' \<and> \<not> f_replayed f)"
| "owner_lost x = live_owner_loss x"

fun is_poisoned :: "exn \<Rightarrow> bool" where
  "is_poisoned (XPersist f) = True"
| "is_poisoned _ = False"

definition describe_version :: "wf_version option \<Rightarrow> string" where
  "describe_version v = (case v of
       None \<Rightarrow> ''an unversioned workflow''
     | Some (w, n) \<Rightarrow> (case w of Some (c # cs) \<Rightarrow> c # cs | _ \<Rightarrow> ''workflow'') @ ''@'' @ n)"

definition version_mismatch_text :: "wf_version option \<Rightarrow> wf_version \<Rightarrow> string" where
  "version_mismatch_text rec v = ''journal was recorded by '' @ describe_version rec @ '', this execution is ''
     @ describe_version (Some v) @ dash @ ''open a new attempt rather than replaying it''"

text \<open>Why an attempt is refused: \<open>error.definitionMismatch\<close>, or the message of another failure.\<close>

datatype refusal_cause = Mixed jsval jsval jsval | OtherVersion string

text \<open>\<open>unresumable(error)\<close>, with what the refusal record reads of the error.\<close>

fun unresumable :: "exn \<Rightarrow> refusal_cause option" where
  "unresumable (XNonDeterminism (DefinitionMismatch run j l)) = Some (Mixed (JStr run) j l)"
| "unresumable (XVersionMismatch rec v) = Some (OtherVersion (version_mismatch_text rec v))"
| "unresumable _ = None"

fun replay_fault :: "exn \<Rightarrow> bool" where
  "replay_fault (XNonDeterminism (DefinitionMismatch _ _ _)) = False"
| "replay_fault (XNonDeterminism _) = True"
| "replay_fault _ = False"

subsection \<open>The refusal record\<close>

definition mismatch_value :: "jsval \<Rightarrow> jsval \<Rightarrow> jsval \<Rightarrow> jsval" where
  "mismatch_value run j l = JObj [(''runId'', run), (''journaled'', j), (''live'', l)]"

definition refusal_record :: "string \<Rightarrow> string \<Rightarrow> string \<Rightarrow> stage_input \<Rightarrow> refusal_cause \<Rightarrow> int \<Rightarrow> jsval" where
  "refusal_record stage what verb i cause now =
     (let attempt = (''attempt'', JNum (max 0 (number_or (in_attempt i) 0))) in
      case cause of
        OtherVersion msg \<Rightarrow> JObj [(''reason'', JStr ''journal_version_mismatch''),
          (''detail'', JStr (''this attempt's '' @ stage @ '' workflow journal was recorded by another version of the workflow (''
             @ msg @ ''); it is not resumed by this worker'')),
          (''at'', JNum now), (''journal_version_mismatch'', JBool True), attempt]
      | Mixed run j l \<Rightarrow> JObj [(''reason'', JStr ''definition_mismatch''),
          (''detail'', JStr (''the factory's '' @ stage @ '' definition ('' @ what
             @ '') was edited while this attempt was in flight (opened under '' @ js_string j @ '', now '' @ js_string l
             @ ''); nothing is judged or '' @ verb @ '' under a mixed definition'')),
          (''at'', JNum now), (''definition_mismatch'', mismatch_value run j l), attempt])"

definition recordless_cause :: "stage_input \<Rightarrow> string \<Rightarrow> refusal_cause" where
  "recordless_cause i reason =
     (if reason = ''definition_mismatch'' then Mixed (JStr (in_run i)) JNull JNull
      else OtherVersion (''the attempt's refusal tombstone carries no record (reason: ''
        @ (if reason = [] then ''refused'' else reason) @ '')''))"

definition impl_refusal :: "stage_input \<Rightarrow> refusal_cause \<Rightarrow> int \<Rightarrow> jsval" where
  "impl_refusal i cause now =
     refusal_record ''implementation'' ''its implementation block or trusted ref'' ''dispatched'' i cause now"

definition refusal_tags :: "jsval \<Rightarrow> bool \<Rightarrow> (string \<times> jsval) list" where
  "refusal_tags refusal replayed =
     (if truthy (js_get refusal ''definition_mismatch'')
      then [(''definition_mismatch'', js_get refusal ''definition_mismatch'')]
      else [(''journal_version_mismatch'', JBool True)])
     @ [(''refusal_tombstoned'', JBool True)] @ optional replayed ''refusal_replayed'' (JBool True)"

text \<open>\<open>carryRefusalTags\<close> and \<open>refusalSurface\<close>, over a stage's result.\<close>

definition carry_refusal_tags :: "jsval \<Rightarrow> jsval" where
  "carry_refusal_tags res = JObj
     (optional (truthy (js_get res ''definition_mismatch'')) ''definition_mismatch'' (js_get res ''definition_mismatch'')
      @ optional (truthy (js_get res ''journal_version_mismatch'')) ''journal_version_mismatch'' (JBool True)
      @ optional (truthy (js_get res ''refusal_tombstoned'')) ''refusal_tombstoned'' (JBool True)
      @ optional (truthy (js_get res ''refusal_replayed'')) ''refusal_replayed'' (JBool True))"

definition text_or_null :: "jsval \<Rightarrow> jsval" where
  "text_or_null v = (if nullish v then JNull else JStr (js_string v))"

definition refusal_surface :: "jsval \<Rightarrow> jsval" where
  "refusal_surface res =
     (let m = js_get res ''definition_mismatch'' in
      if \<not> is_objectlike res
         \<or> (\<not> truthy (js_get res ''refusal_tombstoned'') \<and> \<not> truthy m \<and> \<not> truthy (js_get res ''journal_version_mismatch''))
      then JNull
      else JObj ([(''reason'', JStr (if is_objectlike m then ''definition_mismatch'' else ''journal_version_mismatch''))]
        @ (if is_objectlike m
           then [(''journaled'', text_or_null (js_get m ''journaled'')), (''live'', text_or_null (js_get m ''live''))] else [])
        @ [(''tombstoned'', JBool (js_get res ''refusal_tombstoned'' = JBool True)),
           (''replayed'', JBool (js_get res ''refusal_replayed'' = JBool True))]
        @ optional (truthy (js_get res ''stage'')) ''stage'' (JStr (take 40 (js_string (js_get res ''stage''))))))"

subsection \<open>The injected functions and the settle\<close>

record 'w stage_deps =
  d_stopping :: "'w \<Rightarrow> bool"
  d_sleep :: "int \<Rightarrow> 'w \<Rightarrow> 'w"
  d_load :: "('w \<Rightarrow> (string + jsval) \<times> 'w) option"
  d_save :: "(jsval \<Rightarrow> jsval \<Rightarrow> 'w \<Rightarrow> 'w) option"
  d_escalate :: "(jsval \<Rightarrow> 'w \<Rightarrow> (string + jsval) \<times> 'w) option"
  d_await_run :: "(string \<Rightarrow> 'w \<Rightarrow> (string + jsval) \<times> 'w) option"
  d_open :: "'w \<Rightarrow> 'w st"
  d_reopenable :: bool

text \<open>\<open>settleRefusal\<close>: the ledger as it stands is stamped and the escalation filed, every write best-effort (\<open>d_save\<close>
  is the stamp whether or not it throws).\<close>

definition settle_load :: "'w stage_deps \<Rightarrow> int \<Rightarrow> 'w \<Rightarrow> stage_vars \<times> 'w" where
  "settle_load D key w =
     (let vars = (\<lambda>es. \<lparr>sv_attempts = es, sv_current = JNull, sv_key = key, sv_spent = 0\<rparr>) in
      case d_load D of
        None \<Rightarrow> (vars [], w)
      | Some load \<Rightarrow> (case load w of
            (Inr l, w1) \<Rightarrow> (vars (case js_get l ''attempts'' of JArr es \<Rightarrow> map entry_copy es | _ \<Rightarrow> []), w1)
          | (Inl _, w1) \<Rightarrow> (vars [], w1)))"

definition settle_refusal :: "'w stage_deps \<Rightarrow> stage_input \<Rightarrow> jsval \<Rightarrow> bool \<Rightarrow> 'w \<Rightarrow> jsval \<times> 'w" where
  "settle_refusal D i refusal replayed w =
     (let key = max 0 (number_or (js_get refusal ''attempt'') 0);
          reason = JStr (take stop_reason_cap (plain_text (js_get refusal ''detail'')));
          (v, w1) = settle_load D key w;
          v1 = v\<lparr>sv_attempts := map_last (of_segment v) (\<lambda>e. js_set e ''stop_reason'' reason) (sv_attempts v)\<rparr>;
          patch = JObj ((''impl_state'', JStr ''escalated'') # optional (mine v = []) ''impl_stop_reason'' reason);
          w2 = (case d_save D of None \<Rightarrow> w1 | Some sv \<Rightarrow> sv (ledger_copy (sv_attempts v1)) patch w1);
          again = JObj [(''stage'', JStr ''implementation''), (''state'', JStr ''escalated''), (''attempt'', in_attempt i),
            (''attempts'', ledger_copy (mine v1)), (''reason'', reason)];
          (r, w3) = (case d_escalate D of
              None \<Rightarrow> (Inl [], w2)
            | Some esc \<Rightarrow> esc (JObj [(''state'', JStr ''escalated''), (''attempts'', js_get again ''attempts''), (''reason'', reason)]) w2)
      in (stage_result ''escalated'' v1 reason (escalation_fields again r @ refusal_tags refusal replayed), w3))"

subsection \<open>Tombstone first, settle second\<close>

datatype driver_answer = Rethrow | Threw exn | Result jsval

definition tombstone_detail :: "entry \<Rightarrow> jsval" where
  "tombstone_detail e = (case e of ETombstone reason detail \<Rightarrow> detail | _ \<Rightarrow> JUndef)"

definition tombstone_reason :: "entry \<Rightarrow> string" where
  "tombstone_reason e = (case e of ETombstone reason detail \<Rightarrow> reason | _ \<Rightarrow> [])"

definition settle_with :: "'w stage_deps \<Rightarrow> stage_input \<Rightarrow> jsval \<Rightarrow> bool \<Rightarrow> 'w st \<Rightarrow> driver_answer \<times> 'w st" where
  "settle_with D i refusal replayed s =
     (case settle_refusal D i refusal replayed (world s) of (r, w) \<Rightarrow> (Result r, s\<lparr>world := w\<rparr>))"

definition settle_or_refuse :: "'w env \<Rightarrow> 'w stage_deps \<Rightarrow> stage_input \<Rightarrow> exn \<Rightarrow> 'w st \<Rightarrow> driver_answer \<times> 'w st" where
  "settle_or_refuse E D i x s =
     (case x of
        XTombstoned e \<Rightarrow> settle_with D i (js_or (tombstone_detail e)
          (impl_refusal i (recordless_cause i (tombstone_reason e)) (clock E (world s)))) True s
      | _ \<Rightarrow>
          (case unresumable x of
             None \<Rightarrow> (Rethrow, s)
           | Some cause \<Rightarrow>
               (let refusal = impl_refusal i cause (clock E (world s)) in
                case tombstone E (js_string (js_get refusal ''reason'')) refusal s of
                  (Inl y, s1) \<Rightarrow> (Threw y, s1)
                | (Inr e, s1) \<Rightarrow> settle_with D i (js_or (tombstone_detail e) refusal) False s1)))"

subsection \<open>Answering a suspension\<close>

definition backoff_slice_ms :: int where
  "backoff_slice_ms = 1000"

text \<open>Wait until \<open>fire\<close>, in slices; whether a stop was asked for. \<open>None\<close> where the fuel ran out first.\<close>

primrec wait_backoff :: "nat \<Rightarrow> 'w env \<Rightarrow> 'w stage_deps \<Rightarrow> int \<Rightarrow> 'w \<Rightarrow> (bool \<times> 'w) option" where
  "wait_backoff 0 E D fire w = None"
| "wait_backoff (Suc n) E D fire w =
     (if clock E w \<ge> fire then Some (d_stopping D w, w)
      else if d_stopping D w then Some (True, w)
      else wait_backoff n E D fire (d_sleep D (min backoff_slice_ms (fire - clock E w)) w))"

definition interrupted_at :: "stage_input \<Rightarrow> int \<Rightarrow> jsval" where
  "interrupted_at i fire = JObj [(''state'', JStr ''interrupted''), (''attempts'', JArr []),
     (''reason'', JStr (''the implementation stage on '' @ in_node i @ '' is yielded until '' @ iso_string fire
        @ '' and resumes on the next pass'')), (''paused_until'', JStr (iso_string fire))]"

definition plain_error :: "string \<Rightarrow> exn" where
  "plain_error msg = XActivity \<lparr>f_message = msg, f_name = ''Error'', f_code = JUndef, f_replayed = False\<rparr>"

definition run_of_signal :: "string \<Rightarrow> string option" where
  "run_of_signal name = (if take 4 name = ''run:'' \<and> drop 4 name \<noteq> [] then Some (drop 4 name) else None)"

definition run_ended_payload :: "string + jsval \<Rightarrow> jsval" where
  "run_ended_payload r =
     (let done' = (case r of Inr d \<Rightarrow> d | Inl m \<Rightarrow> JObj [(''ok'', JBool False), (''reason'', JStr m)]) in
      JObj ([(''ok'', JBool (truthy (js_get done' ''ok''))), (''record'', record_view (js_get done' ''record'')),
             (''reason'', js_or (js_get done' ''reason'') JNull)]
        @ optional (truthy (js_get done' ''unfollowable'')) ''unfollowable'' (JBool True)))"

datatype 'w suspension_answer = Handed jsval "'w st" | Again "'w st" | Broke exn "'w st" | Waiting "'w st"

definition on_suspended ::
  "nat \<Rightarrow> 'w env \<Rightarrow> 'w stage_deps \<Rightarrow> stage_input \<Rightarrow> suspension \<Rightarrow> 'w st \<Rightarrow> 'w suspension_answer" where
  "on_suspended fuel E D i d s = (case d of
       OnTimer key fire meta \<Rightarrow>
         (let parked = js_or (js_get meta ''parked'') (interrupted_at i fire) in
          if js_get meta ''mode'' \<noteq> JStr ''backoff'' then Handed parked s
          else case wait_backoff fuel E D fire (world s) of
                 None \<Rightarrow> Waiting s
               | Some (True, w) \<Rightarrow> Handed parked (s\<lparr>world := w\<rparr>)
               | Some (False, w) \<Rightarrow> Again (s\<lparr>world := w\<rparr>))
     | OnSignal key name deadline meta \<Rightarrow>
         (case (run_of_signal name, d_await_run D) of
            (Some run, Some await) \<Rightarrow>
              (case await run (world s) of
                 (r, w) \<Rightarrow> (case signal E name (run_ended_payload r) (s\<lparr>world := w\<rparr>) of
                     (None, s1) \<Rightarrow> Again s1
                   | (Some x, s1) \<Rightarrow> Broke x s1))
          | _ \<Rightarrow> Broke (plain_error (''the implementation workflow suspended on signal '' @ [CHR 0x27] @ name
                 @ [CHR 0x27] @ '' with no way to deliver it'')) s))"

subsection \<open>The drive loop\<close>

definition max_reopen :: nat where
  "max_reopen = 3"

datatype drive_end = DReturned jsval | DThrew exn | DOverran

text \<open>A failure that is not the owner's loss: re-open where the journal could not be written, else the stage's answer.\<close>

definition reopens :: "'w stage_deps \<Rightarrow> nat \<Rightarrow> exn \<Rightarrow> bool" where
  "reopens D k x \<longleftrightarrow> is_poisoned x \<and> d_reopenable D \<and> k < max_reopen"

primrec drive_stage ::
  "nat \<Rightarrow> 'w env \<Rightarrow> 'w stage_deps \<Rightarrow> stage_input \<Rightarrow> wf \<Rightarrow> nat \<Rightarrow> 'w st \<Rightarrow> drive_end \<times> 'w st" where
  "drive_stage 0 E D i w k s = (DOverran, s)"
| "drive_stage (Suc n) E D i w k s =
     (case run_wf E w s of
        (Completed v, s1) \<Rightarrow> (DReturned v, s1)
      | (Rejected x, s1) \<Rightarrow> (DThrew x, s1)
      | (Crashed wh, s1) \<Rightarrow> (DThrew (plain_error (''the implementation workflow crashed '' @ wh)), s1)
      | (Failed x, s1) \<Rightarrow>
          if owner_lost x then (DThrew x, s1)
          else if reopens D k x then drive_stage n E D i w (Suc k) (d_open D (world s1))
          else (case settle_or_refuse E D i x s1 of
                  (Rethrow, s2) \<Rightarrow> (DThrew x, s2)
                | (Threw y, s2) \<Rightarrow> (DThrew y, s2)
                | (Result r, s2) \<Rightarrow> (DReturned r, s2))
      | (Suspended d, s1) \<Rightarrow>
          (case on_suspended n E D i d s1 of
             Handed r s2 \<Rightarrow> (DReturned r, s2)
           | Again s2 \<Rightarrow> drive_stage n E D i w k s2
           | Waiting s2 \<Rightarrow> (DOverran, s2)
           | Broke x s2 \<Rightarrow> if \<not> owner_lost x \<and> reopens D k x then drive_stage n E D i w (Suc k) (d_open D (world s2))
                         else (DThrew x, s2)))"

text \<open>The whole driver: a factory with no implementation block never opens a journal.\<close>

definition drive_implementation ::
  "nat \<Rightarrow> 'w env \<Rightarrow> 'w stage_deps \<Rightarrow> (jsval \<Rightarrow> string) \<Rightarrow> stage_input \<Rightarrow> 'w \<Rightarrow> drive_end \<times> 'w" where
  "drive_implementation fuel E D digest i w =
     (if \<not> truthy (in_impl i) then (DReturned no_stage_result, w)
      else case drive_stage fuel E D i (implementation_workflow fuel digest i) 0 (d_open D w) of (r, s) \<Rightarrow> (r, world s))"

end
