(* ===== verification/StageDriverProps.thy ===== *)
theory StageDriverProps
  imports StageDriver
begin

text \<open>
  The driver over the kernel: an attempt refused once is re-settled from its tombstone ever after, and concrete runs
  of the stage and its driver.
\<close>

subsection \<open>A refusal is final\<close>

lemma unresumable_failure:
  assumes run: "run_wf E w s = (Failed x, s1)" and u: "unresumable x = Some cause"
  shows "journal_tombstone (journal s1) = None" "poisoned s1 = None" "\<not> owner_lost x" "\<not> is_poisoned x"
proof -
  show "\<not> owner_lost x" "\<not> is_poisoned x" using u by (cases x; simp)+
  have nt: "journal_tombstone (journal s) = None"
    using run u by (auto simp: run_wf_def split: option.splits)
  have np: "poisoned s = None" using run u by (auto simp: run_wf_def split: option.splits)
  obtain b sb where b: "bind_version E s = (b, sb)" by (cases "bind_version E s")
  obtain q t where i: "interp E w (start_ctx sb) = (q, t)" by (cases "interp E w (start_ctx sb)")
  from run np nt b i consider "b = Inr (Some x)" "s1 = sb\<lparr>settled := Some (Failed x)\<rparr>"
    | "b = Inr None" "Failed x = classify (q, t)" "s1 = t\<lparr>settled := Some (Failed x)\<rparr>"
    by (auto simp: run_wf_def Let_def split: sum.splits option.splits)
  then have "journal_tombstone (journal s1) = None \<and> poisoned s1 = None"
  proof cases
    case 1
    with b np nt show ?thesis by (auto simp: bind_version_def split: option.splits if_splits prod.splits)
  next
    case 2
    from interp_advances [OF i start_ctx_ok] have g: "grows (journal sb) (journal t)" by (simp add: advances_def)
    from b 2(1) have "bind_version E s = (Inr None, sb)" by simp
    from grows_tombstone [OF g] tombstone_after_bind [OF this np] nt 2(3)
    have "journal_tombstone (journal s1) = None" by simp
    moreover have "poisoned t = None" using 2(2) u by (auto simp: classify_def split: option.splits)
    ultimately show ?thesis using 2(3) by simp
  qed
  then show "journal_tombstone (journal s1) = None" "poisoned s1 = None" by auto
qed

lemma refusal_truthy: "truthy (impl_refusal i cause now)" "\<not> nullish (impl_refusal i cause now)"
  by (cases cause; simp add: impl_refusal_def refusal_record_def Let_def)+

lemma fresh_tombstone:
  assumes "tombstone E reason detail s = (Inr e, s1)" and "journal_tombstone (journal s) = None"
    and "\<not> nullish detail"
  shows "tombstone_detail e = detail" "poisoned s1 = None" "journal_tombstone (journal s1) = Some e"
  using assms(2,3) tombstone_read [OF assms(1)] assms(1)
  by (auto simp: tombstone_def tombstone_detail_def Let_def split: option.splits prod.splits)

lemma settle_or_refuse_result:
  assumes "settle_or_refuse E D i x s = (Result r, s1)" and u: "unresumable x = Some cause"
    and nt: "journal_tombstone (journal s) = None"
  obtains e refusal w where "r = fst (settle_refusal D i refusal False w)" "journal_tombstone (journal s1) = Some e"
    "tombstone_detail e = refusal" "truthy refusal" "refusal = impl_refusal i cause (clock E (world s))"
proof -
  let ?f = "impl_refusal i cause (clock E (world s))"
  obtain q s2 where t: "tombstone E (js_string (js_get ?f ''reason'')) ?f s = (q, s2)"
    by (cases "tombstone E (js_string (js_get ?f ''reason'')) ?f s")
  with assms obtain e where q: "q = Inr e" by (cases q; cases x) (auto simp: settle_or_refuse_def Let_def)
  note ft = fresh_tombstone [OF t [unfolded q] nt refusal_truthy(2)]
  have "settle_with D i ?f False s2 = (Result r, s1)"
    using assms(1) u t q ft(1) by (cases x) (auto simp: settle_or_refuse_def Let_def js_or_def refusal_truthy)
  then have "r = fst (settle_refusal D i ?f False (world s2))" "journal s1 = journal s2"
    by (auto simp: settle_with_def split: prod.splits)
  with ft that refusal_truthy show thesis by auto
qed

text \<open>
  C7. A refused attempt stays refused. If a run failed because the journal was opened under another definition or
  recorded by another workflow version, and the driver settled that refusal, then every later drive over the journal,
  with whatever workflow function, definition, dependencies and environment, settles the same refusal record again, marked
  as replayed, and executes and journals nothing: an edit reverted after the refusal cannot continue the attempt.
\<close>

theorem refused_attempt_stays_refused:
  assumes run: "run_wf E w s = (Failed x, s1)" and u: "unresumable x = Some cause"
    and refused: "drive_stage (Suc n) E D i w k s = (DReturned r, s2)"
    and t: "journal t = journal s2" "poisoned t = None"
  shows "\<exists>refusal w0. refusal = impl_refusal i cause (clock E (world s1)) \<and> r = fst (settle_refusal D i refusal False w0)
    \<and> (\<exists>t'. drive_stage (Suc m) E' D' i w' k' t = (DReturned (fst (settle_refusal D' i refusal True (world t))), t')
       \<and> journal t' = journal t \<and> executed_effects t' = executed_effects t)"
proof -
  note f = unresumable_failure [OF run u]
  have "settle_or_refuse E D i x s1 = (Result r, s2)"
    using refused run f(3,4) by (auto simp: reopens_def split: driver_answer.splits prod.splits)
  from settle_or_refuse_result [OF this u f(1)] obtain e refusal w0
    where r: "r = fst (settle_refusal D i refusal False w0)" "journal_tombstone (journal s2) = Some e"
      "tombstone_detail e = refusal" "truthy refusal" "refusal = impl_refusal i cause (clock E (world s1))" by blast
  let ?t = "t\<lparr>settled := Some (Failed (XTombstoned e))\<rparr>"
  have "run_wf E' w' t = (Failed (XTombstoned e), ?t)" using t r(2) by (simp add: run_wf_def)
  moreover have "settle_or_refuse E' D' i (XTombstoned e) ?t = settle_with D' i refusal True ?t"
    using r(3,4) by (simp add: settle_or_refuse_def js_or_def)
  ultimately have "drive_stage (Suc m) E' D' i w' k' t =
      (DReturned (fst (settle_refusal D' i refusal True (world t))),
       ?t\<lparr>world := snd (settle_refusal D' i refusal True (world t))\<rparr>)"
    by (simp add: reopens_def settle_with_def split: prod.split)
  with r show ?thesis by auto
qed

subsection \<open>A concrete refusal\<close>

text \<open>A journal recorded by another version: refused, tombstoned, and refused again by the next worker.\<close>

definition demo_deps :: "int stage_deps" where
  "demo_deps = \<lparr>d_stopping = (\<lambda>_. False), d_sleep = (\<lambda>ms w. w + ms), d_load = None, d_save = None, d_escalate = None,
     d_await_run = None, d_open = stage_start, d_reopenable = False\<rparr>"

definition old_journal :: "entry list" where
  "old_journal = [EVersion 1 (Some ''implementation'') ''0'']"

definition demo_cause :: refusal_cause where
  "demo_cause = OtherVersion (version_mismatch_text (Some (Some ''implementation'', ''0'')) (Some ''implementation'', ''1''))"

definition demo_refusal :: jsval where
  "demo_refusal = impl_refusal (demo_item ''main'') demo_cause 5"

definition refused_start :: "int st" where
  "refused_start = (stage_start 5)\<lparr>journal := old_journal\<rparr>"

abbreviation first_drive :: "drive_end \<times> int st" where
  "first_drive \<equiv> drive_stage 1 stage_env demo_deps (demo_item ''main'')
     (implementation_workflow 9 demo_digest (demo_item ''main'')) 0 refused_start"

lemma refused_run:
  "run_wf stage_env w refused_start = (Failed (XVersionMismatch (Some (Some ''implementation'', ''0'')) (Some ''implementation'', ''1'')),
     refused_start\<lparr>settled := Some (Failed (XVersionMismatch (Some (Some ''implementation'', ''0'')) (Some ''implementation'', ''1'')))\<rparr>)"
  by (simp add: run_defs refused_start_def stage_start_def fresh_execution_def old_journal_def)

lemma tombstone_lands:
  assumes "persist E = None" and "poisoned s = None" and "journal_tombstone (journal s) = None"
  shows "\<exists>e s1. tombstone E reason detail s = (Inr e, s1)"
  using assms
  by (auto simp: tombstone_def append_header_def append_entry_def Let_def split: option.splits prod.splits)

lemma refusal_settles:
  assumes "persist E = None" and "poisoned s = None" and "journal_tombstone (journal s) = None" and "unresumable x = Some cause"
  shows "\<exists>r s1. settle_or_refuse E D i x s = (Result r, s1)"
proof -
  let ?f = "impl_refusal i cause (clock E (world s))"
  obtain e s1 where "tombstone E (js_string (js_get ?f ''reason'')) ?f s = (Inr e, s1)"
    using tombstone_lands [OF assms(1-3)] by blast
  with assms(4) show ?thesis
    by (cases x) (auto simp: settle_or_refuse_def Let_def settle_with_def split: prod.split)
qed

lemma drive_failed:
  assumes "run_wf E w s = (Failed x, s1)" and "\<not> owner_lost x" and "\<not> is_poisoned x"
    and "settle_or_refuse E D i x s1 = (Result r, s2)"
  shows "drive_stage (Suc n) E D i w k s = (DReturned r, s2)"
  using assms by (simp add: reopens_def)

lemma first_drive_result: "\<exists>r s2. first_drive = (DReturned r, s2)"
proof -
  let ?x = "XVersionMismatch (Some (Some ''implementation'', ''0'')) (Some ''implementation'', ''1'')"
  have "\<exists>r s2. settle_or_refuse stage_env demo_deps (demo_item ''main'') ?x
      (refused_start\<lparr>settled := Some (Failed ?x)\<rparr>) = (Result r, s2)"
    by (rule refusal_settles)
      (simp_all add: stage_env_def refused_start_def stage_start_def fresh_execution_def old_journal_def journal_tombstone_def)
  with drive_failed [OF refused_run] show ?thesis by (metis One_nat_def is_poisoned.simps(7) owner_lost.simps(7) live_owner_loss.simps(6))
qed

theorem refused_attempt_stays_refused_witness:
  "\<exists>r w0. fst first_drive = DReturned r \<and> r = fst (settle_refusal demo_deps (demo_item ''main'') demo_refusal False w0)
    \<and> fst (drive_stage 1 empty_env demo_deps (demo_item ''main'') demo_wf 0
        ((stage_start 50)\<lparr>journal := journal (snd first_drive)\<rparr>))
      = DReturned (fst (settle_refusal demo_deps (demo_item ''main'') demo_refusal True 50))"
proof -
  obtain r s2 where d: "first_drive = (DReturned r, s2)" using first_drive_result by blast
  have c: "clock stage_env (world refused_start) = 5"
    by (simp add: stage_env_def refused_start_def stage_start_def fresh_execution_def)
  from refused_attempt_stays_refused [OF refused_run _ d [unfolded One_nat_def],
      of demo_cause "(stage_start 50)\<lparr>journal := journal s2\<rparr>" 0 empty_env demo_deps demo_wf 0] c d
  show ?thesis
    by (auto simp: demo_cause_def demo_refusal_def stage_start_def fresh_execution_def)
qed

end
