(* ===== verification/Execution.thy ===== *)
theory Execution
  imports JsValue "HOL-Library.List_Lexorder" "HOL-Library.Char_ord"
begin

text \<open>
  The execution record and its event reducer, \<^verbatim>\<open>src/lib/kernel/execution.js\<close>: the
  pinned record, the ownership transitions (claim, renew, release, force release), the
  replay keys, \<open>applyExecutionEvent\<close> with every event type, and \<open>rebuildFromEvents\<close>.

  The record is typed; events, candidates, provider handles and requests stay JavaScript
  values, read field by field as the source reads them. They are decoded JSON, so the
  \<open>JSON.parse(JSON.stringify(x))\<close> copies of the source are the identity here, and a record
  update stands for a mutation of the private copy. A record always carries its
  \<open>candidates\<close> array, as every record \<open>initExecution\<close> builds does (the shape that predates
  the array is not modelled). A refusal is its code; the message text is left out.
\<close>

subsection \<open>Vocabulary\<close>

datatype event_type =
    StageStarted | StageObserved
  | CandidateSubmitted | CandidateSuperseded | CandidatePublished
  | GateStarted | GateSettled | RescueStarted
  | IntegrationStarted | IntegrationSettled
  | EscalationFiled | CompletionWritten
  | AttemptSubmitting | AttemptSubmitted | AttemptObserved

definition event_type_of :: "jsval \<Rightarrow> event_type option" where
  "event_type_of v = map_of
     [(JStr ''stage.started'', StageStarted), (JStr ''stage.observed'', StageObserved),
      (JStr ''candidate.submitted'', CandidateSubmitted),
      (JStr ''candidate.superseded'', CandidateSuperseded),
      (JStr ''candidate.published'', CandidatePublished),
      (JStr ''gate.started'', GateStarted), (JStr ''gate.settled'', GateSettled),
      (JStr ''rescue.started'', RescueStarted),
      (JStr ''integration.started'', IntegrationStarted),
      (JStr ''integration.settled'', IntegrationSettled),
      (JStr ''escalation.filed'', EscalationFiled),
      (JStr ''completion.written'', CompletionWritten),
      (JStr ''attempt.submitting'', AttemptSubmitting),
      (JStr ''attempt.submitted'', AttemptSubmitted),
      (JStr ''attempt.observed'', AttemptObserved)] v"

definition is_provider_event :: "event_type \<Rightarrow> bool" where
  "is_provider_event t \<longleftrightarrow> t \<in> {AttemptSubmitting, AttemptSubmitted, AttemptObserved}"

datatype stage = Implementation | Gating | Integration | Completed | Refused
datatype boundary = GatesBoundary | IntegrationBoundary
datatype pool = PoolImplementation | PoolRetry | PoolCycle | PoolRescue
datatype gate_state = GatePassed | GateSkipped | GateFailed | GateInfrastructure
datatype integration_state = IntRunning | IntLanded | IntParked | IntFailed

definition stage_name :: "stage \<Rightarrow> string" where
  "stage_name s = (case s of Implementation \<Rightarrow> ''implementation'' | Gating \<Rightarrow> ''gating''
     | Integration \<Rightarrow> ''integration'' | Completed \<Rightarrow> ''completed'' | Refused \<Rightarrow> ''refused'')"

definition boundary_of :: "jsval \<Rightarrow> boundary" where
  "boundary_of v = (if v = JStr ''integration'' then IntegrationBoundary else GatesBoundary)"

definition pool_of :: "jsval \<Rightarrow> pool" where
  "pool_of v = (if v = JStr ''retry'' then PoolRetry else if v = JStr ''cycle'' then PoolCycle
     else if v = JStr ''rescue'' then PoolRescue else PoolImplementation)"

definition gate_state_of :: "jsval \<Rightarrow> gate_state option" where
  "gate_state_of v = (if v = JStr ''passed'' then Some GatePassed
     else if v = JStr ''skipped'' then Some GateSkipped
     else if v = JStr ''failed'' then Some GateFailed
     else if v = JStr ''infrastructure'' then Some GateInfrastructure else None)"

definition settled_integration_of :: "string \<Rightarrow> integration_state option" where
  "settled_integration_of s = (if s = ''landed'' then Some IntLanded
     else if s = ''parked'' then Some IntParked else if s = ''failed'' then Some IntFailed else None)"

definition settled_attempt_states :: "string list" where
  "settled_attempt_states = [''candidate'', ''no-candidate'', ''declined'', ''cancelled'', ''exhausted'']"

definition observe_terminal_states :: "string list" where
  "observe_terminal_states = [''finished'', ''failed'', ''lost'']"

datatype refusal =
    Invalid_event | Unknown_gate | Unknown_candidate | Candidate_conflict | No_candidate
  | Gates_unsettled | Boundary_not_reached | Attempt_handle_conflict | Execution_terminal
  | Not_owned | Fence_stale | Lease_expired | Lease_live | Already_owned | Conflict

subsection \<open>The record\<close>

record pinned_gate =
  pg_id :: string
  pg_node_id :: "string option"
  pg_revision :: "string option"
  pg_rejudge :: bool

record gate_row =
  gr_id :: string
  gr_state :: "gate_state option"
  gr_attempt :: int
  gr_settled_at :: "string option"
  gr_candidate :: "string option"

record provider_row =
  pv_id :: string
  pv_handle :: jsval
  pv_key :: "string option"
  pv_request :: jsval
  pv_env :: jsval
  pv_submitting_at :: "string option"
  pv_submitted_at :: "string option"
  pv_last_state :: "string option"
  pv_last_observed_at :: "string option"
  pv_last_detail :: "string option"
  pv_observed_seq :: int

text \<open>An attempt index is \<open>None\<close> where \<open>Number(event.attempt)\<close> was NaN.\<close>

record attempt_row =
  at_index :: "int option"
  at_pool :: pool
  at_stage :: jsval
  at_run_id :: "string option"
  at_state :: "string option"
  at_outcome :: "string option"
  at_started_at :: "string option"
  at_finished_at :: "string option"
  at_provider :: "provider_row option"

record integration_row =
  in_state :: integration_state
  in_attempt :: int
  in_at :: "string option"
  in_ref :: "string option"
  in_commit :: "string option"

record escalation_row =
  es_node_id :: string
  es_reason :: "string option"
  es_at :: "string option"

record owner =
  ow_worker :: string
  ow_machine :: "string option"
  ow_instance :: "string option"
  ow_lease :: string
  ow_fence :: int

record completion_row =
  cm_boundary :: boundary
  cm_written_at :: "string option"
  cm_resolver :: "string option"

record force_release_row =
  fr_request_id :: jsval
  fr_person :: jsval
  fr_reason :: string
  fr_at :: string
  fr_expected :: jsval
  fr_previous_owner :: "owner option"
  fr_previous_stage :: stage
  fr_previous_seq :: int
  fr_previous_candidate :: jsval
  fr_fence :: int

record execution =
  x_id :: string
  x_tenant :: string
  x_pipeline_attempt :: "int option"
  x_node_id :: string
  x_item_revision :: "string option"
  x_repo :: "string option"
  x_factory :: string
  x_factory_revision :: "string option"
  x_gates :: "pinned_gate list"
  x_stage :: stage
  x_attempts :: "attempt_row list"
  x_gate_results :: "gate_row list"
  x_candidate :: jsval
  x_candidates :: "jsval list"
  x_integration :: "integration_row option"
  x_escalations :: "escalation_row list"
  x_owner :: "owner option"
  x_completion :: completion_row
  x_premature :: bool
  x_seq :: int
  x_created_at :: "string option"
  x_updated_at :: "string option"
  x_released_at :: "string option"
  x_force_release :: "force_release_row option"

subsection \<open>Content-addressed ids\<close>

text \<open>\<open>idKey\<close>: the components joined by NUL, null and undefined reading as empty.\<close>

definition id_key :: "jsval list \<Rightarrow> string" where
  "id_key parts = join [char_of (0::nat)] (map (\<lambda>p. if nullish p then [] else js_string p) parts)"

definition is_lower_hex :: "char \<Rightarrow> bool" where
  "is_lower_hex c \<longleftrightarrow> is_digit c \<or> (97 \<le> (of_char c :: nat) \<and> (of_char c :: nat) \<le> 102)"

text \<open>\<open>sha16\<close>: the first 16 digits; \<open>None\<close> where the source throws on a digest that is
  not lowercase hex of at least 32 digits. The hash is the caller's.\<close>

definition sha16 :: "(string \<Rightarrow> string) \<Rightarrow> jsval list \<Rightarrow> string option" where
  "sha16 sha256 parts =
     (let hex = sha256 (id_key parts) in
      if 32 \<le> length hex \<and> list_all is_lower_hex hex then Some (take 16 hex) else None)"

text \<open>A number as an id component: the pipeline attempt, NaN spelled as JavaScript spells it.\<close>

definition number_value :: "int option \<Rightarrow> jsval" where
  "number_value n = (case n of Some i \<Rightarrow> JNum i | None \<Rightarrow> JStr ''NaN'')"

definition execution_id_for ::
  "(string \<Rightarrow> string) \<Rightarrow> jsval \<Rightarrow> jsval \<Rightarrow> jsval \<Rightarrow> int option \<Rightarrow> string option" where
  "execution_id_for sha256 tenant node_id factory attempt =
     map_option (\<lambda>h. ''exec-'' @ h) (sha16 sha256 [tenant, node_id, factory, number_value attempt])"

definition server_candidate_id_for :: "(string \<Rightarrow> string) \<Rightarrow> jsval \<Rightarrow> jsval \<Rightarrow> jsval \<Rightarrow> string" where
  "server_candidate_id_for sha256 repo node_id tree =
     (let line = (\<lambda>v. js_string (js_or v (JStr [])) @ [CHR 0x0A]) in
      ''cand-'' @ take 16 (sha256 (line repo @ line node_id @ line tree)))"

subsection \<open>Provider attempts: lookup and canonical index\<close>

definition max_safe_integer :: int where
  "max_safe_integer = 9007199254740991"

definition attempt_index :: "jsval \<Rightarrow> int option" where
  "attempt_index v =
     (let n = (case v of
                 JNum i \<Rightarrow> Some i
               | JStr s \<Rightarrow> if s \<noteq> [] \<and> list_all is_digit s then Some (int (nat_of_digits 0 s)) else None
               | _ \<Rightarrow> None)
      in case n of None \<Rightarrow> None
         | Some i \<Rightarrow> if 1 \<le> i \<and> i \<le> max_safe_integer then Some i else None)"

definition attempt_row_of :: "execution \<Rightarrow> jsval \<Rightarrow> attempt_row option" where
  "attempt_row_of r a = List.find (\<lambda>row. at_index row \<noteq> None \<and> at_index row = js_number a) (x_attempts r)"

definition provider_of :: "execution \<Rightarrow> jsval \<Rightarrow> provider_row option" where
  "provider_of r a = (case attempt_row_of r a of None \<Rightarrow> None | Some row \<Rightarrow> at_provider row)"

definition submit_key_of :: "jsval \<Rightarrow> string option" where
  "submit_key_of e = string_or_null (coalesce (js_get e ''submit_idempotency_key'') (js_get e ''idempotency_key''))"

text \<open>\<open>canonicalJson\<close>: object keys sorted, at every depth.\<close>

function (sequential) canonical :: "jsval \<Rightarrow> jsval" where
  "canonical (JArr vs) = JArr (map canonical vs)"
| "canonical (JObj fs) = JObj (sort_key fst (map (\<lambda>p. (fst p, canonical (snd p))) fs))"
| "canonical v = v"
  by pat_completeness auto
termination
proof (relation "measure size")
  fix fs :: "(string \<times> jsval) list" and p
  assume "p \<in> set fs"
  then show "(snd p, JObj fs) \<in> measure size"
    by (induction fs) (auto split: prod.splits)
qed (auto simp: less_Suc_eq_le size_list_estimation')

subsection \<open>Replay keys\<close>

definition key_of :: "string list \<Rightarrow> jsval" where
  "key_of parts = JStr (join '':'' parts)"

text \<open>\<open>derivedEventKey\<close>: the key, or \<open>JNull\<close> where the source returns null. A candidate's
  key is its \<open>candidate_id\<close> as the event spells it, whatever its type.\<close>

definition derived_event_key :: "execution \<Rightarrow> jsval \<Rightarrow> bool \<Rightarrow> jsval" where
  "derived_event_key r e raw =
     (let x = x_id r; s = (\<lambda>f. js_string (js_get e f));
          ak = (let v = js_get e ''attempt'' in
                if raw then v else (case attempt_index v of Some i \<Rightarrow> JNum i | None \<Rightarrow> v)) in
      case event_type_of (js_get e ''type'') of
        None \<Rightarrow> JNull
      | Some t \<Rightarrow>
          (case t of
             CandidateSubmitted \<Rightarrow> js_or (js_get (js_get e ''candidate'') ''candidate_id'') (key_of [x, ''candidate''])
           | CandidateSuperseded \<Rightarrow> js_or (js_get (js_get e ''candidate'') ''candidate_id'') (key_of [x, ''candidate''])
           | CandidatePublished \<Rightarrow>
               if nullish (js_get e ''candidate_id'') then JNull
               else key_of [x, ''published'', s ''candidate_id'']
           | GateStarted \<Rightarrow> key_of [x, s ''gate_id'', s ''attempt'', ''started'']
           | GateSettled \<Rightarrow> key_of [x, s ''gate_id'', s ''attempt'']
           | CompletionWritten \<Rightarrow> key_of [x, ''completion'']
           | StageStarted \<Rightarrow> key_of [x, ''stage.started'', s ''attempt'']
           | StageObserved \<Rightarrow> key_of [x, ''stage.observed'', s ''attempt'', s ''state'']
           | RescueStarted \<Rightarrow> key_of [x, ''rescue'', s ''attempt'']
           | IntegrationStarted \<Rightarrow> key_of [x, ''integration'', s ''attempt'', ''started'']
           | IntegrationSettled \<Rightarrow> key_of [x, ''integration'', s ''attempt'']
           | EscalationFiled \<Rightarrow> key_of [x, ''escalation'', s ''node_id'']
           | AttemptSubmitting \<Rightarrow> key_of [x, ''attempt.submitting'', js_string ak]
           | AttemptSubmitted \<Rightarrow> key_of [x, ''attempt.submitted'', js_string ak]
           | AttemptObserved \<Rightarrow>
               (let p = provider_of r ak;
                    n = (case p of None \<Rightarrow> 0 | Some q \<Rightarrow> pv_observed_seq q);
                    rep = (case p of None \<Rightarrow> False | Some q \<Rightarrow> pv_last_state q = Some (s ''state''))
                in key_of [x, ''attempt.observed'', js_string ak, int_string (if rep then n else n + 1), s ''state''])))"

definition event_key :: "execution \<Rightarrow> jsval \<Rightarrow> jsval" where
  "event_key r e =
     (if \<not> is_plain_object e then JNull
      else if \<not> nullish (js_get e ''idempotency_key'')
              \<and> (case event_type_of (js_get e ''type'') of None \<Rightarrow> True | Some t \<Rightarrow> \<not> is_provider_event t)
      then JStr (js_string (js_get e ''idempotency_key''))
      else derived_event_key r e False)"

subsection \<open>Construction\<close>

fun array_items :: "jsval \<Rightarrow> jsval list" where
  "array_items (JArr vs) = vs"
| "array_items _ = []"

definition frozen_gate :: "jsval \<Rightarrow> pinned_gate" where
  "frozen_gate g = \<lparr>pg_id = js_string (js_get g ''id''),
     pg_node_id = string_or_null (js_get g ''node_id''),
     pg_revision = string_or_null (js_get g ''revision''),
     pg_rejudge = (js_get g ''rejudge_on_repin'' \<noteq> JBool False)\<rparr>"

definition frozen_gates :: "jsval \<Rightarrow> pinned_gate list" where
  "frozen_gates gs = map frozen_gate (array_items gs)"

definition fresh_gate_row :: "pinned_gate \<Rightarrow> gate_row" where
  "fresh_gate_row g = \<lparr>gr_id = pg_id g, gr_state = None, gr_attempt = 0, gr_settled_at = None, gr_candidate = None\<rparr>"

definition init_execution :: "(string \<Rightarrow> string) \<Rightarrow> jsval \<Rightarrow> execution option" where
  "init_execution sha256 spec =
     (let attempt = (if nullish (js_get spec ''pipeline_attempt'') then Some 1
                     else js_number (js_get spec ''pipeline_attempt''));
          gates = frozen_gates (js_get spec ''gates'');
          at = string_or_null (js_get spec ''at'') in
      case execution_id_for sha256 (js_get spec ''tenant'') (js_get spec ''node_id'')
             (js_get spec ''factory_node_id'') attempt of
        None \<Rightarrow> None
      | Some i \<Rightarrow> Some \<lparr>
          x_id = i, x_tenant = js_string (js_get spec ''tenant''), x_pipeline_attempt = attempt,
          x_node_id = js_string (js_get spec ''node_id''),
          x_item_revision = string_or_null (js_get spec ''item_revision''),
          x_repo = string_or_null (js_get spec ''repo''),
          x_factory = js_string (js_get spec ''factory_node_id''),
          x_factory_revision = string_or_null (js_get spec ''factory_revision''),
          x_gates = gates, x_stage = Implementation, x_attempts = [],
          x_gate_results = map fresh_gate_row gates,
          x_candidate = JNull, x_candidates = [], x_integration = None, x_escalations = [],
          x_owner = None,
          x_completion = \<lparr>cm_boundary = boundary_of (js_get spec ''boundary''),
            cm_written_at = None, cm_resolver = None\<rparr>,
          x_premature = False, x_seq = 0, x_created_at = at, x_updated_at = at,
          x_released_at = None, x_force_release = None\<rparr>)"

subsection \<open>Derived reads\<close>

definition text_truthy :: "string option \<Rightarrow> bool" where
  "text_truthy v \<longleftrightarrow> (case v of Some s \<Rightarrow> s \<noteq> [] | None \<Rightarrow> False)"

definition candidate_id_string :: "jsval \<Rightarrow> string" where
  "candidate_id_string c = js_string (js_get c ''candidate_id'')"

definition valid_verification_time :: "jsval \<Rightarrow> bool" where
  "valid_verification_time v = (case v of JStr s \<Rightarrow> date_parse s \<noteq> None | _ \<Rightarrow> False)"

definition candidate_published :: "jsval \<Rightarrow> bool" where
  "candidate_published c =
     (case js_get (js_get c ''reference'') ''verified_at'' of JStr s \<Rightarrow> s \<noteq> [] | _ \<Rightarrow> False)"

text \<open>What stands for a published candidate: live reads want the marker, a historical
  replay any candidate.\<close>

definition candidate_ready :: "bool \<Rightarrow> execution \<Rightarrow> bool" where
  "candidate_ready hist r = (if hist then truthy (x_candidate r) else candidate_published (x_candidate r))"

definition gate_on_tip :: "execution \<Rightarrow> gate_row \<Rightarrow> bool" where
  "gate_on_tip r g =
     (truthy (x_candidate r) \<and>
      (case gr_candidate g of
         None \<Rightarrow> length (x_candidates r) \<le> 1
       | Some c \<Rightarrow> c = candidate_id_string (x_candidate r)))"

definition gate_accepted :: "bool \<Rightarrow> execution \<Rightarrow> gate_row \<Rightarrow> bool" where
  "gate_accepted hist r g =
     (gr_state g \<in> {Some GatePassed, Some GateSkipped} \<and>
      (gate_on_tip r g \<or> (hist \<and> truthy (x_candidate r) \<and> gr_candidate g = None) \<or>
       (case List.find (\<lambda>p. pg_id p = gr_id g) (x_gates r) of
          None \<Rightarrow> False | Some p \<Rightarrow> \<not> pg_rejudge p)))"

definition boundary_reached_for_gates :: "bool \<Rightarrow> execution \<Rightarrow> bool" where
  "boundary_reached_for_gates hist r =
     (candidate_ready hist r \<and> (x_gate_results r = [] \<or> list_all (gate_accepted hist r) (x_gate_results r)))"

definition landed :: "execution \<Rightarrow> bool" where
  "landed r = (case x_integration r of Some i \<Rightarrow> in_state i = IntLanded | None \<Rightarrow> False)"

definition boundary_reached :: "bool \<Rightarrow> execution \<Rightarrow> bool" where
  "boundary_reached hist r =
     (if x_stage r = Refused \<or> text_truthy (x_released_at r) then False
      else if x_stage r = Completed then True
      else
        (let gates_ok = x_gate_results r \<noteq> [] \<and> list_all (gate_accepted hist r) (x_gate_results r);
             accepted = candidate_ready hist r \<and> (x_gate_results r = [] \<or> gates_ok)
         in if cm_boundary (x_completion r) = GatesBoundary then accepted else accepted \<and> landed r))"

definition is_terminal :: "execution \<Rightarrow> bool" where
  "is_terminal r \<longleftrightarrow> x_stage r = Completed \<or> text_truthy (x_released_at r)"

subsection \<open>Ownership\<close>

definition parse_time :: "string option \<Rightarrow> int option" where
  "parse_time t = (case t of None \<Rightarrow> None | Some s \<Rightarrow> date_parse s)"

text \<open>\<open>Date.parse(a) <= Date.parse(b)\<close>: false when either is NaN.\<close>

definition not_after :: "string option \<Rightarrow> string option \<Rightarrow> bool" where
  "not_after a b = (case (parse_time a, parse_time b) of (Some x, Some y) \<Rightarrow> x \<le> y | _ \<Rightarrow> False)"

text \<open>The refusal, or \<open>None\<close> for \<open>{ ok: true }\<close>.\<close>

definition ownership_fence :: "execution \<Rightarrow> jsval \<Rightarrow> refusal option" where
  "ownership_fence r fence =
     (case x_owner r of
        None \<Rightarrow> Some Not_owned
      | Some ow \<Rightarrow> if js_number fence \<noteq> Some (ow_fence ow) then Some Fence_stale else None)"

definition ownership_live :: "execution \<Rightarrow> jsval \<Rightarrow> string option \<Rightarrow> refusal option" where
  "ownership_live r fence now =
     (case ownership_fence r fence of
        Some x \<Rightarrow> Some x
      | None \<Rightarrow>
          (case x_owner r of
             None \<Rightarrow> Some Not_owned
           | Some ow \<Rightarrow>
               if parse_time now = None \<or> date_parse (ow_lease ow) = None \<or> not_after (Some (ow_lease ow)) now
               then Some Lease_expired else None))"

record claim_args =
  ca_worker :: string
  ca_machine :: "string option"
  ca_instance :: "string option"
  ca_lease :: string
  ca_now :: string
  ca_takeover :: bool

definition same_owner :: "execution \<Rightarrow> claim_args \<Rightarrow> bool" where
  "same_owner r a = (case x_owner r of None \<Rightarrow> False
     | Some ow \<Rightarrow> ow_worker ow = ca_worker a \<and> ow_machine ow = ca_machine a)"

definition same_instance :: "execution \<Rightarrow> claim_args \<Rightarrow> bool" where
  "same_instance r a = (same_owner r a \<and>
     (case x_owner r of None \<Rightarrow> False | Some ow \<Rightarrow> ow_instance ow = ca_instance a))"

definition lease_expired :: "execution \<Rightarrow> string \<Rightarrow> bool" where
  "lease_expired r now = (case x_owner r of None \<Rightarrow> True | Some ow \<Rightarrow> not_after (Some (ow_lease ow)) (Some now))"

definition owner_fence :: "execution \<Rightarrow> int" where
  "owner_fence r = (case x_owner r of None \<Rightarrow> 0 | Some ow \<Rightarrow> ow_fence ow)"

definition claim :: "execution \<Rightarrow> claim_args \<Rightarrow> refusal + execution" where
  "claim r a =
     (if is_terminal r then Inl Execution_terminal
      else if x_owner r \<noteq> None \<and> \<not> lease_expired r (ca_now a) \<and> \<not> same_owner r a
      then Inl (if ca_takeover a then Lease_live else Already_owned)
      else
        (let fence = (if same_instance r a \<and> \<not> ca_takeover a then owner_fence r else owner_fence r + 1)
         in Inr (r\<lparr>x_owner := Some \<lparr>ow_worker = ca_worker a, ow_machine = ca_machine a,
                   ow_instance = ca_instance a, ow_lease = ca_lease a, ow_fence = fence\<rparr>,
                 x_updated_at := Some (ca_now a)\<rparr>)))"

definition renew :: "execution \<Rightarrow> jsval \<Rightarrow> string \<Rightarrow> string \<Rightarrow> refusal + execution" where
  "renew r fence lease now =
     (case ownership_live r fence (Some now) of
        Some x \<Rightarrow> Inl x
      | None \<Rightarrow> Inr (r\<lparr>x_owner := map_option (\<lambda>ow. ow\<lparr>ow_lease := lease\<rparr>) (x_owner r),
                     x_updated_at := Some now\<rparr>))"

definition release :: "execution \<Rightarrow> jsval \<Rightarrow> string \<Rightarrow> refusal + execution" where
  "release r fence now =
     (if x_stage r = Completed then Inl Execution_terminal
      else case ownership_live r fence (Some now) of
        Some x \<Rightarrow> Inl x
      | None \<Rightarrow> Inr (r\<lparr>x_owner := None, x_released_at := Some now, x_updated_at := Some now\<rparr>))"

definition is_request_char :: "char \<Rightarrow> bool" where
  "is_request_char c \<longleftrightarrow> is_digit c \<or> (65 \<le> (of_char c :: nat) \<and> (of_char c :: nat) \<le> 90)
     \<or> (97 \<le> (of_char c :: nat) \<and> (of_char c :: nat) \<le> 122) \<or> c = CHR ''_'' \<or> c = CHR ''-''"

record force_args =
  fa_node_id :: jsval
  fa_person :: jsval
  fa_reason :: jsval
  fa_request_id :: jsval
  fa_expected :: jsval
  fa_revision :: jsval
  fa_now :: string

definition valid_force_args :: "force_args \<Rightarrow> bool" where
  "valid_force_args a \<longleftrightarrow>
     (case fa_reason a of JStr s \<Rightarrow> trim s \<noteq> [] \<and> length s \<le> 2000 | _ \<Rightarrow> False)
     \<and> (case fa_request_id a of JStr s \<Rightarrow> 1 \<le> length s \<and> length s \<le> 128 \<and> list_all is_request_char s | _ \<Rightarrow> False)
     \<and> (case fa_expected a of JStr s \<Rightarrow> length s = 64 \<and> list_all is_lower_hex s | _ \<Rightarrow> False)
     \<and> truthy (fa_person a) \<and> date_parse (fa_now a) \<noteq> None"

text \<open>\<open>Inr (record, replayed)\<close>. The revision the caller inspected is compared with the
  one the engine hashed; the hash itself (\<open>releaseStateKey\<close>) is the engine's argument.\<close>

definition force_release :: "execution \<Rightarrow> force_args \<Rightarrow> refusal + execution \<times> bool" where
  "force_release r a =
     (if \<not> valid_force_args a then Inl Invalid_event
      else if fa_node_id a \<noteq> JStr (x_node_id r) then Inl Conflict
      else
        (let fresh =
          (if is_terminal r then Inl Execution_terminal
           else if fa_expected a \<noteq> fa_revision a then Inl Conflict
           else Inr (r\<lparr>
             x_force_release := Some \<lparr>fr_request_id = fa_request_id a, fr_person = fa_person a,
               fr_reason = trim (js_string (fa_reason a)), fr_at = fa_now a, fr_expected = fa_expected a,
               fr_previous_owner = x_owner r, fr_previous_stage = x_stage r, fr_previous_seq = x_seq r,
               fr_previous_candidate = js_or (js_get (x_candidate r) ''candidate_id'') JNull,
               fr_fence = owner_fence r + 1\<rparr>,
             x_owner := None, x_released_at := Some (fa_now a), x_updated_at := Some (fa_now a)\<rparr>, False))
         in case x_force_release r of
              Some p \<Rightarrow>
                if fr_request_id p = fa_request_id a then
                  (if fr_person p \<noteq> fa_person a \<or> fr_reason p \<noteq> trim (js_string (fa_reason a))
                      \<or> fr_expected p \<noteq> fa_expected a
                   then Inl Conflict else Inr (r, True))
                else fresh
            | None \<Rightarrow> fresh))"

subsection \<open>The attempt rows\<close>

text \<open>\<open>next.attempts.sort((a, b) => a.index - b.index)\<close> after a push: a null index sorts as 0,
  a fresh NaN index compares equal to everything and stays last.\<close>

definition sort_index :: "attempt_row \<Rightarrow> int" where
  "sort_index row = (case at_index row of Some i \<Rightarrow> i | None \<Rightarrow> 0)"

definition push_attempt :: "attempt_row \<Rightarrow> attempt_row list \<Rightarrow> attempt_row list" where
  "push_attempt row rows =
     (if at_index row = None then sort_key sort_index rows @ [row] else sort_key sort_index (rows @ [row]))"

definition fresh_attempt :: "execution \<Rightarrow> jsval \<Rightarrow> string option \<Rightarrow> attempt_row" where
  "fresh_attempt r e at = \<lparr>at_index = js_number (js_get e ''attempt''), at_pool = pool_of (js_get e ''pool''),
     at_stage = js_or (js_get e ''stage'') (JStr (stage_name (x_stage r))),
     at_run_id = string_or_null (js_get e ''run_id''), at_state = None, at_outcome = None,
     at_started_at = at, at_finished_at = None, at_provider = None\<rparr>"

text \<open>\<open>upsertAttempt\<close> followed by the caller's mutation of the row it returns.\<close>

definition on_attempt ::
  "execution \<Rightarrow> jsval \<Rightarrow> string option \<Rightarrow> (attempt_row \<Rightarrow> attempt_row) \<Rightarrow> execution" where
  "on_attempt r e at f =
     (case attempt_row_of r (js_get e ''attempt'') of
        Some _ \<Rightarrow> r\<lparr>x_attempts := update_first
          (\<lambda>row. at_index row \<noteq> None \<and> at_index row = js_number (js_get e ''attempt'')) f (x_attempts r)\<rparr>
      | None \<Rightarrow> r\<lparr>x_attempts := push_attempt (f (fresh_attempt r e at)) (x_attempts r)\<rparr>)"

definition observe_attempt :: "jsval \<Rightarrow> string option \<Rightarrow> attempt_row \<Rightarrow> attempt_row" where
  "observe_attempt e at row =
     (let st = (if nullish (js_get e ''state'') then at_state row else Some (js_string (js_get e ''state'')));
          row1 = row\<lparr>at_state := st,
            at_outcome := (if nullish (js_get e ''outcome'') then at_outcome row else Some (js_string (js_get e ''outcome''))),
            at_run_id := (if nullish (js_get e ''run_id'') then at_run_id row else Some (js_string (js_get e ''run_id'')))\<rparr>
      in if (case st of Some x \<Rightarrow> x \<in> set settled_attempt_states | None \<Rightarrow> False)
         then row1\<lparr>at_finished_at := at\<rparr> else row1)"

text \<open>The state the row of \<open>stage.observed\<close> ends in, which decides the refusal.\<close>

definition observed_state :: "execution \<Rightarrow> jsval \<Rightarrow> string option" where
  "observed_state r e =
     (if \<not> nullish (js_get e ''state'') then Some (js_string (js_get e ''state''))
      else case attempt_row_of r (js_get e ''attempt'') of Some row \<Rightarrow> at_state row | None \<Rightarrow> None)"

subsection \<open>The provider attempt handle\<close>

definition valid_provider_id :: "jsval \<Rightarrow> bool" where
  "valid_provider_id v = (case v of JStr s \<Rightarrow> s \<noteq> [] \<and> length s \<le> 128 | _ \<Rightarrow> False)"

definition valid_submit_key :: "string option \<Rightarrow> bool" where
  "valid_submit_key k = (case k of Some s \<Rightarrow> 8 \<le> length s \<and> length s \<le> 512 | None \<Rightarrow> False)"

definition valid_handle :: "jsval \<Rightarrow> bool" where
  "valid_handle v = (case v of JStr s \<Rightarrow> s \<noteq> [] | JObj _ \<Rightarrow> True | _ \<Rightarrow> False)"

text \<open>\<open>attemptHandleConflict\<close>: \<open>None\<close> when there is none.\<close>

definition attempt_handle_conflict :: "execution \<Rightarrow> event_type \<Rightarrow> jsval \<Rightarrow> refusal option" where
  "attempt_handle_conflict r t e =
     (if t = AttemptObserved \<or> nullish (js_get e ''attempt'') then None
      else case provider_of r (js_get e ''attempt'') of
        None \<Rightarrow> None
      | Some p \<Rightarrow>
          (let same_submit = js_get e ''provider'' = JStr (pv_id p) \<and> submit_key_of e = pv_key p in
           if t = AttemptSubmitted \<and> \<not> nullish (pv_handle p) then
             (if nullish (js_get e ''handle'') then Some Invalid_event
              else if \<not> same_submit \<or> canonical (pv_handle p) \<noteq> canonical (js_get e ''handle'')
              then Some Attempt_handle_conflict else None)
           else if t = AttemptSubmitting \<and> \<not> same_submit then Some Attempt_handle_conflict
           else None))"

definition new_provider :: "jsval \<Rightarrow> string option \<Rightarrow> jsval \<Rightarrow> string option \<Rightarrow> provider_row" where
  "new_provider pid key request submitting = \<lparr>pv_id = js_string pid, pv_handle = JNull, pv_key = key,
     pv_request = request, pv_env = JNull, pv_submitting_at = submitting, pv_submitted_at = None,
     pv_last_state = None, pv_last_observed_at = None, pv_last_detail = None, pv_observed_seq = 0\<rparr>"

definition take_handle :: "jsval \<Rightarrow> string option \<Rightarrow> provider_row \<Rightarrow> provider_row" where
  "take_handle e at p = p\<lparr>pv_handle := js_get e ''handle'',
     pv_env := coalesce (js_get e ''env'') JNull,
     pv_submitted_at := (if nullish (js_get e ''submitted_at'') then at else Some (js_string (js_get e ''submitted_at'')))\<rparr>"

definition take_observation :: "jsval \<Rightarrow> string option \<Rightarrow> provider_row \<Rightarrow> provider_row" where
  "take_observation e at p = p\<lparr>pv_last_state := Some (js_string (js_get e ''state'')),
     pv_last_observed_at := (if nullish (js_get e ''observed_at'') then at else Some (js_string (js_get e ''observed_at''))),
     pv_last_detail := string_or_null (js_get e ''detail''),
     pv_observed_seq := pv_observed_seq p + 1\<rparr>"

definition apply_submitting :: "execution \<Rightarrow> jsval \<Rightarrow> string option \<Rightarrow> refusal + execution" where
  "apply_submitting r e at =
     (let key = submit_key_of e in
      if \<not> valid_provider_id (js_get e ''provider'') then Inl Invalid_event
      else if \<not> valid_submit_key key then Inl Invalid_event
      else if \<not> is_plain_object (js_get e ''request'') then Inl Invalid_event
      else case provider_of r (js_get e ''attempt'') of
        Some p \<Rightarrow> Inl (if nullish (pv_handle p) then Attempt_handle_conflict else Invalid_event)
      | None \<Rightarrow> Inr (on_attempt r e at (\<lambda>row. row\<lparr>at_provider :=
            Some (new_provider (js_get e ''provider'') key (js_get e ''request'') at)\<rparr>)))"

definition apply_submitted :: "bool \<Rightarrow> execution \<Rightarrow> jsval \<Rightarrow> string option \<Rightarrow> refusal + execution" where
  "apply_submitted hist r e at =
     (let key = submit_key_of e; existing = provider_of r (js_get e ''attempt'') in
      if \<not> valid_provider_id (js_get e ''provider'') then Inl Invalid_event
      else if \<not> valid_handle (js_get e ''handle'') then Inl Invalid_event
      else if \<not> valid_submit_key key then Inl Invalid_event
      else if \<not> nullish (js_get e ''env'') \<and> \<not> is_plain_object (js_get e ''env'') then Inl Invalid_event
      else if (case existing of Some p \<Rightarrow> JStr (pv_id p) \<noteq> js_get e ''provider'' \<or> pv_key p \<noteq> key | None \<Rightarrow> False)
      then Inl Attempt_handle_conflict
      else if existing = None \<and> \<not> hist then Inl Invalid_event
      else Inr (on_attempt r e at (\<lambda>row. row\<lparr>at_provider := Some (take_handle e at
            (case at_provider row of Some p \<Rightarrow> p
             | None \<Rightarrow> new_provider (js_get e ''provider'') key JNull None))\<rparr>)))"

definition apply_observed :: "execution \<Rightarrow> jsval \<Rightarrow> string option \<Rightarrow> refusal + execution" where
  "apply_observed r e at =
     (case provider_of r (js_get e ''attempt'') of
        None \<Rightarrow> Inl Invalid_event
      | Some p \<Rightarrow>
          if nullish (pv_handle p) then Inl Invalid_event
          else if (case js_get e ''state'' of JStr s \<Rightarrow> s = [] | _ \<Rightarrow> True) then Inl Invalid_event
          else if (case pv_last_state p of Some s \<Rightarrow> s \<in> set observe_terminal_states | None \<Rightarrow> False)
          then Inl Invalid_event
          else Inr (on_attempt r e at (\<lambda>row. row\<lparr>at_provider := map_option (take_observation e at) (at_provider row)\<rparr>)))"

definition apply_attempt_event ::
  "bool \<Rightarrow> execution \<Rightarrow> event_type \<Rightarrow> jsval \<Rightarrow> string option \<Rightarrow> refusal + execution" where
  "apply_attempt_event hist r t e at =
     (if nullish (js_get e ''attempt'') \<or>
         (case js_number (js_get e ''attempt'') of None \<Rightarrow> True | Some i \<Rightarrow> i < 1)
      then Inl Invalid_event
      else (case t of
              AttemptSubmitting \<Rightarrow> apply_submitting r e at
            | AttemptSubmitted \<Rightarrow> apply_submitted hist r e at
            | AttemptObserved \<Rightarrow> apply_observed r e at
            | _ \<Rightarrow> Inl Invalid_event))"

subsection \<open>The candidate chain\<close>

text \<open>Old source repins kept in-flight verdicts; live admissions, marked as such on the log,
  bind unbound verdicts to the tip they judged and drop the integration.\<close>

definition leave_tip :: "execution \<Rightarrow> execution" where
  "leave_tip r = r\<lparr>
     x_gate_results := map (\<lambda>g. if gr_candidate g = None \<and> gr_state g \<noteq> None
        then g\<lparr>gr_candidate := string_or_null (js_get (x_candidate r) ''candidate_id'')\<rparr> else g) (x_gate_results r),
     x_integration := None\<rparr>"

definition commits_seen :: "jsval \<Rightarrow> jsval \<Rightarrow> jsval list" where
  "commits_seen tip c =
     (let seen = array_items (js_get tip ''commits_seen''); commit = JStr (js_string (js_get c ''commit'')) in
      if js_string (js_get c ''commit'') \<noteq> js_string (js_get tip ''commit'') \<and> commit \<notin> set seen
      then seen @ [commit] else seen)"

text \<open>The same id again: \<open>commits_seen\<close> grows, the pinned commit and reference do not.\<close>

definition resubmit :: "execution \<Rightarrow> jsval \<Rightarrow> execution" where
  "resubmit r c =
     (let merged = js_set (x_candidate r) ''commits_seen'' (JArr (commits_seen (x_candidate r) c));
          same = (\<lambda>x. candidate_id_string x = candidate_id_string c)
      in r\<lparr>x_candidate := merged,
           x_candidates := (case find_index same (x_candidates r) of
              Some i \<Rightarrow> (x_candidates r)[i := merged]
            | None \<Rightarrow> x_candidates r @ [merged])\<rparr>)"

text \<open>A different id: the first candidate, or one that names the current tip.\<close>

definition repin :: "bool \<Rightarrow> execution \<Rightarrow> jsval \<Rightarrow> jsval \<Rightarrow> refusal + execution" where
  "repin hist r e c =
     (let tip = x_candidate r;
          supersedes = string_or_null (coalesce (js_get c ''supersedes'') (js_get e ''supersedes''));
          entry = js_set c ''supersedes''
            (if truthy tip then JStr (candidate_id_string tip)
             else if nullish (js_get c ''supersedes'') then JNull else JStr (js_string (js_get c ''supersedes'')))
      in if truthy tip \<and> landed r then Inl Candidate_conflict
         else if truthy tip \<and> supersedes \<noteq> Some (candidate_id_string tip) then Inl Candidate_conflict
         else
           (let r1 = (if truthy tip \<and> (\<not> hist \<or> js_get e ''admission_version'' \<noteq> JUndef) then leave_tip r else r)
            in Inr (r1\<lparr>x_candidate := entry, x_candidates := x_candidates r1 @ [entry]\<rparr>)))"

definition candidate_attempt :: "jsval \<Rightarrow> int option" where
  "candidate_attempt c =
     (let p = js_get c ''provenance'' in js_number (if truthy p then js_get p ''attempt'' else p))"

definition close_attempt :: "string option \<Rightarrow> attempt_row \<Rightarrow> attempt_row" where
  "close_attempt at row = row\<lparr>at_state := Some ''candidate'', at_outcome := Some ''candidate'',
     at_finished_at := (if text_truthy (at_finished_at row) then at_finished_at row else at)\<rparr>"

text \<open>What follows either way: the premature mark, the attempt that produced it, the stage.\<close>

definition pinned :: "execution \<Rightarrow> jsval \<Rightarrow> string option \<Rightarrow> execution" where
  "pinned r e at =
     (let c = js_get e ''candidate'' in
      r\<lparr>x_premature := (x_premature r \<or> js_get e ''premature_resolution'' = JBool True),
        x_attempts := update_first
          (\<lambda>row. at_index row \<noteq> None \<and> at_index row = candidate_attempt c) (close_attempt at) (x_attempts r),
        x_stage := Gating\<rparr>)"

definition pin_candidate :: "bool \<Rightarrow> execution \<Rightarrow> jsval \<Rightarrow> string option \<Rightarrow> refusal + execution" where
  "pin_candidate hist r e at =
     (let c = js_get e ''candidate''; tip = x_candidate r;
          same_tip = truthy tip \<and> candidate_id_string tip = candidate_id_string c;
          verified = js_get (js_get c ''reference'') ''verified_at'' in
      if \<not> is_objectlike c then Inl Invalid_event
      else if \<not> truthy (js_get c ''commit'') \<or> \<not> truthy (js_get c ''tree'') then Inl Invalid_event
      else if \<not> hist \<and> \<not> nullish verified \<and> \<not> valid_verification_time verified then Inl Invalid_event
      else if \<not> hist \<and> \<not> same_tip \<and>
              list_ex (\<lambda>x. candidate_id_string x = candidate_id_string c) (x_candidates r)
      then Inl Candidate_conflict
      else if same_tip then Inr (pinned (resubmit r c) e at)
      else (case repin hist r e c of Inl x \<Rightarrow> Inl x | Inr r1 \<Rightarrow> Inr (pinned r1 e at)))"

text \<open>\<open>{ ...(a || {}), k: v }\<close> over a JSON value: an array spreads its indices, a string its
  characters, any other non-object nothing.\<close>

definition js_spread :: "jsval \<Rightarrow> jsval" where
  "js_spread v = (case v of JObj fs \<Rightarrow> JObj fs
     | JArr vs \<Rightarrow> JObj (zip (map nat_string [0..<length vs]) vs)
     | JStr s \<Rightarrow> JObj (zip (map nat_string [0..<length s]) (map (\<lambda>c. JStr [c]) s))
     | _ \<Rightarrow> JObj [])"

text \<open>The published reference, with the verification time wherever the event carries it.\<close>

definition normal_reference :: "jsval \<Rightarrow> jsval" where
  "normal_reference e =
     js_set (js_spread (js_get e ''reference'')) ''verified_at''
       (coalesce (js_get (js_get e ''reference'') ''verified_at'') (js_get e ''verified_at''))"

text \<open>The chain entry named \<open>i\<close> becomes \<open>f\<close> of itself, and so does the tip when it is that entry.\<close>

definition publish_entry :: "execution \<Rightarrow> string \<Rightarrow> jsval \<Rightarrow> execution" where
  "publish_entry r i entry = r\<lparr>
     x_candidates := update_first (\<lambda>c. candidate_id_string c = i) (\<lambda>_. entry) (x_candidates r),
     x_candidate := (if truthy (x_candidate r) \<and> candidate_id_string (x_candidate r) = i
                     then entry else x_candidate r)\<rparr>"

definition text_value :: "string option \<Rightarrow> jsval" where
  "text_value t = (case t of Some s \<Rightarrow> JStr s | None \<Rightarrow> JNull)"

definition publish :: "bool \<Rightarrow> execution \<Rightarrow> jsval \<Rightarrow> string option \<Rightarrow> refusal + execution" where
  "publish hist r e at =
     (if nullish (js_get e ''candidate_id'') then Inl Invalid_event
      else
        (let i = js_string (js_get e ''candidate_id'');
             published = (if nullish (js_get e ''published_at'') then text_value at
                          else JStr (js_string (js_get e ''published_at'')))
         in case List.find (\<lambda>c. candidate_id_string c = i) (x_candidates r) of
              None \<Rightarrow> Inl Unknown_candidate
            | Some entry \<Rightarrow>
                if \<not> nullish (js_get e ''reference'') \<and> \<not> is_objectlike (js_get e ''reference'') then Inl Invalid_event
                else if hist then
                  (let e1 = (if nullish (js_get e ''reference'') then entry
                             else js_set entry ''reference'' (js_spread (js_get e ''reference'')));
                       e2 = js_set e1 ''published_at'' published;
                       e3 = (if nullish (js_get e ''verified_at'') then e2
                             else js_set e2 ''verified_at'' (JStr (js_string (js_get e ''verified_at''))))
                   in Inr (publish_entry r i e3))
                else
                  (let ref = normal_reference e in
                   if \<not> valid_verification_time (js_get ref ''verified_at'') then Inl Invalid_event
                   else if truthy (js_get (js_get entry ''reference'') ''verified_at'')
                           \<and> js_get entry ''reference'' \<noteq> ref then Inl Candidate_conflict
                   else Inr (publish_entry r i
                          (js_set (js_set (js_set entry ''reference'' ref) ''published_at'' published)
                             ''verified_at'' (js_get ref ''verified_at''))))))"

subsection \<open>Gates, integration, completion\<close>

definition gate_row_of :: "execution \<Rightarrow> jsval \<Rightarrow> gate_row option" where
  "gate_row_of r v = List.find (\<lambda>g. gr_id g = js_string v) (x_gate_results r)"

definition on_gate :: "execution \<Rightarrow> jsval \<Rightarrow> (gate_row \<Rightarrow> gate_row) \<Rightarrow> execution" where
  "on_gate r v f = r\<lparr>x_gate_results := update_first (\<lambda>g. gr_id g = js_string v) f (x_gate_results r)\<rparr>"

definition start_gate :: "bool \<Rightarrow> execution \<Rightarrow> jsval \<Rightarrow> refusal + execution" where
  "start_gate hist r e =
     (case gate_row_of r (js_get e ''gate_id'') of
        None \<Rightarrow> Inl Unknown_gate
      | Some _ \<Rightarrow>
          if \<not> candidate_ready hist r then Inl No_candidate
          else
            (let reset = \<not> hist \<or> js_get e ''admission_version'' \<noteq> JUndef in
             Inr ((on_gate r (js_get e ''gate_id'') (\<lambda>g.
                 (if reset then g\<lparr>gr_state := None, gr_candidate := None\<rparr> else g)
                   \<lparr>gr_attempt := number_or (js_get e ''attempt'') (gr_attempt g + 1)\<rparr>))
               \<lparr>x_stage := Gating\<rparr>)))"

definition settle_gate :: "bool \<Rightarrow> execution \<Rightarrow> jsval \<Rightarrow> string option \<Rightarrow> refusal + execution" where
  "settle_gate hist r e at =
     (case gate_row_of r (js_get e ''gate_id'') of
        None \<Rightarrow> Inl Unknown_gate
      | Some _ \<Rightarrow>
          (case gate_state_of (js_get e ''state'') of
             None \<Rightarrow> Inl Invalid_event
           | Some st \<Rightarrow>
               (let cid = js_get e ''candidate_id'';
                    judged = (if nullish cid then string_or_null (js_get (x_candidate r) ''candidate_id'')
                              else Some (js_string cid)) in
                if \<not> candidate_ready hist r then Inl No_candidate
                else if \<not> hist \<and> 1 < length (x_candidates r) \<and> nullish cid then Inl Invalid_event
                else if \<not> nullish cid \<and> \<not> list_ex (\<lambda>c. candidate_id_string c = js_string cid) (x_candidates r)
                then Inl Unknown_candidate
                else Inr (on_gate r (js_get e ''gate_id'') (\<lambda>g. g\<lparr>gr_state := Some st,
                       gr_attempt := number_or (js_get e ''attempt'') (gr_attempt g),
                       gr_settled_at := at, gr_candidate := judged\<rparr>)))))"

definition start_integration :: "bool \<Rightarrow> execution \<Rightarrow> jsval \<Rightarrow> string option \<Rightarrow> refusal + execution" where
  "start_integration hist r e at =
     (if \<not> boundary_reached_for_gates hist r then Inl Gates_unsettled
      else Inr (r\<lparr>x_integration := Some \<lparr>in_state = IntRunning, in_attempt = number_or (js_get e ''attempt'') 1,
                    in_at = at, in_ref = None, in_commit = None\<rparr>, x_stage := Integration\<rparr>))"

definition settle_integration :: "execution \<Rightarrow> jsval \<Rightarrow> string option \<Rightarrow> refusal + execution" where
  "settle_integration r e at =
     (case x_integration r of
        None \<Rightarrow> Inl Invalid_event
      | Some i \<Rightarrow>
          (case settled_integration_of (js_string (js_or (js_get e ''state'') (JStr []))) of
             None \<Rightarrow> Inl Invalid_event
           | Some st \<Rightarrow> Inr (r\<lparr>x_integration := Some (i\<lparr>in_state := st, in_at := at,
                 in_ref := string_or_null (js_get e ''ref''),
                 in_commit := string_or_null (js_get e ''commit'')\<rparr>)\<rparr>)))"

definition file_escalation :: "execution \<Rightarrow> jsval \<Rightarrow> string option \<Rightarrow> refusal + execution" where
  "file_escalation r e at =
     (if \<not> truthy (js_get e ''node_id'') then Inl Invalid_event
      else Inr (r\<lparr>x_escalations := x_escalations r @ [\<lparr>es_node_id = js_string (js_get e ''node_id''),
                    es_reason = string_or_null (js_get e ''reason''), es_at = at\<rparr>],
                  x_stage := (if js_get e ''terminal'' = JBool True then Refused else x_stage r)\<rparr>))"

definition write_completion :: "bool \<Rightarrow> execution \<Rightarrow> jsval \<Rightarrow> string option \<Rightarrow> refusal + execution" where
  "write_completion hist r e at =
     (if \<not> boundary_reached hist r then Inl Boundary_not_reached
      else Inr (r\<lparr>x_completion := (x_completion r)\<lparr>cm_written_at := at,
                    cm_resolver := string_or_null (js_get e ''resolver'')\<rparr>, x_stage := Completed\<rparr>))"

definition start_stage :: "execution \<Rightarrow> jsval \<Rightarrow> string option \<Rightarrow> refusal + execution" where
  "start_stage r e at =
     (if nullish (js_get e ''attempt'') then Inl Invalid_event
      else Inr ((on_attempt r e at (\<lambda>row. row\<lparr>at_state := Some ''dispatched'',
              at_run_id := (if nullish (js_get e ''run_id'') then at_run_id row else Some (js_string (js_get e ''run_id'')))\<rparr>))
             \<lparr>x_stage := Implementation\<rparr>))"

definition observe_stage :: "execution \<Rightarrow> jsval \<Rightarrow> string option \<Rightarrow> refusal + execution" where
  "observe_stage r e at =
     (if nullish (js_get e ''attempt'') then Inl Invalid_event
      else Inr ((on_attempt r e at (observe_attempt e at))
             \<lparr>x_stage := (if observed_state r e = Some ''exhausted'' then Refused else x_stage r)\<rparr>))"

definition apply_by_type ::
  "bool \<Rightarrow> execution \<Rightarrow> event_type \<Rightarrow> jsval \<Rightarrow> string option \<Rightarrow> refusal + execution" where
  "apply_by_type hist r t e at =
     (case t of
        StageStarted \<Rightarrow> start_stage r e at
      | StageObserved \<Rightarrow> observe_stage r e at
      | CandidateSubmitted \<Rightarrow> pin_candidate hist r e at
      | CandidateSuperseded \<Rightarrow> pin_candidate hist r e at
      | CandidatePublished \<Rightarrow> publish hist r e at
      | GateStarted \<Rightarrow> start_gate hist r e
      | GateSettled \<Rightarrow> settle_gate hist r e at
      | RescueStarted \<Rightarrow>
          (if \<not> truthy (x_candidate r) then Inl No_candidate else Inr (r\<lparr>x_stage := Gating\<rparr>))
      | IntegrationStarted \<Rightarrow> start_integration hist r e at
      | IntegrationSettled \<Rightarrow> settle_integration r e at
      | EscalationFiled \<Rightarrow> file_escalation r e at
      | CompletionWritten \<Rightarrow> write_completion hist r e at
      | _ \<Rightarrow> apply_attempt_event hist r t e at)"

subsection \<open>The reducer\<close>

text \<open>\<open>Accepted record key\<close>; the event's sequence number is the record's.\<close>

datatype outcome =
    Rejected refusal
  | Replayed jsval
  | Accepted execution jsval

definition ownership_check :: "bool \<Rightarrow> execution \<Rightarrow> jsval \<Rightarrow> string option \<Rightarrow> refusal option" where
  "ownership_check hist r fence now =
     (if hist then ownership_fence r fence else ownership_live r fence now)"

definition or_else :: "string option \<Rightarrow> string option \<Rightarrow> string option" where
  "or_else a b = (case a of Some x \<Rightarrow> Some x | None \<Rightarrow> b)"

text \<open>The second half of \<open>applyExecutionEvent\<close>, on the event with its attempt canonical.\<close>

definition apply_keyed ::
  "bool \<Rightarrow> execution \<Rightarrow> event_type \<Rightarrow> jsval \<Rightarrow> jsval \<Rightarrow> jsval option \<Rightarrow> jsval list \<Rightarrow> string option \<Rightarrow> string option \<Rightarrow> outcome" where
  "apply_keyed hist r t e key legacy seen at now =
     (let held = ownership_check hist r (js_get e ''fence'') (or_else now at) in
      case (if is_provider_event t then attempt_handle_conflict r t e else None) of
        Some conflict \<Rightarrow>
          if is_terminal r then Rejected Execution_terminal
          else (case held of Some x \<Rightarrow> Rejected x | None \<Rightarrow> Rejected conflict)
      | None \<Rightarrow>
          if key \<in> set seen then Replayed key
          else if (case legacy of Some k \<Rightarrow> k \<in> set seen | None \<Rightarrow> False) then Replayed (the legacy)
          else if is_terminal r then Rejected Execution_terminal
          else
            (case held of
               Some x \<Rightarrow> Rejected x
             | None \<Rightarrow>
                 (case apply_by_type hist r t e at of
                    Inl x \<Rightarrow> Rejected x
                  | Inr r1 \<Rightarrow> Accepted (r1\<lparr>x_seq := x_seq r1 + 1, x_updated_at := at\<rparr>) key)))"

definition own_key :: "event_type \<Rightarrow> jsval \<Rightarrow> bool" where
  "own_key t e \<longleftrightarrow> \<not> nullish (js_get e ''idempotency_key'') \<and> \<not> is_provider_event t"

definition apply_execution_event ::
  "bool \<Rightarrow> execution \<Rightarrow> jsval \<Rightarrow> jsval list \<Rightarrow> string option \<Rightarrow> outcome" where
  "apply_execution_event hist r e0 seen now =
     (if \<not> is_objectlike e0 then Rejected Invalid_event
      else case event_type_of (js_get e0 ''type'') of
        None \<Rightarrow> Rejected Invalid_event
      | Some t \<Rightarrow>
          (let at = or_else (string_or_null (js_get e0 ''at'')) now;
               canon = is_provider_event t \<and> \<not> hist;
               index = attempt_index (js_get e0 ''attempt'') in
           if canon \<and> index = None then Rejected Invalid_event
           else
             (let e = (if canon then js_set e0 ''attempt'' (JNum (the index)) else e0);
                  legacy = (if canon \<and> js_get e0 ''attempt'' \<noteq> JNum (the index)
                            then Some (derived_event_key r e0 True) else None);
                  key = (if own_key t e then JStr (js_string (js_get e ''idempotency_key''))
                         else derived_event_key r e hist) in
              if \<not> truthy key then Rejected Invalid_event
              else apply_keyed hist r t e key legacy seen at now)))"

subsection \<open>Rebuilding from the log\<close>

text \<open>A row of the durable log: the genesis with its spec, an ownership change, or an event as
  journaled (with the \<open>execution_id\<close>, \<open>seq\<close> and \<open>idempotency_key\<close> the store stamped on it).\<close>

datatype log_row =
    Opened string int jsval
  | OwnershipChanged string int string "owner option" "string option" "force_release_row option"
  | EventRow jsval

definition change_owner ::
  "execution \<Rightarrow> string \<Rightarrow> owner option \<Rightarrow> string option \<Rightarrow> force_release_row option \<Rightarrow> execution" where
  "change_owner r at ow released force = r\<lparr>x_owner := ow,
     x_released_at := (if text_truthy released then released else x_released_at r),
     x_force_release := (case force of Some f \<Rightarrow> Some f | None \<Rightarrow> x_force_release r),
     x_updated_at := Some at\<rparr>"

fun fold_log :: "execution \<Rightarrow> jsval list \<Rightarrow> log_row list \<Rightarrow> execution" where
  "fold_log r seen [] = r"
| "fold_log r seen (Opened _ _ _ # rows) = fold_log r seen rows"
| "fold_log r seen (OwnershipChanged _ _ at ow rel force # rows) = fold_log (change_owner r at ow rel force) seen rows"
| "fold_log r seen (EventRow e # rows) =
     (case apply_execution_event True r e seen None of
        Accepted r1 key \<Rightarrow> fold_log r1 (JStr (js_string key) # seen) rows
      | _ \<Rightarrow> fold_log r seen rows)"

fun is_opened :: "log_row \<Rightarrow> bool" where
  "is_opened (Opened _ _ _) = True"
| "is_opened _ = False"

text \<open>\<open>None\<close> when there is no genesis with a spec (or the hash is unusable).\<close>

definition rebuild_from_events :: "(string \<Rightarrow> string) \<Rightarrow> log_row list \<Rightarrow> execution option" where
  "rebuild_from_events sha256 rows =
     (case List.find is_opened rows of
        Some (Opened _ _ spec) \<Rightarrow>
          if is_plain_object spec then map_option (\<lambda>r. fold_log r [] rows) (init_execution sha256 spec) else None
      | _ \<Rightarrow> None)"

end
