(* ===== verification/ExecutionFrame.thy ===== *)
theory ExecutionFrame
  imports Execution
begin

text \<open>
  The shared facts of the reducer's proofs: what an accepted event implies, the
  fields each transition leaves alone, and the records the doors can reach.
\<close>

subsection \<open>Accepted events\<close>

text \<open>The event as the reducer sees it: a live provider event with its attempt canonical.\<close>

definition canonical_event :: "bool \<Rightarrow> event_type \<Rightarrow> jsval \<Rightarrow> jsval" where
  "canonical_event hist t e =
     (if is_provider_event t \<and> \<not> hist
      then js_set e ''attempt'' (JNum (the (attempt_index (js_get e ''attempt'')))) else e)"

definition event_at :: "jsval \<Rightarrow> string option \<Rightarrow> string option" where
  "event_at e now = or_else (string_or_null (js_get e ''at'')) now"

definition the_key :: "bool \<Rightarrow> execution \<Rightarrow> event_type \<Rightarrow> jsval \<Rightarrow> jsval" where
  "the_key hist r t e =
     (if own_key t e then JStr (js_string (js_get e ''idempotency_key'')) else derived_event_key r e hist)"

lemma canonical_event_get [simp]: "f \<noteq> ''attempt'' \<Longrightarrow> js_get (canonical_event hist t e) f = js_get e f"
  by (simp add: canonical_event_def)

lemma own_key_canonical [simp]: "own_key t (canonical_event hist t e) = own_key t e"
  by (simp add: own_key_def)

lemma apply_keyed_accepted:
  assumes "apply_keyed hist r t e key legacy seen at now = Accepted r1 k"
  obtains r0 where "apply_by_type hist r t e at = Inr r0" "r1 = r0\<lparr>x_seq := x_seq r0 + 1, x_updated_at := at\<rparr>"
    "k = key" "key \<notin> set seen" "\<not> is_terminal r"
    "ownership_check hist r (js_get e ''fence'') (or_else now at) = None"
    "is_provider_event t \<Longrightarrow> attempt_handle_conflict r t e = None"
    "legacy = Some l \<Longrightarrow> l \<notin> set seen"
  using assms
  by (auto simp: apply_keyed_def Let_def split: option.splits if_splits sum.splits)

lemma accepted_cases [consumes 1, case_names accepted]:
  assumes "apply_execution_event hist r e seen now = Accepted r1 k"
  obtains t r0 where "event_type_of (js_get e ''type'') = Some t"
    "apply_by_type hist r t (canonical_event hist t e) (event_at e now) = Inr r0"
    "r1 = r0\<lparr>x_seq := x_seq r0 + 1, x_updated_at := event_at e now\<rparr>"
    "k = the_key hist r t (canonical_event hist t e)" "k \<notin> set seen" "truthy k" "\<not> is_terminal r"
    "ownership_check hist r (js_get e ''fence'') (or_else now (event_at e now)) = None"
    "is_provider_event t \<Longrightarrow> attempt_handle_conflict r t (canonical_event hist t e) = None"
    "is_objectlike e" "is_provider_event t \<Longrightarrow> \<not> hist \<Longrightarrow> attempt_index (js_get e ''attempt'') \<noteq> None"
proof -
  from assms have ob: "is_objectlike e" by (auto simp: apply_execution_event_def split: if_splits)
  from assms obtain t where t: "event_type_of (js_get e ''type'') = Some t"
    by (auto simp: apply_execution_event_def split: if_splits option.splits)
  define ce where "ce = canonical_event hist t e"
  obtain legacy where ak: "apply_keyed hist r t ce (the_key hist r t ce) legacy seen (event_at e now) now = Accepted r1 k"
    and tr: "truthy (the_key hist r t ce)"
    and ix: "is_provider_event t \<Longrightarrow> \<not> hist \<Longrightarrow> attempt_index (js_get e ''attempt'') \<noteq> None"
    using assms ob t
    by (auto simp: apply_execution_event_def Let_def canonical_event_def ce_def the_key_def event_at_def
        own_key_def split: if_splits)
  from ak show ?thesis
    by (rule apply_keyed_accepted)
      (use that [OF t, unfolded ce_def [symmetric]] tr ix ob in \<open>auto simp: ce_def\<close>)
qed

subsection \<open>Frames\<close>

text \<open>The fields no event moves: identity, pins, ownership and the boundary.\<close>

definition same_pins :: "execution \<Rightarrow> execution \<Rightarrow> bool" where
  "same_pins r s \<longleftrightarrow> x_id s = x_id r \<and> x_tenant s = x_tenant r \<and> x_pipeline_attempt s = x_pipeline_attempt r
     \<and> x_node_id s = x_node_id r \<and> x_item_revision s = x_item_revision r \<and> x_repo s = x_repo r
     \<and> x_factory s = x_factory r \<and> x_factory_revision s = x_factory_revision r \<and> x_gates s = x_gates r
     \<and> map gr_id (x_gate_results s) = map gr_id (x_gate_results r)
     \<and> cm_boundary (x_completion s) = cm_boundary (x_completion r)
     \<and> x_created_at s = x_created_at r"

definition same_ownership :: "execution \<Rightarrow> execution \<Rightarrow> bool" where
  "same_ownership r s \<longleftrightarrow> x_owner s = x_owner r \<and> x_released_at s = x_released_at r
     \<and> x_force_release s = x_force_release r"

lemma same_pins_refl [simp]: "same_pins r r"
  by (simp add: same_pins_def)

lemma same_pins_trans: "same_pins a b \<Longrightarrow> same_pins b c \<Longrightarrow> same_pins a c"
  by (simp add: same_pins_def)

lemma on_attempt_fields [simp]:
  "x_id (on_attempt r e at f) = x_id r" "x_tenant (on_attempt r e at f) = x_tenant r"
  "x_pipeline_attempt (on_attempt r e at f) = x_pipeline_attempt r"
  "x_node_id (on_attempt r e at f) = x_node_id r" "x_item_revision (on_attempt r e at f) = x_item_revision r"
  "x_repo (on_attempt r e at f) = x_repo r" "x_factory (on_attempt r e at f) = x_factory r"
  "x_factory_revision (on_attempt r e at f) = x_factory_revision r" "x_gates (on_attempt r e at f) = x_gates r"
  "x_stage (on_attempt r e at f) = x_stage r" "x_gate_results (on_attempt r e at f) = x_gate_results r"
  "x_candidate (on_attempt r e at f) = x_candidate r" "x_candidates (on_attempt r e at f) = x_candidates r"
  "x_integration (on_attempt r e at f) = x_integration r" "x_owner (on_attempt r e at f) = x_owner r"
  "x_completion (on_attempt r e at f) = x_completion r" "x_seq (on_attempt r e at f) = x_seq r"
  "x_created_at (on_attempt r e at f) = x_created_at r" "x_released_at (on_attempt r e at f) = x_released_at r"
  "x_force_release (on_attempt r e at f) = x_force_release r"
  by (auto simp: on_attempt_def split: option.split)

lemma on_gate_ids [simp]:
  "(\<And>g. gr_id (f g) = gr_id g) \<Longrightarrow>
   map gr_id (update_first p f (x_gate_results r)) = map gr_id (x_gate_results r)"
  by (rule map_update_first_frame) simp

lemmas transition_defs =
  start_stage_def observe_stage_def pin_candidate_def publish_def start_gate_def settle_gate_def
  start_integration_def settle_integration_def file_escalation_def write_completion_def
  apply_attempt_event_def apply_submitting_def apply_submitted_def apply_observed_def

lemma apply_attempt_only_rows:
  assumes "apply_attempt_event hist r t e at = Inr s"
  obtains f where "s = on_attempt r e at f"
  using assms
  by (auto simp: apply_attempt_event_def apply_submitting_def apply_submitted_def apply_observed_def Let_def
      split: if_splits event_type.splits option.splits)

text \<open>The two ways a candidate becomes the tip.\<close>

definition same_tip :: "execution \<Rightarrow> jsval \<Rightarrow> bool" where
  "same_tip r c \<longleftrightarrow> truthy (x_candidate r) \<and> candidate_id_string (x_candidate r) = candidate_id_string c"

lemma pin_candidate_cases [consumes 1, case_names again fresh]:
  assumes "pin_candidate hist r e at = Inr s"
  obtains (again) "same_tip r (js_get e ''candidate'')" "s = pinned (resubmit r (js_get e ''candidate'')) e at"
  | (fresh) r1 where "\<not> same_tip r (js_get e ''candidate'')" "is_plain_object (js_get e ''candidate'')"
      "repin hist r e (js_get e ''candidate'') = Inr r1" "s = pinned r1 e at"
      "\<not> hist \<Longrightarrow> \<not> list_ex (\<lambda>x. candidate_id_string x = candidate_id_string (js_get e ''candidate'')) (x_candidates r)"
proof -
  have po: "is_plain_object (js_get e ''candidate'')"
    using assms by (cases "js_get e ''candidate''") (auto simp: pin_candidate_def Let_def)
  show ?thesis
  proof (cases "same_tip r (js_get e ''candidate'')")
    case True
    with assms again show ?thesis
      by (auto simp: pin_candidate_def Let_def same_tip_def split: if_splits)
  next
    case False
    with assms fresh [OF False po] show ?thesis
      unfolding pin_candidate_def Let_def same_tip_def
      by (simp split: if_splits sum.splits) blast
  qed
qed

lemma same_pins_fields:
  "x_id s = x_id r \<Longrightarrow> x_tenant s = x_tenant r \<Longrightarrow> x_pipeline_attempt s = x_pipeline_attempt r \<Longrightarrow>
   x_node_id s = x_node_id r \<Longrightarrow> x_item_revision s = x_item_revision r \<Longrightarrow> x_repo s = x_repo r \<Longrightarrow>
   x_factory s = x_factory r \<Longrightarrow> x_factory_revision s = x_factory_revision r \<Longrightarrow> x_gates s = x_gates r \<Longrightarrow>
   map gr_id (x_gate_results s) = map gr_id (x_gate_results r) \<Longrightarrow>
   cm_boundary (x_completion s) = cm_boundary (x_completion r) \<Longrightarrow> x_created_at s = x_created_at r \<Longrightarrow>
   same_pins r s"
  by (simp add: same_pins_def)

lemma leave_tip_pins [simp]: "same_pins r (leave_tip r)"
  by (simp add: same_pins_def leave_tip_def comp_def if_distrib [of gr_id] cong: if_cong)

definition quiet_step :: "execution \<Rightarrow> execution \<Rightarrow> bool" where
  "quiet_step r s \<longleftrightarrow> same_pins r s \<and> same_ownership r s \<and> x_seq s = x_seq r \<and> x_completion s = x_completion r"

lemma quiet_step_trans: "quiet_step a b \<Longrightarrow> quiet_step b c \<Longrightarrow> quiet_step a c"
  by (simp add: quiet_step_def same_pins_def same_ownership_def)

lemma pinned_quiet: "quiet_step r (pinned r e at)"
  by (simp add: quiet_step_def pinned_def Let_def same_pins_def same_ownership_def)

lemma resubmit_quiet: "quiet_step r (resubmit r c)"
  by (simp add: quiet_step_def resubmit_def Let_def same_pins_def same_ownership_def)

lemma leave_tip_quiet: "quiet_step r (leave_tip r)"
  using leave_tip_pins [of r] by (simp add: quiet_step_def leave_tip_def same_ownership_def)

lemma repin_cases [consumes 1, case_names ok]:
  assumes "repin hist r e c = Inr r1"
  obtains r0 where "r0 = (if truthy (x_candidate r) \<and> (\<not> hist \<or> js_get e ''admission_version'' \<noteq> JUndef) then leave_tip r else r)"
    "r1 = r0\<lparr>x_candidate := js_set c ''supersedes''
            (if truthy (x_candidate r) then JStr (candidate_id_string (x_candidate r))
             else if nullish (js_get c ''supersedes'') then JNull else JStr (js_string (js_get c ''supersedes''))),
          x_candidates := x_candidates r @ [js_set c ''supersedes''
            (if truthy (x_candidate r) then JStr (candidate_id_string (x_candidate r))
             else if nullish (js_get c ''supersedes'') then JNull else JStr (js_string (js_get c ''supersedes'')))]\<rparr>"
    "truthy (x_candidate r) \<Longrightarrow> \<not> landed r"
    "truthy (x_candidate r) \<Longrightarrow>
       string_or_null (coalesce (js_get c ''supersedes'') (js_get e ''supersedes'')) = Some (candidate_id_string (x_candidate r))"
proof -
  have "x_candidates (leave_tip r) = x_candidates r" by (simp add: leave_tip_def)
  with assms that show ?thesis
    unfolding repin_def Let_def by (simp split: if_splits)
qed

lemma repin_quiet: "repin hist r e c = Inr r1 \<Longrightarrow> quiet_step r r1"
  using leave_tip_quiet [of r]
  by (erule_tac repin_cases) (simp add: quiet_step_def same_pins_def same_ownership_def)

lemma pin_candidate_quiet: "pin_candidate hist r e at = Inr s \<Longrightarrow> quiet_step r s"
  by (erule pin_candidate_cases)
    (auto intro: quiet_step_trans resubmit_quiet pinned_quiet repin_quiet)

lemma candidate_id_set [simp]: "f \<noteq> ''candidate_id'' \<Longrightarrow> candidate_id_string (js_set c f v) = candidate_id_string c"
  by (simp add: candidate_id_string_def)

lemma publish_cases [consumes 1, case_names ok]:
  assumes "publish hist r e at = Inr s"
  obtains entry e3 where "List.find (\<lambda>c. candidate_id_string c = js_string (js_get e ''candidate_id'')) (x_candidates r) = Some entry"
    "s = publish_entry r (js_string (js_get e ''candidate_id'')) e3"
    "candidate_id_string e3 = candidate_id_string entry" "is_plain_object e3"
    "\<And>f. f \<notin> {''reference'', ''published_at'', ''verified_at''} \<Longrightarrow> js_get e3 f = js_get entry f"
    "\<not> hist \<Longrightarrow> candidate_published entry \<Longrightarrow> js_get e3 ''reference'' = js_get entry ''reference''"
proof -
  let ?p = "\<lambda>c. candidate_id_string c = js_string (js_get e ''candidate_id'')"
  obtain entry where f: "List.find ?p (x_candidates r) = Some entry"
    using assms by (auto simp: publish_def Let_def split: if_splits option.splits)
  have pub: "candidate_published entry \<Longrightarrow> truthy (js_get (js_get entry ''reference'') ''verified_at'')"
    by (auto simp: candidate_published_def split: jsval.splits)
  define at' where "at' = (if nullish (js_get e ''published_at'') then text_value at
    else JStr (js_string (js_get e ''published_at'')))"
  show ?thesis
  proof (cases hist)
    case True
    define e1 where "e1 = (if nullish (js_get e ''reference'') then entry
       else js_set entry ''reference'' (js_spread (js_get e ''reference'')))"
    define e3 where "e3 = (if nullish (js_get e ''verified_at'') then js_set e1 ''published_at'' at'
       else js_set (js_set e1 ''published_at'' at') ''verified_at'' (JStr (js_string (js_get e ''verified_at''))))"
    have s: "s = publish_entry r (js_string (js_get e ''candidate_id'')) e3"
      using assms f True unfolding publish_def Let_def e3_def e1_def at'_def
      by (simp split: if_splits)
    show ?thesis
      by (rule that [OF f s]) (auto simp: e3_def e1_def True)
  next
    case False
    define e3 where "e3 = js_set (js_set (js_set entry ''reference'' (normal_reference e)) ''published_at'' at')
      ''verified_at'' (js_get (normal_reference e) ''verified_at'')"
    have s: "s = publish_entry r (js_string (js_get e ''candidate_id'')) e3"
      and im: "truthy (js_get (js_get entry ''reference'') ''verified_at'') \<Longrightarrow> js_get entry ''reference'' = normal_reference e"
      using assms f False unfolding publish_def Let_def e3_def at'_def
      by (simp_all split: if_splits)
    show ?thesis
      by (rule that [OF f s]) (use pub im in \<open>auto simp: e3_def\<close>)
  qed
qed

lemma start_gate_cases [consumes 1, case_names ok]:
  assumes "start_gate hist r e = Inr s"
  obtains f where "s = (on_gate r (js_get e ''gate_id'') f)\<lparr>x_stage := Gating\<rparr>" "\<And>g. gr_id (f g) = gr_id g"
    "candidate_ready hist r"
    "\<And>g. \<not> hist \<or> js_get e ''admission_version'' \<noteq> JUndef \<Longrightarrow> gr_state (f g) = None \<and> gr_candidate (f g) = None"
    "\<And>g. hist \<and> js_get e ''admission_version'' = JUndef \<Longrightarrow> gr_state (f g) = gr_state g \<and> gr_candidate (f g) = gr_candidate g"
proof -
  let ?f = "\<lambda>g. (if \<not> hist \<or> js_get e ''admission_version'' \<noteq> JUndef
      then g\<lparr>gr_state := None, gr_candidate := None\<rparr> else g)
    \<lparr>gr_attempt := number_or (js_get e ''attempt'') (gr_attempt g + 1)\<rparr>"
  have s: "s = (on_gate r (js_get e ''gate_id'') ?f)\<lparr>x_stage := Gating\<rparr>" and c: "candidate_ready hist r"
    using assms unfolding start_gate_def Let_def by (simp_all split: option.splits if_splits)
  show ?thesis by (rule that [OF s _ c]) auto
qed

lemma settle_gate_cases [consumes 1, case_names ok]:
  assumes "settle_gate hist r e at = Inr s"
  obtains st judged where "gate_state_of (js_get e ''state'') = Some st"
    "s = on_gate r (js_get e ''gate_id'') (\<lambda>g. g\<lparr>gr_state := Some st,
       gr_attempt := number_or (js_get e ''attempt'') (gr_attempt g), gr_settled_at := at, gr_candidate := judged\<rparr>)"
    "judged = (if nullish (js_get e ''candidate_id'') then string_or_null (js_get (x_candidate r) ''candidate_id'')
       else Some (js_string (js_get e ''candidate_id'')))"
    "candidate_ready hist r"
    "\<not> nullish (js_get e ''candidate_id'') \<Longrightarrow>
       list_ex (\<lambda>c. candidate_id_string c = js_string (js_get e ''candidate_id'')) (x_candidates r)"
    "\<not> hist \<Longrightarrow> 1 < length (x_candidates r) \<Longrightarrow> \<not> nullish (js_get e ''candidate_id'')"
  using assms that unfolding settle_gate_def Let_def
  by (simp split: option.splits if_splits)

lemma settle_integration_cases [consumes 1, case_names ok]:
  assumes "settle_integration r e at = Inr s"
  obtains i st where "x_integration r = Some i" "st \<in> {IntLanded, IntParked, IntFailed}"
    "s = r\<lparr>x_integration := Some (i\<lparr>in_state := st, in_at := at,
        in_ref := string_or_null (js_get e ''ref''), in_commit := string_or_null (js_get e ''commit'')\<rparr>)\<rparr>"
proof -
  obtain i where i: "x_integration r = Some i"
    using assms by (auto simp: settle_integration_def split: option.splits)
  obtain st where st: "settled_integration_of (js_string (js_or (js_get e ''state'') (JStr []))) = Some st"
    using assms i by (auto simp: settle_integration_def split: option.splits)
  from st have "st \<in> {IntLanded, IntParked, IntFailed}"
    by (auto simp: settled_integration_of_def split: if_splits)
  moreover have "s = r\<lparr>x_integration := Some (i\<lparr>in_state := st, in_at := at,
        in_ref := string_or_null (js_get e ''ref''), in_commit := string_or_null (js_get e ''commit'')\<rparr>)\<rparr>"
    using assms i st by (simp add: settle_integration_def)
  ultimately show ?thesis using that i by blast
qed

lemma apply_by_type_pins:
  assumes "apply_by_type hist r t e at = Inr s"
  shows "same_pins r s \<and> same_ownership r s \<and> x_seq s = x_seq r"
proof -
  have att: ?thesis if "apply_attempt_event hist r t' e at = Inr s" for t'
    using that by (rule apply_attempt_only_rows) (simp add: same_pins_def same_ownership_def)
  have pin: ?thesis if "pin_candidate hist r e at = Inr s"
    using pin_candidate_quiet [OF that] by (simp add: quiet_step_def)
  note d = same_pins_def same_ownership_def Let_def
  show ?thesis
  proof (cases t)
    case StageStarted
    with assms show ?thesis by (auto simp: apply_by_type_def start_stage_def d split: if_splits)
  next
    case StageObserved
    with assms show ?thesis by (auto simp: apply_by_type_def observe_stage_def d split: if_splits)
  next
    case CandidatePublished
    with assms have "publish hist r e at = Inr s" by (simp add: apply_by_type_def)
    then show ?thesis by (rule publish_cases) (simp add: publish_entry_def d)
  next
    case GateStarted
    with assms have "start_gate hist r e = Inr s" by (simp add: apply_by_type_def)
    then show ?thesis by (rule start_gate_cases) (simp add: on_gate_def d)
  next
    case GateSettled
    with assms have "settle_gate hist r e at = Inr s" by (simp add: apply_by_type_def)
    then show ?thesis by (rule settle_gate_cases) (simp add: on_gate_def d)
  next
    case RescueStarted
    with assms show ?thesis by (auto simp: apply_by_type_def d split: if_splits)
  next
    case IntegrationStarted
    with assms show ?thesis by (auto simp: apply_by_type_def start_integration_def d split: if_splits)
  next
    case IntegrationSettled
    with assms have "settle_integration r e at = Inr s" by (simp add: apply_by_type_def)
    then show ?thesis by (rule settle_integration_cases) (simp add: d)
  next
    case EscalationFiled
    with assms show ?thesis by (auto simp: apply_by_type_def file_escalation_def d split: if_splits)
  next
    case CompletionWritten
    with assms show ?thesis by (auto simp: apply_by_type_def write_completion_def d split: if_splits)
  qed (use assms att pin in \<open>simp_all add: apply_by_type_def\<close>)
qed

subsection \<open>The attempt an event names\<close>

lemma find_unique:
  assumes "x \<in> set xs" and "p x" and "\<And>y. y \<in> set xs \<Longrightarrow> p y \<Longrightarrow> y = x"
  shows "List.find p xs = Some x"
proof (cases "List.find p xs")
  case None
  then show ?thesis using assms(1,2) by (auto simp: find_None_set)
next
  case (Some y)
  from find_Some_set [OF Some] have "y = x" by (intro assms(3)) auto
  with Some show ?thesis by simp
qed

lemma set_push_attempt [simp]: "set (push_attempt row rows) = insert row (set rows)"
  by (auto simp: push_attempt_def)

lemma attempt_row_after:
  assumes i: "js_number (js_get e ''attempt'') = Some i" and f: "\<And>row. at_index (f row) = at_index row"
  shows "attempt_row_of (on_attempt r e at f) (js_get e ''attempt'') = Some (f
    (case attempt_row_of r (js_get e ''attempt'') of Some row \<Rightarrow> row | None \<Rightarrow> fresh_attempt r e at))"
proof (cases "attempt_row_of r (js_get e ''attempt'')")
  case None
  then have n: "\<forall>row\<in>set (x_attempts r). \<not> (at_index row \<noteq> None \<and> at_index row = Some i)"
    by (simp add: attempt_row_of_def i find_None_set)
  from None show ?thesis
    unfolding attempt_row_of_def on_attempt_def
    by (simp add: i, intro find_unique) (use n f i in \<open>auto simp: fresh_attempt_def\<close>)
next
  case (Some row)
  then have "List.find (\<lambda>row. at_index row \<noteq> None \<and> at_index row = Some i) (x_attempts r) = Some row"
    by (simp add: attempt_row_of_def i)
  with Some find_update_first [of "\<lambda>row. at_index row \<noteq> None \<and> at_index row = Some i" f "x_attempts r"]
  show ?thesis by (simp add: attempt_row_of_def on_attempt_def i f)
qed

lemma provider_after:
  assumes "js_number (js_get e ''attempt'') = Some i" and "\<And>row. at_index (f row) = at_index row"
  shows "provider_of (on_attempt r e at f) (js_get e ''attempt'') = at_provider (f
    (case attempt_row_of r (js_get e ''attempt'') of Some row \<Rightarrow> row | None \<Rightarrow> fresh_attempt r e at))"
  using attempt_row_after [OF assms] by (simp add: provider_of_def)

text \<open>The accepted provider events, and the provider row they leave.\<close>

lemma submitting_cases [consumes 1, case_names ok]:
  assumes "apply_submitting r e at = Inr s"
  obtains pid where "js_get e ''provider'' = JStr pid" "provider_of r (js_get e ''attempt'') = None"
    "valid_submit_key (submit_key_of e)"
    "s = on_attempt r e at (\<lambda>row. row\<lparr>at_provider :=
        Some (new_provider (JStr pid) (submit_key_of e) (js_get e ''request'') at)\<rparr>)"
proof -
  obtain pid where p: "js_get e ''provider'' = JStr pid"
    using assms by (auto simp: apply_submitting_def Let_def valid_provider_id_def split: if_splits jsval.splits)
  have n: "provider_of r (js_get e ''attempt'') = None"
    using assms by (auto simp: apply_submitting_def Let_def split: if_splits option.splits)
  have k: "valid_submit_key (submit_key_of e)"
    using assms by (auto simp: apply_submitting_def Let_def split: if_splits)
  have s: "s = on_attempt r e at (\<lambda>row. row\<lparr>at_provider :=
        Some (new_provider (JStr pid) (submit_key_of e) (js_get e ''request'') at)\<rparr>)"
    unfolding p [symmetric] using assms n
    by (simp only: apply_submitting_def Let_def sum.inject sum.distinct option.simps split: if_split_asm)
  from that [OF p n k s] show ?thesis .
qed

lemma submitted_cases [consumes 1, case_names ok]:
  assumes "apply_submitted hist r e at = Inr s"
  obtains pid where "js_get e ''provider'' = JStr pid" "\<not> nullish (js_get e ''handle'')"
    "\<And>p. provider_of r (js_get e ''attempt'') = Some p \<Longrightarrow> pv_id p = pid \<and> pv_key p = submit_key_of e"
    "\<not> hist \<Longrightarrow> provider_of r (js_get e ''attempt'') \<noteq> None"
    "s = on_attempt r e at (\<lambda>row. row\<lparr>at_provider := Some (take_handle e at
            (case at_provider row of Some p \<Rightarrow> p
             | None \<Rightarrow> new_provider (JStr pid) (submit_key_of e) JNull None))\<rparr>)"
proof -
  obtain pid where p: "js_get e ''provider'' = JStr pid"
    using assms by (auto simp: apply_submitted_def Let_def valid_provider_id_def split: if_splits jsval.splits)
  have h: "valid_handle (js_get e ''handle'')"
    using assms by (auto simp: apply_submitted_def Let_def split: if_splits)
  have ex: "\<And>p. provider_of r (js_get e ''attempt'') = Some p \<Longrightarrow> pv_id p = pid \<and> pv_key p = submit_key_of e"
    using assms p by (auto simp: apply_submitted_def Let_def split: if_splits)
  have hi: "\<not> hist \<Longrightarrow> provider_of r (js_get e ''attempt'') \<noteq> None"
    using assms by (auto simp: apply_submitted_def Let_def split: if_splits)
  have s: "s = on_attempt r e at (\<lambda>row. row\<lparr>at_provider := Some (take_handle e at
            (case at_provider row of Some p \<Rightarrow> p
             | None \<Rightarrow> new_provider (JStr pid) (submit_key_of e) JNull None))\<rparr>)"
    unfolding p [symmetric] using assms
    by (simp only: apply_submitted_def Let_def sum.inject sum.distinct split: if_split_asm)
  have "\<not> nullish (js_get e ''handle'')"
    using h by (auto simp: valid_handle_def split: jsval.splits)
  from that [OF p this ex hi s] show ?thesis .
qed

lemma observed_cases [consumes 1, case_names ok]:
  assumes "apply_observed r e at = Inr s"
  obtains p where "provider_of r (js_get e ''attempt'') = Some p" "\<not> nullish (pv_handle p)"
    "\<And>x. pv_last_state p = Some x \<Longrightarrow> x \<notin> set observe_terminal_states"
    "s = on_attempt r e at (\<lambda>row. row\<lparr>at_provider := map_option (take_observation e at) (at_provider row)\<rparr>)"
proof -
  obtain p where p: "provider_of r (js_get e ''attempt'') = Some p"
    using assms by (cases "provider_of r (js_get e ''attempt'')") (simp_all add: apply_observed_def)
  have h: "\<not> nullish (pv_handle p)"
    using assms p by (auto simp: apply_observed_def split: if_splits)
  have l: "\<And>x. pv_last_state p = Some x \<Longrightarrow> x \<notin> set observe_terminal_states"
    using assms p by (auto simp: apply_observed_def split: if_splits)
  have s: "s = on_attempt r e at (\<lambda>row. row\<lparr>at_provider := map_option (take_observation e at) (at_provider row)\<rparr>)"
    using assms p by (simp only: apply_observed_def sum.inject sum.distinct option.simps split: if_split_asm)
  from that [OF p h l s] show ?thesis .
qed

end
