(* ===== verification/ExecutionProps.thy ===== *)
theory ExecutionProps
  imports ExecutionFrame
begin

text \<open>
  The properties of the execution reducer: fenced writes, the pinned boundary, pinned
  definitions, the terminal state, exclusive ownership, idempotent retries, and the
  invariants of the candidate chain, the gate verdicts and the attempt rows over every
  record the doors can reach.
\<close>

subsection \<open>Fencing, pins, boundary, terminal state\<close>

text \<open>A live, unexpired lease at \<open>now\<close> under the fence the writer names.\<close>

definition holds_lease :: "execution \<Rightarrow> jsval \<Rightarrow> string option \<Rightarrow> bool" where
  "holds_lease r fence now \<longleftrightarrow> (\<exists>ow n l. x_owner r = Some ow \<and> js_number fence = Some (ow_fence ow)
     \<and> parse_time now = Some n \<and> date_parse (ow_lease ow) = Some l \<and> n < l)"

lemma ownership_live_None: "ownership_live r fence now = None \<longleftrightarrow> holds_lease r fence now"
  by (auto simp: ownership_live_def ownership_fence_def holds_lease_def not_after_def parse_time_def
      split: option.splits if_splits)

text \<open>
  C9. Every authoritative transition is fenced. An event that a live engine accepts was
  sent under the current owner's fence while that owner's lease was unexpired, on an
  execution neither completed nor released; it moves the sequence number by one and
  leaves ownership alone.
\<close>

theorem accepted_event_is_fenced:
  assumes "apply_execution_event False r e seen (Some now) = Accepted s k"
  shows "holds_lease r (js_get e ''fence'') (Some now) \<and> \<not> is_terminal r \<and> k \<notin> set seen
    \<and> x_seq s = x_seq r + 1 \<and> same_ownership r s"
  using assms
proof (cases rule: accepted_cases)
  case (accepted t r0)
  with apply_by_type_pins [OF accepted(2)] show ?thesis
    by (simp add: ownership_check_def ownership_live_None or_else_def same_ownership_def)
qed

lemma accepted_event_same_ownership:
  assumes "apply_execution_event hist r e seen now = Accepted s k"
  shows "same_ownership r s"
  using assms
proof (cases rule: accepted_cases)
  case (accepted t r0)
  with apply_by_type_pins [OF accepted(2)] show ?thesis by (simp add: same_ownership_def)
qed

text \<open>
  Definitions are pinned. No accepted event, live or replayed, rewrites what the
  execution captured when it was opened: its identity, item, factory and gate revisions,
  the re-judge opt-outs, the list of gates and the completion boundary.
\<close>

theorem events_never_rewrite_pins:
  assumes "apply_execution_event hist r e seen now = Accepted s k"
  shows "same_pins r s"
  using assms
proof (cases rule: accepted_cases)
  case (accepted t r0)
  with apply_by_type_pins [OF accepted(2)] show ?thesis
    by (simp add: same_pins_def)
qed

text \<open>What the pinned boundary asks of the tip.\<close>

definition tip_accepted :: "execution \<Rightarrow> bool" where
  "tip_accepted r \<longleftrightarrow> candidate_published (x_candidate r)
     \<and> (\<forall>g\<in>set (x_gate_results r). gr_state g \<in> {Some GatePassed, Some GateSkipped}
          \<and> (gate_on_tip r g \<or> (\<exists>p\<in>set (x_gates r). pg_id p = gr_id g \<and> \<not> pg_rejudge p)))"

lemma boundary_reached_tip:
  assumes "boundary_reached False r" and "x_stage r \<noteq> Completed"
  shows "tip_accepted r \<and> (cm_boundary (x_completion r) = IntegrationBoundary \<longrightarrow> landed r)"
proof -
  have pin: "gate_on_tip r g \<or> (\<exists>p\<in>set (x_gates r). pg_id p = gr_id g \<and> \<not> pg_rejudge p)"
    if "gate_accepted False r g" for g
    using that find_Some_set by (fastforce simp: gate_accepted_def split: option.splits)
  have st: "gate_accepted False r g \<Longrightarrow> gr_state g \<in> {Some GatePassed, Some GateSkipped}" for g
    by (simp add: gate_accepted_def)
  have "candidate_published (x_candidate r)" "\<forall>g\<in>set (x_gate_results r). gate_accepted False r g"
    "cm_boundary (x_completion r) = IntegrationBoundary \<longrightarrow> landed r"
    using assms by (auto simp: boundary_reached_def Let_def candidate_ready_def list_all_iff split: if_splits)
  with pin st show ?thesis by (auto simp: tip_accepted_def)
qed

lemma stage_Completed_only:
  assumes "apply_by_type hist r t e at = Inr s" and "x_stage s = Completed" and "x_stage r \<noteq> Completed"
  shows "t = CompletionWritten \<and> boundary_reached hist r"
proof (cases t)
  case StageStarted
  with assms show ?thesis by (auto simp: apply_by_type_def start_stage_def split: if_splits)
next
  case StageObserved
  with assms show ?thesis by (auto simp: apply_by_type_def observe_stage_def split: if_splits)
next
  case CandidateSubmitted
  with assms(1) have "pin_candidate hist r e at = Inr s" by (simp add: apply_by_type_def)
  then have "x_stage s = Gating" by (rule pin_candidate_cases) (simp_all add: pinned_def Let_def)
  with assms show ?thesis by simp
next
  case CandidateSuperseded
  with assms(1) have "pin_candidate hist r e at = Inr s" by (simp add: apply_by_type_def)
  then have "x_stage s = Gating" by (rule pin_candidate_cases) (simp_all add: pinned_def Let_def)
  with assms show ?thesis by simp
next
  case CandidatePublished
  with assms(1) have "publish hist r e at = Inr s" by (simp add: apply_by_type_def)
  then have "x_stage s = x_stage r" by (rule publish_cases) (simp add: publish_entry_def)
  with assms show ?thesis by simp
next
  case GateStarted
  with assms(1) have "start_gate hist r e = Inr s" by (simp add: apply_by_type_def)
  then have "x_stage s = Gating" by (rule start_gate_cases) simp
  with assms show ?thesis by simp
next
  case GateSettled
  with assms(1) have "settle_gate hist r e at = Inr s" by (simp add: apply_by_type_def)
  then have "x_stage s = x_stage r" by (rule settle_gate_cases) (simp add: on_gate_def)
  with assms show ?thesis by simp
next
  case RescueStarted
  with assms show ?thesis by (auto simp: apply_by_type_def split: if_splits)
next
  case IntegrationStarted
  with assms show ?thesis by (auto simp: apply_by_type_def start_integration_def split: if_splits)
next
  case IntegrationSettled
  with assms(1) have "settle_integration r e at = Inr s" by (simp add: apply_by_type_def)
  then have "x_stage s = x_stage r" by (rule settle_integration_cases) simp
  with assms show ?thesis by simp
next
  case EscalationFiled
  with assms show ?thesis by (auto simp: apply_by_type_def file_escalation_def split: if_splits)
next
  case CompletionWritten
  with assms show ?thesis by (auto simp: apply_by_type_def write_completion_def split: if_splits)
next
  case AttemptSubmitting
  with assms(1) have "apply_attempt_event hist r t e at = Inr s" by (simp add: apply_by_type_def)
  with assms show ?thesis by (auto elim: apply_attempt_only_rows)
next
  case AttemptSubmitted
  with assms(1) have "apply_attempt_event hist r t e at = Inr s" by (simp add: apply_by_type_def)
  with assms show ?thesis by (auto elim: apply_attempt_only_rows)
next
  case AttemptObserved
  with assms(1) have "apply_attempt_event hist r t e at = Inr s" by (simp add: apply_by_type_def)
  with assms show ?thesis by (auto elim: apply_attempt_only_rows)
qed

text \<open>
  C11. Completion is derived only from the pinned boundary. The one event that takes a
  live execution to \<open>completed\<close> is accepted only when the tip candidate is published,
  every pinned gate has passed or been skipped on that tip (or pinned the re-judge
  opt-out), and, when the boundary is integration, the candidate has landed; and the
  execution was not refused.
\<close>

theorem completed_only_at_the_boundary:
  assumes "apply_execution_event False r e seen now = Accepted s k" and "x_stage s = Completed"
  shows "js_get e ''type'' = JStr ''completion.written'' \<and> tip_accepted r \<and> x_stage r \<noteq> Refused
    \<and> (cm_boundary (x_completion r) = IntegrationBoundary \<longrightarrow> landed r)"
  using assms(1)
proof (cases rule: accepted_cases)
  case (accepted t r0)
  have nc: "x_stage r \<noteq> Completed" using accepted(7) by (simp add: is_terminal_def)
  from stage_Completed_only [OF accepted(2) _ nc] accepted(3) assms(2)
  have t: "t = CompletionWritten" and b: "boundary_reached False r" by auto
  have "js_get e ''type'' = JStr ''completion.written''"
    using accepted(1) t by (auto simp: event_type_of_def split: if_splits)
  with boundary_reached_tip [OF b nc] b show ?thesis
    by (auto simp: boundary_reached_def split: if_splits)
qed

text \<open>
  A settled execution is settled for everyone. Once completed or released, no event
  is accepted (an event already on the log still reads as replayed), and claim, renewal,
  release and force release refuse or change nothing.
\<close>

theorem terminal_is_absorbing:
  assumes "is_terminal r"
  shows "(\<forall>hist e seen now s k. apply_execution_event hist r e seen now \<noteq> Accepted s k)
    \<and> claim r a = Inl Execution_terminal
    \<and> (x_owner r = None \<longrightarrow> renew r fence lease now' = Inl Not_owned)
    \<and> (\<forall>s b. force_release r fa = Inr (s, b) \<longrightarrow> s = r)"
proof (intro conjI allI impI)
  fix hist e seen now s k
  show "apply_execution_event hist r e seen now \<noteq> Accepted s k"
    using assms by (auto elim: accepted_cases)
next
  fix s b assume "force_release r fa = Inr (s, b)"
  with assms show "s = r"
    by (auto simp: force_release_def Let_def split: if_splits option.splits)
qed (use assms in \<open>simp_all add: claim_def renew_def ownership_live_def ownership_fence_def\<close>)

subsection \<open>Ownership\<close>

lemma stale_fence_rejected:
  assumes "x_owner s = Some ow" and "js_number (js_get e ''fence'') \<noteq> Some (ow_fence ow)"
  shows "apply_execution_event hist s e seen now \<noteq> Accepted s' k"
  using assms
  by (auto elim!: accepted_cases simp: ownership_check_def ownership_live_def ownership_fence_def
      split: if_splits)

lemma claim_cases [consumes 1, case_names ok]:
  assumes "claim r a = Inr s"
  obtains fence where "\<not> is_terminal r" "x_owner r \<noteq> None \<and> \<not> lease_expired r (ca_now a) \<Longrightarrow> same_owner r a"
    "fence = (if same_instance r a \<and> \<not> ca_takeover a then owner_fence r else owner_fence r + 1)"
    "s = r\<lparr>x_owner := Some \<lparr>ow_worker = ca_worker a, ow_machine = ca_machine a,
         ow_instance = ca_instance a, ow_lease = ca_lease a, ow_fence = fence\<rparr>, x_updated_at := Some (ca_now a)\<rparr>"
proof -
  let ?f = "if same_instance r a \<and> \<not> ca_takeover a then owner_fence r else owner_fence r + 1"
  have t: "\<not> is_terminal r" and l: "x_owner r \<noteq> None \<and> \<not> lease_expired r (ca_now a) \<Longrightarrow> same_owner r a"
    and s: "s = r\<lparr>x_owner := Some \<lparr>ow_worker = ca_worker a, ow_machine = ca_machine a,
         ow_instance = ca_instance a, ow_lease = ca_lease a, ow_fence = ?f\<rparr>, x_updated_at := Some (ca_now a)\<rparr>"
    using assms unfolding claim_def Let_def by (auto split: if_splits)
  show ?thesis by (rule that [OF t l refl s])
qed

text \<open>
  C13. Ownership is exclusive. A claim never takes an unexpired lease from another worker
  or machine, takeover or not; a re-claim by the same process keeps the fence, and any
  other acquisition advances it, after which no event and no renewal under the earlier
  fence is accepted again.
\<close>

theorem claim_is_exclusive:
  assumes "claim r a = Inr s"
  shows "(x_owner r \<noteq> None \<and> \<not> lease_expired r (ca_now a) \<longrightarrow> same_owner r a)
    \<and> (\<exists>ow. x_owner s = Some ow \<and> ow_worker ow = ca_worker a \<and> ow_machine ow = ca_machine a \<and>
        (if same_instance r a \<and> \<not> ca_takeover a then ow_fence ow = owner_fence r
         else ow_fence ow = owner_fence r + 1 \<and>
           (\<forall>fence. js_number fence = Some (owner_fence r) \<longrightarrow>
              renew s fence lease now = Inl Fence_stale \<and> release s fence now = Inl Fence_stale) \<and>
           (\<forall>hist e seen at s' k. js_number (js_get e ''fence'') = Some (owner_fence r) \<longrightarrow>
              apply_execution_event hist s e seen at \<noteq> Accepted s' k)))"
  using assms
proof (cases rule: claim_cases)
  case (ok fence)
  let ?ow = "\<lparr>ow_worker = ca_worker a, ow_machine = ca_machine a,
         ow_instance = ca_instance a, ow_lease = ca_lease a, ow_fence = fence\<rparr>"
  have o: "x_owner s = Some ?ow" using ok by simp
  have ne: "x_stage s \<noteq> Completed" using ok by (simp add: is_terminal_def)
  have "renew s f lease now = Inl Fence_stale \<and> release s f now = Inl Fence_stale"
    if "js_number f \<noteq> Some fence" for f
    using that o ne by (simp add: renew_def release_def ownership_live_def ownership_fence_def)
  moreover have "apply_execution_event hist s e seen at \<noteq> Accepted s' k"
    if "js_number (js_get e ''fence'') \<noteq> Some fence" for hist e seen at s' k
    using stale_fence_rejected [OF o] that by simp
  ultimately show ?thesis using ok o by simp
qed

text \<open>The doors of an execution: what may change a record after \<open>initExecution\<close>.\<close>

datatype door =
    DClaim claim_args
  | DRenew jsval string string
  | DRelease jsval string
  | DForce force_args
  | DEvent jsval "jsval list" string

fun pass :: "refusal + execution \<Rightarrow> execution option" where
  "pass (Inl _) = None"
| "pass (Inr s) = Some s"

definition door_step :: "execution \<Rightarrow> door \<Rightarrow> execution option" where
  "door_step r d =
     (case d of
        DClaim a \<Rightarrow> pass (claim r a)
      | DRenew fence lease now \<Rightarrow> pass (renew r fence lease now)
      | DRelease fence now \<Rightarrow> pass (release r fence now)
      | DForce a \<Rightarrow> pass (map_sum id fst (force_release r a))
      | DEvent e seen now \<Rightarrow>
          (case apply_execution_event False r e seen (Some now) of Accepted s k \<Rightarrow> Some s | _ \<Rightarrow> None))"

inductive reachable :: "(string \<Rightarrow> string) \<Rightarrow> execution \<Rightarrow> bool" for h where
  opened: "init_execution h spec = Some r \<Longrightarrow> reachable h r"
| moved: "reachable h r \<Longrightarrow> door_step r d = Some s \<Longrightarrow> reachable h s"

inductive later :: "execution \<Rightarrow> execution \<Rightarrow> bool" for r where
  here: "later r r"
| step: "later r s \<Longrightarrow> door_step s d = Some t \<Longrightarrow> later r t"

lemma pass_Some [simp]: "pass x = Some s \<longleftrightarrow> x = Inr s"
  by (cases x) auto

lemma renew_cases [consumes 1, case_names ok]:
  assumes "renew r fence lease now = Inr s"
  obtains ow where "x_owner r = Some ow" "holds_lease r fence (Some now)"
    "s = r\<lparr>x_owner := Some (ow\<lparr>ow_lease := lease\<rparr>), x_updated_at := Some now\<rparr>"
proof -
  from assms have l: "holds_lease r fence (Some now)"
    and s: "s = r\<lparr>x_owner := map_option (\<lambda>ow. ow\<lparr>ow_lease := lease\<rparr>) (x_owner r), x_updated_at := Some now\<rparr>"
    unfolding ownership_live_None [symmetric] by (auto simp: renew_def split: option.splits)
  from l obtain ow where "x_owner r = Some ow" by (auto simp: holds_lease_def)
  with that l s show ?thesis by simp
qed

lemma release_cases [consumes 1, case_names ok]:
  assumes "release r fence now = Inr s"
  shows "holds_lease r fence (Some now) \<and> x_stage r \<noteq> Completed \<and> now \<noteq> [] \<and>
    s = r\<lparr>x_owner := None, x_released_at := Some now, x_updated_at := Some now\<rparr>"
proof -
  from assms have l: "ownership_live r fence (Some now) = None" and c: "x_stage r \<noteq> Completed"
    and s: "s = r\<lparr>x_owner := None, x_released_at := Some now, x_updated_at := Some now\<rparr>"
    by (auto simp: release_def split: if_splits option.splits)
  have "date_parse [] = None" by (simp add: date_parse_def digits_field_def)
  with l c s show ?thesis
    by (auto simp: ownership_live_None holds_lease_def parse_time_def)
qed

lemma force_release_moves:
  assumes "force_release r a = Inr (s, b)"
  shows "s = r \<or> (\<not> is_terminal r \<and> fa_now a \<noteq> [] \<and> (\<exists>f. s = r\<lparr>x_force_release := Some f, x_owner := None,
     x_released_at := Some (fa_now a), x_updated_at := Some (fa_now a)\<rparr>))"
proof -
  have "date_parse [] = None" by (simp add: date_parse_def digits_field_def)
  with assms show ?thesis
    by (auto simp: force_release_def Let_def valid_force_args_def split: if_splits option.splits)
qed

lemma force_release_fresh:
  assumes "force_release r a = Inr (s, False)"
  shows "\<not> is_terminal r \<and> fa_now a \<noteq> [] \<and> (\<exists>f. s = r\<lparr>x_force_release := Some f, x_owner := None,
     x_released_at := Some (fa_now a), x_updated_at := Some (fa_now a)\<rparr>)"
proof -
  have "date_parse [] = None" by (simp add: date_parse_def digits_field_def)
  with assms show ?thesis
    by (auto simp: force_release_def Let_def valid_force_args_def split: if_splits option.splits)
qed

lemma door_cases [consumes 1, case_names claimed renewed released forced event]:
  assumes "door_step r d = Some s"
  obtains (claimed) a where "claim r a = Inr s"
    | (renewed) fence lease now where "renew r fence lease now = Inr s"
    | (released) fence now where "release r fence now = Inr s"
    | (forced) a b where "force_release r a = Inr (s, b)"
    | (event) e seen now k where "apply_execution_event False r e seen (Some now) = Accepted s k"
proof (cases d)
  case (DForce a)
  with assms have "map_sum id fst (force_release r a) = Inr s" by (simp add: door_step_def)
  then obtain b where "force_release r a = Inr (s, b)"
    by (cases "force_release r a") auto
  with forced show ?thesis .
qed (use assms claimed renewed released event in \<open>auto simp: door_step_def split: outcome.splits\<close>)

text \<open>A released record has no owner, and an owner's fence is positive.\<close>

definition owner_inv :: "execution \<Rightarrow> bool" where
  "owner_inv r \<longleftrightarrow> (text_truthy (x_released_at r) \<longrightarrow> x_owner r = None) \<and> 0 \<le> owner_fence r"

lemma init_fields:
  assumes "init_execution h spec = Some r"
  shows "x_owner r = None" "x_released_at r = None" "x_candidate r = JNull" "x_candidates r = []"
    "x_attempts r = []" "x_integration r = None" "x_stage r = Implementation" "x_force_release r = None"
    "x_gate_results r = map fresh_gate_row (x_gates r)" "x_seq r = 0"
  using assms by (auto simp: init_execution_def Let_def split: option.splits)

lemma owner_inv_step:
  assumes "door_step r d = Some s" and "owner_inv r"
  shows "owner_inv s \<and> (text_truthy (x_released_at s) \<or>
    (owner_fence r \<le> owner_fence s \<and> (x_owner r \<noteq> None \<longrightarrow> x_owner s \<noteq> None)))"
  using assms(1)
proof (cases rule: door_cases)
  case (claimed a)
  then show ?thesis
    by (rule claim_cases) (use assms(2) in \<open>auto simp: owner_inv_def owner_fence_def is_terminal_def\<close>)
next
  case (renewed fence lease now)
  then show ?thesis
    by (rule renew_cases) (use assms(2) in \<open>auto simp: owner_inv_def owner_fence_def\<close>)
next
  case (released fence now)
  from release_cases [OF released] show ?thesis
    by (auto simp: owner_inv_def owner_fence_def text_truthy_def)
next
  case (forced a b)
  from force_release_moves [OF forced] show ?thesis
    using assms(2) by (auto simp: owner_inv_def owner_fence_def text_truthy_def)
next
  case (event e seen now k)
  from accepted_event_same_ownership [OF event] show ?thesis
    using assms(2) by (simp add: owner_inv_def owner_fence_def same_ownership_def)
qed

lemma reachable_owner_inv: "reachable h r \<Longrightarrow> owner_inv r"
proof (induction rule: reachable.induct)
  case (opened spec r)
  with init_fields [OF opened] show ?case by (simp add: owner_inv_def owner_fence_def text_truthy_def)
next
  case (moved r d s)
  with owner_inv_step show ?case by blast
qed

lemma released_stays:
  assumes "door_step r d = Some s" and "text_truthy (x_released_at r)" and "owner_inv r"
  shows "x_owner s = None \<and> text_truthy (x_released_at s)"
proof -
  have t: "is_terminal r" and n: "x_owner r = None"
    using assms(2,3) by (auto simp: is_terminal_def owner_inv_def)
  from assms(1) show ?thesis
  proof (cases rule: door_cases)
    case (claimed a)
    then show ?thesis by (rule claim_cases) (use t in simp)
  next
    case (renewed fence lease now)
    then show ?thesis by (rule renew_cases) (use n in simp)
  next
    case (released fence now)
    with release_cases [OF released] n show ?thesis by (simp add: holds_lease_def)
  next
    case (forced a b)
    from force_release_moves [OF forced] t n assms(2) show ?thesis by auto
  next
    case (event e seen now k)
    then show ?thesis by (auto elim!: accepted_cases simp: t)
  qed
qed

text \<open>
  Fences never go back. From any reachable record, along any sequence of claims,
  renewals, releases, force releases and events, whoever owns the execution later does so
  under a fence at least as high: a fence that was superseded never becomes current again.
\<close>

theorem fences_never_go_back:
  assumes "reachable h r" and "later r s" and "x_owner s = Some ow"
  shows "owner_fence r \<le> ow_fence ow"
proof -
  have "owner_inv s \<and> (text_truthy (x_released_at s) \<or> owner_fence r \<le> owner_fence s)"
    using assms(2)
  proof (induction rule: later.induct)
    case here
    show ?case using reachable_owner_inv [OF assms(1)] by simp
  next
    case (step s d t)
    from step.IH owner_inv_step [OF step.hyps(2)] released_stays [OF step.hyps(2)] show ?case
      by auto
  qed
  with assms(3) show ?thesis by (auto simp: owner_inv_def owner_fence_def)
qed

subsection \<open>Retries\<close>

lemma derived_key_stable:
  assumes "x_id s = x_id r" and "event_type_of (js_get e ''type'') \<noteq> Some AttemptObserved"
  shows "derived_event_key s e raw = derived_event_key r e raw"
  using assms
  by (cases "event_type_of (js_get e ''type'')")
    (auto simp: derived_event_key_def Let_def split: event_type.split)

text \<open>The reducer on an event whose key is on the log and that conflicts with nothing.\<close>

lemma apply_replayed:
  assumes "is_objectlike e" and "event_type_of (js_get e ''type'') = Some t"
    and "is_provider_event t \<Longrightarrow> attempt_index (js_get e ''attempt'') \<noteq> None"
    and "truthy (the_key False s t (canonical_event False t e))"
    and "the_key False s t (canonical_event False t e) \<in> set seen"
    and "is_provider_event t \<Longrightarrow> attempt_handle_conflict s t (canonical_event False t e) = None"
  shows "apply_execution_event False s e seen now = Replayed (the_key False s t (canonical_event False t e))"
proof -
  have at: "or_else (string_or_null (js_get e ''at'')) now = event_at e now" by (simp add: event_at_def)
  show ?thesis
    using assms
    by (auto simp: apply_execution_event_def apply_keyed_def Let_def the_key_def [symmetric]
        canonical_event_def split: option.split)
qed

lemma canonical_attempt:
  assumes "is_provider_event t" and "attempt_index (js_get e ''attempt'') = Some i"
  shows "js_get (canonical_event False t e) ''attempt'' = JNum i"
  using assms by (simp add: canonical_event_def)

lemma attempt_index_JNum: "attempt_index v = Some i \<Longrightarrow> attempt_index (JNum i) = Some i"
  by (auto simp: attempt_index_def Let_def split: option.splits if_splits)

text \<open>A live provider event is a transition unless it is an observe that repeats the state
  last recorded for its attempt.\<close>

definition repeats_observation :: "execution \<Rightarrow> jsval \<Rightarrow> bool" where
  "repeats_observation r e \<longleftrightarrow> (\<exists>i p. attempt_index (js_get e ''attempt'') = Some i \<and>
     provider_of r (JNum i) = Some p \<and> pv_last_state p = Some (js_string (js_get e ''state'')))"

lemma observed_key:
  assumes "event_type_of (js_get c ''type'') = Some AttemptObserved" and "js_get c ''attempt'' = JNum i"
    and "attempt_index (JNum i) = Some i"
  shows "derived_event_key r c False = key_of [x_id r, ''attempt.observed'', int_string i,
     int_string (case provider_of r (JNum i) of None \<Rightarrow> 1
       | Some p \<Rightarrow> if pv_last_state p = Some (js_string (js_get c ''state'')) then pv_observed_seq p
           else pv_observed_seq p + 1), js_string (js_get c ''state'')]"
  using assms by (auto simp: derived_event_key_def Let_def split: option.split)

lemma provider_retry:
  assumes pe: "is_provider_event t" and t: "event_type_of (js_get c ''type'') = Some t"
    and a: "js_get c ''attempt'' = JNum i" and i: "attempt_index (JNum i) = Some i"
    and ap: "apply_attempt_event False r t c at = Inr r0"
    and s: "x_attempts s = x_attempts r0" "x_id s = x_id r"
    and rep: "t = AttemptObserved \<Longrightarrow> \<forall>p. provider_of r (JNum i) = Some p \<longrightarrow>
      pv_last_state p \<noteq> Some (js_string (js_get c ''state''))"
  shows "attempt_handle_conflict s t c = None \<and> derived_event_key s c False = derived_event_key r c False"
proof -
  have n: "js_number (js_get c ''attempt'') = Some i" by (simp add: a)
  have ps: "provider_of s v = provider_of r0 v" for v
    using s by (simp add: provider_of_def attempt_row_of_def)
  have row: "\<exists>row. attempt_row_of r (js_get c ''attempt'') = Some row \<and> at_provider row = Some p"
    if "provider_of r (js_get c ''attempt'') = Some p" for p
    using that by (auto simp: provider_of_def split: option.splits)
  from pe consider "t = AttemptSubmitting" | "t = AttemptSubmitted" | "t = AttemptObserved"
    by (auto simp: is_provider_event_def)
  then show ?thesis
  proof cases
    case 1
    with ap have "apply_submitting r c at = Inr r0"
      by (auto simp: apply_attempt_event_def split: if_splits)
    then show ?thesis
    proof (cases rule: submitting_cases)
      case (ok pid)
      have "provider_of r0 (JNum i) = Some (new_provider (JStr pid) (submit_key_of c) (js_get c ''request'') at)"
        using provider_after [OF n, where f = "\<lambda>row. row\<lparr>at_provider :=
          Some (new_provider (JStr pid) (submit_key_of c) (js_get c ''request'') at)\<rparr>"] ok(4) a by simp
      with 1 ok ps a show ?thesis
        using derived_key_stable [OF s(2), of c False] t
        by (simp add: attempt_handle_conflict_def new_provider_def)
    qed
  next
    case 2
    with ap have "apply_submitted False r c at = Inr r0"
      by (auto simp: apply_attempt_event_def split: if_splits)
    then show ?thesis
    proof (cases rule: submitted_cases)
      case (ok pid)
      then obtain p where p: "provider_of r (js_get c ''attempt'') = Some p"
        and id: "pv_id p = pid" "pv_key p = submit_key_of c" by auto
      from row [OF p] obtain arow where ar: "attempt_row_of r (JNum i) = Some arow" "at_provider arow = Some p"
        by (auto simp: a)
      have "provider_of r0 (JNum i) = Some (take_handle c at p)"
        using provider_after [OF n, where f = "\<lambda>row. row\<lparr>at_provider := Some (take_handle c at
            (case at_provider row of Some p \<Rightarrow> p
             | None \<Rightarrow> new_provider (JStr pid) (submit_key_of c) JNull None))\<rparr>"] ok(5) a ar by simp
      with 2 ok id ps a show ?thesis
        using derived_key_stable [OF s(2), of c False] t
        by (simp add: attempt_handle_conflict_def take_handle_def)
    qed
  next
    case 3
    with ap have "apply_observed r c at = Inr r0"
      by (auto simp: apply_attempt_event_def split: if_splits)
    then show ?thesis
    proof (cases rule: observed_cases)
      case (ok p)
      from row [OF ok(1)] obtain arow where ar: "attempt_row_of r (JNum i) = Some arow" "at_provider arow = Some p"
        by (auto simp: a)
      have "provider_of r0 (JNum i) = Some (take_observation c at p)"
        using provider_after [OF n, where f = "\<lambda>row. row\<lparr>at_provider := map_option (take_observation c at) (at_provider row)\<rparr>"]
          ok(4) a ar by simp
      with 3 ok ps a rep show ?thesis
        using observed_key [OF t [unfolded 3] a i, of s] observed_key [OF t [unfolded 3] a i, of r] s(2)
        by (simp add: attempt_handle_conflict_def take_observation_def)
    qed
  qed
qed

text \<open>
  C15. Retries are absorbed. Sending an accepted event again, whatever the clock and
  whoever holds the execution by then, answers \<open>replayed\<close> under the key the first attempt
  was recorded under: for the events with their own key and for every derived key,
  including the provider events (whatever spelling of the attempt index, the observe being
  a change of state when it was first sent).
\<close>

theorem retry_is_replayed:
  assumes acc: "apply_execution_event False r e seen now = Accepted s k"
    and rep: "js_get e ''type'' = JStr ''attempt.observed'' \<Longrightarrow> \<not> repeats_observation r e"
  shows "apply_execution_event False (s\<lparr>x_owner := ow, x_updated_at := up\<rparr>) e (k # seen') now' = Replayed k"
  using acc
proof (cases rule: accepted_cases)
  case (accepted t r0)
  let ?c = "canonical_event False t e" and ?s = "s\<lparr>x_owner := ow, x_updated_at := up\<rparr>"
  have id: "x_id ?s = x_id r"
    using apply_by_type_pins [OF accepted(2)] accepted(3) by (simp add: same_pins_def)
  have tc: "event_type_of (js_get ?c ''type'') = Some t" using accepted(1) by simp
  have "(is_provider_event t \<longrightarrow> attempt_handle_conflict ?s t ?c = None) \<and> the_key False ?s t ?c = k"
  proof (cases "is_provider_event t")
    case True
    from accepted(11) [OF True] obtain i where i: "attempt_index (js_get e ''attempt'') = Some i" by auto
    have a: "js_get ?c ''attempt'' = JNum i" by (rule canonical_attempt [OF True i])
    have ap: "apply_attempt_event False r t ?c (event_at e now) = Inr r0"
      using accepted(2) True by (auto simp: apply_by_type_def is_provider_event_def)
    have nr: "\<forall>p. provider_of r (JNum i) = Some p \<longrightarrow> pv_last_state p \<noteq> Some (js_string (js_get ?c ''state''))"
      if "t = AttemptObserved"
    proof -
      have "js_get e ''type'' = JStr ''attempt.observed''"
        using accepted(1) that by (auto simp: event_type_of_def split: if_splits)
      with rep i show ?thesis by (auto simp: repeats_observation_def)
    qed
    from provider_retry [OF True tc a attempt_index_JNum [OF i] ap _ id nr] accepted(3,4) True
    show ?thesis by (simp add: the_key_def own_key_def)
  next
    case False
    then have "t \<noteq> AttemptObserved" by (auto simp: is_provider_event_def)
    with derived_key_stable [OF id, of ?c False] tc False accepted(4) show ?thesis
      by (simp add: the_key_def)
  qed
  with apply_replayed [OF accepted(10,1), of ?s "k # seen'" now'] accepted(6,11) show ?thesis by simp
qed

end
