(* ===== verification/ExecutionChain.thy ===== *)
theory ExecutionChain
  imports ExecutionProps
begin

text \<open>
  Invariants of the records the doors can reach: the candidate chain and the verdicts
  settled on it, and the attempt rows with their provider handles.
\<close>

subsection \<open>The candidate chain\<close>

text \<open>What the chain is, abstractly: the ids, oldest first, each with the id it superseded.\<close>

definition chain_view :: "jsval list \<Rightarrow> (string \<times> jsval) list" where
  "chain_view cs = map (\<lambda>c. (candidate_id_string c, js_get c ''supersedes'')) cs"

fun linked :: "(string \<times> jsval) list \<Rightarrow> bool" where
  "linked ((a, _) # (b, p) # rest) = (p = JStr a \<and> linked ((b, p) # rest))"
| "linked _ = True"

lemma linked_snoc:
  "linked (xs @ [x]) \<longleftrightarrow> linked xs \<and> (xs \<noteq> [] \<longrightarrow> snd x = JStr (fst (last xs)))"
  by (cases x, induction xs rule: linked.induct) (auto simp: neq_Nil_conv)

abbreviation ids :: "execution \<Rightarrow> string list" where
  "ids r \<equiv> map candidate_id_string (x_candidates r)"

lemma ids_view: "map candidate_id_string cs = map fst (chain_view cs)"
  by (simp add: chain_view_def)

definition tip_ok :: "execution \<Rightarrow> bool" where
  "tip_ok r \<longleftrightarrow> (if x_candidates r = [] then \<not> truthy (x_candidate r)
     else last (x_candidates r) = x_candidate r) \<and> list_all is_plain_object (x_candidates r)"

definition verdicts_ok :: "execution \<Rightarrow> bool" where
  "verdicts_ok r \<longleftrightarrow> (\<forall>g\<in>set (x_gate_results r). \<forall>c. gr_candidate g = Some c \<longrightarrow> c \<in> set (ids r))"

definition chain_inv :: "execution \<Rightarrow> bool" where
  "chain_inv r \<longleftrightarrow> tip_ok r \<and> distinct (ids r) \<and> linked (chain_view (x_candidates r)) \<and> verdicts_ok r"

lemma plain_truthy: "is_plain_object v \<Longrightarrow> truthy v"
  by (cases v) auto

lemma tip_truthy: "tip_ok r \<Longrightarrow> truthy (x_candidate r) \<longleftrightarrow> x_candidates r \<noteq> []"
  by (auto simp: tip_ok_def list_all_iff plain_truthy dest: last_in_set split: if_splits)

lemma tip_in_ids: "tip_ok r \<Longrightarrow> truthy (x_candidate r) \<Longrightarrow> candidate_id_string (x_candidate r) \<in> set (ids r)"
  using tip_truthy [of r] last_in_set [of "x_candidates r"] by (auto simp: tip_ok_def)

lemma chain_inv_cong:
  assumes "x_candidate s = x_candidate r" "x_candidates s = x_candidates r" "chain_inv r"
    and "\<And>g. g \<in> set (x_gate_results s) \<Longrightarrow> g \<in> set (x_gate_results r) \<or> gr_candidate g = None
       \<or> the (gr_candidate g) \<in> set (ids r)"
  shows "chain_inv s"
  using assms by (fastforce simp: chain_inv_def tip_ok_def verdicts_ok_def)

text \<open>Rewriting one entry in place, its id and its link kept.\<close>

lemma view_update:
  "i < length cs \<Longrightarrow> candidate_id_string v = candidate_id_string (cs ! i) \<Longrightarrow>
   js_get v ''supersedes'' = js_get (cs ! i) ''supersedes'' \<Longrightarrow> chain_view (cs[i := v]) = chain_view cs"
  by (simp add: chain_view_def map_update list_update_same_conv)

lemma distinct_last_index:
  assumes "distinct (map f cs)" and "find_index (\<lambda>x. f x = f (last cs)) cs = Some i" and "cs \<noteq> []"
  shows "i = length cs - 1"
proof -
  from find_index_Some_nth [OF assms(2)] have i: "i < length cs" "f (cs ! i) = f (cs ! (length cs - 1))"
    using assms(3) by (auto simp: last_conv_nth)
  then show ?thesis
    using assms(1,3) nth_eq_iff_index_eq [of "map f cs" i "length cs - 1"] by simp
qed

lemma last_update_last: "cs \<noteq> [] \<Longrightarrow> last (cs[length cs - 1 := v]) = v"
  by (simp add: last_conv_nth)

lemma resubmit_chain:
  assumes inv: "chain_inv r" and st: "same_tip r c"
  shows "chain_inv (resubmit r c) \<and> ids (resubmit r c) = ids r"
proof -
  let ?cs = "x_candidates r" and ?tip = "x_candidate r"
  let ?m = "js_set ?tip ''commits_seen'' (JArr (commits_seen ?tip c))"
  have ne: "?cs \<noteq> []" using inv st tip_truthy by (auto simp: chain_inv_def same_tip_def)
  have l: "last ?cs = ?tip" using inv ne by (simp add: chain_inv_def tip_ok_def)
  have same: "candidate_id_string c = candidate_id_string (last ?cs)" using st l by (simp add: same_tip_def)
  have "find_index (\<lambda>x. candidate_id_string x = candidate_id_string c) ?cs \<noteq> None"
    using ne same last_in_set [OF ne] by (auto simp: find_index_None)
  then obtain i where fi: "find_index (\<lambda>x. candidate_id_string x = candidate_id_string c) ?cs = Some i" by auto
  have i: "i = length ?cs - 1"
    by (rule distinct_last_index) (use inv fi same ne in \<open>auto simp: chain_inv_def\<close>)
  have il: "i < length ?cs" and ci: "?cs ! i = ?tip" using i ne l by (auto simp: last_conv_nth)
  have v: "chain_view (?cs[i := ?m]) = chain_view ?cs" by (rule view_update [OF il]) (simp_all add: ci)
  have r: "resubmit r c = r\<lparr>x_candidate := ?m, x_candidates := ?cs[i := ?m]\<rparr>"
    by (simp add: resubmit_def Let_def fi)
  have id: "ids (resubmit r c) = ids r" using v by (simp add: r ids_view)
  have "list_all is_plain_object (?cs[i := ?m])"
    using inv by (auto simp: chain_inv_def tip_ok_def list_all_iff dest!: set_update_subset_insert [THEN subsetD])
  moreover have "last (?cs[i := ?m]) = ?m" unfolding i by (rule last_update_last [OF ne])
  ultimately have "tip_ok (resubmit r c)" using ne by (simp add: tip_ok_def r)
  with inv id v show ?thesis by (simp add: chain_inv_def verdicts_ok_def r)
qed

lemma pinned_fields [simp]:
  "x_candidate (pinned r e at) = x_candidate r" "x_candidates (pinned r e at) = x_candidates r"
  "x_gate_results (pinned r e at) = x_gate_results r" "x_gates (pinned r e at) = x_gates r"
  "x_integration (pinned r e at) = x_integration r"
  by (simp_all add: pinned_def Let_def)

lemma pinned_chain [simp]: "chain_inv (pinned r e at) = chain_inv r"
  by (simp add: chain_inv_def tip_ok_def verdicts_ok_def)

lemma leave_tip_fields [simp]:
  "x_candidate (leave_tip r) = x_candidate r" "x_candidates (leave_tip r) = x_candidates r"
  by (simp_all add: leave_tip_def)

lemma string_or_null_tip:
  "string_or_null (js_get c ''candidate_id'') = Some i \<Longrightarrow> i = candidate_id_string c"
  by (auto simp: string_or_null_def candidate_id_string_def split: if_splits)

lemma leave_tip_verdicts:
  assumes "verdicts_ok r" and "tip_ok r" and "truthy (x_candidate r)"
  shows "verdicts_ok (leave_tip r)"
  using assms tip_in_ids [OF assms(2,3)]
  by (auto simp: verdicts_ok_def leave_tip_def dest!: string_or_null_tip split: if_splits)

lemma repin_chain:
  assumes inv: "chain_inv r" and rp: "repin hist r e c = Inr r1" and po: "is_plain_object c"
    and nw: "candidate_id_string c \<notin> set (ids r)"
  shows "chain_inv r1 \<and> ids r1 = ids r @ [candidate_id_string c]"
  using rp
proof (cases rule: repin_cases)
  case (ok r0)
  let ?sup = "if truthy (x_candidate r) then JStr (candidate_id_string (x_candidate r))
    else if nullish (js_get c ''supersedes'') then JNull else JStr (js_string (js_get c ''supersedes''))"
  let ?e = "js_set c ''supersedes'' ?sup"
  have c1: "x_candidate r1 = ?e" and c2: "x_candidates r1 = x_candidates r @ [?e]" using ok by simp_all
  have vd: "verdicts_ok r0"
    using inv ok(1) leave_tip_verdicts by (auto simp: chain_inv_def split: if_splits)
  have g: "x_gate_results r1 = x_gate_results r0" and c0: "x_candidates r0 = x_candidates r" using ok by auto
  have t: "tip_ok r1" using inv by (simp add: tip_ok_def c1 c2 chain_inv_def)
  have lk: "linked (chain_view (x_candidates r))" and tr: "tip_ok r" using inv by (auto simp: chain_inv_def)
  have "snd (candidate_id_string ?e, ?sup) = JStr (fst (last (chain_view (x_candidates r))))"
    if ne: "x_candidates r \<noteq> []"
  proof -
    have "last (x_candidates r) = x_candidate r" "truthy (x_candidate r)"
      using tr ne tip_truthy [OF tr] by (auto simp: tip_ok_def)
    then show ?thesis using ne by (simp add: chain_view_def last_map)
  qed
  then have "linked (chain_view (x_candidates r) @ [(candidate_id_string ?e, ?sup)])"
    using lk by (simp add: linked_snoc chain_view_def)
  then have "linked (chain_view (x_candidates r1))"
    by (simp add: c2 chain_view_def)
  moreover have i: "ids r1 = ids r @ [candidate_id_string c]" by (simp add: c2)
  ultimately show ?thesis
    using inv nw t vd g c0 by (auto simp: chain_inv_def verdicts_ok_def)
qed

lemma pin_chain:
  assumes inv: "chain_inv r" and pc: "pin_candidate False r e at = Inr s"
  shows "chain_inv s \<and> (\<exists>ext. ids s = ids r @ ext)"
  using pc
proof (cases rule: pin_candidate_cases)
  case again
  with resubmit_chain [OF inv again(1)] show ?thesis by simp
next
  case (fresh r1)
  have "candidate_id_string (js_get e ''candidate'') \<notin> set (ids r)"
    using fresh(5) by (auto simp: list_ex_iff)
  from repin_chain [OF inv fresh(3) fresh(2) this] fresh(4) show ?thesis by simp
qed

lemma update_first_find:
  "List.find p cs = Some x \<Longrightarrow> \<exists>i<length cs. cs ! i = x \<and> update_first p (\<lambda>_. v) cs = cs[i := v]"
proof (induction cs)
  case (Cons c cs)
  show ?case
  proof (cases "p c")
    case True
    with Cons.prems show ?thesis by (intro exI [of _ 0]) auto
  next
    case False
    with Cons.prems Cons.IH obtain i where "i < length cs" "cs ! i = x" "update_first p (\<lambda>_. v) cs = cs[i := v]"
      by auto
    with False show ?thesis by (intro exI [of _ "Suc i"]) auto
  qed
qed simp

lemma publish_chain:
  assumes inv: "chain_inv r" and pb: "publish hist r e at = Inr s"
  shows "chain_inv s \<and> ids s = ids r"
  using pb
proof (cases rule: publish_cases)
  case (ok entry e3)
  let ?i = "js_string (js_get e ''candidate_id'')" and ?cs = "x_candidates r"
  from find_Some_set [OF ok(1)] have ei: "entry \<in> set ?cs" "candidate_id_string entry = ?i" by auto
  from update_first_find [OF ok(1), of e3] obtain n where
    n: "n < length ?cs" "?cs ! n = entry" and up: "x_candidates s = ?cs[n := e3]"
    using ok(2) by (auto simp: publish_entry_def)
  have v: "chain_view (?cs[n := e3]) = chain_view ?cs"
    by (rule view_update [OF n(1)]) (use ok(3,5) n(2) in auto)
  have id: "ids s = ids r" using v up by (simp add: ids_view)
  have ne: "?cs \<noteq> []" using n by auto
  have l: "last ?cs = x_candidate r" using inv ne by (simp add: chain_inv_def tip_ok_def)
  have tr: "truthy (x_candidate r)" using inv ne tip_truthy by (auto simp: chain_inv_def)
  have "last (?cs[n := e3]) = x_candidate s"
  proof (cases "n = length ?cs - 1")
    case True
    then have "candidate_id_string (x_candidate r) = ?i" using l n ei ne by (simp add: last_conv_nth)
    with True ok(2) tr last_update_last [OF ne] show ?thesis by (simp add: publish_entry_def)
  next
    case False
    have "candidate_id_string (x_candidate r) \<noteq> ?i"
    proof
      assume "candidate_id_string (x_candidate r) = ?i"
      then have "ids r ! n = ids r ! (length ?cs - 1)" using n l ei ne by (simp add: last_conv_nth)
      with inv n(1) ne False show False
        using nth_eq_iff_index_eq [of "ids r" n "length ?cs - 1"] by (simp add: chain_inv_def)
    qed
    with False ok(2) l ne show ?thesis by (simp add: publish_entry_def last_list_update)
  qed
  moreover have "list_all is_plain_object (?cs[n := e3])"
    using inv ok(4) by (auto simp: chain_inv_def tip_ok_def list_all_iff dest!: set_update_subset_insert [THEN subsetD])
  ultimately have "tip_ok s" using ne up by (simp add: tip_ok_def)
  moreover have "x_gate_results s = x_gate_results r" using ok(2) by (simp add: publish_entry_def)
  ultimately show ?thesis using inv id v up by (simp add: chain_inv_def verdicts_ok_def)
qed

lemma gate_update_chain:
  assumes inv: "chain_inv r" and c: "\<And>g c. gr_candidate (f g) = Some c \<Longrightarrow> c \<in> set (ids r) \<or> gr_candidate g = Some c"
  shows "chain_inv ((on_gate r v f)\<lparr>x_stage := st\<rparr>)"
proof (rule chain_inv_cong [of _ r])
  fix g assume "g \<in> set (x_gate_results ((on_gate r v f)\<lparr>x_stage := st\<rparr>))"
  then have "g \<in> set (x_gate_results r) \<or> (\<exists>h\<in>set (x_gate_results r). g = f h)"
    by (auto simp: on_gate_def dest: set_update_firstD)
  then show "g \<in> set (x_gate_results r) \<or> gr_candidate g = None \<or> the (gr_candidate g) \<in> set (ids r)"
  proof
    assume "\<exists>h\<in>set (x_gate_results r). g = f h"
    then obtain h where h: "h \<in> set (x_gate_results r)" "g = f h" by blast
    have "the (gr_candidate g) \<in> set (ids r)" if "gr_candidate g = Some i" for i
      using c [of h i] that h inv by (auto simp: chain_inv_def verdicts_ok_def)
    then show ?thesis by (cases "gr_candidate g") auto
  qed simp
qed (use inv in \<open>simp_all add: on_gate_def\<close>)

lemma same_chain:
  assumes "chain_inv r" and "x_candidate s = x_candidate r" and "x_candidates s = x_candidates r"
    and "x_gate_results s = x_gate_results r"
  shows "chain_inv s \<and> (\<exists>ext. ids s = ids r @ ext)"
  using assms by (simp add: chain_inv_def tip_ok_def verdicts_ok_def)

lemma apply_by_type_chain:
  assumes inv: "chain_inv r" and ap: "apply_by_type False r t e at = Inr s"
  shows "chain_inv s \<and> (\<exists>ext. ids s = ids r @ ext)"
proof -
  have att: ?thesis if "apply_attempt_event False r t' e at = Inr s" for t'
    using that by (rule apply_attempt_only_rows) (use inv in \<open>simp add: same_chain\<close>)
  show ?thesis
  proof (cases t)
    case CandidatePublished
    with ap have "publish False r e at = Inr s" by (simp add: apply_by_type_def)
    with publish_chain [OF inv] show ?thesis by force
  next
    case GateStarted
    with ap have "start_gate False r e = Inr s" by (simp add: apply_by_type_def)
    then show ?thesis
    proof (cases rule: start_gate_cases)
      case (ok f)
      have "chain_inv s" unfolding ok(1) by (rule gate_update_chain [OF inv]) (use ok(4) in simp)
      with ok(1) show ?thesis by (simp add: on_gate_def)
    qed
  next
    case GateSettled
    with ap have "settle_gate False r e at = Inr s" by (simp add: apply_by_type_def)
    then show ?thesis
    proof (cases rule: settle_gate_cases)
      case (ok st judged)
      have tr: "truthy (x_candidate r)"
        using ok(4) by (cases "x_candidate r") (auto simp: candidate_ready_def candidate_published_def)
      have j: "judged = Some c \<Longrightarrow> c \<in> set (ids r)" for c
      proof (cases "nullish (js_get e ''candidate_id'')")
        case True
        assume "judged = Some c"
        with True ok(3) have "c = candidate_id_string (x_candidate r)" by (intro string_or_null_tip) simp
        with tip_in_ids [OF _ tr] inv show ?thesis by (simp add: chain_inv_def)
      next
        case False
        assume "judged = Some c"
        with False ok(3,5) show ?thesis by (auto simp: list_ex_iff image_iff intro: sym)
      qed
      have s: "s = (on_gate r (js_get e ''gate_id'') (\<lambda>g. g\<lparr>gr_state := Some st,
        gr_attempt := number_or (js_get e ''attempt'') (gr_attempt g), gr_settled_at := at,
        gr_candidate := judged\<rparr>))\<lparr>x_stage := x_stage r\<rparr>"
        using ok(2) by (simp add: on_gate_def)
      have "chain_inv s" unfolding s by (rule gate_update_chain [OF inv]) (use j in simp)
      with s show ?thesis by (simp add: on_gate_def)
    qed
  next
    case IntegrationSettled
    with ap have "settle_integration r e at = Inr s" by (simp add: apply_by_type_def)
    then show ?thesis by (rule settle_integration_cases) (use inv in \<open>simp add: same_chain\<close>)
  next
    case StageStarted
    with ap have "s = (on_attempt r e at (\<lambda>row. row\<lparr>at_state := Some ''dispatched'',
        at_run_id := (if nullish (js_get e ''run_id'') then at_run_id row else Some (js_string (js_get e ''run_id'')))\<rparr>))
        \<lparr>x_stage := Implementation\<rparr>"
      by (simp add: apply_by_type_def start_stage_def split: if_split_asm)
    then show ?thesis using inv by (simp add: same_chain)
  next
    case StageObserved
    with ap have "\<exists>st. s = (on_attempt r e at (observe_attempt e at))\<lparr>x_stage := st\<rparr>"
      by (auto simp: apply_by_type_def observe_stage_def split: if_split_asm)
    then show ?thesis using inv by (auto simp: same_chain)
  next
    case RescueStarted
    with ap inv show ?thesis by (auto simp: apply_by_type_def same_chain split: if_splits)
  next
    case IntegrationStarted
    with ap inv show ?thesis by (auto simp: apply_by_type_def start_integration_def same_chain split: if_splits)
  next
    case EscalationFiled
    with ap have "x_candidate s = x_candidate r" "x_candidates s = x_candidates r"
      "x_gate_results s = x_gate_results r"
      by (auto simp: apply_by_type_def file_escalation_def split: if_split_asm)
    then show ?thesis using inv by (simp add: same_chain)
  next
    case CompletionWritten
    with ap inv show ?thesis by (auto simp: apply_by_type_def write_completion_def same_chain split: if_splits)
  qed (use ap att pin_chain [OF inv] in \<open>simp_all add: apply_by_type_def\<close>)
qed

lemma accepted_chain:
  assumes inv: "chain_inv r" and acc: "apply_execution_event False r e seen now = Accepted s k"
  shows "chain_inv s \<and> (\<exists>ext. ids s = ids r @ ext)"
  using acc
proof (cases rule: accepted_cases)
  case (accepted t r0)
  with apply_by_type_chain [OF inv accepted(2)] show ?thesis
    by (auto simp: chain_inv_def tip_ok_def verdicts_ok_def)
qed

lemma door_chain:
  assumes inv: "chain_inv r" and d: "door_step r d = Some s"
  shows "chain_inv s \<and> (\<exists>ext. ids s = ids r @ ext)"
  using d
proof (cases rule: door_cases)
  case (claimed a)
  then show ?thesis by (rule claim_cases) (use inv in \<open>simp add: same_chain\<close>)
next
  case (renewed fence lease now)
  then show ?thesis by (rule renew_cases) (use inv in \<open>simp add: same_chain\<close>)
next
  case (released fence now)
  from release_cases [OF released] inv show ?thesis by (simp add: same_chain)
next
  case (forced a b)
  from force_release_moves [OF forced] inv show ?thesis by (auto simp: same_chain)
next
  case (event e seen now k)
  with accepted_chain [OF inv] show ?thesis by blast
qed

lemma reachable_chain: "reachable h r \<Longrightarrow> chain_inv r"
proof (induction rule: reachable.induct)
  case (opened spec r)
  note i = init_fields [OF opened]
  show ?case by (simp add: chain_inv_def tip_ok_def verdicts_ok_def i fresh_gate_row_def chain_view_def)
next
  case (moved r d s)
  with door_chain show ?case by blast
qed

text \<open>
  C16. The candidate chain. In every record the doors can reach, the tip is the last entry of
  the chain (and there is a tip exactly when the chain is not empty), no id occurs twice,
  every entry but the first names its predecessor in \<open>supersedes\<close>, and every verdict names a
  candidate of the chain; and along every later sequence of doors the chain's ids are only
  ever extended.
\<close>

theorem candidate_chain_invariant:
  assumes "reachable h r" and "later r s"
  shows "chain_inv r \<and> (\<exists>ext. ids s = ids r @ ext)"
proof -
  have inv: "chain_inv r" by (rule reachable_chain [OF assms(1)])
  have "chain_inv s \<and> (\<exists>ext. ids s = ids r @ ext)"
    using assms(2)
  proof (induction rule: later.induct)
    case here
    with inv show ?case by simp
  next
    case (step s d t)
    with door_chain [of s d t] show ?case by force
  qed
  with inv show ?thesis by blast
qed

subsection \<open>Re-pins and landed candidates\<close>

definition opted_out :: "execution \<Rightarrow> gate_row \<Rightarrow> bool" where
  "opted_out r g \<longleftrightarrow> (case List.find (\<lambda>p. pg_id p = gr_id g) (x_gates r) of
     None \<Rightarrow> False | Some p \<Rightarrow> \<not> pg_rejudge p)"

lemma gate_accepted_live: "gate_accepted False r g \<longleftrightarrow>
    gr_state g \<in> {Some GatePassed, Some GateSkipped} \<and> (gate_on_tip r g \<or> opted_out r g)"
  by (simp add: gate_accepted_def opted_out_def)

definition moves_tip :: "execution \<Rightarrow> execution \<Rightarrow> bool" where
  "moves_tip r s \<longleftrightarrow> truthy (x_candidate r)
     \<and> candidate_id_string (x_candidate s) \<noteq> candidate_id_string (x_candidate r)"

lemma gate_rows_after_leaving:
  assumes "g \<in> set (x_gate_results (leave_tip r))" and "gr_state g \<noteq> None" and "gr_candidate g = None"
  shows "nullish (js_get (x_candidate r) ''candidate_id'')"
  using assms by (auto simp: leave_tip_def string_or_null_def split: if_splits)

lemma pin_moves_tip:
  assumes inv: "chain_inv r" and pc: "pin_candidate False r e at = Inr s" and mv: "moves_tip r s"
  shows "\<not> landed r \<and> x_integration s = None \<and>
    (\<forall>g\<in>set (x_gate_results s). gr_state g \<noteq> None \<longrightarrow> \<not> gate_on_tip s g)"
  using pc
proof (cases rule: pin_candidate_cases)
  case again
  then have "candidate_id_string (x_candidate s) = candidate_id_string (x_candidate r)"
    by (simp add: resubmit_def Let_def)
  with mv show ?thesis by (simp add: moves_tip_def)
next
  case (fresh r1)
  let ?c = "js_get e ''candidate''"
  have tr: "truthy (x_candidate r)" using mv by (simp add: moves_tip_def)
  have nw: "candidate_id_string ?c \<notin> set (ids r)" using fresh(5) by (auto simp: list_ex_iff)
  have ne: "x_candidates r \<noteq> []" using inv tr tip_truthy by (auto simp: chain_inv_def)
  from fresh(3) show ?thesis
  proof (cases rule: repin_cases)
    case (ok r0)
    have r0: "r0 = leave_tip r" using ok(1) tr by simp
    have s: "x_gate_results s = x_gate_results (leave_tip r)" "x_integration s = None"
      "candidate_id_string (x_candidate s) = candidate_id_string ?c" "length (x_candidates s) > 1"
      using ok(2) fresh(4) r0 ne by (simp_all add: leave_tip_def)
    have "verdicts_ok (leave_tip r)"
      using inv tr by (intro leave_tip_verdicts) (auto simp: chain_inv_def)
    then have "gr_candidate g = Some c \<Longrightarrow> c \<noteq> candidate_id_string ?c"
      if "g \<in> set (x_gate_results s)" for g c
      using that nw s(1) by (auto simp: verdicts_ok_def)
    with s ok(3) [OF tr] show ?thesis
      by (auto simp: gate_on_tip_def split: option.splits)
  qed
qed

lemma only_pins_move_tip:
  assumes inv: "chain_inv r" and ap: "apply_by_type False r t e at = Inr s" and mv: "moves_tip r s"
  shows "pin_candidate False r e at = Inr s"
proof (cases "t = CandidateSubmitted \<or> t = CandidateSuperseded")
  case True
  with ap show ?thesis by (auto simp: apply_by_type_def)
next
  case False
  have "candidate_id_string (x_candidate s) = candidate_id_string (x_candidate r)"
  proof (cases "t = CandidatePublished")
    case True
    with ap have "publish False r e at = Inr s" by (simp add: apply_by_type_def)
    then show ?thesis
    proof (cases rule: publish_cases)
      case (ok entry e3)
      from find_Some_set [OF ok(1)] ok(2,3) show ?thesis by (auto simp: publish_entry_def)
    qed
  next
    case pub: False
    have att: "x_candidate s = x_candidate r" if "apply_attempt_event False r t' e at = Inr s" for t'
      using that by (rule apply_attempt_only_rows) simp
    have gs: "x_candidate s = x_candidate r" if "start_gate False r e = Inr s"
      using that by (rule start_gate_cases) (simp add: on_gate_def)
    have ge: "x_candidate s = x_candidate r" if "settle_gate False r e at = Inr s"
      using that by (rule settle_gate_cases) (simp add: on_gate_def)
    have si: "x_candidate s = x_candidate r" if "settle_integration r e at = Inr s"
      using that by (rule settle_integration_cases) simp
    from ap pub False att gs ge si show ?thesis
      by (cases t) (auto simp: apply_by_type_def start_stage_def observe_stage_def start_integration_def
          file_escalation_def write_completion_def split: if_splits)
  qed
  with mv show ?thesis by (simp add: moves_tip_def)
qed

text \<open>
  C17. A re-pin sends every verdict back. When an accepted event replaces the tip of a
  reachable record by another candidate, no gate counts as accepted any more except those
  that pinned the re-judge opt-out; the integration in flight is dropped, and with a
  gate that did not opt out the boundary is not reached.
\<close>

theorem repin_requires_rejudge:
  assumes "reachable h r" and acc: "apply_execution_event False r e seen now = Accepted s k" and "moves_tip r s"
  shows "(\<forall>g\<in>set (x_gate_results s). gate_accepted False s g \<longrightarrow> opted_out s g) \<and> x_integration s = None
    \<and> ((\<exists>g\<in>set (x_gate_results s). \<not> opted_out s g) \<longrightarrow> \<not> boundary_reached False s)"
  using acc
proof (cases rule: accepted_cases)
  case (accepted t r0)
  note inv = reachable_chain [OF assms(1)]
  have mv: "moves_tip r r0" using assms(3) accepted(3) by (simp add: moves_tip_def)
  note pc = only_pins_move_tip [OF inv accepted(2) mv]
  have st: "x_stage s = Gating"
    using pc accepted(3) by (auto elim!: pin_candidate_cases simp: pinned_def Let_def)
  have same: "x_gate_results s = x_gate_results r0" "x_integration s = x_integration r0"
    "gate_on_tip s = gate_on_tip r0" using accepted(3) by (auto simp: gate_on_tip_def fun_eq_iff split: option.splits)
  from pin_moves_tip [OF inv pc mv] have
    g: "\<forall>g\<in>set (x_gate_results s). gate_accepted False s g \<longrightarrow> opted_out s g" and i: "x_integration s = None"
    unfolding gate_accepted_live same by auto
  have "\<not> boundary_reached False s" if "g \<in> set (x_gate_results s)" "\<not> opted_out s g" for g
    using that g st by (auto simp: boundary_reached_def Let_def list_all_iff split: if_splits)
  with g i show ?thesis by blast
qed

text \<open>
  Nothing supersedes a landed candidate: while the integration stands as landed, no
  accepted event makes another candidate the tip.
\<close>

theorem landed_tip_stays:
  assumes "reachable h r" and acc: "apply_execution_event False r e seen now = Accepted s k" and "landed r"
  shows "\<not> moves_tip r s"
proof
  assume mv: "moves_tip r s"
  from acc show False
  proof (cases rule: accepted_cases)
    case (accepted t r0)
    note inv = reachable_chain [OF assms(1)]
    have mv: "moves_tip r r0" using mv accepted(3) by (simp add: moves_tip_def)
    from pin_moves_tip [OF inv only_pins_move_tip [OF inv accepted(2) mv] mv] assms(3)
    show False by simp
  qed
qed

end
