(* ===== verification/ExecutionAttempts.thy ===== *)
theory ExecutionAttempts
  imports ExecutionChain "HOL-Library.Multiset"
begin

text \<open>
  The attempt rows of a reachable record: one row per numeric index, in order, and the
  provider handle an attempt was submitted under.
\<close>

subsection \<open>One row per index, in order\<close>

definition numeric :: "attempt_row \<Rightarrow> bool" where
  "numeric row \<longleftrightarrow> at_index row \<noteq> None"

definition rows_inv :: "attempt_row list \<Rightarrow> bool" where
  "rows_inv rows \<longleftrightarrow> distinct (map at_index (filter numeric rows))
     \<and> (list_all numeric rows \<longrightarrow> sorted (map sort_index rows))"

lemma mset_push: "mset (push_attempt row rows) = add_mset row (mset rows)"
  by (simp add: push_attempt_def)

lemma distinct_indices_push:
  assumes "distinct (map at_index (filter numeric rows))"
    and "numeric row \<Longrightarrow> at_index row \<notin> at_index ` set rows"
  shows "distinct (map at_index (filter numeric (push_attempt row rows)))"
proof -
  have "mset (map at_index (filter numeric (push_attempt row rows))) = mset (map at_index (filter numeric (row # rows)))"
    by (simp add: mset_push)
  moreover have "distinct (map at_index (filter numeric (row # rows)))"
    using assms by auto
  ultimately show ?thesis by (metis mset_eq_imp_distinct_iff)
qed

lemma rows_inv_push:
  assumes "rows_inv rows" and "numeric row \<Longrightarrow> at_index row \<notin> at_index ` set rows"
  shows "rows_inv (push_attempt row rows)"
  using assms distinct_indices_push [of rows row]
  by (auto simp: rows_inv_def push_attempt_def numeric_def)

lemma rows_inv_update:
  assumes "rows_inv rows" and f: "\<And>row. at_index (f row) = at_index row"
  shows "rows_inv (update_first p f rows)"
proof -
  have m: "map at_index (update_first p f rows) = map at_index rows"
    by (rule map_update_first_frame) (rule f)
  have s: "map sort_index (update_first p f rows) = map sort_index rows"
    by (rule map_update_first_frame) (simp add: sort_index_def f)
  have fm: "map at_index (filter numeric xs) = filter (\<lambda>i. i \<noteq> None) (map at_index xs)" for xs
    by (induction xs) (auto simp: numeric_def)
  have la: "list_all numeric xs = list_all (\<lambda>i. i \<noteq> None) (map at_index xs)" for xs
    by (induction xs) (auto simp: numeric_def)
  show ?thesis using assms(1) by (simp add: rows_inv_def fm la m s)
qed

lemma on_attempt_rows:
  assumes "rows_inv (x_attempts r)" and f: "\<And>row. at_index (f row) = at_index row"
  shows "rows_inv (x_attempts (on_attempt r e at f))"
proof (cases "attempt_row_of r (js_get e ''attempt'')")
  case None
  then have "numeric (f (fresh_attempt r e at)) \<Longrightarrow> at_index (f (fresh_attempt r e at)) \<notin> at_index ` set (x_attempts r)"
    by (auto simp: attempt_row_of_def find_None_set numeric_def f fresh_attempt_def)
  with None rows_inv_push [OF assms(1)] show ?thesis by (simp add: on_attempt_def)
next
  case (Some row)
  with rows_inv_update [OF assms(1) f] show ?thesis by (simp add: on_attempt_def)
qed

subsection \<open>The provider handle\<close>

text \<open>What a provider row keeps: who was asked, under which key and request, the handle once
  there is one, and a terminal environment state.\<close>

definition keeps_provider :: "provider_row \<Rightarrow> provider_row \<Rightarrow> bool" where
  "keeps_provider p q \<longleftrightarrow> pv_id q = pv_id p \<and> pv_key q = pv_key p \<and> pv_request q = pv_request p
     \<and> (\<not> nullish (pv_handle p) \<longrightarrow> canonical (pv_handle q) = canonical (pv_handle p))
     \<and> (\<forall>st. pv_last_state p = Some st \<and> st \<in> set observe_terminal_states \<longrightarrow> pv_last_state q = Some st)"

lemma keeps_provider_refl [simp]: "keeps_provider p p"
  by (simp add: keeps_provider_def)

definition rows_kept :: "execution \<Rightarrow> execution \<Rightarrow> bool" where
  "rows_kept r s \<longleftrightarrow> (\<forall>i p. provider_of r (JNum i) = Some p \<longrightarrow>
     (\<exists>q. provider_of s (JNum i) = Some q \<and> keeps_provider p q))"

lemma rows_kept_same: "x_attempts s = x_attempts r \<Longrightarrow> rows_kept r s"
  by (simp add: rows_kept_def provider_of_def attempt_row_of_def)

lemma row_unique:
  assumes "rows_inv rows" and "x \<in> set rows" "y \<in> set rows" and "at_index x = at_index y" "numeric x"
  shows "x = y"
proof -
  have "x \<in> set (filter numeric rows)" "y \<in> set (filter numeric rows)"
    using assms by (auto simp: numeric_def)
  with assms(1,4) show ?thesis by (auto simp: rows_inv_def distinct_map dest: inj_onD)
qed

lemma attempt_row_iff:
  assumes "rows_inv (x_attempts r)"
  shows "attempt_row_of r (JNum i) = Some row \<longleftrightarrow> row \<in> set (x_attempts r) \<and> at_index row = Some i"
proof
  assume "attempt_row_of r (JNum i) = Some row"
  then show "row \<in> set (x_attempts r) \<and> at_index row = Some i"
    by (auto simp: attempt_row_of_def dest!: find_Some_set)
next
  assume a: "row \<in> set (x_attempts r) \<and> at_index row = Some i"
  show "attempt_row_of r (JNum i) = Some row"
    unfolding attempt_row_of_def
    by (rule find_unique) (use a row_unique [OF assms] in \<open>auto simp: numeric_def\<close>)
qed

lemma update_rows_kept:
  assumes inv: "rows_inv (x_attempts r)" and f: "\<And>row. at_index (f row) = at_index row"
    and s: "x_attempts s = update_first (\<lambda>row. at_index row \<noteq> None \<and> at_index row = n) f (x_attempts r)"
    and k: "\<And>row p. row \<in> set (x_attempts r) \<Longrightarrow> at_index row = n \<Longrightarrow> at_provider row = Some p \<Longrightarrow>
       \<exists>q. at_provider (f row) = Some q \<and> keeps_provider p q"
  shows "rows_kept r s"
  unfolding rows_kept_def
proof (intro allI impI)
  fix i p assume "provider_of r (JNum i) = Some p"
  then obtain row where row: "attempt_row_of r (JNum i) = Some row" "at_provider row = Some p"
    by (auto simp: provider_of_def split: option.splits)
  then have mem: "row \<in> set (x_attempts r)" "at_index row = Some i" by (simp_all add: attempt_row_iff [OF inv])
  show "\<exists>q. provider_of s (JNum i) = Some q \<and> keeps_provider p q"
  proof (cases "n = Some i")
    case True
    have "attempt_row_of s (JNum i) = Some (f row)"
      using row(1) find_update_first [of "\<lambda>row. at_index row \<noteq> None \<and> at_index row = Some i" f "x_attempts r"]
      by (simp add: attempt_row_of_def s True f)
    with k [OF mem(1) _ row(2)] mem(2) True show ?thesis by (auto simp: provider_of_def)
  next
    case False
    have "attempt_row_of s (JNum i) = attempt_row_of r (JNum i)"
      unfolding attempt_row_of_def s by (rule find_update_first_other) (use False in \<open>auto simp: f\<close>)
    with row show ?thesis by (simp add: provider_of_def)
  qed
qed

lemma push_rows_kept:
  assumes inv: "rows_inv (x_attempts r)" and inv': "rows_inv (x_attempts s)"
    and s: "x_attempts s = push_attempt row (x_attempts r)"
  shows "rows_kept r s"
  unfolding rows_kept_def
proof (intro allI impI)
  fix i p assume "provider_of r (JNum i) = Some p"
  then obtain old where "attempt_row_of r (JNum i) = Some old" "at_provider old = Some p"
    by (auto simp: provider_of_def split: option.splits)
  then have "attempt_row_of s (JNum i) = Some old"
    by (simp add: attempt_row_iff [OF inv] attempt_row_iff [OF inv'] s)
  with \<open>at_provider old = Some p\<close> show "\<exists>q. provider_of s (JNum i) = Some q \<and> keeps_provider p q"
    by (simp add: provider_of_def)
qed

lemma on_attempt_kept:
  assumes inv: "rows_inv (x_attempts r)" and f: "\<And>row. at_index (f row) = at_index row"
    and k: "\<And>row p. attempt_row_of r (js_get e ''attempt'') = Some row \<Longrightarrow> at_provider row = Some p \<Longrightarrow>
       \<exists>q. at_provider (f row) = Some q \<and> keeps_provider p q"
  shows "rows_kept r (on_attempt r e at f)"
proof (cases "attempt_row_of r (js_get e ''attempt'')")
  case None
  show ?thesis
    by (rule push_rows_kept [OF inv on_attempt_rows [OF inv f]]) (simp add: on_attempt_def None)
next
  case (Some row)
  let ?n = "js_number (js_get e ''attempt'')"
  from Some have row: "row \<in> set (x_attempts r)" "at_index row = ?n" "at_index row \<noteq> None"
    by (auto simp: attempt_row_of_def dest!: find_Some_set)
  show ?thesis
  proof (rule update_rows_kept [OF inv f])
    show "x_attempts (on_attempt r e at f) = update_first (\<lambda>row. at_index row \<noteq> None \<and> at_index row = ?n) f (x_attempts r)"
      by (simp add: on_attempt_def Some)
    fix row' p assume "row' \<in> set (x_attempts r)" "at_index row' = ?n" "at_provider row' = Some p"
    moreover from this have "row' = row" using row row_unique [OF inv] by (auto simp: numeric_def)
    ultimately show "\<exists>q. at_provider (f row') = Some q \<and> keeps_provider p q" using k [OF Some] by simp
  qed
qed

lemma pinned_rows:
  assumes "rows_inv (x_attempts r)" and "x_attempts r1 = x_attempts r"
  shows "rows_inv (x_attempts (pinned r1 e at)) \<and> rows_kept r (pinned r1 e at)"
proof -
  have x: "x_attempts (pinned r1 e at) = update_first (\<lambda>row. at_index row \<noteq> None \<and>
      at_index row = candidate_attempt (js_get e ''candidate'')) (close_attempt at) (x_attempts r)"
    using assms(2) by (simp add: pinned_def Let_def)
  have "rows_kept r (pinned r1 e at)"
    by (rule update_rows_kept [OF assms(1) _ x]) (simp_all add: close_attempt_def)
  moreover have "rows_inv (x_attempts (pinned r1 e at))"
    unfolding x by (rule rows_inv_update [OF assms(1)]) (simp add: close_attempt_def)
  ultimately show ?thesis by simp
qed

lemma pin_rows:
  assumes inv: "rows_inv (x_attempts r)" and "pin_candidate hist r e at = Inr s"
  shows "rows_inv (x_attempts s) \<and> rows_kept r s"
  using assms(2)
proof (cases rule: pin_candidate_cases)
  case again
  then show ?thesis using pinned_rows [OF inv, of "resubmit r (js_get e ''candidate'')"]
    by (simp add: resubmit_def Let_def)
next
  case (fresh r1)
  have "x_attempts r1 = x_attempts r"
    using fresh(3) by (rule repin_cases) (simp add: leave_tip_def)
  with pinned_rows [OF inv] fresh(4) show ?thesis by simp
qed

lemma attempt_event_rows:
  assumes inv: "rows_inv (x_attempts r)" and ap: "apply_attempt_event hist r t e at = Inr s"
    and nc: "attempt_handle_conflict r t e = None"
  shows "rows_inv (x_attempts s) \<and> rows_kept r s"
proof -
  have att: "\<not> nullish (js_get e ''attempt'')" using ap by (auto simp: apply_attempt_event_def split: if_splits)
  from ap have "(t = AttemptSubmitting \<and> apply_submitting r e at = Inr s) \<or>
      (t = AttemptSubmitted \<and> apply_submitted hist r e at = Inr s) \<or>
      (t = AttemptObserved \<and> apply_observed r e at = Inr s)"
    by (auto simp: apply_attempt_event_def split: if_splits event_type.splits)
  then consider "t = AttemptSubmitting" "apply_submitting r e at = Inr s"
    | "t = AttemptSubmitted" "apply_submitted hist r e at = Inr s"
    | "t = AttemptObserved" "apply_observed r e at = Inr s" by blast
  then show ?thesis
  proof cases
    case 1
    from 1(2) show ?thesis
    proof (cases rule: submitting_cases)
      case (ok pid)
      then show ?thesis unfolding ok(4)
        by (auto intro!: on_attempt_rows on_attempt_kept inv simp: provider_of_def)
    qed
  next
    case 2
    from 2(2) show ?thesis
    proof (cases rule: submitted_cases)
      case (ok pid)
      have "keeps_provider p (take_handle e at p)" if p: "provider_of r (js_get e ''attempt'') = Some p" for p
      proof (cases "nullish (pv_handle p)")
        case False
        with nc 2(1) p att ok(2) have "canonical (pv_handle p) = canonical (js_get e ''handle'')"
          by (auto simp: attempt_handle_conflict_def Let_def split: if_splits)
        then show ?thesis by (simp add: keeps_provider_def take_handle_def)
      qed (simp add: keeps_provider_def take_handle_def)
      then show ?thesis unfolding ok(5)
        by (intro conjI on_attempt_rows on_attempt_kept inv) (auto simp: provider_of_def)
    qed
  next
    case 3
    from 3(2) show ?thesis
    proof (cases rule: observed_cases)
      case (ok p)
      have "keeps_provider p (take_observation e at p)"
        using ok(3) by (auto simp: keeps_provider_def take_observation_def)
      with ok(1) show ?thesis unfolding ok(4)
        by (intro conjI on_attempt_rows on_attempt_kept inv) (auto simp: provider_of_def split: option.splits)
    qed
  qed
qed

lemma apply_by_type_rows:
  assumes inv: "rows_inv (x_attempts r)" and ap: "apply_by_type hist r t e at = Inr s"
    and nc: "is_provider_event t \<Longrightarrow> attempt_handle_conflict r t e = None"
  shows "rows_inv (x_attempts s) \<and> rows_kept r s"
proof (cases "is_provider_event t")
  case True
  then have "apply_attempt_event hist r t e at = Inr s"
    using ap by (auto simp: apply_by_type_def is_provider_event_def)
  from attempt_event_rows [OF inv this nc [OF True]] show ?thesis .
next
  case False
  have same: ?thesis if "x_attempts s = x_attempts r" using that inv by (simp add: rows_kept_same)
  have on: ?thesis if "s = (on_attempt r e at f)\<lparr>x_stage := st\<rparr>"
    and f: "\<And>row. at_index (f row) = at_index row" "\<And>row. at_provider (f row) = at_provider row" for f st
  proof -
    have "rows_kept r (on_attempt r e at f)" by (rule on_attempt_kept [OF inv f(1)]) (simp add: f)
    then have "rows_kept r s" using that(1) by (simp add: rows_kept_def provider_of_def attempt_row_of_def)
    with on_attempt_rows [OF inv f(1)] that(1) show ?thesis by simp
  qed
  show ?thesis
  proof (cases t)
    case StageStarted
    then show ?thesis using ap
      by (intro on [where st = Implementation and f = "\<lambda>row. row\<lparr>at_state := Some ''dispatched'',
        at_run_id := (if nullish (js_get e ''run_id'') then at_run_id row else Some (js_string (js_get e ''run_id'')))\<rparr>"])
        (simp_all add: apply_by_type_def start_stage_def split: if_split_asm)
  next
    case StageObserved
    then show ?thesis using ap
      by (intro on [where f = "observe_attempt e at" and st = "if observed_state r e = Some ''exhausted'' then Refused else x_stage r"])
        (simp_all add: apply_by_type_def observe_stage_def observe_attempt_def Let_def split: if_split_asm)
  next
    case CandidateSubmitted
    with ap pin_rows [OF inv] show ?thesis by (simp add: apply_by_type_def)
  next
    case CandidateSuperseded
    with ap pin_rows [OF inv] show ?thesis by (simp add: apply_by_type_def)
  next
    case CandidatePublished
    with ap have "publish hist r e at = Inr s" by (simp add: apply_by_type_def)
    then have "x_attempts s = x_attempts r" by (rule publish_cases) (simp add: publish_entry_def)
    then show ?thesis by (rule same)
  next
    case GateStarted
    with ap have "start_gate hist r e = Inr s" by (simp add: apply_by_type_def)
    then have "x_attempts s = x_attempts r" by (rule start_gate_cases) (simp add: on_gate_def)
    then show ?thesis by (rule same)
  next
    case GateSettled
    with ap have "settle_gate hist r e at = Inr s" by (simp add: apply_by_type_def)
    then have "x_attempts s = x_attempts r" by (rule settle_gate_cases) (simp add: on_gate_def)
    then show ?thesis by (rule same)
  next
    case IntegrationSettled
    with ap have "settle_integration r e at = Inr s" by (simp add: apply_by_type_def)
    then have "x_attempts s = x_attempts r" by (rule settle_integration_cases) simp
    then show ?thesis by (rule same)
  qed (use ap False inv in \<open>auto simp: rows_kept_same apply_by_type_def is_provider_event_def start_integration_def
      file_escalation_def write_completion_def split: if_splits\<close>)
qed

lemma accepted_rows:
  assumes inv: "rows_inv (x_attempts r)" and acc: "apply_execution_event hist r e seen now = Accepted s k"
  shows "rows_inv (x_attempts s) \<and> rows_kept r s"
  using acc
proof (cases rule: accepted_cases)
  case (accepted t r0)
  with apply_by_type_rows [OF inv accepted(2)] show ?thesis
    by (simp add: rows_kept_def provider_of_def attempt_row_of_def)
qed

lemma door_rows:
  assumes inv: "rows_inv (x_attempts r)" and d: "door_step r d = Some s"
  shows "rows_inv (x_attempts s) \<and> rows_kept r s"
  using d
proof (cases rule: door_cases)
  case (claimed a)
  then show ?thesis by (rule claim_cases) (use inv in \<open>simp add: rows_kept_same\<close>)
next
  case (renewed fence lease now)
  then show ?thesis by (rule renew_cases) (use inv in \<open>simp add: rows_kept_same\<close>)
next
  case (released fence now)
  from release_cases [OF released] inv show ?thesis by (simp add: rows_kept_same)
next
  case (forced a b)
  from force_release_moves [OF forced] inv show ?thesis by (auto simp: rows_kept_same)
next
  case (event e seen now k)
  with accepted_rows [OF inv] show ?thesis by blast
qed

lemma reachable_rows: "reachable h r \<Longrightarrow> rows_inv (x_attempts r)"
proof (induction rule: reachable.induct)
  case (opened spec r)
  from init_fields [OF opened] show ?case by (simp add: rows_inv_def)
next
  case (moved r d s)
  with door_rows show ?case by blast
qed

lemma keeps_provider_trans:
  "keeps_provider p q \<Longrightarrow> keeps_provider q o' \<Longrightarrow> (nullish (pv_handle p) \<or> \<not> nullish (pv_handle q)) \<Longrightarrow> keeps_provider p o'"
  by (auto simp: keeps_provider_def)

lemma canonical_nullish: "canonical v = canonical w \<Longrightarrow> nullish v = nullish w"
  by (cases v; cases w; simp)

text \<open>
  C19. An attempt is adopted, never duplicated. In every reachable record each numeric
  attempt index has one row, and the rows are in index order; and whatever happens later,
  an attempt whose submit was persisted keeps its provider, submit key and request, keeps
  its handle once it has one, and keeps a terminal environment state.
\<close>

theorem provider_attempt_is_kept:
  assumes "reachable h r" and "later r s"
  shows "rows_inv (x_attempts r) \<and> rows_kept r s"
proof -
  have inv: "rows_inv (x_attempts r)" by (rule reachable_rows [OF assms(1)])
  have "rows_inv (x_attempts s) \<and> rows_kept r s"
    using assms(2)
  proof (induction rule: later.induct)
    case here
    with inv show ?case by (simp add: rows_kept_same)
  next
    case (step s d t)
    from door_rows [OF _ step.hyps(2)] step.IH have a: "rows_inv (x_attempts t)" "rows_kept s t" by auto
    have "\<exists>q. provider_of t (JNum i) = Some q \<and> keeps_provider p q" if "provider_of r (JNum i) = Some p" for i p
    proof -
      from that step.IH obtain m where m: "provider_of s (JNum i) = Some m" "keeps_provider p m"
        by (auto simp: rows_kept_def)
      with a obtain q where q: "provider_of t (JNum i) = Some q" "keeps_provider m q"
        by (auto simp: rows_kept_def)
      have "nullish (pv_handle p) \<or> \<not> nullish (pv_handle m)"
        using m(2) canonical_nullish [of "pv_handle m" "pv_handle p"] by (auto simp: keeps_provider_def)
      with keeps_provider_trans [OF m(2) q(2)] q(1) show ?thesis by blast
    qed
    with a show ?case by (simp add: rows_kept_def)
  qed
  with inv show ?thesis by simp
qed

end
