(* ===== verification/ExecutionStore.thy ===== *)
theory ExecutionStore
  imports ExecutionAttempts
begin

text \<open>
  The local execution engine, \<^verbatim>\<open>src/lib/shell/execution-store.js\<close>: the doors that
  read the record back from the event log, run the kernel, and append one row; and the strict
  \<open>rebuildFromEvents\<close> that throws on any row it cannot reproduce.

  An execution's log is a list of rows (the framing of the file is not modelled), the clock a
  string the caller passes, the lease expiry of a claim or renewal the string
  \<open>expiryFrom\<close> computed, and the revision a force release compares a function of the record.
  The item pointer is the id of the item's open execution. \<open>None\<close> is a throw.
\<close>

subsection \<open>Reading the log back\<close>

definition is_lower :: "char \<Rightarrow> bool" where
  "is_lower c \<longleftrightarrow> 97 \<le> (of_char c :: nat) \<and> (of_char c :: nat) \<le> 122"

definition is_upper :: "char \<Rightarrow> bool" where
  "is_upper c \<longleftrightarrow> 65 \<le> (of_char c :: nat) \<and> (of_char c :: nat) \<le> 90"

text \<open>\<open>NODE_ID_RE\<close> and \<open>SEGMENT_RE\<close>.\<close>

definition node_id_ok :: "string \<Rightarrow> bool" where
  "node_id_ok s \<longleftrightarrow> s \<noteq> [] \<and> (is_lower (hd s) \<or> is_digit (hd s))
     \<and> list_all (\<lambda>c. is_lower c \<or> is_digit c \<or> c = CHR ''-'') (tl s)"

definition valid_segment :: "string \<Rightarrow> bool" where
  "valid_segment s \<longleftrightarrow> s \<noteq> [] \<and> (is_lower (hd s) \<or> is_upper (hd s) \<or> is_digit (hd s))
     \<and> length (tl s) \<le> 199
     \<and> list_all (\<lambda>c. is_lower c \<or> is_upper c \<or> is_digit c \<or> c \<in> {CHR ''.'', CHR ''_'', CHR ''-''}) (tl s)"

definition genesis_ok :: "string \<Rightarrow> jsval \<Rightarrow> bool" where
  "genesis_ok tenant spec \<longleftrightarrow> is_plain_object spec \<and> js_get spec ''tenant'' = JStr tenant
     \<and> node_id_ok (js_string (js_or (js_get spec ''node_id'') (JStr [])))
     \<and> node_id_ok (js_string (js_or (js_get spec ''factory_node_id'') (JStr [])))
     \<and> (case js_get spec ''pipeline_attempt'' of JNum n \<Rightarrow> 1 \<le> n \<and> n \<le> max_safe_integer | _ \<Rightarrow> False)
     \<and> (case js_get spec ''gates'' of JArr _ \<Rightarrow> True | _ \<Rightarrow> False)
     \<and> js_get spec ''boundary'' \<in> {JStr ''gates'', JStr ''integration''}
     \<and> js_date_parse (js_get spec ''at'') \<noteq> None"

text \<open>One row of the strict rebuild, over the record and the keys already recorded.\<close>

fun strict_step :: "string \<Rightarrow> execution \<times> jsval list \<Rightarrow> log_row \<Rightarrow> (execution \<times> jsval list) option" where
  "strict_step i (r, seen) (Opened _ _ _) = None"
| "strict_step i (r, seen) (OwnershipChanged xid seq at ow rel force) =
     (if xid \<noteq> i \<or> seq \<noteq> x_seq r then None else Some (change_owner r at ow rel force, seen))"
| "strict_step i (r, seen) (EventRow e) =
     (if js_get e ''execution_id'' \<noteq> JStr i then None
      else case apply_execution_event True r e seen None of
        Accepted s key \<Rightarrow>
          (if js_get e ''seq'' = JNum (x_seq s) then Some (s, JStr (js_string key) # seen) else None)
      | _ \<Rightarrow> None)"

fun strict_fold :: "string \<Rightarrow> execution \<times> jsval list \<Rightarrow> log_row list \<Rightarrow> (execution \<times> jsval list) option" where
  "strict_fold i s [] = Some s"
| "strict_fold i s (row # rows) = (case strict_step i s row of None \<Rightarrow> None | Some t \<Rightarrow> strict_fold i t rows)"

definition rebuild_strict :: "(string \<Rightarrow> string) \<Rightarrow> string \<Rightarrow> string \<Rightarrow> log_row list \<Rightarrow> execution option" where
  "rebuild_strict sha256 tenant i rows =
     (case rows of
        Opened gid gseq spec # rest \<Rightarrow>
          if \<not> genesis_ok tenant spec then None
          else (case init_execution sha256 spec of
                  None \<Rightarrow> None
                | Some r \<Rightarrow>
                    if x_id r \<noteq> i \<or> gid \<noteq> i \<or> gseq \<noteq> 0 then None
                    else map_option fst (strict_fold i (r, []) rest))
      | _ \<Rightarrow> None)"

text \<open>\<open>seenKeys\<close>: the keys on the log, each read as a string.\<close>

fun row_key :: "log_row \<Rightarrow> jsval list" where
  "row_key (EventRow e) =
     (let k = js_get e ''idempotency_key'' in if truthy k then [JStr (js_string k)] else [])"
| "row_key _ = []"

definition seen_keys :: "log_row list \<Rightarrow> jsval list" where
  "seen_keys rows = concat (map row_key rows)"

subsection \<open>The doors\<close>

record engine =
  en_worker :: string
  en_machine :: "string option"
  en_instance :: "string option"
  en_person :: jsval

definition owns :: "engine \<Rightarrow> execution \<Rightarrow> bool" where
  "owns en r = (case x_owner r of None \<Rightarrow> False
     | Some ow \<Rightarrow> ow_worker ow = en_worker en \<and> ow_machine ow = en_machine en)"

definition ownership_event :: "execution \<Rightarrow> string \<Rightarrow> owner option \<Rightarrow> force_release_row option \<Rightarrow> log_row" where
  "ownership_event r at ow force = OwnershipChanged (x_id r) (x_seq r) at ow
     (if text_truthy (x_released_at r) then x_released_at r else None) force"

datatype request =
    RClaim bool string
  | RRenew jsval string
  | RRelease jsval
  | RForce jsval jsval jsval jsval
  | REvent jsval jsval

datatype failure_code = Kernel refusal | Forbidden | Not_found | Unreadable

text \<open>What a door answers: a refusal, the record unchanged (a replay), or the new record and
  the row it appends.\<close>

datatype answer =
    Refuses failure_code
  | Repeats
  | Moves execution log_row

text \<open>\<open>providerSubmitKey\<close>: the provider's submit key goes to \<open>submit_idempotency_key\<close>.\<close>

definition provider_submit_key :: "jsval \<Rightarrow> refusal + jsval" where
  "provider_submit_key e =
     (case event_type_of (js_get e ''type'') of
        None \<Rightarrow> Inr e
      | Some t \<Rightarrow>
          if \<not> is_provider_event t then Inr e
          else
            (let k = js_get e ''idempotency_key''; sk = js_get e ''submit_idempotency_key'' in
             if \<not> nullish k \<and> \<not> nullish sk \<and> js_string k \<noteq> js_string sk then Inl Invalid_event
             else Inr (js_delete (if nullish k then e else js_set e ''submit_idempotency_key'' k) ''idempotency_key'')))"

text \<open>The event as the door stamps it: time, fence, admission version, normal publication.\<close>

definition stamp_event :: "jsval \<Rightarrow> string \<Rightarrow> jsval \<Rightarrow> jsval" where
  "stamp_event fence at ev =
     (let e0 = js_spread ev;
          e1 = js_set e0 ''at'' (JStr (if nullish (js_get e0 ''at'') then at else js_string (js_get e0 ''at'')));
          e2 = js_set e1 ''fence'' fence;
          t = event_type_of (js_get e2 ''type'');
          e3 = (if t \<in> {Some GateStarted, Some CandidateSubmitted, Some CandidateSuperseded}
                then js_set e2 ''admission_version'' (JNum 2) else e2)
      in if t = Some CandidatePublished
         then (let ref = normal_reference e3 in
               js_set (js_set e3 ''reference'' ref) ''verified_at'' (js_get ref ''verified_at''))
         else e3)"

text \<open>The row: the canonical attempt index of a provider event, then the store's columns.\<close>

definition event_row :: "jsval \<Rightarrow> execution \<Rightarrow> jsval \<Rightarrow> log_row" where
  "event_row ev s key =
     (let provider = (case event_type_of (js_get ev ''type'') of Some t \<Rightarrow> is_provider_event t | None \<Rightarrow> False);
          e1 = (if provider
                then js_set ev ''attempt'' (case attempt_index (js_get ev ''attempt'') of Some i \<Rightarrow> JNum i | None \<Rightarrow> JNull)
                else ev)
      in EventRow (js_set (js_set (js_set e1 ''execution_id'' (JStr (x_id s))) ''seq'' (JNum (x_seq s)))
                     ''idempotency_key'' key))"

definition event_door :: "engine \<Rightarrow> string \<Rightarrow> jsval \<Rightarrow> jsval \<Rightarrow> execution \<Rightarrow> jsval list \<Rightarrow> answer" where
  "event_door en at fence ev r seen =
     (case provider_submit_key (stamp_event fence at ev) of
        Inl x \<Rightarrow> Refuses (Kernel x)
      | Inr e \<Rightarrow>
          (case apply_execution_event False r e seen (Some at) of
             Rejected x \<Rightarrow> Refuses (Kernel x)
           | Replayed _ \<Rightarrow> Repeats
           | Accepted s key \<Rightarrow>
               if \<not> owns en r then Refuses (Kernel Already_owned) else Moves s (event_row e s key)))"

definition local_door ::
  "(execution \<Rightarrow> jsval) \<Rightarrow> engine \<Rightarrow> string \<Rightarrow> request \<Rightarrow> execution \<Rightarrow> jsval list \<Rightarrow> answer" where
  "local_door revision en at q r seen =
     (case q of
        RClaim takeover lease \<Rightarrow>
          (case claim r \<lparr>ca_worker = en_worker en, ca_machine = en_machine en, ca_instance = en_instance en,
                 ca_lease = lease, ca_now = at, ca_takeover = takeover\<rparr> of
             Inl x \<Rightarrow> Refuses (Kernel x)
           | Inr s \<Rightarrow> Moves s (ownership_event s at (x_owner s) None))
      | RRenew fence lease \<Rightarrow>
          (case renew r fence lease at of
             Inl x \<Rightarrow> Refuses (Kernel x)
           | Inr s \<Rightarrow> if \<not> owns en r then Refuses (Kernel Already_owned)
                    else Moves s (ownership_event s at (x_owner s) None))
      | RRelease fence \<Rightarrow>
          if text_truthy (x_released_at r) then Repeats
          else (case release r fence at of
                  Inl x \<Rightarrow> Refuses (Kernel x)
                | Inr s \<Rightarrow> if \<not> owns en r then Refuses (Kernel Already_owned)
                         else Moves s (ownership_event s at None None))
      | RForce node_id reason request_id expected \<Rightarrow>
          if \<not> truthy (en_person en) then Refuses Forbidden
          else (case force_release r \<lparr>fa_node_id = node_id, fa_person = en_person en, fa_reason = reason,
                       fa_request_id = request_id, fa_expected = expected, fa_revision = revision r, fa_now = at\<rparr> of
                  Inl x \<Rightarrow> Refuses (Kernel x)
                | Inr (s, replayed) \<Rightarrow> if replayed then Repeats
                         else Moves s (ownership_event s at None (x_force_release s)))
      | REvent fence ev \<Rightarrow> event_door en at fence ev r seen)"

text \<open>The store of one execution: its log and the item's open pointer.\<close>

record store =
  st_log :: "log_row list"
  st_open :: "string option"

definition clears_pointer :: "request \<Rightarrow> bool" where
  "clears_pointer q = (case q of RClaim _ _ \<Rightarrow> False | RRenew _ _ \<Rightarrow> False | _ \<Rightarrow> True)"

text \<open>\<open>withExecution\<close>, the door, the append, and the pointer cleared when the execution settled.\<close>

definition local_call ::
  "(string \<Rightarrow> string) \<Rightarrow> (execution \<Rightarrow> jsval) \<Rightarrow> string \<Rightarrow> string \<Rightarrow> engine \<Rightarrow> string \<Rightarrow> request \<Rightarrow> store \<Rightarrow> answer \<times> store" where
  "local_call sha256 revision tenant i en at q st =
     (if st_log st = [] then (Refuses Not_found, st)
      else case rebuild_strict sha256 tenant i (st_log st) of
        None \<Rightarrow> (Refuses Unreadable, st)
      | Some r \<Rightarrow>
          (case local_door revision en at q r (seen_keys (st_log st)) of
             Moves s row \<Rightarrow>
               (Moves s row, st\<lparr>st_log := st_log st @ [row],
                  st_open := (if clears_pointer q \<and> is_terminal s \<and> st_open st = Some i then None else st_open st)\<rparr>)
           | a \<Rightarrow> (a, st)))"

text \<open>Opening a fresh execution: the genesis and the first owner, the pointer set.\<close>

definition local_open ::
  "(string \<Rightarrow> string) \<Rightarrow> engine \<Rightarrow> string \<Rightarrow> string \<Rightarrow> jsval \<Rightarrow> (execution \<times> store) option" where
  "local_open sha256 en at lease spec =
     (case init_execution sha256 spec of
        None \<Rightarrow> None
      | Some r \<Rightarrow>
          (case claim r \<lparr>ca_worker = en_worker en, ca_machine = en_machine en, ca_instance = en_instance en,
                 ca_lease = lease, ca_now = at, ca_takeover = False\<rparr> of
             Inl _ \<Rightarrow> None
           | Inr s \<Rightarrow> Some (s, \<lparr>st_log = [Opened (x_id s) 0 spec,
                 OwnershipChanged (x_id s) 0 at (x_owner s) None None], st_open = Some (x_id s)\<rparr>)))"

end
