(* ===== verification/ExecutionReplay.thy ===== *)
theory ExecutionReplay
  imports ExecutionStore
begin

text \<open>
  The local engine is event sourced: whatever rows its doors append, the strict rebuild
  reproduces the record they produced, key for key and sequence number for sequence
  number. The interface is the locale \<open>event_sourced\<close> of the prelude, interpreted on
  the doors and the rebuild.
\<close>

subsection \<open>The historical reducer agrees with the live one\<close>

text \<open>An event the reducer cannot tell from another: every field but the store's columns.\<close>

definition same_event :: "jsval \<Rightarrow> jsval \<Rightarrow> bool" where
  "same_event e e' \<longleftrightarrow> (\<forall>f. f \<notin> {''execution_id'', ''seq'', ''idempotency_key''} \<longrightarrow> js_get e' f = js_get e f)"

lemma same_event_get:
  "same_event e e' \<Longrightarrow> f \<noteq> ''execution_id'' \<Longrightarrow> f \<noteq> ''seq'' \<Longrightarrow> f \<noteq> ''idempotency_key'' \<Longrightarrow> js_get e' f = js_get e f"
  by (simp add: same_event_def)

lemma same_event_fields:
  assumes "same_event e e'"
  shows "js_get e' ''attempt'' = js_get e ''attempt''"
    "js_get e' ''pool'' = js_get e ''pool''"
    "js_get e' ''stage'' = js_get e ''stage''"
    "js_get e' ''run_id'' = js_get e ''run_id''"
    "js_get e' ''state'' = js_get e ''state''"
    "js_get e' ''outcome'' = js_get e ''outcome''"
    "js_get e' ''provider'' = js_get e ''provider''"
    "js_get e' ''request'' = js_get e ''request''"
    "js_get e' ''handle'' = js_get e ''handle''"
    "js_get e' ''env'' = js_get e ''env''"
    "js_get e' ''submitted_at'' = js_get e ''submitted_at''"
    "js_get e' ''observed_at'' = js_get e ''observed_at''"
    "js_get e' ''detail'' = js_get e ''detail''"
    "js_get e' ''candidate'' = js_get e ''candidate''"
    "js_get e' ''supersedes'' = js_get e ''supersedes''"
    "js_get e' ''admission_version'' = js_get e ''admission_version''"
    "js_get e' ''premature_resolution'' = js_get e ''premature_resolution''"
    "js_get e' ''candidate_id'' = js_get e ''candidate_id''"
    "js_get e' ''reference'' = js_get e ''reference''"
    "js_get e' ''published_at'' = js_get e ''published_at''"
    "js_get e' ''verified_at'' = js_get e ''verified_at''"
    "js_get e' ''gate_id'' = js_get e ''gate_id''"
    "js_get e' ''ref'' = js_get e ''ref''"
    "js_get e' ''commit'' = js_get e ''commit''"
    "js_get e' ''node_id'' = js_get e ''node_id''"
    "js_get e' ''reason'' = js_get e ''reason''"
    "js_get e' ''terminal'' = js_get e ''terminal''"
    "js_get e' ''resolver'' = js_get e ''resolver''"
    "js_get e' ''type'' = js_get e ''type''"
    "js_get e' ''at'' = js_get e ''at''"
    "js_get e' ''fence'' = js_get e ''fence''"
    "js_get e' ''submit_idempotency_key'' = js_get e ''submit_idempotency_key''"
  using assms by (simp_all add: same_event_def)

lemma on_attempt_cong:
  assumes "same_event e e'"
  shows "on_attempt r e' at f = on_attempt r e at f"
  unfolding on_attempt_def fresh_attempt_def same_event_fields [OF assms] ..

lemma observe_cong:
  assumes "same_event e e'"
  shows "observe_attempt e' = observe_attempt e" "observed_state r e' = observed_state r e"
    "take_handle e' = take_handle e" "take_observation e' = take_observation e"
    "normal_reference e' = normal_reference e"
  unfolding fun_eq_iff observe_attempt_def observed_state_def take_handle_def take_observation_def
    normal_reference_def same_event_fields [OF assms] by simp_all

lemma attempt_event_cong:
  assumes se: "same_event e e'"
    and k: "t \<in> {AttemptSubmitting, AttemptSubmitted} \<Longrightarrow> submit_key_of e' = submit_key_of e"
  shows "apply_attempt_event hist r t e' at = apply_attempt_event hist r t e at"
proof -
  note g = same_event_fields [OF se] on_attempt_cong [OF se] observe_cong [OF se]
  have o: "apply_observed r e' at = apply_observed r e at" unfolding apply_observed_def g ..
  show ?thesis
  proof (cases "t \<in> {AttemptSubmitting, AttemptSubmitted}")
    case True
    note k = k [OF True]
    have "apply_submitting r e' at = apply_submitting r e at" unfolding apply_submitting_def g k ..
    moreover have "apply_submitted hist r e' at = apply_submitted hist r e at" unfolding apply_submitted_def g k ..
    ultimately show ?thesis unfolding apply_attempt_event_def g o by (cases t) simp_all
  next
    case False
    then show ?thesis unfolding apply_attempt_event_def g o by (cases t) simp_all
  qed
qed

lemma apply_by_type_cong:
  assumes se: "same_event e e'"
    and k: "t \<in> {AttemptSubmitting, AttemptSubmitted} \<Longrightarrow> submit_key_of e' = submit_key_of e"
  shows "apply_by_type hist r t e' at = apply_by_type hist r t e at"
proof -
  note g = same_event_fields [OF se] on_attempt_cong [OF se] observe_cong [OF se]
  note a = attempt_event_cong [where t = t, OF se k]
  have pin: "pin_candidate hist r e' at = pin_candidate hist r e at"
    unfolding pin_candidate_def repin_def pinned_def g ..
  show ?thesis
    unfolding apply_by_type_def start_stage_def observe_stage_def publish_def start_gate_def settle_gate_def
      start_integration_def settle_integration_def file_escalation_def write_completion_def g pin
    by (cases t) (use a in simp_all)
qed

lemma published_truthy: "candidate_published c \<Longrightarrow> truthy c"
  by (cases c) (auto simp: candidate_published_def)

lemma ready_hist: "candidate_ready False r \<Longrightarrow> candidate_ready True r"
  by (simp add: candidate_ready_def published_truthy)

lemma accepted_hist: "gate_accepted False r g \<Longrightarrow> gate_accepted True r g"
  by (auto simp: gate_accepted_def)

lemma boundary_gates_hist: "boundary_reached_for_gates False r \<Longrightarrow> boundary_reached_for_gates True r"
  by (auto simp: boundary_reached_for_gates_def ready_hist accepted_hist list_all_iff)

lemma boundary_hist: "boundary_reached False r \<Longrightarrow> boundary_reached True r"
  by (auto simp: boundary_reached_def Let_def ready_hist accepted_hist list_all_iff split: if_splits)

lemma repin_hist:
  "repin False r e c = Inr s \<Longrightarrow> js_get e ''admission_version'' \<noteq> JUndef \<Longrightarrow> repin True r e c = Inr s"
  by (simp add: repin_def Let_def split: if_splits)

lemma pin_hist:
  assumes "pin_candidate False r e at = Inr s" and "js_get e ''admission_version'' \<noteq> JUndef"
  shows "pin_candidate True r e at = Inr s"
  using assms repin_hist [of r e "js_get e ''candidate''"]
  by (auto simp: pin_candidate_def Let_def split: if_split_asm sum.split_asm)

lemma settle_gate_hist: "settle_gate False r e at = Inr s \<Longrightarrow> settle_gate True r e at = Inr s"
  by (auto simp: settle_gate_def Let_def ready_hist split: option.splits if_splits)

lemma start_gate_hist:
  "start_gate False r e = Inr s \<Longrightarrow> js_get e ''admission_version'' \<noteq> JUndef \<Longrightarrow> start_gate True r e = Inr s"
  by (simp add: start_gate_def Let_def ready_hist split: option.splits if_splits)

text \<open>A publication the door normalized.\<close>

definition normalized :: "jsval \<Rightarrow> bool" where
  "normalized e \<longleftrightarrow> is_plain_object (js_get e ''reference'')
     \<and> js_get e ''verified_at'' = js_get (js_get e ''reference'') ''verified_at''"

lemma spread_plain [simp]: "is_plain_object v \<Longrightarrow> js_spread v = v"
  by (cases v) (auto simp: js_spread_def)

lemma publish_hist:
  assumes p: "publish False r e at = Inr s" and n: "normalized e"
  shows "publish True r e at = Inr s"
proof -
  let ?ref = "js_get e ''reference''"
  have po: "is_plain_object ?ref" and v: "js_get e ''verified_at'' = js_get ?ref ''verified_at''"
    using n by (auto simp: normalized_def)
  obtain entry where f: "List.find (\<lambda>c. candidate_id_string c = js_string (js_get e ''candidate_id'')) (x_candidates r) = Some entry"
    using p by (auto simp: publish_def Let_def split: if_splits option.splits)
  have nn: "\<not> nullish ?ref" "is_objectlike ?ref" using po by (cases ?ref; simp)+
  have "valid_verification_time (js_get (normal_reference e) ''verified_at'')"
    using p f nn by (auto simp: publish_def Let_def split: if_splits)
  moreover have g: "js_get (normal_reference e) ''verified_at'' = js_get ?ref ''verified_at''"
    by (simp add: normal_reference_def v coalesce_def)
  ultimately obtain x where x: "js_get ?ref ''verified_at'' = JStr x"
    by (auto simp: valid_verification_time_def split: jsval.splits)
  have ref: "normal_reference e = ?ref"
    using po x v by (simp add: normal_reference_def coalesce_def js_set_get_same)
  from p f nn po x v show ?thesis
    by (simp add: publish_def Let_def ref split: if_split_asm)
qed

lemma apply_by_type_hist:
  assumes ap: "apply_by_type False r t e at = Inr s"
    and adm: "t \<in> {GateStarted, CandidateSubmitted, CandidateSuperseded} \<Longrightarrow> js_get e ''admission_version'' \<noteq> JUndef"
    and nrm: "t = CandidatePublished \<Longrightarrow> normalized e"
  shows "apply_by_type True r t e at = Inr s"
proof (cases t)
  case AttemptSubmitted
  with ap show ?thesis
    by (auto simp: apply_by_type_def apply_attempt_event_def apply_submitted_def Let_def split: if_splits)
next
  case AttemptSubmitting
  with ap show ?thesis by (simp add: apply_by_type_def apply_attempt_event_def split: if_split_asm)
next
  case AttemptObserved
  with ap show ?thesis by (simp add: apply_by_type_def apply_attempt_event_def split: if_split_asm)
next
  case IntegrationStarted
  with ap show ?thesis by (simp add: apply_by_type_def start_integration_def boundary_gates_hist split: if_split_asm)
next
  case CompletionWritten
  with ap show ?thesis by (simp add: apply_by_type_def write_completion_def boundary_hist split: if_split_asm)
next
  case GateStarted
  with ap adm start_gate_hist show ?thesis by (simp add: apply_by_type_def)
next
  case GateSettled
  with ap settle_gate_hist show ?thesis by (simp add: apply_by_type_def)
next
  case CandidateSubmitted
  with ap adm pin_hist show ?thesis by (simp add: apply_by_type_def)
next
  case CandidateSuperseded
  with ap adm pin_hist show ?thesis by (simp add: apply_by_type_def)
next
  case CandidatePublished
  with ap nrm publish_hist show ?thesis by (simp add: apply_by_type_def)
qed (use ap in \<open>simp_all add: apply_by_type_def\<close>)

subsection \<open>A journaled event replays\<close>

text \<open>The event a door passes to the reducer.\<close>

definition door_event :: "jsval \<Rightarrow> string \<Rightarrow> jsval \<Rightarrow> jsval \<Rightarrow> bool" where
  "door_event fence at ev e \<longleftrightarrow> provider_submit_key (stamp_event fence at ev) = Inr e"

definition stamped :: "event_type \<Rightarrow> jsval \<Rightarrow> bool" where
  "stamped t e \<longleftrightarrow> (\<exists>a. js_get e ''at'' = JStr a)
     \<and> (t \<in> {GateStarted, CandidateSubmitted, CandidateSuperseded} \<longrightarrow> js_get e ''admission_version'' \<noteq> JUndef)
     \<and> (t = CandidatePublished \<longrightarrow> normalized e)
     \<and> (is_provider_event t \<longrightarrow> nullish (js_get e ''idempotency_key''))"

lemma stamp_event_stamped:
  assumes "event_type_of (js_get (stamp_event fence at ev) ''type'') = Some t" and "\<not> is_provider_event t"
  shows "stamped t (stamp_event fence at ev)"
proof -
  have ty: "js_get (stamp_event fence at ev) ''type'' = js_get (js_spread ev) ''type''"
    by (simp add: stamp_event_def Let_def)
  with assms show ?thesis
    by (auto simp: stamped_def stamp_event_def Let_def normalized_def normal_reference_def)
qed

lemma stamp_event_at: "\<exists>a. js_get (stamp_event fence at ev) ''at'' = JStr a"
  by (simp add: stamp_event_def Let_def)

lemma door_event_stamped:
  assumes "door_event fence at ev e" and "event_type_of (js_get e ''type'') = Some t"
  shows "stamped t e"
proof -
  let ?e = "stamp_event fence at ev"
  have ty: "js_get e ''type'' = js_get ?e ''type''"
    using assms(1) unfolding door_event_def provider_submit_key_def Let_def
    by (auto split: option.splits if_splits)
  show ?thesis
  proof (cases "is_provider_event t")
    case True
    with assms(2) ty have t: "event_type_of (js_get ?e ''type'') = Some t" by simp
    have "nullish (js_get e ''idempotency_key'')" "js_get e ''at'' = js_get ?e ''at''"
      using assms(1) t True unfolding door_event_def provider_submit_key_def Let_def
      by (auto split: if_splits)
    moreover have "t \<notin> {GateStarted, CandidateSubmitted, CandidateSuperseded, CandidatePublished}"
      using True by (auto simp: is_provider_event_def)
    ultimately show ?thesis using stamp_event_at [of fence at ev] by (auto simp: stamped_def)
  next
    case False
    have t: "event_type_of (js_get ?e ''type'') = Some t" using assms(2) ty by simp
    have "?e = e" using assms(1) t False unfolding door_event_def provider_submit_key_def by simp
    with stamp_event_stamped [OF t False] show ?thesis by simp
  qed
qed

lemma event_row_same:
  assumes "event_type_of (js_get e ''type'') = Some t"
    and "is_provider_event t \<Longrightarrow> attempt_index (js_get e ''attempt'') \<noteq> None"
  obtains e' where "event_row e s key = EventRow e'" "same_event (canonical_event False t e) e'"
    "js_get e' ''execution_id'' = JStr (x_id s)" "js_get e' ''seq'' = JNum (x_seq s)"
    "js_get e' ''idempotency_key'' = key" "is_objectlike e'"
proof -
  define e1 where "e1 = (if is_provider_event t then js_set e ''attempt''
     (case attempt_index (js_get e ''attempt'') of Some i \<Rightarrow> JNum i | None \<Rightarrow> JNull) else e)"
  let ?e = "js_set (js_set (js_set e1 ''execution_id'' (JStr (x_id s))) ''seq'' (JNum (x_seq s))) ''idempotency_key'' key"
  have e1: "e1 = canonical_event False t e"
    using assms(2) by (auto simp: e1_def canonical_event_def)
  have "event_row e s key = EventRow ?e"
    using assms(1) by (simp add: event_row_def e1_def)
  moreover have "same_event (canonical_event False t e) ?e" by (auto simp: same_event_def e1)
  moreover have "is_objectlike ?e"
    using is_plain_object_set by (metis is_objectlike.simps(2) is_plain_object.elims(2))
  ultimately show ?thesis using that [of ?e] by simp
qed

lemma derived_key_replay:
  assumes se: "same_event c e'" and t: "event_type_of (js_get c ''type'') = Some t" "is_provider_event t"
    and a: "js_get c ''attempt'' = JNum i" "attempt_index (JNum i) = Some i"
  shows "derived_event_key r e' True = derived_event_key r c False"
  using t a unfolding derived_event_key_def Let_def same_event_fields [OF se]
  by (auto simp: is_provider_event_def)

lemma submit_key_row:
  assumes se: "same_event c e'" and k: "valid_submit_key (submit_key_of c)" and n: "nullish (js_get c ''idempotency_key'')"
  shows "submit_key_of e' = submit_key_of c"
proof -
  have "\<not> nullish (js_get c ''submit_idempotency_key'')"
    using k n by (auto simp: submit_key_of_def coalesce_def string_or_null_def valid_submit_key_def split: if_splits)
  then show ?thesis by (simp add: submit_key_of_def coalesce_def same_event_fields [OF se])
qed

lemma accepted_submit_key:
  assumes "apply_by_type False r t c at = Inr s" and "t \<in> {AttemptSubmitting, AttemptSubmitted}"
  shows "valid_submit_key (submit_key_of c)"
  using assms
  by (auto simp: apply_by_type_def apply_attempt_event_def apply_submitting_def apply_submitted_def Let_def
      split: if_splits)

lemma conflict_cong:
  assumes "same_event c e'" and "t \<in> {AttemptSubmitting, AttemptSubmitted} \<Longrightarrow> submit_key_of e' = submit_key_of c"
    and "is_provider_event t"
  shows "attempt_handle_conflict r t e' = attempt_handle_conflict r t c"
proof (cases "t = AttemptObserved")
  case False
  with assms have "submit_key_of e' = submit_key_of c" by (auto simp: is_provider_event_def)
  then show ?thesis unfolding attempt_handle_conflict_def same_event_fields [OF assms(1)] by (simp only:)
qed (simp add: attempt_handle_conflict_def)

text \<open>The main step: what the live reducer accepted, the historical one reproduces from the row.\<close>

lemma row_replays:
  assumes acc: "apply_execution_event False r e seen (Some now) = Accepted s key"
    and st: "\<And>t. event_type_of (js_get e ''type'') = Some t \<Longrightarrow> stamped t e"
    and sk: "\<exists>k. key = JStr k" and seen': "set seen' = set seen"
  obtains e' where "event_row e s key = EventRow e'" "apply_execution_event True r e' seen' None = Accepted s key"
    "js_get e' ''execution_id'' = JStr (x_id s)" "js_get e' ''seq'' = JNum (x_seq s)"
    "js_get e' ''idempotency_key'' = key"
  using acc
proof (cases rule: accepted_cases)
  case (accepted t r0)
  let ?c = "canonical_event False t e"
  from event_row_same [of e t s key] accepted(1,11) obtain e' where
    row: "event_row e s key = EventRow e'" and se: "same_event ?c e'" and
    meta: "js_get e' ''execution_id'' = JStr (x_id s)" "js_get e' ''seq'' = JNum (x_seq s)"
      "js_get e' ''idempotency_key'' = key" and ob: "is_objectlike e'" by blast
  note g = same_event_fields [OF se]
  from st [OF accepted(1)] have sd: "stamped t e" .
  have ty: "event_type_of (js_get e' ''type'') = Some t" using accepted(1) by (simp add: g)
  obtain k where k: "key = JStr k" using sk by blast
  have at: "event_at e (Some now) = string_or_null (js_get e' ''at'')"
    using sd by (auto simp: stamped_def event_at_def or_else_def string_or_null_def g)
  have sub: "submit_key_of e' = submit_key_of ?c" if "t \<in> {AttemptSubmitting, AttemptSubmitted}"
    using submit_key_row [OF se accepted_submit_key [OF accepted(2) that]] sd that
    by (auto simp: stamped_def is_provider_event_def)
  have key': "the_key True r t e' = key"
  proof (cases "is_provider_event t")
    case True
    from accepted(11) [OF True] obtain i where i: "attempt_index (js_get e ''attempt'') = Some i" by auto
    have tc: "event_type_of (js_get ?c ''type'') = Some t" using accepted(1) by simp
    from derived_key_replay [OF se tc True canonical_attempt [OF True i] attempt_index_JNum [OF i]] True accepted(4)
    show ?thesis by (simp add: the_key_def own_key_def)
  next
    case False
    then show ?thesis using meta(3) k by (simp add: the_key_def own_key_def)
  qed
  have ap: "apply_by_type True r t e' (event_at e (Some now)) = Inr r0"
  proof -
    have "apply_by_type True r t ?c (event_at e (Some now)) = Inr r0"
      by (rule apply_by_type_hist [OF accepted(2)])
        (use sd in \<open>auto simp: stamped_def normalized_def canonical_event_def is_provider_event_def\<close>)
    with apply_by_type_cong [OF se, of t True r "event_at e (Some now)"] sub show ?thesis by auto
  qed
  have ow: "ownership_fence r (js_get e' ''fence'') = None"
    using accepted(8) by (auto simp: ownership_check_def ownership_live_def g split: option.splits)
  have cf: "is_provider_event t \<Longrightarrow> attempt_handle_conflict r t e' = None"
    using conflict_cong [OF se sub] accepted(9) by simp
  have "apply_execution_event True r e' seen' None = Accepted s key"
  proof -
    have "apply_keyed True r t e' key None seen' (event_at e (Some now)) None = Accepted s key"
      using ap ow cf accepted(3,5,7) seen' by (simp add: apply_keyed_def ownership_check_def)
    with ob ty key' accepted(6) at show ?thesis
      by (auto simp: apply_execution_event_def the_key_def or_else_def split: option.splits)
  qed
  from that [OF row this meta] show ?thesis .
qed

subsection \<open>The engine as an event-sourced component\<close>

text \<open>A candidate event that does not bring its own key is recorded under its candidate id;
  the log's keys are strings, so the id has to be one (or absent).\<close>

definition string_or_absent :: "jsval \<Rightarrow> bool" where
  "string_or_absent v = (case v of JStr _ \<Rightarrow> True | w \<Rightarrow> \<not> truthy w)"

definition string_keyed :: "jsval \<Rightarrow> bool" where
  "string_keyed ev \<longleftrightarrow>
     (let e = js_spread ev in
      event_type_of (js_get e ''type'') \<in> {Some CandidateSubmitted, Some CandidateSuperseded}
        \<and> nullish (js_get e ''idempotency_key'') \<longrightarrow>
      string_or_absent (js_get (js_get e ''candidate'') ''candidate_id''))"

type_synonym call = "engine \<times> string \<times> request"

fun admissible_call :: "call \<Rightarrow> bool" where
  "admissible_call (en, at, REvent fence ev) = string_keyed ev"
| "admissible_call _ = True"

fun store_live :: "(execution \<Rightarrow> jsval) \<Rightarrow> execution \<times> jsval list \<Rightarrow> call \<Rightarrow> ((execution \<times> jsval list) \<times> log_row) option" where
  "store_live revision (r, seen) (en, at, q) =
     (case local_door revision en at q r seen of
        Moves s row \<Rightarrow> Some ((s, row_key row @ seen), row)
      | _ \<Rightarrow> None)"

fun store_ok :: "string \<Rightarrow> execution \<times> jsval list \<Rightarrow> bool" where
  "store_ok i (r, seen) = (x_id r = i)"

lemma derived_key_string:
  assumes "derived_event_key r e raw = k" and "truthy k"
    and "event_type_of (js_get e ''type'') \<in> {Some CandidateSubmitted, Some CandidateSuperseded} \<Longrightarrow>
      string_or_absent (js_get (js_get e ''candidate'') ''candidate_id'')"
  shows "\<exists>x. k = JStr x"
proof -
  have c: "\<exists>x. js_or v (JStr y) = JStr x" if "string_or_absent v" for v y
    using that by (auto simp: js_or_def string_or_absent_def split: jsval.splits)
  from assms(1,2) show ?thesis
    unfolding derived_event_key_def Let_def
    by (cases "event_type_of (js_get e ''type'')")
      (use c assms(3) in \<open>auto simp: key_of_def split: event_type.splits if_splits\<close>)
qed

lemma stamp_event_get:
  assumes "f \<notin> {''at'', ''fence'', ''admission_version'', ''reference'', ''verified_at''}"
  shows "js_get (stamp_event fence at ev) f = js_get (js_spread ev) f"
  using assms by (simp add: stamp_event_def Let_def)

lemma door_event_key:
  assumes de: "door_event fence at ev e" and sk: "string_keyed ev"
    and acc: "apply_execution_event False r e seen (Some now) = Accepted s key"
  shows "\<exists>k. key = JStr k"
  using acc
proof (cases rule: accepted_cases)
  case (accepted t r0)
  show ?thesis
  proof (cases "own_key t (canonical_event False t e)")
    case True
    with accepted(4) show ?thesis by (simp add: the_key_def)
  next
    case False
    show ?thesis
    proof (rule derived_key_string)
      show "derived_event_key r (canonical_event False t e) False = key"
        using accepted(4) False by (simp add: the_key_def)
      assume ct: "event_type_of (js_get (canonical_event False t e) ''type'') \<in> {Some CandidateSubmitted, Some CandidateSuperseded}"
      then have np: "\<not> is_provider_event t" using accepted(1) by (auto simp: is_provider_event_def)
      let ?e = "stamp_event fence at ev"
      have ty: "js_get e ''type'' = js_get ?e ''type''"
        using de unfolding door_event_def provider_submit_key_def Let_def by (auto split: option.splits if_splits)
      with accepted(1) np de have e: "?e = e" unfolding door_event_def provider_submit_key_def by simp
      have "nullish (js_get (js_spread ev) ''idempotency_key'')"
        using False np unfolding own_key_def e [symmetric] by (simp add: stamp_event_get)
      with sk ct show "string_or_absent (js_get (js_get (canonical_event False t e) ''candidate'') ''candidate_id'')"
        unfolding string_keyed_def Let_def e [symmetric] by (auto simp: stamp_event_get)
    qed (rule accepted(6))
  qed
qed

lemma change_owner_same:
  assumes "s = r\<lparr>x_owner := ow, x_updated_at := Some at\<rparr>"
  shows "change_owner r at ow (if text_truthy (x_released_at s) then x_released_at s else None) None = s"
  using assms by (simp add: change_owner_def text_truthy_def split: option.splits)

lemma ownership_row_replays:
  assumes "s = r\<lparr>x_owner := ow, x_updated_at := Some at\<rparr>"
  shows "strict_step (x_id r) (r, seen) (ownership_event s at ow None) = Some (s, seen)"
proof -
  have "x_id s = x_id r" "x_seq s = x_seq r" using assms by simp_all
  with change_owner_same [OF assms] show ?thesis by (simp only: ownership_event_def strict_step.simps) simp
qed

lemma event_door_live:
  assumes d: "event_door en at fence ev r seen = Moves s row" and sk: "string_keyed ev"
  shows "x_id s = x_id r \<and> strict_step (x_id r) (r, seen) row = Some (s, row_key row @ seen)"
proof -
  obtain e key where de: "door_event fence at ev e"
    and acc: "apply_execution_event False r e seen (Some at) = Accepted s key" and row: "row = event_row e s key"
    using d by (auto simp: event_door_def door_event_def split: sum.splits outcome.splits if_splits)
  from door_event_key [OF de sk acc] obtain k where k: "key = JStr k" by blast
  have id: "x_id s = x_id r" and tr: "truthy key"
    using acc apply_by_type_pins by (auto elim!: accepted_cases dest!: apply_by_type_pins simp: same_pins_def)
  from row_replays [OF acc door_event_stamped [OF de] _ refl] k obtain e' where
    "event_row e s key = EventRow e'" "apply_execution_event True r e' seen None = Accepted s key"
    "js_get e' ''execution_id'' = JStr (x_id s)" "js_get e' ''seq'' = JNum (x_seq s)"
    "js_get e' ''idempotency_key'' = key" by blast
  with id tr k row show ?thesis by simp
qed

lemma door_live:
  assumes d: "local_door revision en at q r seen = Moves s row" and adm: "admissible_call (en, at, q)"
  shows "x_id s = x_id r \<and> strict_step (x_id r) (r, seen) row = Some (s, row_key row @ seen)"
proof (cases q)
  case (RClaim takeover lease)
  with d obtain a where c: "claim r a = Inr s" and a: "ca_now a = at"
    and row: "row = ownership_event s at (x_owner s) None"
    by (auto simp: local_door_def split: sum.splits)
  from c show ?thesis
  proof (cases rule: claim_cases)
    case (ok fence)
    with a have s: "s = r\<lparr>x_owner := x_owner s, x_updated_at := Some at\<rparr>" by simp
    have "x_id s = x_id r" using ok(4) by simp
    with ownership_row_replays [OF s] show ?thesis by (simp add: row ownership_event_def)
  qed
next
  case (RRenew fence lease)
  with d have c: "renew r fence lease at = Inr s" and row: "row = ownership_event s at (x_owner s) None"
    by (auto simp: local_door_def split: sum.splits if_splits)
  from c show ?thesis
  proof (cases rule: renew_cases)
    case (ok ow)
    then have s: "s = r\<lparr>x_owner := x_owner s, x_updated_at := Some at\<rparr>" by simp
    have "x_id s = x_id r" using ok(3) by simp
    with ownership_row_replays [OF s] show ?thesis by (simp add: row ownership_event_def)
  qed
next
  case (RRelease fence)
  with d have c: "release r fence at = Inr s" and row: "row = ownership_event s at None None"
    by (auto simp: local_door_def split: sum.splits if_splits)
  from release_cases [OF c] show ?thesis
    by (auto simp: row ownership_event_def change_owner_def text_truthy_def)
next
  case (RForce node_id reason request_id expected)
  with d obtain a where f: "force_release r a = Inr (s, False)" and a: "fa_now a = at"
    and row: "row = ownership_event s at None (x_force_release s)"
    by (auto simp: local_door_def split: sum.splits if_splits)
  from f have "s \<noteq> r \<or> \<not> is_terminal r"
    by (auto simp: force_release_def Let_def split: if_splits option.splits)
  then obtain g where "\<not> is_terminal r" "at \<noteq> []" "s = r\<lparr>x_force_release := Some g, x_owner := None,
     x_released_at := Some at, x_updated_at := Some at\<rparr>"
    using force_release_fresh [OF f] a by auto
  then show ?thesis by (auto simp: row ownership_event_def change_owner_def text_truthy_def)
next
  case (REvent fence ev)
  with d adm event_door_live show ?thesis by (simp add: local_door_def)
qed

interpretation engine: event_sourced "store_live revision" "strict_step i" "store_ok i" admissible_call
  for revision :: "execution \<Rightarrow> jsval" and i :: string
proof
  fix s e s' r
  assume ok: "store_ok i s" and adm: "admissible_call e" and l: "store_live revision s e = Some (s', r)"
  obtain x seen where s: "s = (x, seen)" by (cases s)
  obtain en at q where e: "e = (en, at, q)" by (cases e)
  from l obtain y where d: "local_door revision en at q x seen = Moves y r" and s': "s' = (y, row_key r @ seen)"
    by (auto simp: s e split: answer.splits)
  from door_live [OF d] adm have "x_id y = x_id x \<and> strict_step (x_id x) (x, seen) r = Some (y, row_key r @ seen)"
    by (simp add: e)
  with ok s s' show "store_ok i s'" and "strict_step i s r = Some s'" by auto
qed

subsection \<open>Whole histories\<close>

lemma strict_fold_rebuild: "strict_fold i s rows = engine.rebuild i s rows"
  by (induction rows arbitrary: s) (simp_all split: option.split)

lemma apply_keyed_seen:
  assumes "set seen = set seen'"
  shows "apply_keyed hist r t e k l seen at now = apply_keyed hist r t e k l seen' at now"
  unfolding apply_keyed_def assms ..

lemma apply_seen:
  assumes "set seen = set seen'"
  shows "apply_execution_event hist r e seen now = apply_execution_event hist r e seen' now"
  unfolding apply_execution_event_def apply_keyed_seen [OF assms] ..

lemma local_door_seen:
  assumes "set seen = set seen'"
  shows "local_door revision en at q r seen = local_door revision en at q r seen'"
  unfolding local_door_def event_door_def apply_seen [OF assms] ..

text \<open>What the engine keeps of its store: the log opens with a sound genesis, and the strict
  rebuild of the rest succeeds, having seen exactly the keys on the log.\<close>

definition sound_log :: "(string \<Rightarrow> string) \<Rightarrow> string \<Rightarrow> string \<Rightarrow> log_row list \<Rightarrow> execution \<Rightarrow> bool" where
  "sound_log h tenant i rows r \<longleftrightarrow> (\<exists>spec rest r0 seen. rows = Opened i 0 spec # rest \<and> genesis_ok tenant spec
     \<and> init_execution h spec = Some r0 \<and> x_id r0 = i \<and> x_id r = i
     \<and> engine.rebuild i (r0, []) rest = Some (r, seen) \<and> set seen = set (seen_keys rows))"

lemma sound_log_read: "sound_log h tenant i rows r \<Longrightarrow> rebuild_strict h tenant i rows = Some r"
  by (auto simp: sound_log_def rebuild_strict_def strict_fold_rebuild)

lemma seen_keys_snoc [simp]: "seen_keys (rows @ [row]) = seen_keys rows @ row_key row"
  by (simp add: seen_keys_def)

lemma sound_log_snoc:
  assumes sl: "sound_log h tenant i rows r" and adm: "admissible_call (en, at, q)"
    and d: "local_door revision en at q r (seen_keys rows) = Moves s row"
  shows "sound_log h tenant i (rows @ [row]) s"
proof -
  from sl obtain spec rest r0 seen where l: "rows = Opened i 0 spec # rest" "genesis_ok tenant spec"
    "init_execution h spec = Some r0" "x_id r0 = i" "x_id r = i"
    "engine.rebuild i (r0, []) rest = Some (r, seen)" "set seen = set (seen_keys rows)"
    by (auto simp: sound_log_def)
  have "store_live revision (r, seen) (en, at, q) = Some ((s, row_key row @ seen), row)"
    using d local_door_seen [OF l(7)] by simp
  moreover have "store_ok i (r, seen)" by (simp add: l)
  ultimately have "strict_step i (r, seen) row = Some (s, row_key row @ seen)" "store_ok i (s, row_key row @ seen)"
    using engine.live_replay engine.live_ok adm by blast+
  then have "engine.rebuild i (r0, []) (rest @ [row]) = Some (s, row_key row @ seen)" "x_id s = i"
    using l by (simp_all add: engine.rebuild_append)
  moreover have "rows @ [row] = Opened i 0 spec # (rest @ [row])" using l by simp
  ultimately show ?thesis
    unfolding sound_log_def using l by (intro exI [of _ spec] exI [of _ "rest @ [row]"] exI [of _ r0]) (auto simp: seen_keys_def)
qed

fun run_calls ::
  "(string \<Rightarrow> string) \<Rightarrow> (execution \<Rightarrow> jsval) \<Rightarrow> string \<Rightarrow> string \<Rightarrow> call list \<Rightarrow> store \<Rightarrow> store" where
  "run_calls h revision tenant i [] st = st"
| "run_calls h revision tenant i ((en, at, q) # cs) st =
     run_calls h revision tenant i cs (snd (local_call h revision tenant i en at q st))"

lemma local_call_sound:
  assumes sl: "sound_log h tenant i (st_log st) r" and adm: "admissible_call (en, at, q)"
    and c: "local_call h revision tenant i en at q st = (a, st')"
  shows "\<exists>r'. sound_log h tenant i (st_log st') r' \<and> (\<forall>s row. a = Moves s row \<longrightarrow> r' = s)"
proof -
  have ne: "st_log st \<noteq> []" using sl by (auto simp: sound_log_def)
  show ?thesis
  proof (cases "local_door revision en at q r (seen_keys (st_log st))")
    case (Moves s row)
    with c ne sound_log_read [OF sl] have "a = Moves s row" "st_log st' = st_log st @ [row]"
      by (auto simp: local_call_def)
    with sound_log_snoc [OF sl adm Moves] show ?thesis by auto
  qed (use c ne sl sound_log_read [OF sl] in \<open>auto simp: local_call_def\<close>)
qed

lemma run_calls_sound:
  assumes "sound_log h tenant i (st_log st) r" and "list_all admissible_call cs"
  shows "\<exists>r'. sound_log h tenant i (st_log (run_calls h revision tenant i cs st)) r'"
  using assms
proof (induction cs arbitrary: st r)
  case (Cons c cs)
  obtain en at q where c: "c = (en, at, q)" by (cases c)
  obtain a st' where call: "local_call h revision tenant i en at q st = (a, st')"
    by (cases "local_call h revision tenant i en at q st")
  from local_call_sound [OF Cons.prems(1) _ call] Cons.prems(2) c obtain r' where
    "sound_log h tenant i (st_log st') r'" by auto
  with Cons.IH Cons.prems(2) c call show ?case by simp
qed auto

lemma open_sound:
  assumes "local_open h en at lease spec = Some (r, st)" and "genesis_ok tenant spec"
  shows "sound_log h tenant (x_id r) (st_log st) r"
proof -
  from assms(1) obtain r0 a where i: "init_execution h spec = Some r0" and c: "claim r0 a = Inr r" and a: "ca_now a = at"
    and st: "st_log st = [Opened (x_id r) 0 spec, OwnershipChanged (x_id r) 0 at (x_owner r) None None]"
    by (auto simp: local_open_def split: option.splits sum.splits)
  from c show ?thesis
  proof (cases rule: claim_cases)
    case (ok fence)
    have "change_owner r0 at (x_owner r) None None = r"
      using ok(4) a by (simp add: change_owner_def text_truthy_def)
    moreover have "x_id r0 = x_id r" "x_seq r0 = 0" using ok(4) init_fields [OF i] by simp_all
    ultimately show ?thesis
      using assms(2) i st by (simp add: sound_log_def seen_keys_def)
  qed
qed

text \<open>
  C20. The log is the execution. Starting from a freshly opened execution, after any
  sequence of claims, renewals, releases, force releases and events from any engines at any
  times (candidate events keyed by string ids), the strict rebuild of the log never
  throws, and the record a door returned is the record the rebuild of its log
  reproduces.
\<close>

theorem rebuild_reproduces_the_record:
  assumes op: "local_open h en at lease spec = Some (r0, st0)" and gen: "genesis_ok tenant spec"
    and adm: "list_all admissible_call cs" "admissible_call (en', at', q)"
    and st: "st = run_calls h revision tenant (x_id r0) cs st0"
  shows "\<exists>r. rebuild_strict h tenant (x_id r0) (st_log st) = Some r
    \<and> (\<forall>s row st'. local_call h revision tenant (x_id r0) en' at' q st = (Moves s row, st') \<longrightarrow>
         rebuild_strict h tenant (x_id r0) (st_log st') = Some s)"
proof -
  from run_calls_sound [OF open_sound [OF op gen] adm(1)] st obtain r where
    r: "sound_log h tenant (x_id r0) (st_log st) r" by blast
  have "rebuild_strict h tenant (x_id r0) (st_log st') = Some s"
    if c: "local_call h revision tenant (x_id r0) en' at' q st = (Moves s row, st')" for s row st'
    using local_call_sound [OF r adm(2) c] sound_log_read by blast
  with sound_log_read [OF r] show ?thesis by blast
qed

end
