(* ===== verification/ExecutionDemo.thy ===== *)
theory ExecutionDemo
  imports ExecutionReplay
begin

text \<open>
  A concrete pipeline: one gate, one candidate and its successor, through the local engine's
  own doors. It instantiates the properties of the execution theories.
\<close>

definition demo_hash :: "string \<Rightarrow> string" where
  "demo_hash s = replicate 64 (CHR ''a'')"

definition demo_now :: string where
  "demo_now = ''2026-01-01T00:00:00Z''"

definition demo_lease :: string where
  "demo_lease = ''2026-01-01T01:00:00Z''"

definition demo_engine :: engine where
  "demo_engine = \<lparr>en_worker = ''w1'', en_machine = Some ''m1'', en_instance = Some ''p1'', en_person = JStr ''ada''\<rparr>"

definition demo_spec :: jsval where
  "demo_spec = JObj [(''tenant'', JStr ''local''), (''node_id'', JStr ''task-a''), (''factory_node_id'', JStr ''factory-a''),
     (''pipeline_attempt'', JNum 1), (''item_revision'', JStr ''r1''), (''factory_revision'', JStr ''f1''), (''repo'', JNull),
     (''gates'', JArr [JObj [(''id'', JStr ''suite'')]]), (''boundary'', JStr ''gates''), (''at'', JStr demo_now)]"

definition demo_owner :: owner where
  "demo_owner = \<lparr>ow_worker = ''w1'', ow_machine = Some ''m1'', ow_instance = Some ''p1'', ow_lease = demo_lease, ow_fence = 1\<rparr>"

text \<open>The record as opened, and as claimed.\<close>

definition demo_init :: execution where
  "demo_init = \<lparr>x_id = ''exec-aaaaaaaaaaaaaaaa'', x_tenant = ''local'', x_pipeline_attempt = Some 1, x_node_id = ''task-a'',
     x_item_revision = Some ''r1'', x_repo = None, x_factory = ''factory-a'', x_factory_revision = Some ''f1'',
     x_gates = [\<lparr>pg_id = ''suite'', pg_node_id = None, pg_revision = None, pg_rejudge = True\<rparr>],
     x_stage = Implementation, x_attempts = [],
     x_gate_results = [\<lparr>gr_id = ''suite'', gr_state = None, gr_attempt = 0, gr_settled_at = None, gr_candidate = None\<rparr>],
     x_candidate = JNull, x_candidates = [], x_integration = None, x_escalations = [], x_owner = None,
     x_completion = \<lparr>cm_boundary = GatesBoundary, cm_written_at = None, cm_resolver = None\<rparr>,
     x_premature = False, x_seq = 0, x_created_at = Some demo_now, x_updated_at = Some demo_now,
     x_released_at = None, x_force_release = None\<rparr>"

definition demo_r0 :: execution where
  "demo_r0 = demo_init\<lparr>x_owner := Some demo_owner\<rparr>"

definition demo_s0 :: store where
  "demo_s0 = \<lparr>st_log = [Opened ''exec-aaaaaaaaaaaaaaaa'' 0 demo_spec,
       OwnershipChanged ''exec-aaaaaaaaaaaaaaaa'' 0 demo_now (Some demo_owner) None None],
     st_open = Some ''exec-aaaaaaaaaaaaaaaa''\<rparr>"

definition demo_candidate :: "string \<Rightarrow> jsval \<Rightarrow> jsval" where
  "demo_candidate i prev = JObj [(''candidate_id'', JStr i), (''commit'', JStr (i @ ''-commit'')), (''tree'', JStr (i @ ''-tree'')),
     (''supersedes'', prev), (''reference'', JObj [(''verified_at'', JStr demo_now)])]"

definition demo_submit :: jsval where
  "demo_submit = JObj [(''type'', JStr ''candidate.submitted''), (''candidate'', demo_candidate ''c1'' JNull), (''fence'', JNum 1)]"

definition demo_settle :: jsval where
  "demo_settle = JObj [(''type'', JStr ''gate.settled''), (''gate_id'', JStr ''suite''), (''attempt'', JNum 1),
     (''state'', JStr ''passed''), (''fence'', JNum 1)]"

definition demo_supersede :: jsval where
  "demo_supersede = JObj [(''type'', JStr ''candidate.superseded''), (''candidate'', demo_candidate ''c2'' (JStr ''c1'')), (''fence'', JNum 1)]"

definition demo_complete :: jsval where
  "demo_complete = JObj [(''type'', JStr ''completion.written''), (''resolver'', JStr ''done-a''), (''fence'', JNum 1)]"

definition demo_apply :: "execution \<Rightarrow> jsval \<Rightarrow> outcome" where
  "demo_apply r e = apply_execution_event False r e [] (Some demo_now)"

definition demo_r1 :: execution where
  "demo_r1 = demo_r0\<lparr>x_candidate := demo_candidate ''c1'' JNull, x_candidates := [demo_candidate ''c1'' JNull],
     x_stage := Gating, x_seq := 1\<rparr>"

definition demo_r2 :: execution where
  "demo_r2 = demo_r1\<lparr>x_gate_results := [\<lparr>gr_id = ''suite'', gr_state = Some GatePassed, gr_attempt = 1,
     gr_settled_at = Some demo_now, gr_candidate = Some ''c1''\<rparr>], x_seq := 2\<rparr>"

lemma demo_init: "init_execution demo_hash demo_spec = Some demo_init"
  by code_simp

lemma demo_open: "local_open demo_hash demo_engine demo_now demo_lease demo_spec = Some (demo_r0, demo_s0)"
  by code_simp

lemma demo_first: "demo_apply demo_r0 demo_submit = Accepted demo_r1 (JStr ''c1'')"
  by code_simp

lemma demo_second: "demo_apply demo_r1 demo_settle = Accepted demo_r2 (JStr ''exec-aaaaaaaaaaaaaaaa:suite:1'')"
  by code_simp

subsection \<open>A re-pin, a completion, a landing\<close>

definition demo_r3 :: execution where
  "demo_r3 = demo_r2\<lparr>x_candidate := demo_candidate ''c2'' (JStr ''c1''),
     x_candidates := [demo_candidate ''c1'' JNull, demo_candidate ''c2'' (JStr ''c1'')], x_seq := 3\<rparr>"

lemma demo_repin: "demo_apply demo_r2 demo_supersede = Accepted demo_r3 (JStr ''c2'')"
  by code_simp

definition demo_done :: execution where
  "demo_done = demo_r2\<lparr>x_completion := \<lparr>cm_boundary = GatesBoundary, cm_written_at = Some demo_now,
     cm_resolver = Some ''done-a''\<rparr>, x_stage := Completed, x_seq := 3\<rparr>"

lemma demo_completion: "demo_apply demo_r2 demo_complete = Accepted demo_done (JStr ''exec-aaaaaaaaaaaaaaaa:completion'')"
  by code_simp

definition demo_integrate :: "int \<Rightarrow> jsval" where
  "demo_integrate n = JObj [(''type'', JStr ''integration.started''), (''attempt'', JNum n), (''fence'', JNum 1)]"

definition demo_land :: jsval where
  "demo_land = JObj [(''type'', JStr ''integration.settled''), (''attempt'', JNum 1), (''state'', JStr ''landed''), (''fence'', JNum 1)]"

definition demo_l1 :: execution where
  "demo_l1 = demo_r2\<lparr>x_integration := Some \<lparr>in_state = IntRunning, in_attempt = 1, in_at = Some demo_now,
     in_ref = None, in_commit = None\<rparr>, x_stage := Integration, x_seq := 3\<rparr>"

definition demo_l2 :: execution where
  "demo_l2 = demo_l1\<lparr>x_integration := Some \<lparr>in_state = IntLanded, in_attempt = 1, in_at = Some demo_now,
     in_ref = None, in_commit = None\<rparr>, x_seq := 4\<rparr>"

definition demo_l3 :: execution where
  "demo_l3 = demo_l2\<lparr>x_integration := Some \<lparr>in_state = IntRunning, in_attempt = 2, in_at = Some demo_now,
     in_ref = None, in_commit = None\<rparr>, x_seq := 5\<rparr>"

definition demo_l4 :: execution where
  "demo_l4 = demo_l3\<lparr>x_candidate := demo_candidate ''c2'' (JStr ''c1''),
     x_candidates := [demo_candidate ''c1'' JNull, demo_candidate ''c2'' (JStr ''c1'')],
     x_integration := None, x_stage := Gating, x_seq := 6\<rparr>"

lemma demo_integration: "demo_apply demo_r2 (demo_integrate 1) = Accepted demo_l1 (JStr ''exec-aaaaaaaaaaaaaaaa:integration:1:started'')"
  by code_simp

lemma demo_landing: "demo_apply demo_l1 demo_land = Accepted demo_l2 (JStr ''exec-aaaaaaaaaaaaaaaa:integration:1'')"
  by code_simp

lemma demo_restart: "demo_apply demo_l2 (demo_integrate 2) = Accepted demo_l3 (JStr ''exec-aaaaaaaaaaaaaaaa:integration:2:started'')"
  by code_simp

lemma demo_repin_after_restart: "demo_apply demo_l3 demo_supersede = Accepted demo_l4 (JStr ''c2'')"
  by code_simp

text \<open>Landing is protected only while the integration reads landed: another
  \<open>integration.started\<close> is accepted after the landing, and then a candidate that
  supersedes the landed one is accepted too.\<close>

lemma landed_candidate_can_be_superseded_after_restart:
  "landed demo_l2 \<and> demo_apply demo_l2 (demo_integrate 2) = Accepted demo_l3 (JStr ''exec-aaaaaaaaaaaaaaaa:integration:2:started'')
   \<and> demo_apply demo_l3 demo_supersede = Accepted demo_l4 (JStr ''c2'') \<and> moves_tip demo_l2 demo_l4"
proof -
  have "landed demo_l2" "moves_tip demo_l2 demo_l4"
    by (simp_all add: landed_def moves_tip_def demo_l2_def demo_l3_def demo_l4_def demo_l1_def demo_r2_def
        demo_r1_def demo_candidate_def candidate_id_string_def)
  with demo_restart demo_repin_after_restart show ?thesis by blast
qed

subsection \<open>A provider attempt\<close>

definition demo_submitting :: jsval where
  "demo_submitting = JObj [(''type'', JStr ''attempt.submitting''), (''attempt'', JStr ''01''), (''provider'', JStr ''docker''),
     (''submit_idempotency_key'', JStr ''submit-0001''), (''request'', JObj []), (''fence'', JNum 1)]"

definition demo_submitted :: jsval where
  "demo_submitted = JObj [(''type'', JStr ''attempt.submitted''), (''attempt'', JNum 1), (''provider'', JStr ''docker''),
     (''submit_idempotency_key'', JStr ''submit-0001''), (''handle'', JStr ''env-1''), (''fence'', JNum 1)]"

definition demo_provider :: "jsval \<Rightarrow> string option \<Rightarrow> provider_row" where
  "demo_provider handle at = \<lparr>pv_id = ''docker'', pv_handle = handle, pv_key = Some ''submit-0001'', pv_request = JObj [],
     pv_env = JNull, pv_submitting_at = Some demo_now, pv_submitted_at = at, pv_last_state = None,
     pv_last_observed_at = None, pv_last_detail = None, pv_observed_seq = 0\<rparr>"

definition demo_attempt :: "provider_row \<Rightarrow> attempt_row" where
  "demo_attempt p = \<lparr>at_index = Some 1, at_pool = PoolImplementation, at_stage = JStr ''implementation'', at_run_id = None,
     at_state = None, at_outcome = None, at_started_at = Some demo_now, at_finished_at = None, at_provider = Some p\<rparr>"

definition demo_p1 :: execution where
  "demo_p1 = demo_r0\<lparr>x_attempts := [demo_attempt (demo_provider JNull None)], x_seq := 1\<rparr>"

definition demo_p2 :: execution where
  "demo_p2 = demo_r0\<lparr>x_attempts := [demo_attempt (demo_provider (JStr ''env-1'') (Some demo_now))], x_seq := 2\<rparr>"

lemma demo_submit_first: "demo_apply demo_r0 demo_submitting = Accepted demo_p1 (JStr ''exec-aaaaaaaaaaaaaaaa:attempt.submitting:1'')"
  by code_simp

lemma demo_submit_second: "demo_apply demo_p1 demo_submitted = Accepted demo_p2 (JStr ''exec-aaaaaaaaaaaaaaaa:attempt.submitted:1'')"
  by code_simp

subsection \<open>Reachability\<close>

lemma demo_step: "demo_apply r e = Accepted s k \<Longrightarrow> door_step r (DEvent e [] demo_now) = Some s"
  by (simp add: demo_apply_def door_step_def)

lemma demo_reach_event: "reachable h r \<Longrightarrow> demo_apply r e = Accepted s k \<Longrightarrow> reachable h s"
  by (rule reachable.moved) (auto dest: demo_step)

lemma demo_later_event: "demo_apply r e = Accepted s k \<Longrightarrow> later r s"
  by (rule later.step [OF later.here]) (rule demo_step)

definition demo_claim :: claim_args where
  "demo_claim = \<lparr>ca_worker = ''w1'', ca_machine = Some ''m1'', ca_instance = Some ''p1'', ca_lease = demo_lease,
     ca_now = demo_now, ca_takeover = False\<rparr>"

lemma demo_claimed: "claim demo_init demo_claim = Inr demo_r0"
  by code_simp

lemma demo_reach_init: "reachable demo_hash demo_init"
  by (rule reachable.opened [OF demo_init])

lemma demo_reach0: "reachable demo_hash demo_r0"
  by (rule reachable.moved [OF demo_reach_init, of "DClaim demo_claim"]) (simp add: door_step_def demo_claimed)

lemma demo_reach2: "reachable demo_hash demo_r2"
  by (rule demo_reach_event [OF demo_reach_event [OF demo_reach0 demo_first] demo_second])

lemma demo_reach_landed: "reachable demo_hash demo_l2"
  by (rule demo_reach_event [OF demo_reach_event [OF demo_reach2 demo_integration] demo_landing])

subsection \<open>The properties on the concrete pipeline\<close>

theorem accepted_event_is_fenced_witness:
  "holds_lease demo_r0 (js_get demo_submit ''fence'') (Some demo_now) \<and> x_seq demo_r1 = x_seq demo_r0 + 1"
  using accepted_event_is_fenced [OF demo_first [unfolded demo_apply_def]] by simp

theorem events_never_rewrite_pins_witness: "same_pins demo_r0 demo_r1"
  using events_never_rewrite_pins [OF demo_first [unfolded demo_apply_def]] by simp

theorem completed_only_at_the_boundary_witness: "tip_accepted demo_r2"
  using completed_only_at_the_boundary [OF demo_completion [unfolded demo_apply_def]]
  by (simp add: demo_done_def)

theorem terminal_is_absorbing_witness: "claim demo_done demo_claim = Inl Execution_terminal"
  using terminal_is_absorbing [of demo_done demo_claim] by (simp add: is_terminal_def demo_done_def)

theorem claim_is_exclusive_witness: "\<exists>ow. x_owner demo_r0 = Some ow \<and> ow_fence ow = owner_fence demo_init + 1"
proof -
  have "\<not> same_instance demo_init demo_claim"
    by (simp add: same_instance_def same_owner_def demo_init_def)
  with claim_is_exclusive [OF demo_claimed, of demo_lease demo_now] show ?thesis by auto
qed

theorem fences_never_go_back_witness: "owner_fence demo_r0 \<le> ow_fence demo_owner"
  by (rule fences_never_go_back [OF demo_reach0 demo_later_event [OF demo_first]])
    (simp add: demo_r1_def demo_r0_def)

theorem retry_is_replayed_witness:
  "apply_execution_event False (demo_p1\<lparr>x_owner := None, x_updated_at := None\<rparr>) demo_submitting
     [JStr ''exec-aaaaaaaaaaaaaaaa:attempt.submitting:1''] None
   = Replayed (JStr ''exec-aaaaaaaaaaaaaaaa:attempt.submitting:1'')"
  by (rule retry_is_replayed [OF demo_submit_first [unfolded demo_apply_def]]) (simp add: demo_submitting_def)

theorem candidate_chain_invariant_witness: "\<exists>ext. ids demo_r3 = ids demo_r2 @ ext"
  using candidate_chain_invariant [OF demo_reach2 demo_later_event [OF demo_repin]] by blast

lemma demo_repin_moves: "moves_tip demo_r2 demo_r3"
  by (simp add: moves_tip_def demo_r3_def demo_r2_def demo_r1_def demo_candidate_def candidate_id_string_def)

theorem repin_requires_rejudge_witness: "\<not> boundary_reached False demo_r3"
proof -
  have "\<exists>g\<in>set (x_gate_results demo_r3). \<not> opted_out demo_r3 g"
    by (simp add: opted_out_def demo_r3_def demo_r2_def demo_r1_def demo_r0_def demo_init_def)
  with repin_requires_rejudge [OF demo_reach2 demo_repin [unfolded demo_apply_def] demo_repin_moves]
  show ?thesis by blast
qed

theorem landed_tip_stays_witness: "\<not> moves_tip demo_l2 demo_l3"
  by (rule landed_tip_stays [OF demo_reach_landed demo_restart [unfolded demo_apply_def]])
    (simp add: landed_def demo_l2_def)

theorem provider_attempt_is_kept_witness: "rows_kept demo_p1 demo_p2"
  using provider_attempt_is_kept [OF demo_reach_event [OF demo_reach0 demo_submit_first] demo_later_event [OF demo_submit_second]]
  by blast

lemma demo_genesis: "genesis_ok ''local'' demo_spec"
  by code_simp

lemma demo_calls_admissible:
  "list_all admissible_call [(demo_engine, demo_now, REvent (JNum 1) demo_submit)]"
  "admissible_call (demo_engine, demo_now, REvent (JNum 1) demo_settle)"
  by code_simp+

theorem rebuild_reproduces_the_record_witness:
  "\<exists>r. rebuild_strict demo_hash ''local'' (x_id demo_r0) (st_log
     (run_calls demo_hash (\<lambda>_. JNull) ''local'' (x_id demo_r0) [(demo_engine, demo_now, REvent (JNum 1) demo_submit)] demo_s0)) = Some r"
  using rebuild_reproduces_the_record [OF demo_open demo_genesis demo_calls_admissible refl] by blast

text \<open>The hypothesis on candidate ids is needed: a candidate whose id is a number, submitted
  twice, is accepted both times (the live key is the number, the log's keys are strings), and
  then the log has the same key twice and the strict rebuild refuses it.\<close>

definition numeric_submit :: "string \<Rightarrow> jsval" where
  "numeric_submit commit = JObj [(''type'', JStr ''candidate.submitted''), (''candidate'', JObj [(''candidate_id'', JNum 5),
     (''commit'', JStr commit), (''tree'', JStr ''t'')])]"

definition numeric_calls :: "call list" where
  "numeric_calls = [(demo_engine, demo_now, REvent (JNum 1) (numeric_submit ''a'')),
     (demo_engine, demo_now, REvent (JNum 1) (numeric_submit ''b''))]"

lemma numeric_candidate_id_breaks_the_log:
  "rebuild_strict demo_hash ''local'' ''exec-aaaaaaaaaaaaaaaa'' (st_log
     (run_calls demo_hash (\<lambda>_. JNull) ''local'' ''exec-aaaaaaaaaaaaaaaa'' numeric_calls demo_s0)) = None"
  by code_simp

end
