(* ===== verification/Review.thy ===== *)
theory Review
  imports Satisfiability
begin

text \<open>
  The review gate's verdict, \<^verbatim>\<open>src/lib/kernel/gates.js\<close> (\<open>parseReviewVerdict\<close>,
  \<open>normalizeFinding\<close>, \<open>readPriorAnswers\<close>, the finding categories and rows): how a reviewer's
  structured report is read against the findings still open from earlier cycles.

  A report is the list of its candidate JSON texts in the order they stand, each decoded, or \<open>None\<close>
  where \<open>JSON.parse\<close> throws; finding the fenced blocks in the prose is not modelled. The sentences
  a finding's note collects are values of \<open>note_part\<close>, joined by list append; the verdict's own
  error and note sentences are left out. Absent and null properties are both \<open>None\<close>. The
  ellipsis that marks a cut line is the single character \<open>0x85\<close>.
\<close>

subsection \<open>Categories\<close>

datatype category = Correctness | UnmetCondition | UnrequestedMechanism

definition is_ws :: "char \<Rightarrow> bool" where
  "is_ws c \<longleftrightarrow> c \<in> set ws_chars"

definition unmet_condition_words :: "string list" where
  "unmet_condition_words = [''unmet-condition'', ''unmet'', ''unmet-done-condition'', ''done-condition-unmet'',
     ''done-condition'', ''condition-unmet'', ''condition'', ''scope'', ''scope-dispute'', ''re-scope'']"

definition unrequested_mechanism_words :: "string list" where
  "unrequested_mechanism_words = [''unrequested-mechanism'', ''unrequested'', ''unasked-mechanism'', ''unasked'',
     ''unrequested-surface'', ''out-of-acceptance'', ''beyond-acceptance'', ''scope-creep'', ''gold-plating'', ''gold-plate'']"

definition correctness_words :: "string list" where
  "correctness_words = [''correctness'', ''correct'', ''bug'', ''defect'', ''data-loss'', ''silent-data-loss'',
     ''contract'', ''contract-break'', ''contract-violation'', ''regression'']"

definition finding_category :: "jsval \<Rightarrow> category option" where
  "finding_category raw =
     (let t = squeeze (\<lambda>c. is_ws c \<or> c = CHR ''_'') (CHR ''-'') False (lower (trim (if nullish raw then [] else js_string raw))) in
      if t = [] then None
      else if t \<in> set unmet_condition_words then Some UnmetCondition
      else if t \<in> set unrequested_mechanism_words then Some UnrequestedMechanism
      else if t \<in> set correctness_words then Some Correctness else None)"

text \<open>\<open>categoryOf\<close> of a stored finding: a legacy entry has none and reads as correctness.\<close>

definition category_of :: "category option \<Rightarrow> category" where
  "category_of c = (case c of None \<Rightarrow> Correctness | Some x \<Rightarrow> x)"

subsection \<open>Rows of a carried mechanism\<close>

definition row_cap :: nat where
  "row_cap = 12"

definition row_line_cap :: nat where
  "row_line_cap = 240"

definition ellipsis :: char where
  "ellipsis = CHR 0x85"

definition clean_row :: "string \<Rightarrow> string" where
  "clean_row r = (let t = trim (squeeze is_ws (CHR '' '') False r) in
     if length t > row_line_cap then take (row_line_cap - 1) t @ [ellipsis] else t)"

text \<open>\<open>mechanismRows\<close> of a list of strings, and of any value a report carries.\<close>

definition clean_rows :: "string list \<Rightarrow> string list" where
  "clean_rows rs = take row_cap (map clean_row (filter (\<lambda>r. trim r \<noteq> []) rs))"

definition mechanism_rows :: "jsval \<Rightarrow> string list" where
  "mechanism_rows raw = clean_rows
     (case raw of
        JArr vs \<Rightarrow> map string_of (filter (\<lambda>v. case v of JStr _ \<Rightarrow> True | _ \<Rightarrow> False) vs)
      | JStr s \<Rightarrow> [s]
      | _ \<Rightarrow> [])"

definition prior_rows_of :: "jsval \<Rightarrow> jsval" where
  "prior_rows_of p =
     (if js_get p ''rows'' \<noteq> JUndef then js_get p ''rows''
      else if js_get p ''remaining_rows'' \<noteq> JUndef then js_get p ''remaining_rows''
      else if js_get p ''mechanism_rows'' \<noteq> JUndef then js_get p ''mechanism_rows'' else JNull)"

subsection \<open>Findings\<close>

datatype note_part =
    NText string
  | NClearedByReview | NConfirmedByReview
  | NNotAnswered | NNotAnsweredUnreadable
  | NNotThatFinding string string string
  | NAcceptanceFloor | NNoEvidence | NGoalpost | NUpgraded
  | NReclassified int
  | NReusedId string string

type_synonym remarks = "note_part list"

datatype finding_status = Open | Resolved | Advisory
datatype origin = FromPrior | Fresh

record finding =
  fd_id :: "string option"
  fd_severity :: string
  fd_category :: "category option"
  fd_file :: string
  fd_summary :: string
  fd_evidence :: string
  fd_introduced :: bool
  fd_origin :: origin
  fd_status :: finding_status
  fd_blocking :: bool
  fd_note :: remarks
  fd_restated :: "string option"
  fd_opened :: "int option"
  fd_answered :: bool
  fd_rows :: "string list"
  fd_rows_cycle :: "int option"
  fd_earlier :: "string list"
  fd_earlier_cycle :: "int option"

definition is_unrequested_mechanism :: "finding \<Rightarrow> bool" where
  "is_unrequested_mechanism f \<longleftrightarrow> category_of (fd_category f) = UnrequestedMechanism"

text \<open>\<open>String(v || "").trim()\<close>, and the first truthy of several properties.\<close>

definition text_of :: "jsval \<Rightarrow> string" where
  "text_of v = trim (js_string (js_or v (JStr [])))"

definition first_of :: "jsval \<Rightarrow> string list \<Rightarrow> jsval" where
  "first_of f ks = foldr (\<lambda>k d. js_or (js_get f k) d) ks (JStr [])"

definition evidence_noise :: "string list" where
  "evidence_noise = [''true'', ''yes'', ''y'', ''ok'', ''done'', ''n/a'', ''na'', ''none'', ''null'', ''undefined'', ''-'',
     ''tbd'', ''todo'', ''see above'', ''as above'']"

definition evidence_value :: "jsval \<Rightarrow> string option" where
  "evidence_value v = (case v of JStr s \<Rightarrow>
       (let t = trim s in if t = [] \<or> lower t \<in> set evidence_noise then None else Some t)
     | _ \<Rightarrow> None)"

definition evidence_text :: "jsval \<Rightarrow> string" where
  "evidence_text f =
     (case List.map_filter (\<lambda>k. evidence_value (js_get f k)) [''evidence'', ''reproduction'', ''repro'', ''demonstrated_by''] of
        [] \<Rightarrow> [] | t # _ \<Rightarrow> t)"

definition blocking_severity :: "string \<Rightarrow> bool" where
  "blocking_severity s \<longleftrightarrow> s = ''blocking''"

text \<open>What a review may know of a finding raised earlier and not yet demonstrated.\<close>

record raised_entry =
  ra_file :: string
  ra_summary :: string
  ra_category :: category

definition introduced_by_fix :: "jsval \<Rightarrow> bool" where
  "introduced_by_fix f =
     (let raw = (if js_get f ''introduced_by_fix'' \<noteq> JUndef then js_get f ''introduced_by_fix''
                 else if js_get f ''caused_by_fix'' \<noteq> JUndef then js_get f ''caused_by_fix'' else js_get f ''introduced'')
      in raw = JBool True \<or> lower (text_of raw) = ''true'' \<or> lower (text_of raw) = ''yes'')"

definition stated_category :: "jsval \<Rightarrow> category option" where
  "stated_category f = finding_category
     (if js_get f ''category'' \<noteq> JUndef then js_get f ''category'' else js_get f ''finding_category'')"

definition raw_finding :: "jsval \<Rightarrow> finding" where
  "raw_finding f = \<lparr>
     fd_id = (let i = text_of (first_of f [''id'', ''ref'']) in if i = [] then None else Some i),
     fd_severity = (let s = lower (text_of (js_get f ''severity'')) in if s = [] then ''unspecified'' else s),
     fd_category = Some (category_of (stated_category f)),
     fd_file = text_of (first_of f [''file'', ''path'']),
     fd_summary = text_of (first_of f [''summary'', ''title'', ''description'']),
     fd_evidence = evidence_text f, fd_introduced = introduced_by_fix f,
     fd_origin = Fresh, fd_status = Open, fd_blocking = False, fd_note = [], fd_restated = None,
     fd_opened = None, fd_answered = True, fd_rows = [], fd_rows_cycle = None, fd_earlier = [], fd_earlier_cycle = None\<rparr>"

text \<open>Naming an earlier finding: an upgrade when the files agree, else the borrowed id is dropped.\<close>

definition claim_raised :: "(string \<rightharpoonup> raised_entry) \<Rightarrow> category option \<Rightarrow> finding \<Rightarrow> finding \<times> bool" where
  "claim_raised raised stated out =
     (case fd_id out of
        None \<Rightarrow> (out, False)
      | Some i \<Rightarrow>
          (case raised i of
             None \<Rightarrow> (out, False)
           | Some en \<Rightarrow>
               if ra_file en \<noteq> [] \<and> fd_file out \<noteq> [] \<and> ra_file en \<noteq> fd_file out
               then (out\<lparr>fd_note := [NNotThatFinding i (fd_file out) (ra_file en)], fd_id := None\<rparr>, False)
               else (out\<lparr>fd_restated := (if ra_summary en \<noteq> [] \<and> fd_summary out \<noteq> ra_summary en then Some (fd_summary out) else None),
                         fd_summary := (if ra_summary en \<noteq> [] then ra_summary en else fd_summary out),
                         fd_file := (if ra_file en \<noteq> [] then ra_file en else fd_file out),
                         fd_category := (if stated = None then Some (ra_category en) else fd_category out)\<rparr>, True)))"

definition normalize_finding :: "jsval \<Rightarrow> int \<Rightarrow> (string \<rightharpoonup> raised_entry) \<Rightarrow> finding" where
  "normalize_finding f cycle raised =
     (let (out, upgrade) = claim_raised raised (stated_category f) (raw_finding f) in
      if \<not> blocking_severity (fd_severity out) then out
      else if is_unrequested_mechanism out then out\<lparr>fd_note := fd_note out @ [NAcceptanceFloor]\<rparr>
      else if fd_evidence out = [] then out\<lparr>fd_note := fd_note out @ [NNoEvidence]\<rparr>
      else if cycle > 0 \<and> \<not> fd_introduced out \<and> \<not> upgrade then out\<lparr>fd_note := fd_note out @ [NGoalpost]\<rparr>
      else out\<lparr>fd_note := (if cycle > 0 \<and> \<not> fd_introduced out then [NUpgraded] else fd_note out), fd_blocking := True\<rparr>)"

subsection \<open>Answers to the prior findings\<close>

definition prior_cleared :: "string list" where
  "prior_cleared = [''resolved'', ''fixed'', ''cleared'', ''clear'', ''closed'', ''addressed'', ''done'', ''gone'']"

definition prior_open :: "string list" where
  "prior_open = [''open'', ''unresolved'', ''confirmed'', ''confirm'', ''still-open'', ''stands'', ''remains'', ''persists'',
     ''unfixed'', ''not-fixed'']"

record prior_answer =
  an_cleared :: bool
  an_note :: remarks
  an_rows :: "string list"
  an_category :: "category option"

definition put_answer ::
  "string list \<Rightarrow> (string \<rightharpoonup> prior_answer) \<Rightarrow> jsval \<Rightarrow> jsval \<Rightarrow> jsval \<Rightarrow> jsval \<Rightarrow> jsval \<Rightarrow> (string \<rightharpoonup> prior_answer)" where
  "put_answer known answers i status note rows cat =
     (let key = text_of i; s = lower (text_of status); t = text_of note in
      if key \<notin> set known then answers
      else if s \<in> set prior_cleared
      then answers(key \<mapsto> \<lparr>an_cleared = True, an_note = [if t = [] then NClearedByReview else NText t], an_rows = [],
             an_category = finding_category cat\<rparr>)
      else if s \<in> set prior_open
      then answers(key \<mapsto> \<lparr>an_cleared = False, an_note = [if t = [] then NConfirmedByReview else NText t],
             an_rows = mechanism_rows rows, an_category = finding_category cat\<rparr>)
      else answers)"

definition read_prior_answers :: "jsval \<Rightarrow> string list \<Rightarrow> (string \<rightharpoonup> prior_answer)" where
  "read_prior_answers obj known =
     (let raw = (if js_get obj ''prior'' \<noteq> JUndef then js_get obj ''prior'' else js_get obj ''prior_findings'');
          status = (\<lambda>v. first_of v [''status'', ''state'', ''verdict'']) in
      case raw of
        JArr ps \<Rightarrow> foldl (\<lambda>as p. if is_plain_object p
            then put_answer known as (first_of p [''id'', ''ref'']) (status p) (first_of p [''note'', ''reason'', ''summary''])
                   (prior_rows_of p) (js_get p ''category'')
            else as) Map.empty ps
      | JObj fs \<Rightarrow> foldl (\<lambda>as (i, v). if is_plain_object v
            then put_answer known as (JStr i) (status v) (first_of v [''note'', ''reason'']) (prior_rows_of v) (js_get v ''category'')
            else put_answer known as (JStr i) v (JStr []) JNull JNull) Map.empty fs
      | _ \<Rightarrow> Map.empty)"

text \<open>The row fields a carried finding leaves the review with.\<close>

definition carried_rows :: "finding \<Rightarrow> prior_answer option \<Rightarrow> finding" where
  "carried_rows p a =
     (case a of
        None \<Rightarrow> p\<lparr>fd_rows := clean_rows (fd_rows p), fd_earlier := clean_rows (fd_earlier p)\<rparr>
      | Some an \<Rightarrow>
          if an_cleared an then p\<lparr>fd_rows := [], fd_earlier := [], fd_earlier_cycle := None\<rparr>
          else if an_rows an \<noteq> [] then p\<lparr>fd_rows := an_rows an, fd_earlier := [], fd_earlier_cycle := None\<rparr>
          else if clean_rows (fd_rows p) \<noteq> []
          then p\<lparr>fd_rows := [], fd_earlier := clean_rows (fd_rows p), fd_earlier_cycle := fd_rows_cycle p\<rparr>
          else p\<lparr>fd_rows := [], fd_earlier := clean_rows (fd_earlier p),
                 fd_earlier_cycle := (if clean_rows (fd_earlier p) \<noteq> [] then fd_earlier_cycle p else None)\<rparr>)"

text \<open>A prior finding always carries the id its ledger minted; one without would be looked up under the empty text.\<close>

definition finding_id :: "finding \<Rightarrow> string" where
  "finding_id f = (case fd_id f of Some i \<Rightarrow> i | None \<Rightarrow> [])"

definition carry :: "(string \<rightharpoonup> prior_answer) \<Rightarrow> finding \<Rightarrow> finding" where
  "carry answers p =
     (let a = answers (finding_id p);
          cat = (case a of Some an \<Rightarrow> (case an_category an of Some c \<Rightarrow> c | None \<Rightarrow> category_of (fd_category p))
                 | None \<Rightarrow> category_of (fd_category p)) in
      (carried_rows p a)\<lparr>fd_origin := FromPrior, fd_blocking := (cat \<noteq> UnrequestedMechanism),
        fd_note := (case a of Some an \<Rightarrow> an_note an | None \<Rightarrow> [NNotAnswered]),
        fd_status := (case a of Some an \<Rightarrow> (if an_cleared an then Resolved else Open) | None \<Rightarrow> Open),
        fd_answered := (a \<noteq> None), fd_category := Some cat\<rparr>)"

definition unanswered_prior :: "finding \<Rightarrow> finding" where
  "unanswered_prior p = (carried_rows p None)\<lparr>fd_origin := FromPrior, fd_blocking := \<not> is_unrequested_mechanism p,
     fd_status := Open, fd_answered := False, fd_note := [NNotAnsweredUnreadable],
     fd_category := Some (category_of (fd_category p))\<rparr>"

subsection \<open>The verdict\<close>

definition pass_words :: "string list" where
  "pass_words = [''pass'', ''passed'', ''approve'', ''approved'', ''clean'', ''no-findings'', ''none'', ''ok'', ''lgtm'']"

definition fail_words :: "string list" where
  "fail_words = [''fail'', ''failed'', ''changes_requested'', ''changes-requested'', ''request-changes'', ''block'', ''blocked'',
     ''reject'', ''rejected'']"

record verdict =
  v_ok :: bool
  v_passed :: bool
  v_verdict :: "string option"
  v_findings :: "finding list"
  v_prior :: "finding list"
  v_unanswered :: "string list"

definition unreadable_verdict :: "finding list \<Rightarrow> string option \<Rightarrow> verdict" where
  "unreadable_verdict prior w =
     (let carried = map unanswered_prior prior in
      \<lparr>v_ok = False, v_passed = False, v_verdict = w, v_findings = carried, v_prior = carried, v_unanswered = []\<rparr>)"

definition malformed :: "jsval \<Rightarrow> bool" where
  "malformed f \<longleftrightarrow> \<not> is_plain_object f \<or> text_of (first_of f [''summary'', ''title'', ''description'']) = []"

definition verdict_word :: "jsval \<Rightarrow> string" where
  "verdict_word obj = lower (text_of (first_of obj [''verdict'', ''status'', ''result'']))"

definition findings_list :: "jsval \<Rightarrow> jsval list option" where
  "findings_list obj = (case js_get obj ''findings'' of JArr vs \<Rightarrow> Some vs | _ \<Rightarrow> None)"

definition fresh_findings :: "finding list \<Rightarrow> int \<Rightarrow> (string \<rightharpoonup> raised_entry) \<Rightarrow> jsval list \<Rightarrow> finding list" where
  "fresh_findings prior cycle raised raws =
     filter (\<lambda>f. \<not> (\<exists>p\<in>set prior. fd_id f = Some (finding_id p))) (map (\<lambda>f. normalize_finding f cycle raised) raws)"

text \<open>Everything answered and readable: what still blocks decides.\<close>

definition weigh :: "string \<Rightarrow> finding list \<Rightarrow> finding list \<Rightarrow> verdict" where
  "weigh word carried findings =
     (let blocking = filter fd_blocking findings in
      \<lparr>v_ok = True, v_passed = (blocking = []),
       v_verdict = Some (if blocking \<noteq> [] then ''changes_requested'' else if word \<in> set pass_words then word else ''pass''),
       v_findings = findings, v_prior = carried, v_unanswered = []\<rparr>)"

text \<open>Rules 3 and 4, then 1, 2 and 5, on a recognised word and findings list.\<close>

definition judge ::
  "finding list \<Rightarrow> int \<Rightarrow> (string \<rightharpoonup> raised_entry) \<Rightarrow> string \<Rightarrow> jsval list option \<Rightarrow> (string \<rightharpoonup> prior_answer) \<Rightarrow> verdict" where
  "judge prior cycle raised word raws answers =
     (let rs = (case raws of None \<Rightarrow> [] | Some vs \<Rightarrow> vs);
          unanswered = filter (\<lambda>p. answers (finding_id p) = None) prior;
          carried = map (carry answers) prior;
          still_open = filter (\<lambda>p. fd_status p = Open) carried;
          requests = word \<in> set fail_words in
      if list_ex malformed rs \<or> (requests \<and> raws = None) \<or> (requests \<and> rs = [] \<and> still_open = [])
      then \<lparr>v_ok = False, v_passed = False,
            v_verdict = (if requests then Some ''changes_requested'' else if word = [] then None else Some word),
            v_findings = still_open, v_prior = carried, v_unanswered = []\<rparr>
      else if unanswered \<noteq> []
      then \<lparr>v_ok = False, v_passed = False, v_verdict = Some ''changes_requested'',
            v_findings = still_open, v_prior = carried, v_unanswered = map finding_id unanswered\<rparr>
      else weigh word carried (still_open @ fresh_findings prior cycle raised rs))"

text \<open>The reading of one decoded object, \<open>None\<close> when it is not a verdict (\<open>continue\<close>).\<close>

definition read_verdict :: "finding list \<Rightarrow> int \<Rightarrow> (string \<rightharpoonup> raised_entry) \<Rightarrow> jsval \<Rightarrow> verdict option" where
  "read_verdict prior cycle raised obj =
     (if \<not> is_plain_object obj then None
      else
        (let word = verdict_word obj; raws = findings_list obj in
         if word \<noteq> [] \<and> word \<notin> set pass_words \<and> word \<notin> set fail_words then Some (unreadable_verdict prior (Some word))
         else if word = [] \<and> raws = None then None
         else Some (judge prior cycle raised word raws (read_prior_answers obj (map finding_id prior)))))"

fun read_candidates :: "finding list \<Rightarrow> int \<Rightarrow> (string \<rightharpoonup> raised_entry) \<Rightarrow> jsval option list \<Rightarrow> verdict" where
  "read_candidates prior cycle raised [] = unreadable_verdict prior None"
| "read_candidates prior cycle raised (c # cs) =
     (case c of
        None \<Rightarrow> read_candidates prior cycle raised cs
      | Some obj \<Rightarrow> (case read_verdict prior cycle raised obj of
            None \<Rightarrow> read_candidates prior cycle raised cs
          | Some v \<Rightarrow> v))"

text \<open>The last candidate is read first.\<close>

definition parse_review_verdict :: "finding list \<Rightarrow> int \<Rightarrow> (string \<rightharpoonup> raised_entry) \<Rightarrow> jsval option list \<Rightarrow> verdict" where
  "parse_review_verdict prior cycle raised candidates = read_candidates prior cycle raised (rev candidates)"

subsection \<open>What blocks, and what a pass means\<close>

text \<open>The finding \<open>f\<close> names an earlier undemonstrated finding by id, on the same file.\<close>

definition upgrades :: "(string \<rightharpoonup> raised_entry) \<Rightarrow> jsval \<Rightarrow> raised_entry option" where
  "upgrades raised f =
     (case fd_id (raw_finding f) of None \<Rightarrow> None | Some i \<Rightarrow>
        (case raised i of None \<Rightarrow> None | Some en \<Rightarrow>
           if ra_file en \<noteq> [] \<and> fd_file (raw_finding f) \<noteq> [] \<and> ra_file en \<noteq> fd_file (raw_finding f) then None else Some en))"

definition effective_category :: "(string \<rightharpoonup> raised_entry) \<Rightarrow> jsval \<Rightarrow> category" where
  "effective_category raised f =
     (case stated_category f of Some c \<Rightarrow> c
      | None \<Rightarrow> (case upgrades raised f of Some en \<Rightarrow> ra_category en | None \<Rightarrow> Correctness))"

text \<open>The rule a finding has to meet to block.\<close>

definition demonstrated_blocker :: "int \<Rightarrow> (string \<rightharpoonup> raised_entry) \<Rightarrow> jsval \<Rightarrow> bool" where
  "demonstrated_blocker cycle raised f \<longleftrightarrow> lower (text_of (js_get f ''severity'')) = ''blocking''
     \<and> evidence_text f \<noteq> [] \<and> effective_category raised f \<noteq> UnrequestedMechanism
     \<and> (cycle \<le> 0 \<or> introduced_by_fix f \<or> upgrades raised f \<noteq> None)"

lemma claim_raised_upgrade: "snd (claim_raised raised (stated_category f) (raw_finding f)) \<longleftrightarrow> upgrades raised f \<noteq> None"
  by (auto simp: claim_raised_def upgrades_def split: option.splits if_splits)

lemma claim_raised_category:
  "category_of (fd_category (fst (claim_raised raised (stated_category f) (raw_finding f)))) = effective_category raised f"
  by (auto simp: claim_raised_def upgrades_def effective_category_def category_of_def raw_finding_def Let_def
      split: option.splits if_splits)

lemma claim_raised_frame [simp]:
  "fd_severity (fst (claim_raised raised c out)) = fd_severity out"
  "fd_evidence (fst (claim_raised raised c out)) = fd_evidence out"
  "fd_introduced (fst (claim_raised raised c out)) = fd_introduced out"
  "fd_blocking (fst (claim_raised raised c out)) = fd_blocking out"
  "fd_origin (fst (claim_raised raised c out)) = fd_origin out"
  by (auto simp: claim_raised_def split: option.splits)

lemma raw_finding_simps [simp]:
  "fd_evidence (raw_finding f) = evidence_text f" "fd_introduced (raw_finding f) = introduced_by_fix f"
  "\<not> fd_blocking (raw_finding f)" "fd_origin (raw_finding f) = Fresh"
  "fd_severity (raw_finding f) = ''blocking'' \<longleftrightarrow> lower (text_of (js_get f ''severity'')) = ''blocking''"
  by (auto simp: raw_finding_def Let_def)

lemma blocks_iff: "fd_blocking (normalize_finding f cycle raised) \<longleftrightarrow> demonstrated_blocker cycle raised f"
proof -
  obtain out up where c: "claim_raised raised (stated_category f) (raw_finding f) = (out, up)"
    by (cases "claim_raised raised (stated_category f) (raw_finding f)")
  have "fd_severity out = ''blocking'' \<longleftrightarrow> lower (text_of (js_get f ''severity'')) = ''blocking''"
    "fd_evidence out = evidence_text f" "fd_introduced out = introduced_by_fix f" "\<not> fd_blocking out"
    using claim_raised_frame [of raised "stated_category f" "raw_finding f"] by (simp_all add: c)
  moreover have "up \<longleftrightarrow> upgrades raised f \<noteq> None" "category_of (fd_category out) = effective_category raised f"
    using claim_raised_upgrade [of raised f] claim_raised_category [of raised f] by (simp_all add: c)
  ultimately show ?thesis
    by (auto simp: normalize_finding_def demonstrated_blocker_def is_unrequested_mechanism_def blocking_severity_def c)
qed

lemma read_candidates_Some:
  "read_candidates prior cycle raised cs = v \<Longrightarrow> v_passed v \<Longrightarrow>
   \<exists>obj. Some obj \<in> set cs \<and> read_verdict prior cycle raised obj = Some v"
  by (induction cs) (auto simp: unreadable_verdict_def Let_def split: option.splits)

text \<open>The category an answer leaves a prior finding with.\<close>

definition answered_category :: "prior_answer \<Rightarrow> finding \<Rightarrow> category" where
  "answered_category a p = (case an_category a of Some c \<Rightarrow> c | None \<Rightarrow> category_of (fd_category p))"

lemma carry_answered:
  "answers (finding_id p) = Some a \<Longrightarrow> fd_status (carry answers p) = (if an_cleared a then Resolved else Open)
    \<and> fd_blocking (carry answers p) = (answered_category a p \<noteq> UnrequestedMechanism)"
  by (simp add: carry_def answered_category_def Let_def split: option.splits)

definition settles_prior :: "jsval \<Rightarrow> finding list \<Rightarrow> bool" where
  "settles_prior obj prior \<longleftrightarrow> list_all (\<lambda>p.
     case read_prior_answers obj (map finding_id prior) (finding_id p) of
       None \<Rightarrow> False
     | Some a \<Rightarrow> an_cleared a \<or> answered_category a p = UnrequestedMechanism) prior"

definition raises_no_blocker :: "jsval \<Rightarrow> int \<Rightarrow> (string \<rightharpoonup> raised_entry) \<Rightarrow> finding list \<Rightarrow> bool" where
  "raises_no_blocker obj cycle raised prior \<longleftrightarrow>
     (case findings_list obj of None \<Rightarrow> True | Some rs \<Rightarrow> list_all (\<lambda>f. \<not> malformed f
        \<and> (demonstrated_blocker cycle raised f \<longrightarrow>
             (\<exists>p\<in>set prior. fd_id (normalize_finding f cycle raised) = Some (finding_id p)))) rs)"

lemma passed_else: "v_passed (if b then x else y) \<Longrightarrow> \<not> v_passed x \<Longrightarrow> \<not> b \<and> v_passed y"
  by (simp split: if_splits)

lemma judge_passed:
  assumes "v_passed (judge prior cycle raised word raws answers)"
  shows "filter (\<lambda>p. answers (finding_id p) = None) prior = [] \<and> \<not> list_ex malformed (case raws of None \<Rightarrow> [] | Some vs \<Rightarrow> vs)
    \<and> judge prior cycle raised word raws answers = weigh word (map (carry answers) prior)
        (filter (\<lambda>p. fd_status p = Open) (map (carry answers) prior)
         @ fresh_findings prior cycle raised (case raws of None \<Rightarrow> [] | Some vs \<Rightarrow> vs))"
proof -
  note readable = passed_else [OF assms [unfolded judge_def Let_def], unfolded verdict.select_convs, OF not_False_eq_True [THEN iffD2, OF TrueI]]
  note answered = passed_else [OF readable [THEN conjunct2], unfolded verdict.select_convs, OF not_False_eq_True [THEN iffD2, OF TrueI]]
  show ?thesis
    unfolding judge_def Let_def if_not_P [OF readable [THEN conjunct1]] if_not_P [OF answered [THEN conjunct1]]
    using readable [THEN conjunct1] answered [THEN conjunct1] by blast
qed

lemma read_verdict_passed:
  assumes "read_verdict prior cycle raised obj = Some v" and "v_passed v"
  shows "v_ok v \<and> settles_prior obj prior \<and> raises_no_blocker obj cycle raised prior \<and> filter fd_blocking (v_findings v) = []"
proof -
  let ?as = "read_prior_answers obj (map finding_id prior)"
  let ?rs = "case findings_list obj of None \<Rightarrow> [] | Some vs \<Rightarrow> vs"
  let ?open = "filter (\<lambda>p. fd_status p = Open) (map (carry ?as) prior)"
  let ?fs = "?open @ fresh_findings prior cycle raised ?rs"
  have v: "v = judge prior cycle raised (verdict_word obj) (findings_list obj) ?as"
    using assms by (simp add: read_verdict_def unreadable_verdict_def Let_def split: if_splits) auto
  note passed = assms(2) [unfolded v]
  have un: "filter (\<lambda>p. ?as (finding_id p) = None) prior = []" and wf: "\<not> list_ex malformed ?rs"
    and w: "v = weigh (verdict_word obj) (map (carry ?as) prior) ?fs"
    using judge_passed [OF passed] unfolding v by simp_all
  have nb: "filter fd_blocking ?fs = []" and ok: "v_ok v" and fs: "v_findings v = ?fs"
    using assms(2) unfolding w by (simp_all add: weigh_def Let_def)
  have "settles_prior obj prior"
    unfolding settles_prior_def list_all_iff
  proof
    fix p assume p: "p \<in> set prior"
    with un obtain a where a: "?as (finding_id p) = Some a"
      by (auto simp: filter_empty_conv)
    from nb p have "fd_status (carry ?as p) = Open \<Longrightarrow> \<not> fd_blocking (carry ?as p)"
      by (auto simp: filter_empty_conv)
    with carry_answered [of ?as p, OF a] a
    show "case ?as (finding_id p) of None \<Rightarrow> False | Some a \<Rightarrow> an_cleared a \<or> answered_category a p = UnrequestedMechanism"
      by (auto split: if_splits)
  qed
  moreover have "raises_no_blocker obj cycle raised prior"
    using wf nb by (auto simp: raises_no_blocker_def list_all_iff list_ex_iff fresh_findings_def filter_empty_conv
        blocks_iff [symmetric] split: option.splits)
  ultimately show ?thesis using ok fs nb by simp
qed

text \<open>
  C24. A review passes only on a verdict that was read and settled everything. When the gate
  reads a report as a pass, some decoded object of the report answers every finding still open
  from earlier cycles, clearing it or saying the item never asked for it; every entry of its findings
  list is well formed; none of them is a demonstrated blocker (rated blocking, with evidence, not
  against unrequested mechanism and, on a fix cycle, introduced by the fix or raised before) unless it
  restates a finding the review answered; and nothing in the verdict blocks.
\<close>

theorem pass_settles_everything:
  assumes "v_passed (parse_review_verdict prior cycle raised candidates)"
  shows "\<exists>obj. Some obj \<in> set candidates \<and> settles_prior obj prior \<and> raises_no_blocker obj cycle raised prior
    \<and> v_ok (parse_review_verdict prior cycle raised candidates)
    \<and> list_all (\<lambda>f. \<not> fd_blocking f) (v_findings (parse_review_verdict prior cycle raised candidates))"
proof -
  let ?v = "parse_review_verdict prior cycle raised candidates"
  obtain obj where "Some obj \<in> set candidates" and "read_verdict prior cycle raised obj = Some ?v"
    using read_candidates_Some [of prior cycle raised "rev candidates" ?v] assms
    by (auto simp: parse_review_verdict_def)
  with read_verdict_passed assms show ?thesis
    by (fastforce simp: list_all_iff filter_empty_conv)
qed

definition open_finding :: finding where
  "open_finding = \<lparr>fd_id = Some ''F1'', fd_severity = ''blocking'', fd_category = Some Correctness, fd_file = ''a.js'',
     fd_summary = ''loses a row'', fd_evidence = ''npm test'', fd_introduced = False, fd_origin = FromPrior, fd_status = Open,
     fd_blocking = True, fd_note = [], fd_restated = None, fd_opened = Some 0, fd_answered = True, fd_rows = [],
     fd_rows_cycle = None, fd_earlier = [], fd_earlier_cycle = None\<rparr>"

definition clearing_report :: jsval where
  "clearing_report = JObj [(''verdict'', JStr ''pass''),
     (''prior'', JArr [JObj [(''id'', JStr ''F1''), (''status'', JStr ''resolved'')]]),
     (''findings'', JArr [JObj [(''severity'', JStr ''minor''), (''summary'', JStr ''naming'')]])]"

theorem pass_settles_everything_witness:
  "v_passed (parse_review_verdict [open_finding] 1 Map.empty [None, Some clearing_report])
   \<and> settles_prior clearing_report [open_finding]
   \<and> \<not> v_passed (parse_review_verdict [open_finding] 1 Map.empty [Some (JObj [(''verdict'', JStr ''pass'')])])"
proof -
  have p: "v_passed (parse_review_verdict [open_finding] 1 Map.empty [None, Some clearing_report])" by code_simp
  from pass_settles_everything [OF p] have "settles_prior clearing_report [open_finding]" by auto
  moreover have "\<not> v_passed (parse_review_verdict [open_finding] 1 Map.empty [Some (JObj [(''verdict'', JStr ''pass'')])])"
    by code_simp
  ultimately show ?thesis using p by blast
qed

end
