(* ===== verification/ReviewLedger.thy ===== *)
theory ReviewLedger
  imports Review
begin

text \<open>
  The review gate's finding ledger, \<^verbatim>\<open>src/lib/kernel/gates.js\<close> (\<open>applyReviewToLedger\<close>,
  \<open>openPriorFindings\<close>, \<open>raisedUndemonstrated\<close>, \<open>withLedgerIds\<close>, \<open>rollbackCycle\<close>): the fold of each verdict
  into the record of every finding a gate's cycles raised, and its undo.

  The source mutates copies of the entries in place, through a map from id to entry in which a
  later entry of the same id wins; here that is an update of the last entry of the id.
\<close>

subsection \<open>Entries\<close>

record snap =
  sn_status :: finding_status
  sn_blocking :: bool
  sn_evidence :: string
  sn_category :: "category option"
  sn_note :: remarks
  sn_rows :: "string list"
  sn_rows_cycle :: "int option"
  sn_earlier :: "string list"
  sn_earlier_cycle :: "int option"
  sn_closed :: "int option"
  sn_demonstrated :: "int option"
  sn_answered :: "int option"

datatype snapshot = Snapshot (snap_cycle: int) (snap_was: snap) (snap_older: "snapshot option")

record ledger_entry =
  le_id :: string
  le_severity :: string
  le_category :: "category option"
  le_file :: string
  le_summary :: string
  le_evidence :: string
  le_introduced :: bool
  le_blocking :: bool
  le_status :: finding_status
  le_note :: remarks
  le_opened :: int
  le_closed :: "int option"
  le_answered :: "int option"
  le_demonstrated :: "int option"
  le_restated :: "string option"
  le_rows :: "string list"
  le_rows_cycle :: "int option"
  le_earlier :: "string list"
  le_earlier_cycle :: "int option"
  le_prev :: "snapshot option"

definition entry_unrequested :: "ledger_entry \<Rightarrow> bool" where
  "entry_unrequested e \<longleftrightarrow> category_of (le_category e) = UnrequestedMechanism"

subsection \<open>What the next review is asked\<close>

definition as_prior :: "ledger_entry \<Rightarrow> finding" where
  "as_prior e = \<lparr>fd_id = Some (le_id e), fd_severity = le_severity e, fd_category = Some (category_of (le_category e)),
     fd_file = le_file e, fd_summary = le_summary e, fd_evidence = le_evidence e, fd_introduced = False,
     fd_origin = FromPrior, fd_status = Open, fd_blocking = True, fd_note = [], fd_restated = None,
     fd_opened = Some (le_opened e), fd_answered = True,
     fd_rows = clean_rows (le_rows e), fd_rows_cycle = le_rows_cycle e,
     fd_earlier = clean_rows (le_earlier e), fd_earlier_cycle = le_earlier_cycle e\<rparr>"

definition open_prior_findings :: "ledger_entry list \<Rightarrow> finding list" where
  "open_prior_findings L = map as_prior (filter (\<lambda>e. le_blocking e \<and> le_status e = Open) L)"

definition upgradable_entry :: "ledger_entry \<Rightarrow> bool" where
  "upgradable_entry e \<longleftrightarrow> le_status e = Advisory \<and> \<not> entry_unrequested e"

definition raised_undemonstrated :: "ledger_entry list \<Rightarrow> (string \<times> raised_entry) list" where
  "raised_undemonstrated L =
     map (\<lambda>e. (le_id e, \<lparr>ra_file = trim (le_file e), ra_summary = trim (le_summary e), ra_category = category_of (le_category e)\<rparr>))
       (filter (\<lambda>e. upgradable_entry e \<and> blocking_severity (lower (le_severity e)) \<and> le_evidence e = []) L)"

text \<open>The map \<open>parseReviewVerdict\<close> builds from that list: the last entry of an id wins.\<close>

definition raised_by_id :: "(string \<times> raised_entry) list \<Rightarrow> string \<rightharpoonup> raised_entry" where
  "raised_by_id rs = map_of (rev (map (\<lambda>(i, r). (trim i, r)) (filter (\<lambda>(i, r). trim i \<noteq> []) rs)))"

definition advisory_ids :: "ledger_entry list \<Rightarrow> string set" where
  "advisory_ids L = le_id ` set (filter upgradable_entry L)"

definition keeps_reviewer_id :: "string set \<Rightarrow> finding \<Rightarrow> bool" where
  "keeps_reviewer_id adv f \<longleftrightarrow> fd_origin f = FromPrior
     \<or> (case fd_id f of None \<Rightarrow> False | Some i \<Rightarrow> i \<noteq> [] \<and> i \<in> adv)"

subsection \<open>The fold\<close>

definition snap_of :: "ledger_entry \<Rightarrow> snap" where
  "snap_of e = \<lparr>sn_status = le_status e, sn_blocking = le_blocking e, sn_evidence = le_evidence e,
     sn_category = le_category e, sn_note = le_note e, sn_rows = clean_rows (le_rows e), sn_rows_cycle = le_rows_cycle e,
     sn_earlier = clean_rows (le_earlier e), sn_earlier_cycle = le_earlier_cycle e,
     sn_closed = le_closed e, sn_demonstrated = le_demonstrated e, sn_answered = le_answered e\<rparr>"

definition snapshot_before :: "int \<Rightarrow> ledger_entry \<Rightarrow> ledger_entry" where
  "snapshot_before cycle e =
     (if (case le_prev e of Some p \<Rightarrow> snap_cycle p = cycle | None \<Rightarrow> False) then e
      else e\<lparr>le_prev := Some (Snapshot cycle (snap_of e) (le_prev e))\<rparr>)"

definition update_id :: "string \<Rightarrow> (ledger_entry \<Rightarrow> ledger_entry) \<Rightarrow> ledger_entry list \<Rightarrow> ledger_entry list" where
  "update_id i f L = rev (update_first (\<lambda>e. le_id e = i) f (rev L))"

text \<open>A prior finding's answer, written over its entry: status, note, category, release, rows.\<close>

definition take_rows :: "string list \<Rightarrow> int \<Rightarrow> ledger_entry \<Rightarrow> ledger_entry" where
  "take_rows raw cycle e =
     (let rows = clean_rows raw; had = clean_rows (le_rows e) in
      if le_status e = Resolved
      then e\<lparr>le_rows := [], le_rows_cycle := None, le_earlier := [], le_earlier_cycle := None\<rparr>
      else if rows \<noteq> [] then e\<lparr>le_rows := rows, le_rows_cycle := Some cycle, le_earlier := [], le_earlier_cycle := None\<rparr>
      else if had \<noteq> [] then e\<lparr>le_earlier := had, le_earlier_cycle := le_rows_cycle e, le_rows := [], le_rows_cycle := None\<rparr>
      else e)"

definition take_answer :: "finding \<Rightarrow> int \<Rightarrow> ledger_entry \<Rightarrow> ledger_entry" where
  "take_answer p cycle e =
     (let e1 = (if fd_status p = Resolved \<and> le_status e = Open then e\<lparr>le_status := Resolved, le_closed := Some cycle\<rparr> else e);
          e2 = e1\<lparr>le_note := (if fd_note p \<noteq> [] then fd_note p else le_note e1), le_answered := Some cycle,
                  le_category := (if fd_category p \<noteq> None then fd_category p else le_category e1)\<rparr>;
          e3 = (if le_status e2 = Open \<and> entry_unrequested e2
                then e2\<lparr>le_status := Advisory, le_blocking := False, le_note := le_note e2 @ [NReclassified cycle]\<rparr> else e2)
      in take_rows (fd_rows p) cycle e3)"

definition fold_prior :: "int \<Rightarrow> ledger_entry list \<Rightarrow> finding \<Rightarrow> ledger_entry list" where
  "fold_prior cycle out p =
     (if \<not> fd_answered p then out
      else case fd_id p of None \<Rightarrow> out
        | Some i \<Rightarrow> update_id i (\<lambda>e. take_answer p cycle (snapshot_before cycle e)) out)"

text \<open>An upgrade of an advisory entry by a fresh finding that names it.\<close>

definition upgrade_entry :: "finding \<Rightarrow> int \<Rightarrow> ledger_entry \<Rightarrow> ledger_entry" where
  "upgrade_entry f cycle e =
     (let e1 = (if fd_evidence f \<noteq> [] then e\<lparr>le_evidence := fd_evidence f\<rparr> else e);
          e2 = (if fd_blocking f then e1\<lparr>le_blocking := True, le_status := Open, le_demonstrated := Some cycle\<rparr> else e1);
          e3 = (case fd_restated f of Some t \<Rightarrow> (if t \<noteq> [] then e2\<lparr>le_restated := Some t\<rparr> else e2) | None \<Rightarrow> e2)
      in e3\<lparr>le_category := (if fd_category f \<noteq> None then fd_category f else le_category e3),
            le_note := (if fd_note f \<noteq> [] then fd_note f else le_note e3)\<rparr>)"

definition ledger_id :: "nat \<Rightarrow> string" where
  "ledger_id n = ''F'' @ nat_string n"

definition mint :: "int \<Rightarrow> ledger_entry list \<Rightarrow> finding \<Rightarrow> ledger_entry" where
  "mint cycle out f =
     (let i = ledger_id (length out + 1);
          reused = (case fd_id f of Some j \<Rightarrow> j \<noteq> [] \<and> j \<in> le_id ` set out | None \<Rightarrow> False) in
      \<lparr>le_id = i, le_severity = fd_severity f, le_category = Some (category_of (fd_category f)), le_file = fd_file f,
       le_summary = fd_summary f, le_evidence = fd_evidence f, le_introduced = fd_introduced f, le_blocking = fd_blocking f,
       le_status = (if fd_blocking f then Open else Advisory),
       le_note = fd_note f @ (if reused then [NReusedId (finding_id f) i] else []),
       le_opened = cycle, le_closed = None, le_answered = None, le_demonstrated = None, le_restated = None,
       le_rows = [], le_rows_cycle = None, le_earlier = [], le_earlier_cycle = None, le_prev = None\<rparr>)"

definition fold_fresh :: "int \<Rightarrow> string set \<Rightarrow> ledger_entry list \<Rightarrow> finding \<Rightarrow> ledger_entry list" where
  "fold_fresh cycle adv out f =
     (if fd_origin f = FromPrior then out
      else if keeps_reviewer_id adv f
      then update_id (finding_id f) (\<lambda>e. upgrade_entry f cycle (snapshot_before cycle e)) out
      else out @ [mint cycle out f])"

definition apply_review_to_ledger :: "ledger_entry list \<Rightarrow> verdict \<Rightarrow> int \<Rightarrow> ledger_entry list" where
  "apply_review_to_ledger L v cycle =
     foldl (fold_fresh cycle (advisory_ids L)) (foldl (fold_prior cycle) L (v_prior v)) (v_findings v)"

text \<open>\<open>withLedgerIds\<close>: the findings handed to the fixer, under the ids the fold minted.\<close>

fun name_findings :: "string set \<Rightarrow> ledger_entry list \<Rightarrow> finding list \<Rightarrow> finding list" where
  "name_findings adv minted [] = []"
| "name_findings adv minted (f # fs) =
     (if keeps_reviewer_id adv f then f # name_findings adv minted fs
      else case minted of
        [] \<Rightarrow> f # name_findings adv [] fs
      | e # es \<Rightarrow> f\<lparr>fd_id := Some (le_id e)\<rparr> # name_findings adv es fs)"

definition with_ledger_ids :: "finding list \<Rightarrow> ledger_entry list \<Rightarrow> ledger_entry list \<Rightarrow> finding list" where
  "with_ledger_ids fs L before = name_findings (advisory_ids before) (drop (length before) L) fs"

subsection \<open>The undo\<close>

definition restore :: "snapshot \<Rightarrow> ledger_entry \<Rightarrow> ledger_entry" where
  "restore s e = (let w = snap_was s in
     e\<lparr>le_status := sn_status w, le_blocking := sn_blocking w, le_evidence := sn_evidence w, le_category := sn_category w,
       le_note := sn_note w, le_rows := sn_rows w, le_rows_cycle := sn_rows_cycle w, le_earlier := sn_earlier w,
       le_earlier_cycle := sn_earlier_cycle w, le_closed := sn_closed w, le_demonstrated := sn_demonstrated w,
       le_answered := sn_answered w, le_prev := snap_older s\<rparr>)"

definition undo_fields :: "int \<Rightarrow> ledger_entry \<Rightarrow> ledger_entry" where
  "undo_fields cycle e =
     (let e1 = (if le_closed e = Some cycle then e\<lparr>le_status := Open, le_closed := None\<rparr> else e);
          e2 = (if le_demonstrated e1 = Some cycle
                then e1\<lparr>le_status := Advisory, le_blocking := False, le_demonstrated := None, le_evidence := []\<rparr> else e1)
      in if le_answered e2 = Some cycle then e2\<lparr>le_answered := None\<rparr> else e2)"

definition rollback_entry :: "int \<Rightarrow> ledger_entry \<Rightarrow> ledger_entry" where
  "rollback_entry cycle e =
     (case le_prev e of
        Some s \<Rightarrow> if snap_cycle s = cycle then restore s e else undo_fields cycle e
      | None \<Rightarrow> undo_fields cycle e)"

definition rollback_cycle :: "ledger_entry list \<Rightarrow> int \<Rightarrow> ledger_entry list" where
  "rollback_cycle L cycle = map (rollback_entry cycle) (filter (\<lambda>e. le_opened e \<noteq> cycle) L)"

end
