(* ===== verification/ReviewLedgerProps.thy ===== *)
theory ReviewLedgerProps
  imports ReviewLedger
begin

text \<open>
  Properties of the finding ledger: a cycle's fold can be undone, ids are never reused, no
  blocking finding is dropped, and the fixer is told the ids the next review will ask about.
\<close>

subsection \<open>Cleaning rows is idempotent\<close>

fun single_spaced :: "bool \<Rightarrow> string \<Rightarrow> bool" where
  "single_spaced inside [] = True"
| "single_spaced inside (c # cs) = (if is_ws c then c = CHR '' '' \<and> \<not> inside \<and> single_spaced True cs else single_spaced False cs)"

lemma single_spaced_weaken: "single_spaced b s \<Longrightarrow> single_spaced False s"
  by (cases s) (auto split: if_splits)

lemma single_spaced_squeeze: "single_spaced b (squeeze is_ws (CHR '' '') b s)"
proof (induction s arbitrary: b)
  case (Cons c s)
  have "is_ws (CHR '' '')" by (simp add: is_ws_def ws_chars_def)
  with Cons show ?case by simp
qed simp

lemma squeeze_single_spaced: "single_spaced b s \<Longrightarrow> squeeze is_ws (CHR '' '') b s = s"
  by (induction s arbitrary: b) (auto split: if_splits)

lemma single_spaced_append: "single_spaced b (s @ t) \<Longrightarrow> single_spaced b s \<and> single_spaced False t"
  by (induction s arbitrary: b) (auto split: if_splits dest: single_spaced_weaken)

lemma single_spaced_snoc: "single_spaced b s \<Longrightarrow> \<not> is_ws c \<Longrightarrow> single_spaced b (s @ [c])"
  by (induction s arbitrary: b) (auto split: if_splits)

lemma trim_infix: "\<exists>a b. s = a @ trim s @ b"
proof -
  let ?p = "\<lambda>c. c \<in> set ws_chars"
  have "s = takeWhile ?p s @ dropWhile ?p s" by simp
  moreover have "dropWhile ?p s = rev (dropWhile ?p (rev (dropWhile ?p s))) @ rev (takeWhile ?p (rev (dropWhile ?p s)))"
    by (metis rev_append rev_rev_ident takeWhile_dropWhile_id)
  ultimately show ?thesis unfolding trim_def by (metis append.assoc)
qed

lemma single_spaced_trim: "single_spaced b s \<Longrightarrow> single_spaced False (trim s)"
  using trim_infix [of s] by (metis single_spaced_append)

lemma trim_fixed: "trim s = s \<longleftrightarrow> s = [] \<or> (\<not> is_ws (hd s) \<and> \<not> is_ws (last s))"
proof (cases s)
  case Nil then show ?thesis by (simp add: trim_def)
next
  case (Cons c cs)
  show ?thesis
  proof
    assume t: "trim s = s"
    have h: "\<not> is_ws (hd s)"
    proof (rule ccontr)
      assume "\<not> \<not> is_ws (hd s)"
      then have "length (dropWhile (\<lambda>c. c \<in> set ws_chars) s) \<le> length cs"
        using Cons by (simp add: is_ws_def length_dropWhile_le)
      moreover have "length (trim s) \<le> length (dropWhile (\<lambda>c. c \<in> set ws_chars) s)"
        unfolding trim_def by (metis length_dropWhile_le length_rev)
      ultimately show False using t Cons by simp
    qed
    then have d: "dropWhile (\<lambda>c. c \<in> set ws_chars) s = s" using Cons by (simp add: is_ws_def)
    have "dropWhile (\<lambda>c. c \<in> set ws_chars) (rev s) = rev s"
      using t d unfolding trim_def by (metis rev_rev_ident)
    then have "\<not> is_ws (last s)"
      using Cons by (metis dropWhile_eq_self_iff hd_rev is_ws_def list.distinct(1) rev_is_Nil_conv)
    with h show "s = [] \<or> (\<not> is_ws (hd s) \<and> \<not> is_ws (last s))" by simp
  next
    assume "s = [] \<or> (\<not> is_ws (hd s) \<and> \<not> is_ws (last s))"
    then have "\<not> is_ws (hd s)" "\<not> is_ws (hd (rev s))" using Cons by (simp_all only: hd_rev) auto
    then have "dropWhile (\<lambda>c. c \<in> set ws_chars) s = s" "dropWhile (\<lambda>c. c \<in> set ws_chars) (rev s) = rev s"
      by (auto simp: dropWhile_eq_self_iff is_ws_def)
    then show "trim s = s" by (simp add: trim_def)
  qed
qed

lemma clean_row_normal:
  "single_spaced False (clean_row r) \<and> trim (clean_row r) = clean_row r \<and> length (clean_row r) \<le> row_line_cap"
proof -
  define t where "t = trim (squeeze is_ws (CHR '' '') False r)"
  have t: "single_spaced False t" "trim t = t"
    unfolding t_def using single_spaced_trim [OF single_spaced_squeeze [of False r]] by simp_all
  show ?thesis
  proof (cases "length t > row_line_cap")
    case False
    then have "clean_row r = t" by (simp add: clean_row_def t_def Let_def)
    with t False show ?thesis by simp
  next
    case True
    define u where "u = take (row_line_cap - 1) t @ [ellipsis]"
    have c: "clean_row r = u" using True by (simp add: clean_row_def t_def u_def Let_def)
    have e: "\<not> is_ws ellipsis" by (simp add: is_ws_def ellipsis_def ws_chars_def)
    have "single_spaced False u"
      unfolding u_def using t(1) e by (metis append_take_drop_id single_spaced_append single_spaced_snoc)
    moreover have "t \<noteq> []" "row_line_cap > 1" using True by (auto simp: row_line_cap_def)
    then have "hd u = hd t" "u \<noteq> []" "last u = ellipsis" by (auto simp: u_def hd_append row_line_cap_def)
    then have "trim u = u" using t(2) trim_fixed [of t] trim_fixed [of u] e \<open>t \<noteq> []\<close> by auto
    moreover have "length u = row_line_cap" using True by (simp add: u_def row_line_cap_def)
    ultimately show ?thesis using c by simp
  qed
qed

lemma clean_row_idem [simp]: "clean_row (clean_row r) = clean_row r"
  using clean_row_normal [of r] by (simp add: clean_row_def [of "clean_row r"] Let_def squeeze_single_spaced)

lemma trim_Nil: "trim s = [] \<longleftrightarrow> list_all is_ws s"
proof
  assume t: "trim s = []"
  show "list_all is_ws s"
  proof (rule ccontr)
    let ?d = "dropWhile (\<lambda>c. c \<in> set ws_chars) s"
    assume "\<not> list_all is_ws s"
    then have "?d \<noteq> []" by (auto simp: dropWhile_eq_Nil_conv list_all_iff is_ws_def)
    moreover from this have "hd ?d \<notin> set ws_chars" using hd_dropWhile by blast
    ultimately have "\<exists>c\<in>set (rev ?d). c \<notin> set ws_chars" by (metis hd_in_set set_rev)
    moreover from t have "dropWhile (\<lambda>c. c \<in> set ws_chars) (rev ?d) = []" by (simp only: trim_def rev_is_Nil_conv)
    ultimately show False unfolding dropWhile_eq_Nil_conv by blast
  qed
qed (auto simp: trim_def list_all_iff is_ws_def dest!: set_dropWhileD)

lemma squeeze_all_ws: "list_all is_ws (squeeze is_ws c b s) \<Longrightarrow> list_all is_ws s"
  by (induction s arbitrary: b) (auto split: if_splits)

lemma clean_row_nonempty: "trim r \<noteq> [] \<Longrightarrow> trim (clean_row r) \<noteq> []"
  using clean_row_normal [of r] squeeze_all_ws [of "CHR '' ''" False r]
  by (auto simp: clean_row_def Let_def trim_Nil [of r] trim_Nil [of "squeeze is_ws (CHR '' '') False r"])

lemma clean_rows_idem [simp]: "clean_rows (clean_rows rs) = clean_rows rs"
proof -
  have "\<forall>r\<in>set (clean_rows rs). trim r \<noteq> [] \<and> clean_row r = r"
    by (auto simp: clean_rows_def dest!: in_set_takeD simp: clean_row_nonempty)
  then have "filter (\<lambda>r. trim r \<noteq> []) (clean_rows rs) = clean_rows rs" "map clean_row (clean_rows rs) = clean_rows rs"
    by (auto simp: filter_id_conv map_idI)
  moreover have "take row_cap (clean_rows rs) = clean_rows rs" by (simp add: clean_rows_def)
  ultimately show ?thesis by (simp add: clean_rows_def [of "clean_rows rs"])
qed

subsection \<open>Updating one entry\<close>

lemma mint_simps [simp]:
  "le_opened (mint c out f) = c" "le_id (mint c out f) = ledger_id (length out + 1)" "le_summary (mint c out f) = fd_summary f"
  "le_file (mint c out f) = fd_file f" "le_blocking (mint c out f) = fd_blocking f"
  "le_status (mint c out f) = (if fd_blocking f then Open else Advisory)" "le_evidence (mint c out f) = fd_evidence f"
  by (simp_all add: mint_def Let_def)

lemma list_all2_update_first:
  "list_all2 R xs ys \<Longrightarrow> (\<And>x y. R x y \<Longrightarrow> R x (f y)) \<Longrightarrow> list_all2 R xs (update_first p f ys)"
  by (induction xs ys rule: list_all2_induct) auto

lemma length_update_id [simp]: "length (update_id i f L) = length L"
  by (simp add: update_id_def)

lemma map_update_id: "(\<And>e. g (f e) = g e) \<Longrightarrow> map g (update_id i f L) = map g L"
  by (simp add: update_id_def rev_map [symmetric] map_update_first_frame)

lemma list_all2_update_id:
  "list_all2 R xs L \<Longrightarrow> (\<And>x y. R x y \<Longrightarrow> R x (f y)) \<Longrightarrow> list_all2 R xs (update_id i f L)"
  unfolding update_id_def by (subst list_all2_rev1 [symmetric]) (rule list_all2_update_first, simp_all)

lemma set_update_id: "e \<in> set L \<Longrightarrow> \<exists>e'\<in>set (update_id i f L). e' = e \<or> (le_id e = i \<and> e' = f e)"
proof -
  have "e \<in> set xs \<Longrightarrow> \<exists>e'\<in>set (update_first (\<lambda>e. le_id e = i) f xs). e' = e \<or> (le_id e = i \<and> e' = f e)" for xs
    by (induction xs) auto
  from this [of "rev L"] show "e \<in> set L \<Longrightarrow> ?thesis" by (simp add: update_id_def)
qed

lemma update_id_hits: "i \<in> le_id ` set L \<Longrightarrow> \<exists>e\<in>set L. le_id e = i \<and> f e \<in> set (update_id i f L)"
proof -
  have "i \<in> le_id ` set xs \<Longrightarrow> \<exists>e\<in>set xs. le_id e = i \<and> f e \<in> set (update_first (\<lambda>e. le_id e = i) f xs)" for xs
    by (induction xs) auto
  from this [of "rev L"] show "i \<in> le_id ` set L \<Longrightarrow> ?thesis" by (simp add: update_id_def)
qed

text \<open>What no fold changes: an entry's identity, the cycle it was opened in, its snapshot.\<close>

definition identity :: "ledger_entry \<Rightarrow> string \<times> string \<times> string \<times> string \<times> bool \<times> int" where
  "identity e = (le_id e, le_severity e, le_file e, le_summary e, le_introduced e, le_opened e)"

lemma identity_frames [simp]:
  "identity (take_answer p c e) = identity e" "identity (snapshot_before c e) = identity e" "identity (upgrade_entry f c e) = identity e"
  by (auto simp: identity_def take_answer_def take_rows_def snapshot_before_def upgrade_entry_def Let_def split: option.splits)

lemma prev_frames [simp]:
  "le_prev (take_answer p c e) = le_prev e" "le_prev (upgrade_entry f c e) = le_prev e"
  by (auto simp: take_answer_def take_rows_def upgrade_entry_def Let_def split: option.splits)

lemma id_frames [simp]:
  "le_id (take_answer p c e) = le_id e" "le_id (snapshot_before c e) = le_id e" "le_id (upgrade_entry f c e) = le_id e"
  "le_opened (take_answer p c e) = le_opened e" "le_opened (snapshot_before c e) = le_opened e" "le_opened (upgrade_entry f c e) = le_opened e"
  using identity_frames by (simp_all add: identity_def)

subsection \<open>A cycle's fold can be undone\<close>

text \<open>An entry no fold of \<open>cycle\<close> has touched, with its rows in the form the fold writes.\<close>

definition untouched :: "int \<Rightarrow> ledger_entry \<Rightarrow> bool" where
  "untouched cycle e \<longleftrightarrow> le_opened e \<noteq> cycle \<and> le_closed e \<noteq> Some cycle \<and> le_demonstrated e \<noteq> Some cycle
     \<and> le_answered e \<noteq> Some cycle \<and> (case le_prev e of Some s \<Rightarrow> snap_cycle s \<noteq> cycle | None \<Rightarrow> True)
     \<and> clean_rows (le_rows e) = le_rows e \<and> clean_rows (le_earlier e) = le_earlier e"

definition forget_restated :: "ledger_entry \<Rightarrow> ledger_entry" where
  "forget_restated e = e\<lparr>le_restated := None\<rparr>"

definition derived :: "int \<Rightarrow> ledger_entry \<Rightarrow> ledger_entry \<Rightarrow> bool" where
  "derived cycle e0 e \<longleftrightarrow> untouched cycle e0 \<and> identity e = identity e0
     \<and> (e = e0 \<or> le_prev e = Some (Snapshot cycle (snap_of e0) (le_prev e0)))"

lemma identity_prev [simp]: "identity (e\<lparr>le_prev := s\<rparr>) = identity e"
  by (simp add: identity_def)

lemma derived_touch:
  "derived c e0 e \<Longrightarrow> (\<And>x. identity (f x) = identity x) \<Longrightarrow> (\<And>x. le_prev (f x) = le_prev x) \<Longrightarrow> derived c e0 (f (snapshot_before c e))"
  by (auto simp: derived_def snapshot_before_def untouched_def split: option.splits)

lemma untouched_undo: "untouched c e \<Longrightarrow> undo_fields c e = e"
  by (simp add: untouched_def undo_fields_def Let_def)

lemma derived_rollback: "derived c e0 e \<Longrightarrow> forget_restated (rollback_entry c e) = forget_restated e0"
proof -
  assume d: "derived c e0 e"
  then have u: "untouched c e0" and i: "identity e = identity e0" by (auto simp: derived_def)
  consider "e = e0" | "le_prev e = Some (Snapshot c (snap_of e0) (le_prev e0))"
    using d by (auto simp: derived_def)
  then show ?thesis
  proof cases
    case 1
    then show ?thesis using u untouched_undo [OF u] by (auto simp: rollback_entry_def untouched_def split: option.splits)
  next
    case 2
    then show ?thesis using u i
      by (intro ledger_entry.equality) (simp_all add: rollback_entry_def restore_def forget_restated_def snap_of_def untouched_def identity_def Let_def)
  qed
qed

definition folded :: "int \<Rightarrow> ledger_entry list \<Rightarrow> ledger_entry list \<Rightarrow> bool" where
  "folded c L out \<longleftrightarrow> (\<exists>xs ys. out = xs @ ys \<and> list_all2 (derived c) L xs \<and> list_all (\<lambda>e. le_opened e = c) ys)"

lemma folded_update:
  assumes "folded c L out" and f: "\<And>x. identity (f x) = identity x" "\<And>x. le_prev (f x) = le_prev x"
  shows "folded c L (update_id i (\<lambda>e. f (snapshot_before c e)) out)"
proof -
  let ?R = "\<lambda>x y. case x of Some e0 \<Rightarrow> derived c e0 y | None \<Rightarrow> le_opened y = c"
  obtain xs ys where o: "out = xs @ ys" "list_all2 (derived c) L xs" "list_all (\<lambda>e. le_opened e = c) ys"
    using assms(1) by (auto simp: folded_def)
  have op: "le_opened (f x) = le_opened x" for x using f(1) [of x] by (simp add: identity_def)
  have "list_all2 ?R (map Some L @ replicate (length ys) None) out"
    unfolding o(1) using o(2,3) by (intro list_all2_appendI) (auto simp: list_all2_map1 list_all2_conv_all_nth list_all_length)
  then have "list_all2 ?R (map Some L @ replicate (length ys) None) (update_id i (\<lambda>e. f (snapshot_before c e)) out)"
    by (rule list_all2_update_id) (auto simp: op derived_touch f split: option.splits)
  then obtain us vs where "update_id i (\<lambda>e. f (snapshot_before c e)) out = us @ vs"
    "list_all2 ?R (map Some L) us" "list_all2 ?R (replicate (length ys) None) vs"
    by (auto simp: list_all2_append1)
  then show ?thesis unfolding folded_def
    by (intro exI [of _ us] exI [of _ vs]) (auto simp: list_all2_map1 list_all2_conv_all_nth list_all_length)
qed

lemma folded_prior: "folded c L out \<Longrightarrow> folded c L (fold_prior c out p)"
  by (auto simp: fold_prior_def intro!: folded_update split: option.splits)

lemma folded_fresh: "folded c L out \<Longrightarrow> folded c L (fold_fresh c adv out f)"
proof (cases "fd_origin f = FromPrior \<or> keeps_reviewer_id adv f")
  case True
  then show "folded c L out \<Longrightarrow> ?thesis" by (auto simp: fold_fresh_def folded_update)
next
  case False
  assume "folded c L out"
  then obtain xs ys where "out = xs @ ys" "list_all2 (derived c) L xs" "list_all (\<lambda>e. le_opened e = c) ys"
    by (auto simp: folded_def)
  with False show ?thesis unfolding folded_def
    by (intro exI [of _ xs] exI [of _ "ys @ [mint c out f]"]) (simp add: fold_fresh_def)
qed

lemma foldl_invariant: "I a \<Longrightarrow> (\<And>a x. I a \<Longrightarrow> I (f a x)) \<Longrightarrow> I (foldl f a xs)"
  by (induction xs arbitrary: a) auto

lemma folded_start: "list_all (untouched c) L \<Longrightarrow> folded c L L"
  unfolding folded_def
  by (intro exI [of _ L] exI [of _ "[]"]) (simp add: derived_def list_all2_conv_all_nth list_all_length)

lemma folded_apply: "list_all (untouched c) L \<Longrightarrow> folded c L (apply_review_to_ledger L v c)"
  unfolding apply_review_to_ledger_def
  by (intro foldl_invariant [where I = "folded c L"] folded_prior folded_fresh folded_start)

text \<open>
  C25. A review cycle can be undone. Rolling a cycle back after folding its verdict gives the
  ledger the fold started from, entry for entry (status, evidence, category, notes, rows and the earlier
  snapshots included), whatever the verdict answered, upgraded or raised; only a reviewer's restated wording
  of an upgraded finding stays behind. The ledger is one no fold of that cycle has touched.
\<close>

theorem rollback_undoes_the_review:
  assumes "list_all (untouched cycle) L"
  shows "map forget_restated (rollback_cycle (apply_review_to_ledger L v cycle) cycle) = map forget_restated L"
proof -
  obtain xs ys where o: "apply_review_to_ledger L v cycle = xs @ ys" "list_all2 (derived cycle) L xs"
    "list_all (\<lambda>e. le_opened e = cycle) ys"
    using folded_apply [OF assms, of v] by (auto simp: folded_def)
  have "filter (\<lambda>e. le_opened e \<noteq> cycle) ys = []" using o(3) by (simp add: list_all_iff)
  moreover have "\<forall>e\<in>set xs. le_opened e \<noteq> cycle"
    using o(2) by (fastforce simp: list_all2_conv_all_nth in_set_conv_nth derived_def untouched_def identity_def)
  then have "filter (\<lambda>e. le_opened e \<noteq> cycle) xs = xs" by (simp add: filter_id_conv)
  moreover have "map (forget_restated \<circ> rollback_entry cycle) xs = map forget_restated L"
    using o(2) by (auto simp: list_all2_conv_all_nth intro!: nth_equalityI derived_rollback)
  ultimately show ?thesis by (simp add: rollback_cycle_def o(1))
qed

subsection \<open>Ids are minted in order and never reused\<close>

lemma digit_value_char: "d < 10 \<Longrightarrow> digit_value (digit_char d) = d"
  by (simp add: digit_value_def digit_char_def)

lemma nat_of_digits_snoc: "nat_of_digits acc (cs @ [c]) = 10 * nat_of_digits acc cs + digit_value c"
  by (induction cs arbitrary: acc) auto

lemma nat_of_digits_string [simp]: "nat_of_digits 0 (nat_string n) = n"
  by (induction n rule: nat_string.induct) (subst nat_string.simps, simp add: nat_of_digits_snoc digit_value_char)

lemma ledger_id_inj [simp]: "ledger_id m = ledger_id n \<longleftrightarrow> m = n"
  by (metis append_Cons append_Nil ledger_id_def list.inject nat_of_digits_string)

definition numbered :: "ledger_entry list \<Rightarrow> bool" where
  "numbered L \<longleftrightarrow> map le_id L = map (\<lambda>n. ledger_id (n + 1)) [0..<length L]"

lemma numbered_distinct: "numbered L \<Longrightarrow> distinct (map le_id L)"
  by (simp add: numbered_def distinct_map inj_on_def)

lemma fold_prior_ids [simp]: "map le_id (fold_prior c out p) = map le_id out"
  by (auto simp: fold_prior_def map_update_id split: option.splits)

lemma fold_priors_ids [simp]: "map le_id (foldl (fold_prior c) out ps) = map le_id out"
  by (induction ps arbitrary: out) auto

lemma map_length_eq: "map f xs = map g ys \<Longrightarrow> length xs = length ys"
  by (metis length_map)

lemma fold_fresh_numbered:
  assumes "numbered out"
  shows "numbered (fold_fresh c adv out f) \<and> take (length out) (map le_id (fold_fresh c adv out f)) = map le_id out"
  using assms by (auto simp: fold_fresh_def numbered_def map_update_id)

lemma fold_freshs_numbered:
  "numbered out \<Longrightarrow> numbered (foldl (fold_fresh c adv) out fs)
    \<and> (\<exists>new. map le_id (foldl (fold_fresh c adv) out fs) = map le_id out @ new)"
proof (induction fs arbitrary: out)
  case (Cons f fs)
  have n: "numbered (fold_fresh c adv out f)" and t: "take (length out) (map le_id (fold_fresh c adv out f)) = map le_id out"
    using fold_fresh_numbered [OF Cons.prems] by auto
  obtain new where new: "map le_id (foldl (fold_fresh c adv) (fold_fresh c adv out f) fs) = map le_id (fold_fresh c adv out f) @ new"
    using Cons.IH [OF n] by blast
  have "map le_id (fold_fresh c adv out f) = map le_id out @ drop (length out) (map le_id (fold_fresh c adv out f))"
    using t by (metis append_take_drop_id)
  then have "map le_id (foldl (fold_fresh c adv) (fold_fresh c adv out f) fs)
      = map le_id out @ drop (length out) (map le_id (fold_fresh c adv out f)) @ new"
    using new by simp
  with Cons.IH [OF n] show ?case by auto
qed simp

text \<open>
  C26. A finding's ledger id names it for good. On a ledger numbered \<open>F1\<close>, \<open>F2\<close>, \dots in the order
  findings were first raised, folding any verdict keeps every entry's id at its place, gives the new
  entries the next numbers, and no two entries ever share an id, whatever ids the reviewer wrote.
\<close>

theorem ledger_ids_are_never_reused:
  assumes "numbered L"
  shows "numbered (apply_review_to_ledger L v cycle) \<and> distinct (map le_id (apply_review_to_ledger L v cycle))
    \<and> (\<exists>new. map le_id (apply_review_to_ledger L v cycle) = map le_id L @ new)"
proof -
  have "numbered (foldl (fold_prior cycle) L (v_prior v))"
    using assms map_length_eq [OF fold_priors_ids [of cycle L "v_prior v"]] by (simp add: numbered_def)
  from fold_freshs_numbered [OF this] show ?thesis
    unfolding apply_review_to_ledger_def by (simp add: numbered_distinct)
qed

subsection \<open>No blocking finding is dropped\<close>

definition stands :: "ledger_entry \<Rightarrow> bool" where
  "stands e \<longleftrightarrow> le_blocking e \<and> le_status e = Open"

definition same_finding :: "ledger_entry \<Rightarrow> ledger_entry \<Rightarrow> bool" where
  "same_finding e e' \<longleftrightarrow> identity e' = identity e \<and> stands e'"

lemma stands_frames [simp]:
  "stands (snapshot_before c e) = stands e" "stands e \<Longrightarrow> stands (upgrade_entry f c e)"
  "fd_blocking f \<Longrightarrow> stands (upgrade_entry f c e)"
  by (auto simp: stands_def snapshot_before_def upgrade_entry_def Let_def split: option.splits)

lemma fold_fresh_keeps: "\<exists>e\<in>set out. identity e = i \<and> stands e \<Longrightarrow> \<exists>e\<in>set (fold_fresh c adv out f). identity e = i \<and> stands e"
proof -
  assume "\<exists>e\<in>set out. identity e = i \<and> stands e"
  then obtain e where "e \<in> set out" "identity e = i" "stands e" by blast
  moreover from this obtain e' where "e' \<in> set (update_id (finding_id f) (\<lambda>e. upgrade_entry f c (snapshot_before c e)) out)"
    "e' = e \<or> e' = upgrade_entry f c (snapshot_before c e)"
    using set_update_id [of e out "finding_id f" "\<lambda>e. upgrade_entry f c (snapshot_before c e)"] by blast
  moreover from this calculation have "identity e' = i" "stands e'" by auto
  ultimately show ?thesis by (auto simp: fold_fresh_def)
qed

lemma fold_freshs_keep:
  "\<exists>e\<in>set out. identity e = i \<and> stands e \<Longrightarrow> \<exists>e\<in>set (foldl (fold_fresh c adv) out fs). identity e = i \<and> stands e"
  by (induction fs arbitrary: out) (auto simp only: foldl_Cons foldl_Nil intro!: fold_fresh_keeps)

text \<open>An answer that leaves the finding standing: not cleared, not reclassified.\<close>

definition confirms :: "finding \<Rightarrow> bool" where
  "confirms p \<longleftrightarrow> fd_status p \<noteq> Resolved \<and> fd_category p \<noteq> Some UnrequestedMechanism"

lemma take_answer_stands:
  "stands e \<Longrightarrow> confirms p \<Longrightarrow> fd_category p \<noteq> None \<or> \<not> entry_unrequested e \<Longrightarrow> stands (take_answer p c e)"
  by (auto simp: stands_def confirms_def take_answer_def take_rows_def entry_unrequested_def category_of_def Let_def
      split: option.splits if_splits)

lemma take_answer_category: "confirms p \<Longrightarrow> \<not> entry_unrequested e \<Longrightarrow> \<not> entry_unrequested (take_answer p c e)"
  by (auto simp: confirms_def take_answer_def take_rows_def entry_unrequested_def category_of_def Let_def split: option.splits if_splits)

lemma snapshot_category [simp]: "entry_unrequested (snapshot_before c e) = entry_unrequested e"
  by (simp add: entry_unrequested_def snapshot_before_def)

lemma fold_priors_keep:
  assumes "\<exists>e\<in>set out. identity e = i \<and> stands e \<and> \<not> entry_unrequested e"
    and "\<forall>p\<in>set ps. fd_answered p \<and> fd_id p = Some (fst i) \<longrightarrow> confirms p"
  shows "\<exists>e\<in>set (foldl (fold_prior c) out ps). identity e = i \<and> stands e \<and> \<not> entry_unrequested e"
  using assms
proof (induction ps arbitrary: out)
  case (Cons p ps)
  obtain e where e: "e \<in> set out" "identity e = i" "stands e" "\<not> entry_unrequested e" using Cons.prems(1) by blast
  have "\<exists>e\<in>set (fold_prior c out p). identity e = i \<and> stands e \<and> \<not> entry_unrequested e"
  proof (cases "fd_answered p \<and> fd_id p = Some (fst i)")
    case True
    then have "confirms p" using Cons.prems(2) by simp
    then have f: "stands (take_answer p c (snapshot_before c e))" "\<not> entry_unrequested (take_answer p c (snapshot_before c e))"
      using e by (simp_all add: take_answer_stands take_answer_category)
    obtain e' where "e' \<in> set (fold_prior c out p)" "e' = e \<or> e' = take_answer p c (snapshot_before c e)"
      using set_update_id [OF e(1), of "fst i" "\<lambda>e. take_answer p c (snapshot_before c e)"] True by (auto simp: fold_prior_def)
    moreover from this have "identity e' = i" "stands e'" "\<not> entry_unrequested e'" using f e by auto
    ultimately show ?thesis by blast
  next
    case False
    obtain e' where "e' \<in> set (fold_prior c out p)" "e' = e"
    proof (cases "fd_answered p \<and> fd_id p \<noteq> None")
      case True
      then obtain j where j: "fd_id p = Some j" "j \<noteq> le_id e" using False e(2) by (auto simp: identity_def)
      show ?thesis
        using that set_update_id [OF e(1), of j "\<lambda>e. take_answer p c (snapshot_before c e)"] True j by (auto simp: fold_prior_def)
    next
      case False
      then show ?thesis using that e(1) by (auto simp: fold_prior_def)
    qed
    then show ?thesis using e by blast
  qed
  then show ?case using Cons.IH [of "fold_prior c out p"] Cons.prems(2) by simp
qed simp

lemma fold_freshs_raise:
  assumes "f \<in> set fs" "fd_origin f = Fresh" "fd_blocking f" "\<not> keeps_reviewer_id adv f"
  shows "\<exists>e\<in>set (foldl (fold_fresh c adv) out fs). stands e \<and> le_summary e = fd_summary f \<and> le_file e = fd_file f \<and> le_opened e = c"
  using assms
proof (induction fs arbitrary: out)
  case (Cons g fs)
  show ?case
  proof (cases "f = g")
    case True
    have "\<exists>e\<in>set (fold_fresh c adv out g). identity e = identity (mint c out f) \<and> stands e"
      using True Cons.prems by (auto simp: fold_fresh_def stands_def)
    from fold_freshs_keep [OF this] obtain e
      where e: "e \<in> set (foldl (fold_fresh c adv) (fold_fresh c adv out g) fs)" "identity e = identity (mint c out f)" "stands e" by blast
    then have "le_summary e = fd_summary f" "le_file e = fd_file f" "le_opened e = c" by (simp_all add: identity_def)
    with e show ?thesis by auto
  next
    case False
    then show ?thesis using Cons by simp
  qed
qed simp

lemma fold_freshs_upgrade:
  assumes "f \<in> set fs" "fd_origin f = Fresh" "fd_blocking f" "fd_id f = Some i" "i \<noteq> []" "i \<in> adv" "i \<in> le_id ` set out"
  shows "\<exists>e\<in>set (foldl (fold_fresh c adv) out fs). stands e \<and> le_id e = i"
  using assms
proof (induction fs arbitrary: out)
  case (Cons g fs)
  show ?case
  proof (cases "f = g")
    case True
    let ?f = "\<lambda>e. upgrade_entry f c (snapshot_before c e)"
    obtain e where "e \<in> set out" "le_id e = i" "?f e \<in> set (fold_fresh c adv out g)"
      using update_id_hits [OF Cons.prems(7), of ?f] True Cons.prems by (auto simp: fold_fresh_def keeps_reviewer_id_def finding_id_def)
    then have "\<exists>e'\<in>set (fold_fresh c adv out g). identity e' = identity e \<and> stands e'"
      using Cons.prems(3) by (intro bexI [of _ "?f e"]) simp_all
    from fold_freshs_keep [OF this, of c adv fs] \<open>le_id e = i\<close> show ?thesis by (auto simp: identity_def)
  next
    case False
    moreover have "i \<in> le_id ` set (fold_fresh c adv out g)"
    proof -
      have "set (map le_id out) \<subseteq> set (map le_id (fold_fresh c adv out g))"
        by (auto simp: fold_fresh_def map_update_id simp flip: set_map)
      then show ?thesis using Cons.prems(7) by auto
    qed
    ultimately show ?thesis using Cons by simp
  qed
qed simp

lemma open_prior_ids: "e \<in> set L \<Longrightarrow> stands e \<Longrightarrow> as_prior e \<in> set (open_prior_findings L)"
  by (auto simp: open_prior_findings_def stands_def)

text \<open>
  C27. A demonstrated blocker stays in front of the reviewers. (1) Every fresh blocking finding of a
  verdict is among the open findings the next review must answer: under the advisory entry it names,
  or as a new entry with its own file and summary, opened this cycle. (2) An entry that stands
  open and blocking is still asked about after the fold unless the verdict's answer to it cleared it or
  reclassified it as unrequested mechanism; a verdict that does not answer it, or confirms it, leaves it.
\<close>

theorem no_blocking_finding_is_dropped:
  "(\<forall>f. f \<in> set (v_findings v) \<and> fd_origin f = Fresh \<and> fd_blocking f \<longrightarrow>
      (\<exists>p\<in>set (open_prior_findings (apply_review_to_ledger L v cycle)).
         if keeps_reviewer_id (advisory_ids L) f then fd_id p = fd_id f
         else fd_summary p = fd_summary f \<and> fd_file p = fd_file f \<and> fd_opened p = Some cycle))
   \<and> (\<forall>e. e \<in> set L \<and> stands e \<and> \<not> entry_unrequested e
        \<and> (\<forall>p\<in>set (v_prior v). fd_answered p \<and> fd_id p = Some (le_id e) \<longrightarrow> confirms p) \<longrightarrow>
      (\<exists>p\<in>set (open_prior_findings (apply_review_to_ledger L v cycle)).
         fd_id p = Some (le_id e) \<and> fd_summary p = le_summary e \<and> fd_opened p = Some (le_opened e)))"
proof (intro conjI allI impI; elim conjE)
  fix f assume f: "f \<in> set (v_findings v)" "fd_origin f = Fresh" "fd_blocking f"
  let ?out = "foldl (fold_prior cycle) L (v_prior v)"
  show "\<exists>p\<in>set (open_prior_findings (apply_review_to_ledger L v cycle)).
         if keeps_reviewer_id (advisory_ids L) f then fd_id p = fd_id f
         else fd_summary p = fd_summary f \<and> fd_file p = fd_file f \<and> fd_opened p = Some cycle"
  proof (cases "keeps_reviewer_id (advisory_ids L) f")
    case True
    then obtain i where i: "fd_id f = Some i" "i \<noteq> []" "i \<in> advisory_ids L"
      using f(2) by (auto simp: keeps_reviewer_id_def split: option.splits)
    have "le_id ` set ?out = le_id ` set L" by (metis fold_priors_ids image_set)
    then have "i \<in> le_id ` set ?out" using i(3) by (auto simp: advisory_ids_def)
    from fold_freshs_upgrade [OF f i this, of cycle] obtain e
      where "e \<in> set (apply_review_to_ledger L v cycle)" "stands e" "le_id e = i" by (auto simp: apply_review_to_ledger_def)
    then show ?thesis using True i open_prior_ids [of e] by (intro bexI [of _ "as_prior e"]) (simp_all add: as_prior_def)
  next
    case False
    from fold_freshs_raise [OF f False, of cycle ?out] obtain e
      where "e \<in> set (apply_review_to_ledger L v cycle)" "stands e" "le_summary e = fd_summary f" "le_file e = fd_file f" "le_opened e = cycle"
      by (auto simp: apply_review_to_ledger_def)
    then show ?thesis using False open_prior_ids [of e] by (intro bexI [of _ "as_prior e"]) (simp_all add: as_prior_def)
  qed
next
  fix e assume e: "e \<in> set L" "stands e" "\<not> entry_unrequested e"
    and c: "\<forall>p\<in>set (v_prior v). fd_answered p \<and> fd_id p = Some (le_id e) \<longrightarrow> confirms p"
  have "\<exists>x\<in>set (foldl (fold_prior cycle) L (v_prior v)). identity x = identity e \<and> stands x \<and> \<not> entry_unrequested x"
    by (rule fold_priors_keep) (use e c in \<open>auto simp: identity_def\<close>)
  then have "\<exists>x\<in>set (apply_review_to_ledger L v cycle). identity x = identity e \<and> stands x"
    unfolding apply_review_to_ledger_def by (intro fold_freshs_keep) blast
  then obtain x where "x \<in> set (apply_review_to_ledger L v cycle)" "identity x = identity e" "stands x" by blast
  then show "\<exists>p\<in>set (open_prior_findings (apply_review_to_ledger L v cycle)).
         fd_id p = Some (le_id e) \<and> fd_summary p = le_summary e \<and> fd_opened p = Some (le_opened e)"
    using open_prior_ids [of x] by (intro bexI [of _ "as_prior x"]) (auto simp: as_prior_def identity_def)
qed

subsection \<open>The fixer and the ledger use the same names\<close>

definition what_of :: "ledger_entry \<Rightarrow> string \<times> string \<times> int" where
  "what_of e = (le_summary e, le_file e, le_opened e)"

lemma what_frames [simp]: "what_of (take_answer p c (snapshot_before c e)) = what_of e" "what_of (upgrade_entry f c (snapshot_before c e)) = what_of e"
  using identity_frames(1) [of p c "snapshot_before c e"] identity_frames(2) [of c e] identity_frames(3) [of f c "snapshot_before c e"]
  by (simp_all add: identity_def what_of_def)

lemma fold_priors_what: "map what_of (foldl (fold_prior c) out ps) = map what_of out"
  by (induction ps arbitrary: out) (auto simp: fold_prior_def map_update_id split: option.splits)

lemma fold_freshs_what:
  "map what_of (foldl (fold_fresh c adv) out fs)
   = map what_of out @ map (\<lambda>f. (fd_summary f, fd_file f, c)) (filter (\<lambda>f. \<not> keeps_reviewer_id adv f) fs)"
proof (induction fs arbitrary: out)
  case (Cons f fs)
  have "map what_of (fold_fresh c adv out f)
      = map what_of out @ (if keeps_reviewer_id adv f then [] else [(fd_summary f, fd_file f, c)])"
    by (auto simp: fold_fresh_def keeps_reviewer_id_def map_update_id) (auto simp: what_of_def)
  with Cons show ?case by simp
qed simp

definition named_as :: "string set \<Rightarrow> int \<Rightarrow> ledger_entry list \<Rightarrow> finding \<Rightarrow> finding \<Rightarrow> bool" where
  "named_as adv c L f g \<longleftrightarrow> g = f\<lparr>fd_id := fd_id g\<rparr> \<and>
     (if keeps_reviewer_id adv f then g = f
      else list_ex (\<lambda>e. fd_id g = Some (le_id e) \<and> what_of e = (fd_summary f, fd_file f, c)) L)"

lemma named_as_kept: "keeps_reviewer_id adv f \<Longrightarrow> named_as adv c L f f"
  by (simp add: named_as_def)

lemma named_as_minted:
  "\<not> keeps_reviewer_id adv f \<Longrightarrow> e \<in> set L \<Longrightarrow> what_of e = (fd_summary f, fd_file f, c) \<Longrightarrow>
   named_as adv c L f (f\<lparr>fd_id := Some (le_id e)\<rparr>)"
  by (auto simp: named_as_def list_ex_iff)

lemma name_findings_agree:
  "map what_of minted = map (\<lambda>f. (fd_summary f, fd_file f, c)) (filter (\<lambda>f. \<not> keeps_reviewer_id adv f) fs) \<Longrightarrow>
   set minted \<subseteq> set L \<Longrightarrow> list_all2 (named_as adv c L) fs (name_findings adv minted fs)"
proof (induction fs arbitrary: minted)
  case (Cons f fs)
  then show ?case
    by (cases minted) (auto simp: named_as_kept named_as_minted split: if_splits)
qed simp

text \<open>
  The fix prompt and the next review talk about the same findings. Handing the verdict's
  findings on under their ledger ids keeps every finding as it was but for its id; a finding that was
  carried, or that upgraded an advisory entry, keeps its own, and every other one gets the id of an entry the
  fold appended this cycle with that finding's summary and file.
\<close>

theorem findings_are_named_by_the_ledger:
  "list_all2 (named_as (advisory_ids L) cycle (apply_review_to_ledger L v cycle)) (v_findings v)
     (with_ledger_ids (v_findings v) (apply_review_to_ledger L v cycle) L)"
proof -
  let ?out = "foldl (fold_prior cycle) L (v_prior v)"
  have len: "length ?out = length L" using map_length_eq [OF fold_priors_ids [of cycle L "v_prior v"]] .
  have "map what_of (drop (length L) (apply_review_to_ledger L v cycle))
      = map (\<lambda>f. (fd_summary f, fd_file f, cycle)) (filter (\<lambda>f. \<not> keeps_reviewer_id (advisory_ids L) f) (v_findings v))"
    unfolding apply_review_to_ledger_def drop_map [symmetric] fold_freshs_what by (simp add: len)
  from name_findings_agree [OF this set_drop_subset] show ?thesis
    by (simp add: with_ledger_ids_def)
qed

subsection \<open>A concrete gate\<close>

definition demo_entry :: "string \<Rightarrow> bool \<Rightarrow> ledger_entry" where
  "demo_entry i b = \<lparr>le_id = i, le_severity = ''blocking'', le_category = Some Correctness, le_file = ''a.js'',
     le_summary = ''loses a row'', le_evidence = (if b then ''npm test'' else []), le_introduced = False, le_blocking = b,
     le_status = (if b then Open else Advisory), le_note = [], le_opened = 0, le_closed = None, le_answered = None,
     le_demonstrated = None, le_restated = None, le_rows = [], le_rows_cycle = None, le_earlier = [],
     le_earlier_cycle = None, le_prev = None\<rparr>"

definition demo_ledger :: "ledger_entry list" where
  "demo_ledger = [demo_entry ''F1'' True, demo_entry ''F2'' False]"

text \<open>The second review clears \<open>F1\<close>, demonstrates \<open>F2\<close> in its own words and raises a new finding.\<close>

definition demo_report :: jsval where
  "demo_report = JObj [(''verdict'', JStr ''changes_requested''),
     (''prior'', JArr [JObj [(''id'', JStr ''F1''), (''status'', JStr ''fixed'')]]),
     (''findings'', JArr [
        JObj [(''id'', JStr ''F2''), (''severity'', JStr ''blocking''), (''summary'', JStr ''drops rows''), (''evidence'', JStr ''node --test'')],
        JObj [(''severity'', JStr ''blocking''), (''summary'', JStr ''new crash''), (''evidence'', JStr ''node --test''),
              (''introduced_by_fix'', JBool True)]])]"

definition demo_verdict :: verdict where
  "demo_verdict = parse_review_verdict (open_prior_findings demo_ledger) 1 (raised_by_id (raised_undemonstrated demo_ledger)) [Some demo_report]"

lemma demo_verdict_fails: "v_ok demo_verdict \<and> \<not> v_passed demo_verdict"
  by code_simp

theorem rollback_undoes_the_review_witness:
  "map forget_restated (rollback_cycle (apply_review_to_ledger demo_ledger demo_verdict 1) 1) = map forget_restated demo_ledger
   \<and> map le_status (apply_review_to_ledger demo_ledger demo_verdict 1) = [Resolved, Open, Open]"
proof
  have "list_all (untouched 1) demo_ledger" by code_simp
  then show "map forget_restated (rollback_cycle (apply_review_to_ledger demo_ledger demo_verdict 1) 1) = map forget_restated demo_ledger"
    by (rule rollback_undoes_the_review)
  show "map le_status (apply_review_to_ledger demo_ledger demo_verdict 1) = [Resolved, Open, Open]" by code_simp
qed

theorem ledger_ids_are_never_reused_witness:
  "numbered demo_ledger \<and> distinct (map le_id (apply_review_to_ledger demo_ledger demo_verdict 1))
   \<and> map le_id (apply_review_to_ledger demo_ledger demo_verdict 1) = [''F1'', ''F2'', ''F3'']"
proof -
  have n: "numbered demo_ledger" by code_simp
  moreover have "distinct (map le_id (apply_review_to_ledger demo_ledger demo_verdict 1))"
    using ledger_ids_are_never_reused [OF n] by blast
  moreover have "map le_id (apply_review_to_ledger demo_ledger demo_verdict 1) = [''F1'', ''F2'', ''F3'']" by code_simp
  ultimately show ?thesis by blast
qed

definition silent_verdict :: verdict where
  "silent_verdict = parse_review_verdict (open_prior_findings demo_ledger) 1 Map.empty [None]"

theorem no_blocking_finding_is_dropped_witness:
  "\<exists>p\<in>set (open_prior_findings (apply_review_to_ledger demo_ledger silent_verdict 1)). fd_id p = Some ''F1''"
proof -
  have "demo_entry ''F1'' True \<in> set demo_ledger" by (simp add: demo_ledger_def)
  moreover have "stands (demo_entry ''F1'' True)" "\<not> entry_unrequested (demo_entry ''F1'' True)" by code_simp+
  moreover have "list_all (\<lambda>p. \<not> fd_answered p) (v_prior silent_verdict)" by code_simp
  ultimately have "\<exists>p\<in>set (open_prior_findings (apply_review_to_ledger demo_ledger silent_verdict 1)).
      fd_id p = Some (le_id (demo_entry ''F1'' True)) \<and> fd_summary p = le_summary (demo_entry ''F1'' True)
      \<and> fd_opened p = Some (le_opened (demo_entry ''F1'' True))"
    using no_blocking_finding_is_dropped [THEN conjunct2, rule_format, of "demo_entry ''F1'' True" demo_ledger silent_verdict 1]
    by (auto simp: list_all_iff)
  then show ?thesis by (auto simp: demo_entry_def)
qed

text \<open>What the undo leaves behind: the reviewer's restated wording of the upgraded finding.\<close>

lemma rollback_leaves_restated_wording:
  "map le_restated demo_ledger = [None, None]
   \<and> map le_restated (rollback_cycle (apply_review_to_ledger demo_ledger demo_verdict 1) 1) = [None, Some ''drops rows'']"
  by (rule conjI; code_simp)

end
