(* ===== verification/GateObligations.thy ===== *)
theory GateObligations
  imports GateAttempts
begin

text \<open>
  The evidence a gate pipeline owes the graph, \<^verbatim>\<open>src/lib/kernel/gates.js\<close> (\<open>owesGateEvidence\<close>,
  \<open>carriedGateObligations\<close>, \<open>owedGateObligations\<close>) and the attempt rollover of
  \<^verbatim>\<open>src/lib/shell/agent-dispatch-runner.js\<close> (\<open>appendGateProgress\<close>): an unpaid row outlives the attempt that made it.

  A progress stamp is a decoded JSON object \<open>{key, gates, carried}\<close> whose \<open>gates\<close> and \<open>carried\<close>, where
  present, are objects of objects.
\<close>

fun entries :: "jsval \<Rightarrow> (string \<times> jsval) list" where
  "entries (JObj fs) = fs"
| "entries _ = []"

definition owes_gate_evidence :: "jsval \<Rightarrow> bool" where
  "owes_gate_evidence p \<longleftrightarrow> truthy p \<and> (truthy (js_get p ''filingIntent'')
     \<or> (truthy (js_get p ''evidence'') \<and> js_get (js_get p ''evidence'') ''complete'' \<noteq> JBool True))"

text \<open>\<open>/#r(\d+)$/\<close> and its like: the number after a tag at the very end.\<close>

definition suffix_number :: "string \<Rightarrow> string \<Rightarrow> int" where
  "suffix_number tag s =
     (let ds = rev (takeWhile is_digit (rev s)); pre = rev (dropWhile is_digit (rev s)) in
      if ds \<noteq> [] \<and> length tag \<le> length pre \<and> drop (length pre - length tag) pre = tag
      then int (nat_of_digits 0 ds) else 0)"

definition progress_key_attempt :: "jsval \<Rightarrow> int" where
  "progress_key_attempt key = suffix_number ''#r'' (plain_text key)"

definition row_rescue :: "string \<Rightarrow> int" where
  "row_rescue k = suffix_number ''#x'' k"

definition carry_key :: "jsval \<Rightarrow> string \<Rightarrow> string" where
  "carry_key progress k = plain_text (js_get progress ''key'') @ ''|'' @ k"

definition carried_row :: "jsval \<Rightarrow> string \<Rightarrow> jsval \<Rightarrow> jsval" where
  "carried_row progress k p = js_set p ''carried_from'' (JObj [(''key'', js_or (js_get progress ''key'') JNull), (''row'', JStr k),
     (''attempt'', JNum (progress_key_attempt (js_get progress ''key''))), (''rescue'', JNum (row_rescue k))])"

definition carried_gate_obligations :: "jsval \<Rightarrow> jsval" where
  "carried_gate_obligations progress =
     (if \<not> is_objectlike progress then JNull
      else
        (let kept = filter (\<lambda>(k, p). owes_gate_evidence p) (entries (js_get progress ''carried''));
             rows = filter (\<lambda>(k, p). owes_gate_evidence p) (entries (js_get progress ''gates''));
             out = foldl (\<lambda>a (k, p). js_set a (carry_key progress k) (carried_row progress k p)) (JObj kept) rows
         in if entries out = [] then JNull else out))"

record obligation =
  ob_row :: string
  ob_progress :: jsval
  ob_carry_key :: "string option"
  ob_rescue :: int
  ob_attempt :: "int option"

definition own_obligations :: "jsval \<Rightarrow> obligation list" where
  "own_obligations progress = map (\<lambda>(k, p). \<lparr>ob_row = k, ob_progress = p, ob_carry_key = None, ob_rescue = row_rescue k, ob_attempt = None\<rparr>)
     (filter (\<lambda>(k, p). owes_gate_evidence p) (entries (js_get progress ''gates'')))"

definition carried_obligations :: "jsval \<Rightarrow> obligation list" where
  "carried_obligations carried = map (\<lambda>(k, p). \<lparr>ob_row = k, ob_progress = p, ob_carry_key = Some k,
       ob_rescue = number_or (js_get (js_get p ''carried_from'') ''rescue'') 0,
       ob_attempt = Some (number_or (js_get (js_get p ''carried_from'') ''attempt'') 0)\<rparr>)
     (filter (\<lambda>(k, p). owes_gate_evidence p) (entries carried))"

definition owed_gate_obligations :: "jsval \<Rightarrow> jsval \<Rightarrow> obligation list" where
  "owed_gate_obligations progress run_key =
     (if \<not> is_objectlike progress then []
      else if js_get progress ''key'' = run_key
      then own_obligations progress @ carried_obligations (js_get progress ''carried'')
      else carried_obligations (carried_gate_obligations progress))"

text \<open>The prior a save continues from, and the stamp it appends for an update \<open>delta\<close> whose values are decoded JSON.\<close>

definition prior_stamp :: "jsval \<Rightarrow> jsval \<Rightarrow> jsval" where
  "prior_stamp current key =
     (if is_objectlike current \<and> js_get current ''key'' = key then current
      else (let carried = (if is_objectlike current then carried_gate_obligations current else JNull) in
            JObj ([(''gates'', JObj [])] @ (if truthy carried then [(''carried'', carried)] else []))))"

definition spread :: "jsval \<Rightarrow> jsval \<Rightarrow> jsval" where
  "spread o' v = foldl (\<lambda>a (k, x). js_set a k x) o' (entries v)"

definition stamp_seq :: "jsval \<Rightarrow> int" where
  "stamp_seq prior = (case js_get prior ''seq'' of JNum n \<Rightarrow> n | _ \<Rightarrow> 0) + 1"

definition append_gate_progress :: "jsval \<Rightarrow> jsval \<Rightarrow> string \<Rightarrow> jsval \<Rightarrow> jsval" where
  "append_gate_progress current key at delta =
     (let prior = prior_stamp current key in
      js_set (js_set (js_set (js_set (spread prior delta) ''key'' key) ''at'' (JStr at)) ''seq'' (JNum (stamp_seq prior)))
        ''gates'' (spread (JObj (entries (js_get prior ''gates''))) (js_get delta ''gates'')))"

subsection \<open>A rollover forgets no debt\<close>

lemma upd_prop_fresh: "k \<notin> fst ` set fs \<Longrightarrow> upd_prop k v fs = fs @ [(k, v)]"
  by (induction fs) auto

lemma foldl_set_fresh:
  "distinct (map fst fs @ map f rows) \<Longrightarrow>
   foldl (\<lambda>a r. js_set a (f r) (g r)) (JObj fs) rows = JObj (fs @ map (\<lambda>r. (f r, g r)) rows)"
proof (induction rows arbitrary: fs)
  case (Cons r rows)
  then have "upd_prop (f r) (g r) fs = fs @ [(f r, g r)]" by (intro upd_prop_fresh) auto
  with Cons show ?case by simp
qed simp

lemma is_objectlike_set [simp]: "is_objectlike (js_set o' k v)"
  by (cases o') auto

lemma truthy_set [simp]: "truthy (js_set o' k v)"
  by (cases o') auto

lemma js_get_foldl_set: "k \<notin> fst ` set fs \<Longrightarrow> js_get (foldl (\<lambda>a (k, x). js_set a k x) o' fs) k = js_get o' k"
  by (induction fs arbitrary: o') auto

lemma js_get_spread: "k \<notin> fst ` set (entries v) \<Longrightarrow> js_get (spread o' v) k = js_get o' k"
  unfolding spread_def by (rule js_get_foldl_set)

definition owed_rows :: "jsval \<Rightarrow> (string \<times> jsval) list" where
  "owed_rows v = filter (\<lambda>r. owes_gate_evidence (snd r)) (entries v)"

lemma owed_filter: "filter (\<lambda>(k, p). owes_gate_evidence p) (entries v) = owed_rows v"
  by (simp add: owed_rows_def case_prod_unfold)

text \<open>The carried keys of the stamp are apart from the ones the rollover writes, and gate rows are distinct.\<close>

definition separate :: "jsval \<Rightarrow> bool" where
  "separate current \<longleftrightarrow> distinct (map fst (owed_rows (js_get current ''carried'')) @ map (carry_key current \<circ> fst) (owed_rows (js_get current ''gates'')))"

definition carried_entry :: "jsval \<Rightarrow> string \<times> jsval \<Rightarrow> string \<times> jsval" where
  "carried_entry current r = (carry_key current (fst r), carried_row current (fst r) (snd r))"

lemma carried_fold:
  assumes "separate current"
  shows "foldl (\<lambda>a (k, p). js_set a (carry_key current k) (carried_row current k p)) (JObj (owed_rows (js_get current ''carried''))) (owed_rows (js_get current ''gates''))
    = JObj (owed_rows (js_get current ''carried'') @ map (carried_entry current) (owed_rows (js_get current ''gates'')))"
  using foldl_set_fresh [of "owed_rows (js_get current ''carried'')" "carry_key current \<circ> fst" "owed_rows (js_get current ''gates'')" "\<lambda>r. carried_row current (fst r) (snd r)"] assms
  by (simp add: separate_def case_prod_unfold carried_entry_def [abs_def])

lemma carried_entries:
  assumes "is_objectlike current" and "separate current"
  shows "entries (carried_gate_obligations current)
    = owed_rows (js_get current ''carried'') @ map (carried_entry current) (owed_rows (js_get current ''gates''))"
  using assms(1) by (simp add: carried_gate_obligations_def owed_filter carried_fold [OF assms(2)])

lemma carried_gate_obligations_value: "carried_gate_obligations v = JNull \<or> entries (carried_gate_obligations v) \<noteq> []"
  by (simp add: carried_gate_obligations_def Let_def)

lemma owes_carried_row: "owes_gate_evidence p \<Longrightarrow> owes_gate_evidence (carried_row progress k p)"
  by (simp add: owes_gate_evidence_def carried_row_def)

lemma owed_carried:
  assumes "is_objectlike current" and "separate current"
  shows "owed_rows (carried_gate_obligations current)
    = owed_rows (js_get current ''carried'') @ map (carried_entry current) (owed_rows (js_get current ''gates''))"
proof -
  have "filter (\<lambda>r. owes_gate_evidence (snd r)) (map (carried_entry current) (owed_rows (js_get current ''gates'')))
      = map (carried_entry current) (owed_rows (js_get current ''gates''))"
    by (auto simp: filter_id_conv owed_rows_def carried_entry_def owes_carried_row)
  then show ?thesis
    unfolding owed_rows_def [of "carried_gate_obligations current"] carried_entries [OF assms]
    by (simp add: owed_rows_def)
qed

definition as_obligation :: "string \<times> jsval \<Rightarrow> obligation" where
  "as_obligation r = \<lparr>ob_row = fst r, ob_progress = snd r, ob_carry_key = Some (fst r),
     ob_rescue = number_or (js_get (js_get (snd r) ''carried_from'') ''rescue'') 0,
     ob_attempt = Some (number_or (js_get (js_get (snd r) ''carried_from'') ''attempt'') 0)\<rparr>"

lemma carried_obligations_rows: "carried_obligations v = map as_obligation (owed_rows v)"
  by (simp add: carried_obligations_def owed_rows_def as_obligation_def [abs_def] case_prod_unfold)

lemma number_or_int: "number_or (JNum n) 0 = n"
  by (simp add: number_or_def)

lemma obligation_of_carried:
  "as_obligation (carried_entry current (k, p)) = \<lparr>ob_row = carry_key current k, ob_progress = carried_row current k p,
     ob_carry_key = Some (carry_key current k), ob_rescue = row_rescue k,
     ob_attempt = Some (progress_key_attempt (js_get current ''key''))\<rparr>"
  by (simp add: as_obligation_def carried_entry_def carried_row_def number_or_int)

lemma carried_after_rollover:
  assumes "is_objectlike current" and "js_get current ''key'' \<noteq> key" and "''carried'' \<notin> fst ` set (entries delta)"
  shows "owed_rows (js_get (append_gate_progress current key at delta) ''carried'') = owed_rows (carried_gate_obligations current)"
proof -
  let ?c = "carried_gate_obligations current"
  have get: "js_get (append_gate_progress current key at delta) ''carried'' = js_get (prior_stamp current key) ''carried''"
    using assms(3) by (simp add: append_gate_progress_def Let_def js_get_spread)
  show ?thesis
  proof (cases "truthy ?c")
    case True then show ?thesis unfolding get using assms(1,2) by (simp add: prior_stamp_def)
  next
    case False
    then have "?c = JNull" using carried_gate_obligations_value [of current] by (cases ?c) auto
    then show ?thesis unfolding get using assms(1,2) by (simp add: prior_stamp_def owed_rows_def)
  qed
qed

lemma owed_after_rollover:
  assumes "is_objectlike current" and "js_get current ''key'' \<noteq> key" and "''carried'' \<notin> fst ` set (entries delta)"
  shows "owed_gate_obligations (append_gate_progress current key at delta) key
    = own_obligations (append_gate_progress current key at delta) @ map as_obligation (owed_rows (carried_gate_obligations current))"
  unfolding owed_gate_obligations_def carried_obligations_rows carried_after_rollover [OF assms]
  by (simp add: append_gate_progress_def Let_def)

lemma own_obligations_rows:
  "own_obligations v = map (\<lambda>r. \<lparr>ob_row = fst r, ob_progress = snd r, ob_carry_key = None, ob_rescue = row_rescue (fst r), ob_attempt = None\<rparr>)
     (owed_rows (js_get v ''gates''))"
  by (simp add: own_obligations_def owed_rows_def case_prod_unfold)

definition relabel :: "jsval \<Rightarrow> obligation \<Rightarrow> obligation" where
  "relabel current ob = \<lparr>ob_row = carry_key current (ob_row ob), ob_progress = carried_row current (ob_row ob) (ob_progress ob),
     ob_carry_key = Some (carry_key current (ob_row ob)), ob_rescue = ob_rescue ob,
     ob_attempt = Some (progress_key_attempt (js_get current ''key''))\<rparr>"

lemma carried_rows_relabelled:
  "map (as_obligation \<circ> carried_entry current) (owed_rows (js_get current ''gates'')) = map (relabel current) (own_obligations current)"
  unfolding own_obligations_rows by (auto simp: relabel_def obligation_of_carried)

text \<open>
  C31. An attempt rollover forgets no debt and invents none. When a save under a new attempt key rolls a progress stamp
  over (and the update does not itself settle \<open>carried\<close>), the obligations the new attempt reads are its own rows, then
  exactly the obligations the old attempt had carried, unchanged, then every row the old attempt itself owed, under
  \<open>key|row\<close> with the attempt and rescue pass it came from.
\<close>

theorem rollover_keeps_every_debt:
  assumes "is_objectlike current" and "js_get current ''key'' \<noteq> key"
    and "separate current" and "''carried'' \<notin> fst ` set (entries delta)"
  shows "owed_gate_obligations current (js_get current ''key'') = own_obligations current @ carried_obligations (js_get current ''carried'')
    \<and> owed_gate_obligations (append_gate_progress current key at delta) key
      = own_obligations (append_gate_progress current key at delta)
        @ carried_obligations (js_get current ''carried'') @ map (relabel current) (own_obligations current)"
  using assms(1) unfolding owed_after_rollover [OF assms(1,2,4)] owed_carried [OF assms(1,3)]
  by (simp add: owed_gate_obligations_def carried_obligations_rows carried_rows_relabelled)

definition demo_stamp :: jsval where
  "demo_stamp = JObj [(''key'', JStr ''run#r2''),
     (''gates'', JObj [(''gate-a#x1'', JObj [(''filingIntent'', JStr ''flake'')]), (''gate-b'', JObj [(''evidence'', JObj [(''complete'', JBool True)])])]),
     (''carried'', JObj [(''run|gate-a'', JObj [(''evidence'', JObj [(''complete'', JBool False)]), (''carried_from'', JObj [(''attempt'', JNum 1), (''rescue'', JNum 0)])])])]"

theorem rollover_keeps_every_debt_witness:
  "map (\<lambda>ob. (ob_row ob, ob_attempt ob, ob_rescue ob))
     (owed_gate_obligations (append_gate_progress demo_stamp (JStr ''run#r3'') ''now'' (JObj [])) (JStr ''run#r3''))
   = [(''run|gate-a'', Some 1, 0), (''run#r2|gate-a#x1'', Some 2, 1)]"
proof -
  have "is_objectlike demo_stamp" "js_get demo_stamp ''key'' \<noteq> JStr ''run#r3''" "separate demo_stamp"
    "''carried'' \<notin> fst ` set (entries (JObj []))" by code_simp+
  note whole = rollover_keeps_every_debt [OF this, of "''now''", THEN conjunct2]
  show ?thesis unfolding whole by code_simp
qed

end
