(* ===== verification/Completion.thy ===== *)
theory Completion
  imports Review
begin

text \<open>
  The controller-written completion: the predicates of \<^verbatim>\<open>src/lib/kernel/completion.js\<close> (the pinned boundary, premature
  resolvers, the derived debt, the resolver's id) and the orchestration of \<^verbatim>\<open>src/lib/shell/completion.js\<close> (the hold,
  its release, the retype of premature edges, the withdrawal, the completion write and the per-pass reconciliation).

  The graph the injected doors act on is an explicit world: the item (its flat keys and its revision) and the nodes
  that carry edges to it. Before every door call the environment may change the world, and the call may be
  answered, refused, or carried out with its answer lost; a schedule of such ticks is part of the state, so
  every interleaving with people and other workers is a schedule. Every write is logged with what it replaced.
  The run record is the one the stamps update. Setting a flat key of an item's frontmatter is an update of the item's
  record, where its frontmatter can be located. Reading screenshot evidence and the text of the resolver node are outside the
  model: evidence is the edges it adds, or missing. A stamp on the run record always takes effect, and a revision is a number that
  grows with each write, where the local store uses the hash of the content.
\<close>

subsection \<open>The run record and the predicates\<close>

record impl_claim =
  cl_execution_id :: string
  cl_by :: string
  cl_after :: string
  cl_snapshot :: "string list"
  cl_status_snapshot :: string

record run_record =
  ru_node_id :: string
  ru_claim :: "impl_claim option"
  ru_impl_state :: string
  ru_gates_state :: string
  ru_integration_state :: string
  ru_gate_state :: string
  ru_candidate_id :: "string option"
  ru_impl_resolver :: "string option"
  ru_debt :: "string option"
  ru_resolver :: "string option"
  ru_premature :: "string list"
  ru_written :: bool
  ru_consumed :: bool
  ru_withdrawn :: bool

definition stage_refusals :: "string list" where
  "stage_refusals = [''declined'', ''exhausted'', ''escalated'', ''unroutable'', ''mismatch'']"

definition is_controller_record :: "run_record \<Rightarrow> bool" where
  "is_controller_record r = (case ru_claim r of None \<Rightarrow> False | Some c \<Rightarrow> cl_by c = ''controller'')"

definition record_boundary_reached :: "run_record \<Rightarrow> bool \<Rightarrow> bool" where
  "record_boundary_reached r landed =
     (case ru_claim r of
        None \<Rightarrow> False
      | Some c \<Rightarrow>
          is_controller_record r
          \<and> (if cl_after c = ''gates'' then ru_gates_state r = ''passed''
             else ru_integration_state r = ''landed'' \<or> (ru_integration_state r = ''parked'' \<and> landed)))"

text \<open>\<open>inbound\<close> is a list of sources with the type of their edge.\<close>

definition premature_resolvers :: "(string \<times> string) list \<Rightarrow> string list \<Rightarrow> string option \<Rightarrow> (string \<times> string) list" where
  "premature_resolvers inbound snapshot own =
     filter (\<lambda>(by, edge). by \<noteq> [] \<and> resolving_edge edge \<and> by \<notin> set snapshot \<and> own \<noteq> Some by) inbound"

text \<open>The item as a reader sees it: its keys, and what the registry says of its status.\<close>

record item =
  it_status :: string
  it_type :: string
  it_execution :: string
  it_execution_at :: string
  it_released_by :: string
  it_revision :: nat
  it_front :: bool

record item_view =
  v_item :: item
  v_inbound :: "(string \<times> string) list"
  v_terminal :: bool
  v_give_up :: "bool option"

record own_view =
  ow_id :: string
  ow_exists :: bool
  ow_edge :: bool

definition derive_completion_debt :: "run_record \<Rightarrow> item_view option \<Rightarrow> own_view option \<Rightarrow> bool \<Rightarrow> string option" where
  "derive_completion_debt r item own landed =
     (case (ru_claim r, item) of
        (Some c, Some v) \<Rightarrow>
          if \<not> is_controller_record r \<or> ru_gate_state r = ''superseded'' then None
          else
            (let ours = cl_execution_id c;
                 held = (ours \<noteq> [] \<and> trim (it_execution (v_item v)) = ours);
                 own_edge = (case own of None \<Rightarrow> False | Some o' \<Rightarrow> ow_edge o');
                 gave_up = (case v_give_up v of Some b \<Rightarrow> b | None \<Rightarrow> lower (trim (it_status (v_item v))) = ''abandoned'');
                 retract = (if held \<and> premature_resolvers (v_inbound v) (cl_snapshot c) (map_option ow_id own) \<noteq> []
                            then Some ''retract'' else None);
                 settled = (\<not> held \<and> trim (it_execution (v_item v)) = [] \<and> v_terminal v \<and> (own_edge \<or> v_inbound v \<noteq> []))
             in if gave_up \<and> (own_edge \<or> held) then Some ''withdraw''
                else if trim (ru_impl_state r) \<notin> set stage_refusals \<and> record_boundary_reached r landed \<and> \<not> settled
                then (if \<not> gave_up then Some ''write'' else if own_edge then Some ''withdraw'' else None)
                else retract)
      | _ \<Rightarrow> None)"

definition is_lower_letter :: "char \<Rightarrow> bool" where
  "is_lower_letter c \<longleftrightarrow> 97 \<le> (of_char c :: nat) \<and> (of_char c :: nat) \<le> 122"

definition strip_type_prefix :: "string \<Rightarrow> string" where
  "strip_type_prefix s = (case dropWhile is_lower_letter s of
       c # r \<Rightarrow> if c = CHR ''-'' \<and> takeWhile is_lower_letter s \<noteq> [] then r else s
     | [] \<Rightarrow> s)"

definition strip_dashes :: "string \<Rightarrow> string" where
  "strip_dashes s = rev (dropWhile (\<lambda>c. c = CHR ''-'') (rev s))"

definition completion_resolver_id :: "string \<Rightarrow> string option \<Rightarrow> string" where
  "completion_resolver_id node_id candidate_id =
     (let n = (if node_id = [] then ''item'' else node_id);
          dashed = squeeze (\<lambda>c. \<not> (is_lower_letter (lower_char c) \<or> is_digit c)) (CHR ''-'') False (strip_type_prefix n);
          stem = strip_dashes (take 30 (lower (strip_dashes (dropWhile (\<lambda>c. c = CHR ''-'') dashed))));
          c = (case candidate_id of None \<Rightarrow> [] | Some x \<Rightarrow> x);
          cand = take 12 (if take 5 c = ''cand-'' then drop 5 c else c)
      in ''art-completion-'' @ (if stem = [] then ''item'' else stem) @ ''-'' @ (if cand = [] then ''none'' else cand))"

subsection \<open>The world and its doors\<close>

record cnode =
  cn_edges :: "(string \<times> string) list"
  cn_counts :: bool

record world =
  w_item :: item
  w_nodes :: "(string \<times> cnode) list"

datatype door_answer = Answered | Refused | Lost

type_synonym tick = "(world \<Rightarrow> world) \<times> door_answer"

datatype purpose = PHold | PClear | PRestore | PComplete

datatype action =
    AOwe "string option"
  | ASettle string
  | AOwn string bool
  | AConfirm bool
  | ANode string
  | AEdge string string
  | AUnedge string string
  | ACas purpose item item

record sys =
  s_world :: world
  s_ticks :: "tick list"
  s_rec :: run_record
  s_log :: "action list"

record conf =
  c_terminal :: "string \<Rightarrow> string \<Rightarrow> bool"
  c_give_up :: "(string \<Rightarrow> string \<Rightarrow> bool) option"
  c_completion_status :: "string \<Rightarrow> string"
  c_store :: bool
  c_evidence :: "(string \<times> string) list option"
  c_facts :: "string list"
  c_landed :: bool
  c_now :: string

definition logged :: "action \<Rightarrow> sys \<Rightarrow> sys" where
  "logged a s = s\<lparr>s_log := s_log s @ [a]\<rparr>"

definition next_tick :: "sys \<Rightarrow> door_answer \<times> sys" where
  "next_tick s = (case s_ticks s of
       [] \<Rightarrow> (Answered, s)
     | (f, a) # ts \<Rightarrow> (a, s\<lparr>s_world := f (s_world s), s_ticks := ts\<rparr>))"

definition inbound_of :: "string \<Rightarrow> world \<Rightarrow> (string \<times> string) list" where
  "inbound_of nid w = concat (map (\<lambda>(i, n). if cn_counts n
       then map (\<lambda>(t, to). (i, t)) (filter (\<lambda>(t, to). resolving_edge t \<and> to = nid) (cn_edges n)) else []) (w_nodes w))"

definition view_of :: "conf \<Rightarrow> string \<Rightarrow> world \<Rightarrow> item_view" where
  "view_of cf nid w = \<lparr>v_item = w_item w, v_inbound = inbound_of nid w,
     v_terminal = c_terminal cf (it_type (w_item w)) (it_status (w_item w)),
     v_give_up = map_option (\<lambda>g. g (it_type (w_item w)) (it_status (w_item w))) (c_give_up cf)\<rparr>"

definition read_item :: "conf \<Rightarrow> string \<Rightarrow> sys \<Rightarrow> item_view option \<times> sys" where
  "read_item cf nid s = (let (a, t) = next_tick s in
     (if a = Answered then Some (view_of cf nid (s_world t)) else None, t))"

datatype write_answer = Wrote nat | Conflict | WriteFailed

definition cas_write :: "purpose \<Rightarrow> nat \<Rightarrow> item \<Rightarrow> sys \<Rightarrow> write_answer \<times> sys" where
  "cas_write p rv new s =
     (let (a, t) = next_tick s; old = w_item (s_world t) in
      if a = Refused then (WriteFailed, t)
      else if it_revision old \<noteq> rv then (if a = Answered then Conflict else WriteFailed, t)
      else
        (let new' = new\<lparr>it_revision := Suc rv\<rparr>;
             u = logged (ACas p old new') (t\<lparr>s_world := (s_world t)\<lparr>w_item := new'\<rparr>\<rparr>)
         in (if a = Answered then Wrote (Suc rv) else WriteFailed, u)))"

definition node_edges :: "string \<Rightarrow> world \<Rightarrow> (string \<times> string) list" where
  "node_edges i w = (case map_of (w_nodes w) i of None \<Rightarrow> [] | Some n \<Rightarrow> cn_edges n)"

definition on_node :: "string \<Rightarrow> (cnode \<Rightarrow> cnode) \<Rightarrow> world \<Rightarrow> world" where
  "on_node i f w = w\<lparr>w_nodes := map (\<lambda>(j, n). (j, if j = i then f n else n)) (w_nodes w)\<rparr>"

definition add_edge :: "string \<Rightarrow> string \<Rightarrow> string \<Rightarrow> sys \<Rightarrow> bool \<times> sys" where
  "add_edge from type to s =
     (let (a, t) = next_tick s in
      if a = Refused \<or> map_of (w_nodes (s_world t)) from = None then (False, t)
      else (a = Answered, logged (AEdge from type) (t\<lparr>s_world := on_node from
             (\<lambda>n. if (type, to) \<in> set (cn_edges n) then n else n\<lparr>cn_edges := cn_edges n @ [(type, to)]\<rparr>) (s_world t)\<rparr>)))"

definition remove_edge :: "string \<Rightarrow> string \<Rightarrow> string \<Rightarrow> sys \<Rightarrow> bool \<times> sys" where
  "remove_edge from type to s =
     (let (a, t) = next_tick s in
      if a = Refused \<or> map_of (w_nodes (s_world t)) from = None then (False, t)
      else (a = Answered, logged (AUnedge from type) (t\<lparr>s_world := on_node from
             (\<lambda>n. n\<lparr>cn_edges := filter (\<lambda>e. e \<noteq> (type, to)) (cn_edges n)\<rparr>) (s_world t)\<rparr>)))"

text \<open>Writing a node is idempotent on the same content and refused over another.\<close>

definition write_node :: "string \<Rightarrow> (string \<times> string) list \<Rightarrow> sys \<Rightarrow> bool \<times> sys" where
  "write_node i edges s =
     (let (a, t) = next_tick s in
      if a = Refused then (False, t)
      else case map_of (w_nodes (s_world t)) i of
        Some n \<Rightarrow> if cn_edges n = edges then (a = Answered, logged (ANode i) t) else (False, t)
      | None \<Rightarrow> (a = Answered, logged (ANode i) (t\<lparr>s_world := (s_world t)\<lparr>w_nodes := w_nodes (s_world t) @ [(i, \<lparr>cn_edges = edges, cn_counts = True\<rparr>)]\<rparr>\<rparr>)))"

definition stamp_debt :: "string option \<Rightarrow> sys \<Rightarrow> sys" where
  "stamp_debt d s = logged (AOwe d) (s\<lparr>s_rec := (s_rec s)\<lparr>ru_debt := d\<rparr>\<rparr>)"

definition held_by :: "item \<Rightarrow> string option" where
  "held_by i = (if trim (it_execution i) = [] then None else Some (trim (it_execution i)))"

definition gave_up :: "item_view \<Rightarrow> bool" where
  "gave_up v = (case v_give_up v of Some b \<Rightarrow> b | None \<Rightarrow> lower (it_status (v_item v)) = ''abandoned'')"

subsection \<open>The hold\<close>

record pins =
  pin_claimed_at :: string
  pin_revision :: nat
  pin_snapshot :: "(string \<times> string) list"
  pin_status :: string

datatype hold_result = Held bool pins | HoldRefused string

definition stamp_hold :: "conf \<Rightarrow> string \<Rightarrow> string \<Rightarrow> sys \<Rightarrow> hold_result \<times> sys" where
  "stamp_hold cf nid ex s =
     (case read_item cf nid s of
        (None, t) \<Rightarrow> (HoldRefused ''read'', t)
      | (Some v, t) \<Rightarrow>
          (let i = v_item v;
               ps = \<lparr>pin_claimed_at = c_now cf, pin_revision = it_revision i, pin_snapshot = v_inbound v, pin_status = it_status i\<rparr> in
           if held_by i \<noteq> None \<and> held_by i \<noteq> Some ex then (HoldRefused ''foreign-hold'', t)
           else if held_by i = None \<and> v_inbound v \<noteq> [] then (HoldRefused ''not-gateable'', t)
           else if held_by i = Some ex
           then (Held True (ps\<lparr>pin_claimed_at := (if it_execution_at i = [] then c_now cf else it_execution_at i)\<rparr>), t)
           else if \<not> it_front i then (HoldRefused ''read'', t)
           else case cas_write PHold (it_revision i) (i\<lparr>it_execution := ex, it_execution_at := c_now cf\<rparr>) t of
             (Wrote r, u) \<Rightarrow> (Held False (ps\<lparr>pin_revision := r\<rparr>), u)
           | (Conflict, u) \<Rightarrow> (HoldRefused ''conflict'', u)
           | (WriteFailed, u) \<Rightarrow> (HoldRefused ''write'', u)))"

datatype clear_result = Cleared string | NothingHeld | ForeignHold string | ClearFailed

definition cleared_item :: "string \<Rightarrow> item \<Rightarrow> item" where
  "cleared_item by i = (let j = i\<lparr>it_execution := [], it_execution_at := []\<rparr> in if by = [] then j else j\<lparr>it_released_by := by\<rparr>)"

fun clear_hold :: "nat \<Rightarrow> conf \<Rightarrow> string \<Rightarrow> string \<Rightarrow> bool \<Rightarrow> string \<Rightarrow> sys \<Rightarrow> clear_result \<times> sys" where
  "clear_hold 0 cf nid ex force by s = (ClearFailed, s)"
| "clear_hold (Suc n) cf nid ex force by s =
     (case read_item cf nid s of
        (None, t) \<Rightarrow> (ClearFailed, t)
      | (Some v, t) \<Rightarrow>
          (case held_by (v_item v) of
             None \<Rightarrow> (NothingHeld, t)
           | Some holder \<Rightarrow>
               if holder \<noteq> ex \<and> \<not> force then (ForeignHold holder, t)
               else if \<not> it_front (v_item v) then (ClearFailed, t)
               else case cas_write PClear (it_revision (v_item v)) (cleared_item by (v_item v)) t of
                 (Wrote r, u) \<Rightarrow> (Cleared holder, u)
               | (WriteFailed, u) \<Rightarrow> (ClearFailed, u)
               | (Conflict, u) \<Rightarrow> clear_hold n cf nid ex force by u))"

subsection \<open>Premature edges\<close>

definition the_claim :: "sys \<Rightarrow> impl_claim" where
  "the_claim s = (case ru_claim (s_rec s) of Some c \<Rightarrow> c
     | None \<Rightarrow> \<lparr>cl_execution_id = [], cl_by = [], cl_after = [], cl_snapshot = [], cl_status_snapshot = []\<rparr>)"

definition own_resolver :: "run_record \<Rightarrow> string" where
  "own_resolver r = (case ru_resolver r of Some i \<Rightarrow> i | None \<Rightarrow> completion_resolver_id (ru_node_id r) (ru_candidate_id r))"

text \<open>The loop over the premature edges: the sources retyped, and whether any retype failed.\<close>

fun retype :: "string \<Rightarrow> (string \<times> string) list \<Rightarrow> sys \<Rightarrow> (string list \<times> bool) \<times> sys" where
  "retype nid [] s = (([], False), s)"
| "retype nid ((by, edge) # ps) s =
     (case remove_edge by edge nid s of
        (False, t) \<Rightarrow> (case retype nid ps t of ((done, _), u) \<Rightarrow> ((done, True), u))
      | (True, t) \<Rightarrow>
          (case add_edge by ''relates-to'' nid t of
             (False, u) \<Rightarrow> (case retype nid ps u of ((done, _), w) \<Rightarrow> ((done, True), w))
           | (True, u) \<Rightarrow> (case retype nid ps u of ((done, f), w) \<Rightarrow> ((by # done, f), w))))"

definition restore_status :: "conf \<Rightarrow> string \<Rightarrow> sys \<Rightarrow> bool \<times> sys" where
  "restore_status cf nid s =
     (case read_item cf nid s of
        (None, t) \<Rightarrow> (True, t)
      | (Some v, t) \<Rightarrow>
          if held_by (v_item v) = Some (cl_execution_id (the_claim t)) \<and> v_terminal v \<and> \<not> gave_up v
          then (if \<not> it_front (v_item v) then (False, t)
                else case cas_write PRestore (it_revision (v_item v)) ((v_item v)\<lparr>it_status := cl_status_snapshot (the_claim t)\<rparr>) t of
                  (Wrote r, u) \<Rightarrow> (True, u)
                | (_, u) \<Rightarrow> (False, u))
          else (True, t))"

definition note_premature :: "string list \<Rightarrow> sys \<Rightarrow> sys" where
  "note_premature done s = (if done = [] then s
     else s\<lparr>s_rec := (s_rec s)\<lparr>ru_premature := dedup_acc [] (ru_premature (s_rec s) @ done)\<rparr>\<rparr>)"

definition settle_retract :: "bool \<Rightarrow> sys \<Rightarrow> bool \<times> sys" where
  "settle_retract ok s = (if \<not> ok then (False, s)
     else (True, if ru_debt (s_rec s) = Some ''retract'' then stamp_debt None s else s))"

text \<open>The repair itself: owed first, then the edges, then the status, then settled.\<close>

definition repair :: "conf \<Rightarrow> string \<Rightarrow> (string \<times> string) list \<Rightarrow> bool \<Rightarrow> sys \<Rightarrow> bool \<times> sys" where
  "repair cf nid premature moved s =
     (case retype nid premature (if ru_debt (s_rec s) = None then stamp_debt (Some ''retract'') s else s) of
        ((done, failed), t) \<Rightarrow>
          (case (if moved then restore_status cf nid (note_premature done t) else (True, note_premature done t)) of
             (ok, u) \<Rightarrow> settle_retract (\<not> failed \<and> ok) u))"

definition retract_premature :: "conf \<Rightarrow> item_view option \<Rightarrow> bool \<Rightarrow> sys \<Rightarrow> bool \<times> sys" where
  "retract_premature cf pre restore s =
     (let nid = ru_node_id (s_rec s) in
      case (case pre of Some v \<Rightarrow> (Some v, s) | None \<Rightarrow> read_item cf nid s) of
        (None, t) \<Rightarrow> (False, t)
      | (Some v, t) \<Rightarrow>
          if held_by (v_item v) \<noteq> Some (cl_execution_id (the_claim t)) \<or> gave_up v then (True, t)
          else
            (let premature = premature_resolvers (v_inbound v) (cl_snapshot (the_claim t)) (Some (own_resolver (s_rec t)));
                 moved = (restore \<and> v_terminal v \<and> lower (it_status (v_item v)) \<noteq> lower (cl_status_snapshot (the_claim t)))
             in if premature = [] \<and> \<not> moved then (True, t) else repair cf nid premature moved t))"

subsection \<open>The completion write\<close>

definition read_own_resolver :: "sys \<Rightarrow> own_view \<times> sys" where
  "read_own_resolver s =
     (let i = own_resolver (s_rec s); (a, t) = next_tick s;
          edge = (a = Answered \<and> (''resolves'', ru_node_id (s_rec s)) \<in> set (node_edges i (s_world t)))
      in (\<lparr>ow_id = i, ow_exists = (a = Answered \<and> map_of (w_nodes (s_world t)) i \<noteq> None), ow_edge = edge\<rparr>, logged (AOwn i edge) t))"

datatype settlement = Settled_as string | StillOwed

definition settle_as :: "string \<Rightarrow> sys \<Rightarrow> settlement \<times> sys" where
  "settle_as word s =
     (let r = (s_rec s)\<lparr>ru_debt := None\<rparr>;
          r' = (if word = ''written'' then r\<lparr>ru_written := True\<rparr> else if word = ''consumed'' then r\<lparr>ru_consumed := True\<rparr>
                else r\<lparr>ru_withdrawn := True\<rparr>)
      in (Settled_as word, logged (ASettle word) (s\<lparr>s_rec := r'\<rparr>)))"

definition withdraw_completion :: "conf \<Rightarrow> bool \<Rightarrow> sys \<Rightarrow> settlement \<times> sys" where
  "withdraw_completion cf touch s =
     (let nid = ru_node_id (s_rec s);
          (own, t) = read_own_resolver s;
          (ok, u) = (if \<not> ow_edge own then (True, t)
                     else case remove_edge (ow_id own) ''resolves'' nid t of
                       (False, u) \<Rightarrow> (False, u)
                     | (True, u) \<Rightarrow> add_edge (ow_id own) ''relates-to'' nid u)
      in if \<not> ok then (StillOwed, u)
         else if \<not> touch then settle_as ''withdrawn'' u
         else case clear_hold 3 cf nid (cl_execution_id (the_claim u)) False [] u of
           (Cleared h, w) \<Rightarrow> settle_as ''withdrawn'' w
         | (NothingHeld, w) \<Rightarrow> settle_as ''withdrawn'' w
         | (_, w) \<Rightarrow> (StillOwed, w))"

definition confirm_fence :: "conf \<Rightarrow> sys \<Rightarrow> bool \<times> sys" where
  "confirm_fence cf s = (if \<not> c_store cf then (True, s)
     else (let (a, t) = next_tick s in (a = Answered, logged (AConfirm (a = Answered)) t)))"

definition resolver_edges :: "conf \<Rightarrow> run_record \<Rightarrow> (string \<times> string) list" where
  "resolver_edges cf r = (''resolves'', ru_node_id r)
     # map (Pair ''relates-to'') (dedup_acc [] (filter (\<lambda>x. x \<noteq> [] \<and> x \<noteq> ru_node_id r)
         (c_facts cf @ (case ru_impl_resolver r of None \<Rightarrow> [] | Some i \<Rightarrow> [i]))))
     @ (case c_evidence cf of None \<Rightarrow> [] | Some es \<Rightarrow> es)"

definition ensure_resolver :: "conf \<Rightarrow> own_view \<Rightarrow> sys \<Rightarrow> bool \<times> sys" where
  "ensure_resolver cf own s =
     (if \<not> ow_exists own then
        (case write_node (ow_id own) (resolver_edges cf (s_rec s)) s of
           (False, t) \<Rightarrow> (False, t)
         | (True, t) \<Rightarrow> (True, t\<lparr>s_rec := (s_rec t)\<lparr>ru_resolver := Some (ow_id own)\<rparr>\<rparr>))
      else if \<not> ow_edge own then add_edge (ow_id own) ''resolves'' (ru_node_id (s_rec s)) s
      else (True, s))"

definition completed_item :: "conf \<Rightarrow> item \<Rightarrow> item" where
  "completed_item cf i = i\<lparr>it_status := (if c_completion_status cf (it_type i) = [] then ''done'' else c_completion_status cf (it_type i)),
     it_execution := [], it_execution_at := []\<rparr>"

text \<open>One pass over an item read as held by us, at the boundary: \<open>None\<close> is a lost compare-and-swap.\<close>

definition land :: "conf \<Rightarrow> bool \<Rightarrow> item_view \<Rightarrow> own_view \<Rightarrow> sys \<Rightarrow> settlement option \<times> sys" where
  "land cf evidence_ok v own s =
     (case retract_premature cf (Some v) False s of
        (False, t) \<Rightarrow> (Some StillOwed, t)
      | (True, t) \<Rightarrow>
          if \<not> evidence_ok then (Some StillOwed, t)
          else case confirm_fence cf t of
            (False, u) \<Rightarrow> (Some StillOwed, u)
          | (True, u) \<Rightarrow>
              (case ensure_resolver cf own u of
                 (False, w) \<Rightarrow> (Some StillOwed, w)
               | (True, w) \<Rightarrow>
                   if \<not> it_front (v_item v) then (Some StillOwed, w)
                   else case cas_write PComplete (it_revision (v_item v)) (completed_item cf (v_item v)) w of
                     (Wrote r, x) \<Rightarrow> map_prod Some id (settle_as ''written'' (x\<lparr>s_rec := (s_rec x)\<lparr>ru_resolver := Some (ow_id own)\<rparr>\<rparr>))
                   | (WriteFailed, x) \<Rightarrow> (Some StillOwed, x)
                   | (Conflict, x) \<Rightarrow> (None, x)))"

fun write_loop :: "nat \<Rightarrow> conf \<Rightarrow> bool \<Rightarrow> string \<Rightarrow> sys \<Rightarrow> settlement \<times> sys" where
  "write_loop 0 cf evidence_ok after s = (StillOwed, s)"
| "write_loop (Suc n) cf evidence_ok after s =
     (case read_item cf (ru_node_id (s_rec s)) s of
        (None, t) \<Rightarrow> (StillOwed, t)
      | (Some v, t) \<Rightarrow>
          (let (own, u) = read_own_resolver t; ex = cl_execution_id (the_claim u) in
           if gave_up v
           then (if ow_edge own \<or> held_by (v_item v) = Some ex then withdraw_completion cf True u else settle_as ''consumed'' u)
           else if held_by (v_item v) \<noteq> None \<and> held_by (v_item v) \<noteq> Some ex then withdraw_completion cf False u
           else if held_by (v_item v) = None
           then (if v_terminal v then settle_as ''consumed'' u
                 else if ow_edge own then withdraw_completion cf True u else settle_as ''released'' u)
           else if is_controller_record (s_rec u) \<and> (after \<noteq> cl_after (the_claim u) \<or> \<not> record_boundary_reached (s_rec u) (c_landed cf))
           then (StillOwed, u)
           else case land cf evidence_ok v own u of
             (Some out, w) \<Rightarrow> (out, w)
           | (None, w) \<Rightarrow> write_loop n cf evidence_ok after w))"

definition write_completion :: "conf \<Rightarrow> bool \<Rightarrow> string option \<Rightarrow> sys \<Rightarrow> settlement \<times> sys" where
  "write_completion cf evidence_ok boundary s =
     (if ru_written (s_rec s) then (Settled_as ''written'', s)
      else if ru_consumed (s_rec s) then (Settled_as ''consumed'', s)
      else if ru_withdrawn (s_rec s) then (Settled_as ''withdrawn'', s)
      else write_loop 4 cf evidence_ok
        (case boundary of Some b \<Rightarrow> b | None \<Rightarrow> if cl_after (the_claim s) = [] then ''gates'' else cl_after (the_claim s))
        (if ru_debt (s_rec s) = Some ''write'' then s else stamp_debt (Some ''write'') s))"

text \<open>One reconciliation pass: \<open>None\<close> when nothing is owed.\<close>

definition reconcile_completion :: "conf \<Rightarrow> bool \<Rightarrow> sys \<Rightarrow> settlement option \<times> sys" where
  "reconcile_completion cf evidence_ok s =
     (if \<not> is_controller_record (s_rec s) \<or> ru_written (s_rec s) \<or> ru_withdrawn (s_rec s) \<or> ru_consumed (s_rec s) then (None, s)
      else case read_item cf (ru_node_id (s_rec s)) s of
        (None, t) \<Rightarrow> (Some StillOwed, t)
      | (Some v, t) \<Rightarrow>
          (let (own, u) = read_own_resolver t in
           case derive_completion_debt (s_rec u) (Some v) (Some own) (c_landed cf) of
             None \<Rightarrow> (None, if ru_debt (s_rec u) \<noteq> None then stamp_debt None u else u)
           | Some d \<Rightarrow>
               (let w = (if ru_debt (s_rec u) \<noteq> Some d then stamp_debt (Some d) u else u) in
                if d = ''write'' then map_prod Some id (write_completion cf evidence_ok None w)
                else if d = ''withdraw'' then map_prod Some id (withdraw_completion cf True w)
                else map_prod (\<lambda>ok. Some (if ok then Settled_as ''retracted'' else StillOwed)) id
                  (retract_premature cf (Some v) True w))))"

end
