(* ===== verification/CompletionProps.thy ===== *)
theory CompletionProps
  imports Completion
begin

text \<open>
  What the controller's completion promises under every interleaving: no operation overwrites another execution's hold,
  the completing swap comes last and only at the pinned boundary, what did not land stays owed, and an
  undisturbed pass lands.
\<close>

subsection \<open>Steps of the environment and of ours\<close>

text \<open>A revision identifies the item's content and only grows.\<close>

definition honest_tick :: "tick \<Rightarrow> bool" where
  "honest_tick k \<longleftrightarrow> (\<forall>w. it_revision (w_item w) \<le> it_revision (w_item (fst k w))
     \<and> (it_revision (w_item (fst k w)) = it_revision (w_item w) \<longrightarrow> w_item (fst k w) = w_item w))"

definition honest :: "sys \<Rightarrow> bool" where
  "honest s \<longleftrightarrow> list_all honest_tick (s_ticks s)"

text \<open>An item read earlier: the world has moved past its revision, or still has it.\<close>

definition fresh :: "item \<Rightarrow> sys \<Rightarrow> bool" where
  "fresh i s \<longleftrightarrow> it_revision i \<le> it_revision (w_item (s_world s))
     \<and> (it_revision (w_item (s_world s)) = it_revision i \<longrightarrow> w_item (s_world s) = i)"

text \<open>What no operation changes of the run record: its identity, its claim and the settled verdicts.\<close>

definition pinned_fields :: "run_record \<Rightarrow> run_record" where
  "pinned_fields r = r\<lparr>ru_debt := None, ru_premature := [], ru_written := False, ru_consumed := False, ru_withdrawn := False,
     ru_resolver := Some (own_resolver r)\<rparr>"

definition steps :: "(action \<Rightarrow> bool) \<Rightarrow> sys \<Rightarrow> sys \<Rightarrow> bool" where
  "steps P s t \<longleftrightarrow> honest t \<and> (\<forall>i. fresh i s \<longrightarrow> fresh i t) \<and> pinned_fields (s_rec t) = pinned_fields (s_rec s)
     \<and> (\<exists>new. s_log t = s_log s @ new \<and> list_all P new)"

definition tame :: "(action \<Rightarrow> bool) \<Rightarrow> bool" where
  "tame P \<longleftrightarrow> (\<forall>a. (\<forall>p i j. a \<noteq> ACas p i j) \<longrightarrow> P a)"

lemma steps_refl [simp, intro]: "honest s \<Longrightarrow> steps P s s"
  by (simp add: steps_def)

lemma steps_trans [trans]: "steps P s t \<Longrightarrow> steps P t u \<Longrightarrow> steps P s u"
  unfolding steps_def by fastforce

lemma steps_honest: "steps P s t \<Longrightarrow> honest t"
  by (simp add: steps_def)

lemma steps_fresh: "steps P s t \<Longrightarrow> fresh i s \<Longrightarrow> fresh i t"
  by (simp add: steps_def)

lemma pinned_sel:
  "ru_node_id (pinned_fields r) = ru_node_id r" "ru_claim (pinned_fields r) = ru_claim r"
  "ru_gates_state (pinned_fields r) = ru_gates_state r" "ru_integration_state (pinned_fields r) = ru_integration_state r"
  "own_resolver (pinned_fields r) = own_resolver r"
  by (simp_all add: pinned_fields_def own_resolver_def)

lemma pinned_eqD:
  assumes "pinned_fields r = pinned_fields q"
  shows "ru_node_id r = ru_node_id q" "ru_claim r = ru_claim q" "own_resolver r = own_resolver q"
    "ru_gates_state r = ru_gates_state q" "ru_integration_state r = ru_integration_state q"
  using arg_cong [OF assms, of ru_node_id] arg_cong [OF assms, of ru_claim] arg_cong [OF assms, of own_resolver]
    arg_cong [OF assms, of ru_gates_state] arg_cong [OF assms, of ru_integration_state]
  by (simp_all only: pinned_sel)

lemma steps_pinned: "steps P s t \<Longrightarrow> pinned_fields (s_rec t) = pinned_fields (s_rec s)"
  by (simp add: steps_def)

lemma steps_node: "steps P s t \<Longrightarrow> ru_node_id (s_rec t) = ru_node_id (s_rec s)"
  by (rule pinned_eqD [OF steps_pinned])

lemma steps_claim: "steps P s t \<Longrightarrow> the_claim t = the_claim s"
  unfolding the_claim_def by (simp only: pinned_eqD(2) [OF steps_pinned])

lemma steps_own: "steps P s t \<Longrightarrow> own_resolver (s_rec t) = own_resolver (s_rec s)"
  by (rule pinned_eqD [OF steps_pinned])

lemma steps_boundary:
  assumes "steps P s t"
  shows "record_boundary_reached (s_rec t) landed = record_boundary_reached (s_rec s) landed"
    "is_controller_record (s_rec t) = is_controller_record (s_rec s)"
  by (simp_all only: record_boundary_reached_def is_controller_record_def pinned_eqD [OF steps_pinned [OF assms]])

lemma next_tick_steps: "honest s \<Longrightarrow> next_tick s = (a, t) \<Longrightarrow> steps P s t"
  by (auto simp: next_tick_def steps_def honest_def honest_tick_def fresh_def split: list.splits)
     (metis le_antisym order_trans)+

lemma logged_steps: "honest s \<Longrightarrow> P a \<Longrightarrow> steps P s (logged a s)"
  by (simp add: steps_def logged_def honest_def fresh_def)

lemma nodes_steps: "honest s \<Longrightarrow> w_item w = w_item (s_world s) \<Longrightarrow> steps P s (s\<lparr>s_world := w\<rparr>)"
  by (simp add: steps_def honest_def fresh_def)

lemma rec_steps: "honest s \<Longrightarrow> pinned_fields r = pinned_fields (s_rec s) \<Longrightarrow> steps P s (s\<lparr>s_rec := r\<rparr>)"
  by (simp add: steps_def honest_def fresh_def)

lemma tame_simps:
  assumes "tame P"
  shows "P (AOwe d)" "P (ASettle w)" "P (AOwn x b)" "P (AConfirm b)" "P (ANode x)" "P (AEdge x y)" "P (AUnedge x y)"
  using assms by (auto simp: tame_def)

lemma read_item_steps:
  assumes "honest s" and "read_item cf nid s = (v, t)"
  shows "steps P s t \<and> (\<forall>x. v = Some x \<longrightarrow> fresh (v_item x) t \<and> x = view_of cf nid (s_world t))"
  using assms next_tick_steps [OF assms(1)]
  by (auto simp: read_item_def fresh_def view_of_def split: prod.splits if_splits)

lemma on_node_item [simp]: "w_item (on_node i f w) = w_item w"
  by (simp add: on_node_def)

lemma door_steps:
  assumes "tame P" and "honest s" and "next_tick s = (a, t)" and "w_item w = w_item (s_world t)"
    and "P act"
  shows "steps P s (logged act (t\<lparr>s_world := w\<rparr>))"
proof -
  have t: "steps P s t" using next_tick_steps [OF assms(2,3)] .
  also have u: "steps P t (t\<lparr>s_world := w\<rparr>)" using nodes_steps [OF steps_honest [OF t] assms(4)] .
  also have "steps P (t\<lparr>s_world := w\<rparr>) (logged act (t\<lparr>s_world := w\<rparr>))" using logged_steps [where P = P and a = act, OF steps_honest [OF u] assms(5)] .
  finally show ?thesis .
qed

lemma add_edge_steps: "tame P \<Longrightarrow> honest s \<Longrightarrow> add_edge x y z s = (b, t) \<Longrightarrow> steps P s t"
  by (auto simp: add_edge_def Let_def intro: next_tick_steps door_steps tame_simps split: prod.splits if_splits)

lemma remove_edge_steps: "tame P \<Longrightarrow> honest s \<Longrightarrow> remove_edge x y z s = (b, t) \<Longrightarrow> steps P s t"
  by (auto simp: remove_edge_def Let_def intro: next_tick_steps door_steps tame_simps split: prod.splits if_splits)

lemma write_node_steps:
  assumes "tame P" and "honest s" and "write_node x es s = (b, t)"
  shows "steps P s t"
proof -
  obtain a u where u: "next_tick s = (a, u)" by (cases "next_tick s")
  have here: "steps P s (logged (ANode x) u)"
    using door_steps [OF assms(1,2) u refl tame_simps(5) [OF assms(1)], of x] by simp
  let ?new = "(s_world u)\<lparr>w_nodes := w_nodes (s_world u) @ [(x, \<lparr>cn_edges = es, cn_counts = True\<rparr>)]\<rparr>"
  have there: "steps P s (logged (ANode x) (u\<lparr>s_world := ?new\<rparr>))"
    by (rule door_steps [OF assms(1,2) u _ tame_simps(5) [OF assms(1)]]) simp
  have "t = u \<or> t = logged (ANode x) u \<or> t = logged (ANode x) (u\<lparr>s_world := ?new\<rparr>)"
    using assms(3) by (simp add: write_node_def u split: option.splits if_splits)
  with here there next_tick_steps [OF assms(2) u] show ?thesis by blast
qed

lemma own_resolver_upd [simp]:
  "own_resolver (r\<lparr>ru_debt := d\<rparr>) = own_resolver r" "own_resolver (r\<lparr>ru_premature := p\<rparr>) = own_resolver r"
  "own_resolver (r\<lparr>ru_written := b\<rparr>) = own_resolver r" "own_resolver (r\<lparr>ru_consumed := b\<rparr>) = own_resolver r"
  "own_resolver (r\<lparr>ru_withdrawn := b\<rparr>) = own_resolver r" "own_resolver (r\<lparr>ru_resolver := Some i\<rparr>) = i"
  by (simp_all add: own_resolver_def split: option.split)

lemma pinned_upd [simp]:
  "pinned_fields (r\<lparr>ru_debt := d\<rparr>) = pinned_fields r" "pinned_fields (r\<lparr>ru_premature := p\<rparr>) = pinned_fields r"
  "pinned_fields (r\<lparr>ru_written := b\<rparr>) = pinned_fields r" "pinned_fields (r\<lparr>ru_consumed := b\<rparr>) = pinned_fields r"
  "pinned_fields (r\<lparr>ru_withdrawn := b\<rparr>) = pinned_fields r" "pinned_fields (r\<lparr>ru_resolver := Some (own_resolver r)\<rparr>) = pinned_fields r"
  by (simp_all add: pinned_fields_def)

lemma rec_log_steps: "honest s \<Longrightarrow> P a \<Longrightarrow> pinned_fields r = pinned_fields (s_rec s) \<Longrightarrow> steps P s (logged a (s\<lparr>s_rec := r\<rparr>))"
  by (simp add: steps_def logged_def honest_def fresh_def)

lemma stamp_debt_steps: "tame P \<Longrightarrow> honest s \<Longrightarrow> steps P s (stamp_debt d s)"
  unfolding stamp_debt_def by (rule rec_log_steps) (simp_all add: tame_simps)

lemma cas_steps:
  assumes "honest s" and "fresh i s" and "P (ACas p i (new\<lparr>it_revision := Suc (it_revision i)\<rparr>))"
    and "cas_write p (it_revision i) new s = (a, t)"
  shows "steps P s t"
proof -
  obtain b u where u: "next_tick s = (b, u)" by (cases "next_tick s")
  have su: "steps P s u" using next_tick_steps [OF assms(1) u] .
  have old: "it_revision (w_item (s_world u)) = it_revision i \<Longrightarrow> w_item (s_world u) = i"
    using steps_fresh [OF su assms(2)] by (simp add: fresh_def)
  let ?new = "new\<lparr>it_revision := Suc (it_revision i)\<rparr>"
  have "it_revision (w_item (s_world u)) = it_revision i
    \<Longrightarrow> steps P u (logged (ACas p (w_item (s_world u)) ?new) (u\<lparr>s_world := (s_world u)\<lparr>w_item := ?new\<rparr>\<rparr>))"
    using assms(3) old steps_honest [OF su] by (auto simp: steps_def logged_def honest_def fresh_def)
  with su assms(4) u show ?thesis
    by (auto simp: cas_write_def Let_def intro: steps_trans split: if_splits)
qed

subsection \<open>Every operation is made of steps\<close>

definition given_up :: "conf \<Rightarrow> item \<Rightarrow> bool" where
  "given_up cf i = (case c_give_up cf of Some g \<Rightarrow> g (it_type i) (it_status i) | None \<Rightarrow> lower (it_status i) = ''abandoned'')"

lemma view_sel [simp]:
  "v_item (view_of cf nid w) = w_item w" "v_inbound (view_of cf nid w) = inbound_of nid w"
  "v_terminal (view_of cf nid w) = c_terminal cf (it_type (w_item w)) (it_status (w_item w))"
  "gave_up (view_of cf nid w) = given_up cf (w_item w)"
  by (simp_all add: view_of_def gave_up_def given_up_def split: option.splits)

definition bump :: "item \<Rightarrow> item \<Rightarrow> item" where
  "bump old new = new\<lparr>it_revision := Suc (it_revision old)\<rparr>"

text \<open>Swaps by the execution \<open>ex\<close> that a predicate on logged actions lets through.\<close>

definition lets_mend :: "(action \<Rightarrow> bool) \<Rightarrow> string \<Rightarrow> string \<Rightarrow> bool" where
  "lets_mend P ex snap \<longleftrightarrow> tame P
     \<and> (\<forall>i. held_by i = Some ex \<longrightarrow> P (ACas PClear i (bump i (cleared_item [] i))))
     \<and> (\<forall>i. held_by i = Some ex \<longrightarrow> P (ACas PRestore i (bump i (i\<lparr>it_status := snap\<rparr>))))"

definition lets_complete :: "conf \<Rightarrow> (action \<Rightarrow> bool) \<Rightarrow> string \<Rightarrow> bool" where
  "lets_complete cf P ex \<longleftrightarrow> (\<forall>i. held_by i = Some ex \<and> \<not> given_up cf i \<longrightarrow> P (ACas PComplete i (bump i (completed_item cf i))))"

abbreviation mends :: "(action \<Rightarrow> bool) \<Rightarrow> sys \<Rightarrow> bool" where
  "mends P s \<equiv> lets_mend P (cl_execution_id (the_claim s)) (cl_status_snapshot (the_claim s))"

lemma mends_tame: "lets_mend P ex snap \<Longrightarrow> tame P"
  by (simp add: lets_mend_def)

lemma mends_steps: "steps Q s t \<Longrightarrow> mends P t = mends P s"
  by (simp only: steps_claim)

lemma cas_bump:
  assumes "honest s" and "fresh i s" and "P (ACas p i (bump i new))" and "cas_write p (it_revision i) new s = (a, t)"
  shows "steps P s t"
  using cas_steps [OF assms(1,2) _ assms(4)] assms(3) by (simp add: bump_def)

lemma clear_hold_steps:
  assumes "lets_mend P ex snap" and "honest s"
  shows "clear_hold n cf nid ex False [] s = (r, t) \<Longrightarrow> steps P s t"
  using assms(2)
proof (induction n arbitrary: s)
  case (Suc n)
  obtain v u where ru: "read_item cf nid s = (v, u)" by (cases "read_item cf nid s")
  note su = read_item_steps [OF Suc.prems(2) ru, of P]
  show ?case
  proof (cases "\<exists>x. v = Some x \<and> held_by (v_item x) = Some ex \<and> it_front (v_item x)")
    case False
    then have "t = u" using Suc.prems(1) by (auto simp: ru split: option.splits if_splits)
    with su show ?thesis by simp
  next
    case True
    then obtain x where x: "v = Some x" "held_by (v_item x) = Some ex" "it_front (v_item x)" by blast
    obtain b w where cw: "cas_write PClear (it_revision (v_item x)) (cleared_item [] (v_item x)) u = (b, w)"
      by (cases "cas_write PClear (it_revision (v_item x)) (cleared_item [] (v_item x)) u")
    have uw: "steps P u w"
      by (rule cas_bump [OF _ _ _ cw]) (use su x assms(1) in \<open>auto simp: lets_mend_def steps_honest\<close>)
    with su have sw: "steps P s w" by (blast intro: steps_trans)
    show ?thesis using Suc.prems(1) sw Suc.IH [OF _ steps_honest [OF sw]]
      by (cases b) (auto simp: ru x cw intro: steps_trans)
  qed
qed simp

lemma retype_steps: "tame P \<Longrightarrow> honest s \<Longrightarrow> retype nid ps s = (r, t) \<Longrightarrow> steps P s t"
proof (induction ps arbitrary: s r t)
  case (Cons p ps)
  obtain x y where p: "p = (x, y)" by (cases p)
  obtain b u where ru: "remove_edge x y nid s = (b, u)" by (cases "remove_edge x y nid s")
  have su: "steps P s u" using remove_edge_steps [OF Cons.prems(1,2) ru] .
  obtain c w where aw: "add_edge x ''relates-to'' nid u = (c, w)" by (cases "add_edge x ''relates-to'' nid u")
  have uw: "steps P u w" using add_edge_steps [OF Cons.prems(1) steps_honest [OF su] aw] .
  have rest: "\<And>q. steps P s q \<Longrightarrow> steps P s (snd (retype nid ps q))"
    using Cons.IH [OF Cons.prems(1)] steps_honest by (metis steps_trans prod.collapse)
  have "t = snd (retype nid ps u) \<or> t = snd (retype nid ps w)"
    using Cons.prems(3) by (auto simp: p ru aw split: prod.splits bool.splits)
  with rest su steps_trans [OF su uw] show ?case by blast
qed simp

lemma restore_status_steps:
  assumes "mends P s" and "honest s" and "restore_status cf nid s = (r, t)"
  shows "steps P s t"
proof -
  obtain v u where ru: "read_item cf nid s = (v, u)" by (cases "read_item cf nid s")
  have su: "steps P s u" "\<And>x. v = Some x \<Longrightarrow> fresh (v_item x) u" using read_item_steps [OF assms(2) ru, of P] by auto
  have "P (ACas PRestore i (bump i (i\<lparr>it_status := cl_status_snapshot (the_claim u)\<rparr>)))"
    if "held_by i = Some (cl_execution_id (the_claim u))" for i
    using assms(1) that steps_claim [OF su(1)] by (simp add: lets_mend_def)
  from cas_bump [where P = P, OF steps_honest [OF su(1)] su(2) this] show ?thesis using su(1) assms(3)
    by (auto simp: restore_status_def ru intro: steps_trans split: option.splits if_splits prod.splits write_answer.splits)
qed

lemma note_premature_steps: "honest s \<Longrightarrow> steps P s (note_premature done s)"
  by (simp add: note_premature_def rec_steps)

lemma settle_retract_steps: "tame P \<Longrightarrow> honest s \<Longrightarrow> settle_retract ok s = (r, t) \<Longrightarrow> steps P s t"
  by (auto simp: settle_retract_def intro: stamp_debt_steps split: if_splits)

lemma repair_steps:
  assumes "mends P s \<or> (tame P \<and> \<not> moved)" and "honest s" and "repair cf nid ps moved s = (r, t)"
  shows "steps P s t"
proof -
  have tame: "tame P" using assms(1) mends_tame by blast
  let ?owed = "if ru_debt (s_rec s) = None then stamp_debt (Some ''retract'') s else s"
  have so: "steps P s ?owed" using assms(2) stamp_debt_steps [OF tame assms(2)] by simp
  obtain d f u where rt: "retype nid ps ?owed = ((d, f), u)" by (metis prod.collapse)
  have su: "steps P s u" using steps_trans [OF so retype_steps [OF tame steps_honest [OF so] rt]] .
  have sn: "steps P s (note_premature d u)" using steps_trans [OF su note_premature_steps [OF steps_honest [OF su]]] .
  obtain ok w where w: "(if moved then restore_status cf nid (note_premature d u) else (True, note_premature d u)) = (ok, w)"
    by (cases "if moved then restore_status cf nid (note_premature d u) else (True, note_premature d u)")
  have "steps P s w"
  proof (cases moved)
    case True
    then have "mends P (note_premature d u)" using assms(1) mends_steps [OF sn] by blast
    with True w show ?thesis using steps_trans [OF sn restore_status_steps [OF _ steps_honest [OF sn]]] by auto
  qed (use w sn in auto)
  then show ?thesis using assms(3) settle_retract_steps [OF tame, of w] steps_honest [of P s w] steps_trans [of P s w]
    by (auto simp: repair_def rt w)
qed

lemma retract_premature_steps:
  assumes "mends P s \<or> (tame P \<and> \<not> restore)" and "honest s" and "retract_premature cf pre restore s = (r, t)"
  shows "steps P s t"
proof -
  let ?nid = "ru_node_id (s_rec s)"
  obtain v u where ru: "(case pre of Some v \<Rightarrow> (Some v, s) | None \<Rightarrow> read_item cf ?nid s) = (v, u)"
    by (cases "case pre of Some v \<Rightarrow> (Some v, s) | None \<Rightarrow> read_item cf ?nid s")
  have su: "steps P s u" using ru read_item_steps [OF assms(2), of cf ?nid, where P = P] assms(2) by (auto split: option.splits)
  have "steps P s x" if "repair cf ?nid ps (restore \<and> m) u = (r, x)" for ps m x
    using steps_trans [OF su repair_steps [OF _ steps_honest [OF su] that]] assms(1) mends_steps [OF su, of P] by blast
  with su assms(3) show ?thesis unfolding retract_premature_def Let_def ru
    by (auto split: option.splits if_splits)
qed

lemma read_own_steps:
  assumes "tame P" and "honest s" and "read_own_resolver s = (ow, t)"
  shows "steps P s t \<and> ow_id ow = own_resolver (s_rec s) \<and> s_log t = s_log s @ [AOwn (ow_id ow) (ow_edge ow)]"
proof -
  obtain a u where u: "next_tick s = (a, u)" by (cases "next_tick s")
  have "s_log u = s_log s" using u by (auto simp: next_tick_def split: list.splits)
  moreover have "steps P s (logged (AOwn x b) u)" for x b
    using door_steps [OF assms(1,2) u refl tame_simps(3) [OF assms(1)], of x b] by simp
  ultimately show ?thesis using assms(3) by (auto simp: read_own_resolver_def u logged_def Let_def)
qed

lemma settle_as_steps:
  assumes "tame P" and "honest s" and "settle_as w s = (r, t)"
  shows "steps P s t"
proof -
  obtain q where "t = logged (ASettle w) (s\<lparr>s_rec := q\<rparr>)" "pinned_fields q = pinned_fields (s_rec s)"
    using assms(3) by (auto simp: settle_as_def Let_def)
  then show ?thesis using rec_log_steps [where P = P and a = "ASettle w", OF assms(2) tame_simps(2) [OF assms(1)]] by simp
qed

lemma withdraw_completion_steps:
  assumes "mends P s" and "honest s" and "withdraw_completion cf touch s = (r, t)"
  shows "steps P s t"
proof -
  have tame: "tame P" using assms(1) by (rule mends_tame)
  let ?nid = "ru_node_id (s_rec s)"
  obtain ow u where ow: "read_own_resolver s = (ow, u)" by (cases "read_own_resolver s")
  have su: "steps P s u" using read_own_steps [OF tame assms(2) ow] by blast
  obtain ok w where w: "(if \<not> ow_edge ow then (True, u) else case remove_edge (ow_id ow) ''resolves'' ?nid u of
      (False, u) \<Rightarrow> (False, u) | (True, u) \<Rightarrow> add_edge (ow_id ow) ''relates-to'' ?nid u) = (ok, w)"
    by (cases "if \<not> ow_edge ow then (True, u) else case remove_edge (ow_id ow) ''resolves'' ?nid u of
      (False, u) \<Rightarrow> (False, u) | (True, u) \<Rightarrow> add_edge (ow_id ow) ''relates-to'' ?nid u")
  have "steps P u w" using w steps_honest [OF su] remove_edge_steps [OF tame steps_honest [OF su]]
    by (auto split: if_splits prod.splits bool.splits) (meson add_edge_steps steps_honest steps_trans tame)+
  with su have sw: "steps P s w" by (rule steps_trans)
  have clear: "steps P s x" if "clear_hold 3 cf ?nid (cl_execution_id (the_claim w)) False [] w = (c, x)" for c x
    using clear_hold_steps [OF _ steps_honest [OF sw] that] assms(1) steps_trans [OF sw] by (metis mends_steps sw)
  have settle: "steps P s x" if "steps P s q" "settle_as z q = (c, x)" for q z c x
    using steps_trans [OF that(1) settle_as_steps [OF tame steps_honest [OF that(1)] that(2)]] .
  show ?thesis using assms(3) unfolding withdraw_completion_def Let_def ow
    by (simp add: w split: if_splits prod.splits clear_result.splits) (use sw clear settle in \<open>blast+\<close>)
qed

definition since :: "sys \<Rightarrow> sys \<Rightarrow> action list" where
  "since s t = drop (length (s_log s)) (s_log t)"

lemma since_log: "steps P s t \<Longrightarrow> s_log t = s_log s @ since s t"
  by (auto simp: steps_def since_def)

lemma since_all: "steps P s t \<Longrightarrow> list_all P (since s t)"
  by (auto simp: steps_def since_def)

lemma since_trans: "steps P s t \<Longrightarrow> steps Q t u \<Longrightarrow> since s u = since s t @ since t u"
  by (auto simp: steps_def since_def)

lemma next_tick_log: "next_tick s = (a, t) \<Longrightarrow> s_log t = s_log s \<and> s_rec t = s_rec s"
  by (auto simp: next_tick_def split: list.splits)

lemma confirm_steps:
  assumes "tame P" and "honest s" and "confirm_fence cf s = (b, t)"
  shows "steps P s t \<and> (b \<and> c_store cf \<longrightarrow> AConfirm True \<in> set (since s t))"
proof -
  obtain a u where u: "next_tick s = (a, u)" by (cases "next_tick s")
  have "steps P s (logged (AConfirm x) u)" for x
    using door_steps [OF assms(1,2) u refl tame_simps(4) [OF assms(1)], of x] by simp
  moreover have "s_log u = s_log s" using next_tick_log [OF u] by simp
  ultimately show ?thesis using assms by (auto simp: confirm_fence_def u logged_def since_def split: if_splits)
qed

definition edge_written :: "string \<Rightarrow> action list \<Rightarrow> bool" where
  "edge_written i l \<longleftrightarrow> ANode i \<in> set l \<or> AEdge i ''resolves'' \<in> set l"

lemma ensure_steps:
  assumes "tame P" and "honest s" and "ow_id ow = own_resolver (s_rec s)" and "ensure_resolver cf ow s = (b, t)"
  shows "steps P s t \<and> (b \<and> \<not> ow_edge ow \<longrightarrow> edge_written (ow_id ow) (since s t)) \<and> ru_debt (s_rec t) = ru_debt (s_rec s)"
proof -
  obtain c u where u: "write_node (ow_id ow) (resolver_edges cf (s_rec s)) s = (c, u)"
    by (cases "write_node (ow_id ow) (resolver_edges cf (s_rec s)) s")
  have su: "steps P s u" using write_node_steps [OF assms(1,2) u] .
  have "steps P u (u\<lparr>s_rec := (s_rec u)\<lparr>ru_resolver := Some (ow_id ow)\<rparr>\<rparr>)"
    by (rule rec_steps [OF steps_honest [OF su]]) (simp add: assms(3) steps_own [OF su, symmetric])
  with su have sr: "steps P s (u\<lparr>s_rec := (s_rec u)\<lparr>ru_resolver := Some (ow_id ow)\<rparr>\<rparr>)" by (rule steps_trans)
  have n: "c \<Longrightarrow> ANode (ow_id ow) \<in> set (since s u)" "s_rec u = s_rec s"
    using u next_tick_log by (fastforce simp: write_node_def logged_def since_def split: prod.splits option.splits if_splits)+
  have e: "add_edge i y z s = (d, q) \<Longrightarrow> (d \<longrightarrow> AEdge i y \<in> set (since s q)) \<and> s_rec q = s_rec s" for i y z q d
    using next_tick_log by (fastforce simp: add_edge_def logged_def since_def split: prod.splits if_splits)
  show ?thesis
  proof (cases "ow_exists ow")
    case False
    with assms(4) have "(\<not> b \<and> \<not> c \<and> t = u) \<or> (b \<and> c \<and> t = u\<lparr>s_rec := (s_rec u)\<lparr>ru_resolver := Some (ow_id ow)\<rparr>\<rparr>)"
      by (auto simp: ensure_resolver_def u split: bool.splits)
    then show ?thesis using su sr n by (auto simp: edge_written_def since_def)
  next
    case True
    then show ?thesis using assms(4) e [of "ow_id ow" "''resolves''" "ru_node_id (s_rec s)" b t] add_edge_steps [OF assms(1,2)] assms(2)
      by (auto simp: ensure_resolver_def edge_written_def split: if_splits)
  qed
qed

subsection \<open>The completing swap\<close>

definition no_completion :: "action \<Rightarrow> bool" where
  "no_completion a \<longleftrightarrow> (\<forall>i j. a \<noteq> ACas PComplete i j)"

lemma no_completion_mends: "lets_mend no_completion ex snap"
  by (simp add: lets_mend_def tame_def no_completion_def)

lemmas no_completion_tame = no_completion_mends [THEN mends_tame]

definition judged :: "conf \<Rightarrow> string \<Rightarrow> bool \<Rightarrow> action list \<Rightarrow> bool" where
  "judged cf own had mid \<longleftrightarrow> (c_store cf \<longrightarrow> AConfirm True \<in> set mid) \<and> (had \<or> edge_written own mid)"

definition pass_log :: "conf \<Rightarrow> string \<Rightarrow> bool \<Rightarrow> item \<Rightarrow> action list \<Rightarrow> bool" where
  "pass_log cf own had i l \<longleftrightarrow> (\<exists>mid fin. l = mid @ ACas PComplete i (bump i (completed_item cf i)) # fin
     \<and> list_all no_completion mid \<and> list_all no_completion fin \<and> judged cf own had mid)"

lemma pass_logI:
  "list_all no_completion mid \<Longrightarrow> list_all no_completion fin \<Longrightarrow> judged cf own had mid
   \<Longrightarrow> pass_log cf own had i (mid @ ACas PComplete i (bump i (completed_item cf i)) # fin)"
  unfolding pass_log_def by blast

lemma cas_cases:
  assumes "honest s" and "fresh i s" and "cas_write p (it_revision i) new s = (a, t)"
  shows "s_rec t = s_rec s \<and> (since s t = [] \<and> (a = Conflict \<or> a = WriteFailed) \<or> since s t = [ACas p i (bump i new)] \<and> a \<noteq> Conflict)"
proof -
  obtain b u where u: "next_tick s = (b, u)" by (cases "next_tick s")
  have "fresh i u" using steps_fresh [OF next_tick_steps [OF assms(1) u] assms(2)] .
  then show ?thesis using assms(3) u next_tick_log [OF u]
    by (auto simp: cas_write_def Let_def since_def logged_def fresh_def bump_def split: if_splits)
qed

lemma judged_steps:
  assumes s: "honest s" and ow: "ow_id ow = own_resolver (s_rec s)"
    and rt: "retract_premature cf (Some v) False s = (True, t)" and cu: "confirm_fence cf t = (True, u)"
    and ew: "ensure_resolver cf ow u = (True, w)"
  shows "steps no_completion s w \<and> judged cf (own_resolver (s_rec s)) (ow_edge ow) (since s w)"
proof -
  note tame = no_completion_tame
  have st: "steps no_completion s t" using retract_premature_steps [OF _ s rt] tame by blast
  have tu: "steps no_completion t u" "c_store cf \<Longrightarrow> AConfirm True \<in> set (since t u)"
    using confirm_steps [OF tame steps_honest [OF st] cu] by auto
  have su: "steps no_completion s u" using steps_trans [OF st tu(1)] .
  have uw: "steps no_completion u w" "\<not> ow_edge ow \<Longrightarrow> edge_written (ow_id ow) (since u w)"
    using ensure_steps [OF tame steps_honest [OF su] _ ew] ow steps_own [OF su] by auto
  have "since s w = since s t @ since t u @ since u w"
    using since_trans [OF st steps_trans [OF tu(1) uw(1)]] since_trans [OF tu(1) uw(1)] by simp
  then show ?thesis using steps_trans [OF su uw(1)] tu(2) uw(2) ow by (auto simp: judged_def edge_written_def)
qed

lemma land_cases:
  assumes s: "honest s" and fr: "fresh (v_item v) s" and ow: "ow_id ow = own_resolver (s_rec s)"
    and l: "land cf ev v ow s = (out, t)"
  shows "(steps no_completion s t \<and> (out = Some StillOwed \<or> out = None))
    \<or> ((out = Some (Settled_as ''written'') \<or> out = Some StillOwed)
        \<and> pass_log cf (own_resolver (s_rec s)) (ow_edge ow) (v_item v) (since s t))"
proof -
  let ?own = "own_resolver (s_rec s)" and ?i = "v_item v"
  obtain b1 t1 where 1: "retract_premature cf (Some v) False s = (b1, t1)" by (cases "retract_premature cf (Some v) False s")
  have st1: "steps no_completion s t1" using retract_premature_steps [OF _ s 1] no_completion_tame by blast
  obtain b2 t2 where 2: "confirm_fence cf t1 = (b2, t2)" by (cases "confirm_fence cf t1")
  have st2: "steps no_completion s t2"
    using steps_trans [OF st1] confirm_steps [OF no_completion_tame steps_honest [OF st1] 2] by blast
  obtain b3 t3 where 3: "ensure_resolver cf ow t2 = (b3, t3)" by (cases "ensure_resolver cf ow t2")
  have st3: "steps no_completion s t3"
    using steps_trans [OF st2] ensure_steps [OF no_completion_tame steps_honest [OF st2] _ 3] ow steps_own [OF st2] by auto
  obtain a t4 where 4: "cas_write PComplete (it_revision ?i) (completed_item cf ?i) t3 = (a, t4)"
    by (cases "cas_write PComplete (it_revision ?i) (completed_item cf ?i) t3")
  note c = cas_cases [OF steps_honest [OF st3] steps_fresh [OF st3 fr] 4]
  show ?thesis
  proof (cases "b1 \<and> ev \<and> b2 \<and> b3 \<and> it_front ?i")
    case False
    then show ?thesis using l st1 st2 st3 by (auto simp: land_def 1 2 3 split: bool.splits if_splits)
  next
    case True
    then have run: "b1" "ev" "b2" "b3" "it_front ?i" by auto
    have j: "judged cf ?own (ow_edge ow) (since s t3)" using judged_steps [OF s ow, of cf v t1 t2 t3] 1 2 3 run by auto
    have any: "steps (\<lambda>_. True) t3 t4" by (rule cas_bump [OF steps_honest [OF st3] steps_fresh [OF st3 fr] _ 4]) simp
    note app = since_trans [OF st3 any]
    have lands: "(case a of Wrote r \<Rightarrow> map_prod Some id (settle_as ''written'' (t4\<lparr>s_rec := (s_rec t4)\<lparr>ru_resolver := Some (ow_id ow)\<rparr>\<rparr>))
        | WriteFailed \<Rightarrow> (Some StillOwed, t4) | Conflict \<Rightarrow> (None, t4)) = (out, t)"
      using l run by (simp add: land_def 1 2 3 4)
    show ?thesis
    proof (cases a)
      case Conflict
      then have "s_world t4 = s_world t4 \<and> since t3 t4 = []" using c by auto
      then have "steps no_completion t3 t4" using any by (auto simp: steps_def since_def)
      with Conflict lands show ?thesis using steps_trans [OF st3] by auto
    next
      case WriteFailed
      show ?thesis
      proof (cases "since t3 t4 = []")
        case True
        then have "steps no_completion t3 t4" using any by (auto simp: steps_def since_def)
        with WriteFailed lands show ?thesis using steps_trans [OF st3] by auto
      next
        case False
        then have "since s t = since s t3 @ [ACas PComplete ?i (bump ?i (completed_item cf ?i))]"
          using c app WriteFailed lands by auto
        then show ?thesis using WriteFailed lands pass_logI [OF since_all [OF st3] _ j, of "[]"] by simp
      qed
    next
      case (Wrote r)
      have lt: "s_log t = s_log t4 @ [ASettle ''written'']" and out: "out = Some (Settled_as ''written'')"
        using Wrote lands by (auto simp: settle_as_def Let_def logged_def)
      have "length (s_log s) \<le> length (s_log t4)"
        using arg_cong [OF since_log [OF st3], of length] arg_cong [OF since_log [OF any], of length] by simp
      then have "since s t = since s t4 @ [ASettle ''written'']" using lt by (simp add: since_def)
      moreover have "since t3 t4 = [ACas PComplete ?i (bump ?i (completed_item cf ?i))]" using c Wrote by auto
      ultimately have "since s t = since s t3 @ [ACas PComplete ?i (bump ?i (completed_item cf ?i)), ASettle ''written'']"
        using app by simp
      then show ?thesis using pass_logI [OF since_all [OF st3] _ j, of "[ASettle ''written'']"] out by (simp add: no_completion_def)
    qed
  qed
qed

lemma land_steps:
  assumes P: "tame P" "held_by (v_item v) = Some ex \<Longrightarrow> \<not> given_up cf (v_item v) \<Longrightarrow> P (ACas PComplete (v_item v) (bump (v_item v) (completed_item cf (v_item v))))"
    and i: "held_by (v_item v) = Some ex" "\<not> given_up cf (v_item v)"
    and s: "honest s" and fr: "fresh (v_item v) s" and ow: "ow_id ow = own_resolver (s_rec s)"
    and l: "land cf ev v ow s = (out, t)"
  shows "steps P s t"
proof -
  obtain b1 t1 where 1: "retract_premature cf (Some v) False s = (b1, t1)" by (cases "retract_premature cf (Some v) False s")
  have st1: "steps P s t1" using retract_premature_steps [OF _ s 1] P(1) by blast
  obtain b2 t2 where 2: "confirm_fence cf t1 = (b2, t2)" by (cases "confirm_fence cf t1")
  have st2: "steps P s t2" using steps_trans [OF st1] confirm_steps [OF P(1) steps_honest [OF st1] 2] by blast
  obtain b3 t3 where 3: "ensure_resolver cf ow t2 = (b3, t3)" by (cases "ensure_resolver cf ow t2")
  have st3: "steps P s t3" using steps_trans [OF st2] ensure_steps [OF P(1) steps_honest [OF st2] _ 3] ow steps_own [OF st2] by auto
  obtain a t4 where 4: "cas_write PComplete (it_revision (v_item v)) (completed_item cf (v_item v)) t3 = (a, t4)"
    by (cases "cas_write PComplete (it_revision (v_item v)) (completed_item cf (v_item v)) t3")
  have st4: "steps P s t4"
    using steps_trans [OF st3 cas_bump [OF steps_honest [OF st3] steps_fresh [OF st3 fr] _ 4]] P(2) [OF i] by blast
  let ?r = "(s_rec t4)\<lparr>ru_resolver := Some (ow_id ow)\<rparr>"
  have "steps P t4 (t4\<lparr>s_rec := ?r\<rparr>)"
    by (rule rec_steps [OF steps_honest [OF st4]]) (simp add: ow steps_own [OF st4, symmetric])
  then have st5: "steps P s (t4\<lparr>s_rec := ?r\<rparr>)" using steps_trans [OF st4] by blast
  have "steps P s x" if "settle_as z (t4\<lparr>s_rec := ?r\<rparr>) = (c, x)" for z c x
    using steps_trans [OF st5 settle_as_steps [OF P(1) steps_honest [OF st5] that]] .
  with l st1 st2 st3 st4 show ?thesis
    by (auto simp: land_def 1 2 3 4 map_prod_def split: bool.splits if_splits write_answer.splits prod.splits)
qed

lemma land_log:
  assumes "held_by (v_item v) = Some ex" "\<not> given_up cf (v_item v)" and "honest s" and "fresh (v_item v) s" and "ow_id ow = own_resolver (s_rec s)"
    and "land cf ev v ow s = (out, t)"
  shows "\<exists>new. s_log t = s_log s @ new"
proof -
  have "steps (\<lambda>_. True) s t" by (rule land_steps [OF _ _ assms]) (simp_all add: tame_def)
  then show ?thesis by (auto simp: steps_def)
qed

lemma settle_as_out: "settle_as w s = (out, t) \<Longrightarrow> out = Settled_as w"
  by (simp add: settle_as_def Let_def)

lemma withdraw_out: "withdraw_completion cf touch s = (out, t) \<Longrightarrow> out = Settled_as ''withdrawn'' \<or> out = StillOwed"
  by (auto simp: withdraw_completion_def Let_def dest: settle_as_out split: prod.splits if_splits clear_result.splits)

definition lands_at :: "conf \<Rightarrow> string \<Rightarrow> sys \<Rightarrow> action list \<Rightarrow> bool" where
  "lands_at cf after s l \<longleftrightarrow> (\<exists>pre had i rest. l = pre @ AOwn (own_resolver (s_rec s)) had # rest \<and> list_all no_completion pre
     \<and> pass_log cf (own_resolver (s_rec s)) had i rest \<and> held_by i = Some (cl_execution_id (the_claim s)) \<and> \<not> given_up cf i
     \<and> (is_controller_record (s_rec s) \<longrightarrow> after = cl_after (the_claim s) \<and> record_boundary_reached (s_rec s) (c_landed cf)))"

lemma lands_at_prefix:
  assumes "steps no_completion s t" and "lands_at cf after t (since t u)" and "since s u = since s t @ since t u"
  shows "lands_at cf after s (since s u)"
proof -
  obtain pre had i rest where l: "since t u = pre @ AOwn (own_resolver (s_rec t)) had # rest" "list_all no_completion pre"
      "pass_log cf (own_resolver (s_rec t)) had i rest" "held_by i = Some (cl_execution_id (the_claim t))" "\<not> given_up cf i"
      "is_controller_record (s_rec t) \<longrightarrow> after = cl_after (the_claim t) \<and> record_boundary_reached (s_rec t) (c_landed cf)"
    using assms(2) by (auto simp: lands_at_def)
  show ?thesis unfolding lands_at_def
    by (intro exI [of _ "since s t @ pre"] exI [of _ had] exI [of _ i] exI [of _ rest])
      (use l since_all [OF assms(1)] assms(3) in \<open>simp add: steps_own [OF assms(1)] steps_claim [OF assms(1)] steps_boundary [OF assms(1)]\<close>)
qed

lemma since_app: "s_log t = s_log s @ xs \<Longrightarrow> s_log u = s_log t @ ys \<Longrightarrow> since s u = since s t @ since t u"
  by (simp add: since_def)

text \<open>One turn of the loop: no completing swap, or a landing.\<close>

lemma write_loop_cases:
  assumes "honest s" and "write_loop n cf ev after s = (out, t)"
  shows "(steps no_completion s t \<and> out \<noteq> Settled_as ''written'')
    \<or> ((out = Settled_as ''written'' \<or> out = StillOwed) \<and> lands_at cf after s (since s t) \<and> (\<exists>new. s_log t = s_log s @ new))"
  using assms
proof (induction n arbitrary: s)
  case 0
  then show ?case by simp
next
  case (Suc n)
  note tame = no_completion_tame
  obtain v u where ru: "read_item cf (ru_node_id (s_rec s)) s = (v, u)" by (cases "read_item cf (ru_node_id (s_rec s)) s")
  note su = read_item_steps [OF Suc.prems(1) ru, of no_completion]
  show ?case
  proof (cases v)
    case None
    then show ?thesis using Suc.prems(2) su by (simp add: ru)
  next
    case (Some x)
    then have fr: "fresh (v_item x) u" and x: "x = view_of cf (ru_node_id (s_rec s)) (s_world u)" using su by auto
    obtain ow w where ow: "read_own_resolver u = (ow, w)" by (cases "read_own_resolver u")
    have uw: "steps no_completion u w" "ow_id ow = own_resolver (s_rec u)" "s_log w = s_log u @ [AOwn (ow_id ow) (ow_edge ow)]"
      using read_own_steps [OF tame steps_honest ow] su by auto
    have sw: "steps no_completion s w" using steps_trans uw(1) su by blast
    let ?ex = "cl_execution_id (the_claim w)" and ?i = "v_item x"
    let ?go = "\<not> gave_up x \<and> held_by ?i = Some ?ex \<and>
      (is_controller_record (s_rec w) \<longrightarrow> after = cl_after (the_claim w) \<and> record_boundary_reached (s_rec w) (c_landed cf))"
    have wd: "steps no_completion s t \<and> out \<noteq> Settled_as ''written''" if "withdraw_completion cf b w = (out, t)" for b
      using withdraw_completion_steps [OF no_completion_mends steps_honest [OF sw] that] withdraw_out [OF that] steps_trans [OF sw] by auto
    have st: "steps no_completion s t \<and> out = Settled_as z" if "settle_as z w = (out, t)" for z
      using settle_as_steps [OF tame steps_honest [OF sw] that] settle_as_out [OF that] steps_trans [OF sw] by auto
    show ?thesis
    proof (cases ?go)
      case False
      then have "steps no_completion s t \<and> out \<noteq> Settled_as ''written''"
        using Suc.prems(2) wd st sw by (auto simp: ru Some ow Let_def split: if_splits)
      then show ?thesis ..
    next
      case True
      obtain o2 t2 where l: "land cf ev x ow w = (o2, t2)" by (cases "land cf ev x ow w")
      have ow': "ow_id ow = own_resolver (s_rec w)" using uw(2) steps_own [OF uw(1)] by simp
      have res: "(case o2 of Some z \<Rightarrow> (z, t2) | None \<Rightarrow> write_loop n cf ev after t2) = (out, t)"
        using Suc.prems(2) True by (auto simp: ru Some ow l Let_def split: if_splits option.splits)
      from land_cases [OF steps_honest [OF sw] steps_fresh [OF uw(1) fr] ow' l] show ?thesis
      proof
        assume a: "steps no_completion w t2 \<and> (o2 = Some StillOwed \<or> o2 = None)"
        then have s2: "steps no_completion s t2" using steps_trans [OF sw] by blast
        show ?thesis
        proof (cases o2)
          case None
          then have go: "write_loop n cf ev after t2 = (out, t)" using res by simp
          from Suc.IH [OF steps_honest [OF s2] go] show ?thesis
          proof
            assume "steps no_completion t2 t \<and> out \<noteq> Settled_as ''written''"
            then show ?thesis using steps_trans [OF s2] by blast
          next
            assume b: "(out = Settled_as ''written'' \<or> out = StillOwed) \<and> lands_at cf after t2 (since t2 t) \<and> (\<exists>new. s_log t = s_log t2 @ new)"
            then have "since s t = since s t2 @ since t2 t" using since_log [OF s2] since_app by blast
            then show ?thesis using lands_at_prefix [OF s2] b since_log [OF s2] by (metis append.assoc)
          qed
        qed (use a res s2 in auto)
      next
        assume a: "(o2 = Some (Settled_as ''written'') \<or> o2 = Some StillOwed)
          \<and> pass_log cf (own_resolver (s_rec w)) (ow_edge ow) (v_item x) (since w t2)"
        then have t: "t = t2" and o: "out = Settled_as ''written'' \<or> out = StillOwed" using res by auto
        obtain new where new: "s_log t2 = s_log w @ new"
        proof -
          have "held_by (v_item x) = Some ?ex" "\<not> given_up cf (v_item x)" using True x by auto
          from land_log [OF this steps_honest [OF sw] steps_fresh [OF uw(1) fr] ow' l] show thesis using that by blast
        qed
        have "length (s_log s) \<le> length (s_log u)" using su by (auto simp: steps_def)
        then have "since s t = since s u @ AOwn (own_resolver (s_rec s)) (ow_edge ow) # since w t2"
          using new uw(3) since_log [of no_completion s u] su ow' steps_own [OF sw] unfolding t since_def by simp
        then have "lands_at cf after s (since s t)" unfolding lands_at_def
          by (intro exI [of _ "since s u"] exI [of _ "ow_edge ow"] exI [of _ "v_item x"] exI [of _ "since w t2"])
            (use a True x su since_all [of no_completion s u] in \<open>simp add: steps_own [OF sw] steps_claim [OF sw] steps_boundary [OF sw]\<close>)
        then show ?thesis using o new since_log [OF sw] t by auto
      qed
    qed
  qed
qed

lemma completing_swap_unique:
  assumes "list_all no_completion a" and "list_all no_completion b"
    and "a @ ACas PComplete i j # b = pre @ ACas PComplete old new # post"
  shows "pre = a \<and> old = i \<and> new = j \<and> post = b"
  using assms
proof (induction a arbitrary: pre)
  case Nil
  then show ?case by (cases pre) (auto simp: no_completion_def)
next
  case (Cons x a)
  then show ?case by (cases pre) (auto simp: no_completion_def)
qed

lemma write_completion_cases:
  assumes "honest s" and "write_completion cf ev b s = (out, t)" and "\<not> (ru_written (s_rec s) \<or> ru_consumed (s_rec s) \<or> ru_withdrawn (s_rec s))"
  shows "\<exists>q after. steps no_completion s q \<and> write_loop 4 cf ev after q = (out, t) \<and> ru_debt (s_rec q) = Some ''write''
    \<and> (ru_debt (s_rec s) = Some ''write'' \<or> AOwe (Some ''write'') \<in> set (since s q))
    \<and> ru_written (s_rec q) = ru_written (s_rec s) \<and> ru_consumed (s_rec q) = ru_consumed (s_rec s) \<and> ru_withdrawn (s_rec q) = ru_withdrawn (s_rec s)"
proof (cases "ru_debt (s_rec s) = Some ''write''")
  case True
  then show ?thesis using assms by (auto simp: write_completion_def intro!: exI [of _ s])
next
  case False
  then show ?thesis using assms stamp_debt_steps [OF no_completion_tame assms(1), of "Some ''write''"]
    by (auto simp: write_completion_def intro!: exI [of _ "stamp_debt (Some ''write'') s"])
       (auto simp: stamp_debt_def logged_def since_def)
qed

text \<open>
  C32. The completing write comes last and only when everything it rests on is in place. Whatever people and other
  workers do between the calls, and whichever calls are refused or lose their answer, a completion write swaps
  the item at most once; when it does, (1) the debt was stamped first; (2) in the same pass, after our resolver was
  read and before the swap, the resolver's \<open>resolves\<close> edge was seen or written and the execution store
  confirmed the fence; (3) the item replaced carried our hold and nobody had given it up, and the new one differs from
  it only in the completion status and the cleared hold; (4) a controller's record had reached its pinned boundary.
  Conversely a write that reports \<open>written\<close> for a record not settled before did swap the item.
\<close>

theorem completion_lands_in_order:
  assumes "honest s" and "write_completion cf ev b s = (out, t)"
    and "\<not> (ru_written (s_rec s) \<or> ru_consumed (s_rec s) \<or> ru_withdrawn (s_rec s))"
  shows "(\<forall>pre old new post. since s t = pre @ ACas PComplete old new # post \<longrightarrow>
      (\<exists>pre' had mid. pre = pre' @ AOwn (own_resolver (s_rec s)) had # mid
          \<and> (had \<or> edge_written (own_resolver (s_rec s)) mid) \<and> (c_store cf \<longrightarrow> AConfirm True \<in> set mid)
          \<and> (ru_debt (s_rec s) = Some ''write'' \<or> AOwe (Some ''write'') \<in> set pre'))
      \<and> held_by old = Some (cl_execution_id (the_claim s)) \<and> \<not> given_up cf old
      \<and> new = (completed_item cf old)\<lparr>it_revision := Suc (it_revision old)\<rparr>
      \<and> (is_controller_record (s_rec s) \<longrightarrow> record_boundary_reached (s_rec s) (c_landed cf))
      \<and> list_all no_completion pre \<and> list_all no_completion post)
    \<and> (out = Settled_as ''written'' \<longrightarrow> (\<exists>old new. ACas PComplete old new \<in> set (since s t)))"
proof -
  let ?own = "own_resolver (s_rec s)"
  obtain q after where q: "steps no_completion s q" "write_loop 4 cf ev after q = (out, t)"
      "ru_debt (s_rec s) = Some ''write'' \<or> AOwe (Some ''write'') \<in> set (since s q)"
    using write_completion_cases [OF assms] by blast
  from write_loop_cases [OF steps_honest [OF q(1)] q(2)] show ?thesis
  proof
    assume a: "steps no_completion q t \<and> out \<noteq> Settled_as ''written''"
    then have "list_all no_completion (since s t)" using since_all [OF steps_trans [OF q(1)]] by blast
    then show ?thesis using a by (auto simp: no_completion_def)
  next
    assume a: "(out = Settled_as ''written'' \<or> out = StillOwed) \<and> lands_at cf after q (since q t) \<and> (\<exists>new. s_log t = s_log q @ new)"
    then have app: "since s t = since s q @ since q t" using since_log [OF q(1)] since_app by blast
    obtain pre had i rest where l: "since q t = pre @ AOwn ?own had # rest" "list_all no_completion pre"
        "pass_log cf ?own had i rest" "held_by i = Some (cl_execution_id (the_claim s))" "\<not> given_up cf i"
        "is_controller_record (s_rec s) \<longrightarrow> record_boundary_reached (s_rec s) (c_landed cf)"
      using a by (auto simp: lands_at_def steps_own [OF q(1)] steps_claim [OF q(1)] steps_boundary [OF q(1)])
    obtain mid fin where r: "rest = mid @ ACas PComplete i (bump i (completed_item cf i)) # fin"
        "list_all no_completion mid" "list_all no_completion fin" "judged cf ?own had mid"
      using l(3) by (auto simp: pass_log_def)
    let ?pre = "since s q @ pre @ AOwn ?own had # mid"
    have all: "since s t = ?pre @ ACas PComplete i (bump i (completed_item cf i)) # fin" by (simp add: app l(1) r(1))
    have np: "list_all no_completion ?pre" using since_all [OF q(1)] l(2) r(2) by (simp add: no_completion_def)
    have "\<exists>pre' had mid. ?pre = pre' @ AOwn ?own had # mid \<and> (had \<or> edge_written ?own mid)
        \<and> (c_store cf \<longrightarrow> AConfirm True \<in> set mid) \<and> (ru_debt (s_rec s) = Some ''write'' \<or> AOwe (Some ''write'') \<in> set pre')"
      using r(4) q(3) by (intro exI [of _ "since s q @ pre"] exI [of _ had] exI [of _ mid]) (auto simp: judged_def)
    note shape = this
    show ?thesis
    proof (intro conjI allI impI)
      fix pr old new po assume "since s t = pr @ ACas PComplete old new # po"
      then have "pr = ?pre \<and> old = i \<and> new = bump i (completed_item cf i) \<and> po = fin"
        using completing_swap_unique [OF np r(3)] all by simp
      then show "\<exists>pre' had mid. pr = pre' @ AOwn ?own had # mid \<and> (had \<or> edge_written ?own mid) \<and> (c_store cf \<longrightarrow> AConfirm True \<in> set mid)
          \<and> (ru_debt (s_rec s) = Some ''write'' \<or> AOwe (Some ''write'') \<in> set pre')"
        and "held_by old = Some (cl_execution_id (the_claim s))" and "\<not> given_up cf old"
        and "new = (completed_item cf old)\<lparr>it_revision := Suc (it_revision old)\<rparr>"
        and "is_controller_record (s_rec s) \<Longrightarrow> record_boundary_reached (s_rec s) (c_landed cf)"
        and "list_all no_completion pr" and "list_all no_completion po"
        using shape l r(3) np by (simp_all add: bump_def)
    qed (use all in auto)
  qed
qed

end
