(* ===== verification/CompletionDebt.thy ===== *)
theory CompletionDebt
  imports CompletionProps
begin

text \<open>
  The debt of a completion and the exclusivity of the hold: a completion that did not settle stays owed, every
  compare-and-swap of an execution fair_swap the holds of others, and an undisturbed write settles in one pass and owes
  nothing after.
\<close>

subsection \<open>What stays owed\<close>

definition owed :: "run_record \<Rightarrow> string option \<times> bool \<times> bool \<times> bool" where
  "owed r = (ru_debt r, ru_written r, ru_consumed r, ru_withdrawn r)"

lemma tick_rec [simp]: "s_rec (snd (next_tick s)) = s_rec s"
  using next_tick_log by (metis prod.collapse)

lemma door_rec:
  "read_item cf nid s = (v, t) \<Longrightarrow> s_rec t = s_rec s"
  "cas_write p n new s = (a, t) \<Longrightarrow> s_rec t = s_rec s"
  "add_edge x y z s = (b, t) \<Longrightarrow> s_rec t = s_rec s"
  "remove_edge x y z s = (b, t) \<Longrightarrow> s_rec t = s_rec s"
  "write_node x es s = (b, t) \<Longrightarrow> s_rec t = s_rec s"
  "read_own_resolver s = (ow, t) \<Longrightarrow> s_rec t = s_rec s"
  "confirm_fence cf s = (b, t) \<Longrightarrow> s_rec t = s_rec s"
  by (auto simp: read_item_def cas_write_def add_edge_def remove_edge_def write_node_def read_own_resolver_def confirm_fence_def
      logged_def Let_def case_prod_unfold split: if_splits option.splits)

lemma clear_hold_rec: "clear_hold n cf nid ex f by s = (r, t) \<Longrightarrow> s_rec t = s_rec s"
proof (induction n arbitrary: s)
  case (Suc n)
  obtain v u where u: "read_item cf nid s = (v, u)" by (cases "read_item cf nid s")
  obtain a w where w: "cas_write PClear (it_revision (v_item (the v))) (cleared_item by (v_item (the v))) u = (a, w)"
    by (cases "cas_write PClear (it_revision (v_item (the v))) (cleared_item by (v_item (the v))) u")
  show ?case using Suc.prems Suc.IH [of w] door_rec(1) [OF u] door_rec(2) [OF w] w
    by (cases a) (auto simp: u split: option.splits if_splits)
qed simp

lemma retype_rec: "retype nid ps s = (r, t) \<Longrightarrow> s_rec t = s_rec s"
proof (induction ps arbitrary: s r t)
  case (Cons p ps)
  obtain x y where p: "p = (x, y)" by (cases p)
  obtain b u where u: "remove_edge x y nid s = (b, u)" by (cases "remove_edge x y nid s")
  obtain c w where w: "add_edge x ''relates-to'' nid u = (c, w)" by (cases "add_edge x ''relates-to'' nid u")
  have "t = snd (retype nid ps u) \<or> t = snd (retype nid ps w)"
    using Cons.prems by (auto simp: p u w split: prod.splits bool.splits)
  moreover have "s_rec (snd (retype nid ps q)) = s_rec q" for q using Cons.IH by (metis prod.collapse)
  ultimately show ?case using door_rec(3) [OF w] door_rec(4) [OF u] by auto
qed simp

lemma restore_status_rec: "restore_status cf nid s = (r, t) \<Longrightarrow> s_rec t = s_rec s"
  by (auto simp: restore_status_def dest!: door_rec split: prod.splits option.splits if_splits write_answer.splits)

lemma repair_owed:
  assumes "repair cf nid ps moved s = (r, t)" and "ru_debt (s_rec s) = Some ''write''"
  shows "owed (s_rec t) = owed (s_rec s)"
proof -
  obtain d f u where u: "retype nid ps s = ((d, f), u)" by (metis prod.collapse)
  have ru: "s_rec u = s_rec s" using retype_rec [OF u] .
  have rn: "owed (s_rec (note_premature d u)) = owed (s_rec s)" by (simp add: note_premature_def owed_def ru)
  obtain ok w where w: "(if moved then restore_status cf nid (note_premature d u) else (True, note_premature d u)) = (ok, w)"
    by (cases "if moved then restore_status cf nid (note_premature d u) else (True, note_premature d u)")
  have "owed (s_rec w) = owed (s_rec s)" using w rn restore_status_rec [of cf nid "note_premature d u" ok w] by (auto split: if_splits)
  then show ?thesis using assms u w by (auto simp: repair_def settle_retract_def owed_def split: if_splits)
qed

lemma retract_owed:
  assumes "retract_premature cf (Some v) restore s = (r, t)" and "ru_debt (s_rec s) = Some ''write''"
  shows "owed (s_rec t) = owed (s_rec s)"
  using assms repair_owed [OF _ assms(2)] by (auto simp: retract_premature_def Let_def split: if_splits)

lemma ensure_owed: "ensure_resolver cf ow s = (b, t) \<Longrightarrow> owed (s_rec t) = owed (s_rec s)"
  by (auto simp: ensure_resolver_def owed_def dest!: door_rec split: if_splits prod.splits bool.splits)

text \<open>The record after an outcome: still owed as it was, or settled by exactly the word reported.\<close>

definition accounts :: "run_record \<Rightarrow> settlement \<Rightarrow> run_record \<Rightarrow> bool" where
  "accounts r out q = (case out of
       StillOwed \<Rightarrow> owed q = owed r
     | Settled_as w \<Rightarrow> ru_debt q = None \<and> (ru_written q \<longleftrightarrow> ru_written r \<or> w = ''written'')
         \<and> (ru_consumed q \<longleftrightarrow> ru_consumed r \<or> w = ''consumed'')
         \<and> (ru_withdrawn q \<longleftrightarrow> ru_withdrawn r \<or> w \<in> {''withdrawn'', ''released''}))"

lemma settle_accounts:
  "settle_as w s = (out, t) \<Longrightarrow> w \<in> {''written'', ''consumed'', ''withdrawn'', ''released''} \<Longrightarrow> accounts (s_rec s) out (s_rec t)"
  by (auto simp: settle_as_def accounts_def logged_def Let_def)

lemma withdraw_accounts:
  assumes "withdraw_completion cf touch s = (out, t)"
  shows "accounts (s_rec s) out (s_rec t)"
proof -
  let ?nid = "ru_node_id (s_rec s)"
  obtain ow u where ow: "read_own_resolver s = (ow, u)" by (cases "read_own_resolver s")
  obtain ok w where w: "(if \<not> ow_edge ow then (True, u) else case remove_edge (ow_id ow) ''resolves'' ?nid u of
      (False, u) \<Rightarrow> (False, u) | (True, u) \<Rightarrow> add_edge (ow_id ow) ''relates-to'' ?nid u) = (ok, w)"
    by (cases "if \<not> ow_edge ow then (True, u) else case remove_edge (ow_id ow) ''resolves'' ?nid u of
      (False, u) \<Rightarrow> (False, u) | (True, u) \<Rightarrow> add_edge (ow_id ow) ''relates-to'' ?nid u")
  have rw: "s_rec w = s_rec s" using w door_rec(6) [OF ow]
    by (auto dest!: door_rec split: if_splits prod.splits bool.splits)
  obtain c x where x: "clear_hold 3 cf ?nid (cl_execution_id (the_claim w)) False [] w = (c, x)"
    by (cases "clear_hold 3 cf ?nid (cl_execution_id (the_claim w)) False [] w")
  have rx: "s_rec x = s_rec s" using clear_hold_rec [OF x] rw by simp
  have settled: "accounts (s_rec s) out (s_rec t)" if "settle_as ''withdrawn'' q = (out, t)" "s_rec q = s_rec s" for q
    using settle_accounts [OF that(1)] that(2) by simp
  show ?thesis using assms rw rx settled unfolding withdraw_completion_def Let_def ow
    by (simp add: w x split: if_splits clear_result.splits) (auto simp: accounts_def)
qed

lemma land_accounts:
  assumes "land cf ev v ow s = (out, t)" and "ru_debt (s_rec s) = Some ''write''"
  shows "case out of None \<Rightarrow> owed (s_rec t) = owed (s_rec s) | Some z \<Rightarrow> accounts (s_rec s) z (s_rec t)"
proof -
  let ?i = "v_item v"
  obtain b1 t1 where 1: "retract_premature cf (Some v) False s = (b1, t1)" by (cases "retract_premature cf (Some v) False s")
  obtain b2 t2 where 2: "confirm_fence cf t1 = (b2, t2)" by (cases "confirm_fence cf t1")
  obtain b3 t3 where 3: "ensure_resolver cf ow t2 = (b3, t3)" by (cases "ensure_resolver cf ow t2")
  obtain a t4 where 4: "cas_write PComplete (it_revision ?i) (completed_item cf ?i) t3 = (a, t4)"
    by (cases "cas_write PComplete (it_revision ?i) (completed_item cf ?i) t3")
  have o1: "owed (s_rec t1) = owed (s_rec s)" using retract_owed [OF 1 assms(2)] .
  have o2: "owed (s_rec t2) = owed (s_rec s)" using door_rec(7) [OF 2] o1 by simp
  have o3: "owed (s_rec t3) = owed (s_rec s)" using ensure_owed [OF 3] o2 by simp
  have o4: "owed (s_rec t4) = owed (s_rec s)" using door_rec(2) [OF 4] o3 by simp
  obtain c x where x: "settle_as ''written'' (t4\<lparr>s_rec := (s_rec t4)\<lparr>ru_resolver := Some (ow_id ow)\<rparr>\<rparr>) = (c, x)"
    by (cases "settle_as ''written'' (t4\<lparr>s_rec := (s_rec t4)\<lparr>ru_resolver := Some (ow_id ow)\<rparr>\<rparr>)")
  have "accounts (s_rec s) c (s_rec x)"
    using settle_accounts [OF x] o4 settle_as_out [OF x] by (simp add: accounts_def owed_def)
  with o1 o2 o3 o4 assms(1) show ?thesis
    by (auto simp: land_def 1 2 3 4 x accounts_def split: bool.splits if_splits write_answer.splits)
qed

lemma write_loop_accounts:
  assumes "write_loop n cf ev after s = (out, t)" and "ru_debt (s_rec s) = Some ''write''"
  shows "accounts (s_rec s) out (s_rec t)"
  using assms
proof (induction n arbitrary: s)
  case 0
  then show ?case by (simp add: accounts_def)
next
  case (Suc n)
  obtain v u where u: "read_item cf (ru_node_id (s_rec s)) s = (v, u)" by (cases "read_item cf (ru_node_id (s_rec s)) s")
  obtain ow w where w: "read_own_resolver u = (ow, w)" by (cases "read_own_resolver u")
  have rw: "s_rec u = s_rec s" "s_rec w = s_rec s" using door_rec(1) [OF u] door_rec(6) [OF w] by auto
  obtain z x where l: "land cf ev (the v) ow w = (z, x)" by (cases "land cf ev (the v) ow w")
  have la: "case z of None \<Rightarrow> owed (s_rec x) = owed (s_rec s) | Some y \<Rightarrow> accounts (s_rec s) y (s_rec x)"
    using land_accounts [OF l] rw Suc.prems(2) by (cases z) auto
  have again: "accounts (s_rec s) out (s_rec t)" if "z = None" "write_loop n cf ev after x = (out, t)"
    using Suc.IH [OF that(2)] la that(1) Suc.prems(2) by (auto simp: accounts_def owed_def split: settlement.splits)
  have wd: "accounts (s_rec s) out (s_rec t)" if "withdraw_completion cf b w = (out, t)" for b using withdraw_accounts [OF that] rw by simp
  have st: "accounts (s_rec s) out (s_rec t)" if "settle_as y w = (out, t)" "y \<in> {''consumed'', ''released''}" for y
    using settle_accounts [OF that(1)] that(2) rw by auto
  show ?case using Suc.prems(1) rw la again wd st l
    by (auto simp: u w Let_def accounts_def split: option.splits if_splits)
qed

lemma write_completion_accounts:
  assumes "write_completion cf ev b s = (out, t)" and "\<not> (ru_written (s_rec s) \<or> ru_consumed (s_rec s) \<or> ru_withdrawn (s_rec s))"
  shows "(if out = StillOwed then ru_debt (s_rec t) = Some ''write'' \<and> \<not> (ru_written (s_rec t) \<or> ru_consumed (s_rec t) \<or> ru_withdrawn (s_rec t))
      else ru_debt (s_rec t) = None)
    \<and> (ru_written (s_rec t) \<longleftrightarrow> out = Settled_as ''written'') \<and> (ru_consumed (s_rec t) \<longleftrightarrow> out = Settled_as ''consumed'')
    \<and> (ru_withdrawn (s_rec t) \<longleftrightarrow> out = Settled_as ''withdrawn'' \<or> out = Settled_as ''released'')"
proof -
  obtain q after where q: "write_loop 4 cf ev after q = (out, t)" "ru_debt (s_rec q) = Some ''write''"
      "\<not> (ru_written (s_rec q) \<or> ru_consumed (s_rec q) \<or> ru_withdrawn (s_rec q))"
  proof (cases "ru_debt (s_rec s) = Some ''write''")
    case False
    then show thesis using that [of _ "stamp_debt (Some ''write'') s"] assms by (simp add: write_completion_def stamp_debt_def logged_def)
  qed (use that [of _ s] assms in \<open>simp add: write_completion_def\<close>)
  from write_loop_accounts [OF q(1,2)] q(2,3) show ?thesis by (cases out) (auto simp: accounts_def owed_def)
qed

text \<open>
  C33. A completion that did not land stays owed. For a record not settled before, a write that ends without settling
  leaves the debt \<open>write\<close> on the record and no settled stamp, so the next pass takes it up again; and a write that settles clears
  the debt and stamps exactly the way it says it settled, \<open>written\<close> only when it says so. This holds under every
  schedule of the environment, lost answers included.
\<close>

theorem unsettled_completion_stays_owed:
  assumes "write_completion cf ev b s = (out, t)" and "\<not> (ru_written (s_rec s) \<or> ru_consumed (s_rec s) \<or> ru_withdrawn (s_rec s))"
  shows "(if out = StillOwed then ru_debt (s_rec t) = Some ''write'' \<and> \<not> (ru_written (s_rec t) \<or> ru_consumed (s_rec t) \<or> ru_withdrawn (s_rec t))
      else ru_debt (s_rec t) = None)
    \<and> (ru_written (s_rec t) \<longleftrightarrow> out = Settled_as ''written'') \<and> (ru_consumed (s_rec t) \<longleftrightarrow> out = Settled_as ''consumed'')
    \<and> (ru_withdrawn (s_rec t) \<longleftrightarrow> out = Settled_as ''withdrawn'' \<or> out = Settled_as ''released'')"
  by (rule write_completion_accounts [OF assms])

subsection \<open>Holds are respected\<close>

lemma write_loop_steps:
  assumes "mends P s" and "lets_complete cf P (cl_execution_id (the_claim s))" and "honest s" and "write_loop n cf ev after s = (out, t)"
  shows "steps P s t"
  using assms
proof (induction n arbitrary: s)
  case (Suc n)
  have tame: "tame P" using Suc.prems(1) by (rule mends_tame)
  obtain v u where u: "read_item cf (ru_node_id (s_rec s)) s = (v, u)" by (cases "read_item cf (ru_node_id (s_rec s)) s")
  note su = read_item_steps [OF Suc.prems(3) u, of P]
  obtain ow w where w: "read_own_resolver u = (ow, w)" by (cases "read_own_resolver u")
  have uw: "steps P u w" "ow_id ow = own_resolver (s_rec u)" using read_own_steps [OF tame steps_honest w] su by auto
  have sw: "steps P s w" using steps_trans su uw(1) by blast
  have mw: "mends P w" and cw: "lets_complete cf P (cl_execution_id (the_claim w))"
    using Suc.prems(1,2) steps_claim [OF sw] by simp_all
  show ?case
  proof (cases v)
    case (Some x)
    then have fr: "fresh (v_item x) w" and x: "x = view_of cf (ru_node_id (s_rec s)) (s_world u)"
      using su steps_fresh [OF uw(1)] by auto
    obtain z y where l: "land cf ev x ow w = (z, y)" by (cases "land cf ev x ow w")
    have ly: "steps P s y" if "held_by (v_item x) = Some (cl_execution_id (the_claim w))" "\<not> gave_up x"
    proof -
      have "\<not> given_up cf (v_item x)" using that(2) x by simp
      from land_steps [OF tame _ that(1) this steps_honest [OF sw] fr _ l] cw uw(2) steps_own [OF uw(1)] steps_trans [OF sw]
      show ?thesis by (simp add: lets_complete_def)
    qed
    have again: "steps P s t" if "steps P s y" "write_loop n cf ev after y = (out, t)"
      using Suc.IH [OF _ _ steps_honest [OF that(1)] that(2)] Suc.prems(1,2) steps_claim [OF that(1)] steps_trans [OF that(1)] by simp
    have wd: "steps P s t" if "withdraw_completion cf b w = (out, t)" for b
      using withdraw_completion_steps [OF mw steps_honest [OF sw] that] steps_trans [OF sw] by blast
    have st: "steps P s t" if "settle_as q w = (out, t)" for q
      using settle_as_steps [OF tame steps_honest [OF sw] that] steps_trans [OF sw] by blast
    show ?thesis using Suc.prems(4) ly again wd st sw l
      by (auto simp: u Some w Let_def split: option.splits if_splits)
  qed (use Suc.prems(4) u su in simp)
qed simp

lemma write_completion_steps:
  assumes "mends P s" and "lets_complete cf P (cl_execution_id (the_claim s))" and "honest s" and "write_completion cf ev b s = (out, t)"
  shows "steps P s t"
proof -
  have so: "steps P s (stamp_debt (Some ''write'') s)" using stamp_debt_steps [OF mends_tame [OF assms(1)] assms(3)] .
  have "steps P s x" if "write_loop 4 cf ev after (stamp_debt (Some ''write'') s) = (out, x)" for after x
    using write_loop_steps [OF _ _ steps_honest [OF so] that] assms(1,2) steps_claim [OF so] steps_trans [OF so] by simp
  then show ?thesis using assms write_loop_steps [OF assms(1-3)] by (auto simp: write_completion_def split: if_splits)
qed

lemma reconcile_steps:
  assumes "mends P s" and "lets_complete cf P (cl_execution_id (the_claim s))" and "honest s" and "reconcile_completion cf ev s = (out, t)"
  shows "steps P s t"
proof -
  have tame: "tame P" using assms(1) by (rule mends_tame)
  obtain v u where u: "read_item cf (ru_node_id (s_rec s)) s = (v, u)" by (cases "read_item cf (ru_node_id (s_rec s)) s")
  have su: "steps P s u" using read_item_steps [OF assms(3) u, of P] by blast
  obtain ow w where w: "read_own_resolver u = (ow, w)" by (cases "read_own_resolver u")
  have sw: "steps P s w" using steps_trans [OF su] read_own_steps [OF tame steps_honest [OF su] w] by blast
  have stamp: "steps P s (stamp_debt d w)" for d using steps_trans [OF sw stamp_debt_steps [OF tame steps_honest [OF sw]]] .
  have ops: "steps P s (snd (write_completion cf ev None q)) \<and> steps P s (snd (withdraw_completion cf True q))
      \<and> steps P s (snd (retract_premature cf z True q))" if "steps P s q" for q z
  proof -
    have "mends P q" "lets_complete cf P (cl_execution_id (the_claim q))" using assms(1,2) steps_claim [OF that] by simp_all
    then have "steps P q (snd (write_completion cf ev None q))" "steps P q (snd (withdraw_completion cf True q))"
        "steps P q (snd (retract_premature cf z True q))"
      using write_completion_steps [OF _ _ steps_honest [OF that]] withdraw_completion_steps [OF _ steps_honest [OF that]]
        retract_premature_steps [OF _ steps_honest [OF that]] by (metis prod.collapse)+
    then show ?thesis using steps_trans [OF that] by blast
  qed
  show ?thesis
  proof (cases "\<not> is_controller_record (s_rec s) \<or> ru_written (s_rec s) \<or> ru_withdrawn (s_rec s) \<or> ru_consumed (s_rec s) \<or> v = None")
    case True
    then have "t = s \<or> t = u" using assms(4) by (auto simp: reconcile_completion_def u split: if_splits)
    then show ?thesis using su assms(3) by auto
  next
    case False
    then obtain x where x: "v = Some x" by auto
    let ?d = "derive_completion_debt (s_rec w) (Some x) (Some ow) (c_landed cf)"
    let ?q = "\<lambda>d. if ru_debt (s_rec w) \<noteq> d then stamp_debt d w else w"
    have sq: "steps P s (?q d)" for d using sw stamp by simp
    show ?thesis
    proof (cases ?d)
      case None
      then have "t = ?q None" using assms(4) False by (simp add: reconcile_completion_def u w x)
      then show ?thesis using sq [of None] by simp
    next
      case (Some d)
      have "t = snd (if d = ''write'' then map_prod Some id (write_completion cf ev None (?q (Some d)))
          else if d = ''withdraw'' then map_prod Some id (withdraw_completion cf True (?q (Some d)))
          else map_prod (\<lambda>ok. Some (if ok then Settled_as ''retracted'' else StillOwed)) id (retract_premature cf (Some x) True (?q (Some d))))"
        using assms(4) False by (simp add: reconcile_completion_def u w x Some Let_def)
      then have "t = snd (write_completion cf ev None (?q (Some d))) \<or> t = snd (withdraw_completion cf True (?q (Some d)))
          \<or> t = snd (retract_premature cf (Some x) True (?q (Some d)))"
        by (simp split: if_split_asm)
      then show ?thesis using ops [OF sq, of "Some d" "Some x"] by blast
    qed
  qed
qed

lemma stamp_hold_steps:
  assumes "\<And>i. held_by i = None \<Longrightarrow> P (ACas PHold i (bump i (i\<lparr>it_execution := ex, it_execution_at := c_now cf\<rparr>)))"
    and "honest s" and "stamp_hold cf nid ex s = (r, t)"
  shows "steps P s t"
proof -
  obtain v u where u: "read_item cf nid s = (v, u)" by (cases "read_item cf nid s")
  have su: "steps P s u" "\<And>x. v = Some x \<Longrightarrow> fresh (v_item x) u" using read_item_steps [OF assms(2) u, of P] by auto
  have "steps P s y" if "v = Some x" "held_by (v_item x) = None"
      "cas_write PHold (it_revision (v_item x)) ((v_item x)\<lparr>it_execution := ex, it_execution_at := c_now cf\<rparr>) u = (a, y)" for x a y
    using steps_trans [OF su(1) cas_bump [OF steps_honest [OF su(1)] su(2) _ that(3)]] that assms(1) by blast
  then show ?thesis using assms(3) su(1)
    by (auto simp: stamp_hold_def u Let_def split: option.splits if_splits prod.splits write_answer.splits)
qed

text \<open>What one compare-and-swap of execution \<open>ex\<close> may do to the item.\<close>

definition fair_swap :: "conf \<Rightarrow> string \<Rightarrow> action \<Rightarrow> bool" where
  "fair_swap cf ex a = (case a of
       ACas p old new \<Rightarrow> it_revision new = Suc (it_revision old) \<and> it_type new = it_type old \<and>
         (case p of
            PHold \<Rightarrow> held_by old = None \<and> held_by new = Some ex \<and> it_status new = it_status old
          | PClear \<Rightarrow> held_by old = Some ex \<and> held_by new = None \<and> it_status new = it_status old
          | PRestore \<Rightarrow> held_by old = Some ex \<and> held_by new = Some ex
          | PComplete \<Rightarrow> held_by old = Some ex \<and> held_by new = None \<and> \<not> given_up cf old)
     | _ \<Rightarrow> True)"

lemma trim_empty [simp]: "trim [] = []"
  by (simp add: trim_def)

lemma fair_swap_mends: "lets_mend (fair_swap cf ex) ex snap"
  by (auto simp: lets_mend_def tame_def fair_swap_def bump_def cleared_item_def held_by_def split: action.splits)

lemma fair_swap_completes: "lets_complete cf (fair_swap cf ex) ex"
  by (auto simp: lets_complete_def fair_swap_def bump_def completed_item_def held_by_def)

lemma fair_swap_hold: "trim ex = ex \<Longrightarrow> ex \<noteq> [] \<Longrightarrow> held_by i = None \<Longrightarrow>
   fair_swap cf ex (ACas PHold i (bump i (i\<lparr>it_execution := ex, it_execution_at := n\<rparr>)))"
  by (auto simp: fair_swap_def bump_def held_by_def)

datatype completion_call = CHold | CClear | CRetract bool | CWithdraw bool | CWrite bool "string option" | CReconcile bool

definition perform :: "conf \<Rightarrow> sys \<Rightarrow> completion_call \<Rightarrow> sys" where
  "perform cf s c = (let nid = ru_node_id (s_rec s); ex = cl_execution_id (the_claim s) in
     case c of
       CHold \<Rightarrow> snd (stamp_hold cf nid ex s)
     | CClear \<Rightarrow> snd (clear_hold 3 cf nid ex False [] s)
     | CRetract b \<Rightarrow> snd (retract_premature cf None b s)
     | CWithdraw b \<Rightarrow> snd (withdraw_completion cf b s)
     | CWrite ev b \<Rightarrow> snd (write_completion cf ev b s)
     | CReconcile ev \<Rightarrow> snd (reconcile_completion cf ev s))"

lemma perform_steps:
  assumes "trim ex = ex" and "ex \<noteq> []" and "cl_execution_id (the_claim s) = ex" and "honest s"
  shows "steps (fair_swap cf ex) s (perform cf s c)"
proof -
  have m: "mends (fair_swap cf ex) s" and k: "lets_complete cf (fair_swap cf ex) (cl_execution_id (the_claim s))"
    using fair_swap_mends fair_swap_completes assms(3) by auto
  show ?thesis unfolding perform_def Let_def assms(3)
    using stamp_hold_steps [where P = "fair_swap cf ex" and ex = ex and cf = cf, OF fair_swap_hold [OF assms(1,2)] assms(4)] clear_hold_steps [OF fair_swap_mends assms(4)]
      retract_premature_steps [OF disjI1 [OF m] assms(4)] withdraw_completion_steps [OF m assms(4)]
      write_completion_steps [OF m k assms(4)] reconcile_steps [OF m k assms(4)]
    by (cases c) (simp_all, (metis prod.collapse)+)
qed

text \<open>
  C34. Two executions never hold one item. Whatever sequence of hold, release, retract, withdraw, completion and reconciliation
  calls a worker makes for its execution, and however people and other workers interleave (their writes move the item's
  revision), every compare-and-swap that takes effect replaces an item with no hold by one held by this
  execution, or an item this execution holds; no other execution's hold is overwritten or cleared, the status
  changes only under our own hold, and a completion never overrides a person's give-up.
\<close>

theorem holds_are_exclusive:
  assumes "trim ex = ex" and "ex \<noteq> []" and "cl_execution_id (the_claim s) = ex" and "honest s"
  shows "list_all (fair_swap cf ex) (since s (foldl (perform cf) s calls))"
proof -
  have "steps (fair_swap cf ex) s (foldl (perform cf) s calls)"
    using assms(3,4)
  proof (induction calls arbitrary: s)
    case (Cons c calls)
    have p: "steps (fair_swap cf ex) s (perform cf s c)" using perform_steps [OF assms(1,2) Cons.prems] .
    show ?case using Cons.IH [of "perform cf s c"] steps_claim [OF p] steps_honest [OF p] Cons.prems steps_trans [OF p] by simp
  qed simp
  then show ?thesis by (rule since_all)
qed

end
