(* ===== verification/CompletionLive.thy ===== *)
theory CompletionLive
  imports CompletionDebt
begin

text \<open>
  Undisturbed passes of the completion write, and a concrete execution: a held item with a premature resolver reaches its
  boundary, the completion lands, and nothing is owed after.
\<close>

subsection \<open>A quiet environment\<close>

lemma quiet_tick [simp]: "s_ticks s = [] \<Longrightarrow> next_tick s = (Answered, s)"
  by (simp add: next_tick_def)

lemma logged_sel [simp]:
  "s_world (logged a s) = s_world s" "s_ticks (logged a s) = s_ticks s" "s_rec (logged a s) = s_rec s"
  by (simp_all add: logged_def)

lemma map_of_on_key:
  "map_of (map (\<lambda>(j, n). (j, if j = i then f n else n)) xs) j = (if j = i then map_option f (map_of xs j) else map_of xs j)"
  by (induction xs) auto

lemma map_of_on_node:
  "map_of (w_nodes (on_node i f w)) j = (if j = i then map_option f (map_of (w_nodes w) j) else map_of (w_nodes w) j)"
  by (simp add: on_node_def map_of_on_key)

definition keys_of :: "world \<Rightarrow> string set" where
  "keys_of w = fst ` set (w_nodes w)"

lemma keys_on_node [simp]: "keys_of (on_node i f w) = keys_of w"
  by (force simp: keys_of_def on_node_def)

lemma keys_map_of: "map_of (w_nodes w) i = None \<longleftrightarrow> i \<notin> keys_of w"
  by (simp add: keys_of_def map_of_eq_None_iff)

lemma inbound_mem:
  "(src, edge) \<in> set (inbound_of nid w) \<longleftrightarrow> resolving_edge edge \<and> (\<exists>n. (src, n) \<in> set (w_nodes w) \<and> cn_counts n \<and> (edge, nid) \<in> set (cn_edges n))"
  by (force simp: inbound_of_def)

lemma inbound_keys: "(src, edge) \<in> set (inbound_of nid w) \<Longrightarrow> src \<in> keys_of w"
  by (force simp: inbound_mem keys_of_def)

text \<open>Retyping one edge takes exactly it out of the inbound edges.\<close>

definition retyped :: "string \<Rightarrow> string \<times> string \<Rightarrow> world \<Rightarrow> world" where
  "retyped nid p w = on_node (fst p) (\<lambda>n. if (''relates-to'', nid) \<in> set (cn_edges n) then n else n\<lparr>cn_edges := cn_edges n @ [(''relates-to'', nid)]\<rparr>)
     (on_node (fst p) (\<lambda>n. n\<lparr>cn_edges := filter (\<lambda>e. e \<noteq> (snd p, nid)) (cn_edges n)\<rparr>) w)"

lemma inbound_retyped:
  assumes p: "snd p \<noteq> ''relates-to''"
  shows "set (inbound_of nid (retyped nid p w)) \<subseteq> set (inbound_of nid w) - {p}"
proof
  fix q assume q: "q \<in> set (inbound_of nid (retyped nid p w))"
  obtain src edge where q': "q = (src, edge)" by (cases q)
  from q obtain n where r: "resolving_edge edge" "(src, n) \<in> set (w_nodes (retyped nid p w))" "cn_counts n" "(edge, nid) \<in> set (cn_edges n)"
    by (auto simp: q' inbound_mem)
  from r(1) have "edge \<noteq> ''relates-to''" by (auto simp: resolving_edge_def)
  then show "q \<in> set (inbound_of nid w) - {p}"
    using r p by (auto simp: q' inbound_mem retyped_def on_node_def split: if_splits)
qed

lemma retyped_sel [simp]: "keys_of (retyped nid p w) = keys_of w" "w_item (retyped nid p w) = w_item w"
  by (simp_all add: retyped_def)

lemma node_edges_retyped: "fst p \<noteq> i \<Longrightarrow> map_of (w_nodes (retyped nid p w)) i = map_of (w_nodes w) i"
  by (simp add: retyped_def map_of_on_node)

lemma set_edges_retyped:
  assumes "fst p \<in> keys_of w" and "snd p \<noteq> ''relates-to''"
  shows "set (node_edges i (retyped nid p w)) =
    (if i = fst p then insert (''relates-to'', nid) (set (node_edges i w) - {(snd p, nid)}) else set (node_edges i w))"
proof (cases "i = fst p")
  case True
  then obtain n where "map_of (w_nodes w) i = Some n" using assms(1) keys_map_of by (metis not_None_eq)
  with True assms(2) show ?thesis by (auto simp: retyped_def node_edges_def map_of_on_node)
next
  case False
  then show ?thesis by (simp add: node_edges_def node_edges_retyped)
qed

text \<open>What the retype leaves on a source: its premature edges gone, their one evidence twin there, every other edge kept.\<close>

definition with_evidence :: "string \<Rightarrow> (string \<times> string) list \<Rightarrow> string \<Rightarrow> (string \<times> string) set \<Rightarrow> (string \<times> string) set" where
  "with_evidence nid ps i es = (es - {(edge, nid) |edge. (i, edge) \<in> set ps}) \<union> (if i \<in> fst ` set ps then {(''relates-to'', nid)} else {})"

lemma with_evidence_Nil: "with_evidence nid [] i es = es"
  by (simp add: with_evidence_def)

lemma with_evidence_Cons:
  assumes "snd p \<noteq> ''relates-to''" and "\<forall>q\<in>set ps. snd q \<noteq> ''relates-to''"
  shows "with_evidence nid ps i (if i = fst p then insert (''relates-to'', nid) (es - {(snd p, nid)}) else es) = with_evidence nid (p # ps) i es"
proof (cases "i = fst p")
  case True
  have drop: "{(edge, nid) |edge. (i, edge) \<in> set (p # ps)} = insert (snd p, nid) {(edge, nid) |edge. (i, edge) \<in> set ps}"
    using True by (cases p) auto
  have "(''relates-to'', nid) \<notin> {(edge, nid) |edge. (i, edge) \<in> set ps}" using assms(2) by auto
  with True show ?thesis unfolding with_evidence_def drop by auto
next
  case False
  then have "{(edge, nid) |edge. (i, edge) \<in> set (p # ps)} = {(edge, nid) |edge. (i, edge) \<in> set ps}" by (cases p) auto
  with False show ?thesis by (simp add: with_evidence_def)
qed

lemma quiet_retype:
  assumes "s_ticks s = []" and "fst ` set ps \<subseteq> keys_of (s_world s)"
  shows "\<exists>t. retype nid ps s = ((map fst ps, False), t) \<and> s_ticks t = [] \<and> s_rec t = s_rec s
    \<and> s_world t = foldl (\<lambda>w p. retyped nid p w) (s_world s) ps"
  using assms
proof (induction ps arbitrary: s)
  case (Cons p ps)
  obtain x y where p: "p = (x, y)" by (cases p)
  have k: "map_of (w_nodes (s_world s)) x \<noteq> None" using Cons.prems(2) by (simp add: p keys_map_of)
  let ?u = "logged (AUnedge x y) (s\<lparr>s_world := on_node x (\<lambda>n. n\<lparr>cn_edges := filter (\<lambda>e. e \<noteq> (y, nid)) (cn_edges n)\<rparr>) (s_world s)\<rparr>)"
  let ?w = "logged (AEdge x ''relates-to'') (?u\<lparr>s_world := retyped nid p (s_world s)\<rparr>)"
  have 1: "remove_edge x y nid s = (True, ?u)" using Cons.prems(1) k by (auto simp: remove_edge_def)
  have 2: "add_edge x ''relates-to'' nid ?u = (True, ?w)"
    using Cons.prems(1) k by (auto simp: add_edge_def retyped_def p map_of_on_node)
  from Cons.IH [of ?w] Cons.prems obtain t where "retype nid ps ?w = ((map fst ps, False), t)" "s_ticks t = []" "s_rec t = s_rec s"
      "s_world t = foldl (\<lambda>w p. retyped nid p w) (retyped nid p (s_world s)) ps" by auto
  then show ?case by (simp add: p 1 2)
qed simp

lemma fold_retyped:
  assumes "\<forall>p\<in>set ps. snd p \<noteq> ''relates-to''"
  shows "set (inbound_of nid (foldl (\<lambda>w p. retyped nid p w) w ps)) \<subseteq> set (inbound_of nid w) - set ps
    \<and> w_item (foldl (\<lambda>w p. retyped nid p w) w ps) = w_item w
    \<and> (\<forall>i. i \<notin> fst ` set ps \<longrightarrow> map_of (w_nodes (foldl (\<lambda>w p. retyped nid p w) w ps)) i = map_of (w_nodes w) i)"
  using assms
proof (induction ps arbitrary: w)
  case (Cons p ps)
  have "set (inbound_of nid (retyped nid p w)) \<subseteq> set (inbound_of nid w) - {p}" using Cons.prems inbound_retyped by auto
  with Cons.IH [of "retyped nid p w"] Cons.prems show ?case by (auto simp: node_edges_retyped)
qed simp

lemma fold_retyped_edges:
  "fst ` set ps \<subseteq> keys_of w \<Longrightarrow> \<forall>p\<in>set ps. snd p \<noteq> ''relates-to'' \<Longrightarrow>
   set (node_edges i (foldl (\<lambda>w p. retyped nid p w) w ps)) = with_evidence nid ps i (set (node_edges i w))"
proof (induction ps arbitrary: w)
  case (Cons p ps)
  have "set (node_edges i (foldl (\<lambda>w p. retyped nid p w) (retyped nid p w) ps)) = with_evidence nid ps i (set (node_edges i (retyped nid p w)))"
    using Cons.prems by (intro Cons.IH) auto
  also have "\<dots> = with_evidence nid (p # ps) i (set (node_edges i w))"
    using Cons.prems with_evidence_Cons [of p ps nid i "set (node_edges i w)"] set_edges_retyped [of p w i nid] by simp
  finally show ?case by simp
qed (simp add: with_evidence_Nil)

definition settled_item :: "conf \<Rightarrow> item \<Rightarrow> item" where
  "settled_item cf i = (completed_item cf i)\<lparr>it_revision := Suc (it_revision i)\<rparr>"

abbreviation premature_in :: "sys \<Rightarrow> world \<Rightarrow> (string \<times> string) list" where
  "premature_in s w \<equiv> premature_resolvers (inbound_of (ru_node_id (s_rec s)) w) (cl_snapshot (the_claim s)) (Some (own_resolver (s_rec s)))"

lemma premature_mem:
  "p \<in> set (premature_resolvers inb snap own) \<longleftrightarrow> p \<in> set inb \<and> fst p \<noteq> [] \<and> resolving_edge (snd p) \<and> fst p \<notin> set snap \<and> own \<noteq> Some (fst p)"
  by (auto simp: premature_resolvers_def)

lemma premature_none:
  "premature_resolvers inb snap own = [] \<longleftrightarrow> (\<forall>p\<in>set inb. \<not> (fst p \<noteq> [] \<and> resolving_edge (snd p) \<and> fst p \<notin> set snap \<and> own \<noteq> Some (fst p)))"
  by (auto simp: premature_resolvers_def filter_empty_conv)

lemma note_sel [simp]:
  "s_world (note_premature d s) = s_world s" "s_ticks (note_premature d s) = s_ticks s" "ru_debt (s_rec (note_premature d s)) = ru_debt (s_rec s)"
  "pinned_fields (s_rec (note_premature d s)) = pinned_fields (s_rec s)"
  by (simp_all add: note_premature_def)

lemma quiet_retract:
  assumes "s_ticks s = []" and "ru_debt (s_rec s) = Some ''write''" and "v = view_of cf (ru_node_id (s_rec s)) (s_world s)"
  shows "\<exists>t. retract_premature cf (Some v) False s = (True, t) \<and> s_ticks t = [] \<and> w_item (s_world t) = w_item (s_world s)
    \<and> pinned_fields (s_rec t) = pinned_fields (s_rec s)
    \<and> map_of (w_nodes (s_world t)) (own_resolver (s_rec s)) = map_of (w_nodes (s_world s)) (own_resolver (s_rec s))
    \<and> (held_by (v_item v) = Some (cl_execution_id (the_claim s)) \<and> \<not> gave_up v \<longrightarrow> premature_in s (s_world t) = []
        \<and> (\<forall>i. set (node_edges i (s_world t)) = with_evidence (ru_node_id (s_rec s)) (premature_in s (s_world s)) i (set (node_edges i (s_world s)))))"
proof -
  let ?nid = "ru_node_id (s_rec s)" and ?own = "own_resolver (s_rec s)"
  let ?ps = "premature_in s (s_world s)"
  have keys: "fst ` set ?ps \<subseteq> keys_of (s_world s)" using inbound_keys by (force simp: premature_mem)
  have rel: "\<forall>p\<in>set ?ps. snd p \<noteq> ''relates-to''" by (auto simp: premature_mem resolving_edge_def)
  obtain t where t: "retype ?nid ?ps s = ((map fst ?ps, False), t)" "s_ticks t = []" "s_rec t = s_rec s"
      "s_world t = foldl (\<lambda>w p. retyped ?nid p w) (s_world s) ?ps"
    using quiet_retype [OF assms(1) keys] by blast
  have inb: "set (inbound_of ?nid (s_world t)) \<subseteq> set (inbound_of ?nid (s_world s)) - set ?ps" and it: "w_item (s_world t) = w_item (s_world s)"
    and own: "map_of (w_nodes (s_world t)) ?own = map_of (w_nodes (s_world s)) ?own"
    using fold_retyped [OF rel, of ?nid "s_world s"] t(4) by (auto simp: premature_mem)
  have gone: "premature_in s (s_world t) = []"
    unfolding premature_none using inb by (auto simp: premature_mem)
  have edges: "set (node_edges i (s_world t)) = with_evidence ?nid ?ps i (set (node_edges i (s_world s)))" for i
    unfolding t(4) by (rule fold_retyped_edges [OF keys rel])
  have rep: "repair cf ?nid ?ps False s = (True, note_premature (map fst ?ps) t)"
    using assms(2) t by (simp add: repair_def settle_retract_def)
  show ?thesis
  proof (cases "held_by (v_item v) \<noteq> Some (cl_execution_id (the_claim s)) \<or> gave_up v \<or> ?ps = []")
    case True
    then show ?thesis using assms by (auto simp: retract_premature_def Let_def with_evidence_Nil)
  next
    case False
    then have "retract_premature cf (Some v) False s = (True, note_premature (map fst ?ps) t)"
      using rep assms(3) by (simp add: retract_premature_def)
    then show ?thesis using t it own gone edges by simp
  qed
qed

text \<open>The edges of our resolver once it is written or completed.\<close>

definition resolver_edges_after :: "conf \<Rightarrow> sys \<Rightarrow> (string \<times> string) set" where
  "resolver_edges_after cf s =
     (if map_of (w_nodes (s_world s)) (own_resolver (s_rec s)) = None then set (resolver_edges cf (s_rec s))
      else insert (''resolves'', ru_node_id (s_rec s)) (set (node_edges (own_resolver (s_rec s)) (s_world s))))"

lemma quiet_ensure:
  assumes "s_ticks s = []" and "ow_id ow = own_resolver (s_rec s)"
    and "ow_exists ow \<longleftrightarrow> map_of (w_nodes (s_world s)) (ow_id ow) \<noteq> None"
    and "ow_edge ow \<longleftrightarrow> (''resolves'', ru_node_id (s_rec s)) \<in> set (node_edges (ow_id ow) (s_world s))"
  shows "\<exists>t. ensure_resolver cf ow s = (True, t) \<and> s_ticks t = [] \<and> w_item (s_world t) = w_item (s_world s)
    \<and> pinned_fields (s_rec t) = pinned_fields (s_rec s) \<and> (''resolves'', ru_node_id (s_rec s)) \<in> set (node_edges (ow_id ow) (s_world t))
    \<and> (\<forall>p\<in>set (inbound_of nid (s_world t)). p \<in> set (inbound_of nid (s_world s)) \<or> fst p = ow_id ow)
    \<and> (\<forall>i. set (node_edges i (s_world t)) =
          (if i = own_resolver (s_rec s) then resolver_edges_after cf s else set (node_edges i (s_world s))))"
proof (cases "ow_exists ow")
  case False
  then have n: "map_of (w_nodes (s_world s)) (ow_id ow) = None" using assms(3) by simp
  then have m: "map_of (w_nodes (s_world s) @ [(ow_id ow, x)]) i = (if i = ow_id ow then Some x else map_of (w_nodes (s_world s)) i)" for x i
    by (auto simp: map_add_def split: option.split)
  let ?t = "logged (ANode (ow_id ow)) (s\<lparr>s_world := (s_world s)\<lparr>w_nodes := w_nodes (s_world s)
      @ [(ow_id ow, \<lparr>cn_edges = resolver_edges cf (s_rec s), cn_counts = True\<rparr>)]\<rparr>\<rparr>)"
  have e: "ensure_resolver cf ow s = (True, ?t\<lparr>s_rec := (s_rec ?t)\<lparr>ru_resolver := Some (ow_id ow)\<rparr>\<rparr>)"
    using False n assms(1) by (simp add: ensure_resolver_def write_node_def)
  have ne: "node_edges i (s_world ?t) = (if i = ow_id ow then resolver_edges cf (s_rec s) else node_edges i (s_world s))" for i
    by (simp add: node_edges_def m del: map_of_append)
  have "set (node_edges i (s_world ?t)) = (if i = own_resolver (s_rec s) then resolver_edges_after cf s else set (node_edges i (s_world s)))" for i
    using n by (simp only: ne) (simp add: resolver_edges_after_def assms(2))
  moreover have "\<forall>p\<in>set (inbound_of nid (s_world ?t)). p \<in> set (inbound_of nid (s_world s)) \<or> fst p = ow_id ow"
    by (auto simp: inbound_mem)
  moreover have "(''resolves'', ru_node_id (s_rec s)) \<in> set (node_edges (ow_id ow) (s_world ?t))"
    by (simp add: node_edges_def m resolver_edges_def del: map_of_append)
  ultimately show ?thesis using assms(1,2) by (simp add: e)
next
  case True
  then obtain n where n: "map_of (w_nodes (s_world s)) (ow_id ow) = Some n" using assms(3) by auto
  show ?thesis
  proof (cases "ow_edge ow")
    case False
    let ?f = "\<lambda>n. if (''resolves'', ru_node_id (s_rec s)) \<in> set (cn_edges n) then n else n\<lparr>cn_edges := cn_edges n @ [(''resolves'', ru_node_id (s_rec s))]\<rparr>"
    let ?t = "logged (AEdge (ow_id ow) ''resolves'') (s\<lparr>s_world := on_node (ow_id ow) ?f (s_world s)\<rparr>)"
    have "ensure_resolver cf ow s = (True, ?t)" using True False n assms(1) by (simp add: ensure_resolver_def add_edge_def)
    moreover have "\<forall>p\<in>set (inbound_of nid (s_world ?t)). p \<in> set (inbound_of nid (s_world s)) \<or> fst p = ow_id ow"
      by (auto simp: inbound_mem on_node_def split: if_splits) (auto simp: inbound_mem)
    moreover have "(''resolves'', ru_node_id (s_rec s)) \<in> set (node_edges (ow_id ow) (s_world ?t))"
      using n by (auto simp: node_edges_def map_of_on_node)
    moreover have "set (node_edges i (s_world ?t)) = (if i = own_resolver (s_rec s) then resolver_edges_after cf s else set (node_edges i (s_world s)))" for i
      using n assms(2) by (auto simp: node_edges_def map_of_on_node resolver_edges_after_def)
    ultimately show ?thesis using assms(1) by simp
  next
    case edge: True
    with n assms(2,4) have "resolver_edges_after cf s = set (node_edges (own_resolver (s_rec s)) (s_world s))"
      by (simp add: resolver_edges_after_def insert_absorb)
    with True edge assms show ?thesis by (simp add: ensure_resolver_def)
  qed
qed

lemma resolver_edges_pinned: "pinned_fields r = pinned_fields q \<Longrightarrow> resolver_edges cf r = resolver_edges cf q"
proof -
  assume p: "pinned_fields r = pinned_fields q"
  have "ru_impl_resolver (pinned_fields r) = ru_impl_resolver r" for r by (simp add: pinned_fields_def)
  then have "ru_impl_resolver r = ru_impl_resolver q" using p by metis
  then show ?thesis using pinned_eqD(1) [OF p] by (simp add: resolver_edges_def)
qed

text \<open>
  What a landing leaves behind: the completed item; our resolver with its edges; and every other node with the edges it had, its
  premature resolving edges retyped to one \<open>relates-to\<close> edge and none of them left.
\<close>

definition completed_world :: "conf \<Rightarrow> sys \<Rightarrow> world \<Rightarrow> bool" where
  "completed_world cf s w \<longleftrightarrow> w_item w = settled_item cf (w_item (s_world s))
     \<and> (''resolves'', ru_node_id (s_rec s)) \<in> set (node_edges (own_resolver (s_rec s)) w) \<and> premature_in s w = []
     \<and> (\<forall>i. set (node_edges i w) = (if i = own_resolver (s_rec s) then resolver_edges_after cf s
            else with_evidence (ru_node_id (s_rec s)) (premature_in s (s_world s)) i (set (node_edges i (s_world s)))))"

lemma the_claim_pinned: "pinned_fields (s_rec t) = pinned_fields (s_rec s) \<Longrightarrow> the_claim t = the_claim s"
  unfolding the_claim_def by (drule pinned_eqD(2)) simp

lemma inbound_item_upd [simp]: "inbound_of nid (w\<lparr>w_item := i\<rparr>) = inbound_of nid w"
  by (simp add: inbound_of_def)

lemma node_edges_item_upd [simp]: "node_edges x (w\<lparr>w_item := i\<rparr>) = node_edges x w"
  by (simp add: node_edges_def)

lemma quiet_land:
  assumes q: "s_ticks s = []" and d: "ru_debt (s_rec s) = Some ''write''"
    and v: "v = view_of cf (ru_node_id (s_rec s)) (s_world s)" and h: "held_by (v_item v) = Some (cl_execution_id (the_claim s))" "\<not> gave_up v"
    and f: "it_front (v_item v)" and ow: "fst (read_own_resolver s) = ow"
  shows "\<exists>t. land cf True v ow s = (Some (Settled_as ''written''), t) \<and> completed_world cf s (s_world t)
    \<and> pinned_fields (s_rec t) = pinned_fields (s_rec s)"
proof -
  let ?nid = "ru_node_id (s_rec s)" and ?own = "own_resolver (s_rec s)"
  have o: "ow_id ow = ?own" "ow_exists ow \<longleftrightarrow> map_of (w_nodes (s_world s)) ?own \<noteq> None"
    "ow_edge ow \<longleftrightarrow> (''resolves'', ?nid) \<in> set (node_edges ?own (s_world s))"
    using ow q by (auto simp: read_own_resolver_def Let_def)
  obtain t1 where 1: "retract_premature cf (Some v) False s = (True, t1)" "s_ticks t1 = []" "w_item (s_world t1) = w_item (s_world s)"
      "pinned_fields (s_rec t1) = pinned_fields (s_rec s)" "map_of (w_nodes (s_world t1)) ?own = map_of (w_nodes (s_world s)) ?own"
      "premature_in s (s_world t1) = []"
      "\<forall>i. set (node_edges i (s_world t1)) = with_evidence ?nid (premature_in s (s_world s)) i (set (node_edges i (s_world s)))"
    using quiet_retract [OF q d v] h by blast
  define t2 where "t2 = snd (confirm_fence cf t1)"
  have 2: "confirm_fence cf t1 = (True, t2)" "s_ticks t2 = []" "s_world t2 = s_world t1" "s_rec t2 = s_rec t1"
    using 1(2) by (auto simp: confirm_fence_def t2_def)
  note pin = pinned_eqD [OF 1(4)]
  have "ow_id ow = own_resolver (s_rec t2)" "ow_exists ow \<longleftrightarrow> map_of (w_nodes (s_world t2)) (ow_id ow) \<noteq> None"
    "ow_edge ow \<longleftrightarrow> (''resolves'', ru_node_id (s_rec t2)) \<in> set (node_edges (ow_id ow) (s_world t2))"
    using o 1(5) 2 pin by (simp_all add: node_edges_def)
  from quiet_ensure [OF 2(2) this, of cf ?nid] obtain t3 where e: "ensure_resolver cf ow t2 = (True, t3)" "s_ticks t3 = []"
      "w_item (s_world t3) = w_item (s_world t2)" "pinned_fields (s_rec t3) = pinned_fields (s_rec t2)"
      "(''resolves'', ru_node_id (s_rec t2)) \<in> set (node_edges (ow_id ow) (s_world t3))"
      "\<forall>p\<in>set (inbound_of ?nid (s_world t3)). p \<in> set (inbound_of ?nid (s_world t2)) \<or> fst p = ow_id ow"
      "\<forall>i. set (node_edges i (s_world t3)) = (if i = own_resolver (s_rec t2) then resolver_edges_after cf t2 else set (node_edges i (s_world t2)))"
    by blast
  have 3: "ensure_resolver cf ow t2 = (True, t3)" "s_ticks t3 = []"
      "w_item (s_world t3) = w_item (s_world s)" "pinned_fields (s_rec t3) = pinned_fields (s_rec s)"
      "(''resolves'', ?nid) \<in> set (node_edges ?own (s_world t3))"
      "\<forall>p\<in>set (inbound_of ?nid (s_world t3)). p \<in> set (inbound_of ?nid (s_world t1)) \<or> fst p = ?own"
    by (rule e(1), rule e(2), rule e(3) [unfolded 2(3) 1(3)], rule e(4) [unfolded 2(4) 1(4)], rule e(5) [unfolded 2(4) pin(1) o(1)],
      rule e(6) [unfolded 2(3) o(1)])
  have none: "premature_in s (s_world t3) = []"
  proof (unfold premature_none, rule ballI)
    fix p assume "p \<in> set (inbound_of ?nid (s_world t3))"
    with 3(6) have "p \<in> set (inbound_of ?nid (s_world t1)) \<or> fst p = ?own" by (rule bspec)
    then show "\<not> (fst p \<noteq> [] \<and> resolving_edge (snd p) \<and> fst p \<notin> set (cl_snapshot (the_claim s)) \<and> Some ?own \<noteq> Some (fst p))"
      using bspec [OF 1(6) [unfolded premature_none], of p] by (elim disjE) simp_all
  qed
  have after: "resolver_edges_after cf t2 = resolver_edges_after cf s"
    unfolding resolver_edges_after_def node_edges_def 2(3) 2(4) resolver_edges_pinned [OF 1(4)] pin(1) pin(3) 1(5) ..
  have edges: "\<forall>i. set (node_edges i (s_world t3)) = (if i = ?own then resolver_edges_after cf s
      else with_evidence ?nid (premature_in s (s_world s)) i (set (node_edges i (s_world s))))"
    using e(7) 1(7) by (simp only: 2(3) 2(4) pin(3) after) simp
  let ?t4 = "logged (ACas PComplete (w_item (s_world s)) (settled_item cf (w_item (s_world s)))) (t3\<lparr>s_world := (s_world t3)\<lparr>w_item := settled_item cf (w_item (s_world s))\<rparr>\<rparr>)"
  have 4: "cas_write PComplete (it_revision (v_item v)) (completed_item cf (v_item v)) t3 = (Wrote (Suc (it_revision (v_item v))), ?t4)"
    using 3(2,3) v by (simp add: cas_write_def settled_item_def Let_def)
  have "pinned_fields ((s_rec t3)\<lparr>ru_resolver := Some ?own\<rparr>) = pinned_fields (s_rec s)"
    using pinned_upd(6) [of "s_rec t3"] pinned_eqD(3) [OF 3(4)] 3(4) by simp
  then show ?thesis
    using f 1(1) 2(1) 3(1,5) none edges by (simp add: land_def 4 settle_as_def Let_def completed_world_def o(1))
qed

text \<open>
  C35. An undisturbed completion lands. When nobody interferes and every call is answered, a record that has reached its pinned
  boundary, whose item still carries our hold and was not given up, is completed by one write: the item gets the
  completion status and loses the hold in one swap, our resolver carries the \<open>resolves\<close> edge, every premature resolving
  edge has been retyped (its source has the \<open>relates-to\<close> edge in its place, and every other edge of every other node is as it was),
  the record is settled as written; and the debt derived from what is then on the graph is none,
  so that nothing is owed and a further reconciliation does nothing.
\<close>

theorem undisturbed_completion_lands:
  assumes "s_ticks s = []" and "ru_claim (s_rec s) = Some c" and "is_controller_record (s_rec s)" and "cl_after c \<noteq> []"
    and "record_boundary_reached (s_rec s) (c_landed cf)"
    and "\<not> (ru_written (s_rec s) \<or> ru_consumed (s_rec s) \<or> ru_withdrawn (s_rec s))"
    and "held_by (w_item (s_world s)) = Some (cl_execution_id c)" and "\<not> given_up cf (w_item (s_world s))" and "it_front (w_item (s_world s))"
    and "c_terminal cf (it_type (w_item (s_world s))) (it_status (settled_item cf (w_item (s_world s))))"
    and "c_give_up cf = Some g" and "\<not> given_up cf (settled_item cf (w_item (s_world s)))"
  shows "\<exists>t. write_completion cf True None s = (Settled_as ''written'', t) \<and> completed_world cf s (s_world t)
    \<and> derive_completion_debt (s_rec t) (Some (view_of cf (ru_node_id (s_rec s)) (s_world t)))
        (Some \<lparr>ow_id = own_resolver (s_rec s), ow_exists = True, ow_edge = True\<rparr>) (c_landed cf) = None
    \<and> reconcile_completion cf True t = (None, t)"
proof -
  let ?nid = "ru_node_id (s_rec s)" and ?i = "w_item (s_world s)"
  define q where "q = (if ru_debt (s_rec s) = Some ''write'' then s else stamp_debt (Some ''write'') s)"
  have q: "s_ticks q = []" "ru_debt (s_rec q) = Some ''write''" "s_world q = s_world s" "pinned_fields (s_rec q) = pinned_fields (s_rec s)"
    using assms(1) by (auto simp: q_def stamp_debt_def)
  define u where "u = snd (read_own_resolver q)"
  define ow where "ow = fst (read_own_resolver q)"
  have u: "s_ticks u = []" "ru_debt (s_rec u) = Some ''write''" "s_world u = s_world s" "pinned_fields (s_rec u) = pinned_fields (s_rec s)"
    "s_rec u = s_rec q"
    using q by (auto simp: u_def read_own_resolver_def Let_def)
  have claim: "the_claim s = c" "the_claim u = c" using assms(2) the_claim_pinned [OF u(4)] by (simp_all add: the_claim_def)
  have same: "fst (read_own_resolver u) = ow"
    using q u by (simp add: ow_def read_own_resolver_def Let_def)
  have nid: "ru_node_id (s_rec u) = ?nid" using pinned_eqD(1) [OF u(4)] .
  have bd: "record_boundary_reached (s_rec u) (c_landed cf)" "is_controller_record (s_rec u)"
    using assms(3,5) unfolding record_boundary_reached_def is_controller_record_def by (simp_all only: pinned_eqD [OF u(4)])
  let ?v = "view_of cf ?nid (s_world s)"
  obtain t where t: "land cf True ?v ow u = (Some (Settled_as ''written''), t)"
      "completed_world cf u (s_world t)" "pinned_fields (s_rec t) = pinned_fields (s_rec u)"
    using quiet_land [OF u(1,2), of ?v cf ow] assms(7-9) claim u(3) nid same by auto
  have rd: "read_item cf (ru_node_id (s_rec q)) q = (Some ?v, q)" "read_own_resolver q = (ow, u)"
    using q pinned_eqD(1) [OF q(4)] by (simp_all add: read_item_def u_def ow_def)
  have "write_loop (Suc 3) cf True (cl_after c) q = (Settled_as ''written'', t)"
    unfolding write_loop.simps rd(1) using assms(7,8) claim bd by (simp add: rd(2) t(1) Let_def)
  then have loop: "write_loop 4 cf True (cl_after c) q = (Settled_as ''written'', t)" by simp
  have w: "write_completion cf True None s = (Settled_as ''written'', t)"
    using assms(4,6-8) claim bd
    by (simp add: write_completion_def q_def [symmetric] loop)
  have after: "resolver_edges_after cf u = resolver_edges_after cf s"
    unfolding resolver_edges_after_def resolver_edges_pinned [OF u(4)] u(3) pinned_eqD(1,3) [OF u(4)] ..
  have comp: "completed_world cf s (s_world t)"
    using t(2) unfolding completed_world_def after claim u(3) pinned_eqD [OF u(4)] .
  have wr: "ru_written (s_rec t)" using write_completion_accounts [OF w assms(6)] by simp
  have pt: "pinned_fields (s_rec t) = pinned_fields (s_rec s)" using t(3) u(4) by simp
  have ct: "ru_claim (s_rec t) = Some c" using pinned_eqD(2) [OF pt] assms(2) by simp
  have it: "w_item (s_world t) = settled_item cf ?i" using comp by (simp add: completed_world_def)
  have "trim (it_execution (settled_item cf ?i)) = []" by (simp add: settled_item_def completed_item_def)
  moreover have "it_type (settled_item cf ?i) = it_type ?i" by (simp add: settled_item_def completed_item_def)
  ultimately have "derive_completion_debt (s_rec t) (Some (view_of cf ?nid (s_world t)))
      (Some \<lparr>ow_id = own_resolver (s_rec s), ow_exists = True, ow_edge = True\<rparr>) (c_landed cf) = None"
    using assms(10-12) ct it by (simp add: derive_completion_debt_def view_of_def given_up_def Let_def) (intro conjI impI, auto)
  moreover have "reconcile_completion cf True t = (None, t)" using wr by (simp add: reconcile_completion_def)
  ultimately show ?thesis using w comp by blast
qed

subsection \<open>A concrete execution\<close>

definition demo_impl_claim :: impl_claim where
  "demo_impl_claim = \<lparr>cl_execution_id = ''e1'', cl_by = ''controller'', cl_after = ''gates'', cl_snapshot = [], cl_status_snapshot = ''open''\<rparr>"

definition demo_record :: run_record where
  "demo_record = \<lparr>ru_node_id = ''t1'', ru_claim = Some demo_impl_claim, ru_impl_state = ''candidate'', ru_gates_state = ''passed'',
     ru_integration_state = [], ru_gate_state = ''passed'', ru_candidate_id = Some ''cand-0123456789abcdef'', ru_impl_resolver = None,
     ru_debt = None, ru_resolver = Some ''a1'', ru_premature = [], ru_written = False, ru_consumed = False, ru_withdrawn = False\<rparr>"

definition held_item :: item where
  "held_item = \<lparr>it_status = ''open'', it_type = ''task'', it_execution = ''e1'', it_execution_at = ''now'', it_released_by = [],
     it_revision = 7, it_front = True\<rparr>"

definition demo_conf :: conf where
  "demo_conf = \<lparr>c_terminal = (\<lambda>t s. s = ''done'' \<or> s = ''abandoned''), c_give_up = Some (\<lambda>t s. s = ''abandoned''), c_completion_status = (\<lambda>t. ''done''),
     c_store = True, c_evidence = None, c_facts = [''g1''], c_landed = False, c_now = ''now''\<rparr>"

definition demo_sys :: "tick list \<Rightarrow> sys" where
  "demo_sys ts = \<lparr>s_world = \<lparr>w_item = held_item, w_nodes = [(''a0'', \<lparr>cn_edges = [(''resolves'', ''t1'')], cn_counts = True\<rparr>)]\<rparr>,
     s_ticks = ts, s_rec = demo_record, s_log = []\<rparr>"

text \<open>Somebody edits the item just before the first swap, which then loses; the second pass lands.\<close>

definition edit :: "world \<Rightarrow> world" where
  "edit w = w\<lparr>w_item := (w_item w)\<lparr>it_revision := Suc (it_revision (w_item w))\<rparr>\<rparr>"

definition busy :: "tick list" where
  "busy = replicate 6 (id, Answered) @ [(edit, Answered)]"

lemma busy_honest: "honest (demo_sys busy)"
  by (simp add: honest_def demo_sys_def busy_def honest_tick_def edit_def numeral_eq_Suc)

definition busy_end :: "settlement \<times> sys" where
  "busy_end = write_completion demo_conf True None (demo_sys busy)"

definition swaps :: "action list \<Rightarrow> (nat \<times> nat) list" where
  "swaps l = concat (map (\<lambda>a. case a of ACas PComplete i j \<Rightarrow> [(it_revision i, it_revision j)] | _ \<Rightarrow> []) l)"

lemma busy_end_eval: "(fst busy_end, swaps (s_log (snd busy_end))) = (Settled_as ''written'', [(8, 9)])"
  by code_simp

theorem completion_lands_in_order_witness:
  "fst busy_end = Settled_as ''written'' \<and> (\<exists>old new. ACas PComplete old new \<in> set (since (demo_sys busy) (snd busy_end)))"
proof -
  have w: "write_completion demo_conf True None (demo_sys busy) = (fst busy_end, snd busy_end)" by (simp add: busy_end_def)
  have n: "\<not> (ru_written (s_rec (demo_sys busy)) \<or> ru_consumed (s_rec (demo_sys busy)) \<or> ru_withdrawn (s_rec (demo_sys busy)))" by code_simp
  have out: "fst busy_end = Settled_as ''written''" using busy_end_eval by simp
  from completion_lands_in_order [OF busy_honest w n, THEN conjunct2] out show ?thesis by simp
qed

text \<open>The store does not confirm the fence: nothing is swapped and the debt stays.\<close>

theorem unsettled_completion_stays_owed_witness:
  "fst (write_completion demo_conf True None (demo_sys (replicate 4 (id, Answered) @ [(id, Refused)]))) = StillOwed
   \<and> ru_debt (s_rec (snd (write_completion demo_conf True None (demo_sys (replicate 4 (id, Answered) @ [(id, Refused)]))))) = Some ''write''"
proof -
  let ?s = "demo_sys (replicate 4 (id, Answered) @ [(id, Refused)])"
  have a: "fst (write_completion demo_conf True None ?s) = StillOwed" by code_simp
  have "write_completion demo_conf True None ?s = (StillOwed, snd (write_completion demo_conf True None ?s))"
    using a by (metis prod.collapse)
  moreover have "\<not> (ru_written (s_rec ?s) \<or> ru_consumed (s_rec ?s) \<or> ru_withdrawn (s_rec ?s))" by code_simp
  ultimately show ?thesis using unsettled_completion_stays_owed a by fastforce
qed

theorem holds_are_exclusive_witness:
  "list_all (fair_swap demo_conf ''e1'') (since (demo_sys busy) (foldl (perform demo_conf) (demo_sys busy) [CWrite True None, CHold]))
   \<and> length (filter (\<lambda>a. case a of ACas _ _ _ \<Rightarrow> True | _ \<Rightarrow> False) (since (demo_sys busy) (foldl (perform demo_conf) (demo_sys busy) [CWrite True None]))) = 1"
proof
  show "list_all (fair_swap demo_conf ''e1'') (since (demo_sys busy) (foldl (perform demo_conf) (demo_sys busy) [CWrite True None, CHold]))"
    by (rule holds_are_exclusive [OF _ _ _ busy_honest]) (code_simp+)
qed code_simp

theorem undisturbed_completion_lands_witness:
  "\<exists>t. write_completion demo_conf True None (demo_sys []) = (Settled_as ''written'', t) \<and> completed_world demo_conf (demo_sys []) (s_world t)
     \<and> set (node_edges ''a0'' (s_world t)) = {(''relates-to'', ''t1'')}"
proof -
  let ?s = "demo_sys []"
  have a: "s_ticks ?s = []" "ru_claim (s_rec ?s) = Some demo_impl_claim" by (simp_all add: demo_sys_def demo_record_def)
  have b: "is_controller_record (s_rec ?s)" "cl_after demo_impl_claim \<noteq> []" "record_boundary_reached (s_rec ?s) (c_landed demo_conf)" by code_simp+
  have c: "\<not> (ru_written (s_rec ?s) \<or> ru_consumed (s_rec ?s) \<or> ru_withdrawn (s_rec ?s))" by code_simp
  have d: "held_by (w_item (s_world ?s)) = Some (cl_execution_id demo_impl_claim)" "\<not> given_up demo_conf (w_item (s_world ?s))"
    "it_front (w_item (s_world ?s))"
    "c_terminal demo_conf (it_type (w_item (s_world ?s))) (it_status (settled_item demo_conf (w_item (s_world ?s))))" by code_simp+
  have e: "c_give_up demo_conf = Some (\<lambda>t s. s = ''abandoned'')" by (simp add: demo_conf_def)
  have f: "\<not> given_up demo_conf (settled_item demo_conf (w_item (s_world ?s)))" by code_simp
  from undisturbed_completion_lands [OF a b c d e f] obtain t where t: "write_completion demo_conf True None ?s = (Settled_as ''written'', t)"
      "completed_world demo_conf ?s (s_world t)" by blast
  have own: "own_resolver (s_rec ?s) = ''a1''" "ru_node_id (s_rec ?s) = ''t1''" by code_simp+
  have prem: "premature_in ?s (s_world ?s) = [(''a0'', ''resolves'')]" "node_edges ''a0'' (s_world ?s) = [(''resolves'', ''t1'')]" by code_simp+
  have "set (node_edges ''a0'' (s_world t)) = with_evidence ''t1'' [(''a0'', ''resolves'')] ''a0'' {(''resolves'', ''t1'')}"
    using t(2) own prem unfolding completed_world_def by simp
  then have "set (node_edges ''a0'' (s_world t)) = {(''relates-to'', ''t1'')}" by (simp add: with_evidence_def)
  with t show ?thesis by blast
qed

text \<open>
  An answer lost at the swap: the item is completed by this very write, the debt stays, and the next pass finds the
  item terminal without a hold and settles the record as consumed by somebody else.
\<close>

definition lost_swap :: sys where
  "lost_swap = snd (write_completion demo_conf True None (demo_sys (replicate 6 (id, Answered) @ [(id, Lost)])))"

lemma lost_answer_reads_as_consumed:
  "(ru_debt (s_rec lost_swap), swaps (s_log lost_swap), fst (write_completion demo_conf True None lost_swap))
   = (Some ''write'', [(7, 8)], Settled_as ''consumed'')"
  by code_simp

end
