(* ===== verification/Queue.thy ===== *)
theory Queue
  imports Resolution
begin

text \<open>
  The queue's structural signals, \<^verbatim>\<open>src/lib/kernel/queue.js\<close>: liveness under an execution hold, blockers and the work a node
  blocks, the claim lease in force, a person's scope, and the derived agent-readiness. The scoring blend, the rendering and the
  policy hook of \<open>rankQueue\<close> are not here.

  The adjacency map the graph carries is an argument (\<open>adj\<close>), as are the lease table and the recent write counts. A lease is what
  the table holds of it; its expiry is \<open>None\<close> where it is not a number.
\<close>

subsection \<open>Liveness and blockers\<close>

definition is_live :: "registry \<Rightarrow> graph \<Rightarrow> node \<Rightarrow> bool" where
  "is_live seed g n =
     (if g_superseded g (n_id n) then False
      else if execution_held n then \<not> is_give_up_status seed (n_status n) (n_type n) (Some g)
      else \<not> is_terminal_status seed (n_status n) (n_type n) (Some g))"

definition live_id :: "registry \<Rightarrow> graph \<Rightarrow> string \<Rightarrow> bool" where
  "live_id seed g i = (case g_node g i of None \<Rightarrow> False | Some n \<Rightarrow> is_live seed g n)"

definition edges_of :: "graph \<Rightarrow> string \<Rightarrow> edge list" where
  "edges_of g i = (case g_node g i of None \<Rightarrow> [] | Some n \<Rightarrow> n_edges n)"

text \<open>\<open>blockersIndex(graph)[id]\<close>, and \<open>membersIndex\<close> of the program walk, which differs only in the edge type.\<close>

definition sources_of :: "string \<Rightarrow> graph \<Rightarrow> string \<Rightarrow> string list" where
  "sources_of type g i = concat (map (\<lambda>n. map (\<lambda>e. n_id n) (filter (\<lambda>e. e_type e = type \<and> e_to e = i \<and> g_node g i \<noteq> None) (n_edges n))) (g_values g))"

definition blockers_index :: "graph \<Rightarrow> string \<Rightarrow> string list" where
  "blockers_index g i = sources_of ''blocks'' g i"

definition live_blockers :: "registry \<Rightarrow> graph \<Rightarrow> string \<Rightarrow> string list" where
  "live_blockers seed g i = filter (\<lambda>b. live_id seed g b \<and> resolution_map seed g b = None) (blockers_index g i)"

definition direct_live_blocks :: "registry \<Rightarrow> graph \<Rightarrow> node \<Rightarrow> string list" where
  "direct_live_blocks seed g n = map e_to (filter (\<lambda>e. e_type e = ''blocks'' \<and> live_id seed g (e_to e) \<and> resolution_map seed g (e_to e) = None) (n_edges n))"

text \<open>One node's edges pushed: the newly seen targets, the live ones onto the stack (its top is the head).\<close>

definition push_edge :: "registry \<Rightarrow> graph \<Rightarrow> string list \<times> string list \<Rightarrow> edge \<Rightarrow> string list \<times> string list" where
  "push_edge seed g p e = (case p of (seen, stack) \<Rightarrow>
     if e_type e \<noteq> ''blocks'' \<or> e_to e \<in> set seen \<or> g_node g (e_to e) = None then (seen, stack)
     else (seen @ [e_to e], if live_id seed g (e_to e) then e_to e # stack else stack))"

definition expand :: "registry \<Rightarrow> graph \<Rightarrow> string \<Rightarrow> string list \<Rightarrow> string list \<Rightarrow> string list \<times> string list" where
  "expand seed g cur seen stack = foldl (push_edge seed g) (seen, stack) (edges_of g cur)"

definition unseen :: "graph \<Rightarrow> string list \<Rightarrow> nat" where
  "unseen g seen = card (fst ` set (g_nodes g) - set seen)"

lemma g_node_key: "g_node g i \<noteq> None \<longleftrightarrow> i \<in> fst ` set (g_nodes g)"
  by (simp add: g_node_def map_of_eq_None_iff)

lemma unseen_less: "g_node g i \<noteq> None \<Longrightarrow> i \<notin> set seen \<Longrightarrow> unseen g (seen @ [i]) < unseen g seen"
  unfolding unseen_def g_node_key by (rule psubset_card_mono) (simp, simp, blast)

lemma fold_push_unseen:
  "foldl (push_edge seed g) (seen, stack) es = (seen', stack') \<Longrightarrow>
   (seen' = seen \<and> stack' = stack) \<or> unseen g seen' < unseen g seen"
proof (induction es arbitrary: seen stack)
  case (Cons e es)
  obtain s1 t1 where p: "push_edge seed g (seen, stack) e = (s1, t1)" by (cases "push_edge seed g (seen, stack) e")
  then have "(s1 = seen \<and> t1 = stack) \<or> unseen g s1 < unseen g seen"
    using unseen_less by (auto simp: push_edge_def split: if_splits)
  moreover have "(seen' = s1 \<and> stack' = t1) \<or> unseen g seen' < unseen g s1" using Cons p by simp
  ultimately show ?case by auto
qed simp

lemma expand_unseen:
  "expand seed g cur seen stack = (seen', stack') \<Longrightarrow> (seen' = seen \<and> stack' = stack) \<or> unseen g seen' < unseen g seen"
  unfolding expand_def by (rule fold_push_unseen)

function block_search :: "registry \<Rightarrow> graph \<Rightarrow> string list \<Rightarrow> string list \<Rightarrow> string list" where
  "block_search seed g seen [] = seen"
| "block_search seed g seen (cur # stack) =
     block_search seed g (fst (expand seed g cur seen stack)) (snd (expand seed g cur seen stack))"
  by pat_completeness auto
termination
proof (relation "measures [\<lambda>(seed, g, seen, stack). unseen g seen, \<lambda>(seed, g, seen, stack). length stack]", goal_cases)
  case (2 seed g seen cur stack)
  show ?case using expand_unseen [of seed g cur seen stack "fst (expand seed g cur seen stack)" "snd (expand seed g cur seen stack)"] by (auto simp: case_prod_unfold)
qed simp

declare block_search.simps [simp del]

definition blocking_count :: "registry \<Rightarrow> graph \<Rightarrow> string \<Rightarrow> nat" where
  "blocking_count seed g i = length (filter (live_id seed g) (block_search seed g [] [i]))"

subsection \<open>Leases and scope\<close>

record lease =
  ls_by :: "string option"
  ls_expires :: "int option"
  ls_reserved :: bool

definition lease_state :: "(string \<rightharpoonup> lease) option \<Rightarrow> string \<Rightarrow> int \<Rightarrow> (string option \<times> bool) option" where
  "lease_state leases i now =
     (case leases of
        None \<Rightarrow> None
      | Some table \<Rightarrow>
          (case table i of
             None \<Rightarrow> None
           | Some l \<Rightarrow>
               (case ls_expires l of
                  None \<Rightarrow> None
                | Some x \<Rightarrow> if x \<le> now then None else Some (ls_by l, ls_reserved l))))"

definition assignee_scope :: "graph \<Rightarrow> string option \<Rightarrow> string set option" where
  "assignee_scope g assignee =
     (case assignee of
        None \<Rightarrow> None
      | Some a \<Rightarrow>
          if a = [] then None
          else Some (set (map e_to (filter (\<lambda>e. e_type e = ''stewards'' \<and> g_node g (e_to e) \<noteq> None) (edges_of g a)))
            \<union> set (map n_id (filter (\<lambda>n. list_ex (\<lambda>e. e_type e = ''assigned'' \<and> e_to e = a) (n_edges n)) (g_values g)))))"

subsection \<open>Readiness\<close>

definition inbound_suffix :: string where
  "inbound_suffix = '' (inbound)''"

definition ends_with :: "string \<Rightarrow> string \<Rightarrow> bool" where
  "ends_with s t \<longleftrightarrow> length t \<le> length s \<and> drop (length s - length t) s = t"

definition reference_inbound :: "string list" where
  "reference_inbound = [''relates-to (inbound)'', ''derived-from (inbound)'', ''mentions (inbound)'']"

definition resolves_live_node :: "graph \<Rightarrow> (string \<Rightarrow> edge list) \<Rightarrow> string \<Rightarrow> bool" where
  "resolves_live_node g adj i \<longleftrightarrow> list_ex (\<lambda>e. resolving_edge (e_type e)
     \<and> (case g_node g (e_to e) of None \<Rightarrow> False | Some t \<Rightarrow> \<not> g_superseded g (n_id t))) (adj i)"

definition has_inbound_outcome :: "graph \<Rightarrow> (string \<Rightarrow> edge list) \<Rightarrow> string \<Rightarrow> bool" where
  "has_inbound_outcome g adj i \<longleftrightarrow> list_ex (\<lambda>e. ends_with (e_type e) inbound_suffix
     \<and> e_type e \<noteq> ''resolves (inbound)'' \<and> e_type e \<noteq> ''answers (inbound)'' \<and> e_type e \<notin> set reference_inbound
     \<and> (case g_node g (e_to e) of
          None \<Rightarrow> False
        | Some src \<Rightarrow> \<not> g_superseded g (n_id src) \<and> (n_type src = Some ''artifact'' \<or> n_type src = Some ''decision'')
            \<and> \<not> resolves_live_node g adj (n_id src))) (adj i)"

text \<open>\<open>s.split(",")\<close>, trimmed, blanks dropped.\<close>

fun split_comma :: "string \<Rightarrow> string \<Rightarrow> string list" where
  "split_comma acc [] = [acc]"
| "split_comma acc (c # cs) = (if c = CHR '','' then acc # split_comma [] cs else split_comma (acc @ [c]) cs)"

definition requires_list :: "node \<Rightarrow> jsval list" where
  "requires_list n = (case n_requires n of
       JArr vs \<Rightarrow> vs
     | JStr s \<Rightarrow> map JStr (filter (\<lambda>t. t \<noteq> []) (map trim (split_comma [] s)))
     | _ \<Rightarrow> [])"

definition effective_requires :: "node \<Rightarrow> jsval list" where
  "effective_requires n = (if requires_list n \<noteq> [] then requires_list n
     else if truthy (n_project n) \<and> (n_type n = Some ''task'' \<or> n_type n = Some ''issue'') then [JStr ''shell'', JStr ''filesystem-write'']
     else [])"

datatype readiness = Human | Agent | Untriaged

definition assigned_to :: "graph \<Rightarrow> node \<Rightarrow> string \<Rightarrow> bool" where
  "assigned_to g n type \<longleftrightarrow> list_ex (\<lambda>e. e_type e = ''assigned'' \<and>
     (case g_node g (e_to e) of None \<Rightarrow> False | Some t \<Rightarrow> n_type t = Some type)) (n_edges n)"

definition open_question_near :: "registry \<Rightarrow> graph \<Rightarrow> (string \<Rightarrow> edge list) \<Rightarrow> node \<Rightarrow> bool" where
  "open_question_near seed g adj n \<longleftrightarrow> list_ex (\<lambda>e. case g_node g (e_to e) of
       None \<Rightarrow> False
     | Some q \<Rightarrow> n_id q \<noteq> n_id n \<and> n_type q = Some ''question'' \<and> is_live seed g q \<and> resolution_map seed g (n_id q) = None) (adj (n_id n))"

definition derive_readiness :: "registry \<Rightarrow> graph \<Rightarrow> (string \<Rightarrow> edge list) \<Rightarrow> node \<Rightarrow> bool \<Rightarrow> readiness" where
  "derive_readiness seed g adj n held =
     (if JStr ''human'' \<in> set (effective_requires n) \<or> assigned_to g n ''person'' \<or> held
        \<or> n_type n = Some ''question'' \<or> n_type n = Some ''capture-pending'' \<or> open_question_near seed g adj n then Human
      else if (case n_readiness n of JStr s \<Rightarrow> lower (trim s) = ''agent'' | _ \<Rightarrow> False) \<or> assigned_to g n ''agent'' then Agent
      else Untriaged)"

definition held_front_floor :: nat where
  "held_front_floor = 2"

definition readiness_of :: "registry \<Rightarrow> graph \<Rightarrow> (string \<Rightarrow> edge list) \<Rightarrow> (string \<Rightarrow> nat) \<Rightarrow> string \<Rightarrow> readiness option" where
  "readiness_of seed g adj front i =
     (case g_node g i of
        None \<Rightarrow> None
      | Some n \<Rightarrow>
          (let st = lower_or_empty (n_status n);
               held = (front i > held_front_floor \<and> n_type n = Some ''task'' \<and> (st = [] \<or> st = ''open'')
                 \<and> live_blockers seed g i = [] \<and> has_inbound_outcome g adj i)
           in Some (derive_readiness seed g adj n held)))"

subsection \<open>What a node blocks\<close>

text \<open>\<open>i\<close> leads to \<open>t\<close> over \<open>blocks\<close> edges of the graph, every node passed on the way being live.\<close>

inductive leads_to :: "registry \<Rightarrow> graph \<Rightarrow> string \<Rightarrow> string \<Rightarrow> bool" for seed g i where
  first: "e \<in> set (edges_of g i) \<Longrightarrow> e_type e = ''blocks'' \<Longrightarrow> g_node g (e_to e) \<noteq> None \<Longrightarrow> leads_to seed g i (e_to e)"
| onward: "leads_to seed g i m \<Longrightarrow> live_id seed g m \<Longrightarrow> e \<in> set (edges_of g m) \<Longrightarrow> e_type e = ''blocks'' \<Longrightarrow> g_node g (e_to e) \<noteq> None
    \<Longrightarrow> leads_to seed g i (e_to e)"

text \<open>What the search keeps: it has only seen nodes it can reach, and every target of the root or of a live seen node is seen unless
  the node still waits on the stack.\<close>

definition blocked_by :: "graph \<Rightarrow> string \<Rightarrow> string set" where
  "blocked_by g m = {e_to e |e. e \<in> set (edges_of g m) \<and> e_type e = ''blocks'' \<and> g_node g (e_to e) \<noteq> None}"

definition search_inv :: "registry \<Rightarrow> graph \<Rightarrow> string \<Rightarrow> string list \<Rightarrow> string list \<Rightarrow> bool" where
  "search_inv seed g i seen stack \<longleftrightarrow> distinct seen \<and> (\<forall>t\<in>set seen. leads_to seed g i t)
     \<and> (\<forall>m\<in>set stack. m = i \<or> (m \<in> set seen \<and> live_id seed g m))
     \<and> (\<forall>m. (m = i \<or> (m \<in> set seen \<and> live_id seed g m)) \<longrightarrow> m \<in> set stack \<or> blocked_by g m \<subseteq> set seen)"

lemma fold_push:
  assumes "foldl (push_edge seed g) (seen, stack) es = (seen', stack')" and "distinct seen"
  shows "distinct seen' \<and> set seen' = set seen \<union> {e_to e |e. e \<in> set es \<and> e_type e = ''blocks'' \<and> g_node g (e_to e) \<noteq> None}
    \<and> set stack' = set stack \<union> {t. t \<in> set seen' - set seen \<and> live_id seed g t}"
  using assms
proof (induction es arbitrary: seen stack)
  case (Cons e es)
  show ?case
  proof (cases "e_type e \<noteq> ''blocks'' \<or> e_to e \<in> set seen \<or> g_node g (e_to e) = None")
    case True
    then have "push_edge seed g (seen, stack) e = (seen, stack)" by (simp add: push_edge_def)
    with Cons.IH [of seen stack] Cons.prems True show ?thesis by auto
  next
    case False
    then have p: "push_edge seed g (seen, stack) e = (seen @ [e_to e], if live_id seed g (e_to e) then e_to e # stack else stack)"
      by (simp add: push_edge_def)
    show ?thesis
      using Cons.IH [of "seen @ [e_to e]" "if live_id seed g (e_to e) then e_to e # stack else stack"] Cons.prems False p
      by (cases "live_id seed g (e_to e)") auto
  qed
qed auto

lemma expand_inv:
  assumes inv: "search_inv seed g i seen (cur # stack)" and ex: "expand seed g cur seen stack = (seen', stack')"
  shows "search_inv seed g i seen' stack'"
proof -
  have d: "distinct seen" using inv by (simp add: search_inv_def)
  have f: "distinct seen'" "set seen' = set seen \<union> blocked_by g cur"
    "set stack' = set stack \<union> {t. t \<in> set seen' - set seen \<and> live_id seed g t}"
    using fold_push [OF ex [unfolded expand_def] d] by (auto simp: blocked_by_def)
  have cur: "cur = i \<or> (leads_to seed g i cur \<and> live_id seed g cur)" using inv by (auto simp: search_inv_def)
  have "leads_to seed g i t" if "t \<in> blocked_by g cur" for t
    using that cur by (auto simp: blocked_by_def intro: leads_to.intros)
  then have "\<forall>t\<in>set seen'. leads_to seed g i t" using inv f(2) by (auto simp: search_inv_def)
  moreover have "\<forall>m\<in>set stack'. m = i \<or> (m \<in> set seen' \<and> live_id seed g m)" using inv f(2,3) by (auto simp: search_inv_def)
  moreover have "m \<in> set stack' \<or> blocked_by g m \<subseteq> set seen'" if "m = i \<or> (m \<in> set seen' \<and> live_id seed g m)" for m
  proof (cases "m = i \<or> m \<in> set seen")
    case True
    then have "m \<in> set (cur # stack) \<or> blocked_by g m \<subseteq> set seen" using inv that by (auto simp: search_inv_def)
    then show ?thesis using f(2,3) by auto
  next
    case False
    then show ?thesis using that f(2,3) by auto
  qed
  ultimately show ?thesis using f(1) by (simp add: search_inv_def)
qed

lemma block_search_inv: "search_inv seed g i seen stack \<Longrightarrow> search_inv seed g i (block_search seed g seen stack) []"
proof (induction seed g seen stack rule: block_search.induct)
  case (2 seed g seen cur stack)
  have "search_inv seed g i (fst (expand seed g cur seen stack)) (snd (expand seed g cur seen stack))"
    using expand_inv [OF "2.prems"] by (metis prod.collapse)
  from "2.IH" [OF this] show ?case by (simp add: block_search.simps)
qed (simp add: block_search.simps)

lemma block_search_leads: "set (block_search seed g [] [i]) = {t. leads_to seed g i t} \<and> distinct (block_search seed g [] [i])"
proof -
  have inv: "search_inv seed g i (block_search seed g [] [i]) []"
    by (rule block_search_inv) (simp add: search_inv_def)
  have "t \<in> set (block_search seed g [] [i])" if "leads_to seed g i t" for t
    using that
  proof induction
    case (first e)
    then have "e_to e \<in> blocked_by g i" by (auto simp: blocked_by_def)
    moreover have "blocked_by g i \<subseteq> set (block_search seed g [] [i])" using inv by (simp add: search_inv_def)
    ultimately show ?case by blast
  next
    case (onward m e)
    then have "blocked_by g m \<subseteq> set (block_search seed g [] [i])" using inv by (simp add: search_inv_def)
    then show ?case using onward by (auto simp: blocked_by_def)
  qed
  then show ?thesis using inv by (auto simp: search_inv_def)
qed

text \<open>
  C36. The blocking signal counts what it says. On every graph, cycles included, the traversal ends, and the number it returns is
  the number of live nodes that \<open>i\<close> leads to over \<open>blocks\<close> edges through live nodes, each counted once however many
  paths reach it; a live node that \<open>i\<close> blocks directly is among them.
\<close>

theorem blocking_count_counts_the_blocked:
  "blocking_count seed g i = card {t. leads_to seed g i t \<and> live_id seed g t}"
proof -
  have "blocking_count seed g i = card (set (filter (live_id seed g) (block_search seed g [] [i])))"
    unfolding blocking_count_def using block_search_leads [of seed g i] by (subst distinct_card) auto
  also have "set (filter (live_id seed g) (block_search seed g [] [i])) = {t. leads_to seed g i t \<and> live_id seed g t}"
    using block_search_leads [of seed g i] by auto
  finally show ?thesis .
qed

end
