(* ===== verification/Program.thy ===== *)
theory Program
  imports Queue
begin

text \<open>
  The program view, \<^verbatim>\<open>src/lib/kernel/program.js\<close>: the bounded breadth-first walk of a root's membership tree, the
  bucket of every node it counts, the rows it renders and the blockers it reports as outside the program.

  Nodes are keyed by their ids, as the loader keys them, so every id of an index is a node of the graph. The lease table and the clock
  are arguments. The percentage of the envelope is floating-point display rounding and is left out.
\<close>

subsection \<open>Buckets and rows\<close>

definition membership_edge :: string where
  "membership_edge = ''member-of-program''"

definition members_index :: "graph \<Rightarrow> string \<Rightarrow> string list" where
  "members_index g i = sources_of membership_edge g i"

datatype bucket = Finished | Underway | Waiting | Unstarted

definition bucket_of :: "registry \<Rightarrow> graph \<Rightarrow> string \<Rightarrow> bucket" where
  "bucket_of seed g i =
     (if \<not> live_id seed g i \<or> resolution_map seed g i \<noteq> None then Finished
      else if live_blockers seed g i \<noteq> [] then Waiting
      else if (case g_node g i of None \<Rightarrow> False | Some n \<Rightarrow> lower_or_empty (n_status n) = ''active'') then Underway
      else Unstarted)"

datatype lease_field = No_table | Unleased | Leased bool "string option"

definition lease_fields :: "(string \<rightharpoonup> lease) option \<Rightarrow> string \<Rightarrow> int \<Rightarrow> lease_field" where
  "lease_fields leases i now =
     (case leases of
        None \<Rightarrow> No_table
      | Some _ \<Rightarrow> (case lease_state leases i now of None \<Rightarrow> Unleased | Some (by, reserved) \<Rightarrow> Leased reserved by))"

record tree_row =
  tr_id :: string
  tr_type :: "string option"
  tr_title :: "string option"
  tr_depth :: nat
  tr_parent :: string
  tr_bucket :: "bucket option"
  tr_repeat :: bool
  tr_edge :: "string option"
  tr_lease :: lease_field

record pend =
  pd_id :: string
  pd_depth :: nat
  pd_parent :: string
  pd_edge :: "string option"

record walk_options =
  wo_max_depth :: nat
  wo_max_nodes :: nat
  wo_leases :: "(string \<rightharpoonup> lease) option"
  wo_now :: int

definition default_options :: walk_options where
  "default_options = \<lparr>wo_max_depth = 20, wo_max_nodes = 200, wo_leases = None, wo_now = 0\<rparr>"

definition tree_row_of :: "graph \<Rightarrow> walk_options \<Rightarrow> pend \<Rightarrow> bucket option \<Rightarrow> bool \<Rightarrow> tree_row" where
  "tree_row_of g w p b again = \<lparr>tr_id = pd_id p,
     tr_type = (case g_node g (pd_id p) of None \<Rightarrow> None | Some n \<Rightarrow> n_type n),
     tr_title = (case g_node g (pd_id p) of None \<Rightarrow> None | Some n \<Rightarrow> n_title n),
     tr_depth = pd_depth p, tr_parent = pd_parent p, tr_bucket = b, tr_repeat = again, tr_edge = pd_edge p,
     tr_lease = lease_fields (wo_leases w) (pd_id p) (wo_now w)\<rparr>"

subsection \<open>Children and outsiders\<close>

text \<open>The per-node preference: declared members where there are any, else the inbound \<open>blocks\<close> edges.\<close>

definition child_ids :: "graph \<Rightarrow> string \<Rightarrow> string list" where
  "child_ids g i = (if members_index g i \<noteq> [] then members_index g i else blockers_index g i)"

definition children_of :: "graph \<Rightarrow> string \<Rightarrow> nat \<Rightarrow> pend list" where
  "children_of g i depth =
     map (\<lambda>c. \<lparr>pd_id = c, pd_depth = depth, pd_parent = i, pd_edge = (if members_index g i \<noteq> [] then Some membership_edge else None)\<rparr>)
       (child_ids g i)"

definition outsiders :: "graph \<Rightarrow> string \<Rightarrow> string list" where
  "outsiders g i = (if members_index g i \<noteq> [] then filter (\<lambda>b. b \<notin> set (members_index g i)) (blockers_index g i) else [])"

definition add_new :: "'a \<Rightarrow> 'a list \<Rightarrow> 'a list" where
  "add_new x xs = (if x \<in> set xs then xs else xs @ [x])"

subsection \<open>The walk\<close>

record progress =
  pg_total :: nat
  pg_done :: nat
  pg_active :: nat
  pg_blocked :: nat
  pg_open :: nat

definition count_in :: "bucket \<Rightarrow> progress \<Rightarrow> progress" where
  "count_in b p = (let q = p\<lparr>pg_total := Suc (pg_total p)\<rparr> in
     (case b of
        Finished \<Rightarrow> q\<lparr>pg_done := Suc (pg_done p)\<rparr>
      | Underway \<Rightarrow> q\<lparr>pg_active := Suc (pg_active p)\<rparr>
      | Waiting \<Rightarrow> q\<lparr>pg_blocked := Suc (pg_blocked p)\<rparr>
      | Unstarted \<Rightarrow> q\<lparr>pg_open := Suc (pg_open p)\<rparr>))"

text \<open>\<open>statuses[st] = (statuses[st] ?? 0) + 1\<close>.\<close>

fun bump_status :: "string \<Rightarrow> (string \<times> nat) list \<Rightarrow> (string \<times> nat) list" where
  "bump_status s [] = [(s, 1)]"
| "bump_status s ((t, k) # rest) = (if t = s then (t, Suc k) # rest else (t, k) # bump_status s rest)"

definition status_word :: "graph \<Rightarrow> string \<Rightarrow> string" where
  "status_word g i = (case g_node g i of
     None \<Rightarrow> ''(none)''
   | Some n \<Rightarrow> (case n_status n of None \<Rightarrow> ''(none)'' | Some s \<Rightarrow> if s = [] then ''(none)'' else s))"

record walk =
  wk_seen :: "string \<rightharpoonup> nat"
  wk_bucket :: "string \<rightharpoonup> bucket"
  wk_order :: "string list"
  wk_tree :: "tree_row list"
  wk_truncated :: bool
  wk_progress :: progress
  wk_statuses :: "(string \<times> nat) list"
  wk_outside :: "string list"

definition note_outside :: "graph \<Rightarrow> string \<Rightarrow> walk \<Rightarrow> walk" where
  "note_outside g i st = st\<lparr>wk_outside := fold add_new (outsiders g i) (wk_outside st)\<rparr>"

definition sight :: "registry \<Rightarrow> graph \<Rightarrow> walk_options \<Rightarrow> pend \<Rightarrow> walk \<Rightarrow> walk" where
  "sight seed g w p st =
     (let i = pd_id p; b = bucket_of seed g i
      in st\<lparr>wk_seen := (wk_seen st)(i \<mapsto> pd_depth p), wk_bucket := (wk_bucket st)(i \<mapsto> b), wk_order := wk_order st @ [i],
            wk_tree := wk_tree st @ [tree_row_of g w p (Some b) False], wk_progress := count_in b (wk_progress st),
            wk_statuses := bump_status (status_word g i) (wk_statuses st)\<rparr>)"

text \<open>One turn of the loop: the state it leaves and what it appends to the pending list.\<close>

definition visit :: "registry \<Rightarrow> graph \<Rightarrow> string \<Rightarrow> walk_options \<Rightarrow> pend \<Rightarrow> walk \<Rightarrow> walk \<times> pend list" where
  "visit seed g root w p st =
     (let i = pd_id p in
      if i = root then (st, [])
      else if wk_seen st i \<noteq> None then (st\<lparr>wk_tree := wk_tree st @ [tree_row_of g w p (wk_bucket st i) True]\<rparr>, [])
      else if length (wk_order st) \<ge> wo_max_nodes w then (st\<lparr>wk_truncated := True\<rparr>, [])
      else
        (let seen = note_outside g i (sight seed g w p st); kids = children_of g i (Suc (pd_depth p))
         in if pd_depth p \<ge> wo_max_depth w then (seen\<lparr>wk_truncated := wk_truncated seen \<or> kids \<noteq> []\<rparr>, [])
            else (seen, kids)))"

lemma visit_progress:
  "visit seed g root w p st = (st', kids) \<Longrightarrow>
   (length (wk_order st') = length (wk_order st) \<and> kids = [])
   \<or> (length (wk_order st) < wo_max_nodes w \<and> length (wk_order st') = Suc (length (wk_order st)))"
  by (auto simp: visit_def Let_def note_outside_def sight_def split: if_splits)

function walk_pending :: "registry \<Rightarrow> graph \<Rightarrow> string \<Rightarrow> walk_options \<Rightarrow> walk \<Rightarrow> pend list \<Rightarrow> walk" where
  "walk_pending seed g root w st [] = st"
| "walk_pending seed g root w st (p # ps) =
     walk_pending seed g root w (fst (visit seed g root w p st)) (ps @ snd (visit seed g root w p st))"
  by pat_completeness auto
termination
proof (relation "measures [\<lambda>(seed, g, root, w, st, ps). wo_max_nodes w - length (wk_order st), \<lambda>(seed, g, root, w, st, ps). length ps]", goal_cases)
  case (2 seed g root w st p ps)
  show ?case
    using visit_progress [of seed g root w p st "fst (visit seed g root w p st)" "snd (visit seed g root w p st)"]
    by (auto simp: case_prod_unfold)
qed simp

declare walk_pending.simps [simp del]

definition walk_start :: walk where
  "walk_start = \<lparr>wk_seen = Map.empty, wk_bucket = Map.empty, wk_order = [], wk_tree = [], wk_truncated = False,
     wk_progress = \<lparr>pg_total = 0, pg_done = 0, pg_active = 0, pg_blocked = 0, pg_open = 0\<rparr>, wk_statuses = [], wk_outside = []\<rparr>"

definition walk_all :: "registry \<Rightarrow> graph \<Rightarrow> string \<Rightarrow> walk_options \<Rightarrow> walk" where
  "walk_all seed g root w = walk_pending seed g root w (note_outside g root walk_start) (children_of g root 1)"

record envelope =
  en_root_id :: string
  en_root_title :: "string option"
  en_root_type :: "string option"
  en_progress :: progress
  en_statuses :: "(string \<times> nat) list"
  en_count :: nat
  en_truncated :: bool
  en_node_ids :: "string list"
  en_tree :: "tree_row list"
  en_leased :: bool
  en_root_edge :: bool
  en_outside :: "string list"

datatype walk_answer = Unknown_root string | Found envelope

definition outside_ids :: "string \<Rightarrow> walk \<Rightarrow> string list" where
  "outside_ids root st = (if wk_truncated st then [] else filter (\<lambda>i. i \<noteq> root \<and> wk_seen st i = None) (wk_outside st))"

definition walk_program :: "registry \<Rightarrow> graph \<Rightarrow> string \<Rightarrow> walk_options \<Rightarrow> walk_answer" where
  "walk_program seed g root w =
     (case g_node g root of
        None \<Rightarrow> Unknown_root root
      | Some r \<Rightarrow>
          (let st = walk_all seed g root w in
           Found \<lparr>en_root_id = root, en_root_title = n_title r, en_root_type = n_type r, en_progress = wk_progress st,
             en_statuses = wk_statuses st, en_count = length (wk_order st), en_truncated = wk_truncated st, en_node_ids = wk_order st,
             en_tree = wk_tree st, en_leased = (wo_leases w \<noteq> None), en_root_edge = (members_index g root \<noteq> []),
             en_outside = outside_ids root st\<rparr>))"

subsection \<open>What the walk keeps\<close>

text \<open>\<open>below g root i\<close>: \<open>i\<close> is in the membership tree of \<open>root\<close>.\<close>

inductive below :: "graph \<Rightarrow> string \<Rightarrow> string \<Rightarrow> bool" for g root where
  child: "c \<in> set (child_ids g root) \<Longrightarrow> below g root c"
| grandchild: "below g root m \<Longrightarrow> c \<in> set (child_ids g m) \<Longrightarrow> below g root c"

lemma children_of_facts:
  "p \<in> set (children_of g i d) \<Longrightarrow> pd_id p \<in> set (child_ids g i) \<and> pd_depth p = d \<and> pd_parent p = i"
  by (auto simp: children_of_def)

lemma children_of_ids: "pd_id ` set (children_of g i d) = set (child_ids g i)"
  by (auto simp: children_of_def image_iff)

lemma children_of_empty: "children_of g i d = [] \<longleftrightarrow> child_ids g i = []"
  by (simp add: children_of_def)

lemma set_add_new [simp]: "set (fold add_new ys xs) = set xs \<union> set ys"
  by (induction ys arbitrary: xs) (auto simp: add_new_def)

lemma distinct_add_new [simp]: "distinct xs \<Longrightarrow> distinct (fold add_new ys xs)"
  by (induction ys arbitrary: xs) (auto simp: add_new_def)

definition bucket_count :: "registry \<Rightarrow> graph \<Rightarrow> bucket \<Rightarrow> string list \<Rightarrow> nat" where
  "bucket_count seed g b ids = length (filter (\<lambda>i. bucket_of seed g i = b) ids)"

definition counts_of :: "registry \<Rightarrow> graph \<Rightarrow> string list \<Rightarrow> progress" where
  "counts_of seed g ids = \<lparr>pg_total = length ids, pg_done = bucket_count seed g Finished ids, pg_active = bucket_count seed g Underway ids,
     pg_blocked = bucket_count seed g Waiting ids, pg_open = bucket_count seed g Unstarted ids\<rparr>"

lemma counts_of_snoc: "counts_of seed g (ids @ [i]) = count_in (bucket_of seed g i) (counts_of seed g ids)"
  by (cases "bucket_of seed g i") (simp_all add: counts_of_def bucket_count_def count_in_def)

lemma counts_add_up:
  "bucket_count seed g Finished ids + bucket_count seed g Underway ids + bucket_count seed g Waiting ids + bucket_count seed g Unstarted ids = length ids"
proof (induction ids)
  case (Cons i ids)
  then show ?case by (cases "bucket_of seed g i") (simp_all add: bucket_count_def)
qed (simp add: bucket_count_def)

text \<open>The state against the nodes counted so far.\<close>

definition walk_counts :: "registry \<Rightarrow> graph \<Rightarrow> string \<Rightarrow> walk_options \<Rightarrow> walk \<Rightarrow> bool" where
  "walk_counts seed g root w st \<longleftrightarrow> distinct (wk_order st) \<and> root \<notin> set (wk_order st) \<and> length (wk_order st) \<le> wo_max_nodes w
     \<and> dom (wk_seen st) = set (wk_order st) \<and> wk_progress st = counts_of seed g (wk_order st)
     \<and> (\<forall>i\<in>set (wk_order st). wk_bucket st i = Some (bucket_of seed g i))
     \<and> map tr_id (filter (\<lambda>r. \<not> tr_repeat r) (wk_tree st)) = wk_order st"

definition rows_ok :: "registry \<Rightarrow> graph \<Rightarrow> string \<Rightarrow> walk_options \<Rightarrow> walk \<Rightarrow> bool" where
  "rows_ok seed g root w st \<longleftrightarrow> (\<forall>r\<in>set (wk_tree st). tr_id r \<in> set (wk_order st) \<and> tr_bucket r = Some (bucket_of seed g (tr_id r))
     \<and> 1 \<le> tr_depth r \<and> tr_depth r \<le> max 1 (wo_max_depth w)
     \<and> tr_id r \<in> set (child_ids g (tr_parent r)) \<and> (tr_parent r = root \<or> tr_parent r \<in> set (wk_order st)))"

text \<open>What waits: rows below the root, whose parent is the root or counted.\<close>

definition pending_ok :: "graph \<Rightarrow> string \<Rightarrow> walk_options \<Rightarrow> walk \<Rightarrow> pend list \<Rightarrow> bool" where
  "pending_ok g root w st ps \<longleftrightarrow> (\<forall>p\<in>set ps. below g root (pd_id p) \<and> 1 \<le> pd_depth p \<and> pd_depth p \<le> max 1 (wo_max_depth w)
     \<and> pd_id p \<in> set (child_ids g (pd_parent p)) \<and> (pd_parent p = root \<or> pd_parent p \<in> set (wk_order st)))
   \<and> (\<forall>i\<in>set (wk_order st). below g root i)"

text \<open>Nothing is lost unless the walk says so, and what lies outside is collected.\<close>

definition covered :: "graph \<Rightarrow> string \<Rightarrow> walk \<Rightarrow> pend list \<Rightarrow> bool" where
  "covered g root st ps \<longleftrightarrow> (wk_truncated st \<or> (\<forall>m\<in>insert root (set (wk_order st)).
      set (child_ids g m) \<subseteq> insert root (set (wk_order st)) \<union> pd_id ` set ps))
   \<and> set (wk_outside st) = (\<Union>m\<in>insert root (set (wk_order st)). set (outsiders g m)) \<and> distinct (wk_outside st)"

definition walk_inv :: "registry \<Rightarrow> graph \<Rightarrow> string \<Rightarrow> walk_options \<Rightarrow> walk \<Rightarrow> pend list \<Rightarrow> bool" where
  "walk_inv seed g root w st ps \<longleftrightarrow> walk_counts seed g root w st \<and> rows_ok seed g root w st \<and> pending_ok g root w st ps \<and> covered g root st ps"

text \<open>The four branches of a turn.\<close>

lemma visit_cases:
  obtains (again_root) "pd_id p = root" "visit seed g root w p st = (st, [])"
  | (again) "pd_id p \<noteq> root" "wk_seen st (pd_id p) \<noteq> None"
      "visit seed g root w p st = (st\<lparr>wk_tree := wk_tree st @ [tree_row_of g w p (wk_bucket st (pd_id p)) True]\<rparr>, [])"
  | (full) "pd_id p \<noteq> root" "visit seed g root w p st = (st\<lparr>wk_truncated := True\<rparr>, [])"
  | (fresh) t kids where "pd_id p \<noteq> root" "wk_seen st (pd_id p) = None" "length (wk_order st) < wo_max_nodes w"
      "wk_order t = wk_order st @ [pd_id p]" "wk_seen t = (wk_seen st)(pd_id p \<mapsto> pd_depth p)"
      "wk_bucket t = (wk_bucket st)(pd_id p \<mapsto> bucket_of seed g (pd_id p))"
      "wk_tree t = wk_tree st @ [tree_row_of g w p (Some (bucket_of seed g (pd_id p))) False]"
      "wk_progress t = count_in (bucket_of seed g (pd_id p)) (wk_progress st)"
      "wk_outside t = fold add_new (outsiders g (pd_id p)) (wk_outside st)"
      "(kids = children_of g (pd_id p) (Suc (pd_depth p)) \<and> pd_depth p < wo_max_depth w \<and> wk_truncated t = wk_truncated st)
       \<or> (kids = [] \<and> wk_truncated t = (wk_truncated st \<or> child_ids g (pd_id p) \<noteq> []))"
      "visit seed g root w p st = (t, kids)"
proof -
  let ?t = "note_outside g (pd_id p) (sight seed g w p st)"
  consider "pd_id p = root" | "pd_id p \<noteq> root" "wk_seen st (pd_id p) \<noteq> None"
    | "pd_id p \<noteq> root" "wk_seen st (pd_id p) = None" "length (wk_order st) \<ge> wo_max_nodes w"
    | "pd_id p \<noteq> root" "wk_seen st (pd_id p) = None" "length (wk_order st) < wo_max_nodes w" "pd_depth p \<ge> wo_max_depth w"
    | "pd_id p \<noteq> root" "wk_seen st (pd_id p) = None" "length (wk_order st) < wo_max_nodes w" "pd_depth p < wo_max_depth w"
    by linarith
  then show ?thesis
  proof cases
    case 1
    then show ?thesis by (intro again_root) (simp_all add: visit_def)
  next
    case 2
    then show ?thesis by (intro again) (simp_all add: visit_def Let_def)
  next
    case 3
    then show ?thesis by (intro full) (simp_all add: visit_def Let_def)
  next
    case 4
    then show ?thesis
      by (intro fresh [of "?t\<lparr>wk_truncated := wk_truncated ?t \<or> children_of g (pd_id p) (Suc (pd_depth p)) \<noteq> []\<rparr>" "[]"])
        (simp_all add: visit_def Let_def note_outside_def sight_def children_of_empty)
  next
    case 5
    then show ?thesis
      by (intro fresh [of ?t "children_of g (pd_id p) (Suc (pd_depth p))"]) (simp_all add: visit_def Let_def note_outside_def sight_def)
  qed
qed

lemma tree_row_of_simps [simp]:
  "tr_id (tree_row_of g w p b again) = pd_id p" "tr_depth (tree_row_of g w p b again) = pd_depth p"
  "tr_parent (tree_row_of g w p b again) = pd_parent p" "tr_bucket (tree_row_of g w p b again) = b"
  "tr_repeat (tree_row_of g w p b again) = again" "tr_edge (tree_row_of g w p b again) = pd_edge p"
  by (simp_all add: tree_row_of_def)

lemma seen_in_order: "walk_counts seed g root w st \<Longrightarrow> i \<in> set (wk_order st) \<longleftrightarrow> wk_seen st i \<noteq> None"
  unfolding walk_counts_def by blast

lemma visit_counts:
  assumes "walk_counts seed g root w st" and "visit seed g root w p st = (t, kids)"
  shows "walk_counts seed g root w t"
  using visit_cases [of p root seed g w st]
proof cases
  case (fresh u ks)
  then have "t = u" using assms(2) by simp
  moreover have "pd_id p \<notin> set (wk_order st)" using fresh(2) seen_in_order [OF assms(1), of "pd_id p"] by simp
  ultimately show ?thesis using assms(1) fresh by (auto simp: walk_counts_def counts_of_snoc)
qed (use assms in \<open>auto simp: walk_counts_def\<close>)

lemma visit_rows:
  assumes "walk_counts seed g root w st" and "rows_ok seed g root w st" and "pending_ok g root w st (p # ps)"
    and "visit seed g root w p st = (t, kids)"
  shows "rows_ok seed g root w t"
  using visit_cases [of p root seed g w st]
proof cases
  case again
  then have "pd_id p \<in> set (wk_order st)" using again(2) seen_in_order [OF assms(1), of "pd_id p"] by simp
  then show ?thesis using assms again by (auto simp: rows_ok_def walk_counts_def pending_ok_def)
next
  case (fresh u ks)
  then have "t = u" using assms(4) by simp
  then show ?thesis using assms(2,3) fresh by (auto simp: rows_ok_def pending_ok_def)
qed (use assms in \<open>auto simp: rows_ok_def\<close>)

lemma visit_pending:
  assumes "pending_ok g root w st (p # ps)" and "visit seed g root w p st = (t, kids)"
  shows "pending_ok g root w t (ps @ kids)"
  using visit_cases [of p root seed g w st]
proof cases
  case (fresh u ks)
  then have u: "t = u" "kids = ks" using assms(2) by simp_all
  have b: "below g root (pd_id p)" using assms(1) by (simp add: pending_ok_def)
  have "below g root (pd_id q) \<and> 1 \<le> pd_depth q \<and> pd_depth q \<le> max 1 (wo_max_depth w)
      \<and> pd_id q \<in> set (child_ids g (pd_parent q)) \<and> pd_parent q = pd_id p" if "q \<in> set ks" for q
    using fresh(10) that b below.grandchild [OF b] children_of_facts [of q g "pd_id p" "Suc (pd_depth p)"] by auto
  then show ?thesis using assms(1) fresh(4) u b by (auto simp: pending_ok_def)
qed (use assms in \<open>auto simp: pending_ok_def\<close>)

lemma visit_covered:
  assumes "walk_counts seed g root w st" and "covered g root st (p # ps)" and "visit seed g root w p st = (t, kids)"
  shows "covered g root t (ps @ kids)"
  using visit_cases [of p root seed g w st]
proof cases
  case again
  then have "pd_id p \<in> set (wk_order st)" using again(2) seen_in_order [OF assms(1), of "pd_id p"] by simp
  then have "insert root (set (wk_order st)) \<union> pd_id ` set (p # ps) = insert root (set (wk_order st)) \<union> pd_id ` set ps" by auto
  moreover have "t = st\<lparr>wk_tree := wk_tree st @ [tree_row_of g w p (wk_bucket st (pd_id p)) True]\<rparr>" "kids = []"
    using assms(3) again(3) by simp_all
  ultimately show ?thesis using assms(2) unfolding covered_def by simp
next
  case (fresh u ks)
  then have u: "t = u" "kids = ks" using assms(3) by simp_all
  have out: "set (wk_outside t) = (\<Union>m\<in>insert root (set (wk_order t)). set (outsiders g m)) \<and> distinct (wk_outside t)"
    using assms(2) fresh(4,9) u by (auto simp: covered_def)
  have "set (child_ids g m) \<subseteq> insert root (set (wk_order t)) \<union> pd_id ` set (ps @ kids)"
    if "\<not> wk_truncated t" "m \<in> insert root (set (wk_order t))" for m
  proof (cases "m \<in> insert root (set (wk_order st))")
    case True
    have "\<not> wk_truncated st" using fresh(10) u(1) that(1) by auto
    then have "set (child_ids g m) \<subseteq> insert root (set (wk_order st)) \<union> pd_id ` set (p # ps)"
      using assms(2) True unfolding covered_def by blast
    then show ?thesis using fresh(4) u(1) by auto
  next
    case False
    then have "m = pd_id p" using fresh(4) u that(2) by simp
    then show ?thesis using fresh(10) u that(1) children_of_ids [of g "pd_id p" "Suc (pd_depth p)"] by auto
  qed
  then show ?thesis using out by (auto simp: covered_def)
qed (use assms in \<open>auto simp: covered_def\<close>)

lemma visit_inv:
  "walk_inv seed g root w st (p # ps) \<Longrightarrow> visit seed g root w p st = (t, kids) \<Longrightarrow> walk_inv seed g root w t (ps @ kids)"
  unfolding walk_inv_def using visit_counts [of seed g root w st p t kids] visit_rows [of seed g root w st p ps t kids]
    visit_pending [of g root w st p ps seed t kids] visit_covered [of seed g root w st p ps t kids] by simp

lemma walk_pending_inv: "walk_inv seed g root w st ps \<Longrightarrow> walk_inv seed g root w (walk_pending seed g root w st ps) []"
proof (induction seed g root w st ps rule: walk_pending.induct)
  case (2 seed g root w st p ps)
  have "walk_inv seed g root w (fst (visit seed g root w p st)) (ps @ snd (visit seed g root w p st))"
    using visit_inv [OF "2.prems"] by (metis prod.collapse)
  from "2.IH" [OF this] show ?case by (simp add: walk_pending.simps)
qed (simp add: walk_pending.simps)

lemma walk_all_inv: "walk_inv seed g root w (walk_all seed g root w) []"
proof -
  have "walk_inv seed g root w (note_outside g root walk_start) (children_of g root 1)"
    using children_of_facts [of _ g root 1] children_of_ids [of g root 1]
    by (auto simp: walk_inv_def walk_counts_def rows_ok_def pending_ok_def covered_def note_outside_def walk_start_def counts_of_def bucket_count_def
        intro: below.child)
  then show ?thesis unfolding walk_all_def by (rule walk_pending_inv)
qed

lemma walk_found:
  "walk_program seed g root w = Found e \<Longrightarrow> let st = walk_all seed g root w in
     en_progress e = wk_progress st \<and> en_count e = length (wk_order st) \<and> en_truncated e = wk_truncated st
     \<and> en_node_ids e = wk_order st \<and> en_tree e = wk_tree st \<and> en_outside e = outside_ids root st"
  by (auto simp: walk_program_def Let_def split: option.splits)

text \<open>Along the pending list nothing counted is lost.\<close>

lemma below_in_closed:
  assumes "below g root i" and "\<And>m. m = root \<or> m \<in> S \<Longrightarrow> set (child_ids g m) \<subseteq> insert root S"
  shows "i = root \<or> i \<in> S"
  using assms(1) by induction (use assms(2) in blast)+

lemma untruncated_order:
  assumes "\<not> wk_truncated (walk_all seed g root w)"
  shows "set (wk_order (walk_all seed g root w)) = {i. below g root i \<and> i \<noteq> root}"
proof -
  let ?st = "walk_all seed g root w"
  have inv: "walk_inv seed g root w ?st []" by (rule walk_all_inv)
  then have "\<And>m. m = root \<or> m \<in> set (wk_order ?st) \<Longrightarrow> set (child_ids g m) \<subseteq> insert root (set (wk_order ?st))"
    using assms unfolding walk_inv_def covered_def by auto
  then have "i = root \<or> i \<in> set (wk_order ?st)" if "below g root i" for i using below_in_closed [OF that] by blast
  moreover have "below g root i \<and> i \<noteq> root" if "i \<in> set (wk_order ?st)" for i
    using inv that by (auto simp: walk_inv_def pending_ok_def walk_counts_def)
  ultimately show ?thesis by blast
qed

text \<open>
  C37. The program view's numbers are bounded and add up. Whatever the graph and the limits, the walk ends; it counts at most the
  allowed number of nodes, each once and never the root, all of them in the root's membership tree; the total is their number and
  the sum of the four buckets, each bucket holding exactly the nodes of that bucket; every row lies between depth 1 and the depth limit
  (at least 1) under the root or a counted node that has it as a child, and the rows that are not repeats are the counted nodes in
  order.
\<close>

theorem program_view_is_bounded:
  assumes "walk_program seed g root w = Found e"
  shows "distinct (en_node_ids e) \<and> root \<notin> set (en_node_ids e) \<and> en_count e = length (en_node_ids e) \<and> en_count e \<le> wo_max_nodes w
    \<and> set (en_node_ids e) \<subseteq> {i. below g root i}
    \<and> en_progress e = counts_of seed g (en_node_ids e)
    \<and> pg_total (en_progress e) = pg_done (en_progress e) + pg_active (en_progress e) + pg_blocked (en_progress e) + pg_open (en_progress e)
    \<and> map tr_id (filter (\<lambda>r. \<not> tr_repeat r) (en_tree e)) = en_node_ids e
    \<and> (\<forall>r\<in>set (en_tree e). 1 \<le> tr_depth r \<and> tr_depth r \<le> max 1 (wo_max_depth w) \<and> tr_id r \<in> set (en_node_ids e)
         \<and> tr_bucket r = Some (bucket_of seed g (tr_id r)) \<and> tr_id r \<in> set (child_ids g (tr_parent r))
         \<and> (tr_parent r = root \<or> tr_parent r \<in> set (en_node_ids e)))"
proof -
  let ?st = "walk_all seed g root w"
  have inv: "walk_counts seed g root w ?st" "rows_ok seed g root w ?st" "pending_ok g root w ?st []"
    using walk_all_inv [of seed g root w] by (simp_all add: walk_inv_def)
  have e: "en_node_ids e = wk_order ?st" "en_count e = length (wk_order ?st)" "en_progress e = wk_progress ?st" "en_tree e = wk_tree ?st"
    using walk_found [OF assms] by (simp_all add: Let_def)
  have "pg_total (counts_of seed g ids) = pg_done (counts_of seed g ids) + pg_active (counts_of seed g ids)
      + pg_blocked (counts_of seed g ids) + pg_open (counts_of seed g ids)" for ids
    using counts_add_up [of seed g ids] by (simp add: counts_of_def)
  with inv show ?thesis unfolding e walk_counts_def rows_ok_def pending_ok_def by auto
qed

text \<open>
  C38. A view that is not truncated is the whole program. Its nodes are exactly the nodes of the membership tree (declared members
  where a node has any, its blockers otherwise) other than the root, and what it reports as outside are exactly the
  blockers of a declared node in the tree that are neither its members nor anywhere in the tree, each once.
\<close>

theorem untruncated_view_is_the_program:
  assumes "walk_program seed g root w = Found e" and "\<not> en_truncated e"
  shows "set (en_node_ids e) = {i. below g root i \<and> i \<noteq> root}
    \<and> set (en_outside e) = {b. (\<exists>m. (m = root \<or> below g root m) \<and> b \<in> set (outsiders g m)) \<and> b \<noteq> root \<and> \<not> below g root b}
    \<and> distinct (en_outside e)"
proof -
  let ?st = "walk_all seed g root w"
  have inv: "walk_counts seed g root w ?st" "covered g root ?st []" using walk_all_inv [of seed g root w] by (simp_all add: walk_inv_def)
  have e: "en_node_ids e = wk_order ?st" "en_outside e = outside_ids root ?st" "\<not> wk_truncated ?st"
    using walk_found [OF assms(1)] assms(2) by (simp_all add: Let_def)
  have ids: "set (wk_order ?st) = {i. below g root i \<and> i \<noteq> root}" by (rule untruncated_order [OF e(3)])
  have "set (outside_ids root ?st) = {b \<in> set (wk_outside ?st). b \<noteq> root \<and> b \<notin> set (wk_order ?st)}"
    using e(3) seen_in_order [OF inv(1)] by (auto simp: outside_ids_def)
  moreover have "insert root (set (wk_order ?st)) = {m. m = root \<or> below g root m}" unfolding ids by auto
  then have "set (wk_outside ?st) = (\<Union>m\<in>{m. m = root \<or> below g root m}. set (outsiders g m))" "distinct (wk_outside ?st)"
    using inv(2) by (simp_all add: covered_def)
  ultimately show ?thesis using ids e(3) unfolding e by (auto simp: outside_ids_def)
qed

subsection \<open>A concrete program\<close>

text \<open>An umbrella with one declared member, which is gated by a second task and reaches back to the umbrella.\<close>

definition program_graph :: graph where
  "program_graph = \<lparr>g_nodes = [(''u'', demo_node ''u'' ''task'' [\<lparr>e_type = ''blocks'', e_to = ''a''\<rparr>]),
     (''a'', demo_node ''a'' ''task'' [\<lparr>e_type = ''member-of-program'', e_to = ''u''\<rparr>]),
     (''b'', demo_node ''b'' ''task'' [\<lparr>e_type = ''blocks'', e_to = ''a''\<rparr>]), (''c'', demo_node ''c'' ''task'' [\<lparr>e_type = ''blocks'', e_to = ''u''\<rparr>])],
     g_superseded = (\<lambda>_. False), g_registry = None\<rparr>"

lemma program_demo:
  "(case walk_program demo_seed program_graph ''u'' default_options of Unknown_root _ \<Rightarrow> None
    | Found e \<Rightarrow> Some (en_node_ids e, en_outside e, en_truncated e)) = Some ([''a'', ''b''], [''c''], False)"
  by code_simp

theorem program_view_is_bounded_witness:
  "\<exists>e. walk_program demo_seed program_graph ''u'' default_options = Found e \<and> en_node_ids e = [''a'', ''b''] \<and> en_count e \<le> 200
    \<and> pg_total (en_progress e) = pg_done (en_progress e) + pg_active (en_progress e) + pg_blocked (en_progress e) + pg_open (en_progress e)"
proof -
  obtain e where e: "walk_program demo_seed program_graph ''u'' default_options = Found e" "en_node_ids e = [''a'', ''b'']"
    using program_demo by (auto split: walk_answer.splits)
  have "en_count e \<le> 200" and "pg_total (en_progress e)
      = pg_done (en_progress e) + pg_active (en_progress e) + pg_blocked (en_progress e) + pg_open (en_progress e)"
    using program_view_is_bounded [OF e(1)] unfolding default_options_def walk_options.simps by blast+
  with e show ?thesis by blast
qed

theorem untruncated_view_is_the_program_witness:
  "\<exists>e. walk_program demo_seed program_graph ''u'' default_options = Found e \<and> \<not> en_truncated e \<and> en_outside e = [''c'']
    \<and> {''a'', ''b''} = {i. below program_graph ''u'' i \<and> i \<noteq> ''u''}"
proof -
  obtain e where e: "walk_program demo_seed program_graph ''u'' default_options = Found e" "en_node_ids e = [''a'', ''b'']"
    "en_outside e = [''c'']" "\<not> en_truncated e"
    using program_demo by (auto split: walk_answer.splits)
  with untruncated_view_is_the_program [OF e(1,4)] show ?thesis by auto
qed

end
