(* ===== verification/Coupling.thy ===== *)
theory Coupling
  imports Resolution
begin

text \<open>
  The glob dialect and the coupling norms, \<^verbatim>\<open>src/lib/kernel/coupling.js\<close>, and the path checks of
  \<^verbatim>\<open>src/lib/kernel/gates.js\<close> that use the dialect: the protected paths and the risk classes that arm a gate.

  A glob is translated into the regular expression the code builds, one constructor per fragment the code appends; \<open>fragment_language\<close> is
  what each fragment matches and \<open>accepts\<close> runs the expression. \<open>glob_match\<close> and \<open>path_matches\<close> state the documented dialect on the
  text of the glob, and \<open>accepts_path\<close> shows that the translation matches exactly that. A norm is a parsed node: a plain object whose scalar fields are
  strings. Reading files and parsing them are arguments of the scan; the user-written patterns of a value invariant are only split off.
\<close>

subsection \<open>Globs\<close>

text \<open>A literal, \<open>[^/]\<close>, \<open>[^/]*\<close>, \<open>.*\<close> and \<open>(?:[^/]+/)*\<close>.\<close>

datatype fragment = Lit char | One | Star | Deep | Segments

definition slash :: char where
  "slash = CHR ''/''"

text \<open>The loop over the characters of a glob.\<close>

fun fragments :: "string \<Rightarrow> fragment list" where
  "fragments [] = []"
| "fragments (c # cs) =
     (if c = CHR ''*'' then
        (case cs of
           d # ds \<Rightarrow>
             if d = CHR ''*'' then
               (case ds of e # es \<Rightarrow> if e = slash then Segments # fragments es else Deep # fragments ds | [] \<Rightarrow> [Deep])
             else Star # fragments cs
         | [] \<Rightarrow> [Star])
      else if c = CHR ''?'' then One # fragments cs
      else Lit c # fragments cs)"

definition glob_to_regexp :: "string \<Rightarrow> fragment list" where
  "glob_to_regexp g = fragments (if g \<noteq> [] \<and> last g = slash then g @ ''**'' else g)"

text \<open>\<open>.\<close> stops at a line terminator.\<close>

definition line_end :: "char \<Rightarrow> bool" where
  "line_end c \<longleftrightarrow> c = CHR 0x0A \<or> c = CHR 0x0D"

text \<open>One path segment and its slash removed.\<close>

definition next_segment :: "string \<Rightarrow> string option" where
  "next_segment s = (case dropWhile (\<lambda>c. c \<noteq> slash) s of [] \<Rightarrow> None | _ # r \<Rightarrow> if length r + 1 < length s then Some r else None)"

lemma next_segment_shorter: "next_segment s = Some r \<Longrightarrow> length r < length s"
  by (auto simp: next_segment_def split: list.splits if_splits)

function accepts :: "fragment list \<Rightarrow> string \<Rightarrow> bool" where
  "accepts [] s \<longleftrightarrow> s = []"
| "accepts (Lit c # fs) s \<longleftrightarrow> (case s of [] \<Rightarrow> False | d # r \<Rightarrow> d = c \<and> accepts fs r)"
| "accepts (One # fs) s \<longleftrightarrow> (case s of [] \<Rightarrow> False | d # r \<Rightarrow> d \<noteq> slash \<and> accepts fs r)"
| "accepts (Star # fs) s \<longleftrightarrow> accepts fs s \<or> (case s of [] \<Rightarrow> False | d # r \<Rightarrow> d \<noteq> slash \<and> accepts (Star # fs) r)"
| "accepts (Deep # fs) s \<longleftrightarrow> accepts fs s \<or> (case s of [] \<Rightarrow> False | d # r \<Rightarrow> \<not> line_end d \<and> accepts (Deep # fs) r)"
| "accepts (Segments # fs) s \<longleftrightarrow> accepts fs s \<or> (case next_segment s of None \<Rightarrow> False | Some r \<Rightarrow> accepts (Segments # fs) r)"
  by pat_completeness auto
termination
  by (relation "measures [length \<circ> fst, length \<circ> snd]") (auto dest: next_segment_shorter)

declare accepts.simps [simp del]

text \<open>\<open>arr(v)\<close> of a list of texts: trimmed, blanks dropped.\<close>

definition arr_texts :: "string list \<Rightarrow> string list" where
  "arr_texts xs = map trim (filter (\<lambda>x. trim x \<noteq> []) xs)"

definition match_paths :: "string list \<Rightarrow> string list \<Rightarrow> string list" where
  "match_paths paths globs =
     (let res = map glob_to_regexp (arr_texts globs)
      in if res = [] then [] else filter (\<lambda>p. list_ex (\<lambda>re. accepts re p) res) paths)"

definition protected_hits :: "string list \<Rightarrow> string list \<Rightarrow> string list" where
  "protected_hits changed protected = match_paths changed protected"

definition ci_protected_paths :: "string list" where
  "ci_protected_paths = [''.github/**'']"

text \<open>The protected set of a suite; its holder says whether it runs on CI.\<close>

definition suite_protected_paths :: "bool \<Rightarrow> string list \<Rightarrow> string list" where
  "suite_protected_paths ci protected =
     (let base = arr_texts protected in if \<not> ci then base else base @ filter (\<lambda>g. g \<notin> set base) ci_protected_paths)"

definition armed_risk_classes :: "string list \<Rightarrow> (string \<times> string list) list \<Rightarrow> string list \<Rightarrow> (string \<times> string list) list" where
  "armed_risk_classes changed classes only =
     (let wanted = arr_texts only in
      filter (\<lambda>p. snd p \<noteq> []) (map (\<lambda>(c, globs). (c, match_paths changed globs))
        (filter (\<lambda>p. wanted = [] \<or> fst p \<in> set wanted) classes)))"

definition human_gate_armed :: "string list \<Rightarrow> string list \<Rightarrow> (string \<times> string list) list \<Rightarrow> bool \<times> (string \<times> string list) list" where
  "human_gate_armed risk changed classes =
     (if risk = [] then (True, []) else (let hits = armed_risk_classes changed classes risk in (hits \<noteq> [], hits)))"

datatype ci_verdict = Ci_passed | Ci_failed | Ci_outage

definition ci_conclusion_verdict :: "jsval \<Rightarrow> ci_verdict" where
  "ci_conclusion_verdict conclusion =
     (let c = lower (trim (js_string (js_or conclusion (JStr []))))
      in if c = ''success'' then Ci_passed else if c = ''failure'' \<or> c = ''timed_out'' then Ci_failed else Ci_outage)"

subsection \<open>Coupling norms\<close>

definition slug_char :: "char \<Rightarrow> bool" where
  "slug_char c \<longleftrightarrow> is_digit c \<or> (97 \<le> (of_char c :: nat) \<and> (of_char c :: nat) \<le> 122)"

text \<open>\<open>/^[a-z0-9][a-z0-9-]*$/\<close>.\<close>

definition is_slug :: "string \<Rightarrow> bool" where
  "is_slug s = (case s of [] \<Rightarrow> False | c # cs \<Rightarrow> slug_char c \<and> list_all (\<lambda>d. slug_char d \<or> d = CHR ''-'') cs)"

text \<open>\<open>s.replace(/^p/, "")\<close> for a literal \<open>p\<close>.\<close>

definition drop_prefix :: "string \<Rightarrow> string \<Rightarrow> string" where
  "drop_prefix p s = (if take (length p) s = p then drop (length p) s else s)"

definition list_value :: "jsval \<Rightarrow> jsval list" where
  "list_value v = (case v of JArr vs \<Rightarrow> vs | _ \<Rightarrow> [])"

definition parse_entry :: "jsval \<Rightarrow> string option \<times> string" where
  "parse_entry entry =
     (let s = trim (js_string (coalesce entry (JStr []))); q = takeWhile (\<lambda>c. c \<noteq> CHR '':'') s; r = drop (length q) s
      in if q \<noteq> [] \<and> r \<noteq> [] \<and> is_slug q \<and> tl r \<noteq> [] then (Some q, tl r) else (None, s))"

definition repo_matches :: "string \<Rightarrow> string \<Rightarrow> bool" where
  "repo_matches q slug \<longleftrightarrow> q = slug \<or> drop_prefix ''repo-'' q = slug"

definition is_coupling_terminal :: "registry \<Rightarrow> string \<Rightarrow> bool" where
  "is_coupling_terminal seed s = is_terminal_status seed (Some s) (Some ''norm'') None"

definition is_coupling_norm :: "registry \<Rightarrow> jsval \<Rightarrow> bool" where
  "is_coupling_norm seed n \<longleftrightarrow> truthy n \<and> js_get n ''type'' = JStr ''norm''
     \<and> \<not> (truthy (js_get n ''status'') \<and> is_coupling_terminal seed (js_string (js_get n ''status'')))
     \<and> list_value (js_get n ''couples_when'') \<noteq> [] \<and> list_value (js_get n ''couples_also'') \<noteq> []"

definition scope_ok :: "jsval \<Rightarrow> string \<Rightarrow> jsval \<Rightarrow> bool" where
  "scope_ok n slug repo_tags =
     (let tags = list_value (js_get n ''applies_to_tags''); repos = list_value (js_get n ''applies_to_repos'');
          projects = list_value (js_get n ''applies_to_projects'')
      in if tags = [] \<and> repos = [] \<and> projects = [] then \<not> truthy (js_get n ''project'') \<or> js_get n ''project'' = JStr slug
         else list_ex (\<lambda>t. t \<in> set (list_value repo_tags)) tags
           \<or> list_ex (\<lambda>r. repo_matches (js_string r) slug) repos
           \<or> list_ex (\<lambda>p. p = JStr slug \<or> drop_prefix ''proj-'' (js_string p) = slug) projects)"

text \<open>One declared alias, one way: the other spelling of a path under \<open>from\<close>.\<close>

definition respelled :: "string \<Rightarrow> string \<Rightarrow> string \<Rightarrow> string list" where
  "respelled from to p =
     (if p = from then [to]
      else if take (Suc (length from)) p = from @ [slash] then [to @ drop (length from) p] else [])"

definition alias_entries :: "(string \<times> string) list \<Rightarrow> (string \<times> string) list" where
  "alias_entries aliases = filter (\<lambda>(a, c). a \<noteq> [] \<and> c \<noteq> [] \<and> a \<noteq> c) aliases"

definition expand_alias_candidates :: "string list \<Rightarrow> (string \<times> string) list \<Rightarrow> string list" where
  "expand_alias_candidates paths aliases =
     (if alias_entries aliases = [] then paths
      else dedup_acc [] (paths @ concat (map (\<lambda>p. concat (map (\<lambda>(a, c). respelled a c p @ respelled c a p) (alias_entries aliases))) paths)))"

definition coupling_hit :: "jsval \<Rightarrow> string \<Rightarrow> string list \<Rightarrow> jsval \<Rightarrow> (string \<times> string) list \<Rightarrow> bool" where
  "coupling_hit n slug raw_paths repo_tags aliases =
     (let paths = expand_alias_candidates raw_paths aliases;
          hits = (\<lambda>glob. list_ex (accepts (glob_to_regexp glob)) paths)
      in list_ex (\<lambda>entry. case parse_entry entry of
             (Some repo, glob) \<Rightarrow> repo_matches repo slug \<and> hits glob
           | (None, glob) \<Rightarrow> scope_ok n slug repo_tags \<and> hits glob) (list_value (js_get n ''couples_when'')))"

definition match_couplings :: "registry \<Rightarrow> jsval \<Rightarrow> string \<Rightarrow> string list \<Rightarrow> jsval \<Rightarrow> (string \<times> string) list \<Rightarrow> jsval list" where
  "match_couplings seed norms slug raw_paths repo_tags aliases =
     filter (\<lambda>n. is_coupling_norm seed n \<and> coupling_hit n slug raw_paths repo_tags aliases) (list_value norms)"

definition coupling_fields :: "string list" where
  "coupling_fields = [''id'', ''type'', ''title'', ''project'', ''status'', ''couples_when'', ''couples_also'', ''couples_value_a'', ''couples_value_b'',
     ''applies_to_tags'', ''applies_to_repos'', ''applies_to_projects'']"

definition slim_coupling_norm :: "jsval \<Rightarrow> jsval" where
  "slim_coupling_norm n = JObj (map (\<lambda>k. (k, js_get n k)) (filter (\<lambda>k. \<not> nullish (js_get n k)) coupling_fields))"

text \<open>\<open>s.includes(t)\<close>.\<close>

fun contains :: "string \<Rightarrow> string \<Rightarrow> bool" where
  "contains t [] = (t = [])"
| "contains t (c # cs) = (take (length t) (c # cs) = t \<or> contains t cs)"

definition ends_in :: "string \<Rightarrow> string \<Rightarrow> bool" where
  "ends_in t s \<longleftrightarrow> length t \<le> length s \<and> drop (length s - length t) s = t"

definition basename :: "string \<Rightarrow> string" where
  "basename f = rev (takeWhile (\<lambda>c. c \<noteq> slash) (rev f))"

text \<open>The scan: \<open>read\<close> is \<open>None\<close> where it throws or returns null, \<open>parse\<close> where the parser throws. What one file adds to the
  norms and to the repo tags, in file order.\<close>

definition scan_file :: "registry \<Rightarrow> (string \<Rightarrow> string option) \<Rightarrow> (string \<Rightarrow> jsval option) \<Rightarrow> string
    \<Rightarrow> jsval list \<times> (string \<rightharpoonup> jsval) \<Rightarrow> jsval list \<times> (string \<rightharpoonup> jsval)" where
  "scan_file seed read parse f acc =
     (case acc of (norms, tags) \<Rightarrow>
        if \<not> ends_in ''.md'' f then acc
        else case read f of
          None \<Rightarrow> acc
        | Some raw \<Rightarrow>
            if take 5 (basename f) \<noteq> ''repo-'' \<and> \<not> contains ''couples_when:'' raw then acc
            else (case parse raw of
                None \<Rightarrow> acc
              | Some n \<Rightarrow>
                  if js_get n ''type'' = JStr ''repo'' then
                    (case js_get n ''tags'' of
                       JArr ts \<Rightarrow>
                         (let i = js_string (coalesce (js_get n ''id'') (JStr (take (length (basename f) - 3) (basename f))))
                          in (norms, tags(drop_prefix ''repo-'' i \<mapsto> JArr ts)))
                     | _ \<Rightarrow> acc)
                  else if is_coupling_norm seed n then (norms @ [slim_coupling_norm n], tags)
                  else acc))"

definition scan_coupling_entries :: "registry \<Rightarrow> (string \<Rightarrow> string option) \<Rightarrow> (string \<Rightarrow> jsval option) \<Rightarrow> string list
    \<Rightarrow> jsval list \<times> (string \<rightharpoonup> jsval)" where
  "scan_coupling_entries seed read parse names = fold (scan_file seed read parse) names ([], Map.empty)"

definition parse_value_spec :: "jsval \<Rightarrow> (string option \<times> string \<times> string) option" where
  "parse_value_spec spec =
     (let s = trim (js_string (coalesce spec (JStr []))); f = takeWhile (\<lambda>c. c \<noteq> CHR ''#'') s; r = drop (length f) s
      in if f = [] \<or> r = [] \<or> tl r = [] then None
         else Some (fst (parse_entry (JStr f)), snd (parse_entry (JStr f)), tl r))"

subsection \<open>What a glob matches\<close>

definition one_line :: "string \<Rightarrow> bool" where
  "one_line s \<longleftrightarrow> list_all (\<lambda>c. \<not> line_end c) s"

fun fragment_language :: "fragment \<Rightarrow> string set" where
  "fragment_language (Lit c) = {[c]}"
| "fragment_language One = {[c] |c. c \<noteq> slash}"
| "fragment_language Star = {s. slash \<notin> set s}"
| "fragment_language Deep = {s. one_line s}"
| "fragment_language Segments = {concat (map (\<lambda>g. g @ [slash]) gs) |gs. \<forall>g\<in>set gs. g \<noteq> [] \<and> slash \<notin> set g}"

fun language :: "fragment list \<Rightarrow> string set" where
  "language [] = {[]}"
| "language (f # fs) = {a @ b |a b. a \<in> fragment_language f \<and> b \<in> language fs}"

lemma next_segment_Some: "next_segment s = Some r \<longleftrightarrow> (\<exists>g. g \<noteq> [] \<and> slash \<notin> set g \<and> s = g @ slash # r)"
proof
  assume n: "next_segment s = Some r"
  then obtain c where d: "dropWhile (\<lambda>c. c \<noteq> slash) s = c # r" and l: "length r + 1 < length s"
    by (auto simp: next_segment_def split: list.splits if_splits)
  then have "c = slash" by (metis (mono_tags, lifting) hd_dropWhile list.distinct(1) list.sel(1))
  then have s: "s = takeWhile (\<lambda>c. c \<noteq> slash) s @ slash # r" using d by (metis takeWhile_dropWhile_id)
  then have "takeWhile (\<lambda>c. c \<noteq> slash) s \<noteq> []" using l by (metis append_Nil add.commute length_Cons less_irrefl plus_1_eq_Suc)
  moreover have "slash \<notin> set (takeWhile (\<lambda>c. c \<noteq> slash) s)" by (auto dest: set_takeWhileD)
  ultimately show "\<exists>g. g \<noteq> [] \<and> slash \<notin> set g \<and> s = g @ slash # r" using s by blast
next
  assume "\<exists>g. g \<noteq> [] \<and> slash \<notin> set g \<and> s = g @ slash # r"
  then obtain g where g: "g \<noteq> []" "slash \<notin> set g" "s = g @ slash # r" by blast
  then have "dropWhile (\<lambda>c. c \<noteq> slash) s = slash # r" by (auto simp: dropWhile_append)
  with g show "next_segment s = Some r" by (cases g) (auto simp: next_segment_def)
qed

lemma language_skip: "[] \<in> fragment_language f \<Longrightarrow> s \<in> language fs \<Longrightarrow> s \<in> language (f # fs)"
  unfolding language.simps by (metis (mono_tags, lifting) append_Nil mem_Collect_eq)

lemma in_language_One: "s \<in> language (One # fs) \<longleftrightarrow> (\<exists>d r. s = d # r \<and> d \<noteq> slash \<and> r \<in> language fs)" (is "?L = ?R")
proof
  assume ?R
  then obtain d r where "s = [d] @ r" "d \<noteq> slash" "r \<in> language fs" by auto
  then show ?L unfolding language.simps fragment_language.simps by blast
qed auto

lemma in_language_Star:
  "s \<in> language (Star # fs) \<longleftrightarrow> s \<in> language fs \<or> (\<exists>d r. s = d # r \<and> d \<noteq> slash \<and> r \<in> language (Star # fs))" (is "?L = ?R")
proof
  assume ?L
  then obtain a b where ab: "s = a @ b" "slash \<notin> set a" "b \<in> language fs" by auto
  then show ?R by (cases a) auto
next
  assume ?R
  then show ?L
  proof (elim disjE exE conjE)
    assume "s \<in> language fs"
    then show ?L by (intro language_skip) (auto intro: exI [of _ "[]"])
  next
    fix d r assume "s = d # r" "d \<noteq> slash" "r \<in> language (Star # fs)"
    then obtain a b where "s = (d # a) @ b" "slash \<notin> set (d # a)" "b \<in> language fs" by auto
    then show ?L unfolding language.simps fragment_language.simps by blast
  qed
qed

lemma in_language_Deep:
  "s \<in> language (Deep # fs) \<longleftrightarrow> s \<in> language fs \<or> (\<exists>d r. s = d # r \<and> \<not> line_end d \<and> r \<in> language (Deep # fs))" (is "?L = ?R")
proof
  assume ?L
  then obtain a b where ab: "s = a @ b" "one_line a" "b \<in> language fs" by auto
  then show ?R by (cases a) (auto simp: one_line_def)
next
  assume ?R
  then show ?L
  proof (elim disjE exE conjE)
    assume "s \<in> language fs"
    then show ?L by (intro language_skip) (simp_all add: one_line_def)
  next
    fix d r assume "s = d # r" "\<not> line_end d" "r \<in> language (Deep # fs)"
    then obtain a b where "s = (d # a) @ b" "one_line (d # a)" "b \<in> language fs" by (auto simp: one_line_def)
    then show ?L unfolding language.simps fragment_language.simps by blast
  qed
qed

lemma in_language_Segments:
  "s \<in> language (Segments # fs) \<longleftrightarrow> s \<in> language fs \<or> (\<exists>r. next_segment s = Some r \<and> r \<in> language (Segments # fs))" (is "?L = ?R")
proof
  assume ?L
  then obtain gs b where ab: "s = concat (map (\<lambda>g. g @ [slash]) gs) @ b" "\<forall>g\<in>set gs. g \<noteq> [] \<and> slash \<notin> set g" "b \<in> language fs" by auto
  show ?R
  proof (cases gs)
    case Nil
    then show ?thesis using ab by simp
  next
    case (Cons g hs)
    then have "s = g @ slash # (concat (map (\<lambda>g. g @ [slash]) hs) @ b)" using ab by simp
    then have "next_segment s = Some (concat (map (\<lambda>g. g @ [slash]) hs) @ b)" using ab(2) Cons unfolding next_segment_Some by auto
    moreover have "concat (map (\<lambda>g. g @ [slash]) hs) @ b \<in> language (Segments # fs)" using ab(2,3) Cons by auto
    ultimately show ?thesis by blast
  qed
next
  assume ?R
  then show ?L
  proof (elim disjE exE conjE)
    assume "s \<in> language fs"
    then show ?L by (intro language_skip) (auto intro: exI [of _ "[]"])
  next
    fix r assume n: "next_segment s = Some r" and r: "r \<in> language (Segments # fs)"
    obtain g where g: "g \<noteq> []" "slash \<notin> set g" "s = g @ slash # r" using n by (auto simp: next_segment_Some)
    obtain gs b where "r = concat (map (\<lambda>g. g @ [slash]) gs) @ b" "\<forall>g\<in>set gs. g \<noteq> [] \<and> slash \<notin> set g" "b \<in> language fs" using r by auto
    with g have "s = concat (map (\<lambda>g. g @ [slash]) (g # gs)) @ b" "\<forall>h\<in>set (g # gs). h \<noteq> [] \<and> slash \<notin> set h" "b \<in> language fs" by auto
    then show ?L unfolding language.simps fragment_language.simps by blast
  qed
qed

lemma accepts_language: "accepts fs s \<longleftrightarrow> s \<in> language fs"
proof (induction fs s rule: accepts.induct)
  case (4 fs s)
  then show ?case unfolding in_language_Star [of s fs] by (subst accepts.simps) (auto split: list.splits)
next
  case (5 fs s)
  then show ?case unfolding in_language_Deep [of s fs] by (subst accepts.simps) (auto split: list.splits)
next
  case (6 fs s)
  then show ?case unfolding in_language_Segments [of s fs] by (subst accepts.simps) (auto split: option.splits)
next
  case (3 fs s)
  then show ?case unfolding in_language_One [of s fs] by (subst accepts.simps) (auto split: list.splits)
qed (auto simp: accepts.simps split: list.splits)

text \<open>Without \<open>**\<close> a glob stays within its number of segments.\<close>

lemma shallow_glob_keeps_depth:
  "s \<in> language fs \<Longrightarrow> Deep \<notin> set fs \<Longrightarrow> Segments \<notin> set fs \<Longrightarrow> length (filter (\<lambda>c. c = slash) s) = length (filter (\<lambda>f. f = Lit slash) fs)"
proof (induction fs arbitrary: s)
  case (Cons f fs)
  then obtain a b where s: "s = a @ b" "a \<in> fragment_language f" "b \<in> language fs" by auto
  have "length (filter (\<lambda>c. c = slash) a) = (if f = Lit slash then 1 else 0)"
    using s(2) Cons.prems by (cases f) (auto simp: filter_empty_conv)
  with Cons.IH [OF s(3)] Cons.prems s(1) show ?case by auto
qed simp

subsection \<open>The dialect\<close>

text \<open>
  What a glob matches, as the dialect is documented and without the translation: any other character stands for itself,
  \<open>?\<close> for one character of a segment, \<open>*\<close> for a stretch of one segment, \<open>**/\<close> for zero or more whole segments and
  \<open>**\<close> elsewhere for any stretch of one line.
\<close>

definition segment :: "string \<Rightarrow> bool" where
  "segment d \<longleftrightarrow> d \<noteq> [] \<and> slash \<notin> set d"

inductive glob_match :: "string \<Rightarrow> string \<Rightarrow> bool" where
  glob_end: "glob_match [] []"
| glob_char: "c \<noteq> CHR ''*'' \<Longrightarrow> c \<noteq> CHR ''?'' \<Longrightarrow> glob_match g p \<Longrightarrow> glob_match (c # g) (c # p)"
| glob_one: "c \<noteq> slash \<Longrightarrow> glob_match g p \<Longrightarrow> glob_match (CHR ''?'' # g) (c # p)"
| glob_star: "slash \<notin> set a \<Longrightarrow> take 1 g \<noteq> ''*'' \<Longrightarrow> glob_match g p \<Longrightarrow> glob_match (CHR ''*'' # g) (a @ p)"
| glob_deep: "one_line a \<Longrightarrow> take 1 g \<noteq> ''/'' \<Longrightarrow> glob_match g p \<Longrightarrow> glob_match (CHR ''*'' # CHR ''*'' # g) (a @ p)"
| glob_dirs: "list_all segment ds \<Longrightarrow> glob_match g p \<Longrightarrow>
    glob_match (CHR ''*'' # CHR ''*'' # slash # g) (concat (map (\<lambda>d. d @ [slash]) ds) @ p)"

text \<open>A glob with a trailing slash stands for the whole subtree of what it matches.\<close>

definition path_matches :: "string \<Rightarrow> string \<Rightarrow> bool" where
  "path_matches g p \<longleftrightarrow>
     (if g \<noteq> [] \<and> last g = slash then \<exists>d r. p = d @ r \<and> glob_match g d \<and> one_line r else glob_match g p)"

lemma fragments_star: "take 1 g \<noteq> ''*'' \<Longrightarrow> fragments (CHR ''*'' # g) = Star # fragments g"
  by (cases g) auto

lemma fragments_deep: "take 1 g \<noteq> ''/'' \<Longrightarrow> fragments (CHR ''*'' # CHR ''*'' # g) = Deep # fragments g"
  by (cases g) (auto simp: slash_def)

lemma glob_match_sound: "glob_match g p \<Longrightarrow> p \<in> language (fragments g)"
proof (induction rule: glob_match.induct)
  case (glob_star a g p)
  then show ?case unfolding fragments_star [OF glob_star.hyps(2)] by auto
next
  case (glob_deep a g p)
  then show ?case unfolding fragments_deep [OF glob_deep.hyps(2)] by auto
next
  case (glob_dirs ds g p)
  then show ?case by (auto simp: segment_def list_all_iff)
next
  case (glob_one c g p)
  have "c # p \<in> language (One # fragments g)" unfolding in_language_One using glob_one by blast
  then show ?case by simp
qed auto

lemma glob_cases:
  obtains "c = CHR ''*''" "take 1 cs \<noteq> ''*''" | ds where "c = CHR ''*''" "cs = CHR ''*'' # ds" "take 1 ds \<noteq> ''/''"
    | es where "c = CHR ''*''" "cs = CHR ''*'' # slash # es" | "c = CHR ''?''" | "c \<noteq> CHR ''*''" "c \<noteq> CHR ''?''"
  by (cases cs; cases "tl cs") (auto simp: slash_def split: if_splits)

lemma glob_match_complete: "p \<in> language (fragments g) \<Longrightarrow> glob_match g p"
proof (induction "length g" arbitrary: g p rule: less_induct)
  case less
  show ?case
  proof (cases g)
    case Nil
    with less.prems show ?thesis by (simp add: glob_end)
  next
    case (Cons c cs)
    show ?thesis
    proof (cases rule: glob_cases [of c cs])
      case 1
      from less.prems obtain a b where "p = a @ b" "slash \<notin> set a" "b \<in> language (fragments cs)"
        unfolding Cons 1(1) fragments_star [OF 1(2)] by auto
      with less.hyps [of cs b] 1 Cons show ?thesis by (auto intro: glob_star)
    next
      case (2 ds)
      from less.prems obtain a b where "p = a @ b" "one_line a" "b \<in> language (fragments ds)"
        unfolding Cons 2(1) 2(2) fragments_deep [OF 2(3)] by auto
      with less.hyps [of ds b] 2 Cons show ?thesis by (auto intro: glob_deep)
    next
      case (3 es)
      from less.prems obtain gs b where "p = concat (map (\<lambda>d. d @ [slash]) gs) @ b" "list_all segment gs" "b \<in> language (fragments es)"
        unfolding Cons 3 by (auto simp: segment_def list_all_iff)
      with less.hyps [of es b] 3 Cons show ?thesis by (auto intro: glob_dirs)
    next
      case 4
      with less.prems obtain d r where "p = d # r" "d \<noteq> slash" "r \<in> language (fragments cs)"
        unfolding Cons by (auto simp: in_language_One)
      with less.hyps [of cs r] 4 Cons show ?thesis by (auto intro: glob_one)
    next
      case 5
      with less.prems obtain r where "p = c # r" "r \<in> language (fragments cs)"
        unfolding Cons by auto
      with less.hyps [of cs r] 5 Cons show ?thesis by (auto intro: glob_char)
    qed
  qed
qed

lemma language_append: "language (fs @ gs) = {a @ b |a b. a \<in> language fs \<and> b \<in> language gs}"
proof (induction fs)
  case (Cons f fs)
  show ?case
  proof (intro set_eqI iffI)
    fix s assume "s \<in> language ((f # fs) @ gs)"
    then obtain a b c where "s = a @ b @ c" "a \<in> fragment_language f" "b \<in> language fs" "c \<in> language gs" using Cons.IH by auto
    then have "s = (a @ b) @ c" "a @ b \<in> language (f # fs)" "c \<in> language gs" by auto
    then show "s \<in> {a @ b |a b. a \<in> language (f # fs) \<and> b \<in> language gs}" by blast
  next
    fix s assume "s \<in> {a @ b |a b. a \<in> language (f # fs) \<and> b \<in> language gs}"
    then obtain a b c where "s = a @ (b @ c)" "a \<in> fragment_language f" "b \<in> language fs" "c \<in> language gs" by auto
    moreover from this have "b @ c \<in> language (fs @ gs)" using Cons.IH by blast
    ultimately show "s \<in> language ((f # fs) @ gs)" by auto
  qed
qed simp

lemma fragments_subtree: "g \<noteq> [] \<Longrightarrow> last g = slash \<Longrightarrow> fragments (g @ ''**'') = fragments g @ [Deep]"
proof (induction "length g" arbitrary: g rule: less_induct)
  case less
  obtain c cs where g: "g = c # cs" using less.prems by (cases g) auto
  have no: "CHR ''*'' \<noteq> slash" "CHR ''?'' \<noteq> slash" by (simp_all add: slash_def)
  show ?case
  proof (cases rule: glob_cases [of c cs])
    case 1
    then have cs: "cs \<noteq> []" "last cs = slash" using less.prems(2) no by (auto simp: g split: if_splits)
    then have "take 1 (cs @ ''**'') \<noteq> ''*''" using 1(2) by (cases cs) auto
    then show ?thesis
      using less.hyps [of cs] cs fragments_star [of "cs @ ''**''"] fragments_star [OF 1(2)] by (simp add: g 1(1) del: fragments.simps)
  next
    case (2 ds)
    then have ds: "ds \<noteq> []" "last ds = slash" using less.prems(2) no by (auto simp: g split: if_splits)
    then have "take 1 (ds @ ''**'') \<noteq> ''/''" using 2(3) by (cases ds) auto
    then show ?thesis
      using less.hyps [of ds] ds fragments_deep [of "ds @ ''**''"] fragments_deep [OF 2(3)] by (simp add: g 2(1,2) del: fragments.simps)
  next
    case (3 es)
    show ?thesis
    proof (cases "es = []")
      case True
      then show ?thesis by (simp add: g 3)
    next
      case False
      then have "last es = slash" using less.prems(2) by (simp add: g 3)
      with False less.hyps [of es] show ?thesis by (simp add: g 3)
    qed
  next
    case 4
    then have "cs \<noteq> []" "last cs = slash" using less.prems(2) no by (auto simp: g split: if_splits)
    with less.hyps [of cs] show ?thesis by (simp add: g 4)
  next
    case 5
    show ?thesis
    proof (cases "cs = []")
      case True
      then show ?thesis using 5 by (simp add: g)
    next
      case False
      then have "last cs = slash" using less.prems(2) by (simp add: g)
      with False less.hyps [of cs] 5 show ?thesis by (simp add: g)
    qed
  qed
qed

lemma accepts_path: "accepts (glob_to_regexp g) p \<longleftrightarrow> path_matches g p"
proof (cases "g \<noteq> [] \<and> last g = slash")
  case True
  then have "accepts (glob_to_regexp g) p \<longleftrightarrow> p \<in> language (fragments g @ [Deep])"
    by (simp add: accepts_language glob_to_regexp_def fragments_subtree)
  also have "\<dots> \<longleftrightarrow> (\<exists>d r. p = d @ r \<and> d \<in> language (fragments g) \<and> one_line r)"
    by (auto simp: language_append)
  finally show ?thesis
    using True glob_match_sound glob_match_complete unfolding path_matches_def by metis
next
  case False
  then show ?thesis
    using glob_match_sound glob_match_complete by (auto simp: accepts_language glob_to_regexp_def path_matches_def)
qed

lemma arr_texts_fixed: "list_all (\<lambda>x. trim x = x \<and> x \<noteq> []) xs \<Longrightarrow> arr_texts xs = xs"
  by (induction xs) (auto simp: arr_texts_def)

lemma suite_entries: "arr_texts (suite_protected_paths ci protected) = suite_protected_paths ci protected"
proof -
  have "list_all (\<lambda>x. trim x = x \<and> x \<noteq> []) (arr_texts protected)" by (simp add: arr_texts_def list_all_iff)
  moreover have "list_all (\<lambda>x. trim x = x \<and> x \<noteq> []) ci_protected_paths" by code_simp
  ultimately show ?thesis by (intro arr_texts_fixed) (auto simp: suite_protected_paths_def Let_def list_all_iff)
qed

lemma suite_set: "set (suite_protected_paths ci protected) = set (arr_texts protected) \<union> (if ci then {''.github/**''} else {})"
  by (auto simp: suite_protected_paths_def ci_protected_paths_def Let_def)

lemma match_paths_matches: "match_paths paths globs = filter (\<lambda>p. \<exists>g\<in>set (arr_texts globs). path_matches g p) paths"
  by (auto simp: match_paths_def Let_def list_ex_iff accepts_path intro: filter_cong)

lemma ci_paths: "path_matches ''.github/**'' p \<longleftrightarrow> (\<exists>r. p = ''.github/'' @ r \<and> one_line r)"
proof -
  have "glob_to_regexp ''.github/**'' = map Lit ''.github/'' @ [Deep]" by code_simp
  moreover have "language (map Lit s) = {s}" for s by (induction s) auto
  ultimately show ?thesis
    unfolding accepts_path [symmetric] by (auto simp only: accepts_language language_append) auto
qed

text \<open>
  C39. A protected path is never missed and nothing else is refused. Whatever the factory protects, nothing included, the
  changed paths a gate reports as protected are, in their order, exactly those that a protected entry, trimmed and not blank, matches in the
  documented dialect (an entry with a trailing slash standing for the whole subtree), and, when the suite runs on CI, those
  under \<^verbatim>\<open>.github/\<close> whether or not the factory protects them.
\<close>

theorem protected_hits_are_the_protected_paths:
  "protected_hits changed (suite_protected_paths ci protected)
    = filter (\<lambda>p. (\<exists>g\<in>set protected. trim g \<noteq> [] \<and> path_matches (trim g) p) \<or> (ci \<and> (\<exists>r. p = ''.github/'' @ r \<and> one_line r))) changed"
proof -
  have "(\<exists>g\<in>set (arr_texts protected). P g) \<longleftrightarrow> (\<exists>g\<in>set protected. trim g \<noteq> [] \<and> P (trim g))" for P
    by (auto simp: arr_texts_def)
  then show ?thesis
    unfolding protected_hits_def match_paths_matches suite_entries suite_set by (cases ci) (simp_all add: ci_paths bex_Un disj_commute)
qed

text \<open>A star stays within its segment, a trailing slash takes the subtree, and on CI an empty list protects the CI definition.\<close>

theorem protected_hits_are_the_protected_paths_witness:
  "protected_hits [''t/a/b'', ''lib/x.js'', ''lib/x/y.js''] (suite_protected_paths False ['' t/'', ''lib/*.js'']) = [''t/a/b'', ''lib/x.js'']
   \<and> protected_hits [''s/t'', ''.github/x''] (suite_protected_paths True []) = [''.github/x'']"
proof
  have "protected_hits [''s/t'', ''.github/x''] (suite_protected_paths True [])
    = filter (\<lambda>p. (\<exists>g\<in>set []. trim g \<noteq> [] \<and> path_matches (trim g) p) \<or> (True \<and> (\<exists>r. p = ''.github/'' @ r \<and> one_line r))) [''s/t'', ''.github/x'']"
    by (rule protected_hits_are_the_protected_paths)
  then show "protected_hits [''s/t'', ''.github/x''] (suite_protected_paths True []) = [''.github/x'']"
    by (simp add: one_line_def line_end_def)
next
  have t: "trim '' t/'' = ''t/''" "trim ''lib/*.js'' = ''lib/*.js''" by code_simp+
  have m: "path_matches ''t/'' ''t/a/b''" "path_matches ''lib/*.js'' ''lib/x.js''" "\<not> path_matches ''t/'' ''lib/x.js''"
    "\<not> path_matches ''t/'' ''lib/x/y.js''" "\<not> path_matches ''lib/*.js'' ''lib/x/y.js''"
    unfolding accepts_path [symmetric] by code_simp+
  show "protected_hits [''t/a/b'', ''lib/x.js'', ''lib/x/y.js''] (suite_protected_paths False ['' t/'', ''lib/*.js'']) = [''t/a/b'', ''lib/x.js'']"
    unfolding protected_hits_are_the_protected_paths using m by (simp add: t)
qed

end
