(* ===== verification/Factory.thy ===== *)
theory Factory
  imports GateAttempts Coupling
begin

text \<open>
  The factory definition, \<^verbatim>\<open>src/lib/kernel/gates.js\<close> from \<open>parseCi\<close> to \<open>gateRefs\<close>: reading a declared list of
  gates, the integration, rescue and implementation stages, the completion boundary and the repo scope into normalized values, with
  every refusal.

  The payload is decoded JSON; finding the fenced block and decoding its text is the platform's, so \<open>parse_factory\<close> takes its result. An
  error is a place and a word for what is wrong there, in the order the code reports them. Integer counts follow the number model of
  \<open>JsValue\<close>.
\<close>

subsection \<open>Reading values\<close>

datatype def_error = In_gate nat string | In_block string string

definition word_of :: "jsval \<Rightarrow> string" where
  "word_of v = trim (js_string (js_or v (JStr [])))"

definition trimmed_text :: "jsval \<Rightarrow> string" where
  "trimmed_text v = (case v of JStr s \<Rightarrow> trim s | _ \<Rightarrow> [])"

text \<open>\<open>String(v || d).trim().toLowerCase()\<close> and \<open>String(strOr(v, d)).trim().toLowerCase()\<close>.\<close>

definition keyword_of :: "jsval \<Rightarrow> string \<Rightarrow> string" where
  "keyword_of v d = lower (trim (js_string (js_or v (JStr d))))"

definition str_or :: "jsval \<Rightarrow> string \<Rightarrow> jsval" where
  "str_or v d = coalesce v (JStr d)"

definition strict_keyword :: "jsval \<Rightarrow> string \<Rightarrow> string" where
  "strict_keyword v d = lower (trim (js_string (str_or v d)))"

definition arr_of :: "jsval \<Rightarrow> string list" where
  "arr_of v = (case v of
       JArr vs \<Rightarrow> filter (\<lambda>s. s \<noteq> []) (map trimmed_text vs)
     | JStr s \<Rightarrow> (if trim s = [] then [] else [trim s])
     | _ \<Rightarrow> [])"

definition safe_max :: int where
  "safe_max = 9007199254740991"

definition clamp :: "int \<Rightarrow> int \<Rightarrow> int \<Rightarrow> int" where
  "clamp lo hi n = min hi (max lo n)"

definition count_or :: "jsval \<Rightarrow> int \<Rightarrow> int \<Rightarrow> int \<Rightarrow> int" where
  "count_or v fallback lo hi = (case v of
       JNum n \<Rightarrow> clamp lo hi n
     | JStr s \<Rightarrow> (if trim s = [] then fallback else case string_number s of None \<Rightarrow> fallback | Some n \<Rightarrow> clamp lo hi n)
     | _ \<Rightarrow> fallback)"

definition ms_ceiling_max :: int where
  "ms_ceiling_max = 2592000000"

definition ms_or_inherit :: "jsval \<Rightarrow> int \<Rightarrow> int option" where
  "ms_or_inherit v lo =
     (case (case v of JNum n \<Rightarrow> Some n | JStr s \<Rightarrow> (if trim s = [] then None else string_number s) | _ \<Rightarrow> None) of
        None \<Rightarrow> None
      | Some n \<Rightarrow> if n < lo then None else Some (min ms_ceiling_max n))"

definition declared :: "jsval \<Rightarrow> bool" where
  "declared v \<longleftrightarrow> \<not> nullish v"

subsection \<open>A suite on CI\<close>

record ci_spec =
  ci_workflow :: string
  ci_remote :: string
  ci_repo :: "string option"
  ci_poll_ms :: int
  ci_discover_ms :: int
  ci_local_fallback :: bool

definition word_char :: "char \<Rightarrow> bool" where
  "word_char c \<longleftrightarrow> slug_char (lower_char c) \<or> c = CHR ''.'' \<or> c = CHR ''_'' \<or> c = CHR ''-''"

text \<open>\<open>/^[A-Za-z0-9][A-Za-z0-9._-]*$/\<close> and \<open>/^[A-Za-z0-9_.-]+[/][A-Za-z0-9_.-]+$/\<close>.\<close>

definition remote_name :: "string \<Rightarrow> bool" where
  "remote_name s = (case s of [] \<Rightarrow> False | c # cs \<Rightarrow> slug_char (lower_char c) \<and> list_all word_char cs)"

definition owner_and_name :: "string \<Rightarrow> bool" where
  "owner_and_name s = (let owner = takeWhile word_char s; r = drop (length owner) s
     in owner \<noteq> [] \<and> (case r of [] \<Rightarrow> False | c # name \<Rightarrow> c = slash \<and> name \<noteq> [] \<and> list_all word_char name))"

definition ci_keys :: "string list" where
  "ci_keys = [''workflow'', ''remote'', ''repo'', ''poll_ms'', ''discover_ms'', ''local_fallback'']"

definition object_keys :: "jsval \<Rightarrow> string list" where
  "object_keys v = (case v of JObj fs \<Rightarrow> map fst fs | _ \<Rightarrow> [])"

definition ci_of :: "jsval \<Rightarrow> ci_spec" where
  "ci_of raw = \<lparr>ci_workflow = trimmed_text (js_get raw ''workflow''),
     ci_remote = (if declared (js_get raw ''remote'') then trimmed_text (js_get raw ''remote'') else ''origin''),
     ci_repo = (if trimmed_text (js_get raw ''repo'') = [] then None else Some (trimmed_text (js_get raw ''repo''))),
     ci_poll_ms = count_or (js_get raw ''poll_ms'') 30000 5000 safe_max,
     ci_discover_ms = count_or (js_get raw ''discover_ms'') 300000 10000 safe_max,
     ci_local_fallback = (js_get raw ''local_fallback'' = JBool True)\<rparr>"

fun is_string :: "jsval \<Rightarrow> bool" where
  "is_string (JStr _) = True"
| "is_string _ = False"

fun is_boolean :: "jsval \<Rightarrow> bool" where
  "is_boolean (JBool _) = True"
| "is_boolean _ = False"

definition ci_errors :: "jsval \<Rightarrow> string list" where
  "ci_errors raw =
     (if \<not> is_plain_object raw then [''not an object'']
      else map (\<lambda>_. ''unknown key'') (filter (\<lambda>k. k \<notin> set ci_keys) (object_keys raw))
        @ (if ci_workflow (ci_of raw) = [] then [''workflow''] else [])
        @ (if \<not> remote_name (ci_remote (ci_of raw)) then [''remote''] else [])
        @ (if (declared (js_get raw ''repo'') \<and> \<not> is_string (js_get raw ''repo''))
             \<or> (case ci_repo (ci_of raw) of None \<Rightarrow> False | Some r \<Rightarrow> \<not> owner_and_name r) then [''repo''] else [])
        @ (if js_get raw ''local_fallback'' \<noteq> JUndef \<and> \<not> is_boolean (js_get raw ''local_fallback'') then [''local_fallback''] else []))"

definition parse_ci :: "jsval \<Rightarrow> ci_spec option \<times> string list" where
  "parse_ci raw = (if ci_errors raw = [] then (Some (ci_of raw), []) else (None, ci_errors raw))"

text \<open>A \<open>ci\<close> block that is declared, or none.\<close>

definition declared_ci :: "jsval \<Rightarrow> ci_spec option \<times> string list" where
  "declared_ci v = (if declared v then parse_ci v else (None, []))"

subsection \<open>One gate\<close>

record command_body =
  cb_command :: string
  cb_timeout_ms :: int
  cb_reruns :: int
  cb_dir :: string
  cb_risk :: "string list"
  cb_serialize :: bool
  cb_rejudge :: bool
  cb_isolate :: string
  cb_ci :: "ci_spec option"

record review_body =
  rb_profile :: string
  rb_instructions :: string
  rb_await_ms :: int
  rb_pause_max_ms :: "int option"
  rb_fallback :: "(string \<times> int) option"
  rb_retries :: "int option"
  rb_risk :: "string list"

record human_body =
  hb_risk :: "string list"
  hb_approval_timeout_ms :: int
  hb_poll_ms :: int
  hb_instructions :: string

datatype gate_body = Cmd_gate command_body | Rev_gate review_body | Hum_gate human_body

record gate =
  gt_id :: string
  gt_source :: string
  gt_cycles :: int
  gt_title :: string
  gt_body :: gate_body

definition risk_of :: "jsval \<Rightarrow> string list" where
  "risk_of raw = arr_of (if js_get raw ''risk'' \<noteq> JUndef then js_get raw ''risk'' else js_get raw ''risk_classes'')"

definition serialize_word :: "jsval \<Rightarrow> string" where
  "serialize_word raw = (if declared (js_get raw ''serialize'') then lower (trim (js_string (js_get raw ''serialize''))) else [])"

definition files_token :: string where
  "files_token = ''{files}''"

definition command_body_of :: "jsval \<Rightarrow> command_body" where
  "command_body_of raw = \<lparr>cb_command = trimmed_text (js_get raw ''command''),
     cb_timeout_ms = count_or (js_get raw ''timeout_ms'') 900000 1000 safe_max,
     cb_reruns = count_or (js_get raw ''reruns'') 0 0 3,
     cb_dir = trimmed_text (js_get raw ''dir''), cb_risk = risk_of raw, cb_serialize = (serialize_word raw = ''repo''),
     cb_rejudge = (js_get raw ''rejudge_on_repin'' \<noteq> JBool False), cb_isolate = trimmed_text (js_get raw ''isolate''),
     cb_ci = fst (declared_ci (js_get raw ''ci''))\<rparr>"

definition command_errors :: "jsval \<Rightarrow> string list" where
  "command_errors raw =
     (let b = command_body_of raw in
      (if cb_command b = [] then [''command''] else [])
      @ (if serialize_word raw \<noteq> [] \<and> serialize_word raw \<noteq> ''repo'' then [''serialize''] else [])
      @ (if cb_isolate b \<noteq> [] \<and> \<not> contains files_token (cb_isolate b) then [''isolate''] else [])
      @ snd (declared_ci (js_get raw ''ci''))
      @ (if declared (js_get raw ''ci'') \<and> cb_isolate b \<noteq> [] then [''isolate on ci''] else []))"

definition fallback_profile :: "jsval \<Rightarrow> string" where
  "fallback_profile raw = (if declared (js_get raw ''fallback_profile'') then trim (js_string (js_get raw ''fallback_profile'')) else [])"

text \<open>\<open>reviewer_retries\<close>: a number, or a string of digits only.\<close>

definition retries_value :: "jsval \<Rightarrow> int option" where
  "retries_value v = (case v of
       JNum n \<Rightarrow> (if 0 \<le> n \<and> n \<le> 3 then Some n else None)
     | JStr s \<Rightarrow> (if trim s \<noteq> [] \<and> list_all is_digit (trim s) \<and> nat_of_digits 0 (trim s) \<le> 3 then Some (int (nat_of_digits 0 (trim s))) else None)
     | _ \<Rightarrow> None)"

definition review_body_of :: "jsval \<Rightarrow> review_body" where
  "review_body_of raw = \<lparr>rb_profile = word_of (js_get raw ''profile''), rb_instructions = trimmed_text (js_get raw ''instructions''),
     rb_await_ms = count_or (js_get raw ''await_ms'') 3600000 1000 safe_max,
     rb_pause_max_ms = (if js_get raw ''pause_max_ms'' = JUndef then None else Some (count_or (js_get raw ''pause_max_ms'') 172800000 0 safe_max)),
     rb_fallback = (if fallback_profile raw = [] then None else Some (fallback_profile raw, count_or (js_get raw ''fallback_after'') 1 1 5)),
     rb_retries = retries_value (js_get raw ''reviewer_retries''), rb_risk = risk_of raw\<rparr>"

definition review_errors :: "jsval \<Rightarrow> string list" where
  "review_errors raw =
     (if word_of (js_get raw ''profile'') = [] then [''profile''] else [])
     @ (if fallback_profile raw \<noteq> [] then (if fallback_profile raw = word_of (js_get raw ''profile'') then [''fallback_profile''] else [])
        else if js_get raw ''fallback_after'' \<noteq> JUndef then [''fallback_after''] else [])
     @ (if js_get raw ''reviewer_retries'' \<noteq> JUndef \<and> retries_value (js_get raw ''reviewer_retries'') = None then [''reviewer_retries''] else [])
     @ (if js_get raw ''rejudge_on_repin'' \<noteq> JUndef then [''rejudge_on_repin''] else [])"

definition human_body_of :: "jsval \<Rightarrow> human_body" where
  "human_body_of raw = \<lparr>hb_risk = risk_of raw, hb_approval_timeout_ms = count_or (js_get raw ''approval_timeout_ms'') 86400000 0 safe_max,
     hb_poll_ms = count_or (js_get raw ''poll_ms'') 60000 1000 safe_max, hb_instructions = trimmed_text (js_get raw ''instructions'')\<rparr>"

definition human_errors :: "jsval \<Rightarrow> string list" where
  "human_errors raw = (if js_get raw ''rejudge_on_repin'' \<noteq> JUndef then [''rejudge_on_repin''] else [])"

definition gate_kind :: "jsval \<Rightarrow> string" where
  "gate_kind raw = lower (word_of (js_get raw ''kind''))"

definition gate_id :: "jsval \<Rightarrow> nat \<Rightarrow> string \<Rightarrow> string" where
  "gate_id raw index source =
     (if word_of (js_get raw ''id'') \<noteq> [] then word_of (js_get raw ''id'')
      else if source \<noteq> ''inline'' then drop_prefix ''gate-'' source
      else (if gate_kind raw = [] then ''gate'' else gate_kind raw) @ ''-'' @ nat_string (index + 1))"

definition no_code_gate_id :: string where
  "no_code_gate_id = ''scoping''"

definition candidate_gate_id :: string where
  "candidate_gate_id = ''candidate''"

definition gate_id_errors :: "string \<Rightarrow> string list" where
  "gate_id_errors i =
     (if \<not> is_slug (lower i) then [''id'']
      else if length i > 48 then [''id length'']
      else if lower i = no_code_gate_id \<or> lower i = candidate_gate_id then [''id reserved'']
      else [])"

definition body_of :: "jsval \<Rightarrow> gate_body \<times> string list" where
  "body_of raw =
     (if gate_kind raw = ''command'' then (Cmd_gate (command_body_of raw), command_errors raw)
      else if gate_kind raw = ''agent-review'' then (Rev_gate (review_body_of raw), review_errors raw)
      else (Hum_gate (human_body_of raw), if gate_kind raw = ''human'' then human_errors raw else []))"

definition gate_errors :: "jsval \<Rightarrow> nat \<Rightarrow> string \<Rightarrow> string list" where
  "gate_errors raw index source =
     (if gate_kind raw \<notin> {''command'', ''agent-review'', ''human''} then [''kind''] else [])
     @ gate_id_errors (gate_id raw index source) @ snd (body_of raw)"

definition normalize_gate :: "jsval \<Rightarrow> nat \<Rightarrow> string \<Rightarrow> gate option \<times> def_error list" where
  "normalize_gate raw index source =
     (if \<not> is_plain_object raw then (None, [In_gate index ''not an object''])
      else if gate_errors raw index source \<noteq> [] then (None, map (In_gate index) (gate_errors raw index source))
      else (Some \<lparr>gt_id = gate_id raw index source, gt_source = source, gt_cycles = count_or (js_get raw ''cycles'') 0 0 10,
              gt_title = trimmed_text (js_get raw ''title''), gt_body = fst (body_of raw)\<rparr>, []))"

subsection \<open>The gate list\<close>

text \<open>One entry, with what a reference stands for: the raw gate and its source, or the word for why there is none.\<close>

definition entry_of :: "(string \<Rightarrow> jsval) \<Rightarrow> jsval \<Rightarrow> string + (jsval \<times> string)" where
  "entry_of gate_nodes entry =
     (if \<not> is_plain_object entry then Inl ''not an object''
      else if \<not> truthy (js_get entry ''ref'') then Inr (entry, ''inline'')
      else
        (let ref = trim (js_string (js_get entry ''ref'')) in
         if \<not> truthy (gate_nodes ref) then Inl ''unreadable reference''
         else if \<not> is_plain_object (gate_nodes ref) then Inl ''reference without payload''
         else Inr (spread_onto (gate_nodes ref) (js_delete entry ''ref''), ref)))"

text \<open>The loop; \<open>gates\<close> are those kept so far, whose ids are the source's \<open>seen\<close>.\<close>

fun resolve_entries :: "(string \<Rightarrow> jsval) \<Rightarrow> nat \<Rightarrow> jsval list \<Rightarrow> gate list \<Rightarrow> gate list \<times> def_error list" where
  "resolve_entries gate_nodes i [] gates = (gates, [])"
| "resolve_entries gate_nodes i (entry # rest) gates =
     (case entry_of gate_nodes entry of
        Inl why \<Rightarrow> (let (gs, es) = resolve_entries gate_nodes (Suc i) rest gates in (gs, In_gate i why # es))
      | Inr (raw, source) \<Rightarrow>
          (case normalize_gate raw i source of
             (None, errs) \<Rightarrow> (let (gs, es) = resolve_entries gate_nodes (Suc i) rest gates in (gs, errs @ es))
           | (Some g, errs) \<Rightarrow>
               if gt_id g \<in> gt_id ` set gates
               then (let (gs, es) = resolve_entries gate_nodes (Suc i) rest gates in (gs, errs @ In_gate i ''duplicate id'' # es))
               else (let (gs, es) = resolve_entries gate_nodes (Suc i) rest (gates @ [g]) in (gs, errs @ es))))"

definition resolve_gates :: "jsval \<Rightarrow> (string \<Rightarrow> jsval) \<Rightarrow> gate list \<times> def_error list" where
  "resolve_gates payload gate_nodes =
     (case js_get payload ''gates'' of
        JArr [] \<Rightarrow> ([], [In_block ''factory'' ''no gates''])
      | JArr entries \<Rightarrow> resolve_entries gate_nodes 0 entries []
      | _ \<Rightarrow> ([], [In_block ''factory'' ''gates'']))"

definition gate_refs :: "jsval \<Rightarrow> string list" where
  "gate_refs payload =
     (case js_get payload ''gates'' of
        JArr entries \<Rightarrow> dedup_acc [] (filter (\<lambda>s. s \<noteq> []) (map (\<lambda>g. trimmed_text (js_get g ''ref'')) (filter is_plain_object entries)))
      | _ \<Rightarrow> [])"

subsection \<open>Integration and rescue\<close>

record integration_spec =
  ig_target_ref :: string
  ig_mode :: string
  ig_command :: string
  ig_strategy :: string
  ig_serialize :: string
  ig_cycles :: int
  ig_timeout_ms :: int
  ig_reruns :: int
  ig_ci :: "ci_spec option"

definition integration_modes :: "string list" where
  "integration_modes = [''local'', ''push'', ''propose'']"

definition integration_strategies :: "string list" where
  "integration_strategies = [''merge'', ''squash'', ''rebase'']"

definition first_word :: "string list \<Rightarrow> string" where
  "first_word ws = (case filter (\<lambda>w. w \<noteq> []) ws of [] \<Rightarrow> [] | w # _ \<Rightarrow> w)"

definition trusted_ref_default :: string where
  "trusted_ref_default = ''main''"

definition integration_of :: "jsval \<Rightarrow> jsval \<Rightarrow> integration_spec" where
  "integration_of payload raw =
     \<lparr>ig_target_ref = first_word [word_of (js_get raw ''target_ref''), word_of (js_get payload ''trusted_ref''), trusted_ref_default],
      ig_mode = keyword_of (js_get raw ''mode'') ''local'', ig_command = trimmed_text (js_get raw ''command''),
      ig_strategy = keyword_of (js_get raw ''strategy'') ''merge'', ig_serialize = keyword_of (js_get raw ''serialize'') ''repo'',
      ig_cycles = count_or (js_get raw ''cycles'') 0 0 10, ig_timeout_ms = count_or (js_get raw ''timeout_ms'') 900000 1000 safe_max,
      ig_reruns = count_or (js_get raw ''reruns'') 0 0 3, ig_ci = fst (declared_ci (js_get raw ''ci''))\<rparr>"

definition integration_errors :: "integration_spec \<Rightarrow> jsval \<Rightarrow> string list" where
  "integration_errors g raw =
     (if ig_mode g \<notin> set integration_modes then [''mode''] else [])
     @ (if ig_command g = [] then [''command''] else [])
     @ (if ig_strategy g \<notin> set integration_strategies then [''strategy''] else [])
     @ (if ig_serialize g \<noteq> ''repo'' then [''serialize''] else [])
     @ snd (declared_ci (js_get raw ''ci''))"

definition parse_integration :: "jsval \<Rightarrow> integration_spec option \<times> def_error list" where
  "parse_integration payload =
     (let raw = js_get payload ''integration''; g = integration_of payload raw in
      if \<not> declared raw then (None, [])
      else if \<not> is_plain_object raw then (None, [In_block ''integration'' ''not an object''])
      else if integration_errors g raw \<noteq> [] then (None, map (In_block ''integration'') (integration_errors g raw))
      else (Some g, []))"

record rescue_spec =
  rs_profile :: string
  rs_attempts :: int
  rs_await_ms :: int
  rs_instructions :: string

definition parse_rescue :: "jsval \<Rightarrow> rescue_spec option \<times> def_error list" where
  "parse_rescue payload =
     (let raw = js_get payload ''rescue'' in
      if \<not> declared raw then (None, [])
      else if \<not> is_plain_object raw then (None, [In_block ''rescue'' ''not an object''])
      else if word_of (js_get raw ''profile'') = [] then (None, [In_block ''rescue'' ''profile''])
      else (Some \<lparr>rs_profile = word_of (js_get raw ''profile''),
              rs_attempts = count_or (if js_get raw ''attempts'' \<noteq> JUndef then js_get raw ''attempts'' else js_get raw ''max_attempts'') 1 1 3,
              rs_await_ms = count_or (js_get raw ''await_ms'') 3600000 1000 safe_max,
              rs_instructions = trimmed_text (js_get raw ''instructions'')\<rparr>, []))"

subsection \<open>The implementation stage and the completion boundary\<close>

record stage_spec =
  sg_profile :: string
  sg_instructions :: string
  sg_author_checks :: "string list"
  sg_run_max_ms :: "int option"
  sg_run_idle_ms :: "int option"
  sg_attempts :: int
  sg_retry_attempts :: int
  sg_backoff_ms :: int
  sg_require_clean :: bool
  sg_publish :: string
  sg_remote :: string
  sg_bundle_store :: string

definition candidate_publish :: "string list" where
  "candidate_publish = [''bundle'', ''branch'', ''both'']"

definition bundle_store_schemes :: "string list" where
  "bundle_store_schemes = [''file'', ''https'']"

text \<open>\<open>BUNDLE_STORE_RE\<close>: a scheme, \<open>://\<close> and the rest of one line.\<close>

definition split_store :: "string \<Rightarrow> (string \<times> string) option" where
  "split_store s =
     (let scheme = takeWhile is_scheme_char s; r = drop (length scheme) s
      in if scheme \<noteq> [] \<and> is_letter (hd scheme) \<and> take 3 r = ''://'' \<and> drop 3 r \<noteq> [] \<and> one_line (drop 3 r)
         then Some (scheme, drop 3 r) else None)"

definition drop_end_slashes :: "string \<Rightarrow> string" where
  "drop_end_slashes s = rev (dropWhile (\<lambda>c. c = slash) (rev s))"

definition bundle_store_of :: "jsval \<Rightarrow> string" where
  "bundle_store_of v =
     (case split_store (trimmed_text v) of
        None \<Rightarrow> []
      | Some (scheme, rest) \<Rightarrow>
          if lower scheme \<notin> set bundle_store_schemes then []
          else lower scheme @ ''://'' @ (if drop_end_slashes rest = [] then rest else drop_end_slashes rest))"

definition bundle_store_errors :: "jsval \<Rightarrow> string list" where
  "bundle_store_errors v =
     (if \<not> declared v then []
      else case split_store (trimmed_text v) of
        None \<Rightarrow> [''bundle_store'']
      | Some (scheme, _) \<Rightarrow> if lower scheme \<notin> set bundle_store_schemes then [''bundle_store''] else [])"

definition sub_block :: "jsval \<Rightarrow> string \<Rightarrow> jsval \<times> string list" where
  "sub_block raw key =
     (let v = js_get raw key in
      if \<not> declared v then (JObj [], []) else if \<not> is_plain_object v then (JObj [], [key]) else (v, []))"

definition stage_of :: "jsval \<Rightarrow> stage_spec" where
  "stage_of raw =
     (let budget = fst (sub_block raw ''budget''); retry = fst (sub_block raw ''retry''); candidate = fst (sub_block raw ''candidate'')
      in \<lparr>sg_profile = word_of (js_get raw ''profile''), sg_instructions = trimmed_text (js_get raw ''instructions''),
          sg_author_checks = dedup_acc [] (arr_of (js_get raw ''author_checks'')),
          sg_run_max_ms = ms_or_inherit (js_get budget ''run_max_ms'') 1, sg_run_idle_ms = ms_or_inherit (js_get budget ''run_idle_ms'') 0,
          sg_attempts = count_or (js_get budget ''attempts'') 1 1 3,
          sg_retry_attempts = count_or (js_get retry ''attempts'') 1 0 3,
          sg_backoff_ms = count_or (js_get retry ''backoff_ms'') 60000 1000 600000,
          sg_require_clean = (js_get candidate ''require_clean'' \<noteq> JBool False),
          sg_publish = strict_keyword (js_get candidate ''publish'') ''bundle'',
          sg_remote = word_of (js_get candidate ''remote''), sg_bundle_store = bundle_store_of (js_get candidate ''bundle_store'')\<rparr>)"

definition names_list :: "jsval \<Rightarrow> bool" where
  "names_list v = (case v of
       JStr s \<Rightarrow> trim s \<noteq> []
     | JArr vs \<Rightarrow> list_all (\<lambda>x. trimmed_text x \<noteq> []) vs
     | _ \<Rightarrow> False)"

text \<open>The gate a name stands for: the last of a list that repeats it.\<close>

definition gate_named :: "gate list \<Rightarrow> string \<Rightarrow> gate option" where
  "gate_named gates i = find (\<lambda>g. gt_id g = i) (rev gates)"

fun is_command :: "gate_body \<Rightarrow> bool" where
  "is_command (Cmd_gate _) = True"
| "is_command _ = False"

definition author_check_errors :: "gate list \<Rightarrow> string list \<Rightarrow> string list" where
  "author_check_errors gates checks =
     concat (map (\<lambda>i. case gate_named gates i of
         None \<Rightarrow> [''author_checks'']
       | Some g \<Rightarrow> if is_command (gt_body g) then [] else [''author_checks'']) checks)"

definition stage_errors :: "jsval \<Rightarrow> gate list \<Rightarrow> string list" where
  "stage_errors raw gates =
     (if \<not> is_plain_object raw then [''not an object'']
      else graph_launch_fields raw
        @ snd (sub_block raw ''budget'') @ snd (sub_block raw ''retry'') @ snd (sub_block raw ''candidate'')
        @ (if declared (js_get raw ''author_checks'') \<and> \<not> names_list (js_get raw ''author_checks'') then [''author_checks''] else [])
        @ (if distinct (map gt_id gates) then [] else [''duplicate gates''])
        @ author_check_errors gates (sg_author_checks (stage_of raw))
        @ (if sg_publish (stage_of raw) \<notin> set candidate_publish then [''publish''] else [])
        @ bundle_store_errors (js_get (fst (sub_block raw ''candidate'')) ''bundle_store''))"

record boundary_spec =
  bs_by :: string
  bs_after :: string
  bs_screenshots :: "string option"

definition completion_by :: "string list" where
  "completion_by = [''agent'', ''controller'']"

definition completion_after :: "string list" where
  "completion_after = [''gates'', ''integration'']"

text \<open>The boundary: \<open>adopted\<close> says the stage was declared and read, \<open>integrates\<close> that an integration is declared.\<close>

definition default_by :: "bool \<Rightarrow> string" where
  "default_by adopted = (if adopted then ''controller'' else ''agent'')"

definition default_after :: "bool \<Rightarrow> string" where
  "default_after integrates = (if integrates then ''integration'' else ''gates'')"

definition screenshots_words :: "jsval list" where
  "screenshots_words = [JStr ''optional'', JStr ''required'']"

definition boundary_spec_of :: "jsval \<Rightarrow> bool \<Rightarrow> bool \<Rightarrow> boundary_spec" where
  "boundary_spec_of raw adopted integrates =
     (let by = strict_keyword (js_get raw ''by'') (default_by adopted); after = strict_keyword (js_get raw ''after'') (default_after integrates)
      in \<lparr>bs_by = (if by \<in> set completion_by then by else default_by adopted),
          bs_after = (if after \<in> set completion_after \<and> \<not> (after = ''integration'' \<and> \<not> integrates) then after else default_after integrates),
          bs_screenshots = (if js_get raw ''screenshots'' \<in> set screenshots_words \<and> by = ''controller''
                            then Some (js_string (js_get raw ''screenshots'')) else None)\<rparr>)"

definition boundary_errors :: "jsval \<Rightarrow> bool \<Rightarrow> bool \<Rightarrow> string list" where
  "boundary_errors raw adopted integrates =
     (let by = strict_keyword (js_get raw ''by'') (default_by adopted); after = strict_keyword (js_get raw ''after'') (default_after integrates)
      in (if by \<notin> set completion_by then [''by''] else [])
        @ (if after \<notin> set completion_after \<or> (after = ''integration'' \<and> \<not> integrates) then [''after''] else [])
        @ (if js_get raw ''screenshots'' = JUndef then []
           else if js_get raw ''screenshots'' \<notin> set screenshots_words then [''screenshots'']
           else if by \<noteq> ''controller'' then [''screenshots''] else []))"

definition stage_block_errors :: "jsval \<Rightarrow> gate list \<Rightarrow> string list" where
  "stage_block_errors payload gates =
     (let raw = js_get payload ''implementation'' in if declared raw then stage_errors raw gates else [])"

text \<open>Declared and read: what makes the controller the default.\<close>

definition stage_adopted :: "jsval \<Rightarrow> gate list \<Rightarrow> bool" where
  "stage_adopted payload gates \<longleftrightarrow> declared (js_get payload ''implementation'') \<and> stage_block_errors payload gates = []"

definition completion_block :: "jsval \<Rightarrow> jsval" where
  "completion_block payload = (if is_plain_object (js_get payload ''completion'') then js_get payload ''completion'' else JObj [])"

definition completion_errors :: "jsval \<Rightarrow> gate list \<Rightarrow> string list" where
  "completion_errors payload gates =
     (if declared (js_get payload ''completion'') \<and> \<not> is_plain_object (js_get payload ''completion'') then [''not an object''] else [])
     @ boundary_errors (completion_block payload) (stage_adopted payload gates) (declared (js_get payload ''integration''))"

definition boundary_in :: "jsval \<Rightarrow> gate list \<Rightarrow> boundary_spec" where
  "boundary_in payload gates = boundary_spec_of (completion_block payload) (stage_adopted payload gates) (declared (js_get payload ''integration''))"

text \<open>A boundary a controller writes at arms the default stage where none is declared.\<close>

definition stage_in :: "jsval \<Rightarrow> gate list \<Rightarrow> stage_spec option" where
  "stage_in payload gates =
     (if stage_adopted payload gates then Some (stage_of (js_get payload ''implementation''))
      else if \<not> declared (js_get payload ''implementation'') \<and> bs_by (boundary_in payload gates) = ''controller'' then Some (stage_of (JObj []))
      else None)"

definition parse_implementation :: "jsval \<Rightarrow> gate list \<Rightarrow> stage_spec option \<times> boundary_spec \<times> def_error list" where
  "parse_implementation payload gates =
     (stage_in payload gates, boundary_in payload gates,
      map (In_block ''implementation'') (stage_block_errors payload gates) @ map (In_block ''completion'') (completion_errors payload gates))"

subsection \<open>The repo scope\<close>

definition factory_repos :: "jsval \<Rightarrow> jsval \<Rightarrow> string list \<times> def_error list" where
  "factory_repos payload project =
     (if \<not> declared (js_get payload ''repos'')
      then (let own = lower (trim (js_string (coalesce project (JStr [])))) in (if own = [] then [] else [own], []))
      else (let list = dedup_acc [] (map lower (arr_of (js_get payload ''repos'')))
            in (list, if list = [] then [In_block ''factory'' ''repos''] else [])))"

text \<open>\<open>alias\<close> is the graph's \<open>projectAliases\<close>, where a graph is passed.\<close>

definition repo_scope :: "jsval list \<Rightarrow> (string \<rightharpoonup> string) option \<Rightarrow> string set" where
  "repo_scope repos alias =
     (\<Union>v\<in>(\<lambda>r. lower (trim (js_string (coalesce r (JStr []))))) ` set repos - {[]}.
        {v} \<union> (if take 5 v = ''repo-'' \<and> 5 < length v then {drop 5 v} else {})
        \<union> (case alias of None \<Rightarrow> {} | Some a \<Rightarrow> (case a v of None \<Rightarrow> {} | Some c \<Rightarrow> if c = [] then {} else {c})))"

definition in_repo_scope :: "jsval \<Rightarrow> string set \<Rightarrow> (string \<rightharpoonup> string) option \<Rightarrow> bool" where
  "in_repo_scope project scope alias \<longleftrightarrow> scope = {}
     \<or> (let v = lower (trim (js_string (coalesce project (JStr [])))) in
        v \<noteq> [] \<and> (v \<in> scope
          \<or> (case alias of None \<Rightarrow> False | Some a \<Rightarrow> (case a v of None \<Rightarrow> False | Some c \<Rightarrow> c \<noteq> [] \<and> c \<in> scope))))"

subsection \<open>The factory\<close>

record factory =
  fa_id :: "string option"
  fa_trusted_ref :: string
  fa_repos :: "string list"
  fa_protected :: "string list"
  fa_test_lane :: string
  fa_risk_classes :: "(string \<times> string list) list"
  fa_gates :: "gate list"
  fa_integration :: "integration_spec option"
  fa_rescue :: "rescue_spec option"
  fa_stage :: "stage_spec option"
  fa_completion :: boundary_spec

definition risk_entries :: "jsval \<Rightarrow> (string \<times> string list) list" where
  "risk_entries v = (case v of JObj fs \<Rightarrow> map (\<lambda>(c, globs). (c, arr_of globs)) fs | _ \<Rightarrow> [])"

definition risk_classes_of :: "jsval \<Rightarrow> (string \<times> string list) list" where
  "risk_classes_of payload = filter (\<lambda>p. snd p \<noteq> []) (risk_entries (js_get payload ''risk_classes''))"

definition risk_class_errors :: "jsval \<Rightarrow> def_error list" where
  "risk_class_errors payload =
     map (\<lambda>_. In_block ''factory'' ''risk class without globs'') (filter (\<lambda>p. snd p = []) (risk_entries (js_get payload ''risk_classes'')))"

fun body_risk :: "gate_body \<Rightarrow> string list" where
  "body_risk (Cmd_gate b) = cb_risk b"
| "body_risk (Rev_gate b) = rb_risk b"
| "body_risk (Hum_gate b) = hb_risk b"

text \<open>\<open>riskClasses[cls]\<close> on an object literal also finds what every object inherits.\<close>

definition inherited_names :: "string list" where
  "inherited_names = [''constructor'', ''__defineGetter__'', ''__defineSetter__'', ''hasOwnProperty'', ''__lookupGetter__'', ''__lookupSetter__'',
     ''isPrototypeOf'', ''propertyIsEnumerable'', ''toString'', ''valueOf'', ''__proto__'', ''toLocaleString'']"

definition risk_class_found :: "(string \<times> string list) list \<Rightarrow> string \<Rightarrow> bool" where
  "risk_class_found classes c \<longleftrightarrow> c \<in> fst ` set classes \<or> c \<in> set inherited_names"

definition undeclared_risk_errors :: "(string \<times> string list) list \<Rightarrow> gate list \<Rightarrow> def_error list" where
  "undeclared_risk_errors classes gates =
     concat (map (\<lambda>g. map (\<lambda>_. In_block (gt_id g) ''undeclared risk class'') (filter (\<lambda>c. \<not> risk_class_found classes c) (body_risk (gt_body g)))) gates)"

definition factory_errors :: "jsval \<Rightarrow> (string \<Rightarrow> jsval) \<Rightarrow> jsval \<Rightarrow> def_error list" where
  "factory_errors payload gate_nodes project =
     (let (gates, gate_errs) = resolve_gates payload gate_nodes in
      gate_errs @ risk_class_errors payload @ snd (parse_integration payload) @ snd (parse_rescue payload)
      @ snd (snd (parse_implementation payload gates)) @ snd (factory_repos payload project)
      @ (if arr_of (js_get payload ''protected_paths'') \<noteq> [] \<and> word_of (js_get payload ''test_lane_profile'') = []
         then [In_block ''factory'' ''test_lane_profile''] else [])
      @ undeclared_risk_errors (risk_classes_of payload) gates)"

definition factory_of :: "jsval \<Rightarrow> (string \<Rightarrow> jsval) \<Rightarrow> string option \<Rightarrow> jsval \<Rightarrow> factory" where
  "factory_of payload gate_nodes i project =
     (let gates = fst (resolve_gates payload gate_nodes); impl = parse_implementation payload gates; own = word_of (js_get payload ''factory'')
      in \<lparr>fa_id = (case i of Some x \<Rightarrow> if x \<noteq> [] then Some x else if own = [] then None else Some own | None \<Rightarrow> if own = [] then None else Some own),
          fa_trusted_ref = first_word [word_of (js_get payload ''trusted_ref''), trusted_ref_default],
          fa_repos = fst (factory_repos payload project), fa_protected = arr_of (js_get payload ''protected_paths''),
          fa_test_lane = word_of (js_get payload ''test_lane_profile''), fa_risk_classes = risk_classes_of payload, fa_gates = gates,
          fa_integration = fst (parse_integration payload), fa_rescue = fst (parse_rescue payload), fa_stage = fst impl,
          fa_completion = fst (snd impl)\<rparr>)"

text \<open>\<open>payload\<close> is what the fenced block decodes to, \<open>None\<close> where there is none or it does not decode.\<close>

definition parse_factory :: "jsval option \<Rightarrow> (string \<Rightarrow> jsval) \<Rightarrow> string option \<Rightarrow> jsval \<Rightarrow> factory option \<times> def_error list \<times> string list" where
  "parse_factory decoded gate_nodes i project =
     (case decoded of
        None \<Rightarrow> (None, [In_block ''factory'' ''payload''], [])
      | Some payload \<Rightarrow>
          if \<not> is_plain_object payload then (None, [In_block ''factory'' ''not an object''], [])
          else if factory_errors payload gate_nodes project \<noteq> [] then (None, factory_errors payload gate_nodes project, gate_refs payload)
          else (Some (factory_of payload gate_nodes i project), [], gate_refs payload))"

end
