(* ===== verification/FactoryProps.thy ===== *)
theory FactoryProps
  imports Factory
begin

text \<open>
  What a factory that parses is: the types of its gates, stages and boundary, with every bound the parser promises.
\<close>

subsection \<open>Well-formed definitions\<close>

definition ci_ok :: "ci_spec \<Rightarrow> bool" where
  "ci_ok c \<longleftrightarrow> ci_workflow c \<noteq> [] \<and> remote_name (ci_remote c) \<and> (\<forall>r. ci_repo c = Some r \<longrightarrow> owner_and_name r)
     \<and> 5000 \<le> ci_poll_ms c \<and> 10000 \<le> ci_discover_ms c"

fun body_ok :: "gate_body \<Rightarrow> bool" where
  "body_ok (Cmd_gate b) \<longleftrightarrow> cb_command b \<noteq> [] \<and> 1000 \<le> cb_timeout_ms b \<and> 0 \<le> cb_reruns b \<and> cb_reruns b \<le> 3
     \<and> (cb_isolate b \<noteq> [] \<longrightarrow> contains files_token (cb_isolate b) \<and> cb_ci b = None) \<and> (\<forall>c. cb_ci b = Some c \<longrightarrow> ci_ok c)"
| "body_ok (Rev_gate b) \<longleftrightarrow> rb_profile b \<noteq> [] \<and> 1000 \<le> rb_await_ms b \<and> (\<forall>n. rb_pause_max_ms b = Some n \<longrightarrow> 0 \<le> n)
     \<and> (\<forall>p n. rb_fallback b = Some (p, n) \<longrightarrow> p \<noteq> [] \<and> p \<noteq> rb_profile b \<and> 1 \<le> n \<and> n \<le> 5)
     \<and> (\<forall>n. rb_retries b = Some n \<longrightarrow> 0 \<le> n \<and> n \<le> 3)"
| "body_ok (Hum_gate b) \<longleftrightarrow> 0 \<le> hb_approval_timeout_ms b \<and> 1000 \<le> hb_poll_ms b"

definition gate_ok :: "gate \<Rightarrow> bool" where
  "gate_ok g \<longleftrightarrow> is_slug (lower (gt_id g)) \<and> length (gt_id g) \<le> 48 \<and> lower (gt_id g) \<notin> {no_code_gate_id, candidate_gate_id}
     \<and> 0 \<le> gt_cycles g \<and> gt_cycles g \<le> 10 \<and> body_ok (gt_body g)"

definition integration_ok :: "integration_spec \<Rightarrow> bool" where
  "integration_ok g \<longleftrightarrow> ig_target_ref g \<noteq> [] \<and> ig_mode g \<in> set integration_modes \<and> ig_command g \<noteq> [] \<and> ig_strategy g \<in> set integration_strategies
     \<and> ig_serialize g = ''repo'' \<and> 0 \<le> ig_cycles g \<and> ig_cycles g \<le> 10 \<and> 1000 \<le> ig_timeout_ms g \<and> 0 \<le> ig_reruns g \<and> ig_reruns g \<le> 3
     \<and> (\<forall>c. ig_ci g = Some c \<longrightarrow> ci_ok c)"

definition rescue_ok :: "rescue_spec \<Rightarrow> bool" where
  "rescue_ok r \<longleftrightarrow> rs_profile r \<noteq> [] \<and> 1 \<le> rs_attempts r \<and> rs_attempts r \<le> 3 \<and> 1000 \<le> rs_await_ms r"

text \<open>An author's checks are command gates of the factory, and the budgets are those the attempt loop is bounded for.\<close>

definition stage_ok :: "gate list \<Rightarrow> stage_spec \<Rightarrow> bool" where
  "stage_ok gates s \<longleftrightarrow> (\<forall>i\<in>set (sg_author_checks s). \<exists>g\<in>set gates. gt_id g = i \<and> is_command (gt_body g))
     \<and> 1 \<le> sg_attempts s \<and> sg_attempts s \<le> 3 \<and> 0 \<le> sg_retry_attempts s \<and> sg_retry_attempts s \<le> 3
     \<and> 1000 \<le> sg_backoff_ms s \<and> sg_backoff_ms s \<le> 600000
     \<and> (\<forall>n. sg_run_max_ms s = Some n \<longrightarrow> 1 \<le> n \<and> n \<le> ms_ceiling_max) \<and> (\<forall>n. sg_run_idle_ms s = Some n \<longrightarrow> 0 \<le> n \<and> n \<le> ms_ceiling_max)
     \<and> sg_publish s \<in> set candidate_publish"

definition boundary_ok :: "boundary_spec \<Rightarrow> bool \<Rightarrow> bool \<Rightarrow> bool" where
  "boundary_ok b staged integrates \<longleftrightarrow> bs_by b \<in> set completion_by \<and> bs_after b \<in> set completion_after
     \<and> (bs_after b = ''integration'' \<longrightarrow> integrates) \<and> (bs_by b = ''controller'' \<longrightarrow> staged)
     \<and> (bs_screenshots b \<noteq> None \<longrightarrow> bs_by b = ''controller'')"

definition factory_ok :: "factory \<Rightarrow> bool" where
  "factory_ok f \<longleftrightarrow> fa_gates f \<noteq> [] \<and> distinct (map gt_id (fa_gates f)) \<and> list_all gate_ok (fa_gates f)
     \<and> (\<forall>g\<in>set (fa_gates f). \<forall>c\<in>set (body_risk (gt_body g)). risk_class_found (fa_risk_classes f) c)
     \<and> (\<forall>p\<in>set (fa_risk_classes f). snd p \<noteq> [])
     \<and> (\<forall>g. fa_integration f = Some g \<longrightarrow> integration_ok g) \<and> (\<forall>r. fa_rescue f = Some r \<longrightarrow> rescue_ok r)
     \<and> (\<forall>s. fa_stage f = Some s \<longrightarrow> stage_ok (fa_gates f) s)
     \<and> boundary_ok (fa_completion f) (fa_stage f \<noteq> None) (fa_integration f \<noteq> None)
     \<and> (fa_protected f \<noteq> [] \<longrightarrow> fa_test_lane f \<noteq> []) \<and> fa_trusted_ref f \<noteq> []"

subsection \<open>The parts\<close>

named_theorems parsed_bounds "bounds of the values the parser reads"

lemma count_or_bounds [parsed_bounds]:
  "lo \<le> fallback \<Longrightarrow> lo \<le> hi \<Longrightarrow> lo \<le> count_or v fallback lo hi"
  "fallback \<le> hi \<Longrightarrow> lo \<le> hi \<Longrightarrow> count_or v fallback lo hi \<le> hi"
  by (auto simp: count_or_def clamp_def split: jsval.splits option.splits)

lemma ms_or_inherit_bounds:
  "lo \<le> ms_ceiling_max \<Longrightarrow> ms_or_inherit v lo = Some n \<Longrightarrow> lo \<le> n \<and> n \<le> ms_ceiling_max"
  by (auto simp: ms_or_inherit_def split: jsval.splits option.splits if_splits)

lemma retries_value_bounds: "retries_value v = Some n \<Longrightarrow> 0 \<le> n \<and> n \<le> 3"
  by (auto simp: retries_value_def split: jsval.splits if_splits)

lemma max_safe_large [simp]: "5000 \<le> safe_max" "10000 \<le> safe_max" "1000 \<le> safe_max" "0 \<le> safe_max"
  by (simp_all add: safe_max_def)

lemma ci_of_ok: "ci_errors raw = [] \<Longrightarrow> ci_ok (ci_of raw)"
  by (auto simp: ci_errors_def ci_ok_def ci_of_def parsed_bounds split: if_splits option.splits)

lemma declared_ci_ok: "snd (declared_ci v) = [] \<Longrightarrow> fst (declared_ci v) = Some c \<Longrightarrow> ci_ok c"
  by (auto simp: declared_ci_def parse_ci_def dest: ci_of_ok split: if_splits)

lemma command_body_ok: "command_errors raw = [] \<Longrightarrow> body_ok (Cmd_gate (command_body_of raw))"
  using declared_ci_ok [of "js_get raw ''ci''"]
  by (auto simp: command_errors_def command_body_of_def Let_def parsed_bounds declared_ci_def split: if_splits)

lemma review_body_ok: "review_errors raw = [] \<Longrightarrow> body_ok (Rev_gate (review_body_of raw))"
  using retries_value_bounds
  by (auto simp: review_errors_def review_body_of_def parsed_bounds split: if_splits)

lemma human_body_ok: "body_ok (Hum_gate (human_body_of raw))"
  by (simp add: human_body_of_def parsed_bounds)

lemma body_of_ok: "snd (body_of raw) = [] \<Longrightarrow> body_ok (fst (body_of raw))"
  using command_body_ok [of raw] review_body_ok [of raw] human_body_ok [of raw]
  by (simp add: body_of_def del: body_ok.simps split: if_splits)

lemma normalize_gate_ok: "normalize_gate raw i source = (Some g, errs) \<Longrightarrow> gate_ok g \<and> errs = []"
  using body_of_ok [of raw]
  by (auto simp: normalize_gate_def gate_errors_def gate_ok_def gate_id_errors_def parsed_bounds split: if_splits)

lemma normalize_gate_refuses: "normalize_gate raw i source = (None, errs) \<Longrightarrow> errs \<noteq> []"
  by (auto simp: normalize_gate_def split: if_splits)

lemma resolve_entries_ok:
  "resolve_entries gate_nodes i entries gates = (gs, []) \<Longrightarrow> distinct (map gt_id gates) \<Longrightarrow> list_all gate_ok gates \<Longrightarrow>
   distinct (map gt_id gs) \<and> list_all gate_ok gs \<and> length gs = length gates + length entries"
proof (induction gate_nodes i entries gates rule: resolve_entries.induct)
  case (2 gate_nodes i entry rest gates)
  obtain raw source where e: "entry_of gate_nodes entry = Inr (raw, source)"
    using "2.prems"(1) by (auto split: sum.splits prod.splits)
  obtain r errs where n: "normalize_gate raw i source = (r, errs)" by (cases "normalize_gate raw i source")
  then obtain g where g: "r = Some g" using "2.prems"(1) e normalize_gate_refuses [of raw i source errs] by (auto split: prod.splits option.splits)
  have ok: "gate_ok g" "errs = []" using normalize_gate_ok n g by blast+
  have new: "gt_id g \<notin> gt_id ` set gates" using "2.prems"(1) e n g by (auto split: if_splits prod.splits)
  then have "resolve_entries gate_nodes (Suc i) rest (gates @ [g]) = (gs, [])"
    using "2.prems"(1) e n g ok by (auto split: prod.splits)
  from "2.IH"(4) [OF e refl n [symmetric] g new this] show ?case using "2.prems"(2,3) ok new by simp
qed simp

lemma resolve_gates_ok:
  "resolve_gates payload gate_nodes = (gs, []) \<Longrightarrow> gs \<noteq> [] \<and> distinct (map gt_id gs) \<and> list_all gate_ok gs"
proof -
  assume r: "resolve_gates payload gate_nodes = (gs, [])"
  then obtain e rest where "resolve_entries gate_nodes 0 (e # rest) [] = (gs, [])"
    unfolding resolve_gates_def by (auto simp del: resolve_entries.simps split: jsval.splits list.splits)
  from resolve_entries_ok [OF this] show ?thesis by auto
qed

lemma first_word_nonempty: "first_word (ws @ [trusted_ref_default]) \<noteq> []"
proof -
  have "filter (\<lambda>w. w \<noteq> []) (ws @ [trusted_ref_default]) \<noteq> []" by (simp add: trusted_ref_default_def)
  then obtain w rest where "filter (\<lambda>w. w \<noteq> []) (ws @ [trusted_ref_default]) = w # rest" by (meson neq_Nil_conv)
  moreover from this have "w \<noteq> []" by (metis (mono_tags, lifting) filter_eq_ConsD)
  ultimately show ?thesis by (simp add: first_word_def)
qed

lemma parse_integration_ok: "parse_integration payload = (Some g, es) \<Longrightarrow> integration_ok g"
proof -
  assume p: "parse_integration payload = (Some g, es)"
  let ?raw = "js_get payload ''integration''"
  have g: "g = integration_of payload ?raw" and e: "integration_errors g ?raw = []"
    using p by (auto simp: parse_integration_def Let_def split: if_splits)
  have ci: "snd (declared_ci (js_get ?raw ''ci'')) = []" using e by (simp add: integration_errors_def)
  have "ig_target_ref g \<noteq> []"
    using first_word_nonempty [of "[word_of (js_get ?raw ''target_ref''), word_of (js_get payload ''trusted_ref'')]"] by (simp add: g integration_of_def)
  moreover have "\<forall>c. ig_ci g = Some c \<longrightarrow> ci_ok c" using declared_ci_ok [OF ci] by (simp add: g integration_of_def)
  moreover have "ig_mode g \<in> set integration_modes" "ig_command g \<noteq> []" "ig_strategy g \<in> set integration_strategies" "ig_serialize g = ''repo''"
    using e by (auto simp: integration_errors_def split: if_splits)
  ultimately show ?thesis by (simp add: integration_ok_def g integration_of_def parsed_bounds)
qed

lemma parse_rescue_ok: "parse_rescue payload = (Some r, es) \<Longrightarrow> rescue_ok r"
  by (auto simp: parse_rescue_def rescue_ok_def Let_def parsed_bounds split: if_splits)

lemma author_checks_ok:
  assumes "author_check_errors gates checks = []" and "i \<in> set checks"
  shows "\<exists>g\<in>set gates. gt_id g = i \<and> is_command (gt_body g)"
proof -
  have "(case gate_named gates i of None \<Rightarrow> [''author_checks''] | Some g \<Rightarrow> if is_command (gt_body g) then [] else [''author_checks'']) = []"
    using assms by (auto simp: author_check_errors_def)
  then obtain g where g: "gate_named gates i = Some g" "is_command (gt_body g)" by (auto split: option.splits if_splits)
  then show ?thesis using find_Some_set [OF g(1) [unfolded gate_named_def]] by auto
qed

lemma stage_of_ok: "stage_errors raw gates = [] \<Longrightarrow> stage_ok gates (stage_of raw)"
  using author_checks_ok [of gates "sg_author_checks (stage_of raw)"] ms_or_inherit_bounds [of 1] ms_or_inherit_bounds [of 0]
  by (auto simp: stage_errors_def stage_ok_def stage_of_def Let_def parsed_bounds ms_ceiling_max_def split: if_splits)

lemma default_stage_ok: "stage_ok gates (stage_of (JObj []))"
  by (simp add: stage_ok_def stage_of_def sub_block_def declared_def nullish_def arr_of_def count_or_def ms_or_inherit_def Let_def strict_keyword_def
      str_or_def coalesce_def candidate_publish_def lower_def lower_char_def trim_def ws_chars_def)

lemma boundary_spec_of_ok:
  "boundary_errors raw adopted integrates = [] \<Longrightarrow> (bs_by (boundary_spec_of raw adopted integrates) = ''controller'' \<Longrightarrow> staged)
   \<Longrightarrow> boundary_ok (boundary_spec_of raw adopted integrates) staged integrates"
  by (auto simp: boundary_errors_def boundary_spec_of_def boundary_ok_def Let_def split: if_splits)

lemma undeclared_risk_ok:
  "undeclared_risk_errors classes gates = [] \<Longrightarrow> g \<in> set gates \<Longrightarrow> c \<in> set (body_risk (gt_body g)) \<Longrightarrow> risk_class_found classes c"
  by (auto simp: undeclared_risk_errors_def filter_empty_conv)

lemma parse_implementation_ok:
  assumes "snd (snd (parse_implementation payload gates)) = []"
  shows "(\<forall>s. fst (parse_implementation payload gates) = Some s \<longrightarrow> stage_ok gates s)
    \<and> boundary_ok (fst (snd (parse_implementation payload gates))) (fst (parse_implementation payload gates) \<noteq> None)
        (declared (js_get payload ''integration''))"
proof -
  have e: "stage_block_errors payload gates = []"
    "boundary_errors (completion_block payload) (stage_adopted payload gates) (declared (js_get payload ''integration'')) = []"
    using assms by (simp_all add: parse_implementation_def completion_errors_def)
  have "stage_ok gates s" if "stage_in payload gates = Some s" for s
    using that e(1) stage_of_ok [of "js_get payload ''implementation''" gates] default_stage_ok [of gates]
    by (auto simp: stage_in_def stage_adopted_def stage_block_errors_def Let_def split: if_splits)
  moreover have "bs_by (boundary_in payload gates) = ''controller'' \<Longrightarrow> stage_in payload gates \<noteq> None"
    using e(1) by (simp add: stage_in_def stage_adopted_def)
  then have "boundary_ok (boundary_in payload gates) (stage_in payload gates \<noteq> None) (declared (js_get payload ''integration''))"
    by (intro boundary_spec_of_ok [OF e(2), folded boundary_in_def]) blast
  ultimately show ?thesis by (simp add: parse_implementation_def)
qed

lemma parse_integration_declared:
  "snd (parse_integration payload) = [] \<Longrightarrow> declared (js_get payload ''integration'') \<longleftrightarrow> fst (parse_integration payload) \<noteq> None"
  by (auto simp: parse_integration_def Let_def split: if_splits)

lemma factory_of_ok:
  assumes none: "factory_errors payload gate_nodes project = []"
  shows "factory_ok (factory_of payload gate_nodes i project)"
proof -
  let ?gs = "fst (resolve_gates payload gate_nodes)" and ?impl = "parse_implementation payload (fst (resolve_gates payload gate_nodes))"
  have e: "snd (resolve_gates payload gate_nodes) = []" "snd (parse_integration payload) = []" "snd (parse_rescue payload) = []" "snd (snd ?impl) = []"
    "(if arr_of (js_get payload ''protected_paths'') \<noteq> [] \<and> word_of (js_get payload ''test_lane_profile'') = []
      then [In_block ''factory'' ''test_lane_profile''] else []) = []"
    "undeclared_risk_errors (risk_classes_of payload) ?gs = []"
    using none unfolding factory_errors_def case_prod_unfold Let_def append_is_Nil_conv by blast+
  have lane: "arr_of (js_get payload ''protected_paths'') \<noteq> [] \<Longrightarrow> word_of (js_get payload ''test_lane_profile'') \<noteq> []"
    using e(5) by (metis list.distinct(1))
  have gates: "?gs \<noteq> [] \<and> distinct (map gt_id ?gs) \<and> list_all gate_ok ?gs"
    using resolve_gates_ok [of payload gate_nodes ?gs] e(1) by (metis prod.collapse)
  have impl: "(\<forall>s. fst ?impl = Some s \<longrightarrow> stage_ok ?gs s) \<and> boundary_ok (fst (snd ?impl)) (fst ?impl \<noteq> None) (fst (parse_integration payload) \<noteq> None)"
    using parse_implementation_ok [OF e(4)] unfolding parse_integration_declared [OF e(2)] .
  have "fst (parse_integration payload) = Some g \<Longrightarrow> integration_ok g" for g
    using parse_integration_ok by (metis prod.collapse)
  moreover have "fst (parse_rescue payload) = Some r \<Longrightarrow> rescue_ok r" for r
    using parse_rescue_ok by (metis prod.collapse)
  moreover have "first_word [word_of (js_get payload ''trusted_ref''), trusted_ref_default] \<noteq> []"
    using first_word_nonempty [of "[word_of (js_get payload ''trusted_ref'')]"] by simp
  moreover have "\<forall>p\<in>set (risk_classes_of payload). snd p \<noteq> []" by (simp add: risk_classes_of_def)
  ultimately show ?thesis
    using gates impl lane undeclared_risk_ok [OF e(6)] by (simp add: factory_ok_def factory_of_def Let_def)
qed

text \<open>
  C40. A factory definition that parses is well formed, and one that does not is never handed out. The parser answers with a factory exactly when it
  reports no error; then the factory has at least one gate, gate ids are distinct, short, kebab-case and not reserved, every gate has what its
  kind needs within the documented bounds, every risk class a gate names is found, author checks name command gates of the list,
  the stage budgets are those the attempt loop is bounded for, the completion boundary names a declared stage and a controller's has
  a stage to submit the candidate, and protected paths come with a lane to route to.
\<close>

theorem parsed_factory_is_well_formed:
  assumes "parse_factory decoded gate_nodes i project = (r, errs, refs)"
  shows "(r = None \<longleftrightarrow> errs \<noteq> []) \<and> (\<forall>f. r = Some f \<longrightarrow> factory_ok f)"
  using assms factory_of_ok by (auto simp: parse_factory_def split: option.splits if_splits)

subsection \<open>A concrete factory\<close>

definition demo_payload :: jsval where
  "demo_payload = JObj [(''gates'', JArr [JObj [(''kind'', JStr ''command''), (''command'', JStr ''t''), (''reruns'', JNum 9)],
     JObj [(''ref'', JStr ''gate-r''), (''cycles'', JNum 2)]]), (''implementation'', JObj [])]"

definition demo_gate_nodes :: "string \<Rightarrow> jsval" where
  "demo_gate_nodes r = (if r = ''gate-r'' then JObj [(''kind'', JStr ''human'')] else JUndef)"

lemma demo_factory:
  "(case parse_factory (Some demo_payload) demo_gate_nodes None JUndef of
      (Some f, errs, refs) \<Rightarrow> Some (map gt_id (fa_gates f), map gt_cycles (fa_gates f), bs_by (fa_completion f), errs, refs) | _ \<Rightarrow> None)
   = Some ([''command-1'', ''r''], [0, 2], ''controller'', [], [''gate-r''])"
  by code_simp

theorem parsed_factory_is_well_formed_witness:
  "\<exists>f. parse_factory (Some demo_payload) demo_gate_nodes None JUndef = (Some f, [], [''gate-r'']) \<and> map gt_id (fa_gates f) = [''command-1'', ''r'']
    \<and> factory_ok f"
proof -
  obtain r errs refs where p: "parse_factory (Some demo_payload) demo_gate_nodes None JUndef = (r, errs, refs)"
    using prod_cases3 by blast
  then obtain f where f: "parse_factory (Some demo_payload) demo_gate_nodes None JUndef = (Some f, [], [''gate-r''])"
    "map gt_id (fa_gates f) = [''command-1'', ''r'']"
    using demo_factory unfolding p by (cases r) simp_all
  moreover have "factory_ok f" using parsed_factory_is_well_formed [OF f(1)] by simp
  ultimately show ?thesis by (intro exI [of _ f] conjI)
qed

text \<open>A risk class no factory declares is let through when every object inherits its name.\<close>

lemma inherited_risk_class_is_let_through:
  "(case parse_factory (Some (JObj [(''gates'', JArr [JObj [(''kind'', JStr ''human''), (''risk'', JStr ''toString'')]])])) demo_gate_nodes None JUndef of
      (Some f, errs, refs) \<Rightarrow> Some (fa_risk_classes f, human_gate_armed [''toString''] [''a''] (fa_risk_classes f), errs) | _ \<Rightarrow> None)
   = Some ([], (False, []), [])"
  by code_simp

end
