(* ===== verification/NodeFile.thy ===== *)
theory NodeFile
  imports JsValue "HOL-Library.AList"
begin

text \<open>
  The node-file grammar, \<^verbatim>\<open>src/lib/kernel/frontmatter.js\<close>: the fence, the flat scalars, the
  lexer that turns frontmatter into line-ranged entries, and the two readers
  (\<open>parseFrontmatter\<close>, which throws the first fault, and \<open>readNode\<close>, which records them).

  A string is the sequence of its bytes (a code unit above \<open>007F\<close> as its UTF-8 bytes), so
  \<open>\s\<close>, \<open>trim\<close> and the line terminators a \<open>.\<close> does not match are the ASCII ones. Each regular
  expression of the module is a function that reads what the expression matches; every
  quantifier in them is followed by a character it cannot match, so no matching backtracks.
  A JavaScript object is its list of properties in insertion order.
\<close>

subsection \<open>Characters\<close>

definition is_space :: "char \<Rightarrow> bool" where
  "is_space c \<longleftrightarrow> c \<in> set ws_chars"

text \<open>\<open>\w\<close> and \<open>[\w-]\<close>.\<close>

definition is_word :: "char \<Rightarrow> bool" where
  "is_word c \<longleftrightarrow> is_digit c \<or> c = CHR ''_''
     \<or> (65 \<le> (of_char c :: nat) \<and> (of_char c :: nat) \<le> 90) \<or> (97 \<le> (of_char c :: nat) \<and> (of_char c :: nat) \<le> 122)"

definition is_token :: "char \<Rightarrow> bool" where
  "is_token c \<longleftrightarrow> is_word c \<or> c = CHR ''-''"

abbreviation LF :: char where "LF \<equiv> CHR 0x0A"
abbreviation CR :: char where "CR \<equiv> CHR 0x0D"
abbreviation DQ :: char where "DQ \<equiv> CHR 0x22"
abbreviation SQ :: char where "SQ \<equiv> CHR 0x27"
abbreviation BS :: char where "BS \<equiv> CHR 0x5C"

definition skip_ws :: "string \<Rightarrow> string" where
  "skip_ws s = dropWhile is_space s"

definition trim_end :: "string \<Rightarrow> string" where
  "trim_end s = rev (dropWhile is_space (rev s))"

text \<open>The rest of \<open>s\<close> after the literal \<open>p\<close>.\<close>

fun after :: "string \<Rightarrow> string \<Rightarrow> string option" where
  "after [] s = Some s"
| "after (p # ps) [] = None"
| "after (p # ps) (c # cs) = (if p = c then after ps cs else None)"

text \<open>\<open>s.split(c)\<close>: always at least one piece.\<close>

fun split_at :: "char \<Rightarrow> string \<Rightarrow> string list" where
  "split_at d [] = [[]]"
| "split_at d (c # cs) =
     (if c = d then [] # split_at d cs
      else case split_at d cs of [] \<Rightarrow> [[c]] | p # ps \<Rightarrow> (c # p) # ps)"

definition split_lines :: "string \<Rightarrow> string list" where
  "split_lines s = split_at LF s"

text \<open>\<open>s.replace(/\r\n/g, "\n")\<close> and \<open>s.replace(/\r?\n/g, " ")\<close>.\<close>

fun fold_crlf :: "string \<Rightarrow> string" where
  "fold_crlf (c # d # s) = (if c = CR \<and> d = LF then LF # fold_crlf s else c # fold_crlf (d # s))"
| "fold_crlf s = s"

definition folded_line :: "string \<Rightarrow> string" where
  "folded_line s = map (\<lambda>c. if c = LF then CHR '' '' else c) (fold_crlf s)"

subsection \<open>Flat scalars\<close>

definition is_quote :: "char \<Rightarrow> bool" where
  "is_quote c \<longleftrightarrow> c = DQ \<or> c = SQ"

text \<open>\<open>unquote\<close>: a lone leading or trailing quote is stripped.\<close>

definition unquote :: "string \<Rightarrow> string" where
  "unquote s =
     (let t = (if s \<noteq> [] \<and> is_quote (hd s) then tl s else s)
      in if t \<noteq> [] \<and> is_quote (last t) then butlast t else t)"

definition is_hex_digit :: "char \<Rightarrow> bool" where
  "is_hex_digit c \<longleftrightarrow> is_digit c
     \<or> (65 \<le> (of_char c :: nat) \<and> (of_char c :: nat) \<le> 70) \<or> (97 \<le> (of_char c :: nat) \<and> (of_char c :: nat) \<le> 102)"

definition hex_value :: "char \<Rightarrow> nat" where
  "hex_value c = (if is_digit c then of_char c - 48 else if (of_char c :: nat) \<le> 70 then of_char c - 55 else of_char c - 87)"

definition parse_hex :: "string \<Rightarrow> nat" where
  "parse_hex s = foldl (\<lambda>n c. 16 * n + hex_value c) 0 s"

text \<open>\<open>String.fromCharCode(n)\<close> for a four-digit code unit, as bytes.\<close>

definition from_char_code :: "nat \<Rightarrow> string" where
  "from_char_code n =
     (if n < 128 then [char_of n]
      else if n < 2048 then [char_of (192 + n div 64), char_of (128 + n mod 64)]
      else [char_of (224 + n div 4096), char_of (128 + n div 64 mod 64), char_of (128 + n mod 64)])"

text \<open>\<open>DQ_ESCAPES\<close>.\<close>

definition dq_escapes :: "(char \<times> char) list" where
  "dq_escapes = [(CHR ''n'', LF), (CHR ''t'', CHR 0x09), (CHR ''r'', CR), (CHR ''b'', CHR 0x08), (CHR ''f'', CHR 0x0C),
     (CHR ''0'', CHR 0x00), (DQ, DQ), (BS, BS), (CHR ''/'', CHR ''/''), (CHR '' '', CHR '' '')]"

definition hex_run :: "nat \<Rightarrow> string \<Rightarrow> bool" where
  "hex_run k s \<longleftrightarrow> length (take k s) = k \<and> list_all is_hex_digit (take k s)"

function (sequential) unescape_double :: "string \<Rightarrow> string" where
  "unescape_double [] = []"
| "unescape_double [c] = [c]"
| "unescape_double (c # d # s) =
     (if c \<noteq> BS then c # unescape_double (d # s)
      else if d = CHR ''u'' \<and> hex_run 4 s then from_char_code (parse_hex (take 4 s)) @ unescape_double (drop 4 s)
      else if d = CHR ''x'' \<and> hex_run 2 s then from_char_code (parse_hex (take 2 s)) @ unescape_double (drop 2 s)
      else (case map_of dq_escapes d of Some e \<Rightarrow> e # unescape_double s | None \<Rightarrow> c # d # unescape_double s))"
  by pat_completeness auto
termination by (relation "measure length") auto

text \<open>\<open>s.replace(/''/g, "'")\<close>.\<close>

fun fold_quotes :: "string \<Rightarrow> string" where
  "fold_quotes (c # d # s) = (if c = SQ \<and> d = SQ then SQ # fold_quotes s else c # fold_quotes (d # s))"
| "fold_quotes s = s"

definition wrapped_in :: "char \<Rightarrow> string \<Rightarrow> bool" where
  "wrapped_in q t \<longleftrightarrow> 2 \<le> length t \<and> hd t = q \<and> last t = q"

definition inner :: "string \<Rightarrow> string" where
  "inner t = butlast (tl t)"

definition scalar_value :: "string \<Rightarrow> string" where
  "scalar_value s =
     (let t = trim s in
      if wrapped_in DQ t then unescape_double (inner t)
      else if wrapped_in SQ t then fold_quotes (inner t)
      else unquote s)"

text \<open>\<open>JSON.stringify\<close> of a string.\<close>

definition hex_char :: "nat \<Rightarrow> char" where
  "hex_char n = (if n < 10 then char_of (48 + n) else char_of (87 + n))"

definition json_escape :: "char \<Rightarrow> string" where
  "json_escape c =
     (if c = DQ then [BS, DQ] else if c = BS then [BS, BS]
      else if c = CHR 0x08 then [BS, CHR ''b''] else if c = CHR 0x0C then [BS, CHR ''f'']
      else if c = LF then [BS, CHR ''n''] else if c = CR then [BS, CHR ''r''] else if c = CHR 0x09 then [BS, CHR ''t'']
      else if (of_char c :: nat) < 32 then [BS, CHR ''u'', CHR ''0'', CHR ''0'', hex_char (of_char c div 16), hex_char (of_char c mod 16)]
      else [c])"

definition json_text :: "string \<Rightarrow> string" where
  "json_text s = DQ # concat (map json_escape s) @ [DQ]"

definition emit_scalar :: "bool \<Rightarrow> string \<Rightarrow> string" where
  "emit_scalar quote_empty v =
     (let flat = folded_line v in
      if flat = [] then (if quote_empty then [DQ, DQ] else flat)
      else if trim flat = flat \<and> scalar_value flat = flat then flat else json_text flat)"

subsection \<open>Edges and field values\<close>

text \<open>A value of a node: a flat string, a list, or null/undefined.\<close>

datatype field_value = Flat string | Items "string list" | Missing

type_synonym attrs = "(string \<times> string) list"

text \<open>\<open>o[k] = v\<close> on an object literal; assigning \<open>__proto__\<close> adds no property.\<close>

definition set_prop :: "string \<Rightarrow> 'v \<Rightarrow> (string \<times> 'v) list \<Rightarrow> (string \<times> 'v) list" where
  "set_prop k v fs = (if k = ''__proto__'' then fs else AList.update k v fs)"

definition attr :: "attrs \<Rightarrow> string \<Rightarrow> string" where
  "attr e k = (case map_of e k of Some v \<Rightarrow> v | None \<Rightarrow> [])"

text \<open>\<open>e.type && e.to\<close>: both present and non-empty.\<close>

definition is_edge :: "attrs \<Rightarrow> bool" where
  "is_edge e \<longleftrightarrow> attr e ''type'' \<noteq> [] \<and> attr e ''to'' \<noteq> []"

text \<open>\<open>target:\<close> is accepted for \<open>to:\<close>.\<close>

definition edge_key :: "string \<Rightarrow> string" where
  "edge_key k = (if k = ''target'' then ''to'' else k)"

subsection \<open>Flow text\<close>

text \<open>\<open>scanFlow\<close>: the characters outside quoted scalars, each with its index and the depth after
  it, then the depth and whether a quote is still open at the end. \<open>prev\<close> is the last
  character that is not white space. A visitor that stops early reads a prefix of the list.\<close>

function (sequential) scan_from :: "nat \<Rightarrow> int \<Rightarrow> char option \<Rightarrow> char option \<Rightarrow> string \<Rightarrow> (char \<times> nat \<times> int) list \<times> int \<times> bool" where
  "scan_from i depth q prev [] = ([], depth, q \<noteq> None)"
| "scan_from i depth (Some q) prev (c # cs) =
     (if q = DQ \<and> c = BS then scan_from (i + 2) depth (Some q) prev (drop 1 cs)
      else if q = SQ \<and> c = SQ \<and> cs \<noteq> [] \<and> hd cs = SQ then scan_from (i + 2) depth (Some q) prev (drop 1 cs)
      else if c = q then scan_from (i + 1) depth None (Some c) cs
      else scan_from (i + 1) depth (Some q) prev cs)"
| "scan_from i depth None prev (c # cs) =
     (if is_quote c \<and> (case prev of None \<Rightarrow> True | Some p \<Rightarrow> p \<in> set ''[{,:'')
      then scan_from (i + 1) depth (Some c) prev cs
      else
        (let d = (if c \<in> set ''[{'' then depth + 1 else if c \<in> set '']}'' then depth - 1 else depth);
             (vs, r) = scan_from (i + 1) d None (if is_space c then prev else Some c) cs
         in ((c, i, d) # vs, r)))"
  by pat_completeness auto
termination by (relation "measure (\<lambda>(i, depth, q, prev, s). length s)") auto

definition scan_flow :: "string \<Rightarrow> (char \<times> nat \<times> int) list \<times> int \<times> bool" where
  "scan_flow s = scan_from 0 0 None None s"

definition flow_closed :: "string \<Rightarrow> bool" where
  "flow_closed s = (case scan_flow s of (vs, depth, quoted) \<Rightarrow> depth \<le> 0 \<and> \<not> quoted)"

definition strip_flow_comment :: "string \<Rightarrow> string" where
  "strip_flow_comment line =
     (case List.find (\<lambda>(c, i, d). c = CHR ''#'' \<and> (i = 0 \<or> is_space (line ! (i - 1)))) (fst (scan_flow line)) of
        Some (c, i, d) \<Rightarrow> trim_end (take i line)
      | None \<Rightarrow> trim_end line)"

definition split_top_level :: "string \<Rightarrow> string list" where
  "split_top_level s =
     (let cuts = map (\<lambda>(c, i, d). i) (filter (\<lambda>(c, i, d). c = CHR '','' \<and> d = 0) (fst (scan_flow s)))
      in map (\<lambda>(a, b). take (b - a) (drop a s)) (zip (0 # map Suc cuts) (cuts @ [length s])))"

subsection \<open>JSON text\<close>

text \<open>What \<open>JSON.parse\<close> gives of an inline edge list. A number is kept as it is written.\<close>

datatype json = JsNull | JsBool bool | JsNumber string | JsText string | JsList "json list" | JsMap "(string \<times> json) list"

text \<open>The characters of a string literal after its opening quote.\<close>

function (sequential) json_string :: "string \<Rightarrow> (string \<times> string) option" where
  "json_string [] = None"
| "json_string (c # cs) =
     (if c = DQ then Some ([], cs)
      else if (of_char c :: nat) < 32 then None
      else if c \<noteq> BS then map_option (\<lambda>(t, r). (c # t, r)) (json_string cs)
      else (case cs of
          [] \<Rightarrow> None
        | d # r \<Rightarrow>
            if d = CHR ''u'' then
              (if hex_run 4 r then map_option (\<lambda>(t, r'). (from_char_code (parse_hex (take 4 r)) @ t, r')) (json_string (drop 4 r)) else None)
            else if d = CHR ''0'' \<or> d = CHR '' '' then None
            else (case map_of dq_escapes d of
                None \<Rightarrow> None
              | Some e \<Rightarrow> map_option (\<lambda>(t, r'). (e # t, r')) (json_string r))))"
  by pat_completeness auto
termination by (relation "measure length") auto

text \<open>A number: an optional sign, an integer part without leading zeros, a fraction, an exponent.\<close>

definition some_digits :: "string \<Rightarrow> (string \<times> string) option" where
  "some_digits s = (if takeWhile is_digit s = [] then None else Some (takeWhile is_digit s, dropWhile is_digit s))"

definition json_number :: "string \<Rightarrow> (string \<times> string) option" where
  "json_number s =
     (let sign = (if s \<noteq> [] \<and> hd s = CHR ''-'' then ''-'' else []);
          r0 = drop (length sign) s in
      case some_digits r0 of
        None \<Rightarrow> None
      | Some (ds, r1) \<Rightarrow>
          if hd ds = CHR ''0'' \<and> length ds > 1 then None
          else
            (case (if r1 \<noteq> [] \<and> hd r1 = CHR ''.'' then map_option (\<lambda>(f, r). (CHR ''.'' # f, r)) (some_digits (tl r1)) else Some ([], r1)) of
               None \<Rightarrow> None
             | Some (frac, r2) \<Rightarrow>
                 (if r2 \<noteq> [] \<and> hd r2 \<in> set ''eE'' then
                    (let esign = (if tl r2 \<noteq> [] \<and> hd (tl r2) \<in> set ''+-'' then [hd (tl r2)] else []) in
                     map_option (\<lambda>(e, r). (sign @ ds @ frac @ hd r2 # esign @ e, r)) (some_digits (drop (length esign) (tl r2))))
                  else Some (sign @ ds @ frac, r2))))"

definition json_ws :: "string \<Rightarrow> string" where
  "json_ws s = dropWhile (\<lambda>c. c \<in> {CHR '' '', CHR 0x09, LF, CR}) s"

text \<open>Values, the members of an array after its \<open>[\<close>, and those of an object after its \<open>{\<close>
  (\<open>first\<close>: the closing bracket may come at once). A repeated key keeps its place and its last
  value. Each call reads at least one character of its caller's text, so the length of the text
  is fuel enough.\<close>

fun json_value :: "nat \<Rightarrow> string \<Rightarrow> (json \<times> string) option"
  and json_items :: "nat \<Rightarrow> bool \<Rightarrow> string \<Rightarrow> (json list \<times> string) option"
  and json_members :: "nat \<Rightarrow> bool \<Rightarrow> (string \<times> json) list \<Rightarrow> string \<Rightarrow> ((string \<times> json) list \<times> string) option" where
  "json_value 0 s = None"
| "json_value (Suc n) s =
     (case json_ws s of
        [] \<Rightarrow> None
      | c # cs \<Rightarrow>
          if c = DQ then map_option (\<lambda>(t, r). (JsText t, r)) (json_string cs)
          else if c = CHR ''['' then map_option (\<lambda>(vs, r). (JsList vs, r)) (json_items n True cs)
          else if c = CHR ''{'' then map_option (\<lambda>(ms, r). (JsMap ms, r)) (json_members n True [] cs)
          else if c = CHR ''-'' \<or> is_digit c then map_option (\<lambda>(t, r). (JsNumber t, r)) (json_number (c # cs))
          else (case after ''true'' (c # cs) of Some r \<Rightarrow> Some (JsBool True, r)
            | None \<Rightarrow> (case after ''false'' (c # cs) of Some r \<Rightarrow> Some (JsBool False, r)
            | None \<Rightarrow> map_option (\<lambda>r. (JsNull, r)) (after ''null'' (c # cs)))))"
| "json_items 0 first s = None"
| "json_items (Suc n) first s =
     (if first \<and> json_ws s \<noteq> [] \<and> hd (json_ws s) = CHR '']'' then Some ([], tl (json_ws s))
      else (case json_value n s of
          None \<Rightarrow> None
        | Some (v, r) \<Rightarrow>
            (case json_ws r of
               [] \<Rightarrow> None
             | c # cs \<Rightarrow>
                 if c = CHR '']'' then Some ([v], cs)
                 else if c = CHR '','' then map_option (\<lambda>(vs, r'). (v # vs, r')) (json_items n False cs)
                 else None)))"
| "json_members 0 first ms s = None"
| "json_members (Suc n) first ms s =
     (case json_ws s of
        [] \<Rightarrow> None
      | c # cs \<Rightarrow>
          if first \<and> c = CHR ''}'' then Some (ms, cs)
          else if c \<noteq> DQ then None
          else (case json_string cs of
              None \<Rightarrow> None
            | Some (k, r) \<Rightarrow>
                (case json_ws r of
                   [] \<Rightarrow> None
                 | c' # r' \<Rightarrow>
                     if c' \<noteq> CHR '':'' then None
                     else (case json_value n r' of
                         None \<Rightarrow> None
                       | Some (v, r2) \<Rightarrow>
                           (case json_ws r2 of
                              [] \<Rightarrow> None
                            | c2 # r3 \<Rightarrow>
                                if c2 = CHR ''}'' then Some (AList.update k v ms, r3)
                                else if c2 = CHR '','' then json_members n False (AList.update k v ms) r3
                                else None)))))"

definition json_parse :: "string \<Rightarrow> json option" where
  "json_parse s = (case json_value (2 * length s + 2) s of Some (v, r) \<Rightarrow> if json_ws r = [] then Some v else None | None \<Rightarrow> None)"

subsection \<open>Inline edge lists\<close>

text \<open>\<open>String(v)\<close> of a scalar: an integer loses the sign of a zero, any other number keeps its spelling.\<close>

fun json_scalar :: "json \<Rightarrow> string option" where
  "json_scalar JsNull = Some []"
| "json_scalar (JsBool b) = Some (if b then ''true'' else ''false'')"
| "json_scalar (JsNumber t) = Some (if t = ''-0'' then ''0'' else t)"
| "json_scalar (JsText t) = Some t"
| "json_scalar (JsList _) = None"
| "json_scalar (JsMap _) = None"

definition key_token :: "string \<Rightarrow> bool" where
  "key_token k \<longleftrightarrow> k \<noteq> [] \<and> is_word (hd k) \<and> list_all is_token k"

fun edge_of_map :: "attrs \<Rightarrow> (string \<times> json) list \<Rightarrow> attrs option" where
  "edge_of_map e [] = (if is_edge e then Some e else None)"
| "edge_of_map e ((k, v) # ms) =
     (if \<not> key_token k then None
      else case json_scalar v of None \<Rightarrow> None | Some t \<Rightarrow> edge_of_map (set_prop (edge_key k) t e) ms)"

text \<open>Every item, or none: one bad item refuses the list.\<close>

fun all_some :: "'a option list \<Rightarrow> 'a list option" where
  "all_some [] = Some []"
| "all_some (None # xs) = None"
| "all_some (Some x # xs) = map_option ((#) x) (all_some xs)"

definition edges_from_items :: "json list \<Rightarrow> attrs list option" where
  "edges_from_items items = all_some (map (\<lambda>v. case v of JsMap ms \<Rightarrow> edge_of_map [] ms | _ \<Rightarrow> None) items)"

definition parse_edges_object :: "string \<Rightarrow> attrs list option" where
  "parse_edges_object t =
     (if t = [] \<or> last t \<noteq> CHR ''}'' then None
      else case json_parse t of
        Some (JsMap ms) \<Rightarrow>
          (if ms = [] then (if trim (inner t) = [] then Some [] else None)
           else if ''outbound'' \<notin> fst ` set ms \<or> \<not> list_all (\<lambda>p. fst p = ''outbound'' \<or> fst p = ''inbound'') ms then None
           else if length (split_top_level (inner t)) \<noteq> length ms then None
           else (case map_of ms ''outbound'' of
               Some (JsList items) \<Rightarrow>
                 (case map_of ms ''inbound'' of
                    None \<Rightarrow> edges_from_items items
                  | Some (JsList _) \<Rightarrow> edges_from_items items
                  | Some _ \<Rightarrow> None)
             | _ \<Rightarrow> None))
      | _ \<Rightarrow> None)"

text \<open>A pair of a flow map: a bare or quoted token, a colon, and the rest.\<close>

definition pair_key :: "string \<Rightarrow> (string \<times> string) option" where
  "pair_key p =
     (case p of
        [] \<Rightarrow> None
      | c # cs \<Rightarrow>
          if is_quote c then
            (let k = takeWhile is_token cs; r = dropWhile is_token cs in
             if k \<noteq> [] \<and> r \<noteq> [] \<and> hd r = c then Some (k, tl r) else None)
          else
            (let k = takeWhile is_token p in if k \<noteq> [] then Some (k, dropWhile is_token p) else None))"

definition flow_pair :: "string \<Rightarrow> (string \<times> json) option" where
  "flow_pair p =
     (case pair_key p of
        None \<Rightarrow> None
      | Some (k, r) \<Rightarrow>
          (case skip_ws r of
             [] \<Rightarrow> None
           | c # r' \<Rightarrow>
               if c \<noteq> CHR '':'' then None
               else (let raw = trim r' in
                 if raw \<noteq> [] \<and> hd raw \<in> set ''[{'' then None else Some (k, JsText (scalar_value raw)))))"

text \<open>The pieces of a flow sequence or map, less the empty one after a trailing comma.\<close>

definition flow_pieces :: "string \<Rightarrow> string list" where
  "flow_pieces s = (let ps = map trim (split_top_level s) in if ps \<noteq> [] \<and> last ps = [] then butlast ps else ps)"

definition flow_item :: "string \<Rightarrow> attrs option" where
  "flow_item item =
     (if item = [] \<or> hd item \<noteq> CHR ''{'' \<or> last item \<noteq> CHR ''}'' then None
      else case all_some (map flow_pair (flow_pieces (inner item))) of None \<Rightarrow> None | Some ms \<Rightarrow> edge_of_map [] ms)"

definition parse_inline_edges :: "string \<Rightarrow> attrs list option" where
  "parse_inline_edges v =
     (let t = trim v in
      if t = ''[]'' \<or> t = ''~'' \<or> t = ''null'' then Some []
      else if t \<noteq> [] \<and> hd t = CHR ''{'' then parse_edges_object t
      else if t = [] \<or> hd t \<noteq> CHR ''['' \<or> last t \<noteq> CHR '']'' then None
      else case json_parse t of
        Some j \<Rightarrow> (case j of JsList items \<Rightarrow> edges_from_items items | _ \<Rightarrow> None)
      | None \<Rightarrow> all_some (map flow_item (flow_pieces (inner t))))"

subsection \<open>The line grammar\<close>

definition list_fields :: "string list" where
  "list_fields = [''pin'', ''exclude'', ''queue_mute'', ''commits'', ''slugs'', ''fingerprints'', ''roles'', ''tags'',
     ''applies_to_tags'', ''applies_to_repos'', ''applies_to_projects'', ''couples_when'', ''couples_also'',
     ''skills'', ''plugins'', ''mcp'', ''requires'', ''failing_tests'', ''covers_tests'']"

text \<open>\<open>KV_RE\<close>, \<open>/^(\w[\w-]*):\s*(.*)$/\<close>.\<close>

definition kv_match :: "string \<Rightarrow> (string \<times> string) option" where
  "kv_match line =
     (let k = takeWhile is_token line; r = dropWhile is_token line in
      if k \<noteq> [] \<and> is_word (hd k) \<and> r \<noteq> [] \<and> hd r = CHR '':'' \<and> CR \<notin> set (skip_ws (tl r))
      then Some (k, skip_ws (tl r)) else None)"

text \<open>\<open>LIST_FIELD_RE\<close>: a list key and the text between its brackets.\<close>

definition list_match :: "string \<Rightarrow> (string \<times> string) option" where
  "list_match line =
     (let k = takeWhile is_token line; r = dropWhile is_token line in
      if k \<notin> set list_fields \<or> r = [] \<or> hd r \<noteq> CHR '':'' then None
      else case skip_ws (tl r) of
        [] \<Rightarrow> None
      | c # cs \<Rightarrow> if c = CHR ''['' \<and> CHR '']'' \<in> set cs then Some (k, takeWhile (\<lambda>x. x \<noteq> CHR '']'') cs) else None)"

text \<open>\<open>FLOW_EDGE_RE\<close>: the attributes after the target, then the whole edge at the head of the
  text, then the first place of the line where it matches.\<close>

definition flow_attr :: "string \<Rightarrow> ((string \<times> string) \<times> string) option" where
  "flow_attr s =
     (case skip_ws s of
        [] \<Rightarrow> None
      | c # r \<Rightarrow>
          (let r1 = skip_ws r; k = takeWhile is_token r1; r2 = dropWhile is_token r1 in
           if c \<noteq> CHR '','' \<or> k = [] \<or> r2 = [] \<or> hd r2 \<noteq> CHR '':'' then None
           else
             (let r3 = skip_ws (tl r2); v = takeWhile is_token r3 in
              if v = [] then None else Some ((k, v), dropWhile is_token r3))))"

lemma length_skip_ws: "length (skip_ws s) \<le> length s"
  by (simp add: skip_ws_def length_dropWhile_le)

lemma flow_attr_shorter:
  assumes "flow_attr s = Some (kv, r)"
  shows "length r < length s"
proof -
  obtain c t where c: "skip_ws s = c # t"
    using assms by (cases "skip_ws s") (auto simp: flow_attr_def)
  let ?r2 = "dropWhile is_token (skip_ws t)"
  have "r = dropWhile is_token (skip_ws (tl ?r2))"
    using assms by (auto simp: flow_attr_def c Let_def split: if_splits)
  also have "length \<dots> \<le> length (tl ?r2)"
    using length_dropWhile_le length_skip_ws le_trans by blast
  also have "\<dots> \<le> length ?r2" by simp
  also have "\<dots> \<le> length t"
    using length_dropWhile_le length_skip_ws le_trans by blast
  also have "\<dots> < length (skip_ws s)" by (simp add: c)
  also have "\<dots> \<le> length s" by (rule length_skip_ws)
  finally show ?thesis .
qed

function flow_attrs :: "string \<Rightarrow> attrs \<times> string" where
  "flow_attrs s =
     (case flow_attr s of
        None \<Rightarrow> ([], s)
      | Some (kv, r) \<Rightarrow> (let (as, rest) = flow_attrs r in (kv # as, rest)))"
  by pat_completeness auto
termination by (relation "measure length") (auto dest: flow_attr_shorter)

declare flow_attrs.simps [simp del]

definition flow_at :: "string \<Rightarrow> attrs option" where
  "flow_at s =
     (case s of
        [] \<Rightarrow> None
      | c # r \<Rightarrow>
          if c \<noteq> CHR ''-'' then None
          else case after ''{type:'' (skip_ws r) of
            None \<Rightarrow> None
          | Some r1 \<Rightarrow>
              (let r2 = skip_ws r1; t = takeWhile is_token r2; r3 = dropWhile is_token r2 in
               if t = [] \<or> r3 = [] \<or> hd r3 \<noteq> CHR '','' then None
               else
                 (let r4 = skip_ws (tl r3) in
                  case (case after ''to:'' r4 of Some x \<Rightarrow> Some x | None \<Rightarrow> after ''target:'' r4) of
                    None \<Rightarrow> None
                  | Some r5 \<Rightarrow>
                      (let r6 = skip_ws r5; u = takeWhile is_token r6; (as, rest) = flow_attrs (dropWhile is_token r6) in
                       if u = [] \<or> rest = [] \<or> hd rest \<noteq> CHR ''}'' then None
                       else Some (foldl (\<lambda>e (k, v). set_prop k v e) [(''type'', t), (''to'', u)] as)))))"

fun flow_match :: "string \<Rightarrow> attrs option" where
  "flow_match [] = None"
| "flow_match (c # cs) = (case flow_at (c # cs) of Some e \<Rightarrow> Some e | None \<Rightarrow> flow_match cs)"

declare flow_match.simps [simp del]

text \<open>\<open>BLOCK_OPEN_RE\<close>, \<open>BLOCK_CONT_RE\<close>, \<open>LIST_ITEM_RE\<close>, \<open>CONT_RE\<close>.\<close>

definition dash_item :: "string \<Rightarrow> string option" where
  "dash_item line =
     (case skip_ws line of c # d # r \<Rightarrow> if c = CHR ''-'' \<and> is_space d then Some (skip_ws r) else None | _ \<Rightarrow> None)"

definition block_open :: "string \<Rightarrow> (string \<times> string) option" where
  "block_open line = (case dash_item line of None \<Rightarrow> None | Some t \<Rightarrow> kv_match t)"

definition block_cont :: "string \<Rightarrow> (string \<times> string) option" where
  "block_cont line = (if line \<noteq> [] \<and> is_space (hd line) then kv_match (skip_ws line) else None)"

definition list_item :: "string \<Rightarrow> string option" where
  "list_item line = (case dash_item line of None \<Rightarrow> None | Some t \<Rightarrow> if t = [] \<or> CR \<in> set t then None else Some t)"

definition cont_match :: "string \<Rightarrow> string option" where
  "cont_match line =
     (let t = skip_ws line in if line = [] \<or> \<not> is_space (hd line) \<or> t = [] \<or> CR \<in> set t then None else Some t)"

definition blank_or_comment :: "string \<Rightarrow> bool" where
  "blank_or_comment line \<longleftrightarrow> trim line = [] \<or> hd (trim line) = CHR ''#''"

subsection \<open>The lexer\<close>

datatype line_entry_kind = ScalarEntry | ListEntry | EdgesEntry
datatype edge_form = FlowForm | BlockForm | InlineForm

text \<open>Ranges are \<open>[from, upto)\<close> over the lines.\<close>

record line_entry =
  en_kind :: line_entry_kind
  en_key :: string
  en_form :: "edge_form option"
  en_from :: nat
  en_upto :: nat
  en_inline :: "(nat \<times> nat) option"

record edge_entry =
  ee_edge :: attrs
  ee_form :: edge_form
  ee_from :: nat
  ee_upto :: nat

text \<open>The lexer's variables. The open top-level entry \<open>cur\<close> is the last of \<open>lx_entries\<close>;
  \<open>lx_buf\<close> is the block-form edge under construction with the line it started on. A note
  (an \<open>{outbound, inbound}\<close> object was read) is its line and the number of edges read.\<close>

record lex =
  lx_fields :: "(string \<times> field_value) list"
  lx_entries :: "line_entry list"
  lx_edges :: "edge_entry list"
  lx_faults :: "(nat \<times> string) list"
  lx_notes :: "(nat \<times> nat) list"
  lx_last_key :: "string option"
  lx_last_raw :: string
  lx_block_key :: "string option"
  lx_in_edges :: bool
  lx_buf :: "(attrs \<times> nat) option"

definition empty_lex :: lex where
  "empty_lex = \<lparr>lx_fields = [], lx_entries = [], lx_edges = [], lx_faults = [], lx_notes = [], lx_last_key = None,
     lx_last_raw = [], lx_block_key = None, lx_in_edges = False, lx_buf = None\<rparr>"

text \<open>\<open>fault\<close>: strict mode throws the message, lenient mode records it.\<close>

definition fault :: "bool \<Rightarrow> string \<Rightarrow> nat \<Rightarrow> string \<Rightarrow> lex \<Rightarrow> string + lex" where
  "fault lenient file i msg st =
     (if lenient then Inr (st\<lparr>lx_faults := lx_faults st @ [(i, msg)]\<rparr>) else Inl (msg @ '' in '' @ file))"

definition extend_entry :: "nat \<Rightarrow> lex \<Rightarrow> lex" where
  "extend_entry i st =
     (if lx_entries st = [] then st
      else st\<lparr>lx_entries := butlast (lx_entries st) @ [(last (lx_entries st))\<lparr>en_upto := i + 1\<rparr>]\<rparr>)"

definition open_entry :: "line_entry \<Rightarrow> lex \<Rightarrow> lex" where
  "open_entry e st = st\<lparr>lx_entries := lx_entries st @ [e]\<rparr>"

definition json_attrs :: "attrs \<Rightarrow> string" where
  "json_attrs e = ''{'' @ join '','' (map (\<lambda>(k, v). json_text k @ '':'' @ json_text v) e) @ ''}''"

definition flush_buf :: "bool \<Rightarrow> string \<Rightarrow> nat \<Rightarrow> lex \<Rightarrow> string + lex" where
  "flush_buf lenient file i st =
     (case lx_buf st of
        None \<Rightarrow> Inr st
      | Some (eb, from) \<Rightarrow>
          (if \<not> is_edge eb then fault lenient file from (''unparseable edge entry '' @ json_attrs eb) (st\<lparr>lx_buf := None\<rparr>)
           else Inr (st\<lparr>lx_buf := None, lx_edges := lx_edges st @ [\<lparr>ee_edge = eb, ee_form = BlockForm, ee_from = from, ee_upto = i\<rparr>]\<rparr>)))"

text \<open>Read a value that spans lines up to its closing bracket: the value and how many lines it took.\<close>

fun gather :: "string \<Rightarrow> nat \<Rightarrow> string list \<Rightarrow> string \<times> nat" where
  "gather v n [] = (v, n)"
| "gather v n (l # ls) = (if flow_closed v then (v, n) else gather (v @ LF # strip_flow_comment l) (n + 1) ls)"

text \<open>The lines of a refused, unclosed value before the next top-level key.\<close>

definition top_key :: "string \<Rightarrow> bool" where
  "top_key l \<longleftrightarrow> kv_match l \<noteq> None \<or> list_match l \<noteq> None"

text \<open>\<open>s.replace(/\s*\n\s*/g, " ")\<close>: a run of white space that holds a line break is one space.\<close>

function (sequential) fold_breaks :: "string \<Rightarrow> string" where
  "fold_breaks [] = []"
| "fold_breaks (c # cs) =
     (if is_space c then
        (let run = c # takeWhile is_space cs in (if LF \<in> set run then '' '' else run) @ fold_breaks (dropWhile is_space cs))
      else c # fold_breaks cs)"
  by pat_completeness auto
termination by (relation "measure length") (auto simp: le_imp_less_Suc length_dropWhile_le)

text \<open>The value on an \<open>edges:\<close> header.\<close>

definition lex_inline :: "bool \<Rightarrow> string \<Rightarrow> nat \<Rightarrow> string \<Rightarrow> string list \<Rightarrow> lex \<Rightarrow> string + lex \<times> nat" where
  "lex_inline lenient file i v0 rest st =
     (let (v, n) = (if hd v0 \<in> set ''[{'' then gather v0 0 rest else (v0, 0)) in
      case parse_inline_edges v of
        None \<Rightarrow>
          (case fault lenient file i (''unparseable inline edges list '' @ json_text (fold_breaks v)) st of
             Inl msg \<Rightarrow> Inl msg
           | Inr st' \<Rightarrow>
               (let k = (if flow_closed v then n else length (takeWhile (\<lambda>l. \<not> top_key l) (take n rest)))
                in Inr (extend_entry (i + k) st', k)))
      | Some parsed \<Rightarrow>
          (let st1 = extend_entry (i + n) st;
               e = (last (lx_entries st1))\<lparr>en_inline := Some (i, i + n + 1)\<rparr>;
               rows = map (\<lambda>x. \<lparr>ee_edge = x, ee_form = InlineForm, ee_from = i, ee_upto = i + n + 1\<rparr>) parsed
           in Inr (st1\<lparr>lx_entries := butlast (lx_entries st1) @ [e],
                       lx_edges := lx_edges st1 @ rows,
                       lx_notes := lx_notes st1 @ (if hd v = CHR ''{'' then [(i, length parsed)] else [])\<rparr>, n)))"

definition lex_key :: "bool \<Rightarrow> string \<Rightarrow> nat \<Rightarrow> string \<Rightarrow> string \<Rightarrow> string list \<Rightarrow> lex \<Rightarrow> string + lex \<times> nat" where
  "lex_key lenient file i k v rest st =
     (if k = ''edges'' then
        (let st1 = (open_entry \<lparr>en_kind = EdgesEntry, en_key = k, en_form = None, en_from = i, en_upto = i + 1, en_inline = None\<rparr> st)
                     \<lparr>lx_in_edges := True, lx_last_key := None, lx_block_key := None\<rparr>;
             v0 = strip_flow_comment (trim v)
         in if v0 = [] then Inr (st1, 0) else lex_inline lenient file i v0 rest st1)
      else if k \<in> set list_fields \<and> trim v = [] then
        Inr ((open_entry \<lparr>en_kind = ListEntry, en_key = k, en_form = Some BlockForm, en_from = i, en_upto = i + 1, en_inline = None\<rparr> st)
               \<lparr>lx_in_edges := False, lx_fields := set_prop k (Items []) (lx_fields st), lx_last_key := Some k, lx_block_key := Some k\<rparr>, 0)
      else
        Inr ((open_entry \<lparr>en_kind = ScalarEntry, en_key = k, en_form = None, en_from = i, en_upto = i + 1, en_inline = None\<rparr> st)
               \<lparr>lx_in_edges := False, lx_fields := set_prop k (Flat (scalar_value v)) (lx_fields st), lx_last_key := Some k,
                lx_last_raw := v, lx_block_key := None\<rparr>, 0))"

definition on_field :: "string \<Rightarrow> (field_value \<Rightarrow> field_value) \<Rightarrow> lex \<Rightarrow> lex" where
  "on_field k f st =
     (case map_of (lx_fields st) k of
        None \<Rightarrow> st
      | Some v \<Rightarrow> st\<lparr>lx_fields := AList.update k (f v) (lx_fields st)\<rparr>)"

fun push_item :: "string \<Rightarrow> field_value \<Rightarrow> field_value" where
  "push_item x (Items xs) = Items (xs @ [x])"
| "push_item x v = v"

fun append_text :: "string \<Rightarrow> field_value \<Rightarrow> field_value" where
  "append_text x (Flat s) = Flat (s @ x)"
| "append_text x v = v"

text \<open>Whether a quoted scalar is whole: \<open>"([^"\\]|\\.)*"\<close> or \<open>'([^']|'')*'\<close>.\<close>

fun closed_double :: "string \<Rightarrow> bool" where
  "closed_double [] = False"
| "closed_double [c] = (c = DQ)"
| "closed_double (c # d # s) = (if c = BS then closed_double s else c \<noteq> DQ \<and> closed_double (d # s))"

fun closed_single :: "string \<Rightarrow> bool" where
  "closed_single [] = False"
| "closed_single [c] = (c = SQ)"
| "closed_single (c # d # s) = (if c = SQ then d = SQ \<and> closed_single s else closed_single (d # s))"

definition whole_quoted :: "string \<Rightarrow> bool" where
  "whole_quoted t \<longleftrightarrow> (hd t = DQ \<and> closed_double (tl t)) \<or> (hd t = SQ \<and> closed_single (tl t))"

definition lex_continuation :: "nat \<Rightarrow> string \<Rightarrow> string \<Rightarrow> lex \<Rightarrow> lex" where
  "lex_continuation i k c st =
     (let t = trim (lx_last_raw st) in
      if t \<noteq> [] \<and> is_quote (hd t) \<and> \<not> whole_quoted t then
        (let raw = lx_last_raw st @ '' '' @ trim c
         in extend_entry i ((st\<lparr>lx_last_raw := raw, lx_fields := set_prop k (Flat (scalar_value raw)) (lx_fields st)\<rparr>)))
      else extend_entry i (on_field k (append_text ('' '' @ trim c)) st))"

text \<open>A line inside an \<open>edges:\<close> block.\<close>

definition lex_edge_line :: "bool \<Rightarrow> string \<Rightarrow> nat \<Rightarrow> string \<Rightarrow> lex \<Rightarrow> string + lex" where
  "lex_edge_line lenient file i line st =
     (case block_open line of
        Some (k, v) \<Rightarrow>
          (case flush_buf lenient file i st of
             Inl msg \<Rightarrow> Inl msg
           | Inr st' \<Rightarrow> Inr (extend_entry i (st'\<lparr>lx_buf := Some (set_prop (edge_key k) (scalar_value (trim v)) [], i)\<rparr>)))
      | None \<Rightarrow>
          (case (case lx_buf st of None \<Rightarrow> None | Some b \<Rightarrow> map_option (Pair b) (block_cont line)) of
             Some ((eb, from), (k, v)) \<Rightarrow>
               Inr (extend_entry i (st\<lparr>lx_buf := Some (set_prop (edge_key k) (scalar_value (trim v)) eb, from)\<rparr>))
           | None \<Rightarrow>
               if blank_or_comment line then Inr (extend_entry i st)
               else fault lenient file i (''unparseable edge entry '' @ [DQ] @ trim line @ [DQ]) st))"

text \<open>The body of the line loop: the new state and how many further lines it consumed.\<close>

definition lex_line :: "bool \<Rightarrow> string \<Rightarrow> nat \<Rightarrow> string \<Rightarrow> string list \<Rightarrow> lex \<Rightarrow> string + lex \<times> nat" where
  "lex_line lenient file i line rest st =
     (case list_match line of
        Some (k, body) \<Rightarrow>
          (case flush_buf lenient file i st of
             Inl msg \<Rightarrow> Inl msg
           | Inr st' \<Rightarrow>
               Inr ((open_entry \<lparr>en_kind = ListEntry, en_key = k, en_form = Some InlineForm, en_from = i, en_upto = i + 1, en_inline = None\<rparr> st')
                 \<lparr>lx_in_edges := False,
                  lx_fields := set_prop k (Items (filter (\<lambda>s. s \<noteq> []) (map trim (split_at (CHR '','') body)))) (lx_fields st'),
                  lx_last_key := None, lx_block_key := None\<rparr>, 0))
      | None \<Rightarrow>
      (case kv_match line of
        Some (k, v) \<Rightarrow>
          (case flush_buf lenient file i st of
             Inl msg \<Rightarrow> Inl msg
           | Inr st' \<Rightarrow> lex_key lenient file i k v rest st')
      | None \<Rightarrow>
      (case flow_match line of
        Some e \<Rightarrow>
          (case flush_buf lenient file i st of
             Inl msg \<Rightarrow> Inl msg
           | Inr st' \<Rightarrow>
               (let st1 = st'\<lparr>lx_edges := lx_edges st' @ [\<lparr>ee_edge = e, ee_form = FlowForm, ee_from = i, ee_upto = i + 1\<rparr>]\<rparr>
                in Inr (if lx_in_edges st1 then extend_entry i st1 else st1, 0)))
      | None \<Rightarrow>
          if lx_in_edges st then
            (case lex_edge_line lenient file i line st of Inl msg \<Rightarrow> Inl msg | Inr st' \<Rightarrow> Inr (st', 0))
          else (case lx_block_key st of
              Some k \<Rightarrow>
                (case list_item line of
                   Some x \<Rightarrow> Inr (extend_entry i (on_field k (push_item (scalar_value (trim x))) st), 0)
                 | None \<Rightarrow> Inr (st, 0))
            | None \<Rightarrow>
                (case (cont_match line, lx_last_key st) of
                   (Some c, Some k) \<Rightarrow> Inr (lex_continuation i k c st, 0)
                 | _ \<Rightarrow> Inr (st, 0))))))"

function (sequential) lex_lines :: "bool \<Rightarrow> string \<Rightarrow> nat \<Rightarrow> string list \<Rightarrow> lex \<Rightarrow> string + lex" where
  "lex_lines lenient file i [] st = flush_buf lenient file i st"
| "lex_lines lenient file i (line # rest) st =
     (case lex_line lenient file i line rest st of
        Inl msg \<Rightarrow> Inl msg
      | Inr (st', n) \<Rightarrow> lex_lines lenient file (i + 1 + n) (drop n rest) st')"
  by pat_completeness auto
termination by (relation "measure (\<lambda>(l, f, i, ls, st). length ls)") auto

definition lex_frontmatter :: "bool \<Rightarrow> string \<Rightarrow> string \<Rightarrow> string + lex" where
  "lex_frontmatter lenient file fm = lex_lines lenient file 0 (split_lines fm) empty_lex"

subsection \<open>The fence\<close>

record document =
  d_frontmatter :: string
  d_body :: string
  d_crlf :: bool
  d_fence_eol :: "string option"
  d_body_raw :: "string option"

text \<open>The text before the first closing fence line and the text after its dashes.\<close>

fun find_close :: "string \<Rightarrow> (string \<times> string) option" where
  "find_close [] = None"
| "find_close (c # cs) =
     (case after (LF # ''---'') (c # cs) of
        Some r \<Rightarrow> Some ([], r)
      | None \<Rightarrow> map_option (\<lambda>(a, r). (c # a, r)) (find_close cs))"

text \<open>The same on the raw text, whose line breaks may be \<open>\r\n\<close>: also the break before the fence.\<close>

definition eol_prefix :: "string \<Rightarrow> (string \<times> string) option" where
  "eol_prefix s =
     (case after [CR, LF] s of Some r \<Rightarrow> Some ([CR, LF], r) | None \<Rightarrow> map_option (Pair [LF]) (after [LF] s))"

fun find_close_raw :: "string \<Rightarrow> (string \<times> string \<times> string) option" where
  "find_close_raw [] = None"
| "find_close_raw (c # cs) =
     (case (case eol_prefix (c # cs) of None \<Rightarrow> None | Some (nl, r) \<Rightarrow> map_option (Pair nl) (after ''---'' r)) of
        Some (nl, r) \<Rightarrow> Some ([], nl, r)
      | None \<Rightarrow> map_option (\<lambda>(a, p). (c # a, p)) (find_close_raw cs))"

fun has_crlf :: "string \<Rightarrow> bool" where
  "has_crlf (c # d # s) = ((c = CR \<and> d = LF) \<or> has_crlf (d # s))"
| "has_crlf s = False"

definition split_document :: "string \<Rightarrow> document option" where
  "split_document raw =
     (case map_option find_close (after (''---'' @ [LF]) (fold_crlf raw)) of
        Some (Some (fm, r)) \<Rightarrow>
          (let body = (case r of [] \<Rightarrow> [] | c # cs \<Rightarrow> if c = LF then cs else r);
               (head, tail) = (case map_option eol_prefix (after ''---'' raw) of
                   Some (Some (nl1, t)) \<Rightarrow>
                     (case find_close_raw t of
                        Some (mid, nl2, t2) \<Rightarrow> (nl1 @ mid @ nl2, t2)
                      | None \<Rightarrow> ([], raw))
                 | _ \<Rightarrow> ([], raw));
               (eol, body_raw) = (case eol_prefix tail of Some p \<Rightarrow> p | None \<Rightarrow> ([], tail))
           in Some \<lparr>d_frontmatter = fm, d_body = body, d_crlf = has_crlf head, d_fence_eol = Some eol, d_body_raw = Some body_raw\<rparr>)
      | _ \<Rightarrow> None)"

text \<open>\<open>s.replace(/\n/g, nl)\<close>.\<close>

definition with_eol :: "string \<Rightarrow> string \<Rightarrow> string" where
  "with_eol nl s = concat (map (\<lambda>c. if c = LF then nl else [c]) s)"

definition join_document :: "document \<Rightarrow> string" where
  "join_document d =
     (let nl = (if d_crlf d then [CR, LF] else [LF]);
          head = with_eol nl (''---'' @ LF # d_frontmatter d @ LF # ''---'');
          eol = (case d_fence_eol d of None \<Rightarrow> nl | Some e \<Rightarrow> e);
          tail = (case d_body_raw d of
                    Some b \<Rightarrow> if fold_crlf b = d_body d then b else with_eol nl (d_body d)
                  | None \<Rightarrow> with_eol nl (d_body d))
      in head @ eol @ tail)"

subsection \<open>Reading\<close>

text \<open>A node: its edges and its other properties (\<open>pin\<close>, \<open>exclude\<close>, \<open>body\<close>, \<open>file\<close> first).\<close>

record node_file =
  nf_edges :: "attrs list"
  nf_props :: "(string \<times> field_value) list"

definition node_prop :: "node_file \<Rightarrow> string \<Rightarrow> field_value option" where
  "node_prop n k = map_of (nf_props n) k"

definition fold_node :: "lex \<Rightarrow> string \<Rightarrow> string \<Rightarrow> node_file" where
  "fold_node lx body file =
     (let props = foldl (\<lambda>ps (k, v). set_prop k v ps)
          [(''pin'', Items []), (''exclude'', Items []), (''body'', Flat (trim body)), (''file'', Flat file)] (lx_fields lx);
          props' = (case map_of props ''repo'' of
              None \<Rightarrow> props
            | Some v \<Rightarrow> if v = Missing then props else AList.update ''project'' v props)
      in \<lparr>nf_edges = map ee_edge (lx_edges lx), nf_props = props'\<rparr>)"

definition parse_frontmatter :: "string \<Rightarrow> string \<Rightarrow> string + node_file" where
  "parse_frontmatter raw file =
     (case split_document raw of
        None \<Rightarrow> Inl (''no frontmatter in '' @ file)
      | Some d \<Rightarrow>
          (case lex_frontmatter False file (d_frontmatter d) of
             Inl msg \<Rightarrow> Inl msg
           | Inr lx \<Rightarrow> Inr (fold_node lx (d_body d) file)))"

definition read_node :: "string \<Rightarrow> string \<Rightarrow> (node_file \<times> string list \<times> (nat \<times> nat) list) option" where
  "read_node raw file =
     (case split_document raw of
        None \<Rightarrow> None
      | Some d \<Rightarrow>
          (case lex_frontmatter True file (d_frontmatter d) of
             Inl msg \<Rightarrow> None
           | Inr lx \<Rightarrow> Some (fold_node lx (d_body d) file, map snd (lx_faults lx), lx_notes lx)))"

end
