(* ===== verification/NodeWriter.thy ===== *)
theory NodeWriter
  imports NodeFile
begin

text \<open>
  Writing node files, \<^verbatim>\<open>src/lib/kernel/frontmatter.js\<close>: the canonical serializer
  (\<open>serializeNode\<close>) and the editors that splice by the lexer's line ranges (\<open>withEdge\<close>,
  \<open>withoutEdge\<close>, \<open>withStamp\<close>, \<open>withKey\<close>, \<open>withKeyAfter\<close>).

  The values of a node are flat strings, lists of strings and null or undefined; the
  registry's renames are an argument. \<open>edge_line\<close> takes its attributes in the order
  \<open>Object.keys(attrs).sort()\<close> gives them.
\<close>

subsection \<open>Serialization\<close>

definition simple_token :: "string \<Rightarrow> bool" where
  "simple_token s \<longleftrightarrow> s \<noteq> [] \<and> list_all is_token s"

definition inline_safe :: "string \<Rightarrow> bool" where
  "inline_safe s \<longleftrightarrow> set s \<inter> {CHR '','', CHR ''['', CHR '']''} = {} \<and> s \<noteq> []
     \<and> \<not> is_quote (hd s) \<and> \<not> is_quote (last s) \<and> trim s = s"

text \<open>\<open>String(e[k])\<close>.\<close>

definition attr_text :: "attrs \<Rightarrow> string \<Rightarrow> string" where
  "attr_text e k = (case map_of e k of Some v \<Rightarrow> v | None \<Rightarrow> ''undefined'')"

definition extra_attrs :: "attrs \<Rightarrow> attrs" where
  "extra_attrs e = filter (\<lambda>(k, v). k \<noteq> ''type'' \<and> k \<noteq> ''to'' \<and> v \<noteq> []) e"

definition flow_tail :: "attrs \<Rightarrow> string" where
  "flow_tail as = concat (map (\<lambda>(k, v). '', '' @ k @ '': '' @ v) as)"

definition edge_line :: "string \<Rightarrow> string \<Rightarrow> attrs \<Rightarrow> string" where
  "edge_line t u as = ''  - {type: '' @ t @ '', to: '' @ u @ flow_tail (filter (\<lambda>(k, v). v \<noteq> []) as) @ ''}''"

definition flowable :: "attrs \<Rightarrow> bool" where
  "flowable e \<longleftrightarrow> simple_token (attr_text e ''type'') \<and> simple_token (attr_text e ''to'')
     \<and> list_all (\<lambda>(k, v). simple_token k \<and> simple_token v) (extra_attrs e)"

definition edge_entry_lines :: "attrs \<Rightarrow> string list" where
  "edge_entry_lines e =
     (if flowable e
      then [''  - {type: '' @ attr_text e ''type'' @ '', to: '' @ attr_text e ''to'' @ flow_tail (extra_attrs e) @ ''}'']
      else (''  - type: '' @ emit_scalar True (attr_text e ''type''))
         # (''    to: '' @ emit_scalar True (attr_text e ''to''))
         # map (\<lambda>(k, v). ''    '' @ k @ '': '' @ emit_scalar False v) (extra_attrs e))"

definition field_lines :: "string \<Rightarrow> field_value \<Rightarrow> string list" where
  "field_lines k v =
     (case v of
        Items items \<Rightarrow>
          (if items = [] then (if k = ''pin'' \<or> k = ''exclude'' then [] else [k @ '': []''])
           else if list_all inline_safe items then [k @ '': ['' @ join '', '' items @ '']'']
           else (k @ '':'') # map (\<lambda>x. ''  - '' @ emit_scalar True x) items)
      | Missing \<Rightarrow> []
      | Flat s \<Rightarrow> [k @ '': '' @ emit_scalar False s])"

text \<open>\<open>id\<close> and \<open>type\<close> first, then the keys in the node's own order; \<open>edges\<close>, \<open>body\<close> and \<open>file\<close>
  are set aside.\<close>

definition key_order :: "node_file \<Rightarrow> string list" where
  "key_order n = filter (\<lambda>k. k \<in> fst ` set (nf_props n) \<and> k \<noteq> ''body'' \<and> k \<noteq> ''file'')
     (dedup_acc [] (''id'' # ''type'' # map fst (nf_props n)))"

text \<open>The lines of the keys, and the edge lines still owed: \<open>edgesBefore\<close> emits them in place.\<close>

fun key_lines :: "node_file \<Rightarrow> string option \<Rightarrow> string list \<Rightarrow> string list \<Rightarrow> string list \<times> string list" where
  "key_lines n at_key owed [] = ([], owed)"
| "key_lines n at_key owed (k # ks) =
     (let own = (case node_prop n k of Some v \<Rightarrow> field_lines k v | None \<Rightarrow> []);
          now = (if at_key = Some k then owed else []);
          (ls, left) = key_lines n at_key (if at_key = Some k then [] else owed) ks
      in (now @ own @ ls, left))"

definition edges_lines :: "attrs list \<Rightarrow> string list" where
  "edges_lines es = (if es = [] then [] else ''edges:'' # concat (map edge_entry_lines es))"

definition body_text :: "node_file \<Rightarrow> string" where
  "body_text n = (case node_prop n ''body'' of Some (Flat s) \<Rightarrow> s | _ \<Rightarrow> [])"

definition front_lines :: "string option \<Rightarrow> node_file \<Rightarrow> string list" where
  "front_lines at_key n = (let (ls, left) = key_lines n at_key (edges_lines (nf_edges n)) (key_order n) in ls @ left)"

definition serialize_node :: "string option \<Rightarrow> bool \<Rightarrow> node_file \<Rightarrow> string" where
  "serialize_node at_key raw_body n =
     (let body = (if raw_body then body_text n else trim (body_text n))
      in ''---'' @ LF # join [LF] (front_lines at_key n) @ LF # ''---'' @ LF
           # (if body = [] then [] else LF # body @ [LF]))"

subsection \<open>Edge identity\<close>

definition canon_edge_type :: "(string \<Rightarrow> string option) \<Rightarrow> string \<Rightarrow> string" where
  "canon_edge_type renames t = (case renames t of Some r \<Rightarrow> (if r = [] then t else r) | None \<Rightarrow> t)"

definition same_edge :: "(string \<Rightarrow> string option) \<Rightarrow> attrs \<Rightarrow> attrs \<Rightarrow> bool" where
  "same_edge renames a b \<longleftrightarrow>
     canon_edge_type renames (attr a ''type'') = canon_edge_type renames (attr b ''type'') \<and> attr a ''to'' = attr b ''to''"

subsection \<open>Editors\<close>

text \<open>Remove \<open>[a, b)\<close> and put \<open>new\<close> there: \<open>lines.splice(a, b - a, ...new)\<close>.\<close>

definition splice :: "nat \<Rightarrow> nat \<Rightarrow> 'a list \<Rightarrow> 'a list \<Rightarrow> 'a list" where
  "splice a b new xs = take a xs @ new @ drop b xs"

definition lex_lenient :: "string \<Rightarrow> lex" where
  "lex_lenient fm = (case lex_frontmatter True ''node.md'' fm of Inr lx \<Rightarrow> lx | Inl _ \<Rightarrow> empty_lex)"

text \<open>An inline header becomes the block form of its own edges, last header first.\<close>

definition expand_header :: "lex \<Rightarrow> string list \<Rightarrow> line_entry \<Rightarrow> string list" where
  "expand_header lx ls h =
     (case en_inline h of
        None \<Rightarrow> ls
      | Some (a, b) \<Rightarrow>
          splice a b (''edges:'' # concat (map (edge_entry_lines \<circ> ee_edge)
            (filter (\<lambda>e. ee_form e = InlineForm \<and> ee_from e = a) (lx_edges lx)))) ls)"

text \<open>The lines and the lex an edit works on.\<close>

definition edit_view :: "bool \<Rightarrow> string \<Rightarrow> string list \<times> lex" where
  "edit_view expand fm =
     (let lx = lex_lenient fm;
          heads = filter (\<lambda>e. en_inline e \<noteq> None) (lx_entries lx)
      in if expand \<and> heads \<noteq> [] then
           (let ls = foldl (expand_header lx) (split_lines fm) (rev heads);
                text = join [LF] ls
            in (split_lines text, lex_lenient text))
         else (split_lines fm, lx))"

definition edit_document :: "bool \<Rightarrow> (string list \<Rightarrow> lex \<Rightarrow> string list option) \<Rightarrow> string \<Rightarrow> string option" where
  "edit_document expand edit raw =
     (case split_document raw of
        None \<Rightarrow> None
      | Some d \<Rightarrow>
          (case edit_view expand (d_frontmatter d) of (ls, lx) \<Rightarrow>
             map_option (\<lambda>ls'. join_document (d\<lparr>d_frontmatter := join [LF] ls'\<rparr>)) (edit ls lx)))"

text \<open>\<open>spliceRanges\<close>: highest first.\<close>

definition splice_ranges :: "(nat \<times> nat) list \<Rightarrow> string list \<Rightarrow> string list" where
  "splice_ranges rs ls = foldl (\<lambda>xs (a, b). splice a b [] xs) ls (rev (sort_key fst rs))"

definition entry_range :: "line_entry \<Rightarrow> nat \<times> nat" where
  "entry_range e = (en_from e, en_upto e)"

definition insert_edge :: "string \<Rightarrow> string list \<Rightarrow> lex \<Rightarrow> string list option" where
  "insert_edge line ls lx =
     (let keys = filter (\<lambda>e. en_kind e = EdgesEntry) (lx_entries lx);
          ends = map ee_upto (lx_edges lx)
      in if keys = [] then Some (ls @ [''edges:'', line])
         else (let header = en_from (last keys); edges_end = foldl max 0 ends;
                   at = (if header < edges_end then edges_end else header + 1)
               in Some (splice at at [line] ls)))"

definition with_edge :: "string \<Rightarrow> string \<Rightarrow> attrs \<Rightarrow> string \<Rightarrow> string option" where
  "with_edge t u as raw = edit_document True (insert_edge (edge_line t u as)) raw"

definition without_edge :: "(attrs \<Rightarrow> bool) \<Rightarrow> string \<Rightarrow> string option" where
  "without_edge p raw = edit_document True (\<lambda>ls lx.
     case List.find (\<lambda>e. p (ee_edge e)) (lx_edges lx) of
       None \<Rightarrow> None
     | Some hit \<Rightarrow> Some (splice_ranges [(ee_from hit, ee_upto hit)] ls)) raw"

definition with_stamp :: "string list \<Rightarrow> string list \<Rightarrow> string \<Rightarrow> string option" where
  "with_stamp keys stamp raw = edit_document False (\<lambda>ls lx.
     let kept = splice_ranges (map entry_range (filter (\<lambda>e. en_key e \<in> set keys) (lx_entries lx))) ls;
         core = dropWhile (\<lambda>l. l = []) (rev (dropWhile (\<lambda>l. l = []) (rev kept)))
     in Some (core @ stamp)) raw"

definition own_entries :: "string \<Rightarrow> lex \<Rightarrow> line_entry list" where
  "own_entries k lx = filter (\<lambda>e. en_key e = k \<and> en_kind e \<noteq> EdgesEntry) (lx_entries lx)"

definition with_key :: "string \<Rightarrow> string option \<Rightarrow> string \<Rightarrow> string option" where
  "with_key k value raw = edit_document False (\<lambda>ls lx.
     let own = own_entries k lx; cut = splice_ranges (map entry_range own) ls in
     case value of
       None \<Rightarrow> Some cut
     | Some v \<Rightarrow>
         (let line = k @ '': '' @ v in
          if own \<noteq> [] then Some (splice (en_from (hd own)) (en_from (hd own)) [line] cut)
          else (case List.find (\<lambda>e. en_kind e = EdgesEntry) (lx_entries lx) of
              Some e \<Rightarrow> Some (splice (en_from e) (en_from e) [line] ls)
            | None \<Rightarrow> Some (ls @ [line])))) raw"

definition with_key_after :: "string \<Rightarrow> string option \<Rightarrow> string list \<Rightarrow> string \<Rightarrow> string option" where
  "with_key_after k line anchors raw = edit_document False (\<lambda>ls lx.
     let own = own_entries k lx; cut = splice_ranges (map entry_range own) ls in
     case line of
       None \<Rightarrow> Some cut
     | Some l \<Rightarrow>
         (case rev (filter (\<lambda>e. en_key e \<in> set anchors \<and> en_kind e \<noteq> EdgesEntry) (lx_entries lx)) of
            [] \<Rightarrow> Some (cut @ [l])
          | anchor # _ \<Rightarrow>
              (let removed = sum_list (map (\<lambda>e. en_upto e - en_from e) (filter (\<lambda>e. en_upto e \<le> en_upto anchor) own));
                   at = en_upto anchor - removed
               in Some (splice at at [l] cut)))) raw"

end
