(* ===== verification/NodeScalar.thy ===== *)
theory NodeScalar
  imports NodeWriter
begin

text \<open>
  The scalar reader undoes the scalar writer: facts on white space, escapes and quoting that the
  round trip of a whole node file rests on.
\<close>

subsection \<open>White space\<close>

lemma trim_skip: "trim s = trim_end (skip_ws s)"
  by (simp add: trim_def trim_end_def skip_ws_def is_space_def [abs_def])

lemma skip_ws_id: "s = [] \<or> \<not> is_space (hd s) \<Longrightarrow> skip_ws s = s"
  by (cases s) (auto simp: skip_ws_def)

lemma trim_end_id: "s = [] \<or> \<not> is_space (last s) \<Longrightarrow> trim_end s = s"
  by (cases s rule: rev_cases) (auto simp: trim_end_def)

lemma skip_ws_head: "skip_ws s \<noteq> [] \<Longrightarrow> \<not> is_space (hd (skip_ws s))"
  by (simp add: skip_ws_def hd_dropWhile dropWhile_eq_Nil_conv)

lemma trim_end_last: "trim_end s \<noteq> [] \<Longrightarrow> \<not> is_space (last (trim_end s))"
  by (simp add: trim_end_def last_rev hd_dropWhile)

lemma trim_end_append: "\<exists>w. s = trim_end s @ w"
proof -
  have "rev s = takeWhile is_space (rev s) @ dropWhile is_space (rev s)" by simp
  then have "rev (rev s) = rev (dropWhile is_space (rev s)) @ rev (takeWhile is_space (rev s))"
    by (metis rev_append)
  then show ?thesis by (auto simp: trim_end_def)
qed

lemma trim_end_head: "trim_end s \<noteq> [] \<Longrightarrow> hd (trim_end s) = hd s"
  using trim_end_append [of s] by (metis hd_append2)

lemma trimmed_ends:
  assumes "trim s = s" and "s \<noteq> []"
  shows "\<not> is_space (hd s)" and "\<not> is_space (last s)"
proof -
  have end': "trim_end (skip_ws s) = s" using assms by (simp add: trim_skip)
  then have "skip_ws s \<noteq> []" using assms(2) by (auto simp: trim_end_def)
  with end' show "\<not> is_space (hd s)"
    using trim_end_head [of "skip_ws s"] skip_ws_head [of s] assms(2) by simp
  show "\<not> is_space (last s)"
    using trim_end_last [of "skip_ws s"] assms(2) end' by simp
qed

lemma trim_id: "s = [] \<or> (\<not> is_space (hd s) \<and> \<not> is_space (last s)) \<Longrightarrow> trim s = s"
  by (auto simp: trim_skip skip_ws_id trim_end_id)

lemma set_trim: "set (trim s) \<subseteq> set s"
  unfolding trim_def by (metis set_dropWhileD set_rev subsetI)

lemma not_ws [simp]:
  "\<not> is_space DQ" "\<not> is_space SQ" "\<not> is_space (CHR ''-'')" "\<not> is_space (CHR ''['')" "\<not> is_space (CHR ''{'')" "\<not> is_space (CHR '','')"
  "\<not> is_space (CHR '':'')" "\<not> is_space (CHR '']'')" "\<not> is_space (CHR ''}'')" "\<not> is_space (CHR ''t'')" "\<not> is_space (CHR ''e'')"
  by (simp_all add: is_space_def ws_chars_def)

lemma blank_ws [simp]: "is_space (CHR '' '')" "is_space LF" "is_space CR"
  by (simp_all add: is_space_def ws_chars_def)

lemma token_not_ws: "is_token c \<Longrightarrow> \<not> is_space c"
  by (auto simp: is_token_def is_word_def is_digit_def is_space_def ws_chars_def)

lemma token_plain:
  "\<not> is_token LF" "\<not> is_token CR" "\<not> is_token (CHR '':'')" "\<not> is_token (CHR '','')" "\<not> is_token (CHR '' '')"
  "\<not> is_token (CHR ''}'')" "\<not> is_token (CHR '']'')" "\<not> is_token DQ" "\<not> is_token (CHR ''{'')" "\<not> is_token (CHR ''['')"
  by (simp_all add: is_token_def is_word_def is_digit_def)

subsection \<open>One line\<close>

lemma fold_crlf_id: "LF \<notin> set s \<Longrightarrow> fold_crlf s = s"
  by (induction s rule: fold_crlf.induct) auto

lemma fold_crlf_no_cr: "CR \<notin> set s \<Longrightarrow> fold_crlf s = s"
  by (induction s rule: fold_crlf.induct) auto

lemma one_line_id: "LF \<notin> set s \<Longrightarrow> folded_line s = s"
  unfolding folded_line_def by (subst fold_crlf_id) (auto intro: map_idI)

lemma one_line_no_lf: "LF \<notin> set (folded_line s)"
  by (auto simp: folded_line_def)

lemma one_line_idem [simp]: "folded_line (folded_line s) = folded_line s"
  by (simp add: one_line_id one_line_no_lf)

lemma fold_crlf_Nil: "fold_crlf s = [] \<longleftrightarrow> s = []"
  by (induction s rule: fold_crlf.induct) auto

lemma one_line_Nil [simp]: "folded_line s = [] \<longleftrightarrow> s = []"
  by (simp add: folded_line_def fold_crlf_Nil)

lemma one_line_empty [simp]: "folded_line [] = []"
  by simp

subsection \<open>Escapes\<close>

lemma unescape_plain: "c \<noteq> BS \<Longrightarrow> unescape_double (c # s) = c # unescape_double s"
  by (cases s) auto

lemma char_below_32:
  assumes "(of_char c :: nat) < 32"
  shows "from_char_code (parse_hex [CHR ''0'', CHR ''0'', hex_char (of_char c div 16), hex_char (of_char c mod 16)]) = [c]"
    and "list_all is_hex_digit [CHR ''0'', CHR ''0'', hex_char (of_char c div 16), hex_char (of_char c mod 16)]"
proof -
  define n where "n = (of_char c :: nat)"
  have n: "n < 32" and c: "c = char_of n" using assms by (auto simp: n_def)
  have "n \<in> set [0..<32]" using n by simp
  then have "parse_hex [CHR ''0'', CHR ''0'', hex_char (n div 16), hex_char (n mod 16)] = n
      \<and> list_all is_hex_digit [CHR ''0'', CHR ''0'', hex_char (n div 16), hex_char (n mod 16)]"
    by (simp add: upt_rec_numeral upt_rec) (elim disjE; simp; code_simp)
  then show "from_char_code (parse_hex [CHR ''0'', CHR ''0'', hex_char (of_char c div 16), hex_char (of_char c mod 16)]) = [c]"
    and "list_all is_hex_digit [CHR ''0'', CHR ''0'', hex_char (of_char c div 16), hex_char (of_char c mod 16)]"
    using n by (simp_all add: from_char_code_def c n_def [symmetric])
qed

lemma unescape_escape: "unescape_double (json_escape c @ s) = c # unescape_double s"
proof -
  have "(of_char c :: nat) < 32 \<Longrightarrow>
      unescape_double (BS # CHR ''u'' # CHR ''0'' # CHR ''0'' # hex_char (of_char c div 16) # hex_char (of_char c mod 16) # s) = c # unescape_double s"
    using char_below_32 [of c] by (simp add: hex_run_def)
  then show ?thesis
    by (auto simp: json_escape_def unescape_plain dq_escapes_def)
qed

lemma unescape_json: "unescape_double (concat (map json_escape s)) = s"
  by (induction s) (auto simp: unescape_escape)

lemma trim_json_text [simp]: "trim (json_text s) = json_text s"
  by (rule trim_id) (simp add: json_text_def)

lemma scalar_json_text: "scalar_value (json_text s) = s"
proof -
  have "wrapped_in DQ (json_text s)" "inner (json_text s) = concat (map json_escape s)"
    by (auto simp: wrapped_in_def json_text_def inner_def butlast_append)
  then show ?thesis by (simp add: scalar_value_def unescape_json)
qed

lemma escape_plain: "LF \<notin> set (json_escape c)" "CR \<notin> set (json_escape c)"
proof -
  have hex: "\<not> is_hex_digit LF" "\<not> is_hex_digit CR" by (simp_all add: is_hex_digit_def is_digit_def)
  have "(of_char c :: nat) < 32 \<Longrightarrow> x \<in> {hex_char (of_char c div 16), hex_char (of_char c mod 16)} \<Longrightarrow> is_hex_digit x" for x
    using char_below_32 (2) [of c] by auto
  with hex show "LF \<notin> set (json_escape c)" "CR \<notin> set (json_escape c)"
    by (auto simp: json_escape_def)
qed

lemma json_text_plain: "LF \<notin> set (json_text s)" "CR \<notin> set (json_text s)"
  using escape_plain by (auto simp: json_text_def)

subsection \<open>The writer and the reader\<close>

lemma scalar_empty [simp]: "scalar_value [] = []"
  by (simp add: scalar_value_def trim_def wrapped_in_def unquote_def)

lemma scalar_emit: "scalar_value (emit_scalar q s) = folded_line s"
proof -
  have "scalar_value [DQ, DQ] = []" by code_simp
  then show ?thesis by (simp add: emit_scalar_def Let_def scalar_json_text)
qed

lemma emit_trim [simp]: "trim (emit_scalar q s) = emit_scalar q s"
proof -
  have "trim [DQ, DQ] = [DQ, DQ]" "trim [] = []" by code_simp+
  then show ?thesis by (simp add: emit_scalar_def Let_def)
qed

lemma emit_one_line [simp]: "emit_scalar q (folded_line s) = emit_scalar q s"
  by (simp add: emit_scalar_def)

lemma emit_no_lf: "LF \<notin> set (emit_scalar q s)"
  by (simp add: emit_scalar_def Let_def json_text_plain one_line_no_lf)

lemma emit_no_cr: "CR \<notin> set (folded_line s) \<Longrightarrow> CR \<notin> set (emit_scalar q s)"
  by (simp add: emit_scalar_def Let_def json_text_plain)

lemma emit_Nil: "emit_scalar q s = [] \<longleftrightarrow> s = [] \<and> \<not> q"
  by (simp add: emit_scalar_def Let_def json_text_def)

lemma emit_skip [simp]: "skip_ws (emit_scalar q s) = emit_scalar q s"
  using trimmed_ends [OF emit_trim] by (intro skip_ws_id) auto

end
