(* ===== verification/NodeLines.thy ===== *)
theory NodeLines
  imports NodeScalar
begin

text \<open>
  The lexer on the lines the serializer writes: one lemma per kind of line, then one per field and
  per edge. A run of lines \<open>lex_steps\<close> the lexer from one state to another whatever follows.
\<close>

subsection \<open>Single lines\<close>

lemma take_key [simp]:
  "list_all is_token k \<Longrightarrow> \<not> is_token c \<Longrightarrow> takeWhile is_token (k @ c # r) = k"
  "list_all is_token k \<Longrightarrow> \<not> is_token c \<Longrightarrow> dropWhile is_token (k @ c # r) = c # r"
  by (induction k) auto

lemma skip_blank [simp]: "skip_ws (CHR '' '' # s) = skip_ws s"
  by (simp add: skip_ws_def)

lemma skip_token [simp]: "list_all is_token k \<Longrightarrow> k \<noteq> [] \<Longrightarrow> skip_ws (k @ r) = k @ r"
  by (cases k) (auto simp: skip_ws_def token_not_ws)

lemma skip_solid [simp]: "\<not> is_space c \<Longrightarrow> skip_ws (c # s) = c # s"
  by (simp add: skip_ws_def)

lemma skip_Nil [simp]: "skip_ws [] = []"
  by (simp add: skip_ws_def)

lemma token_list: "key_token k \<Longrightarrow> list_all is_token k \<and> k \<noteq> [] \<and> is_word (hd k)"
  by (simp add: key_token_def)

lemma kv_line:
  "key_token k \<Longrightarrow> CR \<notin> set (skip_ws r) \<Longrightarrow> kv_match (k @ CHR '':'' # r) = Some (k, skip_ws r)"
  by (simp add: kv_match_def token_plain token_list)

lemma list_line_None:
  "list_all is_token k \<Longrightarrow> k \<notin> set list_fields \<Longrightarrow> list_match (k @ CHR '':'' # r) = None"
  by (simp add: list_match_def token_plain)

lemma list_line_unlisted: "list_all is_token k \<Longrightarrow> skip_ws r = [] \<or> hd (skip_ws r) \<noteq> CHR ''['' \<Longrightarrow> list_match (k @ CHR '':'' # r) = None"
  by (auto simp: list_match_def token_plain split: list.split)

lemma Nil_not_list_field [simp]: "[] \<notin> set list_fields"
  by (simp add: list_fields_def)

lemma indented [simp]: "kv_match (CHR '' '' # r) = None" "list_match (CHR '' '' # r) = None"
  by (simp_all add: kv_match_def list_match_def token_plain)

lemma list_line:
  assumes "list_all is_token k" and "k \<in> set list_fields" and "CHR '']'' \<notin> set b"
  shows "list_match (k @ '': ['' @ b @ '']'') = Some (k, b)"
proof -
  have "takeWhile (\<lambda>x. x \<noteq> CHR '']'') (b @ '']'') = b"
    using assms(3) by (induction b) auto
  with assms(1,2) show ?thesis by (simp add: list_match_def token_plain)
qed

lemma list_fields_tokens: "k \<in> set list_fields \<Longrightarrow> key_token k"
proof -
  have "list_all key_token list_fields" by code_simp
  then show "k \<in> set list_fields \<Longrightarrow> key_token k" by (simp add: list_all_iff)
qed

lemma list_fields_plain: "''edges'' \<notin> set list_fields" "''body'' \<notin> set list_fields" "''file'' \<notin> set list_fields"
    "''__proto__'' \<notin> set list_fields" "''repo'' \<notin> set list_fields" "''project'' \<notin> set list_fields"
  by (simp_all add: list_fields_def)

lemma item_line: "x \<noteq> [] \<Longrightarrow> CR \<notin> set x \<Longrightarrow> skip_ws x = x \<Longrightarrow> list_item (''  - '' @ x) = Some x"
  by (simp add: list_item_def dash_item_def)

lemma open_line:
  "key_token k \<Longrightarrow> CR \<notin> set (skip_ws r) \<Longrightarrow> block_open (''  - '' @ k @ CHR '':'' # r) = Some (k, skip_ws r)"
  by (simp add: block_open_def dash_item_def kv_line token_list)

lemma word_not_dash: "is_word c \<Longrightarrow> c \<noteq> CHR ''-''"
  by (auto simp: is_word_def is_digit_def)

lemma cont_line_closed: "key_token k \<Longrightarrow> block_open (''    '' @ k @ r) = None"
  by (cases k) (auto simp: block_open_def dash_item_def key_token_def token_not_ws dest: word_not_dash split: list.split)

lemma cont_line:
  "key_token k \<Longrightarrow> CR \<notin> set (skip_ws r) \<Longrightarrow> block_cont (''    '' @ k @ CHR '':'' # r) = Some (k, skip_ws r)"
  by (simp add: block_cont_def kv_line token_list)

subsection \<open>Splitting at commas\<close>

lemma split_at_not_Nil [simp]: "split_at d s \<noteq> []"
  by (induction s) (auto split: list.split)

lemma split_at_plain: "d \<notin> set s \<Longrightarrow> split_at d s = [s]"
  by (induction s) auto

lemma split_at_append: "d \<notin> set s \<Longrightarrow> split_at d (s @ d # t) = s # split_at d t"
  by (induction s) auto

lemma split_join:
  "xs \<noteq> [] \<Longrightarrow> \<forall>x\<in>set xs. d \<notin> set x \<Longrightarrow> d \<notin> set w \<Longrightarrow>
   split_at d (join (d # w) xs) = hd xs # map ((@) w) (tl xs)"
proof (induction "d # w" xs rule: join.induct)
  case (3 x y xs)
  have "split_at d (w @ join (d # w) (y # xs)) = (w @ y) # map ((@) w) xs" if h: "d \<notin> set w"
  proof -
    have "split_at d (w @ s) = (w @ hd (split_at d s)) # tl (split_at d s)" for s
      using h by (induction w) (auto split: list.split)
    then show ?thesis using 3 by simp
  qed
  with 3 show ?case by (simp add: split_at_append)
qed (auto simp: split_at_plain)

lemma split_join_lines: "ls \<noteq> [] \<Longrightarrow> \<forall>l\<in>set ls. LF \<notin> set l \<Longrightarrow> split_lines (join [LF] ls) = ls"
  using split_join [of ls LF "[]"] by (cases ls) (auto simp: split_lines_def intro: map_idI)

lemma trim_blank [simp]: "trim (CHR '' '' # s) = trim s"
  by (simp add: trim_skip)

lemma inline_items:
  assumes "items \<noteq> []" and "list_all inline_safe items"
  shows "filter (\<lambda>s. s \<noteq> []) (map trim (split_at (CHR '','') (join '', '' items))) = items"
proof -
  have safe: "x \<in> set items \<Longrightarrow> trim x = x \<and> x \<noteq> [] \<and> CHR '','' \<notin> set x" for x
    using assms(2) by (auto simp: list_all_iff inline_safe_def)
  have "split_at (CHR '','') (join '', '' items) = hd items # map ((@) '' '') (tl items)"
    using split_join [of items "CHR '',''" "'' ''"] assms(1) safe by auto
  then have "map trim (split_at (CHR '','') (join '', '' items)) = map trim items"
    using assms(1) by (cases items) auto
  also have "\<dots> = items" using safe by (auto intro: map_idI)
  finally show ?thesis using safe by (auto intro: filter_True)
qed

subsection \<open>Runs of lines\<close>

text \<open>The edge under construction is whole, and the edge rows once it is flushed at line \<open>i\<close>.\<close>

definition settled :: "lex \<Rightarrow> bool" where
  "settled st \<longleftrightarrow> (case lx_buf st of None \<Rightarrow> True | Some (b, a) \<Rightarrow> is_edge b)"

definition rows :: "nat \<Rightarrow> lex \<Rightarrow> edge_entry list" where
  "rows i st = lx_edges st @ (case lx_buf st of None \<Rightarrow> []
     | Some (b, a) \<Rightarrow> [\<lparr>ee_edge = b, ee_form = BlockForm, ee_from = a, ee_upto = i\<rparr>])"

lemma flush_settled: "settled st \<Longrightarrow> flush_buf lenient f i st = Inr (st\<lparr>lx_buf := None, lx_edges := rows i st\<rparr>)"
  by (auto simp: flush_buf_def settled_def rows_def split: option.splits prod.splits)

definition lex_steps :: "bool \<Rightarrow> string \<Rightarrow> nat \<Rightarrow> string list \<Rightarrow> lex \<Rightarrow> lex \<Rightarrow> bool" where
  "lex_steps lenient f i ls st st' \<longleftrightarrow> (\<forall>rest. lex_lines lenient f i (ls @ rest) st = lex_lines lenient f (i + length ls) rest st')"

lemma steps_Nil [simp]: "lex_steps lenient f i [] st st"
  by (simp add: lex_steps_def)

lemma steps_append:
  "lex_steps lenient f i xs st st1 \<Longrightarrow> lex_steps lenient f (i + length xs) ys st1 st2 \<Longrightarrow> lex_steps lenient f i (xs @ ys) st st2"
  by (simp add: lex_steps_def add.assoc)

lemma steps_line: "(\<And>rest. lex_line lenient f i l rest st = Inr (st', 0)) \<Longrightarrow> lex_steps lenient f i [l] st st'"
  by (simp add: lex_steps_def)

lemma steps_Cons:
  "(\<And>rest. lex_line lenient f i l rest st = Inr (st1, 0)) \<Longrightarrow> lex_steps lenient f (i + 1) ls st1 st2 \<Longrightarrow> lex_steps lenient f i (l # ls) st st2"
  by (simp add: lex_steps_def)

lemma steps_lines: "lex_steps lenient f i ls st st' \<Longrightarrow> settled st' \<Longrightarrow>
    lex_lines lenient f i ls st = Inr (st'\<lparr>lx_buf := None, lx_edges := rows (i + length ls) st'\<rparr>)"
  using flush_settled [of st' lenient f "i + length ls"] by (auto simp: lex_steps_def dest: spec [of _ "[]"])

text \<open>The \<open>edges:\<close> headers of some entries, and what a block leaves alone.\<close>

definition marks :: "line_entry list \<Rightarrow> (nat \<times> (nat \<times> nat) option) list" where
  "marks es = map (\<lambda>e. (en_from e, en_inline e)) (filter (\<lambda>e. en_kind e = EdgesEntry \<or> en_inline e \<noteq> None) es)"

definition same_record :: "lex \<Rightarrow> lex \<Rightarrow> bool" where
  "same_record st st' \<longleftrightarrow> lx_faults st' = lx_faults st \<and> marks (lx_entries st') = marks (lx_entries st)"

lemma marks_append [simp]: "marks (xs @ ys) = marks xs @ marks ys"
  by (simp add: marks_def)

lemma marks_one [simp]:
  "marks [e] = (if en_kind e = EdgesEntry \<or> en_inline e \<noteq> None then [(en_from e, en_inline e)] else [])"
  by (simp add: marks_def)

lemma marks_extend [simp]: "marks (lx_entries (extend_entry i st)) = marks (lx_entries st)"
proof (cases "lx_entries st" rule: rev_cases)
  case (snoc es e)
  then show ?thesis by (simp add: extend_entry_def)
qed (simp add: extend_entry_def)

lemma on_field_entries [simp]: "lx_entries (on_field k h st) = lx_entries st"
  by (simp add: on_field_def split: option.split)

lemma same_record_trans: "same_record a b \<Longrightarrow> same_record b c \<Longrightarrow> same_record a c"
  by (simp add: same_record_def)

subsection \<open>A field\<close>

text \<open>A field the serializer writes so that it can be read back: its key is a key of the grammar
  and holds a list exactly when the grammar reads a list there, no text has a carriage return
  once it is one line, and no item spells a flow edge.\<close>

definition field_key :: "string \<Rightarrow> bool" where
  "field_key k \<longleftrightarrow> key_token k \<and> k \<noteq> ''edges'' \<and> k \<noteq> ''__proto__''"

definition writable_item :: "string \<Rightarrow> bool" where
  "writable_item x \<longleftrightarrow> LF \<notin> set x \<and> CR \<notin> set x \<and> flow_match (''  - '' @ emit_scalar True x) = None"

definition writable_field :: "string \<Rightarrow> field_value \<Rightarrow> bool" where
  "writable_field k v \<longleftrightarrow> field_key k \<and>
     (case v of
        Flat s \<Rightarrow> k \<notin> set list_fields \<and> CR \<notin> set (folded_line s)
      | Items xs \<Rightarrow> k \<in> set list_fields \<and> list_all writable_item xs
      | Missing \<Rightarrow> True)"

fun read_value :: "field_value \<Rightarrow> field_value" where
  "read_value (Flat s) = Flat (folded_line s)"
| "read_value v = v"

definition add_field :: "string \<Rightarrow> field_value \<Rightarrow> lex \<Rightarrow> (string \<times> field_value) list" where
  "add_field k v st = (if field_lines k v = [] then lx_fields st else set_prop k (read_value v) (lx_fields st))"

text \<open>A block of lines of a field: it adds the field, flushes a pending edge and opens none.\<close>

definition field_block :: "bool \<Rightarrow> string \<Rightarrow> nat \<Rightarrow> string \<Rightarrow> field_value \<Rightarrow> lex \<Rightarrow> lex \<Rightarrow> bool" where
  "field_block lenient f i k v st st' \<longleftrightarrow> lex_steps lenient f i (field_lines k v) st st' \<and> settled st' \<and> same_record st st'
     \<and> lx_fields st' = add_field k v st \<and> rows (i + length (field_lines k v)) st' = rows i st"

lemma rows_no_buf [simp]: "lx_buf st = None \<Longrightarrow> rows i st = lx_edges st"
  by (simp add: rows_def)

lemma settled_no_buf [simp]: "lx_buf st = None \<Longrightarrow> settled st"
  by (simp add: settled_def)

lemma emit_kv_tail: "CR \<notin> set (folded_line s) \<Longrightarrow> CR \<notin> set (skip_ws (CHR '' '' # emit_scalar q s))"
  by (simp add: emit_no_cr)

lemma flat_field:
  assumes "settled st" and "field_key k" and "k \<notin> set list_fields" and "CR \<notin> set (folded_line s)"
  shows "\<exists>st'. field_block lenient f i k (Flat s) st st'"
proof -
  let ?l = "k @ '': '' @ emit_scalar False s"
  have key: "key_token k" "list_all is_token k" "k \<noteq> ''edges''"
    using assms(2) by (auto simp: field_key_def key_token_def)
  have kv: "kv_match ?l = Some (k, emit_scalar False s)"
    using kv_line [OF key(1) emit_kv_tail [OF assms(4)]] by simp
  have lm: "list_match ?l = None"
    using list_line_None [OF key(2) assms(3)] by simp
  let ?st1 = "st\<lparr>lx_buf := None, lx_edges := rows i st\<rparr>"
  let ?st' = "(open_entry \<lparr>en_kind = ScalarEntry, en_key = k, en_form = None, en_from = i, en_upto = i + 1, en_inline = None\<rparr> ?st1)
     \<lparr>lx_in_edges := False, lx_fields := set_prop k (Flat (folded_line s)) (lx_fields st), lx_last_key := Some k,
      lx_last_raw := emit_scalar False s, lx_block_key := None\<rparr>"
  have "lex_line lenient f i ?l rest st = Inr (?st', 0)" for rest
    using assms(3) key(3) unfolding lex_line_def lm kv flush_settled [OF assms(1)]
    by (simp add: lex_key_def scalar_emit)
  then have "lex_steps lenient f i (field_lines k (Flat s)) st ?st'"
    by (simp add: field_lines_def steps_line)
  then show ?thesis
    by (intro exI [of _ ?st']) (simp add: field_block_def same_record_def add_field_def field_lines_def open_entry_def)
qed

lemma lex_list_header:
  assumes "settled st" and "k \<in> set list_fields"
  shows "lex_line lenient f i (k @ '':'') rest st =
     Inr ((open_entry \<lparr>en_kind = ListEntry, en_key = k, en_form = Some BlockForm, en_from = i, en_upto = i + 1, en_inline = None\<rparr>
            (st\<lparr>lx_buf := None, lx_edges := rows i st\<rparr>))
          \<lparr>lx_in_edges := False, lx_fields := set_prop k (Items []) (lx_fields st), lx_last_key := Some k, lx_block_key := Some k\<rparr>, 0)"
proof -
  have key: "key_token k" "list_all is_token k"
    using list_fields_tokens [OF assms(2)] by (auto simp: key_token_def)
  have "kv_match (k @ '':'') = Some (k, [])" "list_match (k @ '':'') = None"
    using kv_line [OF key(1), of "[]"] list_line_unlisted [OF key(2), of "[]"] by auto
  moreover have "k \<noteq> ''edges''" "trim [] = []"
    using assms(2) list_fields_plain by (auto simp: trim_id)
  ultimately show ?thesis
    using assms(2) by (simp add: lex_line_def flush_settled [OF assms(1)] lex_key_def)
qed

lemma update_twice: "AList.update k v (AList.update k w fs) = AList.update k v fs"
  by (induction fs) auto

lemma on_field_set:
  "k \<noteq> ''__proto__'' \<Longrightarrow> lx_fields st = set_prop k v fs \<Longrightarrow> on_field k h st = st\<lparr>lx_fields := set_prop k (h v) fs\<rparr>"
  by (simp add: on_field_def set_prop_def update_conv' update_twice)

lemma lex_item:
  assumes "lx_buf st = None" and "\<not> lx_in_edges st" and "lx_block_key st = Some k" and "writable_item x"
  shows "lex_line lenient f i (''  - '' @ emit_scalar True x) rest st = Inr (extend_entry i (on_field k (push_item x) st), 0)"
proof -
  have x: "LF \<notin> set x" "CR \<notin> set (folded_line x)" "folded_line x = x" "flow_match (''  - '' @ emit_scalar True x) = None"
    using assms(4) by (simp_all add: writable_item_def one_line_id)
  have "list_item (''  - '' @ emit_scalar True x) = Some (emit_scalar True x)"
    using x by (intro item_line) (auto simp: emit_no_cr emit_Nil)
  with x assms show ?thesis by (simp add: lex_line_def scalar_emit)
qed

lemma extend_entry_frame [simp]:
  "lx_buf (extend_entry i st) = lx_buf st" "lx_in_edges (extend_entry i st) = lx_in_edges st" "lx_block_key (extend_entry i st) = lx_block_key st"
  "lx_fields (extend_entry i st) = lx_fields st" "lx_edges (extend_entry i st) = lx_edges st" "lx_faults (extend_entry i st) = lx_faults st"
  "lx_notes (extend_entry i st) = lx_notes st" "lx_last_key (extend_entry i st) = lx_last_key st" "lx_last_raw (extend_entry i st) = lx_last_raw st"
  by (simp_all add: extend_entry_def)

lemma lex_items:
  assumes "lx_buf st = None" and "\<not> lx_in_edges st" and "lx_block_key st = Some k" and "k \<noteq> ''__proto__''"
    and "list_all writable_item xs" and "lx_fields st = set_prop k (Items done') fs"
  shows "\<exists>st'. lex_steps lenient f i (map (\<lambda>x. ''  - '' @ emit_scalar True x) xs) st st' \<and> lx_buf st' = None \<and> same_record st st'
     \<and> lx_fields st' = set_prop k (Items (done' @ xs)) fs \<and> lx_edges st' = lx_edges st"
  using assms
proof (induction xs arbitrary: st i done')
  case Nil
  then show ?case by (intro exI [of _ st]) (simp add: same_record_def)
next
  case (Cons x xs)
  let ?st1 = "extend_entry i (st\<lparr>lx_fields := set_prop k (Items (done' @ [x])) fs\<rparr>)"
  have "lex_line lenient f i (''  - '' @ emit_scalar True x) rest st = Inr (?st1, 0)" for rest
    using lex_item [of st k x lenient f i rest] Cons.prems on_field_set [of k st "Items done'" fs "push_item x"] by simp
  moreover obtain st' where "lex_steps lenient f (i + 1) (map (\<lambda>x. ''  - '' @ emit_scalar True x) xs) ?st1 st'"
      "lx_buf st' = None" "same_record ?st1 st'" "lx_fields st' = set_prop k (Items ((done' @ [x]) @ xs)) fs" "lx_edges st' = lx_edges ?st1"
    using Cons.IH [of ?st1 "done' @ [x]" "i + 1"] Cons.prems by auto
  ultimately show ?case
    by (intro exI [of _ st']) (auto simp: same_record_def intro: steps_Cons)
qed

lemma block_list_field:
  assumes "settled st" and "k \<in> set list_fields" and "list_all writable_item xs" and "\<not> list_all inline_safe xs"
  shows "\<exists>st'. field_block lenient f i k (Items xs) st st'"
proof -
  let ?st1 = "(open_entry \<lparr>en_kind = ListEntry, en_key = k, en_form = Some BlockForm, en_from = i, en_upto = i + 1, en_inline = None\<rparr>
            (st\<lparr>lx_buf := None, lx_edges := rows i st\<rparr>))
          \<lparr>lx_in_edges := False, lx_fields := set_prop k (Items []) (lx_fields st), lx_last_key := Some k, lx_block_key := Some k\<rparr>"
  have proto: "k \<noteq> ''__proto__''" using assms(2) list_fields_plain by auto
  have ne: "xs \<noteq> []" using assms(4) by auto
  obtain st' where st': "lex_steps lenient f (i + 1) (map (\<lambda>x. ''  - '' @ emit_scalar True x) xs) ?st1 st'"
      "lx_buf st' = None" "same_record ?st1 st'" "lx_fields st' = set_prop k (Items xs) (lx_fields st)" "lx_edges st' = rows i st"
    using lex_items [of ?st1 k xs "[]" "lx_fields st" lenient f "i + 1"] assms(3) proto by (auto simp: open_entry_def)
  have "lex_steps lenient f i (field_lines k (Items xs)) st st'"
    using st'(1) ne assms(4) lex_list_header [OF assms(1,2)]
    by (auto simp: field_lines_def intro!: steps_Cons)
  with st' ne assms(4) show ?thesis
    by (intro exI [of _ st']) (auto simp: field_block_def same_record_def add_field_def field_lines_def open_entry_def)
qed

lemma inline_list_line:
  assumes "settled st" and "list_match l = Some (k, b)" and "filter (\<lambda>s. s \<noteq> []) (map trim (split_at (CHR '','') b)) = xs"
    and "field_lines k (Items xs) = [l]"
  shows "\<exists>st'. field_block lenient f i k (Items xs) st st'"
proof -
  let ?st' = "(open_entry \<lparr>en_kind = ListEntry, en_key = k, en_form = Some InlineForm, en_from = i, en_upto = i + 1, en_inline = None\<rparr>
            (st\<lparr>lx_buf := None, lx_edges := rows i st\<rparr>))
          \<lparr>lx_in_edges := False, lx_fields := set_prop k (Items xs) (lx_fields st), lx_last_key := None, lx_block_key := None\<rparr>"
  have "lex_line lenient f i l rest st = Inr (?st', 0)" for rest
    using assms(2,3) by (simp add: lex_line_def flush_settled [OF assms(1)])
  then have "lex_steps lenient f i (field_lines k (Items xs)) st ?st'"
    by (simp add: assms(4) steps_line)
  with assms(4) show ?thesis
    by (intro exI [of _ ?st']) (simp add: field_block_def same_record_def add_field_def open_entry_def)
qed

lemma inline_list_field:
  assumes "settled st" and "k \<in> set list_fields" and "list_all inline_safe xs"
  shows "\<exists>st'. field_block lenient f i k (Items xs) st st'"
proof (cases "xs = []")
  case True
  have toks: "list_all is_token k" using list_fields_tokens [OF assms(2)] by (simp add: key_token_def)
  have empty: "list_match (k @ '': []'') = Some (k, [])"
    using list_line [OF toks assms(2), of "[]"] by simp
  show ?thesis
  proof (cases "k = ''pin'' \<or> k = ''exclude''")
    case True
    with \<open>xs = []\<close> assms(1) show ?thesis
      by (intro exI [of _ st]) (auto simp: field_block_def field_lines_def add_field_def same_record_def)
  next
    case False
    with \<open>xs = []\<close> show ?thesis
      using inline_list_line [OF assms(1) empty, of "[]"] by (simp add: trim_id field_lines_def)
  qed
next
  case False
  have toks: "list_all is_token k" using list_fields_tokens [OF assms(2)] by (simp add: key_token_def)
  have "x \<in> set xs \<Longrightarrow> CHR '']'' \<notin> set x" for x
    using assms(3) by (auto simp: list_all_iff inline_safe_def)
  then have "CHR '']'' \<notin> set (join '', '' xs)"
    by (induction "'', ''" xs rule: join.induct) auto
  from inline_list_line [OF assms(1) list_line [OF toks assms(2) this] inline_items [OF False assms(3)]] False assms(3)
  show ?thesis by (simp add: field_lines_def)
qed

lemma field_step:
  assumes "settled st" and "writable_field k v"
  shows "\<exists>st'. field_block lenient f i k v st st'"
proof (cases v)
  case (Flat s)
  with assms show ?thesis using flat_field [of st k s] by (simp add: writable_field_def)
next
  case (Items xs)
  with assms show ?thesis
    by (cases "list_all inline_safe xs") (auto simp: writable_field_def block_list_field inline_list_field)
next
  case Missing
  with assms(1) show ?thesis
    by (intro exI [of _ st]) (simp add: field_block_def field_lines_def add_field_def same_record_def)
qed

end
