(* ===== verification/NodeRoundTrip.thy ===== *)
theory NodeRoundTrip
  imports NodeLines
begin

text \<open>
  The round trip of a node file: the lines of an edge, of all the keys and of the whole
  frontmatter, the fence around them, and the law itself
  (\<open>parseFrontmatter(serializeNode(n))\<close> folds to the node \<open>n\<close>).
\<close>

subsection \<open>An edge\<close>

definition writable_attr :: "string \<times> string \<Rightarrow> bool" where
  "writable_attr p \<longleftrightarrow> key_token (fst p) \<and> fst p \<notin> {''type'', ''to'', ''target'', ''__proto__''}
     \<and> snd p \<noteq> [] \<and> CR \<notin> set (folded_line (snd p))"

definition writable_edge :: "attrs \<Rightarrow> bool" where
  "writable_edge e \<longleftrightarrow> map fst (take 2 e) = [''type'', ''to'']
     \<and> list_all (\<lambda>p. snd p \<noteq> [] \<and> CR \<notin> set (folded_line (snd p))) e
     \<and> list_all writable_attr (drop 2 e) \<and> distinct (map fst (drop 2 e))
     \<and> (flowable e \<or> list_all (\<lambda>l. flow_match l = None) (edge_entry_lines e))"

lemma writable_edge_cases:
  assumes "writable_edge e"
  obtains t u as where "e = (''type'', t) # (''to'', u) # as" "list_all writable_attr as" "distinct (map fst as)"
    "t \<noteq> []" "u \<noteq> []" "CR \<notin> set (folded_line t)" "CR \<notin> set (folded_line u)"
proof -
  have "length e \<ge> 2" using assms by (auto simp: writable_edge_def dest: arg_cong [of _ _ length])
  then obtain k1 t k2 u as where e: "e = (k1, t) # (k2, u) # as"
    by (metis Suc_le_length_iff numeral_2_eq_2 surj_pair)
  show thesis
    by (rule that [of t u as]; use assms in \<open>simp add: writable_edge_def e\<close>)
qed

definition read_edge :: "attrs \<Rightarrow> attrs" where
  "read_edge e = map (\<lambda>(k, v). (k, folded_line v)) e"

definition edge_row :: "nat \<Rightarrow> attrs \<Rightarrow> edge_entry" where
  "edge_row i e = \<lparr>ee_edge = read_edge e, ee_form = (if flowable e then FlowForm else BlockForm),
     ee_from = i, ee_upto = i + length (edge_entry_lines e)\<rparr>"

lemma update_fresh: "k \<notin> fst ` set fs \<Longrightarrow> AList.update k v fs = fs @ [(k, v)]"
  by (induction fs) auto

lemma set_prop_fresh: "k \<notin> fst ` set fs \<Longrightarrow> k \<noteq> ''__proto__'' \<Longrightarrow> set_prop k v fs = fs @ [(k, v)]"
  by (simp add: set_prop_def update_fresh)

lemma fold_set_prop_fresh:
  "distinct (map fst as) \<Longrightarrow> fst ` set as \<inter> fst ` set fs = {} \<Longrightarrow> ''__proto__'' \<notin> fst ` set as \<Longrightarrow>
   foldl (\<lambda>e (k, v). set_prop k v e) fs as = fs @ as"
proof (induction as arbitrary: fs)
  case (Cons a as)
  obtain k v where a: "a = (k, v)" by (cases a)
  have fresh: "k \<notin> fst ` set fs" "k \<noteq> ''__proto__''" using Cons.prems by (auto simp: a)
  have "foldl (\<lambda>e (k, v). set_prop k v e) (fs @ [(k, v)]) as = (fs @ [(k, v)]) @ as"
    using Cons.prems by (intro Cons.IH) (auto simp: a)
  then show ?case by (simp add: a set_prop_fresh [OF fresh])
qed simp

lemma extra_attrs_writable:
  assumes "list_all writable_attr as"
  shows "extra_attrs ((''type'', t) # (''to'', u) # as) = as"
  using assms by (auto simp: extra_attrs_def writable_attr_def list_all_iff intro!: filter_True)

lemma token_one_line: "list_all is_token s \<Longrightarrow> folded_line s = s"
  by (rule one_line_id) (auto simp: list_all_iff token_plain)

lemma flow_attrs_tail:
  "list_all (\<lambda>(k, v). simple_token k \<and> simple_token v) as \<Longrightarrow> flow_attrs (flow_tail as @ ''}'') = (as, ''}'')"
proof (induction as)
  case Nil
  then show ?case by (simp add: flow_attrs.simps flow_attr_def flow_tail_def)
next
  case (Cons a as)
  obtain k v where a: "a = (k, v)" by (cases a)
  have toks: "list_all is_token k" "k \<noteq> []" "list_all is_token v" "v \<noteq> []"
    using Cons.prems a by (auto simp: simple_token_def)
  have stop: "\<exists>c r. flow_tail as @ ''}'' = c # r \<and> \<not> is_token c"
    by (cases as) (auto simp: flow_tail_def token_plain)
  then obtain c r where cr: "flow_tail as @ ''}'' = c # r" "\<not> is_token c" by blast
  have "flow_attr (flow_tail (a # as) @ ''}'') = Some ((k, v), flow_tail as @ ''}'')"
    using toks cr by (simp add: flow_attr_def flow_tail_def a token_plain)
  then show ?case using Cons by (subst flow_attrs.simps) (simp add: a)
qed

lemma flow_line:
  assumes "list_all is_token t" "t \<noteq> []" "list_all is_token u" "u \<noteq> []"
    and "list_all (\<lambda>(k, v). simple_token k \<and> simple_token v) as"
    and "distinct (map fst as)" and "fst ` set as \<inter> {''type'', ''to'', ''__proto__''} = {}"
  shows "flow_match (''  - {type: '' @ t @ '', to: '' @ u @ flow_tail as @ ''}'') = Some ((''type'', t) # (''to'', u) # as)"
proof -
  obtain c r where cr: "flow_tail as @ ''}'' = c # r" "\<not> is_token c"
    by (cases as) (auto simp: flow_tail_def token_plain)
  have fold: "foldl (\<lambda>e (k, v). set_prop k v e) [(''type'', t), (''to'', u)] as = (''type'', t) # (''to'', u) # as"
    using assms(6,7) by (subst fold_set_prop_fresh) auto
  have "flow_attrs (c # r) = (as, ''}'')" using flow_attrs_tail [OF assms(5)] cr(1) by simp
  then have "flow_at (''- {type: '' @ t @ '', to: '' @ u @ flow_tail as @ ''}'') = Some ((''type'', t) # (''to'', u) # as)"
    using assms(1-4) cr fold by (simp add: flow_at_def token_plain)
  then show ?thesis by (simp add: flow_match.simps flow_at_def [of "CHR '' '' # s" for s])
qed

text \<open>A block of lines of an edge, read inside an \<open>edges:\<close> block.\<close>

definition edge_block :: "bool \<Rightarrow> string \<Rightarrow> nat \<Rightarrow> attrs \<Rightarrow> lex \<Rightarrow> lex \<Rightarrow> bool" where
  "edge_block lenient f i e st st' \<longleftrightarrow> lex_steps lenient f i (edge_entry_lines e) st st' \<and> settled st' \<and> lx_in_edges st'
     \<and> same_record st st' \<and> lx_fields st' = lx_fields st
     \<and> rows (i + length (edge_entry_lines e)) st' = rows i st @ [edge_row i e]"

lemma flow_edge_step:
  assumes "settled st" and "lx_in_edges st" and "writable_edge e" and "flowable e"
  shows "\<exists>st'. edge_block lenient f i e st st'"
proof -
  obtain t u as where e: "e = (''type'', t) # (''to'', u) # as" "list_all writable_attr as" "distinct (map fst as)"
    using writable_edge_cases [OF assms(3)] by blast
  have toks: "list_all is_token t" "t \<noteq> []" "list_all is_token u" "u \<noteq> []"
      "list_all (\<lambda>(k, v). simple_token k \<and> simple_token v) as"
    using assms(4) by (auto simp: flowable_def e(1) attr_text_def extra_attrs_writable [OF e(2)] simple_token_def)
  have keys: "fst ` set as \<inter> {''type'', ''to'', ''__proto__''} = {}"
    using e(2) by (auto simp: list_all_iff writable_attr_def)
  have read: "read_edge e = e"
    using toks by (auto simp: read_edge_def e(1) token_one_line list_all_iff simple_token_def intro!: map_idI)
  let ?l = "''  - {type: '' @ t @ '', to: '' @ u @ flow_tail as @ ''}''"
  have lines': "edge_entry_lines e = [?l]"
    using assms(4) by (simp add: edge_entry_lines_def e(1) attr_text_def extra_attrs_writable [OF e(2)])
  have m: "flow_match ?l = Some e"
    using flow_line [OF toks e(3) keys] by (simp only: e(1))
  let ?st' = "extend_entry i (st\<lparr>lx_buf := None,
     lx_edges := rows i st @ [\<lparr>ee_edge = e, ee_form = FlowForm, ee_from = i, ee_upto = i + 1\<rparr>]\<rparr>)"
  have "lex_line lenient f i ?l rest st = Inr (?st', 0)" for rest
    unfolding lex_line_def m using assms(2) by (simp add: flush_settled [OF assms(1)])
  then have "lex_steps lenient f i (edge_entry_lines e) st ?st'"
    unfolding lines' by (rule steps_line)
  then show ?thesis
    using assms(2,4) by (intro exI [of _ ?st']) (simp add: edge_block_def same_record_def edge_row_def read lines')
qed

lemma lex_attr:
  assumes "lx_in_edges st" and "lx_buf st = Some (b, a)" and "key_token k" and "k \<noteq> ''target''" and "k \<noteq> ''__proto__''"
    and "k \<notin> fst ` set b" and "CR \<notin> set (folded_line v)" and "flow_match (''    '' @ k @ '': '' @ emit_scalar q v) = None"
  shows "lex_line lenient f i (''    '' @ k @ '': '' @ emit_scalar q v) rest st =
     Inr (extend_entry i (st\<lparr>lx_buf := Some (b @ [(k, folded_line v)], a)\<rparr>), 0)"
proof -
  have "block_open (''    '' @ k @ '': '' @ emit_scalar q v) = None"
    using cont_line_closed [OF assms(3)] by simp
  moreover have "block_cont (''    '' @ k @ '': '' @ emit_scalar q v) = Some (k, emit_scalar q v)"
    using cont_line [OF assms(3) emit_kv_tail [OF assms(7)]] by simp
  ultimately show ?thesis
    using assms by (simp add: lex_line_def lex_edge_line_def scalar_emit edge_key_def set_prop_fresh)
qed

lemma lex_attrs:
  assumes "lx_in_edges st" and "lx_buf st = Some (b, a)" and "list_all writable_attr as"
    and "distinct (map fst as)" and "fst ` set as \<inter> fst ` set b = {}"
    and "list_all (\<lambda>l. flow_match l = None) (map (\<lambda>(k, v). ''    '' @ k @ '': '' @ emit_scalar False v) as)"
  shows "\<exists>st'. lex_steps lenient f i (map (\<lambda>(k, v). ''    '' @ k @ '': '' @ emit_scalar False v) as) st st'
     \<and> lx_in_edges st' \<and> lx_buf st' = Some (b @ read_edge as, a) \<and> same_record st st' \<and> lx_fields st' = lx_fields st
     \<and> lx_edges st' = lx_edges st"
  using assms
proof (induction as arbitrary: st b i)
  case Nil
  then show ?case by (intro exI [of _ st]) (simp add: same_record_def read_edge_def)
next
  case (Cons p as)
  obtain k v where p: "p = (k, v)" by (cases p)
  let ?st1 = "extend_entry i (st\<lparr>lx_buf := Some (b @ [(k, folded_line v)], a)\<rparr>)"
  have "lex_line lenient f i (''    '' @ k @ '': '' @ emit_scalar False v) rest st = Inr (?st1, 0)" for rest
    using Cons.prems by (intro lex_attr) (auto simp: p writable_attr_def)
  moreover obtain st' where "lex_steps lenient f (i + 1) (map (\<lambda>(k, v). ''    '' @ k @ '': '' @ emit_scalar False v) as) ?st1 st'"
      "lx_in_edges st'" "lx_buf st' = Some ((b @ [(k, folded_line v)]) @ read_edge as, a)" "same_record ?st1 st'"
      "lx_fields st' = lx_fields ?st1" "lx_edges st' = lx_edges ?st1"
    using Cons.IH [of ?st1 "b @ [(k, folded_line v)]" "i + 1"] Cons.prems by (auto simp: p)
  ultimately show ?case
    by (intro exI [of _ st']) (auto simp: same_record_def p read_edge_def intro: steps_Cons)
qed

lemma block_edge_step:
  assumes "settled st" and "lx_in_edges st" and "writable_edge e" and "\<not> flowable e"
  shows "\<exists>st'. edge_block lenient f i e st st'"
proof -
  obtain t u as where e: "e = (''type'', t) # (''to'', u) # as" "list_all writable_attr as" "distinct (map fst as)"
      "t \<noteq> []" "u \<noteq> []" "CR \<notin> set (folded_line t)" "CR \<notin> set (folded_line u)"
    using writable_edge_cases [OF assms(3)] by blast
  let ?l1 = "''  - type: '' @ emit_scalar True t" and ?l2 = "''    to: '' @ emit_scalar True u"
  let ?ls = "map (\<lambda>(k, v). ''    '' @ k @ '': '' @ emit_scalar False v) as"
  have lines': "edge_entry_lines e = ?l1 # ?l2 # ?ls"
    using assms(4) by (simp add: edge_entry_lines_def e(1) attr_text_def extra_attrs_writable [OF e(2)])
  have no_flow: "flow_match ?l1 = None" "flow_match ?l2 = None" "list_all (\<lambda>l. flow_match l = None) ?ls"
    using assms(3,4) lines' by (auto simp: writable_edge_def e(1))
  let ?st1 = "extend_entry i (st\<lparr>lx_edges := rows i st, lx_buf := Some ([(''type'', folded_line t)], i)\<rparr>)"
  have keys: "key_token ''type''" "key_token ''to''" by code_simp+
  have "block_open ?l1 = Some (''type'', emit_scalar True t)"
    using open_line [OF keys(1) emit_kv_tail [OF e(6)]] by simp
  then have first: "lex_line lenient f i ?l1 rest st = Inr (?st1, 0)" for rest
    using assms(2) no_flow(1)
    by (simp add: lex_line_def lex_edge_line_def flush_settled [OF assms(1)] scalar_emit edge_key_def set_prop_def)
  let ?st2 = "extend_entry (i + 1) (?st1\<lparr>lx_buf := Some ([(''type'', folded_line t), (''to'', folded_line u)], i)\<rparr>)"
  have second: "lex_line lenient f (i + 1) ?l2 rest ?st1 = Inr (?st2, 0)" for rest
    using lex_attr [of ?st1 "[(''type'', folded_line t)]" i "''to''" u True lenient f "i + 1" rest] assms(2) keys(2) e(7) no_flow(2)
    by simp
  have apart: "fst ` set as \<inter> fst ` set [(''type'', folded_line t), (''to'', folded_line u)] = {}"
    using e(2) by (auto simp: list_all_iff writable_attr_def)
  obtain st' where st': "lex_steps lenient f (i + 1 + 1) ?ls ?st2 st'" "lx_in_edges st'"
      "lx_buf st' = Some ([(''type'', folded_line t), (''to'', folded_line u)] @ read_edge as, i)" "same_record ?st2 st'"
      "lx_fields st' = lx_fields ?st2" "lx_edges st' = lx_edges ?st2"
    using lex_attrs [OF _ _ e(2,3) apart no_flow(3), of ?st2 i lenient f "i + 1 + 1"] assms(2)
    by auto
  have "lex_steps lenient f i (edge_entry_lines e) st st'"
    unfolding lines' by (rule steps_Cons [OF first steps_Cons [OF second st'(1)]])
  with st' e(1,4,5) assms(4) show ?thesis
    by (intro exI [of _ st'])
       (auto simp: edge_block_def same_record_def settled_def is_edge_def attr_def rows_def edge_row_def read_edge_def lines')
qed

lemma edge_step:
  "settled st \<Longrightarrow> lx_in_edges st \<Longrightarrow> writable_edge e \<Longrightarrow> \<exists>st'. edge_block lenient f i e st st'"
  using flow_edge_step block_edge_step by blast

subsection \<open>All the keys and edges\<close>

fun edge_rows :: "nat \<Rightarrow> attrs list \<Rightarrow> edge_entry list" where
  "edge_rows i [] = []"
| "edge_rows i (e # es) = edge_row i e # edge_rows (i + length (edge_entry_lines e)) es"

lemma edge_rows_edges [simp]: "map ee_edge (edge_rows i es) = map read_edge es"
  by (induction es arbitrary: i) (auto simp: edge_row_def)

lemma edge_steps:
  assumes "settled st" and "lx_in_edges st" and "list_all writable_edge es"
  shows "\<exists>st'. lex_steps lenient f i (concat (map edge_entry_lines es)) st st' \<and> settled st' \<and> same_record st st'
     \<and> lx_fields st' = lx_fields st
     \<and> rows (i + length (concat (map edge_entry_lines es))) st' = rows i st @ edge_rows i es"
  using assms
proof (induction es arbitrary: st i)
  case Nil
  then show ?case by (intro exI [of _ st]) (simp add: same_record_def)
next
  case (Cons e es)
  let ?j = "i + length (edge_entry_lines e)"
  obtain st1 where st1: "edge_block lenient f i e st st1"
    using edge_step [of st e lenient f i] Cons.prems(1,2) Cons.prems(3) [simplified list.pred_inject] by blast
  obtain st' where st': "lex_steps lenient f ?j (concat (map edge_entry_lines es)) st1 st'" "settled st'" "same_record st1 st'"
      "lx_fields st' = lx_fields st1" "rows (?j + length (concat (map edge_entry_lines es))) st' = rows ?j st1 @ edge_rows ?j es"
    using Cons.IH [of st1 ?j] Cons.prems st1 by (auto simp: edge_block_def)
  show ?case
    using st1 st' by (intro exI [of _ st'])
      (auto simp: edge_block_def add.assoc intro: steps_append same_record_trans)
qed

text \<open>The edges read so far, the pending one included.\<close>

definition seen :: "lex \<Rightarrow> attrs list" where
  "seen st = map ee_edge (rows 0 st)"

lemma seen_rows: "map ee_edge (rows i st) = seen st"
  by (auto simp: seen_def rows_def split: option.splits)

lemma edges_header:
  assumes "settled st"
  shows "\<exists>st1. (\<forall>rest. lex_line lenient f i ''edges:'' rest st = Inr (st1, 0)) \<and> settled st1 \<and> lx_in_edges st1
     \<and> lx_faults st1 = lx_faults st \<and> lx_fields st1 = lx_fields st \<and> rows (i + 1) st1 = rows i st
     \<and> marks (lx_entries st1) = marks (lx_entries st) @ [(i, None)]"
proof -
  have "kv_match ''edges:'' = Some (''edges'', [])" "list_match ''edges:'' = None" "strip_flow_comment (trim []) = []"
    by code_simp+
  then show ?thesis
    by (simp add: lex_line_def flush_settled [OF assms] lex_key_def open_entry_def)
qed

lemma edges_step:
  assumes "settled st" and "list_all writable_edge es"
  shows "\<exists>st'. lex_steps lenient f i (edges_lines es) st st' \<and> settled st' \<and> lx_faults st' = lx_faults st \<and> lx_fields st' = lx_fields st
     \<and> marks (lx_entries st') = marks (lx_entries st) @ (if es = [] then [] else [(i, None)])
     \<and> rows (i + length (edges_lines es)) st' = rows i st @ edge_rows (i + 1) es"
proof (cases "es = []")
  case True
  with assms(1) show ?thesis
    by (intro exI [of _ st]) (simp add: edges_lines_def)
next
  case False
  obtain st1 where st1: "\<And>rest. lex_line lenient f i ''edges:'' rest st = Inr (st1, 0)" "settled st1" "lx_in_edges st1"
      "lx_faults st1 = lx_faults st" "lx_fields st1 = lx_fields st" "rows (i + 1) st1 = rows i st"
      "marks (lx_entries st1) = marks (lx_entries st) @ [(i, None)]"
    using edges_header [OF assms(1)] by blast
  obtain st' where st': "lex_steps lenient f (i + 1) (concat (map edge_entry_lines es)) st1 st'" "settled st'" "same_record st1 st'"
      "lx_fields st' = lx_fields st1"
      "rows (i + 1 + length (concat (map edge_entry_lines es))) st' = rows (i + 1) st1 @ edge_rows (i + 1) es"
    using edge_steps [OF st1(2,3) assms(2)] by blast
  have "lex_steps lenient f i (edges_lines es) st st'"
    using False by (simp add: edges_lines_def steps_Cons [OF st1(1) st'(1)])
  moreover have "rows (i + length (edges_lines es)) st' = rows i st @ edge_rows (i + 1) es"
    using st'(5) st1(6) False by (simp add: edges_lines_def)
  ultimately show ?thesis
    using st' st1 False by (intro exI [of _ st']) (simp add: same_record_def)
qed

text \<open>The fields a run of keys leaves.\<close>

definition read_key :: "node_file \<Rightarrow> (string \<times> field_value) list \<Rightarrow> string \<Rightarrow> (string \<times> field_value) list" where
  "read_key n fs k =
     (case node_prop n k of
        Some v \<Rightarrow> if field_lines k v = [] then fs else set_prop k (read_value v) fs
      | None \<Rightarrow> fs)"

definition writable_keys :: "node_file \<Rightarrow> string list \<Rightarrow> bool" where
  "writable_keys n ks \<longleftrightarrow> list_all (\<lambda>k. case node_prop n k of Some v \<Rightarrow> writable_field k v | None \<Rightarrow> True) ks"

lemma key_step:
  assumes "settled st" and "writable_keys n [k]"
  shows "\<exists>st'. lex_steps lenient f i (case node_prop n k of Some v \<Rightarrow> field_lines k v | None \<Rightarrow> []) st st' \<and> settled st'
     \<and> same_record st st' \<and> lx_fields st' = read_key n (lx_fields st) k
     \<and> rows (i + length (case node_prop n k of Some v \<Rightarrow> field_lines k v | None \<Rightarrow> [])) st' = rows i st"
proof (cases "node_prop n k")
  case None
  with assms(1) show ?thesis by (intro exI [of _ st]) (simp add: read_key_def same_record_def)
next
  case (Some v)
  with assms(2) have "writable_field k v" by (simp add: writable_keys_def)
  then obtain st' where st': "field_block lenient f i k v st st'"
    using field_step [OF assms(1)] by blast
  with Some show ?thesis
    by (intro exI [of _ st']) (simp add: field_block_def read_key_def add_field_def)
qed

lemma key_steps:
  assumes "settled st" and "writable_keys n ks" and "list_all writable_edge es" and "owed = edges_lines es"
    and "key_lines n at_key owed ks = (ls, left)"
  shows "\<exists>st'. lex_steps lenient f i ls st st' \<and> settled st' \<and> lx_faults st' = lx_faults st \<and> lx_fields st' = foldl (read_key n) (lx_fields st) ks
     \<and> ((left = owed \<and> rows (i + length ls) st' = rows i st \<and> marks (lx_entries st') = marks (lx_entries st))
        \<or> (left = [] \<and> seen st' = seen st @ map read_edge es))"
  using assms
proof (induction ks arbitrary: st i es owed ls)
  case Nil
  then show ?case by (intro exI [of _ st]) simp
next
  case (Cons k ks)
  let ?own = "case node_prop n k of Some v \<Rightarrow> field_lines k v | None \<Rightarrow> []"
  define here where "here = (if at_key = Some k then es else [])"
  define later where "later = (if at_key = Some k then [] else es)"
  obtain ls' where ls': "key_lines n at_key (edges_lines later) ks = (ls', left)" "ls = edges_lines here @ ?own @ ls'"
    using Cons.prems(4,5) by (auto simp: Let_def here_def later_def edges_lines_def split: prod.splits if_splits)
  have writable: "writable_keys n [k]" "writable_keys n ks" "list_all writable_edge here" "list_all writable_edge later"
    using Cons.prems(2,3) by (auto simp: writable_keys_def here_def later_def)
  let ?i1 = "i + length (edges_lines here)"
  let ?i2 = "?i1 + length ?own"
  obtain st1 where st1: "lex_steps lenient f i (edges_lines here) st st1" "settled st1" "lx_faults st1 = lx_faults st"
      "lx_fields st1 = lx_fields st" "rows ?i1 st1 = rows i st @ edge_rows (i + 1) here"
      "marks (lx_entries st1) = marks (lx_entries st) @ (if here = [] then [] else [(i, None)])"
    using edges_step [OF Cons.prems(1) writable(3)] by blast
  obtain st2 where st2: "lex_steps lenient f ?i1 ?own st1 st2" "settled st2" "same_record st1 st2"
      "lx_fields st2 = read_key n (lx_fields st1) k" "rows ?i2 st2 = rows ?i1 st1"
    using key_step [OF st1(2) writable(1)] by blast
  have seen2: "seen st2 = seen st @ map read_edge here"
    using arg_cong [OF st1(5), of "map ee_edge"] arg_cong [OF st2(5), of "map ee_edge"] by (simp add: seen_rows)
  obtain st' where st': "lex_steps lenient f ?i2 ls' st2 st'" "settled st'" "lx_faults st' = lx_faults st2"
      "lx_fields st' = foldl (read_key n) (lx_fields st2) ks"
      "(left = edges_lines later \<and> rows (?i2 + length ls') st' = rows ?i2 st2 \<and> marks (lx_entries st') = marks (lx_entries st2))
         \<or> (left = [] \<and> seen st' = seen st2 @ map read_edge later)"
    using Cons.IH [OF st2(2) writable(2,4) refl ls'(1)] by blast
  have "lex_steps lenient f i ls st st'"
    unfolding ls'(2) by (intro steps_append [OF st1(1)] steps_append [OF st2(1)]) (use st'(1) in simp)
  moreover have "(left = owed \<and> rows (i + length ls) st' = rows i st \<and> marks (lx_entries st') = marks (lx_entries st))
      \<or> (left = [] \<and> seen st' = seen st @ map read_edge es)"
  proof (cases "here = []")
    case True
    then have "later = es" by (auto simp: here_def later_def split: if_splits)
    with True show ?thesis
      using st'(5) st2(3,5) st1(5,6) seen2 Cons.prems(4)
      by (auto simp: ls'(2) same_record_def edges_lines_def add.assoc)
  next
    case False
    then have "later = []" "here = es" by (auto simp: here_def later_def split: if_splits)
    moreover have "seen st' = seen st2" if "rows (?i2 + length ls') st' = rows ?i2 st2"
      using arg_cong [OF that, of "map ee_edge"] by (simp add: seen_rows)
    ultimately show ?thesis
      using st'(5) seen2 by (auto simp: edges_lines_def)
  qed
  ultimately show ?case
    using st'(2,3,4) st1(3,4) st2(3,4) by (intro exI [of _ st']) (simp add: same_record_def)
qed

end
