(* ===== verification/NodeFileProps.thy ===== *)
theory NodeFileProps
  imports NodeRoundTrip
begin

text \<open>
  What a node file means once it is written and read: the fence, the round-trip law, the strict
  and the lenient reader, the line ranges the editors splice by, and what an edit leaves alone.
\<close>

subsection \<open>The fence\<close>

lemma after_append [simp]: "after p (p @ s) = Some s"
  by (induction p) auto

lemma after_Some: "after p s = Some r \<longleftrightarrow> s = p @ r"
  by (induction p s rule: after.induct) auto

text \<open>A line of the serializer: no line break, and not a fence.\<close>

definition plain_line :: "string \<Rightarrow> bool" where
  "plain_line l \<longleftrightarrow> LF \<notin> set l \<and> CR \<notin> set l \<and> after ''---'' l = None"

lemma not_fence: "LF \<notin> set l \<Longrightarrow> after ''---'' l = None \<Longrightarrow> after ''---'' (l @ LF # s) = None"
proof (rule ccontr)
  assume l: "LF \<notin> set l" "after ''---'' l = None" "after ''---'' (l @ LF # s) \<noteq> None"
  then obtain r where r: "l @ LF # s = ''---'' @ r" by (auto simp: after_Some)
  then have "length l \<ge> 3"
    using l(1) by (cases l; cases "tl l"; cases "tl (tl l)") auto
  then have "take 3 l = ''---''" using arg_cong [OF r, of "take 3"] by simp
  then have "l = ''---'' @ drop 3 l" by (metis append_take_drop_id)
  then have "after ''---'' l = Some (drop 3 l)" by (simp only: after_Some)
  with l(2) show False by simp
qed

lemma find_close_line: "LF \<notin> set l \<Longrightarrow> find_close (l @ LF # s) = (case after ''---'' s of Some r \<Rightarrow> Some (l, r) | None \<Rightarrow> map_option (\<lambda>(a, r). (l @ LF # a, r)) (find_close s))"
  by (induction l) (auto split: option.split simp: option.map_comp comp_def case_prod_unfold)

lemma find_close_lines:
  "ls \<noteq> [] \<Longrightarrow> \<forall>l\<in>set ls. LF \<notin> set l \<Longrightarrow> \<forall>l\<in>set (tl ls). after ''---'' l = None \<Longrightarrow>
   find_close (join [LF] ls @ LF # ''---'' @ r) = Some (join [LF] ls, r)"
proof (induction ls rule: induct_list012)
  case (2 l)
  then show ?case using find_close_line [of l "''---'' @ r"] by simp
next
  case (3 l l2 ls)
  let ?s = "join [LF] (l2 # ls) @ LF # ''---'' @ r"
  have "after ''---'' ?s = None"
  proof (cases ls)
    case Nil
    with 3 show ?thesis using not_fence [of l2 "''---'' @ r"] by simp
  next
    case (Cons l3 ls')
    with 3 show ?thesis using not_fence [of l2 "join [LF] (l3 # ls') @ LF # ''---'' @ r"] by simp
  qed
  moreover have "find_close ?s = Some (join [LF] (l2 # ls), r)"
    using 3 by (intro "3.IH"(2)) auto
  ultimately show ?case
    using find_close_line [of l ?s] 3 by simp
qed simp

lemma find_close_empty: "find_close (LF # ''---'' @ r) = Some ([], r)"
  by simp

lemma split_written:
  assumes "\<forall>l\<in>set ls. plain_line l" and "CR \<notin> set t"
  shows "\<exists>d. split_document (''---'' @ LF # join [LF] ls @ LF # ''---'' @ LF # t) = Some d
     \<and> d_frontmatter d = join [LF] ls \<and> d_body d = t"
proof -
  let ?raw = "''---'' @ LF # join [LF] ls @ LF # ''---'' @ LF # t"
  have "CR \<notin> set (join [LF] ls)"
    using assms(1) by (induction "[LF]" ls rule: join.induct) (auto simp: plain_line_def)
  then have "fold_crlf ?raw = ?raw"
    using assms(2) by (intro fold_crlf_no_cr) auto
  moreover have "after (''---'' @ [LF]) ?raw = Some (join [LF] ls @ LF # ''---'' @ LF # t)"
    by simp
  moreover have "find_close (join [LF] ls @ LF # ''---'' @ LF # t) = Some (join [LF] ls, LF # t)"
  proof (cases "ls = []")
    case True
    then show ?thesis by simp
  next
    case False
    then show ?thesis
      using assms(1) find_close_lines [OF False, of "LF # t"] by (auto simp: plain_line_def dest: list.set_sel(2))
  qed
  ultimately show ?thesis
    unfolding split_document_def by (auto split: prod.split)
qed

subsection \<open>The lines the serializer writes\<close>

lemma token_plain_line: "list_all is_token k \<Longrightarrow> LF \<notin> set k \<and> CR \<notin> set k"
  by (auto simp: list_all_iff token_plain)

lemma indented_plain: "LF \<notin> set s \<Longrightarrow> CR \<notin> set s \<Longrightarrow> plain_line (CHR '' '' # s)"
  by (simp add: plain_line_def)

lemma keyed_plain: "key_token k \<Longrightarrow> LF \<notin> set s \<Longrightarrow> CR \<notin> set s \<Longrightarrow> plain_line (k @ s)"
  by (cases k) (auto simp: plain_line_def key_token_def list_all_iff token_plain dest: word_not_dash)

lemma field_lines_plain:
  assumes "writable_field k v" and "l \<in> set (field_lines k v)"
  shows "plain_line l"
proof -
  have key: "key_token k" using assms(1) by (simp add: writable_field_def field_key_def)
  show ?thesis
  proof (cases v)
    case (Flat s)
    with assms show ?thesis
      by (auto simp: field_lines_def writable_field_def emit_no_lf emit_no_cr intro!: keyed_plain [OF key])
  next
    case (Items xs)
    have plain: "x \<in> set xs \<Longrightarrow> LF \<notin> set x \<and> CR \<notin> set x \<and> LF \<notin> set (emit_scalar True x) \<and> CR \<notin> set (emit_scalar True x)" for x
      using assms(1) Items by (auto simp: writable_field_def list_all_iff writable_item_def emit_no_lf emit_no_cr one_line_id)
    have "LF \<notin> set (join '', '' xs)" "CR \<notin> set (join '', '' xs)"
      using plain by (induction "'', ''" xs rule: join.induct) auto
    then have inline: "plain_line (k @ '': ['' @ join '', '' xs @ '']'')"
      by (intro keyed_plain [OF key]) auto
    have items: "x \<in> set xs \<Longrightarrow> plain_line (''  - '' @ emit_scalar True x)" for x
      using indented_plain plain by simp
    have "plain_line (k @ '': []'')" "plain_line (k @ '':'')"
      by (intro keyed_plain [OF key]; simp)+
    with inline items assms(2) Items show ?thesis
      by (auto simp: field_lines_def split: if_splits)
  qed (use assms in \<open>simp add: field_lines_def\<close>)
qed

lemma flow_tail_plain:
  "list_all (\<lambda>(k, v). simple_token k \<and> simple_token v) as \<Longrightarrow> LF \<notin> set (flow_tail as) \<and> CR \<notin> set (flow_tail as)"
  by (induction as) (auto simp: flow_tail_def simple_token_def dest!: token_plain_line)

lemma edge_lines_plain:
  assumes "writable_edge e" and "l \<in> set (edge_entry_lines e)"
  shows "plain_line l"
proof -
  obtain t u as where e: "e = (''type'', t) # (''to'', u) # as" "list_all writable_attr as"
      "CR \<notin> set (folded_line t)" "CR \<notin> set (folded_line u)"
    using writable_edge_cases [OF assms(1)] by blast
  show ?thesis
  proof (cases "flowable e")
    case True
    then have toks: "list_all is_token t" "list_all is_token u" "list_all (\<lambda>(k, v). simple_token k \<and> simple_token v) as"
      by (auto simp: flowable_def e(1) attr_text_def extra_attrs_writable [OF e(2)] simple_token_def)
    have "l = CHR '' '' # '' - {type: '' @ t @ '', to: '' @ u @ flow_tail as @ ''}''"
      using assms(2) True by (simp add: edge_entry_lines_def e(1) attr_text_def extra_attrs_writable [OF e(2)])
    with toks flow_tail_plain [OF toks(3)] show ?thesis
      using indented_plain token_plain_line by auto
  next
    case False
    have attrs: "(k, v) \<in> set as \<Longrightarrow> plain_line (''    '' @ k @ '': '' @ emit_scalar False v)" for k v
      using e(2) token_plain_line [of k] indented_plain
      by (auto simp: list_all_iff [of writable_attr] writable_attr_def key_token_def emit_no_lf emit_no_cr)
    have "plain_line (''  - type: '' @ emit_scalar True t)" "plain_line (''    to: '' @ emit_scalar True u)"
      using e indented_plain by (simp_all add: emit_no_lf emit_no_cr)
    with attrs assms(2) False show ?thesis
      by (auto simp: edge_entry_lines_def e(1) attr_text_def extra_attrs_writable [OF e(2)])
  qed
qed

lemma key_lines_all:
  assumes "key_lines n at_key owed ks = (ls, left)" and "list_all P owed"
    and "\<And>k v. k \<in> set ks \<Longrightarrow> node_prop n k = Some v \<Longrightarrow> list_all P (field_lines k v)"
  shows "list_all P (ls @ left)"
  using assms
proof (induction ks arbitrary: owed ls left)
  case (Cons k ks)
  obtain ls' where ls': "key_lines n at_key (if at_key = Some k then [] else owed) ks = (ls', left)"
      "ls = (if at_key = Some k then owed else []) @ (case node_prop n k of Some v \<Rightarrow> field_lines k v | None \<Rightarrow> []) @ ls'"
    using Cons.prems by (auto simp: Let_def split: prod.splits)
  have "list_all P (ls' @ left)"
    using Cons.prems by (intro Cons.IH [OF ls'(1)]) auto
  moreover have "list_all P (case node_prop n k of Some v \<Rightarrow> field_lines k v | None \<Rightarrow> [])"
    using Cons.prems(3) [of k] by (simp split: option.split)
  ultimately show ?case
    using Cons.prems(2) unfolding ls'(2) by simp
qed simp

subsection \<open>The fields read back\<close>

text \<open>A node the serializer writes so that it reads back: an object (distinct keys) whose fields and
  edges are writable, and a body without carriage returns.\<close>

definition writable_node :: "node_file \<Rightarrow> bool" where
  "writable_node n \<longleftrightarrow> distinct (map fst (nf_props n))
     \<and> list_all (\<lambda>(k, v). k = ''body'' \<or> k = ''file'' \<or> writable_field k v) (nf_props n)
     \<and> list_all writable_edge (nf_edges n) \<and> CR \<notin> set (body_text n)"

text \<open>The value a key has in the file.\<close>

definition written :: "node_file \<Rightarrow> string \<Rightarrow> field_value option" where
  "written n k =
     (case node_prop n k of
        Some v \<Rightarrow> if k = ''body'' \<or> k = ''file'' \<or> field_lines k v = [] then None else Some (read_value v)
      | None \<Rightarrow> None)"

text \<open>What every property of the node reads as: the body trimmed, the defaults of the two
  corrections, the legacy \<open>project\<close> key following \<open>repo\<close>, and any other key as written.\<close>

definition read_prop :: "node_file \<Rightarrow> string \<Rightarrow> string \<Rightarrow> field_value option" where
  "read_prop n file k =
     (if k = ''project'' \<and> written n ''repo'' \<noteq> None then written n ''repo''
      else case written n k of
        Some v \<Rightarrow> Some v
      | None \<Rightarrow> map_of [(''pin'', Items []), (''exclude'', Items []), (''body'', Flat (trim (body_text n))), (''file'', Flat file)] k)"

lemma writable_prop:
  "writable_node n \<Longrightarrow> node_prop n k = Some v \<Longrightarrow> k \<noteq> ''body'' \<Longrightarrow> k \<noteq> ''file'' \<Longrightarrow> writable_field k v"
  by (auto simp: writable_node_def node_prop_def list_all_iff dest!: map_of_SomeD)

lemma order_keys: "k \<in> set (key_order n) \<longleftrightarrow> node_prop n k \<noteq> None \<and> k \<noteq> ''body'' \<and> k \<noteq> ''file''"
proof -
  have "k \<in> fst ` set (nf_props n) \<longleftrightarrow> node_prop n k \<noteq> None"
    by (simp add: node_prop_def map_of_eq_None_iff)
  then show ?thesis by (auto simp: key_order_def)
qed

lemma order_writable: "writable_node n \<Longrightarrow> writable_keys n (key_order n)"
  using writable_prop by (auto simp: writable_keys_def list_all_iff order_keys split: option.split)

lemma read_key_written:
  "k \<noteq> ''body'' \<Longrightarrow> k \<noteq> ''file'' \<Longrightarrow> read_key n fs k = (case written n k of None \<Rightarrow> fs | Some v \<Rightarrow> set_prop k v fs)"
  by (auto simp: read_key_def written_def split: option.split)

lemma map_of_set_prop: "k \<noteq> ''__proto__'' \<Longrightarrow> map_of (set_prop k v fs) = (map_of fs)(k \<mapsto> v)"
  by (simp add: set_prop_def update_conv')

lemma distinct_set_prop: "distinct (map fst fs) \<Longrightarrow> distinct (map fst (set_prop k v fs))"
  by (simp add: set_prop_def distinct_update)

lemma read_keys:
  assumes "\<forall>k\<in>set ks. k \<noteq> ''body'' \<and> k \<noteq> ''file'' \<and> k \<noteq> ''__proto__''" and "distinct (map fst fs)"
  shows "distinct (map fst (foldl (read_key n) fs ks))
     \<and> map_of (foldl (read_key n) fs ks) k = (if k \<in> set ks \<and> written n k \<noteq> None then written n k else map_of fs k)"
  using assms
proof (induction ks arbitrary: fs)
  case (Cons a ks)
  have a: "read_key n fs a = (case written n a of None \<Rightarrow> fs | Some v \<Rightarrow> set_prop a v fs)"
    using Cons.prems(1) by (intro read_key_written) auto
  have "distinct (map fst (read_key n fs a))"
    using Cons.prems(2) distinct_set_prop by (auto simp: a split: option.split)
  moreover have "map_of (read_key n fs a) k = (if k = a \<and> written n a \<noteq> None then written n a else map_of fs k)"
    using Cons.prems(1) by (auto simp: a map_of_set_prop split: option.split)
  moreover have "\<forall>k\<in>set ks. k \<noteq> ''body'' \<and> k \<noteq> ''file'' \<and> k \<noteq> ''__proto__''"
    using Cons.prems(1) by simp
  ultimately show ?case
    using Cons.IH [of "read_key n fs a"] by (cases "k = a"; cases "written n a"; cases "written n k"; simp)
qed simp

lemma map_of_fold_props:
  "distinct (map fst fs) \<Longrightarrow> \<forall>k\<in>fst ` set fs. k \<noteq> ''__proto__'' \<Longrightarrow>
   map_of (foldl (\<lambda>ps (k, v). set_prop k v ps) base fs) k = (case map_of fs k of Some v \<Rightarrow> Some v | None \<Rightarrow> map_of base k)"
proof (induction fs arbitrary: base)
  case (Cons p fs)
  obtain a v where p: "p = (a, v)" by (cases p)
  have "a \<notin> fst ` set fs" using Cons.prems(1) by (auto simp: p)
  then have "map_of fs a = None" by (simp add: map_of_eq_None_iff)
  moreover have "map_of (set_prop a v base) = (map_of base)(a \<mapsto> v)"
    using Cons.prems(2) by (intro map_of_set_prop) (simp add: p)
  ultimately show ?case
    using Cons.IH [of "set_prop a v base"] Cons.prems by (auto simp: p split: option.split)
qed simp

subsection \<open>The round trip\<close>

lemma start: "settled empty_lex" "rows i empty_lex = []" "seen empty_lex = []"
  by (simp_all add: empty_lex_def seen_def)

lemma writable_edges: "writable_node n \<Longrightarrow> list_all writable_edge (nf_edges n)"
  by (simp add: writable_node_def)

lemma front_lines_lex:
  assumes "writable_node n"
  shows "\<exists>lx. lex_lines lenient f 0 (front_lines at_key n) empty_lex = Inr lx
     \<and> lx_fields lx = foldl (read_key n) [] (key_order n)
     \<and> map ee_edge (lx_edges lx) = map read_edge (nf_edges n) \<and> lx_faults lx = []"
proof -
  note edges = writable_edges [OF assms]
  obtain ls left where kl: "key_lines n at_key (edges_lines (nf_edges n)) (key_order n) = (ls, left)"
    by (cases "key_lines n at_key (edges_lines (nf_edges n)) (key_order n)")
  then have front: "front_lines at_key n = ls @ left" by (simp add: front_lines_def)
  obtain st1 where st1: "lex_steps lenient f 0 ls empty_lex st1" "settled st1" "lx_faults st1 = lx_faults empty_lex"
      "lx_fields st1 = foldl (read_key n) (lx_fields empty_lex) (key_order n)"
      "(left = edges_lines (nf_edges n) \<and> rows (0 + length ls) st1 = rows 0 empty_lex \<and> marks (lx_entries st1) = marks (lx_entries empty_lex))
         \<or> (left = [] \<and> seen st1 = seen empty_lex @ map read_edge (nf_edges n))"
    using key_steps [OF start(1) order_writable [OF assms] edges refl kl] by blast
  have "\<exists>st2. lex_steps lenient f (0 + length ls) left st1 st2 \<and> settled st2 \<and> lx_faults st2 = lx_faults st1 \<and> lx_fields st2 = lx_fields st1
      \<and> seen st2 = map read_edge (nf_edges n)"
  proof (cases "left = edges_lines (nf_edges n) \<and> rows (0 + length ls) st1 = []")
    case False
    with st1(5) start have "left = []" "seen st1 = map read_edge (nf_edges n)" by auto
    with st1(2) show ?thesis by (intro exI [of _ st1]) simp
  next
    case True
    obtain st2 where st2: "lex_steps lenient f (0 + length ls) left st1 st2" "settled st2" "lx_faults st2 = lx_faults st1"
        "lx_fields st2 = lx_fields st1"
        "rows (0 + length ls + length (edges_lines (nf_edges n))) st2 = rows (0 + length ls) st1 @ edge_rows (0 + length ls + 1) (nf_edges n)"
      using edges_step [OF st1(2) edges] True by blast
    have "seen st2 = map read_edge (nf_edges n)"
      using arg_cong [OF st2(5), of "map ee_edge"] True seen_rows [of "0 + length ls" st1] by (simp add: seen_rows)
    with st2 show ?thesis by blast
  qed
  then obtain st2 where st2: "lex_steps lenient f (0 + length ls) left st1 st2" "settled st2" "lx_faults st2 = lx_faults st1"
      "lx_fields st2 = lx_fields st1" "seen st2 = map read_edge (nf_edges n)" by blast
  have "lex_lines lenient f 0 (front_lines at_key n) empty_lex
      = Inr (st2\<lparr>lx_buf := None, lx_edges := rows (0 + length (ls @ left)) st2\<rparr>)"
    unfolding front by (rule steps_lines [OF steps_append [OF st1(1) st2(1)] st2(2)])
  then show ?thesis
    using st1(3,4) st2(3,4,5) by (auto simp: seen_rows empty_lex_def)
qed

lemma front_lines_plain:
  assumes "writable_node n"
  shows "list_all plain_line (front_lines at_key n)"
proof -
  obtain ls left where kl: "key_lines n at_key (edges_lines (nf_edges n)) (key_order n) = (ls, left)"
    by (cases "key_lines n at_key (edges_lines (nf_edges n)) (key_order n)")
  have header: "plain_line ''edges:''" by code_simp
  have "list_all plain_line (edges_lines (nf_edges n))"
    using assms edge_lines_plain header by (auto simp: edges_lines_def writable_node_def list_all_iff)
  moreover have "k \<in> set (key_order n) \<Longrightarrow> node_prop n k = Some v \<Longrightarrow> list_all plain_line (field_lines k v)" for k v
    using field_lines_plain writable_prop [OF assms] unfolding list_all_iff order_keys by blast
  ultimately have "list_all plain_line (ls @ left)"
    by (rule key_lines_all [OF kl])
  then show ?thesis by (simp add: front_lines_def kl)
qed

lemma lex_no_lines: "lex_lines lenient f 0 [[]] empty_lex = lex_lines lenient f 0 [] empty_lex"
  by (simp add: lex_line_def list_match_def kv_match_def flow_match.simps empty_lex_def cont_match_def Let_def flush_buf_def)

lemma front_frontmatter:
  assumes "writable_node n"
  shows "lex_frontmatter lenient f (join [LF] (front_lines at_key n)) = lex_lines lenient f 0 (front_lines at_key n) empty_lex"
proof (cases "front_lines at_key n = []")
  case True
  then show ?thesis by (simp add: lex_frontmatter_def split_lines_def lex_no_lines del: lex_lines.simps)
next
  case False
  have "\<forall>l\<in>set (front_lines at_key n). LF \<notin> set l"
    using front_lines_plain [OF assms] by (auto simp: list_all_iff plain_line_def)
  then show ?thesis by (simp add: lex_frontmatter_def split_join_lines [OF False])
qed

lemma trim_wrapped: "trim (LF # s @ [LF]) = trim s"
proof -
  have "trim_end (s @ [LF]) = trim_end s" for s by (simp add: trim_end_def)
  moreover have "skip_ws (s @ [LF]) = (if skip_ws s = [] then [] else skip_ws s @ [LF])"
    by (induction s) (auto simp: skip_ws_def)
  moreover have "skip_ws (LF # s @ [LF]) = skip_ws (s @ [LF])" by (simp add: skip_ws_def)
  ultimately show ?thesis by (cases "skip_ws s = []") (simp_all add: trim_skip)
qed

lemma body_read:
  "trim (if b = [] then [] else LF # b @ [LF]) = trim b"
  using trim_wrapped by (auto simp: trim_id)

lemma lex_distinct:
  assumes "writable_node n" and "lx_fields lx = foldl (read_key n) [] (key_order n)"
  shows "distinct (map fst (lx_fields lx))" and "map_of (lx_fields lx) k = written n k"
    and "\<forall>k\<in>fst ` set (lx_fields lx). k \<noteq> ''__proto__''"
proof -
  have proto: "\<forall>k\<in>set (key_order n). k \<noteq> ''body'' \<and> k \<noteq> ''file'' \<and> k \<noteq> ''__proto__''"
  proof
    fix k
    assume "k \<in> set (key_order n)"
    then obtain v where v: "node_prop n k = Some v" "k \<noteq> ''body''" "k \<noteq> ''file''"
      unfolding order_keys by blast
    then show "k \<noteq> ''body'' \<and> k \<noteq> ''file'' \<and> k \<noteq> ''__proto__''"
      using writable_prop [OF assms(1) v] by (simp add: writable_field_def field_key_def)
  qed
  note keys = read_keys [OF proto, of "[]"]
  show "distinct (map fst (lx_fields lx))" using keys by (simp add: assms(2))
  have k: "map_of (lx_fields lx) k = written n k" for k
    using keys [of n k] by (auto simp: assms(2) order_keys written_def split: option.splits)
  then show "map_of (lx_fields lx) k = written n k" .
  have "written n ''__proto__'' = None"
    using writable_prop [OF assms(1), of "''__proto__''"] by (auto simp: written_def writable_field_def field_key_def split: option.split)
  then have "''__proto__'' \<notin> fst ` set (lx_fields lx)"
    using k [of "''__proto__''"] by (simp add: map_of_eq_None_iff)
  then show "\<forall>k\<in>fst ` set (lx_fields lx). k \<noteq> ''__proto__''" by blast
qed

lemma written_not_missing: "written n k \<noteq> Some Missing"
proof -
  have "read_value v \<noteq> Missing \<or> field_lines k v = []" for v
    by (cases v) (auto simp: field_lines_def)
  then show ?thesis by (auto simp: written_def split: option.split if_splits)
qed

lemma fold_node_prop:
  assumes "writable_node n" and "lx_fields lx = foldl (read_key n) [] (key_order n)" and "trim body = trim (body_text n)"
  shows "node_prop (fold_node lx body file) k = read_prop n file k"
proof -
  let ?base = "[(''pin'', Items []), (''exclude'', Items []), (''body'', Flat (trim body)), (''file'', Flat file)]"
  let ?props = "foldl (\<lambda>ps (k, v). set_prop k v ps) ?base (lx_fields lx)"
  note facts = lex_distinct [OF assms(1,2)]
  have props: "map_of ?props k = (case written n k of Some v \<Rightarrow> Some v | None \<Rightarrow> map_of ?base k)" for k
    by (simp only: map_of_fold_props [OF facts(1,3)] facts(2))
  have repo: "map_of ?props ''repo'' = written n ''repo''"
    by (subst props) (simp split: option.split)
  have "nf_props (fold_node lx body file) =
     (case written n ''repo'' of None \<Rightarrow> ?props | Some v \<Rightarrow> AList.update ''project'' v ?props)"
    unfolding fold_node_def Let_def repo using written_not_missing [of n "''repo''"] by (auto split: option.split)
  then have "node_prop (fold_node lx body file) k =
     (if k = ''project'' \<and> written n ''repo'' \<noteq> None then written n ''repo'' else map_of ?props k)"
    unfolding node_prop_def by (auto split: option.split simp: update_conv')
  then show ?thesis
    by (simp only: read_prop_def props) (simp only: assms(3))
qed

lemma written_node_reads:
  assumes "writable_node n"
  shows "\<exists>m. parse_frontmatter (serialize_node at_key raw_body n) file = Inr m
     \<and> nf_edges m = map read_edge (nf_edges n) \<and> (\<forall>k. node_prop m k = read_prop n file k)"
proof -
  let ?b = "if raw_body then body_text n else trim (body_text n)"
  let ?t = "if ?b = [] then [] else LF # ?b @ [LF]"
  have "CR \<notin> set ?t"
    using assms set_trim [of "body_text n"] by (auto simp: writable_node_def)
  moreover have "\<forall>l\<in>set (front_lines at_key n). plain_line l"
    using front_lines_plain [OF assms] by (simp add: list_all_iff)
  ultimately obtain d where d: "split_document (serialize_node at_key raw_body n) = Some d"
      "d_frontmatter d = join [LF] (front_lines at_key n)" "d_body d = ?t"
    using split_written [of "front_lines at_key n" ?t] by (auto simp: serialize_node_def Let_def)
  obtain lx where lx: "lex_frontmatter False file (d_frontmatter d) = Inr lx"
      "lx_fields lx = foldl (read_key n) [] (key_order n)" "map ee_edge (lx_edges lx) = map read_edge (nf_edges n)"
    using front_lines_lex [OF assms, where lenient = False and f = "file" and at_key = at_key] unfolding d(2) front_frontmatter [OF assms] by blast
  have "trim (d_body d) = trim (body_text n)"
    unfolding d(3) body_read by simp
  then have "node_prop (fold_node lx (d_body d) file) k = read_prop n file k" for k
    by (rule fold_node_prop [OF assms lx(2)])
  with d(1) lx show ?thesis
    by (simp add: parse_frontmatter_def fold_node_def Let_def)
qed

subsection \<open>The strict and the lenient reader\<close>

text \<open>A lenient result, whose faults extend those before, and the strict result of the same step:
  the same value when no fault was added, else the first added fault, thrown.\<close>

definition reader_mirrors :: "string \<Rightarrow> ('a \<Rightarrow> (nat \<times> string) list) \<Rightarrow> (nat \<times> string) list \<Rightarrow> string + 'a \<Rightarrow> string + 'a \<Rightarrow> bool" where
  "reader_mirrors f faults old lenient strict \<longleftrightarrow>
     (\<exists>x new. lenient = Inr x \<and> faults x = old @ new
        \<and> strict = (case new of [] \<Rightarrow> Inr x | (i, m) # _ \<Rightarrow> Inl (m @ '' in '' @ f)))"

lemma mirrors_return: "faults x = old \<Longrightarrow> reader_mirrors f faults old (Inr x) (Inr x)"
  by (auto simp: reader_mirrors_def intro!: exI [of _ "[]"])

lemma mirrors_bind:
  assumes "reader_mirrors f fa old l s" and "\<And>x. reader_mirrors f fb (fa x) (g x) (h x)"
  shows "reader_mirrors f fb old (case l of Inl m \<Rightarrow> Inl m | Inr x \<Rightarrow> g x) (case s of Inl m \<Rightarrow> Inl m | Inr x \<Rightarrow> h x)"
proof -
  obtain x new where x: "l = Inr x" "fa x = old @ new" "s = (case new of [] \<Rightarrow> Inr x | (i, m) # _ \<Rightarrow> Inl (m @ '' in '' @ f))"
    using assms(1) by (auto simp: reader_mirrors_def)
  obtain y new' where y: "g x = Inr y" "fb y = fa x @ new'" "h x = (case new' of [] \<Rightarrow> Inr y | (i, m) # _ \<Rightarrow> Inl (m @ '' in '' @ f))"
    using assms(2) [of x] by (auto simp: reader_mirrors_def)
  show ?thesis
    unfolding reader_mirrors_def using x y by (intro exI [of _ y] exI [of _ "new @ new'"]) (auto split: list.split)
qed

lemma fault_mirrors:
  "lx_faults st = old \<Longrightarrow> reader_mirrors f lx_faults old (fault True f i m st) (fault False f i m st)"
  unfolding reader_mirrors_def fault_def by (intro exI [of _ "st\<lparr>lx_faults := old @ [(i, m)]\<rparr>"] exI [of _ "[(i, m)]"]) simp

lemma flush_mirrors: "reader_mirrors f lx_faults (lx_faults st) (flush_buf True f i st) (flush_buf False f i st)"
  unfolding flush_buf_def by (auto split: option.split intro: mirrors_return fault_mirrors)

abbreviation step_faults :: "lex \<times> nat \<Rightarrow> (nat \<times> string) list" where
  "step_faults \<equiv> \<lambda>(st, n). lx_faults st"

lemma inline_mirrors:
  "lx_faults st = old \<Longrightarrow> reader_mirrors f step_faults old (lex_inline True f i v rest st) (lex_inline False f i v rest st)"
  unfolding lex_inline_def Let_def
  by (auto split: prod.split option.split intro!: mirrors_return mirrors_bind [OF fault_mirrors])

lemma open_entry_faults [simp]: "lx_faults (open_entry e st) = lx_faults st"
  by (simp add: open_entry_def)

lemma key_mirrors:
  "reader_mirrors f step_faults (lx_faults st) (lex_key True f i k v rest st) (lex_key False f i k v rest st)"
proof (cases "k = ''edges''")
  case True
  then show ?thesis
    by (cases "strip_flow_comment (trim v) = []") (simp_all add: lex_key_def Let_def mirrors_return inline_mirrors)
next
  case False
  then show ?thesis
    by (cases "k \<in> set list_fields \<and> trim v = []") (simp_all add: lex_key_def mirrors_return)
qed

lemma edge_line_mirrors:
  "reader_mirrors f lx_faults (lx_faults st) (lex_edge_line True f i line st) (lex_edge_line False f i line st)"
proof (cases "block_open line")
  case None
  then show ?thesis
    by (cases "case lx_buf st of None \<Rightarrow> None | Some b \<Rightarrow> map_option (Pair b) (block_cont line)")
       (auto simp: lex_edge_line_def mirrors_return fault_mirrors)
next
  case (Some kv)
  then show ?thesis
    by (cases kv) (auto simp: lex_edge_line_def intro!: mirrors_bind [OF flush_mirrors] mirrors_return)
qed

lemma line_mirrors:
  "reader_mirrors f step_faults (lx_faults st) (lex_line True f i line rest st) (lex_line False f i line rest st)"
proof -
  consider (inline) k b where "list_match line = Some (k, b)"
    | (key) k v where "list_match line = None" "kv_match line = Some (k, v)"
    | (flow) e where "list_match line = None" "kv_match line = None" "flow_match line = Some e"
    | (edge) "list_match line = None" "kv_match line = None" "flow_match line = None" "lx_in_edges st"
    | (other) "list_match line = None" "kv_match line = None" "flow_match line = None" "\<not> lx_in_edges st"
    by (metis not_None_eq old.prod.exhaust)
  then show ?thesis
  proof cases
    case inline
    then show ?thesis by (auto simp: lex_line_def intro!: mirrors_bind [OF flush_mirrors] mirrors_return)
  next
    case key
    then show ?thesis by (auto simp: lex_line_def intro!: mirrors_bind [OF flush_mirrors] key_mirrors)
  next
    case flow
    then show ?thesis by (auto simp: lex_line_def Let_def intro!: mirrors_bind [OF flush_mirrors] mirrors_return)
  next
    case edge
    then show ?thesis by (auto simp: lex_line_def intro!: mirrors_bind [OF edge_line_mirrors] mirrors_return)
  next
    case other
    have "lx_faults (on_field k h st) = lx_faults st" for k h
      by (simp add: on_field_def split: option.split)
    then have "lx_faults (lex_continuation i k c st) = lx_faults st" for k c
      by (simp add: lex_continuation_def Let_def)
    then show ?thesis
      using other \<open>\<And>k h. lx_faults (on_field k h st) = lx_faults st\<close>
      by (auto simp: lex_line_def split: option.split intro!: mirrors_return)
  qed
qed

lemma lines_mirror:
  "reader_mirrors f lx_faults (lx_faults st) (lex_lines True f i ls st) (lex_lines False f i ls st)"
proof (induction "length ls" arbitrary: i ls st rule: less_induct)
  case less
  show ?case
  proof (cases ls)
    case Nil
    then show ?thesis by (simp add: flush_mirrors)
  next
    case (Cons line rest)
    then show ?thesis
      using less by (auto simp: less_Suc_eq_le intro!: mirrors_bind [OF line_mirrors])
  qed
qed

lemma lex_readers:
  obtains lx where "lex_frontmatter True f fm = Inr lx"
    and "lex_frontmatter False f fm = (case lx_faults lx of [] \<Rightarrow> Inr lx | (i, m) # _ \<Rightarrow> Inl (m @ '' in '' @ f))"
  using lines_mirror [of f empty_lex 0 "split_lines fm"]
  by (auto simp: reader_mirrors_def lex_frontmatter_def empty_lex_def)

end
