(* ===== verification/NodeRanges.thy ===== *)
theory NodeRanges
  imports NodeFileProps
begin

text \<open>
  The line ranges of a lex: those of the entries are disjoint and in document order, and so are
  those of the edges (the edges of one inline header share its range). The editors splice by
  them; the last part says what a splice keeps.
\<close>

subsection \<open>The invariant of the line loop\<close>

definition entry_before :: "line_entry \<Rightarrow> line_entry \<Rightarrow> bool" where
  "entry_before a b \<longleftrightarrow> en_upto a \<le> en_from b"

definition edge_before :: "edge_entry \<Rightarrow> edge_entry \<Rightarrow> bool" where
  "edge_before a b \<longleftrightarrow> ee_upto a \<le> ee_from b
     \<or> (ee_form a = InlineForm \<and> ee_form b = InlineForm \<and> ee_from a = ee_from b \<and> ee_upto a = ee_upto b)"

definition entry_within :: "nat \<Rightarrow> line_entry \<Rightarrow> bool" where
  "entry_within i e \<longleftrightarrow> en_from e < en_upto e \<and> en_upto e \<le> i"

definition edge_within :: "nat \<Rightarrow> edge_entry \<Rightarrow> bool" where
  "edge_within i e \<longleftrightarrow> ee_from e < ee_upto e \<and> ee_upto e \<le> i"

text \<open>After \<open>i\<close> lines: every range ends by \<open>i\<close>, and a pending edge starts after all the others end.\<close>

definition pending_last :: "nat \<Rightarrow> edge_entry list \<Rightarrow> (attrs \<times> nat) option \<Rightarrow> bool" where
  "pending_last i es p \<longleftrightarrow> (case p of None \<Rightarrow> True | Some (b, a) \<Rightarrow> a < i \<and> list_all (\<lambda>e. ee_upto e \<le> a) es)"

definition ranged :: "nat \<Rightarrow> lex \<Rightarrow> bool" where
  "ranged i st \<longleftrightarrow> sorted_wrt entry_before (lx_entries st) \<and> list_all (entry_within i) (lx_entries st)
     \<and> sorted_wrt edge_before (lx_edges st) \<and> list_all (edge_within i) (lx_edges st)
     \<and> pending_last i (lx_edges st) (lx_buf st)"

lemma pending_simps [simp]:
  "pending_last i es None" "pending_last i es (Some (b, a)) \<longleftrightarrow> a < i \<and> list_all (\<lambda>e. ee_upto e \<le> a) es"
  by (simp_all add: pending_last_def)

lemma pending_mono: "pending_last i es p \<Longrightarrow> i \<le> j \<Longrightarrow> pending_last j es p"
  by (cases p) auto

lemma ranged_empty: "ranged 0 empty_lex"
  by (simp add: ranged_def empty_lex_def)

lemma ranged_mono: "ranged i st \<Longrightarrow> i \<le> j \<Longrightarrow> ranged j st"
  by (auto simp: ranged_def list_all_iff entry_within_def edge_within_def intro: pending_mono)

lemma ranged_fields [simp]:
  "ranged i (st\<lparr>lx_fields := x1\<rparr>) = ranged i st" "ranged i (st\<lparr>lx_faults := x2\<rparr>) = ranged i st"
  "ranged i (st\<lparr>lx_notes := x3\<rparr>) = ranged i st" "ranged i (st\<lparr>lx_last_key := x4\<rparr>) = ranged i st"
  "ranged i (st\<lparr>lx_last_raw := x5\<rparr>) = ranged i st" "ranged i (st\<lparr>lx_block_key := x6\<rparr>) = ranged i st"
  "ranged i (st\<lparr>lx_in_edges := x7\<rparr>) = ranged i st"
  by (simp_all add: ranged_def)

lemma sorted_snoc: "sorted_wrt P (xs @ [x]) \<longleftrightarrow> sorted_wrt P xs \<and> (\<forall>y\<in>set xs. P y x)"
  by (simp add: sorted_wrt_append)

lemma ranged_flush:
  assumes "ranged i st" and "flush_buf lenient f i st = Inr st'"
  shows "ranged i st' \<and> lx_buf st' = None"
proof (cases "lx_buf st")
  case None
  with assms show ?thesis by (simp add: flush_buf_def)
next
  case (Some p)
  obtain b a where p: "p = (b, a)" by (cases p)
  show ?thesis
  proof (cases "is_edge b")
    case True
    with assms Some p show ?thesis
      by (auto simp: flush_buf_def ranged_def sorted_snoc edge_before_def edge_within_def list_all_iff)
  next
    case False
    with assms Some p show ?thesis
      by (auto simp: flush_buf_def fault_def ranged_def split: if_splits)
  qed
qed

text \<open>The open entry is extended to the line just read; a new one starts there.\<close>

lemma ranged_extend:
  assumes "ranged i st"
  shows "ranged (i + 1 + n) (extend_entry (i + n) st)"
proof (cases "lx_entries st" rule: rev_cases)
  case Nil
  with assms show ?thesis by (auto simp: extend_entry_def intro: ranged_mono)
next
  case (snoc es e)
  with ranged_mono [OF assms, of "i + 1 + n"] show ?thesis
    by (auto simp: extend_entry_def ranged_def sorted_snoc entry_before_def entry_within_def)
qed

lemma ranged_open:
  assumes "ranged i st" and "en_from e = i" and "en_upto e = i + 1"
  shows "ranged (i + 1) (open_entry e st)"
  using ranged_mono [OF assms(1), of "i + 1"] assms
  by (auto simp: open_entry_def ranged_def sorted_snoc entry_before_def entry_within_def list_all_iff)

lemma ranged_edge:
  assumes "ranged i st" and "lx_buf st = None"
  shows "ranged (i + 1) (st\<lparr>lx_edges := lx_edges st @ [\<lparr>ee_edge = e, ee_form = fm, ee_from = i, ee_upto = i + 1\<rparr>]\<rparr>)"
  using ranged_mono [OF assms(1), of "i + 1"] assms
  by (auto simp: ranged_def sorted_snoc edge_before_def edge_within_def list_all_iff)

lemma ranged_buf:
  assumes "ranged i st" and "lx_buf st = None"
  shows "ranged (i + 1) (st\<lparr>lx_buf := Some (b, i)\<rparr>)"
  using ranged_mono [OF assms(1), of "i + 1"] assms by (auto simp: ranged_def edge_within_def list_all_iff)

lemma gather_bound: "snd (gather v n ls) \<le> n + length ls"
  by (induction v n ls rule: gather.induct) auto

lemma fault_Inr: "fault lenient f i m st = Inr st' \<Longrightarrow> st' = st\<lparr>lx_faults := lx_faults st @ [(i, m)]\<rparr>"
  by (simp add: fault_def split: if_splits)

text \<open>The rows of an inline header share its range.\<close>

lemma ranged_inline_rows:
  assumes "ranged i st" and "lx_buf st = None" and "i < j"
    and "\<forall>e\<in>set new. ee_form e = InlineForm \<and> ee_from e = i \<and> ee_upto e = j"
  shows "ranged j (st\<lparr>lx_edges := lx_edges st @ new\<rparr>)"
proof -
  have "sorted_wrt edge_before new"
    using assms(4) by (induction new) (auto simp: edge_before_def)
  then show ?thesis
    using ranged_mono [OF assms(1), of j] assms
    by (auto simp: ranged_def sorted_wrt_append edge_before_def edge_within_def list_all_iff)
qed

lemma ranged_inline_flag:
  assumes "ranged i st" and "lx_entries st \<noteq> []"
  shows "ranged i (st\<lparr>lx_entries := butlast (lx_entries st) @ [(last (lx_entries st))\<lparr>en_inline := r\<rparr>]\<rparr>)"
proof -
  obtain es e where "lx_entries st = es @ [e]" using assms(2) by (cases "lx_entries st" rule: rev_cases) auto
  with assms(1) show ?thesis
    by (auto simp: ranged_def sorted_snoc entry_before_def entry_within_def)
qed

lemma extend_entry_Nil [simp]: "lx_entries (extend_entry i st) = [] \<longleftrightarrow> lx_entries st = []"
  by (simp add: extend_entry_def)

lemma sum_case_Inr: "(case x of Inl m \<Rightarrow> Inl m | Inr s \<Rightarrow> g s) = Inr y \<longleftrightarrow> (\<exists>s. x = Inr s \<and> g s = Inr y)"
  by (cases x) auto

lemma inline_ranged:
  assumes "ranged i st0" and "lx_buf st0 = None" and "lx_entries st \<noteq> []" and "lx_buf st = None" and "ranged (i + 1) st"
    and "lx_edges st = lx_edges st0"
    and "lex_inline lenient f i v rest st = Inr (st', n)"
  shows "n \<le> length rest \<and> ranged (i + 1 + n) st'"
proof -
  obtain w m where w: "(if hd v \<in> set ''[{'' then gather v 0 rest else (v, 0)) = (w, m)"
    by (cases "if hd v \<in> set ''[{'' then gather v 0 rest else (v, 0)")
  have m: "m \<le> length rest"
    using w gather_bound [of v 0 rest] by (auto split: if_splits)
  have grow: "ranged (i + 1 + k) (extend_entry (i + k) s)" if "ranged (i + 1) s" for k s
  proof (cases k)
    case 0
    with that ranged_extend [of "i + 1" s 0] show ?thesis
      by (cases "lx_entries s" rule: rev_cases) (auto simp: extend_entry_def ranged_def sorted_snoc entry_before_def entry_within_def)
  next
    case (Suc j)
    with that ranged_extend [of "i + 1" s j] show ?thesis by simp
  qed
  show ?thesis
  proof (cases "parse_inline_edges w")
    case None
    define msg where "msg = ''unparseable inline edges list '' @ json_text (fold_breaks w)"
    define k where "k = (if flow_closed w then m else length (takeWhile (\<lambda>l. \<not> top_key l) (take m rest)))"
    have "(case fault lenient f i msg st of Inl m \<Rightarrow> Inl m | Inr s \<Rightarrow> Inr (extend_entry (i + k) s, k)) = Inr (st', n)"
      using assms(7) unfolding lex_inline_def Let_def w by (simp only: prod.case None option.case msg_def k_def)
    then obtain st1 where fault: "fault lenient f i msg st = Inr st1" and pair: "(extend_entry (i + k) st1, k) = (st', n)"
      unfolding sum_case_Inr sum.inject by blast
    have st1: "st' = extend_entry (i + k) st1" "n = k" using Pair_inject [OF pair] by metis+
    have "k \<le> length rest"
      using m length_takeWhile_le [of "\<lambda>l. \<not> top_key l" "take m rest"] by (auto simp: k_def)
    moreover have "ranged (i + 1) st1"
      using fault_Inr [OF fault] assms(5) by simp
    ultimately show ?thesis using grow [of st1 k] st1 by simp
  next
    case (Some parsed)
    let ?st1 = "extend_entry (i + m) st"
    let ?new = "map (\<lambda>x. \<lparr>ee_edge = x, ee_form = InlineForm, ee_from = i, ee_upto = i + m + 1\<rparr>) parsed"
    let ?st2 = "?st1\<lparr>lx_entries := butlast (lx_entries ?st1) @ [(last (lx_entries ?st1))\<lparr>en_inline := Some (i, i + m + 1)\<rparr>]\<rparr>"
    have st': "st' = ?st2\<lparr>lx_edges := lx_edges st @ ?new, lx_notes := lx_notes st @ (if hd w = CHR ''{'' then [(i, length parsed)] else [])\<rparr>"
        and n: "n = m"
      using assms(7) Some unfolding lex_inline_def Let_def w by auto
    have entries: "ranged (i + 1 + m) ?st2"
      using ranged_inline_flag [OF grow [OF assms(5), of m]] assms(3) by simp
    have edges: "ranged (i + 1 + m) (st0\<lparr>lx_edges := lx_edges st0 @ ?new\<rparr>)"
      using ranged_inline_rows [OF assms(1,2), of "i + 1 + m" ?new] by auto
    have "ranged (i + 1 + m) st'"
      using entries edges assms(2,4,6) unfolding st' by (simp add: ranged_def)
    with m n show ?thesis by simp
  qed
qed

lemma key_ranged:
  assumes "ranged i st" and "lx_buf st = None" and "lex_key lenient f i k v rest st = Inr (st', n)"
  shows "n \<le> length rest \<and> ranged (i + 1 + n) st'"
proof -
  have opened: "ranged (i + 1) (open_entry \<lparr>en_kind = kd, en_key = k, en_form = fm, en_from = i, en_upto = i + 1, en_inline = None\<rparr> st)" for kd fm
    using assms(1) by (intro ranged_open) auto
  let ?st1 = "(open_entry \<lparr>en_kind = EdgesEntry, en_key = k, en_form = None, en_from = i, en_upto = i + 1, en_inline = None\<rparr> st)
      \<lparr>lx_in_edges := True, lx_last_key := None, lx_block_key := None\<rparr>"
  show ?thesis
  proof (cases "k = ''edges'' \<and> strip_flow_comment (trim v) \<noteq> []")
    case True
    then have "lex_inline lenient f i (strip_flow_comment (trim v)) rest ?st1 = Inr (st', n)"
      using assms(3) by (simp add: lex_key_def Let_def)
    moreover have "lx_entries ?st1 \<noteq> []" "lx_buf ?st1 = None" "lx_edges ?st1 = lx_edges st"
      using assms(2) by (simp_all add: open_entry_def)
    moreover have "ranged (i + 1) ?st1" using opened by simp
    ultimately show ?thesis using inline_ranged [OF assms(1,2)] by blast
  next
    case False
    with assms(3) opened show ?thesis
      by (auto simp: lex_key_def Let_def split: if_splits)
  qed
qed

lemma line_extended: "ranged i st \<Longrightarrow> ranged (i + 1) (extend_entry i st)"
  using ranged_extend [of i st 0] by simp

lemma ranged_on_field [simp]: "ranged i (on_field k h st) = ranged i st"
  by (simp add: on_field_def split: option.split)

lemma edge_line_ranged:
  assumes "ranged i st" and "lex_edge_line lenient f i line st = Inr st'"
  shows "ranged (i + 1) st'"
proof (cases "block_open line")
  case (Some kv)
  obtain k v where kv: "kv = (k, v)" by (cases kv)
  obtain st1 where st1: "flush_buf lenient f i st = Inr st1"
      "st' = extend_entry i (st1\<lparr>lx_buf := Some (set_prop (edge_key k) (scalar_value (trim v)) [], i)\<rparr>)"
    using assms(2) Some kv by (auto simp: lex_edge_line_def split: sum.splits)
  note flushed = ranged_flush [OF assms(1) st1(1)]
  let ?b = "Some (set_prop (edge_key k) (scalar_value (trim v)) [], i)"
  have "ranged (i + 1) ((extend_entry i st1)\<lparr>lx_buf := ?b\<rparr>)"
    using line_extended [of i st1] flushed ranged_buf [of i st1] by (simp add: ranged_def)
  moreover have "extend_entry i (st1\<lparr>lx_buf := ?b\<rparr>) = (extend_entry i st1)\<lparr>lx_buf := ?b\<rparr>"
    by (simp add: extend_entry_def)
  ultimately show ?thesis using st1(2) by simp
next
  case None
  show ?thesis
  proof (cases "case lx_buf st of None \<Rightarrow> None | Some b \<Rightarrow> map_option (Pair b) (block_cont line)")
    case (Some p)
    then obtain eb a k v where p: "p = ((eb, a), (k, v))" "lx_buf st = Some (eb, a)"
      by (cases p) (auto split: option.splits)
    have "ranged i (st\<lparr>lx_buf := Some (set_prop (edge_key k) (scalar_value (trim v)) eb, a)\<rparr>)"
      using assms(1) p(2) by (simp add: ranged_def)
    then show ?thesis
      using assms(2) None Some p line_extended by (auto simp: lex_edge_line_def)
  next
    case no: None
    then show ?thesis
      using assms None line_extended [of i st] ranged_mono [of i st "i + 1"]
      by (auto simp: lex_edge_line_def dest: fault_Inr split: if_splits)
  qed
qed

lemma line_ranged:
  assumes "ranged i st" and "lex_line lenient f i line rest st = Inr (st', n)"
  shows "n \<le> length rest \<and> ranged (i + 1 + n) st'"
proof -
  consider (inline) k b where "list_match line = Some (k, b)"
    | (key) k v where "list_match line = None" "kv_match line = Some (k, v)"
    | (flow) e where "list_match line = None" "kv_match line = None" "flow_match line = Some e"
    | (edge) "list_match line = None" "kv_match line = None" "flow_match line = None" "lx_in_edges st"
    | (other) "list_match line = None" "kv_match line = None" "flow_match line = None" "\<not> lx_in_edges st"
    by (metis not_None_eq old.prod.exhaust)
  then show ?thesis
  proof cases
    case inline
    obtain st1 where st1: "flush_buf lenient f i st = Inr st1"
      using assms(2) inline by (auto simp: lex_line_def split: sum.splits)
    have "ranged i st1" using ranged_flush [OF assms(1) st1] by simp
    then show ?thesis
      using assms(2) inline st1 ranged_open [of i st1 "\<lparr>en_kind = ListEntry, en_key = k, en_form = Some InlineForm, en_from = i, en_upto = i + 1, en_inline = None\<rparr>"]
      by (auto simp: lex_line_def)
  next
    case key
    obtain st1 where st1: "flush_buf lenient f i st = Inr st1" "lex_key lenient f i k v rest st1 = Inr (st', n)"
      using assms(2) key by (auto simp: lex_line_def split: sum.splits)
    then show ?thesis using ranged_flush [OF assms(1) st1(1)] key_ranged by blast
  next
    case flow
    obtain st1 where st1: "flush_buf lenient f i st = Inr st1"
      using assms(2) flow by (auto simp: lex_line_def split: sum.splits)
    let ?row = "\<lparr>ee_edge = e, ee_form = FlowForm, ee_from = i, ee_upto = i + 1\<rparr>"
    let ?st2 = "st1\<lparr>lx_edges := lx_edges st1 @ [?row]\<rparr>"
    note flushed = ranged_flush [OF assms(1) st1]
    have step: "ranged (i + 1) ?st2" using flushed ranged_edge by blast
    have "extend_entry i ?st2 = (extend_entry i st1)\<lparr>lx_edges := lx_edges st1 @ [?row]\<rparr>"
      by (simp add: extend_entry_def)
    then have "ranged (i + 1) (extend_entry i ?st2)"
      using step flushed line_extended [of i st1] by (simp add: ranged_def)
    with step show ?thesis
      using assms(2) flow st1 by (auto simp: lex_line_def Let_def split: if_splits)
  next
    case edge
    then obtain st1 where "lex_edge_line lenient f i line st = Inr st1" "st' = st1" "n = 0"
      using assms(2) by (auto simp: lex_line_def split: sum.splits)
    then show ?thesis using edge_line_ranged [OF assms(1)] by simp
  next
    case other
    have cont: "ranged (i + 1) (lex_continuation i k c st)" for k c
      using assms(1) line_extended [of i] by (simp add: lex_continuation_def Let_def)
    have "n = 0" "ranged (i + 1) st'"
      using assms(2) other cont line_extended [of i] assms(1) ranged_mono [of i st "i + 1"]
      by (auto simp: lex_line_def split: option.splits)
    then show ?thesis by simp
  qed
qed

lemma lines_ranged:
  assumes "ranged i st" and "lex_lines lenient f i ls st = Inr st'"
  shows "ranged (i + length ls) st' \<and> lx_buf st' = None"
  using assms
proof (induction "length ls" arbitrary: i ls st rule: less_induct)
  case less
  show ?case
  proof (cases ls)
    case Nil
    with less.prems show ?thesis using ranged_flush by simp
  next
    case (Cons line rest)
    then obtain st1 n where st1: "lex_line lenient f i line rest st = Inr (st1, n)"
        "lex_lines lenient f (i + 1 + n) (drop n rest) st1 = Inr st'"
      using less.prems(2) by (auto split: sum.splits)
    note step = line_ranged [OF less.prems(1) st1(1)]
    have "ranged (i + 1 + n + length (drop n rest)) st' \<and> lx_buf st' = None"
      using less.hyps [OF _ _ st1(2)] step Cons by simp
    with step Cons show ?thesis by simp
  qed
qed

text \<open>Every lex of a frontmatter is ranged over its lines.\<close>

lemma lex_ranged:
  "lex_frontmatter lenient f fm = Inr lx \<Longrightarrow> ranged (length (split_lines fm)) lx"
  using lines_ranged [OF ranged_empty, of lenient f "split_lines fm" lx] by (simp add: lex_frontmatter_def)

subsection \<open>Splicing disjoint ranges\<close>

definition covered_lines :: "(nat \<times> nat) list \<Rightarrow> nat \<Rightarrow> bool" where
  "covered_lines rs i \<longleftrightarrow> (\<exists>(a, b)\<in>set rs. a \<le> i \<and> i < b)"

text \<open>Ranges in order, disjoint, within \<open>n\<close> lines.\<close>

fun ordered_ranges :: "nat \<Rightarrow> (nat \<times> nat) list \<Rightarrow> nat \<Rightarrow> bool" where
  "ordered_ranges from [] n \<longleftrightarrow> from \<le> n"
| "ordered_ranges from ((a, b) # rs) n \<longleftrightarrow> from \<le> a \<and> a < b \<and> ordered_ranges b rs n"

lemma ordered_bound: "ordered_ranges from rs n \<Longrightarrow> from \<le> n"
  by (induction "from" rs n rule: ordered_ranges.induct) auto

lemma ordered_after: "ordered_ranges from rs n \<Longrightarrow> (a, b) \<in> set rs \<Longrightarrow> from \<le> a \<and> a < b \<and> b \<le> n"
  by (induction "from" rs n rule: ordered_ranges.induct) (auto dest: ordered_bound)

lemma ordered_sorted: "ordered_ranges from rs n \<Longrightarrow> sorted (map fst rs)"
  by (induction "from" rs n rule: ordered_ranges.induct) (auto dest: ordered_after)

lemma nths_splice:
  assumes "ordered_ranges from rs (length xs)"
  shows "foldr (\<lambda>(a, b) ys. splice a b [] ys) rs xs = nths xs {i. \<not> covered_lines rs i}"
  using assms(1)
proof (induction rs arbitrary: "from")
  case Nil
  then show ?case by (simp add: covered_lines_def nths_all)
next
  case (Cons r rs)
  obtain a b where r: "r = (a, b)" by (cases r)
  have range: "from \<le> a" "a < b" "ordered_ranges b rs (length xs)" using Cons.prems r by auto
  let ?keep = "{i. \<not> covered_lines rs i}"
  have ys: "foldr (\<lambda>(a, b) ys. splice a b [] ys) rs xs = nths xs ?keep"
    using Cons.IH [OF range(3)] .
  have after: "(c, d) \<in> set rs \<Longrightarrow> b \<le> c" for c d
    using ordered_after [OF range(3)] by blast
  then have low: "i < b \<Longrightarrow> i \<in> ?keep" for i
    by (force simp: covered_lines_def)
  have b: "b \<le> length xs" using ordered_bound [OF range(3)] .
  have split: "nths xs A = nths (take b xs) A @ nths (drop b xs) {j. j + b \<in> A}" for A
    using nths_append [of "take b xs" "drop b xs" A] b by (simp add: min_absorb2)
  have head: "nths (take b xs) ?keep = take b xs"
    using low by (intro nths_all) auto
  have "nths xs ?keep = take b xs @ nths (drop b xs) {j. j + b \<in> ?keep}"
    using split [of ?keep] head by simp
  then have "splice a b [] (nths xs ?keep) = take a xs @ nths (drop b xs) {j. j + b \<in> ?keep}"
    using range(2) b by (simp add: splice_def min_absorb2)
  moreover have "nths (take b xs) {i. \<not> covered_lines (r # rs) i} = take a xs"
  proof -
    have low_part: "{i. \<not> covered_lines (r # rs) i} \<inter> {..<b} = {..<a}"
      using range(2) by (auto simp: covered_lines_def r dest: after)
    have "nths (take b xs) A = nths (take b xs) (A \<inter> {..<b})" for A
      unfolding nths_def by (rule arg_cong [of _ _ "map fst"], rule filter_cong) (auto simp: set_zip)
    then have "nths (take b xs) {i. \<not> covered_lines (r # rs) i} = nths (take b xs) ({i. \<not> covered_lines (r # rs) i} \<inter> {..<b})" .
    then show ?thesis
      using range(2) by (simp only: low_part) (simp add: min_absorb1)
  qed
  moreover have "{j. j + b \<in> {i. \<not> covered_lines (r # rs) i}} = {j. j + b \<in> ?keep}"
    using range(2) by (auto simp: covered_lines_def r)
  ultimately show ?case
    using split [of "{i. \<not> covered_lines (r # rs) i}"] by (simp add: r ys)
qed

end
