(* ===== verification/NodeEdits.thy ===== *)
theory NodeEdits
  imports NodeRanges
begin

text \<open>
  What the editors of a node file change and what they leave alone: the body and the fence, the
  lines outside the entries they touch, and the edge list they stand for.
\<close>

subsection \<open>The body\<close>

lemma fold_crlf_break: "fold_crlf (a @ CR # LF # b) = fold_crlf a @ LF # fold_crlf b"
  by (induction a rule: fold_crlf.induct) auto

lemma fold_crlf_Cons: "\<not> (c = CR \<and> s \<noteq> [] \<and> hd s = LF) \<Longrightarrow> fold_crlf (c # s) = c # fold_crlf s"
  by (cases s) auto

lemma fold_crlf_dashes: "after ''---'' (fold_crlf s) = map_option fold_crlf (after ''---'' s)"
proof -
  have dash: "after (CHR ''-'' # p) (fold_crlf s) = (case s of [] \<Rightarrow> None | c # t \<Rightarrow> if c = CHR ''-'' then after p (fold_crlf t) else None)" for p s
    by (cases s rule: fold_crlf.cases) auto
  show ?thesis
    by (cases s; cases "tl s"; cases "tl (tl s)") (auto simp: dash split: list.split)
qed

lemma find_close_raw_text: "find_close_raw t = Some (mid, nl, r) \<Longrightarrow> t = mid @ nl @ ''---'' @ r \<and> (nl = [LF] \<or> nl = [CR, LF])"
proof (induction t arbitrary: mid)
  case (Cons c cs)
  show ?case
  proof (cases "case eol_prefix (c # cs) of None \<Rightarrow> None | Some (nl, r) \<Rightarrow> map_option (Pair nl) (after ''---'' r)")
    case None
    with Cons show ?thesis by auto
  next
    case (Some p)
    with Cons.prems have "mid = []" "p = (nl, r)" by auto
    with Some show ?thesis
      by (auto simp: eol_prefix_def after_Some split: option.splits prod.splits if_splits)
  qed
qed simp

text \<open>The raw text and its folded copy are split at the same fence.\<close>

lemma find_close_fold:
  "find_close (fold_crlf t) = map_option (\<lambda>(mid, nl, r). (fold_crlf mid, fold_crlf r)) (find_close_raw t)"
proof (induction t rule: length_induct)
  case (1 t)
  show ?case
  proof (cases t)
    case Nil
    then show ?thesis by simp
  next
    case (Cons c cs)
    consider (crlf) s where "c = CR" "cs = LF # s" | (lf) "c = LF" | (other) "\<not> (c = CR \<and> cs \<noteq> [] \<and> hd cs = LF)" "c \<noteq> LF"
      by (cases cs) auto
    then show ?thesis
    proof cases
      case crlf
      have IH: "find_close (fold_crlf s) = map_option (\<lambda>(mid, nl, r). (fold_crlf mid, fold_crlf r)) (find_close_raw s)"
        using 1 Cons crlf by auto
      show ?thesis
        using fold_crlf_dashes [of s] IH unfolding Cons crlf
        by (auto simp: eol_prefix_def option.map_comp comp_def case_prod_unfold split: option.split)
    next
      case lf
      have IH: "find_close (fold_crlf cs) = map_option (\<lambda>(mid, nl, r). (fold_crlf mid, fold_crlf r)) (find_close_raw cs)"
        using 1 Cons by auto
      have "fold_crlf (LF # cs) = LF # fold_crlf cs" by (simp add: fold_crlf_Cons)
      moreover have "fold_crlf (LF # a) = LF # fold_crlf a" for a by (simp add: fold_crlf_Cons)
      ultimately show ?thesis
        using fold_crlf_dashes [of cs] IH unfolding Cons lf
        by (auto simp: eol_prefix_def option.map_comp comp_def case_prod_unfold split: option.split)
    next
      case other
      have IH: "find_close (fold_crlf cs) = map_option (\<lambda>(mid, nl, r). (fold_crlf mid, fold_crlf r)) (find_close_raw cs)"
        using 1 Cons by auto
      have eol: "eol_prefix (c # cs) = None" using other by (cases cs) (auto simp: eol_prefix_def)
      have mid: "fold_crlf (c # a) = c # fold_crlf a" if "find_close_raw cs = Some (a, nl, r)" for a nl r
      proof (rule fold_crlf_Cons)
        have "cs = a @ nl @ ''---'' @ r" "nl = [LF] \<or> nl = [CR, LF]"
          using find_close_raw_text [OF that] by auto
        with other show "\<not> (c = CR \<and> a \<noteq> [] \<and> hd a = LF)" by (cases a) auto
      qed
      show ?thesis
        using other IH mid eol unfolding Cons
        by (cases "find_close_raw cs") (auto simp: fold_crlf_Cons)
    qed
  qed
qed

lemma eol_fold: "after [LF] (fold_crlf s) = map_option (\<lambda>(nl, t). fold_crlf t) (eol_prefix s)"
proof (cases s)
  case (Cons c cs)
  then show ?thesis by (cases cs) (auto simp: eol_prefix_def fold_crlf_Cons)
qed (simp add: eol_prefix_def)

lemma eol_text: "eol_prefix s = Some (nl, t) \<Longrightarrow> s = nl @ t"
  by (auto simp: eol_prefix_def after_Some split: option.splits)

text \<open>The document a raw text is split into, in terms of the raw text.\<close>

lemma split_raw:
  assumes "split_document raw = Some d"
  obtains nl1 mid nl2 eol body where "raw = ''---'' @ nl1 @ mid @ nl2 @ ''---'' @ eol @ body"
    and "nl1 = [LF] \<or> nl1 = [CR, LF]" and "nl2 = [LF] \<or> nl2 = [CR, LF]"
    and "d_frontmatter d = fold_crlf mid" and "d_body d = fold_crlf body"
    and "d_fence_eol d = Some eol" and "d_body_raw d = Some body" and "d_crlf d = has_crlf (nl1 @ mid @ nl2)"
proof -
  obtain t' fm r where t': "after (''---'' @ [LF]) (fold_crlf raw) = Some t'" "find_close t' = Some (fm, r)"
    using assms by (auto simp: split_document_def split: option.splits)
  then have "after ''---'' (fold_crlf raw) = Some (LF # t')"
    by (auto simp: after_Some)
  then obtain s where s: "after ''---'' raw = Some s" "fold_crlf s = LF # t'"
    by (auto simp: fold_crlf_dashes)
  obtain nl1 t where t: "eol_prefix s = Some (nl1, t)" "fold_crlf t = t'"
    using eol_fold [of s] s(2) by (cases "eol_prefix s") auto
  obtain mid nl2 r0 where r0: "find_close_raw t = Some (mid, nl2, r0)" "fold_crlf mid = fm" "fold_crlf r0 = r"
    using find_close_fold [of t] t(2) t'(2) by (cases "find_close_raw t") auto
  define eb where "eb = (case eol_prefix r0 of Some p \<Rightarrow> p | None \<Rightarrow> ([], r0))"
  obtain eol body where eb: "eb = (eol, body)" by (cases eb)
  have tail: "r0 = eol @ body" using eb by (auto simp: eb_def dest: eol_text split: option.splits)
  have "(case r of [] \<Rightarrow> [] | c # cs \<Rightarrow> if c = LF then cs else r) = fold_crlf body"
  proof (cases "eol_prefix r0")
    case None
    then have "after [LF] r = None" using eol_fold [of r0] r0(3) by simp
    then show ?thesis using None eb r0(3) by (cases r) (auto simp: eb_def)
  next
    case (Some p)
    then have "after [LF] r = Some (fold_crlf body)" using eol_fold [of r0] r0(3) eb by (simp add: eb_def)
    then show ?thesis by (auto simp: after_Some)
  qed
  then have d: "d = \<lparr>d_frontmatter = fm, d_body = fold_crlf body, d_crlf = has_crlf (nl1 @ mid @ nl2), d_fence_eol = Some eol, d_body_raw = Some body\<rparr>"
    using assms t' s(1) t(1) r0(1) eb by (simp add: split_document_def eb_def [symmetric])
  show thesis
  proof (rule that)
    show "raw = ''---'' @ nl1 @ mid @ nl2 @ ''---'' @ eol @ body"
      using s(1) eol_text [OF t(1)] find_close_raw_text [OF r0(1)] tail by (simp add: after_Some)
    show "nl1 = [LF] \<or> nl1 = [CR, LF]"
      using t(1) by (auto simp: eol_prefix_def split: option.splits)
    show "nl2 = [LF] \<or> nl2 = [CR, LF]"
      using find_close_raw_text [OF r0(1)] by simp
  qed (simp_all add: d r0(2))
qed

lemma edit_keeps_body:
  assumes "split_document raw = Some d" and "edit_document expand edit raw = Some out"
  shows "\<exists>head head' eol body. raw = head @ eol @ body \<and> out = head' @ eol @ body
     \<and> d_fence_eol d = Some eol \<and> d_body_raw d = Some body \<and> fold_crlf body = d_body d"
proof -
  obtain nl1 mid nl2 eol body where raw: "raw = ''---'' @ nl1 @ mid @ nl2 @ ''---'' @ eol @ body"
      "d_body d = fold_crlf body" "d_fence_eol d = Some eol" "d_body_raw d = Some body"
    by (rule split_raw [OF assms(1)])
  obtain ls' where "out = join_document (d\<lparr>d_frontmatter := join [LF] ls'\<rparr>)"
    using assms by (auto simp: edit_document_def split: prod.splits)
  then have "\<exists>head'. out = head' @ eol @ body"
    using raw(2-4) by (simp add: join_document_def Let_def)
  with raw show ?thesis by (metis append.assoc)
qed

text \<open>A file with plain line breaks around its frontmatter is put back byte for byte.\<close>

lemma with_eol_id: "with_eol [LF] s = s"
  unfolding with_eol_def by (induction s) auto

lemma no_crlf_fold: "\<not> has_crlf s \<Longrightarrow> fold_crlf s = s"
  by (induction s rule: has_crlf.induct) auto

lemma has_crlf_append: "has_crlf s \<Longrightarrow> has_crlf (a @ s)" "has_crlf s \<Longrightarrow> has_crlf (s @ a)"
proof -
  show "has_crlf s \<Longrightarrow> has_crlf (a @ s)"
  proof (induction a)
    case (Cons c a)
    then show ?case by (cases "a @ s") auto
  qed simp
  show "has_crlf s \<Longrightarrow> has_crlf (s @ a)"
    by (induction s rule: has_crlf.induct) auto
qed

lemma split_join_id:
  assumes "split_document raw = Some d" and "\<not> d_crlf d"
  shows "join_document d = raw"
proof -
  obtain nl1 mid nl2 eol body where raw: "raw = ''---'' @ nl1 @ mid @ nl2 @ ''---'' @ eol @ body"
      "nl1 = [LF] \<or> nl1 = [CR, LF]" "nl2 = [LF] \<or> nl2 = [CR, LF]"
      "d_frontmatter d = fold_crlf mid" "d_body d = fold_crlf body"
      "d_fence_eol d = Some eol" "d_body_raw d = Some body" "d_crlf d = has_crlf (nl1 @ mid @ nl2)"
    by (rule split_raw [OF assms(1)])
  have none: "\<not> has_crlf (nl1 @ mid @ nl2)" using assms(2) raw(8) by simp
  then have "\<not> has_crlf nl1" "\<not> has_crlf mid" "\<not> has_crlf nl2"
    using has_crlf_append by blast+
  then have "nl1 = [LF]" "nl2 = [LF]" "fold_crlf mid = mid"
    using raw(2,3) no_crlf_fold by auto
  with raw assms(2) show ?thesis
    by (simp add: join_document_def with_eol_id)
qed

subsection \<open>Cutting entries\<close>

lemma ordered_entries:
  "sorted_wrt entry_before es \<Longrightarrow> list_all (entry_within n) es \<Longrightarrow> (\<forall>e\<in>set es. from \<le> en_from e) \<Longrightarrow> from \<le> n \<Longrightarrow>
   ordered_ranges from (map entry_range es) n"
  by (induction es arbitrary: "from") (auto simp: entry_range_def entry_before_def entry_within_def)

lemma splice_ranges_foldr:
  assumes "ordered_ranges 0 rs n"
  shows "splice_ranges rs ls = foldr (\<lambda>(a, b) ys. splice a b [] ys) rs ls"
proof -
  have "sort_key fst rs = rs"
    using ordered_sorted [OF assms] by (rule sort_key_id_if_sorted)
  then show ?thesis by (simp add: splice_ranges_def foldr_conv_foldl case_prod_unfold)
qed

lemma cut_entries:
  assumes "lex_frontmatter lenient f fm = Inr lx"
  shows "splice_ranges (map entry_range (filter P (lx_entries lx))) (split_lines fm)
     = nths (split_lines fm) {i. \<forall>e\<in>set (lx_entries lx). P e \<longrightarrow> \<not> (en_from e \<le> i \<and> i < en_upto e)}"
proof -
  let ?rs = "map entry_range (filter P (lx_entries lx))"
  have "ordered_ranges 0 ?rs (length (split_lines fm))"
    using lex_ranged [OF assms]
    by (intro ordered_entries) (auto simp: ranged_def sorted_wrt_filter list_all_iff)
  then have "splice_ranges ?rs (split_lines fm) = nths (split_lines fm) {i. \<not> covered_lines ?rs i}"
    using splice_ranges_foldr nths_splice by metis
  also have "{i. \<not> covered_lines ?rs i} = {i. \<forall>e\<in>set (lx_entries lx). P e \<longrightarrow> \<not> (en_from e \<le> i \<and> i < en_upto e)}"
    by (auto simp: covered_lines_def entry_range_def)
  finally show ?thesis .
qed

lemma lenient_lex: "lex_frontmatter True ''node.md'' fm = Inr (lex_lenient fm)"
  by (rule lex_readers [of "''node.md''" fm]) (simp add: lex_lenient_def)

subsection \<open>The edge editors on written files\<close>

text \<open>The lines of the keys alone, and the lex with an edge block of any length after them.\<close>

definition key_part :: "node_file \<Rightarrow> string list" where
  "key_part n = fst (key_lines n None [] (key_order n))"

lemma key_lines_None: "key_lines n None owed ks = (fst (key_lines n None [] ks), owed)"
  by (induction ks) (auto simp: Let_def split: prod.split)

lemma front_key_part: "front_lines None n = key_part n @ edges_lines (nf_edges n)"
  using key_lines_None [of n "edges_lines (nf_edges n)" "key_order n"] by (simp add: front_lines_def key_part_def)

definition edge_text :: "attrs list \<Rightarrow> string list" where
  "edge_text es = concat (map edge_entry_lines es)"

lemma keys_run:
  assumes "settled st" and "writable_keys n ks"
  shows "\<exists>st'. lex_steps lenient f i (fst (key_lines n None [] ks)) st st' \<and> settled st' \<and> same_record st st'
     \<and> lx_fields st' = foldl (read_key n) (lx_fields st) ks \<and> rows (i + length (fst (key_lines n None [] ks))) st' = rows i st"
  using assms
proof (induction ks arbitrary: st i)
  case Nil
  then show ?case by (intro exI [of _ st]) (simp add: same_record_def)
next
  case (Cons k ks)
  let ?own = "case node_prop n k of Some v \<Rightarrow> field_lines k v | None \<Rightarrow> []"
  let ?ls = "fst (key_lines n None [] ks)"
  have lines': "fst (key_lines n None [] (k # ks)) = ?own @ ?ls"
    by (simp add: Let_def case_prod_unfold)
  have writable: "writable_keys n [k]" "writable_keys n ks"
    using Cons.prems(2) by (auto simp: writable_keys_def)
  obtain st1 where st1: "lex_steps lenient f i ?own st st1" "settled st1" "same_record st st1"
      "lx_fields st1 = read_key n (lx_fields st) k" "rows (i + length ?own) st1 = rows i st"
    using key_step [OF Cons.prems(1) writable(1)] by blast
  obtain st' where st': "lex_steps lenient f (i + length ?own) ?ls st1 st'" "settled st'" "same_record st1 st'"
      "lx_fields st' = foldl (read_key n) (lx_fields st1) ks" "rows (i + length ?own + length ?ls) st' = rows (i + length ?own) st1"
    using Cons.IH [OF st1(2) writable(2)] by blast
  show ?case
    unfolding lines'
    using steps_append [OF st1(1) st'(1)] st1 st' by (intro exI [of _ st']) (simp add: add.assoc same_record_def)
qed

text \<open>The lex of the keys alone, and with an edge block of any length after them.\<close>

lemma keys_lex:
  assumes "writable_node n"
  obtains st1 where "lex_steps lenient f 0 (key_part n) empty_lex st1" "settled st1" "lx_faults st1 = []"
    "lx_fields st1 = foldl (read_key n) [] (key_order n)" "rows (length (key_part n)) st1 = []" "marks (lx_entries st1) = []"
  using keys_run [OF start(1) order_writable [OF assms], of lenient f 0] start(2)
  by (auto simp: key_part_def same_record_def empty_lex_def marks_def)

lemma no_edges_lex:
  assumes "writable_node n"
  obtains lx where "lex_lines lenient f 0 (key_part n) empty_lex = Inr lx" "lx_fields lx = foldl (read_key n) [] (key_order n)"
    "lx_edges lx = []" "marks (lx_entries lx) = []" "lx_faults lx = []"
proof -
  obtain st1 where st1: "lex_steps lenient f 0 (key_part n) empty_lex st1" "settled st1" "lx_faults st1 = []"
    "lx_fields st1 = foldl (read_key n) [] (key_order n)" "rows (length (key_part n)) st1 = []" "marks (lx_entries st1) = []"
    by (rule keys_lex [OF assms])
  show thesis by (rule that [OF steps_lines [OF st1(1,2)]]) (use st1(3-6) in auto)
qed

lemma edges_lex:
  assumes "writable_node n" and "list_all writable_edge es"
  obtains lx where "lex_lines lenient f 0 (key_part n @ ''edges:'' # edge_text es) empty_lex = Inr lx"
    "lx_fields lx = foldl (read_key n) [] (key_order n)" "lx_edges lx = edge_rows (length (key_part n) + 1) es"
    "marks (lx_entries lx) = [(length (key_part n), None)]" "lx_faults lx = []"
proof -
  let ?h = "length (key_part n)"
  obtain st1 where st1: "lex_steps lenient f 0 (key_part n) empty_lex st1" "settled st1" "lx_faults st1 = []"
    "lx_fields st1 = foldl (read_key n) [] (key_order n)" "rows ?h st1 = []" "marks (lx_entries st1) = []"
    by (rule keys_lex [OF assms(1)])
  obtain st2 where st2: "\<And>rest. lex_line lenient f ?h ''edges:'' rest st1 = Inr (st2, 0)" "settled st2" "lx_in_edges st2"
      "lx_faults st2 = lx_faults st1" "lx_fields st2 = lx_fields st1" "rows (?h + 1) st2 = rows ?h st1"
      "marks (lx_entries st2) = marks (lx_entries st1) @ [(?h, None)]"
    using edges_header [OF st1(2)] by blast
  obtain st' where st': "lex_steps lenient f (?h + 1) (edge_text es) st2 st'" "settled st'" "same_record st2 st'"
      "lx_fields st' = lx_fields st2" "rows (?h + 1 + length (edge_text es)) st' = rows (?h + 1) st2 @ edge_rows (?h + 1) es"
    using edge_steps [OF st2(2,3) assms(2)] unfolding edge_text_def by blast
  have "lex_steps lenient f (0 + ?h) (''edges:'' # edge_text es) st1 st'"
    using steps_Cons [OF st2(1) st'(1)] by simp
  from steps_append [OF st1(1) this] show thesis
    by (rule that [OF steps_lines [OF _ st'(2)]]) (use st1(3-6) st2(4-7) st'(3-5) in \<open>auto simp: same_record_def\<close>)
qed

text \<open>The editors' view of such a frontmatter: its own lines and lex, one plain header.\<close>

lemma marks_headers:
  "marks es = [] \<Longrightarrow> filter (\<lambda>e. en_kind e = EdgesEntry) es = [] \<and> filter (\<lambda>e. en_inline e \<noteq> None) es = []"
  "marks es = [(h, None)] \<Longrightarrow> filter (\<lambda>e. en_inline e \<noteq> None) es = []
     \<and> (\<exists>e. filter (\<lambda>e. en_kind e = EdgesEntry) es = [e] \<and> en_from e = h)"
proof -
  let ?P = "\<lambda>e. en_kind e = EdgesEntry \<or> en_inline e \<noteq> None"
  have both: "filter (\<lambda>e. en_kind e = EdgesEntry) es = filter (\<lambda>e. en_kind e = EdgesEntry) (filter ?P es)"
    "filter (\<lambda>e. en_inline e \<noteq> None) es = filter (\<lambda>e. en_inline e \<noteq> None) (filter ?P es)"
    by (auto intro!: filter_cong)
  show "marks es = [] \<Longrightarrow> filter (\<lambda>e. en_kind e = EdgesEntry) es = [] \<and> filter (\<lambda>e. en_inline e \<noteq> None) es = []"
    unfolding both by (simp add: marks_def)
  show "marks es = [(h, None)] \<Longrightarrow> filter (\<lambda>e. en_inline e \<noteq> None) es = []
     \<and> (\<exists>e. filter (\<lambda>e. en_kind e = EdgesEntry) es = [e] \<and> en_from e = h)"
  proof -
    assume m: "marks es = [(h, None)]"
    then obtain e where e: "filter ?P es = [e]" "en_from e = h" "en_inline e = None"
      by (auto simp: marks_def)
    then have "e \<in> set (filter ?P es)" by simp
    then have "?P e" unfolding set_filter by blast
    with e show ?thesis unfolding both by simp
  qed
qed

lemma edge_rows_end: "foldl max (j :: nat) (map ee_upto (edge_rows i es)) = max j (if es = [] then 0 else i + length (edge_text es))"
proof (induction es arbitrary: i j)
  case (Cons e es)
  show ?case
    using Cons [of "max j (i + length (edge_entry_lines e))" "i + length (edge_entry_lines e)"]
    by (cases es) (auto simp: edge_row_def edge_text_def)
qed simp

lemma edge_lines_nonempty: "edge_entry_lines e \<noteq> []"
  by (simp add: edge_entry_lines_def)

subsection \<open>Documents of plain lines\<close>

definition doc :: "string list \<Rightarrow> string \<Rightarrow> string" where
  "doc ls t = ''---'' @ LF # join [LF] ls @ LF # ''---'' @ LF # t"

definition tail_text :: "bool \<Rightarrow> node_file \<Rightarrow> string" where
  "tail_text raw_body n =
     (let b = (if raw_body then body_text n else trim (body_text n)) in if b = [] then [] else LF # b @ [LF])"

lemma serialize_doc: "serialize_node at_key raw_body n = doc (front_lines at_key n) (tail_text raw_body n)"
  by (simp add: serialize_node_def doc_def tail_text_def Let_def)

lemma tail_plain: "writable_node n \<Longrightarrow> CR \<notin> set (tail_text raw_body n)"
  using set_trim [of "body_text n"] by (auto simp: writable_node_def tail_text_def Let_def)

lemma tail_trim: "trim (tail_text raw_body n) = trim (body_text n)"
  unfolding tail_text_def Let_def body_read by simp

lemma split_doc:
  assumes "list_all plain_line ls" and "CR \<notin> set t"
  shows "split_document (doc ls t) =
     Some \<lparr>d_frontmatter = join [LF] ls, d_body = t, d_crlf = False, d_fence_eol = Some [LF], d_body_raw = Some t\<rparr>"
proof -
  obtain d where d: "split_document (doc ls t) = Some d" "d_frontmatter d = join [LF] ls" "d_body d = t"
    using split_written [of ls t] assms by (auto simp: doc_def list_all_iff)
  obtain nl1 mid nl2 eol body where raw: "doc ls t = ''---'' @ nl1 @ mid @ nl2 @ ''---'' @ eol @ body"
      "nl1 = [LF] \<or> nl1 = [CR, LF]" "nl2 = [LF] \<or> nl2 = [CR, LF]"
      "d_frontmatter d = fold_crlf mid" "d_body d = fold_crlf body"
      "d_fence_eol d = Some eol" "d_body_raw d = Some body" "d_crlf d = has_crlf (nl1 @ mid @ nl2)"
    by (rule split_raw [OF d(1)])
  have "CR \<notin> set (join [LF] ls)"
    using assms(1) by (induction "[LF]" ls rule: join.induct) (auto simp: plain_line_def)
  then have "CR \<notin> set (doc ls t)" using assms(2) by (simp add: doc_def)
  then have plain: "CR \<notin> set (nl1 @ mid @ nl2)" "CR \<notin> set body" unfolding raw(1) by auto
  then have nls: "nl1 = [LF]" "nl2 = [LF]" "fold_crlf mid = mid" "fold_crlf body = body"
    using raw(2,3) by (auto intro: fold_crlf_no_cr)
  have crlf: "CR \<notin> set s \<Longrightarrow> \<not> has_crlf s" for s
    by (induction s rule: has_crlf.induct) auto
  have same: "mid = join [LF] ls" "body = t" using d(2,3) raw(4,5) nls(3,4) by auto
  then have "eol = [LF]"
    using raw(1) nls(1,2) by (simp add: doc_def)
  with same raw(6,7) raw(8) crlf [OF plain(1)] d show ?thesis
    by (cases d) simp
qed

lemma join_doc:
  "CR \<notin> set t \<Longrightarrow> join_document \<lparr>d_frontmatter = join [LF] ls, d_body = t, d_crlf = False, d_fence_eol = Some [LF], d_body_raw = Some t\<rparr> = doc ls t"
  by (simp add: join_document_def fold_crlf_no_cr with_eol_id doc_def)

lemma edit_doc:
  assumes "list_all plain_line ls" and "ls \<noteq> []" and "CR \<notin> set t"
    and "lex_lines True ''node.md'' 0 ls empty_lex = Inr lx" and "filter (\<lambda>e. en_inline e \<noteq> None) (lx_entries lx) = []"
  shows "edit_document expand edit (doc ls t) = map_option (\<lambda>ls'. doc ls' t) (edit ls lx)"
proof -
  have "split_lines (join [LF] ls) = ls"
    using assms(1,2) by (intro split_join_lines) (auto simp: list_all_iff plain_line_def)
  moreover from this have "lex_lenient (join [LF] ls) = lx"
    using assms(4) by (simp add: lex_lenient_def lex_frontmatter_def)
  ultimately have "edit_view expand (join [LF] ls) = (ls, lx)"
    using assms(5) by (simp add: edit_view_def)
  then show ?thesis
    by (simp add: edit_document_def split_doc [OF assms(1,3)] join_doc [OF assms(3)])
qed

lemma doc_reads:
  assumes "writable_node n" and "list_all plain_line ls" and "ls \<noteq> []" and "CR \<notin> set t" and "trim t = trim (body_text n)"
    and "lex_lines False file 0 ls empty_lex = Inr lx" and "lx_fields lx = foldl (read_key n) [] (key_order n)"
  shows "\<exists>m. parse_frontmatter (doc ls t) file = Inr m \<and> nf_edges m = map ee_edge (lx_edges lx)
     \<and> (\<forall>k. node_prop m k = read_prop n file k)"
proof -
  have "split_lines (join [LF] ls) = ls"
    using assms(2,3) by (intro split_join_lines) (auto simp: list_all_iff plain_line_def)
  then have "parse_frontmatter (doc ls t) file = Inr (fold_node lx t file)"
    using assms(6) by (simp add: parse_frontmatter_def split_doc [OF assms(2,4)] lex_frontmatter_def)
  moreover have "node_prop (fold_node lx t file) k = read_prop n file k" for k
    by (rule fold_node_prop [OF assms(1,7,5)])
  ultimately show ?thesis by (simp add: fold_node_def Let_def)
qed

lemma header_plain: "plain_line ''edges:''"
  by code_simp

lemma key_part_plain: "writable_node n \<Longrightarrow> list_all plain_line (key_part n)"
  using front_lines_plain [of n None] unfolding front_key_part by simp

lemma node_prop_edges [simp]: "node_prop (n\<lparr>nf_edges := es\<rparr>) k = node_prop n k"
  by (simp add: node_prop_def)

lemma key_part_edges [simp]: "key_part (n\<lparr>nf_edges := es\<rparr>) = key_part n"
proof -
  have "key_lines (n\<lparr>nf_edges := es\<rparr>) at_key owed ks = key_lines n at_key owed ks" for at_key owed ks
    by (induction ks arbitrary: owed) auto
  then show ?thesis by (simp add: key_part_def key_order_def)
qed

lemma body_text_edges [simp]: "body_text (n\<lparr>nf_edges := es\<rparr>) = body_text n"
  by (simp add: body_text_def)

lemma written_edges [simp]: "written (n\<lparr>nf_edges := es\<rparr>) k = written n k"
  by (simp add: written_def)

lemma read_prop_edges [simp]: "read_prop (n\<lparr>nf_edges := es\<rparr>) file k = read_prop n file k"
  by (simp only: read_prop_def written_edges body_text_edges)

lemma tail_text_edges [simp]: "tail_text raw_body (n\<lparr>nf_edges := es\<rparr>) = tail_text raw_body n"
  by (simp add: tail_text_def)

lemma edge_text_plain: "list_all writable_edge es \<Longrightarrow> list_all plain_line (edge_text es)"
  using edge_lines_plain by (auto simp: edge_text_def list_all_iff)

subsection \<open>Adding an edge\<close>

text \<open>An edge of bare tokens, as the editor takes it.\<close>

definition token_edge :: "string \<Rightarrow> string \<Rightarrow> attrs \<Rightarrow> bool" where
  "token_edge t u as \<longleftrightarrow> simple_token t \<and> simple_token u \<and> list_all (\<lambda>p. writable_attr p \<and> simple_token (snd p)) as
     \<and> distinct (map fst as)"

definition edge_of :: "string \<Rightarrow> string \<Rightarrow> attrs \<Rightarrow> attrs" where
  "edge_of t u as = (''type'', t) # (''to'', u) # as"

lemma token_edge_facts:
  assumes "token_edge t u as"
  shows "writable_edge (edge_of t u as)" and "edge_entry_lines (edge_of t u as) = [edge_line t u as]"
    and "read_edge (edge_of t u as) = edge_of t u as"
proof -
  have attrs: "list_all writable_attr as" "list_all (\<lambda>(k, v). simple_token k \<and> simple_token v) as"
    using assms by (auto simp: token_edge_def list_all_iff writable_attr_def key_token_def simple_token_def)
  have toks: "list_all is_token t" "t \<noteq> []" "list_all is_token u" "u \<noteq> []" "distinct (map fst as)"
    using assms by (auto simp: token_edge_def simple_token_def)
  have "(k, v) \<in> set as \<Longrightarrow> simple_token v" for k v
    using attrs(2) by (auto simp: list_all_iff)
  then have vals: "(k, v) \<in> set as \<Longrightarrow> folded_line v = v \<and> v \<noteq> []" for k v
    using token_one_line by (auto simp: simple_token_def)
  have no_cr: "list_all is_token s \<Longrightarrow> CR \<notin> set (folded_line s)" for s
    using token_one_line [of s] token_plain_line [of s] by simp
  have flow: "flowable (edge_of t u as)"
    using toks attrs by (simp add: flowable_def edge_of_def attr_text_def extra_attrs_writable simple_token_def)
  show "writable_edge (edge_of t u as)"
    using toks attrs no_cr flow by (auto simp: writable_edge_def edge_of_def list_all_iff writable_attr_def)
  have "filter (\<lambda>(k, v). v \<noteq> []) as = as" using vals by (auto intro: filter_True)
  then show "edge_entry_lines (edge_of t u as) = [edge_line t u as]"
    using flow by (simp add: edge_entry_lines_def edge_of_def attr_text_def extra_attrs_writable [OF attrs(1)] edge_line_def)
  show "read_edge (edge_of t u as) = edge_of t u as"
    using toks vals by (auto simp: read_edge_def edge_of_def token_one_line intro: map_idI)
qed

lemma key_part_id:
  assumes "node_prop n ''id'' = Some (Flat i)"
  shows "key_part n \<noteq> []"
proof -
  have "''id'' \<in> set (key_order n)" using assms by (simp add: order_keys)
  moreover have "''id'' \<in> set ks \<Longrightarrow> fst (key_lines n None [] ks) \<noteq> []" for ks
    by (induction ks) (use assms in \<open>auto simp: Let_def case_prod_unfold field_lines_def\<close>)
  ultimately show ?thesis by (simp add: key_part_def)
qed

lemma add_edge_doc:
  assumes "writable_node n" and "node_prop n ''id'' = Some (Flat i)" and "token_edge t u as"
  shows "with_edge t u as (serialize_node None raw_body n) = Some (serialize_node None raw_body (n\<lparr>nf_edges := nf_edges n @ [edge_of t u as]\<rparr>))"
proof -
  let ?h = "length (key_part n)" and ?es = "nf_edges n" and ?line = "edge_line t u as"
  note facts = token_edge_facts [OF assms(3)]
  note cr = tail_plain [OF assms(1), of raw_body]
  have target: "serialize_node None raw_body (n\<lparr>nf_edges := ?es @ [edge_of t u as]\<rparr>)
      = doc (key_part n @ ''edges:'' # edge_text ?es @ [?line]) (tail_text raw_body n)"
    by (simp add: serialize_doc front_key_part edges_lines_def edge_text_def facts(2))
  show ?thesis
  proof (cases "?es = []")
    case True
    obtain lx where lx: "lex_lines True ''node.md'' 0 (key_part n) empty_lex = Inr lx" "marks (lx_entries lx) = []"
      by (rule no_edges_lex [OF assms(1)])
    note heads = marks_headers(1) [OF lx(2)]
    have "serialize_node None raw_body n = doc (key_part n) (tail_text raw_body n)"
      by (simp add: serialize_doc front_key_part edges_lines_def True)
    then have "with_edge t u as (serialize_node None raw_body n)
        = map_option (\<lambda>ls'. doc ls' (tail_text raw_body n)) (insert_edge ?line (key_part n) lx)"
      unfolding with_edge_def
      using edit_doc [OF key_part_plain [OF assms(1)] key_part_id [OF assms(2)] cr lx(1)] heads by simp
    with heads target True show ?thesis by (simp add: insert_edge_def edge_text_def)
  next
    case False
    let ?ls = "key_part n @ ''edges:'' # edge_text ?es"
    obtain lx where lx: "lex_lines True ''node.md'' 0 ?ls empty_lex = Inr lx"
        "lx_edges lx = edge_rows (?h + 1) ?es" "marks (lx_entries lx) = [(?h, None)]"
      by (rule edges_lex [OF assms(1) writable_edges [OF assms(1)]])
    obtain e where heads: "filter (\<lambda>e. en_inline e \<noteq> None) (lx_entries lx) = []"
        "filter (\<lambda>e. en_kind e = EdgesEntry) (lx_entries lx) = [e]" "en_from e = ?h"
      using marks_headers(2) [OF lx(3)] by blast
    have plain: "list_all plain_line ?ls"
      using key_part_plain [OF assms(1)] edge_text_plain [OF writable_edges [OF assms(1)]] header_plain by simp
    have "serialize_node None raw_body n = doc ?ls (tail_text raw_body n)"
      using False by (simp add: serialize_doc front_key_part edges_lines_def edge_text_def)
    then have "with_edge t u as (serialize_node None raw_body n)
        = map_option (\<lambda>ls'. doc ls' (tail_text raw_body n)) (insert_edge ?line ?ls lx)"
      unfolding with_edge_def using edit_doc [OF plain _ cr lx(1) heads(1)] by simp
    moreover have "insert_edge ?line ?ls lx = Some (?ls @ [?line])"
      using heads(2,3) False by (simp add: insert_edge_def lx(2) edge_rows_end splice_def)
    ultimately show ?thesis using target by simp
  qed
qed

subsection \<open>Removing an edge\<close>

lemma find_edge_row:
  assumes "List.find (\<lambda>r. p (ee_edge r)) (edge_rows i es) = Some hit"
  obtains xs e ys where "es = xs @ e # ys" "\<forall>x\<in>set xs. \<not> p (read_edge x)" "p (read_edge e)"
    "ee_from hit = i + length (edge_text xs)" "ee_upto hit = i + length (edge_text xs) + length (edge_entry_lines e)"
  using assms
proof (induction es arbitrary: i thesis)
  case (Cons e es)
  show ?case
  proof (cases "p (read_edge e)")
    case True
    with Cons.prems(2) have "hit = edge_row i e" by (simp add: edge_row_def)
    with True show ?thesis by (intro Cons.prems(1) [of "[]" e es]) (simp_all add: edge_row_def edge_text_def)
  next
    case False
    then have "List.find (\<lambda>r. p (ee_edge r)) (edge_rows (i + length (edge_entry_lines e)) es) = Some hit"
      using Cons.prems(2) by (simp add: edge_row_def)
    then obtain xs e' ys where "es = xs @ e' # ys" "\<forall>x\<in>set xs. \<not> p (read_edge x)" "p (read_edge e')"
        "ee_from hit = i + length (edge_entry_lines e) + length (edge_text xs)"
        "ee_upto hit = i + length (edge_entry_lines e) + length (edge_text xs) + length (edge_entry_lines e')"
      using Cons.IH by blast
    with False show ?thesis by (intro Cons.prems(1) [of "e # xs" e' ys]) (simp_all add: edge_text_def)
  qed
qed simp

lemma find_no_row:
  "List.find (\<lambda>r. p (ee_edge r)) (edge_rows i es) = None \<longleftrightarrow> (\<forall>e\<in>set es. \<not> p (read_edge e))"
  by (induction es arbitrary: i) (auto simp: edge_row_def)

lemma remove_edge_doc:
  assumes "writable_node n" and "without_edge p (serialize_node None raw_body n) = Some out" and "key_part n \<noteq> []"
  shows "\<exists>xs e ys m. nf_edges n = xs @ e # ys \<and> (\<forall>x\<in>set xs. \<not> p (read_edge x)) \<and> p (read_edge e)
     \<and> parse_frontmatter out file = Inr m \<and> nf_edges m = map read_edge (xs @ ys) \<and> (\<forall>k. node_prop m k = read_prop n file k)"
proof -
  let ?h = "length (key_part n)" and ?es = "nf_edges n"
  note cr = tail_plain [OF assms(1), of raw_body]
  note writable = writable_edges [OF assms(1)]
  let ?edit = "\<lambda>ls lx. case List.find (\<lambda>e. p (ee_edge e)) (lx_edges lx) of None \<Rightarrow> None
     | Some hit \<Rightarrow> Some (splice_ranges [(ee_from hit, ee_upto hit)] ls)"
  have "?es \<noteq> []"
  proof
    assume none: "?es = []"
    obtain lx where lx: "lex_lines True ''node.md'' 0 (key_part n) empty_lex = Inr lx" "marks (lx_entries lx) = []" "lx_edges lx = []"
      by (rule no_edges_lex [OF assms(1)])
    have "serialize_node None raw_body n = doc (key_part n) (tail_text raw_body n)"
      by (simp add: serialize_doc front_key_part edges_lines_def none)
    then show False
      using assms(2) edit_doc [OF key_part_plain [OF assms(1)] assms(3) cr lx(1)] marks_headers(1) [OF lx(2)] lx(3)
      by (simp add: without_edge_def)
  qed
  let ?ls = "key_part n @ ''edges:'' # edge_text ?es"
  obtain lx where lx: "lex_lines True ''node.md'' 0 ?ls empty_lex = Inr lx"
      "lx_edges lx = edge_rows (?h + 1) ?es" "marks (lx_entries lx) = [(?h, None)]"
    by (rule edges_lex [OF assms(1) writable])
  have plain: "list_all plain_line ?ls"
    using key_part_plain [OF assms(1)] edge_text_plain [OF writable] header_plain by simp
  have "serialize_node None raw_body n = doc ?ls (tail_text raw_body n)"
    using \<open>?es \<noteq> []\<close> by (simp add: serialize_doc front_key_part edges_lines_def edge_text_def)
  then have "map_option (\<lambda>ls'. doc ls' (tail_text raw_body n)) (?edit ?ls lx) = Some out"
    using assms(2) edit_doc [OF plain _ cr lx(1)] marks_headers(2) [OF lx(3)] by (simp add: without_edge_def)
  then obtain hit where hit: "List.find (\<lambda>r. p (ee_edge r)) (edge_rows (?h + 1) ?es) = Some hit"
      "out = doc (splice_ranges [(ee_from hit, ee_upto hit)] ?ls) (tail_text raw_body n)"
    by (auto simp: lx(2) split: option.splits)
  obtain xs e ys where e: "?es = xs @ e # ys" "\<forall>x\<in>set xs. \<not> p (read_edge x)" "p (read_edge e)"
      "ee_from hit = ?h + 1 + length (edge_text xs)" "ee_upto hit = ?h + 1 + length (edge_text xs) + length (edge_entry_lines e)"
    by (rule find_edge_row [OF hit(1)])
  have "splice_ranges [(ee_from hit, ee_upto hit)] ?ls = key_part n @ ''edges:'' # edge_text (xs @ ys)"
    by (simp add: splice_ranges_def splice_def e edge_text_def)
  then have out: "out = doc (key_part n @ ''edges:'' # edge_text (xs @ ys)) (tail_text raw_body n)"
    using hit(2) by simp
  have rest: "list_all writable_edge (xs @ ys)" using writable e(1) by simp
  obtain lx' where lx': "lex_lines False file 0 (key_part n @ ''edges:'' # edge_text (xs @ ys)) empty_lex = Inr lx'"
      "lx_fields lx' = foldl (read_key n) [] (key_order n)" "lx_edges lx' = edge_rows (?h + 1) (xs @ ys)"
    by (rule edges_lex [OF assms(1) rest])
  have plain': "list_all plain_line (key_part n @ ''edges:'' # edge_text (xs @ ys))"
    using key_part_plain [OF assms(1)] edge_text_plain [OF rest] header_plain by simp
  obtain m where "parse_frontmatter out file = Inr m" "nf_edges m = map read_edge (xs @ ys)" "\<forall>k. node_prop m k = read_prop n file k"
    using doc_reads [OF assms(1) plain' _ cr tail_trim lx'(1,2)] by (auto simp: out lx'(3) simp del: map_append)
  with e(1-3) show ?thesis by blast
qed

end
