(* ===== verification/NodeJson.thy ===== *)
theory NodeJson
  imports NodeFile
begin

text \<open>
  The fuel of the JSON reader of \<open>NodeFile\<close> is never the reason it refuses a text: every fuel
  above twice the length of the text reads alike, and \<open>json_parse\<close> runs with such a fuel.
\<close>

lemma after_shorter: "after p s = Some r \<Longrightarrow> length r + length p = length s"
  by (induction p s rule: after.induct) (auto split: if_splits)

lemma json_ws_shorter: "length (json_ws s) \<le> length s"
  by (simp add: json_ws_def length_dropWhile_le)

lemma json_ws_cons: "json_ws s = c # cs \<Longrightarrow> length cs < length s"
  using json_ws_shorter [of s] by simp

lemma json_string_shorter: "json_string s = Some (t, r) \<Longrightarrow> length r < length s"
  by (induction s arbitrary: t r rule: json_string.induct)
     (fastforce split: if_splits list.splits option.splits)+

lemma some_digits_shorter: "some_digits s = Some (t, r) \<Longrightarrow> length r < length s"
proof -
  assume "some_digits s = Some (t, r)"
  then have "takeWhile is_digit s \<noteq> []" "r = dropWhile is_digit s" by (auto simp: some_digits_def split: if_splits)
  then show ?thesis
    using arg_cong [OF takeWhile_dropWhile_id [of is_digit s], of length] by (cases "takeWhile is_digit s") auto
qed

lemma json_number_shorter: "json_number s = Some (t, r) \<Longrightarrow> length r < length s"
  unfolding json_number_def Let_def
  by (fastforce split: if_splits option.splits dest!: some_digits_shorter)

lemma after_less: "after (p # ps) s = Some r \<Longrightarrow> length r < length s"
  using after_shorter [of "p # ps" s r] by simp

lemma json_read_shorter:
  "json_value n s = Some (v, r) \<Longrightarrow> length r < length s"
  "json_items n first s = Some (vs, r) \<Longrightarrow> length r < length s"
  "json_members n first ms s = Some (ms', r) \<Longrightarrow> length r < length s"
proof (induction n arbitrary: s v r first vs ms ms')
  case (Suc n)
  { case 1
    obtain c cs where c: "json_ws s = c # cs" using 1 by (cases "json_ws s") auto
    have "length r < length (c # cs)"
      using 1 Suc.IH(2) [of True cs _ r] Suc.IH(3) [of True "[]" cs _ r]
      by (auto simp: c simp del: after.simps split: if_splits option.splits dest!: json_string_shorter json_number_shorter after_less)
    then show ?case using json_ws_shorter [of s] by (simp add: c)
  next
    case 2
    show ?case
    proof (cases "first \<and> json_ws s \<noteq> [] \<and> hd (json_ws s) = CHR '']''")
      case True
      then show ?thesis using 2 json_ws_shorter [of s] by (cases "json_ws s") auto
    next
      case False
      then obtain v r1 c cs where v: "json_value n s = Some (v, r1)" "json_ws r1 = c # cs"
        using 2 by (auto split: option.splits list.splits)
      have "length r \<le> length cs"
        using 2 False v Suc.IH(2) [of False cs _ r] by (auto split: if_splits)
      then show ?thesis using Suc.IH(1) [OF v(1)] json_ws_cons [OF v(2)] by simp
    qed
  next
    case 3
    obtain c cs where c: "json_ws s = c # cs" using 3 by (cases "json_ws s") auto
    show ?case
    proof (cases "first \<and> c = CHR ''}''")
      case True
      then show ?thesis using 3 json_ws_cons [OF c] by (simp add: c)
    next
      case False
      then obtain k r1 r2 v r3 d r4 where step: "json_string cs = Some (k, r1)" "json_ws r1 = CHR '':'' # r2"
          "json_value n r2 = Some (v, r3)" "json_ws r3 = d # r4"
        using 3 by (auto simp: c split: option.splits list.splits if_splits)
      have "length r \<le> length r4"
        using 3 False step by (auto simp: c split: if_splits dest!: Suc.IH(3))
      then show ?thesis
        using json_ws_cons [OF c] json_string_shorter [OF step(1)] json_ws_cons [OF step(2)] Suc.IH(1) [OF step(3)] json_ws_cons [OF step(4)]
        by simp
    qed }
qed simp_all

text \<open>Fuel enough for a value of length \<open>l\<close>, and for the members of a list or an object of that length.\<close>

lemma json_fuel:
  "2 * length s < n \<Longrightarrow> 2 * length s < m \<Longrightarrow> json_value n s = json_value m s"
  "2 * length s + 1 < n \<Longrightarrow> 2 * length s + 1 < m \<Longrightarrow> json_items n first s = json_items m first s"
  "2 * length s + 1 < n \<Longrightarrow> 2 * length s + 1 < m \<Longrightarrow> json_members n first ms s = json_members m first ms s"
proof (induction n arbitrary: s m first ms)
  case (Suc n)
  { case 1
    obtain k where m: "m = Suc k" using 1 by (cases m) auto
    show ?case
    proof (cases "json_ws s")
      case (Cons c cs)
      have "json_items n True cs = json_items k True cs" "json_members n True [] cs = json_members k True [] cs"
        using 1 json_ws_cons [OF Cons] by (auto simp: m intro!: Suc.IH)
      then show ?thesis by (simp add: m Cons del: after.simps)
    qed (simp add: m)
  next
    case 2
    obtain k where m: "m = Suc k" using 2 by (cases m) auto
    have val: "json_value n s = json_value k s" using 2 by (intro Suc.IH) (auto simp: m)
    have "json_items n False cs = json_items k False cs" if "json_value n s = Some (v, r)" "json_ws r = c # cs" for v r c cs
      using 2 json_read_shorter(1) [OF that(1)] json_ws_cons [OF that(2)] by (intro Suc.IH) (auto simp: m)
    then show ?case by (auto simp: m val split: option.split list.split)
  next
    case 3
    obtain k where m: "m = Suc k" using 3 by (cases m) auto
    show ?case
    proof (cases "json_ws s")
      case (Cons c cs)
      have val: "json_value n r' = json_value k r'" if "json_string cs = Some (x, r)" "json_ws r = y # r'" for x r y r'
        using 3 json_ws_cons [OF Cons] json_string_shorter [OF that(1)] json_ws_cons [OF that(2)] by (intro Suc.IH) (auto simp: m)
      have "json_members n False ms' r3 = json_members k False ms' r3"
        if "json_string cs = Some (x, r)" "json_ws r = y # r'" "json_value n r' = Some (v, r2)" "json_ws r2 = z # r3" for x r y r' v r2 z r3 ms'
        using 3 json_ws_cons [OF Cons] json_string_shorter [OF that(1)] json_ws_cons [OF that(2)] json_read_shorter(1) [OF that(3)] json_ws_cons [OF that(4)]
        by (intro Suc.IH) (auto simp: m)
      with val show ?thesis by (auto simp: m Cons split: option.split list.split)
    qed (simp add: m)
  }
qed auto

lemma json_parse_fuel:
  "2 * length s < n \<Longrightarrow> json_parse s = (case json_value n s of Some (v, r) \<Rightarrow> if json_ws r = [] then Some v else None | None \<Rightarrow> None)"
  unfolding json_parse_def using json_fuel(1) [of s "2 * length s + 2" n] by simp

end
