(* ===== verification/NodeProps.thy ===== *)
theory NodeProps
  imports NodeEdits NodeJson
begin

text \<open>
  The properties of the node-file grammar, each applied to the one node below: a quoted title, a
  list that needs the block form, an edge of bare tokens and one with a free-text attribute.
\<close>

definition sample_node :: node_file where
  "sample_node = \<lparr>nf_edges = [[(''type'', ''blocks''), (''to'', ''b'')], [(''type'', ''rel''), (''to'', ''c''), (''note'', ''two words'')]],
     nf_props = [(''title'', Flat [DQ, CHR ''q'', DQ]), (''id'', Flat ''a''), (''tags'', Items [''x'', ''y, z'']), (''body'', Flat '' B '')]\<rparr>"

lemma demo_writable: "writable_node sample_node"
  by code_simp

lemma demo_id: "node_prop sample_node ''id'' = Some (Flat ''a'')"
  by code_simp

text \<open>A value the serializer keeps verbatim: a list, or a text without a line break.\<close>

definition verbatim :: "field_value \<Rightarrow> bool" where
  "verbatim v \<longleftrightarrow> (case v of Flat s \<Rightarrow> LF \<notin> set s | Items xs \<Rightarrow> True | Missing \<Rightarrow> False)"

definition verbatim_edge :: "attrs \<Rightarrow> bool" where
  "verbatim_edge e \<longleftrightarrow> list_all (\<lambda>p. LF \<notin> set (snd p)) e"

lemma verbatim_edge_reads: "verbatim_edge e \<Longrightarrow> read_edge e = e"
  by (induction e) (auto simp: verbatim_edge_def read_edge_def one_line_id)

lemma verbatim_prop_reads:
  assumes "writable_node n" and "node_prop n k = Some v" and "verbatim v" and "k \<notin> {''body'', ''file'', ''project''}"
  shows "read_prop n file k = Some v"
proof (cases "field_lines k v = []")
  case False
  then have "written n k = Some (read_value v)" using assms(2,4) by (simp add: written_def)
  moreover have "read_value v = v" using assms(3) by (cases v) (simp_all add: verbatim_def one_line_id)
  ultimately show ?thesis using assms(4) by (simp add: read_prop_def)
next
  case True
  then have v: "v = Items []" "k = ''pin'' \<or> k = ''exclude''"
    using assms(3) by (cases v; auto simp: field_lines_def verbatim_def split: if_splits)+
  have "written n k = None" using True assms(2) by (simp add: written_def)
  then show ?thesis using v by (elim disjE) (simp_all add: read_prop_def)
qed

text \<open>
  C3. The round-trip law of the grammar, for a writable node: an object whose keys are keys of the grammar, with lists exactly under
  the list keys, edges of a type, a target and distinct non-empty attributes, no lone carriage return in a text, none in the body, no line
  break in a list item, and no list item or attribute that spells a flow edge. Written by
  \<open>serializeNode\<close>, with its edges in any place and its body trimmed or raw, it is read by \<open>parseFrontmatter\<close>
  without a fault. Every list and every text without a line break comes back as it was, whichever of the list and edge
  forms it needed; a text with line breaks comes back as its one-line form, the body trimmed, \<open>pin\<close> and
  \<open>exclude\<close> default to no corrections and \<open>project\<close> follows \<open>repo\<close>. The lemmas at the end
  of the theory show the law failing on texts and items outside these conditions.
\<close>

theorem serialized_node_reads_back:
  assumes "writable_node n"
  shows "\<exists>m. parse_frontmatter (serialize_node at_key raw_body n) file = Inr m
     \<and> nf_edges m = map read_edge (nf_edges n) \<and> (\<forall>k. node_prop m k = read_prop n file k)
     \<and> (list_all verbatim_edge (nf_edges n) \<longrightarrow> nf_edges m = nf_edges n)
     \<and> (\<forall>k v. node_prop n k = Some v \<and> verbatim v \<and> k \<notin> {''body'', ''file'', ''project''} \<longrightarrow> node_prop m k = Some v)"
proof -
  obtain m where m: "parse_frontmatter (serialize_node at_key raw_body n) file = Inr m"
      "nf_edges m = map read_edge (nf_edges n)" "\<forall>k. node_prop m k = read_prop n file k"
    using written_node_reads [OF assms] by blast
  have "list_all verbatim_edge es \<Longrightarrow> map read_edge es = es" for es
    by (induction es) (simp_all add: verbatim_edge_reads)
  with m verbatim_prop_reads [OF assms] show ?thesis by (intro exI [of _ m]) simp
qed

theorem serialized_node_reads_back_witness:
  "\<exists>m. parse_frontmatter (serialize_node (Some ''tags'') False sample_node) ''f'' = Inr m
     \<and> nf_edges m = nf_edges sample_node \<and> node_prop m ''title'' = Some (Flat [DQ, CHR ''q'', DQ])
     \<and> node_prop m ''tags'' = Some (Items [''x'', ''y, z'']) \<and> node_prop m ''body'' = Some (Flat ''B'')"
proof -
  obtain m where m: "parse_frontmatter (serialize_node (Some ''tags'') False sample_node) ''f'' = Inr m"
      "\<forall>k. node_prop m k = read_prop sample_node ''f'' k"
      "list_all verbatim_edge (nf_edges sample_node) \<longrightarrow> nf_edges m = nf_edges sample_node"
      "\<forall>k v. node_prop sample_node k = Some v \<and> verbatim v \<and> k \<notin> {''body'', ''file'', ''project''} \<longrightarrow> node_prop m k = Some v"
    using serialized_node_reads_back [OF demo_writable, of "Some ''tags''" False "''f''"] by blast
  have "list_all verbatim_edge (nf_edges sample_node)" by code_simp
  moreover have "node_prop sample_node ''title'' = Some (Flat [DQ, CHR ''q'', DQ])" "verbatim (Flat [DQ, CHR ''q'', DQ])"
      "node_prop sample_node ''tags'' = Some (Items [''x'', ''y, z''])" "verbatim (Items [''x'', ''y, z''])" by code_simp+
  moreover have "read_prop sample_node ''f'' ''body'' = Some (Flat ''B'')" by code_simp
  ultimately show ?thesis using m by (intro exI [of _ m]) simp
qed

text \<open>
  C8. \<open>withEdge\<close> refines appending to the edge list: on a written node that has an id, adding an
  edge of bare tokens gives exactly the text the serializer writes for the node with that edge
  last, and reading it gives the old edges followed by the new one and every other property
  as it was.
\<close>

theorem added_edge_is_appended:
  assumes "writable_node n" and "node_prop n ''id'' = Some (Flat i)" and "token_edge t u as"
  shows "\<exists>out m. with_edge t u as (serialize_node None raw_body n) = Some out
     \<and> out = serialize_node None raw_body (n\<lparr>nf_edges := nf_edges n @ [edge_of t u as]\<rparr>)
     \<and> parse_frontmatter out file = Inr m \<and> nf_edges m = map read_edge (nf_edges n) @ [edge_of t u as]
     \<and> (\<forall>k. node_prop m k = read_prop n file k)"
proof -
  let ?n = "n\<lparr>nf_edges := nf_edges n @ [edge_of t u as]\<rparr>"
  note facts = token_edge_facts [OF assms(3)]
  have "writable_node ?n"
    using assms(1) facts(1) by (simp add: writable_node_def)
  then obtain m where m: "parse_frontmatter (serialize_node None raw_body ?n) file = Inr m"
      "nf_edges m = map read_edge (nf_edges ?n)" "\<forall>k. node_prop m k = read_prop ?n file k"
    using written_node_reads by blast
  with facts(3) show ?thesis
    using add_edge_doc [OF assms] by auto
qed

theorem added_edge_is_appended_witness:
  "\<exists>out m. with_edge ''t'' ''u'' [(''k'', ''v'')] (serialize_node None False sample_node) = Some out
     \<and> out = serialize_node None False (sample_node\<lparr>nf_edges := nf_edges sample_node @ [edge_of ''t'' ''u'' [(''k'', ''v'')]]\<rparr>)
     \<and> parse_frontmatter out ''f'' = Inr m \<and> nf_edges m = map read_edge (nf_edges sample_node) @ [edge_of ''t'' ''u'' [(''k'', ''v'')]]
     \<and> (\<forall>k. node_prop m k = read_prop sample_node ''f'' k)"
proof -
  have "token_edge ''t'' ''u'' [(''k'', ''v'')]" by code_simp
  from added_edge_is_appended [OF demo_writable demo_id this] show ?thesis .
qed

text \<open>
  C10. The loader and the lint read one grammar: on every text \<open>parseFrontmatter\<close> returns the
  node exactly when \<open>readNode\<close> finds a fence and no fault, and then the same node; otherwise it
  throws the first of the faults \<open>readNode\<close> lists (or the missing fence), naming the file.
\<close>

theorem loader_agrees_with_lint:
  "parse_frontmatter raw file =
     (case read_node raw file of
        None \<Rightarrow> Inl (''no frontmatter in '' @ file)
      | Some (node, [], notes) \<Rightarrow> Inr node
      | Some (node, m # ms, notes) \<Rightarrow> Inl (m @ '' in '' @ file))"
proof (cases "split_document raw")
  case None
  then show ?thesis by (simp add: parse_frontmatter_def read_node_def)
next
  case (Some d)
  obtain lx where lx: "lex_frontmatter True file (d_frontmatter d) = Inr lx"
      "lex_frontmatter False file (d_frontmatter d) = (case lx_faults lx of [] \<Rightarrow> Inr lx | (i, m) # _ \<Rightarrow> Inl (m @ '' in '' @ file))"
    by (rule lex_readers)
  with Some show ?thesis
    by (cases "lx_faults lx") (auto simp: parse_frontmatter_def read_node_def)
qed

text \<open>
  C23. An edit never touches the body: whatever an editor does to the lines of the frontmatter of
  whatever file, the text it returns ends in the very bytes of the input's body, with their own
  line endings, after the closing fence's own terminator, and those bytes are the ones
  the reader takes as the body.
\<close>

theorem edits_keep_the_body:
  assumes "split_document raw = Some d" and "edit_document expand edit raw = Some out"
  shows "\<exists>head head' eol body. raw = head @ eol @ body \<and> out = head' @ eol @ body
     \<and> d_fence_eol d = Some eol \<and> d_body_raw d = Some body \<and> fold_crlf body = d_body d"
  using assms by (rule edit_keeps_body)

text \<open>A file with \<open>\r\n\<close> in its frontmatter and in one line of its body.\<close>

definition mixed_file :: string where
  "mixed_file = ''---'' @ [CR, LF] @ ''a: 1'' @ [CR, LF] @ ''---'' @ [LF] @ ''x'' @ [CR, LF] @ ''y'' @ [LF]"

theorem edits_keep_the_body_witness:
  "\<exists>d out. split_document mixed_file = Some d \<and> edit_document False (\<lambda>ls lx. Some (ls @ [''b: 2''])) mixed_file = Some out
     \<and> (\<exists>head head' eol body. mixed_file = head @ eol @ body \<and> out = head' @ eol @ body
          \<and> d_fence_eol d = Some eol \<and> d_body_raw d = Some body \<and> fold_crlf body = d_body d)"
proof -
  have "split_document mixed_file \<noteq> None" by code_simp
  then obtain d where d: "split_document mixed_file = Some d" by blast
  then have "edit_document False (\<lambda>ls lx. Some (ls @ [''b: 2''])) mixed_file \<noteq> None"
    by (simp add: edit_document_def case_prod_unfold)
  then obtain out where out: "edit_document False (\<lambda>ls lx. Some (ls @ [''b: 2''])) mixed_file = Some out"
    by blast
  from d out edits_keep_the_body [OF d out] show ?thesis by blast
qed



subsection \<open>Texts outside the round trip\<close>

text \<open>
  The law needs its hypotheses. A list item that spells a flow edge is written bare and read as an
  edge; a text with a lone carriage return is written bare and its key is lost; a list item
  with an inner line break is written in the inline form and opens a key of its own.
\<close>

definition unlucky :: "(string \<times> field_value) \<Rightarrow> node_file" where
  "unlucky p = \<lparr>nf_edges = [], nf_props = [(''id'', Flat ''a''), p]\<rparr>"

definition reread :: "node_file \<Rightarrow> string \<Rightarrow> (attrs list \<times> field_value option) option" where
  "reread n k =
     (case parse_frontmatter (serialize_node None False n) ''f'' of
        Inl msg \<Rightarrow> None
      | Inr m \<Rightarrow> Some (nf_edges m, node_prop m k))"

lemma item_read_as_an_edge:
  "reread (unlucky (''tags'', Items [''- {type: t, to: u}'', ''x''])) ''tags''
     = Some ([[(''type'', ''t''), (''to'', ''u'')]], Some (Items [''x'']))"
  by code_simp

lemma carriage_return_loses_the_key:
  "reread (unlucky (''title'', Flat (''a'' @ [CR] @ ''b''))) ''title'' = Some ([], None)"
  by code_simp

lemma line_break_opens_a_key:
  "reread (unlucky (''tags'', Items [''a'' @ [LF] @ ''status: done''])) ''status'' = Some ([], Some (Flat ''done]''))"
  by code_simp

end
