(* ===== verification/Candidate.thy ===== *)
theory Candidate
  imports NodeFile Satisfiability
begin

text \<open>
  The factory candidate, \<^verbatim>\<open>src/lib/kernel/candidate.js\<close>: its identity, its mint, the re-pin and the
  chain, and the refusal of a reference that is not portable. The digest is an argument.

  A candidate is the JavaScript object the source builds. A message of the mint or of a refusal is
  a constructor that carries the value the message quotes. Two candidate ids are compared
  with \<open>===\<close> as values, which is what it does on strings.
\<close>

subsection \<open>Vocabulary and coercions\<close>

definition submit_stages :: "string list" where
  "submit_stages = [''implementation'', ''fix'', ''rescue'', ''integration-fix'']"

definition impl_pools :: "string list" where
  "impl_pools = [''implementation'', ''retry'']"

definition reference_kinds :: "string list" where
  "reference_kinds = [''bundle'', ''branch'']"

definition impl_stage_fields :: "string list" where
  "impl_stage_fields = [''publish_pending'']"

definition is_impl_field :: "jsval \<Rightarrow> bool" where
  "is_impl_field key \<longleftrightarrow> take 5 (js_string (js_or key (JStr []))) = ''impl_'' \<or> js_string key \<in> set impl_stage_fields"

text \<open>\<open>str(v)\<close> and \<open>str(v) || null\<close>.\<close>

definition str_text :: "jsval \<Rightarrow> string" where
  "str_text v = (case v of JStr s \<Rightarrow> trim s | _ \<Rightarrow> [])"

definition given_or_null :: "string \<Rightarrow> jsval" where
  "given_or_null s = (if s = [] then JNull else JStr s)"

definition count_from :: "jsval \<Rightarrow> int \<Rightarrow> int" where
  "count_from v fallback = (case js_number v of Some n \<Rightarrow> if 0 \<le> n then n else fallback | None \<Rightarrow> fallback)"

definition full_name :: "string \<Rightarrow> bool" where
  "full_name s \<longleftrightarrow> (length s = 40 \<or> length s = 64) \<and> list_all is_hex s"

definition plain_or_empty :: "jsval \<Rightarrow> jsval" where
  "plain_or_empty v = (if is_plain_object v then v else JObj [])"

subsection \<open>Identity\<close>

definition key_line :: "jsval \<Rightarrow> string" where
  "key_line v = js_string (js_or v (JStr [])) @ [LF]"

definition candidate_key :: "jsval \<Rightarrow> jsval \<Rightarrow> jsval \<Rightarrow> string" where
  "candidate_key repo node tree = key_line repo @ key_line node @ key_line tree"

text \<open>\<open>None\<close> is the \<open>TypeError\<close> of a digest that is not lowercase hex.\<close>

definition candidate_id_for :: "(string \<Rightarrow> string) \<Rightarrow> string \<Rightarrow> string option" where
  "candidate_id_for sha256 key =
     (let hex = sha256 key in
      if 32 \<le> length hex \<and> list_all is_hex hex then Some (''cand-'' @ take 16 hex) else None)"

definition changed_paths_key :: "jsval \<Rightarrow> string" where
  "changed_paths_key paths = (case paths of JArr ps \<Rightarrow> concat (map (\<lambda>p. js_string p @ [LF]) ps) | _ \<Rightarrow> [])"

subsection \<open>Minting\<close>

datatype mint_error =
    Repo_required | Node_required | Bad_commit string | Bad_tree string | Clean_not_boolean | Merge_base_required
  | Bad_stage string | Bad_pool string | Bad_revision

datatype mint_result = Threw | Refused "mint_error list" | Minted jsval

definition name_or_null :: "jsval \<Rightarrow> jsval" where
  "name_or_null v = (let s = lower (str_text v) in if full_name s then JStr s else JNull)"

definition mint_base :: "jsval \<Rightarrow> jsval" where
  "mint_base i =
     (let b = plain_or_empty (js_get i ''base'') in
      JObj [(''ref'', given_or_null (str_text (js_get b ''ref''))),
            (''commit'', name_or_null (js_get b ''commit'')),
            (''merge_base'', name_or_null (js_or (js_get b ''merge_base'') (js_get b ''mergeBase'')))])"

definition submitted_stage :: "jsval \<Rightarrow> string" where
  "submitted_stage i =
     (let s = str_text (js_get (plain_or_empty (js_or (js_get i ''submitted_by'') (js_get i ''submittedBy''))) ''stage'')
      in if s = [] then ''implementation'' else s)"

definition mint_submitted :: "jsval \<Rightarrow> jsval" where
  "mint_submitted i =
     (let r = plain_or_empty (js_or (js_get i ''submitted_by'') (js_get i ''submittedBy'')); stage = submitted_stage i in
      JObj [(''stage'', JStr (if stage \<in> set submit_stages then stage else ''implementation'')),
            (''cycle'', JNum (count_from (js_get r ''cycle'') 0)),
            (''rescue'', JNum (count_from (js_get r ''rescue'') 0))])"

definition mint_provenance :: "jsval \<Rightarrow> jsval" where
  "mint_provenance i =
     (let p = plain_or_empty (js_get i ''provenance''); pool = str_text (js_get p ''pool'');
          one = (\<lambda>k. given_or_null (str_text (js_get p k)));
          either_of = (\<lambda>k k'. given_or_null (str_text (js_or (js_get p k) (js_get p k')))) in
      JObj [(''run_id'', either_of ''run_id'' ''runId''),
            (''attempt'', JNum (count_from (js_get p ''attempt'') 1)),
            (''pool'', if pool \<noteq> [] \<and> pool \<in> set impl_pools then JStr pool else JNull),
            (''harness'', one ''harness''), (''profile'', one ''profile''), (''agent'', one ''agent''),
            (''worker'', one ''worker''), (''machine'', one ''machine''), (''cwd'', one ''cwd''),
            (''started_at'', either_of ''started_at'' ''startedAt''),
            (''finished_at'', either_of ''finished_at'' ''finishedAt'')])"

definition mint_resolver :: "jsval \<Rightarrow> jsval" where
  "mint_resolver i =
     (let r = plain_or_empty (js_get i ''resolver''); rev = js_get r ''revision'' in
      JObj ((''node'', given_or_null (str_text (js_get r ''node'')))
        # (if truthy rev then [(''revision'', JStr (str_text rev))] else [])
        @ [(''written'', JBool (truthy (js_get r ''written''))),
           (''resolves_edge'', JBool (truthy (coalesce (js_get r ''resolves_edge'') (js_get r ''resolvesEdge''))))]))"

definition mint_node :: "jsval \<Rightarrow> string" where
  "mint_node i = str_text (js_or (js_get i ''node_id'') (js_get i ''nodeId''))"

definition mint_errors :: "jsval \<Rightarrow> mint_error list" where
  "mint_errors i =
     (let commit = lower (str_text (js_get i ''commit'')); tree = lower (str_text (js_get i ''tree''));
          pool = str_text (js_get (plain_or_empty (js_get i ''provenance'')) ''pool'');
          rev = js_get (plain_or_empty (js_get i ''resolver'')) ''revision''
      in (if str_text (js_get i ''repo'') = [] then [Repo_required] else [])
       @ (if mint_node i = [] then [Node_required] else [])
       @ (if full_name commit then [] else [Bad_commit commit])
       @ (if full_name tree then [] else [Bad_tree tree])
       @ (case js_get i ''clean'' of JBool b \<Rightarrow> [] | _ \<Rightarrow> [Clean_not_boolean])
       @ (if js_get (mint_base i) ''merge_base'' = JNull then [Merge_base_required] else [])
       @ (if submitted_stage i \<in> set submit_stages then [] else [Bad_stage (submitted_stage i)])
       @ (if pool \<noteq> [] \<and> pool \<notin> set impl_pools then [Bad_pool pool] else [])
       @ (if truthy rev \<and> \<not> full_name (str_text rev) then [Bad_revision] else []))"

definition mint_paths :: "(string \<Rightarrow> string) \<Rightarrow> jsval \<Rightarrow> jsval" where
  "mint_paths sha256 i =
     (case js_get i ''changed_paths'' of
        JArr ps \<Rightarrow> JStr (sha256 (changed_paths_key (JArr ps)))
      | _ \<Rightarrow> given_or_null (str_text (js_get i ''changed_paths_sha256'')))"

definition mint_object :: "(string \<Rightarrow> string) \<Rightarrow> string \<Rightarrow> jsval \<Rightarrow> jsval" where
  "mint_object sha256 cid i =
     JObj [(''candidate_id'', JStr cid), (''spec_version'', JNum 1),
           (''repo'', JStr (str_text (js_get i ''repo''))), (''node_id'', JStr (mint_node i)),
           (''commit'', JStr (lower (str_text (js_get i ''commit'')))), (''tree'', JStr (lower (str_text (js_get i ''tree'')))),
           (''base'', mint_base i), (''branch'', given_or_null (str_text (js_get i ''branch''))),
           (''commits_seen'', JArr []), (''clean'', js_get i ''clean''),
           (''changed_paths_sha256'', mint_paths sha256 i), (''supersedes'', given_or_null (str_text (js_get i ''supersedes''))),
           (''submitted_by'', mint_submitted i), (''provenance'', mint_provenance i),
           (''reference'', if is_plain_object (js_get i ''reference'') then js_get i ''reference'' else JNull),
           (''resolver'', mint_resolver i)]"

definition mint_candidate :: "(string \<Rightarrow> string) \<Rightarrow> jsval \<Rightarrow> mint_result" where
  "mint_candidate sha256 input =
     (let i = plain_or_empty input in
      if mint_errors i \<noteq> [] then Refused (mint_errors i)
      else case candidate_id_for sha256 (candidate_key (JStr (str_text (js_get i ''repo''))) (JStr (mint_node i)) (JStr (lower (str_text (js_get i ''tree''))))) of
        None \<Rightarrow> Threw
      | Some cid \<Rightarrow> Minted (mint_object sha256 cid i))"

subsection \<open>Re-pinning\<close>

datatype pin_change = Unchanged | Created | Superseded | Seen

definition commits_seen_of :: "jsval \<Rightarrow> jsval list" where
  "commits_seen_of c = (case js_get c ''commits_seen'' of JArr vs \<Rightarrow> vs | _ \<Rightarrow> [])"

definition repin_candidate :: "jsval \<Rightarrow> jsval \<Rightarrow> jsval \<times> pin_change" where
  "repin_candidate prior new =
     (if \<not> is_plain_object new then (js_or prior JNull, Unchanged)
      else if \<not> is_plain_object prior then (new, Created)
      else if js_get prior ''candidate_id'' \<noteq> js_get new ''candidate_id'' then
        (js_set new ''supersedes'' (js_get prior ''candidate_id''), Superseded)
      else
        (let commit = js_get new ''commit'' in
         if \<not> truthy commit \<or> commit = js_get prior ''commit'' \<or> commit \<in> set (commits_seen_of prior) then (prior, Unchanged)
         else (js_set prior ''commits_seen'' (JArr (commits_seen_of prior @ [commit])), Seen)))"

definition append_candidate_chain :: "jsval list \<Rightarrow> jsval \<Rightarrow> jsval list" where
  "append_candidate_chain chain c =
     (if \<not> is_plain_object c \<or> \<not> truthy (js_get c ''candidate_id'') then chain
      else if chain \<noteq> [] \<and> truthy (last chain) \<and> js_get (last chain) ''candidate_id'' = js_get c ''candidate_id''
      then butlast chain @ [c] else chain @ [c])"

definition candidate_submitted :: "jsval \<Rightarrow> bool" where
  "candidate_submitted c \<longleftrightarrow> is_plain_object c \<and> is_plain_object (js_get c ''reference'')
     \<and> str_text (js_get (js_get c ''reference'') ''verified_at'') \<noteq> []"

subsection \<open>Locators\<close>

text \<open>\<open>decodeURIComponent\<close> on bytes: a run of escapes must spell one UTF-8 code point; \<open>None\<close> is the
  \<open>URIError\<close>.\<close>

definition utf8_valid :: "nat list \<Rightarrow> bool" where
  "utf8_valid bs \<longleftrightarrow>
     (case bs of
        [b0, b1] \<Rightarrow> 194 \<le> b0 \<and> b0 \<le> 223 \<and> 128 \<le> b1 \<and> b1 \<le> 191
      | [b0, b1, b2] \<Rightarrow>
          224 \<le> b0 \<and> b0 \<le> 239 \<and> (if b0 = 224 then 160 else 128) \<le> b1 \<and> b1 \<le> (if b0 = 237 then 159 else 191)
          \<and> 128 \<le> b2 \<and> b2 \<le> 191
      | [b0, b1, b2, b3] \<Rightarrow>
          240 \<le> b0 \<and> b0 \<le> 244 \<and> (if b0 = 240 then 144 else 128) \<le> b1 \<and> b1 \<le> (if b0 = 244 then 143 else 191)
          \<and> 128 \<le> b2 \<and> b2 \<le> 191 \<and> 128 \<le> b3 \<and> b3 \<le> 191
      | _ \<Rightarrow> False)"

text \<open>How many escapes a code point that starts with this byte takes.\<close>

definition utf8_width :: "nat \<Rightarrow> nat" where
  "utf8_width b = (if b < 128 then 1 else if b < 192 then 0 else if b < 224 then 2 else if b < 240 then 3 else if b < 248 then 4 else 0)"

text \<open>\<open>k\<close> escapes \<open>%XX\<close> at the head of the text.\<close>

fun escapes :: "nat \<Rightarrow> string \<Rightarrow> (nat list \<times> string) option" where
  "escapes 0 s = Some ([], s)"
| "escapes (Suc k) (c # a # b # s) =
     (if c = CHR ''%'' \<and> is_hex_digit a \<and> is_hex_digit b
      then map_option (\<lambda>(bs, r). (parse_hex [a, b] # bs, r)) (escapes k s) else None)"
| "escapes (Suc k) s = None"

lemma escapes_length: "escapes k s = Some (bs, r) \<Longrightarrow> length s = length r + 3 * k \<and> length bs = k"
  by (induction k s arbitrary: bs rule: escapes.induct) (auto split: if_splits)

text \<open>One code point at the head of a text that starts with an escape: its bytes and the rest.\<close>

definition escaped_char :: "string \<Rightarrow> (string \<times> string) option" where
  "escaped_char s =
     (case escapes 1 s of
        Some ([b], r) \<Rightarrow>
          (if utf8_width b = 1 then Some ([char_of b], r)
           else (case escapes (utf8_width b) s of
               Some (bs, r') \<Rightarrow> if utf8_valid bs then Some (map char_of bs, r') else None
             | None \<Rightarrow> None))
      | _ \<Rightarrow> None)"

lemma escaped_char_shorter:
  assumes "escaped_char s = Some (t, r)"
  shows "length r < length s"
proof -
  have "\<not> utf8_valid []" by (simp add: utf8_valid_def)
  then obtain k bs where "escapes k s = Some (bs, r)" "k \<noteq> 0"
    using assms unfolding escaped_char_def by (fastforce split: option.splits list.splits if_splits)
  then show ?thesis using escapes_length by fastforce
qed

function decode_uri :: "string \<Rightarrow> string option" where
  "decode_uri s =
     (case s of
        [] \<Rightarrow> Some []
      | c # cs \<Rightarrow>
          if c \<noteq> CHR ''%'' then map_option ((#) c) (decode_uri cs)
          else (case escaped_char s of None \<Rightarrow> None | Some (t, r) \<Rightarrow> map_option ((@) t) (decode_uri r)))"
  by pat_completeness auto
termination by (relation "measure length") (auto dest: escaped_char_shorter)

declare decode_uri.simps [simp del]

text \<open>\<open>s.replace(/\\/g, "/")\<close>.\<close>

definition fold_separators :: "string \<Rightarrow> string" where
  "fold_separators s = map (\<lambda>c. if c = BS then CHR ''/'' else c) s"

definition percent_decoded_path :: "string \<Rightarrow> string option" where
  "percent_decoded_path s = map_option fold_separators (decode_uri s)"

definition ascii_letter :: "char \<Rightarrow> bool" where
  "ascii_letter c \<longleftrightarrow> is_word c \<and> \<not> is_digit c \<and> c \<noteq> CHR ''_''"

text \<open>\<open>/^([a-z][a-z0-9+.-]*):\/\//i\<close>: the scheme and the text after its slashes.\<close>

definition scheme_char :: "char \<Rightarrow> bool" where
  "scheme_char c \<longleftrightarrow> ascii_letter c \<or> is_digit c \<or> c \<in> set ''+.-''"

definition scheme_of :: "string \<Rightarrow> (string \<times> string) option" where
  "scheme_of s =
     (let p = takeWhile scheme_char s in
      if p = [] \<or> \<not> ascii_letter (hd p) then None else map_option (Pair p) (after ''://'' (dropWhile scheme_char s)))"

text \<open>\<open>s.replace(/\/{2,}/g, "/")\<close>.\<close>

definition add_char :: "char \<Rightarrow> string \<Rightarrow> string" where
  "add_char c r = (if c = CHR ''/'' \<and> r \<noteq> [] \<and> hd r = CHR ''/'' then r else c # r)"

definition collapse_slashes :: "string \<Rightarrow> string" where
  "collapse_slashes s = foldr add_char s []"

definition flat_locator :: "string \<Rightarrow> string" where
  "flat_locator u =
     (case scheme_of u of
        Some (p, r) \<Rightarrow>
          (if LF \<in> set r \<or> CR \<in> set r then collapse_slashes u else lower p @ ''://'' @ collapse_slashes r)
      | None \<Rightarrow> collapse_slashes u)"

definition slash_ended :: "string \<Rightarrow> string" where
  "slash_ended s = (if s \<noteq> [] \<and> last s = CHR ''/'' then s else s @ ''/'')"

text \<open>The file URL of a working directory: a UNC share's server is the host, a drive letter gets a slash.\<close>

definition unc_parts :: "string \<Rightarrow> (string \<times> string) option" where
  "unc_parts s =
     (case after ''//'' s of
        None \<Rightarrow> None
      | Some t \<Rightarrow>
          (let host = takeWhile (\<lambda>c. c \<noteq> CHR ''/'') t; r = dropWhile (\<lambda>c. c \<noteq> CHR ''/'') t in
           if host = [] \<or> LF \<in> set r \<or> CR \<in> set r then None else Some (host, r)))"

definition cwd_url :: "string \<Rightarrow> string" where
  "cwd_url raw =
     (let folded = fold_separators raw;
          plain = ''file://'' @ (if 2 \<le> length folded \<and> ascii_letter (hd folded) \<and> folded ! 1 = CHR '':'' then CHR ''/'' # folded else folded)
      in if take 2 raw = [BS, BS] then
           (case unc_parts folded of
              Some (host, r) \<Rightarrow> ''file://'' @ lower host @ (if r = [] then ''/'' else r)
            | None \<Rightarrow> plain)
         else plain)"

text \<open>\<open>/(^|\/)w(\/|$)/\<close> for a word without slashes: a piece between slashes.\<close>

definition has_segment :: "string \<Rightarrow> string \<Rightarrow> bool" where
  "has_segment w s \<longleftrightarrow> w \<in> set (split_at (CHR ''/'') s)"

subsection \<open>Refusing a reference\<close>

datatype reference_fault =
    Not_an_object | Bad_kind string | Locator_required | Bare_commit | File_path string | Not_absolute string
  | Unreachable_scheme string | Commit_required | Malformed_escape string | Inside_git string | Relative_segment string
  | Inside_working_tree string | No_store string | Outside_store string string | Key_required | Ref_required

definition reachable_scheme :: "string \<Rightarrow> string \<Rightarrow> bool" where
  "reachable_scheme proto kind \<longleftrightarrow> proto = ''file'' \<or> proto = ''https'' \<or> (proto = ''ssh'' \<and> kind = ''branch'')"

definition no_scheme_fault :: "string \<Rightarrow> reference_fault" where
  "no_scheme_fault locator =
     (if full_name (lower locator) then Bare_commit
      else if hd locator \<in> set ''.~/'' then File_path locator else Not_absolute locator)"

definition in_working_tree :: "string \<Rightarrow> string \<Rightarrow> bool" where
  "in_working_tree locator cwd =
     (let here = flat_locator locator;
          decoded = (case decode_uri here of Some d \<Rightarrow> flat_locator d | None \<Rightarrow> here)
      in cwd \<noteq> [] \<and> after (flat_locator (slash_ended (cwd_url cwd))) decoded \<noteq> None)"

text \<open>The checks of a \<open>file://\<close> locator; \<open>cwd\<close> and \<open>store\<close> are empty where none is given.\<close>

definition file_fault :: "string \<Rightarrow> string \<Rightarrow> string \<Rightarrow> bool \<Rightarrow> reference_fault option" where
  "file_fault locator store cwd foreign =
     (case percent_decoded_path locator of
        None \<Rightarrow> Some (Malformed_escape locator)
      | Some d \<Rightarrow>
          if has_segment ''.git'' d then Some (Inside_git locator)
          else if has_segment ''.'' d \<or> has_segment ''..'' d then Some (Relative_segment locator)
          else if in_working_tree locator cwd then Some (Inside_working_tree locator)
          else if foreign \<and> store = [] then Some (No_store locator)
          else if store \<noteq> [] \<and> after (flat_locator (slash_ended store)) (flat_locator locator) = None then Some (Outside_store locator store)
          else None)"

definition kind_fault :: "string \<Rightarrow> jsval \<Rightarrow> reference_fault option" where
  "kind_fault kind r =
     (if kind = ''bundle'' \<and> str_text (js_get r ''key'') = [] then Some Key_required
      else if kind = ''branch'' \<and> str_text (js_get r ''ref'') = [] then Some Ref_required else None)"

definition reference_refusal :: "jsval \<Rightarrow> jsval \<Rightarrow> string \<Rightarrow> bool \<Rightarrow> reference_fault option" where
  "reference_refusal r bundle_store cwd foreign =
     (let kind = str_text (js_get r ''kind''); locator = str_text (js_get r ''locator'') in
      if \<not> is_plain_object r then Some Not_an_object
      else if kind \<notin> set reference_kinds then Some (Bad_kind kind)
      else if locator = [] then Some Locator_required
      else (case scheme_of locator of
          None \<Rightarrow> Some (no_scheme_fault locator)
        | Some (scheme, _) \<Rightarrow>
            if \<not> reachable_scheme (lower scheme) kind then Some (Unreachable_scheme (lower scheme))
            else if \<not> full_name (lower (str_text (js_get r ''commit''))) then Some Commit_required
            else (case (if lower scheme = ''file'' then file_fault locator (str_text bundle_store) cwd foreign else None) of
                Some e \<Rightarrow> Some e
              | None \<Rightarrow> kind_fault kind r)))"

end
