(* ===== verification/CandidateProps.thy ===== *)
theory CandidateProps
  imports Candidate "HOL-Library.Sublist"
begin

text \<open>
  What an accepted reference names, what a series of pins leaves on the record, and what the
  identity of a candidate is.
\<close>

subsection \<open>Escapes\<close>

lemma escapes_local:
  "escapes k s = Some (bs, r) \<Longrightarrow>
   \<exists>e. s = e @ r \<and> length e = 3 * k \<and> CHR ''/'' \<notin> set e \<and> (\<forall>r'. escapes k (e @ r') = Some (bs, r'))"
proof (induction k s arbitrary: bs rule: escapes.induct)
  case (2 k c a b s)
  then obtain bs' where parts: "c = CHR ''%''" "is_hex_digit a" "is_hex_digit b" "escapes k s = Some (bs', r)" "bs = parse_hex [a, b] # bs'"
    by (auto split: if_splits)
  then obtain e where e: "s = e @ r" "length e = 3 * k" "CHR ''/'' \<notin> set e" "\<forall>r'. escapes k (e @ r') = Some (bs', r')"
    using "2.IH" by blast
  have "\<not> is_hex_digit (CHR ''/'')" by code_simp
  then have "CHR ''/'' \<notin> set (c # a # b # e)" using parts e by auto
  with parts e show ?case by (intro exI [of _ "c # a # b # e"]) auto
qed auto

lemma escaped_char_local:
  assumes "escaped_char s = Some (t, r)"
  shows "\<exists>e. s = e @ r \<and> e \<noteq> [] \<and> CHR ''/'' \<notin> set e \<and> (\<forall>r'. escaped_char (e @ r') = Some (t, r'))"
proof -
  obtain b r1 where one: "escapes 1 s = Some ([b], r1)"
    using assms unfolding escaped_char_def by (auto split: option.splits list.splits)
  obtain e1 where e1: "s = e1 @ r1" "length e1 = 3" "CHR ''/'' \<notin> set e1" "\<forall>r'. escapes 1 (e1 @ r') = Some ([b], r')"
    using escapes_local [OF one] by auto
  show ?thesis
  proof (cases "utf8_width b = 1")
    case True
    then have t: "t = [char_of b]" "r = r1" using assms one by (auto simp: escaped_char_def)
    have "e1 \<noteq> []" using e1(2) by auto
    with e1 t True show ?thesis by (intro exI [of _ e1]) (simp add: escaped_char_def)
  next
    case False
    then obtain bs where bs: "escapes (utf8_width b) s = Some (bs, r)" "utf8_valid bs" "t = map char_of bs"
      using assms one by (auto simp: escaped_char_def split: option.splits if_splits)
    obtain e where e: "s = e @ r" "length e = 3 * utf8_width b" "CHR ''/'' \<notin> set e" "\<forall>r'. escapes (utf8_width b) (e @ r') = Some (bs, r')"
      using escapes_local [OF bs(1)] by auto
    have "bs \<noteq> []" using bs(2) by (auto simp: utf8_valid_def)
    then have "utf8_width b \<noteq> 0" using escapes_length [OF bs(1)] by (cases bs) auto
    then have "length e1 \<le> length e" using e e1 by simp
    then obtain e2 where e2: "e = e1 @ e2"
      using e(1) e1(1) by (auto simp: append_eq_append_conv2)
    have "escapes 1 (e @ r') = Some ([b], e2 @ r')" for r'
      using e1(4) e2 by simp
    then have "\<forall>r'. escaped_char (e @ r') = Some (t, r')"
      using False e(4) bs by (simp add: escaped_char_def)
    moreover have "e \<noteq> []" using e1(2) e2 by auto
    ultimately show ?thesis using e by blast
  qed
qed

lemma decode_Nil [simp]: "decode_uri [] = Some []"
  by (simp add: decode_uri.simps)

lemma decode_plain: "c \<noteq> CHR ''%'' \<Longrightarrow> decode_uri (c # s) = map_option ((#) c) (decode_uri s)"
  by (simp add: decode_uri.simps)

lemma decode_escape:
  "decode_uri (CHR ''%'' # s) =
     (case escaped_char (CHR ''%'' # s) of None \<Rightarrow> None | Some (t, r) \<Rightarrow> map_option ((@) t) (decode_uri r))"
  by (subst decode_uri.simps) simp

lemma decode_no_escape: "CHR ''%'' \<notin> set a \<Longrightarrow> decode_uri (a @ b) = map_option ((@) a) (decode_uri b)"
  by (induction a; cases "decode_uri b") (auto simp: decode_plain)

text \<open>An escape holds no slash, so a text that ends in one decodes on its own.\<close>

lemma decode_at_slash:
  "decode_uri (a @ CHR ''/'' # b) = Some d \<Longrightarrow>
   \<exists>x y. decode_uri a = Some x \<and> decode_uri b = Some y \<and> d = x @ CHR ''/'' # y"
proof (induction "length a" arbitrary: a d rule: less_induct)
  case less
  show ?case
  proof (cases a)
    case Nil
    then show ?thesis using less.prems by (auto simp: decode_plain)
  next
    case (Cons c cs)
    show ?thesis
    proof (cases "c = CHR ''%''")
      case False
      then obtain d' where d': "decode_uri (cs @ CHR ''/'' # b) = Some d'" "d = c # d'"
        using less.prems by (auto simp: Cons decode_plain)
      obtain x y where "decode_uri cs = Some x" "decode_uri b = Some y" "d' = x @ CHR ''/'' # y"
        using less.hyps [OF _ d'(1)] Cons by auto
      with False Cons d' show ?thesis by (auto simp: decode_plain)
    next
      case True
      then obtain t r d' where t: "escaped_char (a @ CHR ''/'' # b) = Some (t, r)" "decode_uri r = Some d'" "d = t @ d'"
        using less.prems by (auto simp: Cons decode_escape split: option.splits)
      obtain e where e: "a @ CHR ''/'' # b = e @ r" "e \<noteq> []" "CHR ''/'' \<notin> set e" "\<forall>r'. escaped_char (e @ r') = Some (t, r')"
        using escaped_char_local [OF t(1)] by blast
      then obtain r0 where r0: "a = e @ r0" "r = r0 @ CHR ''/'' # b"
        by (auto simp: append_eq_append_conv2 Cons_eq_append_conv)
      obtain x y where xy: "decode_uri r0 = Some x" "decode_uri b = Some y" "d' = x @ CHR ''/'' # y"
        using less.hyps [of r0] t(2) r0 e(2) by auto
      have "decode_uri a = map_option ((@) t) (decode_uri r0)"
        using e(4) r0(1) Cons True by (metis decode_escape option.simps(5) case_prod_conv)
      with xy t show ?thesis by auto
    qed
  qed
qed

lemma decode_append: "decode_uri a = Some x \<Longrightarrow> decode_uri (a @ b) = map_option ((@) x) (decode_uri b)"
proof (induction a arbitrary: x rule: decode_uri.induct)
  case (1 a)
  show ?case
  proof (cases a)
    case Nil
    then show ?thesis using "1.prems" by (cases "decode_uri b") auto
  next
    case (Cons c cs)
    show ?thesis
    proof (cases "c = CHR ''%''")
      case False
      then obtain y where "decode_uri cs = Some y" "x = c # y"
        using "1.prems" by (auto simp: Cons decode_plain)
      then show ?thesis
        using "1.IH"(1) [OF Cons False] False by (cases "decode_uri b") (auto simp: Cons decode_plain)
    next
      case True
      then obtain t r y where t: "escaped_char a = Some (t, r)" "decode_uri r = Some y" "x = t @ y"
        using "1.prems" by (auto simp: Cons decode_escape split: option.splits)
      obtain e where e: "a = e @ r" "\<forall>r'. escaped_char (e @ r') = Some (t, r')"
        using escaped_char_local [OF t(1)] by blast
      have "CHR ''%'' # (cs @ b) = e @ (r @ b)"
        using e(1) Cons True by (metis append.assoc append_Cons)
      then have "escaped_char (CHR ''%'' # (cs @ b)) = Some (t, r @ b)"
        using e(2) by metis
      moreover have "decode_uri (r @ b) = map_option ((@) y) (decode_uri b)"
        using "1.IH"(2) [OF Cons _ t(1) refl t(2)] True by blast
      ultimately show ?thesis
        using True t(3) by (cases "decode_uri b") (auto simp: Cons decode_escape)
    qed
  qed
qed

subsection \<open>Slashes and segments\<close>

lemma collapse_Nil [simp]: "collapse_slashes [] = []"
  by (simp add: collapse_slashes_def)

lemma collapse_Cons [simp]: "collapse_slashes (c # s) = add_char c (collapse_slashes s)"
  by (simp add: collapse_slashes_def)

lemma add_other [simp]: "c \<noteq> CHR ''/'' \<Longrightarrow> add_char c s = c # s"
  by (simp add: add_char_def)

lemma collapse_append_plain: "CHR ''/'' \<notin> set e \<Longrightarrow> collapse_slashes (e @ r) = e @ collapse_slashes r"
  by (induction e) auto

lemma collapse_append: "collapse_slashes (a @ b) = foldr add_char a (collapse_slashes b)"
  by (simp add: collapse_slashes_def)

lemma collapse_head [simp]: "hd (add_char c s) = c" "add_char c s \<noteq> []"
  by (auto simp: add_char_def)

lemma fold_append [simp]: "fold_separators (a @ b) = fold_separators a @ fold_separators b"
  by (simp add: fold_separators_def)

lemma fold_Nil [simp]: "fold_separators [] = []"
  by (simp add: fold_separators_def)

lemma fold_Cons [simp]: "fold_separators (c # b) = (if c = BS then CHR ''/'' else c) # fold_separators b"
  by (simp add: fold_separators_def)

text \<open>Collapsing slashes before decoding or after it comes to the same.\<close>

lemma decode_collapse:
  "decode_uri s = Some d \<Longrightarrow>
   \<exists>d'. decode_uri (collapse_slashes s) = Some d' \<and> collapse_slashes (fold_separators d') = collapse_slashes (fold_separators d)"
proof (induction s arbitrary: d rule: decode_uri.induct)
  case (1 s)
  show ?case
  proof (cases s)
    case Nil
    then show ?thesis using "1.prems" by simp
  next
    case (Cons c cs)
    show ?thesis
    proof (cases "c = CHR ''%''")
      case True
      then obtain t r x where t: "escaped_char s = Some (t, r)" "decode_uri r = Some x" "d = t @ x"
        using "1.prems" by (auto simp: Cons decode_escape split: option.splits)
      obtain e where e: "s = e @ r" "e \<noteq> []" "CHR ''/'' \<notin> set e" "\<forall>r'. escaped_char (e @ r') = Some (t, r')"
        using escaped_char_local [OF t(1)] by blast
      obtain x' where x': "decode_uri (collapse_slashes r) = Some x'" "collapse_slashes (fold_separators x') = collapse_slashes (fold_separators x)"
        using "1.IH"(2) [OF Cons _ t(1) refl t(2)] True by blast
      obtain e' where e': "e = CHR ''%'' # e'" using e(1,2) Cons True by (cases e) auto
      have cs: "collapse_slashes s = CHR ''%'' # (e' @ collapse_slashes r)"
        using e(1) collapse_append_plain [OF e(3), of r] e' by simp
      have "escaped_char (CHR ''%'' # (e' @ collapse_slashes r)) = Some (t, collapse_slashes r)"
        using e(4) e' by simp
      then have "decode_uri (collapse_slashes s) = map_option ((@) t) (decode_uri (collapse_slashes r))"
        by (simp add: cs decode_escape)
      with x' t(3) show ?thesis by (simp add: collapse_append)
    next
      case False
      then obtain x where x: "decode_uri cs = Some x" "d = c # x"
        using "1.prems" by (auto simp: Cons decode_plain)
      obtain x' where x': "decode_uri (collapse_slashes cs) = Some x'" "collapse_slashes (fold_separators x') = collapse_slashes (fold_separators x)"
        using "1.IH"(1) [OF Cons False] x by blast
      show ?thesis
      proof (cases "c = CHR ''/'' \<and> (\<exists>t. collapse_slashes cs = CHR ''/'' # t)")
        case True
        then obtain t where t: "c = CHR ''/''" "collapse_slashes cs = CHR ''/'' # t" by blast
        then obtain y where "x' = CHR ''/'' # y" using x'(1) by (auto simp: decode_plain)
        then have "collapse_slashes (fold_separators x) \<noteq> [] \<and> hd (collapse_slashes (fold_separators x)) = CHR ''/''"
          unfolding x'(2) [symmetric] by simp
        then have "collapse_slashes (fold_separators d) = collapse_slashes (fold_separators x)"
          using t x by (simp add: add_char_def)
        moreover have "collapse_slashes s = collapse_slashes cs" using t by (simp add: Cons add_char_def)
        ultimately show ?thesis using x' by simp
      next
        case no: False
        then have "collapse_slashes s = c # collapse_slashes cs"
          by (cases "collapse_slashes cs") (auto simp: Cons add_char_def)
        with False x x' show ?thesis by (simp add: decode_plain)
      qed
    qed
  qed
qed

text \<open>The names a path goes through, and the name list its dot segments leave.\<close>

definition segments :: "string \<Rightarrow> string list" where
  "segments s = filter (\<lambda>p. p \<noteq> []) (split_at (CHR ''/'') s)"

definition resolve_dots :: "string list \<Rightarrow> string list" where
  "resolve_dots names = foldl (\<lambda>acc s. if s = ''.'' then acc else if s = ''..'' then butlast acc else acc @ [s]) [] names"

text \<open>
  The place a locator names for whoever follows it: its escapes decoded, backslashes read as slashes,
  empty segments dropped and dot segments resolved.
\<close>

definition place :: "string \<Rightarrow> string list option" where
  "place u = map_option (\<lambda>d. resolve_dots (segments (fold_separators d))) (decode_uri (flat_locator u))"

lemma split_at_same [simp]: "split_at d (d # s) = [] # split_at d s"
  by simp

lemma split_at_cons_other [simp]:
  "c \<noteq> d \<Longrightarrow> split_at d (c # s) = (c # hd (split_at d s)) # tl (split_at d s)"
  by (cases "split_at d s") (auto, induction s, auto split: list.splits if_splits)

declare split_at.simps(2) [simp del]

lemma split_at_nonempty [simp]: "split_at d s \<noteq> []"
  by (cases s) (auto simp: split_at.simps(2) split: list.splits)

lemma split_at_sep: "split_at d (a @ d # b) = split_at d a @ split_at d b"
proof (induction a)
  case (Cons c a)
  then show ?case by (cases "c = d") simp_all
qed simp

lemma segments_append: "segments (a @ CHR ''/'' # b) = segments a @ segments b"
  by (simp add: segments_def split_at_sep)

lemma segments_slash_end: "segments (a @ ''/'') = segments a"
  using segments_append [of a "[]"] by (simp add: segments_def)

lemma split_collapse:
  "hd (split_at (CHR ''/'') (collapse_slashes s)) = hd (split_at (CHR ''/'') s)
   \<and> filter (\<lambda>p. p \<noteq> []) (tl (split_at (CHR ''/'') (collapse_slashes s))) = filter (\<lambda>p. p \<noteq> []) (tl (split_at (CHR ''/'') s))"
proof (induction s)
  case (Cons c s)
  have whole: "filter (\<lambda>p. p \<noteq> []) (split_at (CHR ''/'') (collapse_slashes s)) = filter (\<lambda>p. p \<noteq> []) (split_at (CHR ''/'') s)"
    using Cons.IH by (cases "split_at (CHR ''/'') (collapse_slashes s)"; cases "split_at (CHR ''/'') s") (auto split: if_splits)
  show ?case
  proof (cases "c = CHR ''/''")
    case True
    show ?thesis
    proof (cases "collapse_slashes s \<noteq> [] \<and> hd (collapse_slashes s) = CHR ''/''")
      case start: True
      then obtain t where t: "collapse_slashes s = CHR ''/'' # t" by (cases "collapse_slashes s") auto
      then have "hd (split_at (CHR ''/'') s) = []" using Cons.IH by simp
      then have "filter (\<lambda>p. p \<noteq> []) (split_at (CHR ''/'') s) = filter (\<lambda>p. p \<noteq> []) (tl (split_at (CHR ''/'') s))"
        by (cases "split_at (CHR ''/'') s") auto
      with True t Cons.IH show ?thesis by (simp add: add_char_def)
    next
      case False
      with True whole show ?thesis by (auto simp: add_char_def)
    qed
  next
    case False
    with Cons.IH show ?thesis by simp
  qed
qed simp

lemma segments_collapse: "segments (collapse_slashes s) = segments s"
  unfolding segments_def using split_collapse [of s]
  by (cases "split_at (CHR ''/'') (collapse_slashes s)"; cases "split_at (CHR ''/'') s") (auto split: if_splits)

lemma has_segment_iff: "w \<noteq> [] \<Longrightarrow> has_segment w s \<longleftrightarrow> w \<in> set (segments s)"
  by (simp add: has_segment_def segments_def)

lemma resolve_no_dots: "''.'' \<notin> set names \<Longrightarrow> ''..'' \<notin> set names \<Longrightarrow> resolve_dots names = names"
proof -
  have "''.'' \<notin> set names \<Longrightarrow> ''..'' \<notin> set names \<Longrightarrow>
      foldl (\<lambda>acc s. if s = ''.'' then acc else if s = ''..'' then butlast acc else acc @ [s]) acc names = acc @ names" for acc
    by (induction names arbitrary: acc) auto
  then show "''.'' \<notin> set names \<Longrightarrow> ''..'' \<notin> set names \<Longrightarrow> resolve_dots names = names"
    by (simp add: resolve_dots_def)
qed

subsection \<open>Accepted references\<close>

text \<open>Flattening a locator keeps whether it decodes and, but for the scheme, its segments.\<close>

lemma scheme_parts:
  assumes "scheme_of u = Some (p, r)"
  shows "u = p @ ''://'' @ r" and "p \<noteq> []" and "list_all scheme_char p"
proof -
  have p: "p = takeWhile scheme_char u" "p \<noteq> []" and r: "after ''://'' (dropWhile scheme_char u) = Some r"
    using assms by (auto simp: scheme_of_def Let_def split: if_splits)
  have "after q s = Some r \<Longrightarrow> s = q @ r" for q s
    by (induction q s rule: after.induct) (auto split: if_splits)
  with r have "dropWhile scheme_char u = ''://'' @ r" by blast
  with p show "u = p @ ''://'' @ r" by (metis takeWhile_dropWhile_id)
  show "p \<noteq> []" by (rule p(2))
  show "list_all scheme_char p" using p(1) by (auto simp: list_all_iff dest: set_takeWhileD)
qed

lemma scheme_chars: "scheme_char c \<Longrightarrow> c \<noteq> CHR ''%'' \<and> c \<noteq> CHR ''/'' \<and> c \<noteq> BS"
  by (auto simp: scheme_char_def ascii_letter_def is_word_def is_digit_def)

lemma lower_scheme_chars:
  assumes "scheme_char c"
  shows "lower_char c \<noteq> CHR ''%'' \<and> lower_char c \<noteq> CHR ''/'' \<and> lower_char c \<noteq> BS"
proof (cases "65 \<le> (of_char c :: nat) \<and> (of_char c :: nat) \<le> 90")
  case True
  then have "(of_char (lower_char c) :: nat) = of_char c + 32" by (simp add: lower_char_def)
  with True show ?thesis by auto
next
  case False
  then show ?thesis using scheme_chars [OF assms] by (auto simp: lower_char_def)
qed

lemma split_at_none: "d \<notin> set y \<Longrightarrow> split_at d y = [y]"
  by (induction y) auto

lemma segments_scheme:
  assumes "CHR ''/'' \<notin> set a" and "BS \<notin> set a"
  shows "segments (fold_separators (a @ ''://'' @ x)) = (a @ '':'') # segments (fold_separators x)"
proof -
  have "fold_separators a = a"
    using assms(2) by (induction a) auto
  moreover have "split_at (CHR ''/'') (a @ '':'') = [a @ '':'']"
    using assms(1) by (intro split_at_none) auto
  ultimately show ?thesis
    using segments_append [of "a @ '':''" "CHR ''/'' # fold_separators x"] segments_append [of "[]" "fold_separators x"]
    by (simp add: segments_def)
qed

lemma flat_cases [case_names flat plain]:
  obtains p r where "scheme_of u = Some (p, r)" and "flat_locator u = lower p @ ''://'' @ collapse_slashes r"
  | "flat_locator u = collapse_slashes u"
proof (cases "scheme_of u")
  case None
  then show ?thesis using that(2) by (simp add: flat_locator_def)
next
  case (Some pr)
  obtain p r where pr: "scheme_of u = Some (p, r)" using Some by (cases pr) auto
  then show ?thesis
    using that by (cases "LF \<in> set r \<or> CR \<in> set r") (auto simp: flat_locator_def)
qed

lemma flat_decodes:
  assumes "decode_uri u = Some d"
  shows "\<exists>d'. decode_uri (flat_locator u) = Some d'
     \<and> (\<forall>w. CHR '':'' \<notin> set w \<longrightarrow> w \<in> set (segments (fold_separators d')) \<longleftrightarrow> w \<in> set (segments (fold_separators d)))"
proof -
  show ?thesis
  proof (cases u rule: flat_cases)
    case plain
    obtain d' where d': "decode_uri (collapse_slashes u) = Some d'" "collapse_slashes (fold_separators d') = collapse_slashes (fold_separators d)"
      using decode_collapse [OF assms] by blast
    then have "segments (fold_separators d') = segments (fold_separators d)"
      by (metis segments_collapse)
    with plain d' show ?thesis by simp
  next
    case (flat p r)
    note parts = scheme_parts [OF flat(1)]
    have p: "CHR ''%'' \<notin> set p" "CHR ''/'' \<notin> set p" "BS \<notin> set p"
      using parts(3) scheme_chars by (auto simp: list_all_iff)
    have q: "CHR ''%'' \<notin> set (lower p)" "CHR ''/'' \<notin> set (lower p)" "BS \<notin> set (lower p)"
      using parts(3) lower_scheme_chars by (fastforce simp: list_all_iff lower_def)+
    obtain x where x: "decode_uri r = Some x" "d = p @ ''://'' @ x"
      using assms p(1) decode_no_escape [of "p @ ''://''" r] unfolding parts(1) by (cases "decode_uri r") auto
    obtain x' where x': "decode_uri (collapse_slashes r) = Some x'" "collapse_slashes (fold_separators x') = collapse_slashes (fold_separators x)"
      using decode_collapse [OF x(1)] by blast
    then have "segments (fold_separators x') = segments (fold_separators x)"
      by (metis segments_collapse)
    moreover have "decode_uri (flat_locator u) = Some (lower p @ ''://'' @ x')"
      using q(1) decode_no_escape [of "lower p @ ''://''" "collapse_slashes r"] x'(1) flat(2) by simp
    ultimately show ?thesis
      using segments_scheme [OF p(2,3), of x] segments_scheme [OF q(2,3), of x'] x(2) by auto
  qed
qed

lemma collapse_last: "s \<noteq> [] \<Longrightarrow> last s = CHR ''/'' \<Longrightarrow> collapse_slashes s \<noteq> [] \<and> last (collapse_slashes s) = CHR ''/''"
  by (induction s) (auto simp: add_char_def split: if_splits)

lemma flat_slash_ended: "\<exists>a. flat_locator (slash_ended s) = a @ ''/''"
proof -
  have "flat_locator u \<noteq> [] \<and> last (flat_locator u) = CHR ''/''" if "u \<noteq> []" "last u = CHR ''/''" for u
  proof (cases "flat_locator u = collapse_slashes u")
    case True
    with that show ?thesis using collapse_last by simp
  next
    case False
    then obtain p r where pr: "scheme_of u = Some (p, r)" "flat_locator u = lower p @ ''://'' @ collapse_slashes r"
      by (cases u rule: flat_cases) auto
    show ?thesis
    proof (cases "r = []")
      case False
      then have "last r = CHR ''/''" using that(2) scheme_parts(1) [OF pr(1)] by simp
      then show ?thesis using collapse_last [OF False] pr(2) by simp
    qed (simp add: pr(2))
  qed
  moreover have "slash_ended s \<noteq> []" "last (slash_ended s) = CHR ''/''"
    by (auto simp: slash_ended_def)
  ultimately show ?thesis by (metis append_butlast_last_id)
qed

lemma after_prefix: "after p s = Some r \<Longrightarrow> s = p @ r"
  by (induction p s rule: after.induct) (auto split: if_splits)

lemma under_store:
  assumes "percent_decoded_path locator = Some d" and "\<not> has_segment ''.'' d" and "\<not> has_segment ''..'' d" and "\<not> has_segment ''.git'' d"
    and "after (flat_locator (slash_ended store)) (flat_locator locator) \<noteq> None"
  shows "\<exists>p q. place (slash_ended store) = Some p \<and> place locator = Some q \<and> prefix p q \<and> ''.git'' \<notin> set q"
proof -
  obtain e where e: "decode_uri locator = Some e" "d = fold_separators e"
    using assms(1) by (auto simp: percent_decoded_path_def)
  obtain e' where e': "decode_uri (flat_locator locator) = Some e'"
      "\<And>w. CHR '':'' \<notin> set w \<Longrightarrow> w \<in> set (segments (fold_separators e')) \<longleftrightarrow> w \<in> set (segments d)"
    using flat_decodes [OF e(1)] e(2) by blast
  obtain a where a: "flat_locator (slash_ended store) = a @ ''/''"
    using flat_slash_ended by blast
  then obtain r where "flat_locator locator = a @ CHR ''/'' # r"
    using assms(5) after_prefix by fastforce
  then obtain x y where xy: "decode_uri a = Some x" "e' = x @ CHR ''/'' # y"
    using decode_at_slash e'(1) by metis
  have store: "decode_uri (flat_locator (slash_ended store)) = Some (x @ ''/'')"
    using a decode_append [OF xy(1), of "''/''"] by (simp add: decode_plain)
  let ?p = "segments (fold_separators x)" and ?q = "segments (fold_separators e')"
  have q: "?q = ?p @ segments (fold_separators y)"
    by (simp add: xy(2) segments_append)
  have "''.'' \<notin> set ?q" "''..'' \<notin> set ?q" "''.git'' \<notin> set ?q"
    using assms(2,3,4) by (simp_all add: has_segment_iff e'(2))
  with q have "place (slash_ended store) = Some ?p" "place locator = Some ?q"
    by (auto simp: place_def store e'(1) segments_slash_end resolve_no_dots)
  with q \<open>''.git'' \<notin> set ?q\<close> show ?thesis by auto
qed

text \<open>
  C12. A reader that follows an accepted \<open>file://\<close> reference stays in the bundle store: the place the
  locator names, its escapes decoded, both separators read alike and dot segments resolved, lies
  under the place the declared store names and goes through no \<open>.git\<close>. A reader of a candidate it
  did not mint accepts no such reference without a declared store.
\<close>

theorem reference_stays_in_its_store:
  assumes "reference_refusal r store cwd foreign = None" and "foreign \<or> str_text store \<noteq> []"
    and "scheme_of (str_text (js_get r ''locator'')) = Some (scheme, rest)" and "lower scheme = ''file''"
  shows "str_text store \<noteq> []
     \<and> (\<exists>p q. place (slash_ended (str_text store)) = Some p \<and> place (str_text (js_get r ''locator'')) = Some q
          \<and> prefix p q \<and> ''.git'' \<notin> set q)"
proof -
  have "file_fault (str_text (js_get r ''locator'')) (str_text store) cwd foreign = None"
    using assms(1,3,4) by (auto simp: reference_refusal_def Let_def split: if_splits option.splits)
  then obtain d where d: "percent_decoded_path (str_text (js_get r ''locator'')) = Some d"
      "\<not> has_segment ''.'' d" "\<not> has_segment ''..'' d" "\<not> has_segment ''.git'' d" "str_text store \<noteq> []"
      "after (flat_locator (slash_ended (str_text store))) (flat_locator (str_text (js_get r ''locator''))) \<noteq> None"
    using assms(2) by (auto simp: file_fault_def split: option.splits if_splits)
  then show ?thesis using under_store [OF d(1-4) d(6)] by blast
qed

definition demo_reference :: "string \<Rightarrow> jsval" where
  "demo_reference locator = JObj [(''kind'', JStr ''bundle''), (''locator'', JStr locator), (''commit'', JStr (replicate 40 (CHR ''a''))), (''key'', JStr ''k'')]"

theorem reference_stays_in_its_store_witness:
  "\<exists>p q. place (slash_ended (str_text (JStr ''FILE:///st%6Fre''))) = Some p
     \<and> place (str_text (js_get (demo_reference ''file:///st%6Fre//run%20a'') ''locator'')) = Some q \<and> prefix p q \<and> ''.git'' \<notin> set q"
proof -
  have "reference_refusal (demo_reference ''file:///st%6Fre//run%20a'') (JStr ''FILE:///st%6Fre'') [] True = None"
    and "scheme_of (str_text (js_get (demo_reference ''file:///st%6Fre//run%20a'') ''locator'')) = Some (''file'', ''/st%6Fre//run%20a'')"
    and "lower ''file'' = ''file''"
    by code_simp+
  from reference_stays_in_its_store [OF this(1) disjI1 [OF TrueI] this(2,3)] show ?thesis by blast
qed

lemma demo_reference_place: "place ''file:///st%6Fre//run%20a'' = Some [''file:'', ''store'', ''run a'']"
  by code_simp

text \<open>
  The test against the producing run's own working tree is not made on the folded copy: a locator with
  a backslash names a place in the tree and is accepted where no store is declared.
\<close>

lemma backslash_hides_the_working_tree:
  "reference_refusal (demo_reference (''file:///w'' @ [BS] @ ''run-1/x'')) JNull ''/w/run-1'' False = None"
  "place (''file:///w'' @ [BS] @ ''run-1/x'') = Some [''file:'', ''w'', ''run-1'', ''x'']"
  "place (cwd_url ''/w/run-1'') = Some [''file:'', ''w'', ''run-1'']"
  by code_simp+

subsection \<open>Identity\<close>

text \<open>A key with line breaks only at the ends of its parts gives the parts back.\<close>

lemma line_parts: "LF \<notin> set a \<Longrightarrow> LF \<notin> set b \<Longrightarrow> a @ LF # s = b @ LF # t \<longleftrightarrow> a = b \<and> s = t"
proof (induction a arbitrary: b)
  case Nil
  then show ?case by (cases b) auto
next
  case (Cons c a)
  then show ?case by (cases b) auto
qed

lemma key_line_str: "key_line (JStr s) = s @ [LF]"
  by (auto simp: key_line_def js_or_def)

lemma candidate_key_inj:
  assumes "LF \<notin> set r" "LF \<notin> set r'" "LF \<notin> set n" "LF \<notin> set n'" "LF \<notin> set t" "LF \<notin> set t'"
  shows "candidate_key (JStr r) (JStr n) (JStr t) = candidate_key (JStr r') (JStr n') (JStr t') \<longleftrightarrow> r = r' \<and> n = n' \<and> t = t'"
  using assms line_parts by (simp add: candidate_key_def key_line_str)

lemma full_name_line: "full_name s \<Longrightarrow> LF \<notin> set s"
  by (auto simp: full_name_def list_all_iff is_hex_def is_digit_def)

lemma minted_fields:
  assumes "mint_candidate sha256 i = Minted c"
  obtains r n t m cid where "js_get c ''repo'' = JStr r" "js_get c ''node_id'' = JStr n" "js_get c ''tree'' = JStr t" "js_get c ''commit'' = JStr m"
    and "js_get c ''candidate_id'' = JStr cid" and "candidate_id_for sha256 (candidate_key (JStr r) (JStr n) (JStr t)) = Some cid"
    and "r \<noteq> []" "n \<noteq> []" "full_name t" "full_name m" "is_plain_object c" "js_get c ''commits_seen'' = JArr []"
proof -
  have errs: "mint_errors (plain_or_empty i) = []"
    and parts: "\<exists>cid. candidate_id_for sha256 (candidate_key (JStr (str_text (js_get (plain_or_empty i) ''repo''))) (JStr (mint_node (plain_or_empty i)))
          (JStr (lower (str_text (js_get (plain_or_empty i) ''tree''))))) = Some cid \<and> c = mint_object sha256 cid (plain_or_empty i)"
    using assms by (auto simp: mint_candidate_def Let_def split: if_splits option.splits)
  from parts obtain cid where cid: "candidate_id_for sha256 (candidate_key (JStr (str_text (js_get (plain_or_empty i) ''repo''))) (JStr (mint_node (plain_or_empty i)))
          (JStr (lower (str_text (js_get (plain_or_empty i) ''tree''))))) = Some cid" "c = mint_object sha256 cid (plain_or_empty i)" by blast
  have ok: "str_text (js_get (plain_or_empty i) ''repo'') \<noteq> []" "mint_node (plain_or_empty i) \<noteq> []"
      "full_name (lower (str_text (js_get (plain_or_empty i) ''commit'')))" "full_name (lower (str_text (js_get (plain_or_empty i) ''tree'')))"
    using errs by (auto simp: mint_errors_def Let_def split: if_splits)
  show ?thesis
    by (rule that [OF _ _ _ _ _ cid(1) ok(1,2,4,3)]) (simp_all add: cid(2) mint_object_def)
qed

text \<open>
  A candidate id is the identity of its content: two minted candidates, whose repositories and items
  are single lines and whose keys the digest's prefix tells apart, have the same id exactly
  when they pin the same tree for the same item of the same repository, whatever commit,
  attempt, run and reference they carry.
\<close>

theorem candidate_id_is_its_content:
  assumes "mint_candidate sha256 i = Minted c" and "mint_candidate sha256 j = Minted d"
    and "\<forall>x\<in>{c, d}. LF \<notin> set (js_string (js_get x ''repo'')) \<and> LF \<notin> set (js_string (js_get x ''node_id''))"
    and "key = (\<lambda>x. candidate_key (js_get x ''repo'') (js_get x ''node_id'') (js_get x ''tree''))"
    and "take 16 (sha256 (key c)) = take 16 (sha256 (key d)) \<Longrightarrow> key c = key d"
  shows "js_get c ''candidate_id'' = js_get d ''candidate_id'' \<longleftrightarrow>
     js_get c ''repo'' = js_get d ''repo'' \<and> js_get c ''node_id'' = js_get d ''node_id'' \<and> js_get c ''tree'' = js_get d ''tree''"
proof -
  obtain r n t cid where c: "js_get c ''repo'' = JStr r" "js_get c ''node_id'' = JStr n" "js_get c ''tree'' = JStr t"
      "js_get c ''candidate_id'' = JStr cid" "candidate_id_for sha256 (candidate_key (JStr r) (JStr n) (JStr t)) = Some cid" "full_name t"
    using minted_fields [OF assms(1)] by metis
  obtain r' n' t' did where d: "js_get d ''repo'' = JStr r'" "js_get d ''node_id'' = JStr n'" "js_get d ''tree'' = JStr t'"
      "js_get d ''candidate_id'' = JStr did" "candidate_id_for sha256 (candidate_key (JStr r') (JStr n') (JStr t')) = Some did" "full_name t'"
    using minted_fields [OF assms(2)] by metis
  let ?k = "candidate_key (JStr r) (JStr n) (JStr t)" and ?k' = "candidate_key (JStr r') (JStr n') (JStr t')"
  have "cid = did \<longleftrightarrow> take 16 (sha256 ?k) = take 16 (sha256 ?k')"
    using c(5) d(5) by (auto simp: candidate_id_for_def Let_def split: if_splits)
  also have "\<dots> \<longleftrightarrow> ?k = ?k'"
    using assms(5) by (auto simp: assms(4) c(1-3) d(1-3))
  also have "\<dots> \<longleftrightarrow> r = r' \<and> n = n' \<and> t = t'"
    using assms(3) c(1,2) d(1,2) full_name_line [OF c(6)] full_name_line [OF d(6)] by (intro candidate_key_inj) auto
  finally show ?thesis by (simp add: c d)
qed

subsection \<open>The pins of a record\<close>

text \<open>
  What the runner does at every pin: fold the new candidate onto the tip, publish the result, and
  append it to the chain. The publisher is not part of the kernel: it is an argument, and the
  laws it is used under are that it stamps fields of its own and leaves the pin alone.
\<close>

type_synonym pin = "jsval \<times> (jsval \<Rightarrow> jsval)"

definition pin_step :: "pin \<Rightarrow> jsval \<times> jsval list \<Rightarrow> jsval \<times> jsval list" where
  "pin_step p st =
     (let c = snd p (fst (repin_candidate (fst st) (fst p))) in (c, append_candidate_chain (snd st) c))"

definition pin_all :: "pin list \<Rightarrow> jsval \<times> jsval list" where
  "pin_all ps = fold pin_step ps (JNull, [])"

definition pin_fields :: "string list" where
  "pin_fields = [''candidate_id'', ''commit'', ''commits_seen'', ''supersedes'']"

definition keeps_the_pin :: "(jsval \<Rightarrow> jsval) \<Rightarrow> bool" where
  "keeps_the_pin publish \<longleftrightarrow>
     (\<forall>c. is_plain_object c \<longrightarrow> is_plain_object (publish c) \<and> (\<forall>k\<in>set pin_fields. js_get (publish c) k = js_get c k))"

text \<open>The commits an entry of the chain names.\<close>

definition entry_commits :: "jsval \<Rightarrow> jsval list" where
  "entry_commits c = js_get c ''commit'' # commits_seen_of c"

text \<open>Entries of the chain, oldest first: each names the one before it and has another id.\<close>

fun chained :: "jsval list \<Rightarrow> bool" where
  "chained (c # d # cs) \<longleftrightarrow> js_get d ''supersedes'' = js_get c ''candidate_id'' \<and> js_get c ''candidate_id'' \<noteq> js_get d ''candidate_id''
     \<and> chained (d # cs)"
| "chained _ \<longleftrightarrow> True"

text \<open>What holds of the record after the pins \<open>ps\<close>.\<close>

definition pinned_record :: "pin list \<Rightarrow> jsval \<times> jsval list \<Rightarrow> bool" where
  "pinned_record ps st \<longleftrightarrow>
     snd st \<noteq> [] \<and> last (snd st) = fst st \<and> chained (snd st)
     \<and> (\<forall>c\<in>set (snd st). is_plain_object c \<and> truthy (js_get c ''candidate_id''))
     \<and> js_get (fst st) ''candidate_id'' = js_get (fst (last ps)) ''candidate_id''
     \<and> (\<forall>p\<in>set ps. \<exists>c\<in>set (snd st). js_get c ''candidate_id'' = js_get (fst p) ''candidate_id'' \<and> js_get (fst p) ''commit'' \<in> set (entry_commits c))
     \<and> (\<forall>c\<in>set (snd st). \<forall>v\<in>set (entry_commits c).
          \<exists>p\<in>set ps. js_get c ''candidate_id'' = js_get (fst p) ''candidate_id'' \<and> v = js_get (fst p) ''commit'')"

text \<open>A pin of the runner: a minted candidate and a publisher that leaves the pin alone.\<close>

definition fair_pin :: "(string \<Rightarrow> string) \<Rightarrow> pin \<Rightarrow> bool" where
  "fair_pin sha256 p \<longleftrightarrow> (\<exists>i. mint_candidate sha256 i = Minted (fst p)) \<and> keeps_the_pin (snd p)"

lemma chained_snoc:
  "chained (xs @ [c]) \<longleftrightarrow> chained xs \<and> (xs \<noteq> [] \<longrightarrow>
     js_get c ''supersedes'' = js_get (last xs) ''candidate_id'' \<and> js_get (last xs) ''candidate_id'' \<noteq> js_get c ''candidate_id'')"
  by (induction xs rule: chained.induct) auto

lemma published:
  assumes "keeps_the_pin publish" and "is_plain_object c"
  shows "is_plain_object (publish c)" and "js_get (publish c) ''candidate_id'' = js_get c ''candidate_id''"
    and "js_get (publish c) ''supersedes'' = js_get c ''supersedes''" and "entry_commits (publish c) = entry_commits c"
  using assms by (simp_all add: keeps_the_pin_def pin_fields_def entry_commits_def commits_seen_of_def)

lemma fair_pin_facts:
  assumes "fair_pin sha256 p"
  shows "is_plain_object (fst p)" and "truthy (js_get (fst p) ''candidate_id'')" and "truthy (js_get (fst p) ''commit'')"
    and "entry_commits (fst p) = [js_get (fst p) ''commit'']" and "keeps_the_pin (snd p)"
proof -
  obtain i where i: "mint_candidate sha256 i = Minted (fst p)" and "keeps_the_pin (snd p)"
    using assms by (auto simp: fair_pin_def)
  then show "keeps_the_pin (snd p)" by blast
  obtain cid m r n t where f: "is_plain_object (fst p)" "js_get (fst p) ''candidate_id'' = JStr cid" "js_get (fst p) ''commit'' = JStr m"
      "full_name m" "js_get (fst p) ''commits_seen'' = JArr []" "candidate_id_for sha256 (candidate_key (JStr r) (JStr n) (JStr t)) = Some cid"
    using minted_fields [OF i] by metis
  have "cid \<noteq> []" using f(6) by (auto simp: candidate_id_for_def Let_def split: if_splits)
  moreover have "m \<noteq> []" using f(4) by (auto simp: full_name_def)
  ultimately show "is_plain_object (fst p)" "truthy (js_get (fst p) ''candidate_id'')" "truthy (js_get (fst p) ''commit'')"
      "entry_commits (fst p) = [js_get (fst p) ''commit'']"
    using f by (simp_all add: entry_commits_def commits_seen_of_def)
qed

text \<open>One pin: a new entry that names the tip, or the tip with the commit noted.\<close>

lemma pin_step_cases:
  assumes "fair_pin sha256 p" and "is_plain_object (fst st)" and "snd st \<noteq> []" and "last (snd st) = fst st"
  obtains c where "fst (pin_step p st) = c" and "is_plain_object c" and "js_get c ''candidate_id'' = js_get (fst p) ''candidate_id''"
    and "js_get (fst p) ''candidate_id'' \<noteq> js_get (fst st) ''candidate_id''" and "snd (pin_step p st) = snd st @ [c]"
    and "js_get c ''supersedes'' = js_get (fst st) ''candidate_id''" and "entry_commits c = [js_get (fst p) ''commit'']"
  | c where "fst (pin_step p st) = c" and "is_plain_object c" and "js_get c ''candidate_id'' = js_get (fst p) ''candidate_id''"
    and "js_get (fst p) ''candidate_id'' = js_get (fst st) ''candidate_id''" and "snd (pin_step p st) = butlast (snd st) @ [c]"
    and "js_get c ''supersedes'' = js_get (fst st) ''supersedes''"
    and "set (entry_commits c) = insert (js_get (fst p) ''commit'') (set (entry_commits (fst st)))"
proof -
  note fair = fair_pin_facts [OF assms(1)]
  obtain tip chain where st: "st = (tip, chain)" by (cases st)
  obtain new publish where p: "p = (new, publish)" by (cases p)
  have tip: "truthy tip" using assms(2) by (cases tip) (auto simp: st)
  show ?thesis
  proof (cases "js_get tip ''candidate_id'' = js_get new ''candidate_id''")
    case False
    let ?c = "js_set new ''supersedes'' (js_get tip ''candidate_id'')"
    have pub: "is_plain_object (publish ?c)" "js_get (publish ?c) ''candidate_id'' = js_get new ''candidate_id''"
        "js_get (publish ?c) ''supersedes'' = js_get tip ''candidate_id''" "entry_commits (publish ?c) = entry_commits new"
      using published [of publish ?c] fair by (simp_all add: p entry_commits_def commits_seen_of_def)
    show ?thesis
      using that(1) [of "publish ?c"] pub False fair assms
      by (auto simp: pin_step_def repin_candidate_def append_candidate_chain_def st p Let_def)
  next
    case True
    have seen: "fst (repin_candidate tip new) = (if js_get new ''commit'' = js_get tip ''commit'' \<or> js_get new ''commit'' \<in> set (commits_seen_of tip) then tip
        else js_set tip ''commits_seen'' (JArr (commits_seen_of tip @ [js_get new ''commit''])))" (is "_ = ?c")
      using True fair assms by (simp add: repin_candidate_def st p Let_def)
    have c: "is_plain_object ?c" "js_get ?c ''candidate_id'' = js_get new ''candidate_id''" "js_get ?c ''supersedes'' = js_get tip ''supersedes''"
        "set (entry_commits ?c) = insert (js_get new ''commit'') (set (entry_commits tip))"
      using True assms by (auto simp: st entry_commits_def commits_seen_of_def)
    have pub: "is_plain_object (publish ?c)" "js_get (publish ?c) ''candidate_id'' = js_get new ''candidate_id''"
        "js_get (publish ?c) ''supersedes'' = js_get tip ''supersedes''"
        "set (entry_commits (publish ?c)) = insert (js_get new ''commit'') (set (entry_commits tip))"
      using published [of publish ?c] c fair by (simp_all add: p)
    have "pin_step p st = (publish ?c, butlast chain @ [publish ?c])"
      using pub(1,2) True tip fair assms unfolding pin_step_def p st fst_conv snd_conv seen
      by (simp add: append_candidate_chain_def Let_def p st)
    then show ?thesis
      using that(2) [of "publish ?c"] pub True by (simp add: st p)
  qed
qed

lemma pinned_recordD:
  assumes "pinned_record ps st"
  shows "snd st = butlast (snd st) @ [fst st]" and "chained (snd st)" and "is_plain_object (fst st)"
proof -
  have st: "snd st \<noteq> []" "last (snd st) = fst st" "chained (snd st)" "\<forall>c\<in>set (snd st). is_plain_object c"
    using assms by (auto simp: pinned_record_def)
  then show "snd st = butlast (snd st) @ [fst st]" "chained (snd st)" by (metis append_butlast_last_id, blast)
  show "is_plain_object (fst st)" using st last_in_set by metis
qed

lemma record_grows:
  assumes "pinned_record ps st" and "fair_pin sha256 p"
    and "is_plain_object c" and "js_get c ''candidate_id'' = js_get (fst p) ''candidate_id''"
    and "snd st = xs @ ys" and "chained (xs @ [c])"
    and "\<forall>d\<in>set ys. js_get d ''candidate_id'' = js_get c ''candidate_id'' \<and> set (entry_commits d) \<subseteq> set (entry_commits c)"
    and "set (entry_commits c) \<subseteq> insert (js_get (fst p) ''commit'') (\<Union>d\<in>set ys. set (entry_commits d))"
    and "js_get (fst p) ''commit'' \<in> set (entry_commits c)"
  shows "pinned_record (ps @ [p]) (c, xs @ [c])"
proof -
  have recorded: "\<forall>q\<in>set ps. \<exists>d\<in>set (xs @ ys). js_get d ''candidate_id'' = js_get (fst q) ''candidate_id'' \<and> js_get (fst q) ''commit'' \<in> set (entry_commits d)"
    and named: "\<forall>d\<in>set (xs @ ys). \<forall>v\<in>set (entry_commits d). \<exists>q\<in>set ps. js_get d ''candidate_id'' = js_get (fst q) ''candidate_id'' \<and> v = js_get (fst q) ''commit''"
    using assms(1) unfolding pinned_record_def assms(5) by simp_all
  have old: "\<exists>d\<in>set (xs @ [c]). js_get d ''candidate_id'' = js_get (fst q) ''candidate_id'' \<and> js_get (fst q) ''commit'' \<in> set (entry_commits d)"
    if q: "q \<in> set ps" for q
  proof -
    obtain d where "d \<in> set (xs @ ys)" "js_get d ''candidate_id'' = js_get (fst q) ''candidate_id''" "js_get (fst q) ''commit'' \<in> set (entry_commits d)"
      using bspec [OF recorded q] by (elim bexE conjE)
    note hit = this
    show ?thesis
    proof (cases "d \<in> set ys")
      case True
      then have "js_get c ''candidate_id'' = js_get (fst q) ''candidate_id''" "js_get (fst q) ''commit'' \<in> set (entry_commits c)"
        using assms(7) hit(2,3) by (metis, metis subsetD)
      then show ?thesis by (intro bexI [of _ c]) simp_all
    next
      case False
      with hit show ?thesis by (intro bexI [of _ d]) auto
    qed
  qed
  have traced: "\<exists>q\<in>set ps. js_get d ''candidate_id'' = js_get (fst q) ''candidate_id'' \<and> v = js_get (fst q) ''commit''"
    if "d \<in> set (xs @ ys)" "v \<in> set (entry_commits d)" for d v
    using bspec [OF bspec [OF named that(1)] that(2)] .
  have "\<exists>q\<in>set (ps @ [p]). js_get c ''candidate_id'' = js_get (fst q) ''candidate_id'' \<and> v = js_get (fst q) ''commit''"
    if v: "v \<in> set (entry_commits c)" for v
  proof (cases "v = js_get (fst p) ''commit''")
    case False
    then obtain d where "d \<in> set ys" "v \<in> set (entry_commits d)" using v assms(8) by blast
    then obtain q where "q \<in> set ps" "js_get d ''candidate_id'' = js_get (fst q) ''candidate_id''" "v = js_get (fst q) ''commit''"
      using traced [of d v] by auto
    moreover have "js_get d ''candidate_id'' = js_get c ''candidate_id''" using assms(7) \<open>d \<in> set ys\<close> by blast
    ultimately show ?thesis by (intro bexI [of _ q]) simp_all
  next
    case True
    then show ?thesis using assms(4) by (intro bexI [of _ p]) simp_all
  qed
  moreover have "\<forall>d\<in>set (xs @ [c]). is_plain_object d \<and> truthy (js_get d ''candidate_id'')"
    using assms(1,3,4,5) fair_pin_facts(2) [OF assms(2)] by (auto simp: pinned_record_def)
  moreover have "\<exists>q\<in>set (ps @ [p]). js_get d ''candidate_id'' = js_get (fst q) ''candidate_id'' \<and> v = js_get (fst q) ''commit''"
    if "d \<in> set xs" "v \<in> set (entry_commits d)" for d v
    using traced [of d v] that by auto
  moreover have "\<exists>d\<in>set (xs @ [c]). js_get d ''candidate_id'' = js_get (fst p) ''candidate_id'' \<and> js_get (fst p) ''commit'' \<in> set (entry_commits d)"
    using assms(4,9) by (intro bexI [of _ c]) simp_all
  ultimately show ?thesis
    using old assms(4,6) unfolding pinned_record_def by simp
qed

lemma pin_step_record:
  assumes "pinned_record ps st" and "fair_pin sha256 p"
  shows "pinned_record (ps @ [p]) (pin_step p st)" and "prefix (butlast (snd st)) (butlast (snd (pin_step p st)))"
proof -
  note old = pinned_recordD [OF assms(1)]
  have "snd st \<noteq> []" "last (snd st) = fst st" using assms(1) by (auto simp: pinned_record_def)
  with assms(2) old(3) have "pinned_record (ps @ [p]) (pin_step p st) \<and> prefix (butlast (snd st)) (butlast (snd (pin_step p st)))"
  proof (cases rule: pin_step_cases)
    case (1 c)
    have "chained (snd st @ [c])"
      using 1 old by (auto simp: chained_snoc \<open>last (snd st) = fst st\<close>)
    then have "pinned_record (ps @ [p]) (c, snd st @ [c])"
      using 1 assms by (intro record_grows [where ys = "[]"]) auto
    moreover have "pin_step p st = (c, snd st @ [c])" using 1 by (metis prod.collapse)
    moreover have "prefix (butlast (snd st)) (snd st)"
      by (metis old(1) prefixI)
    ultimately show ?thesis by simp
  next
    case (2 c)
    have link: "chained (butlast (snd st) @ [fst st])" using old(1,2) by metis
    then have "chained (butlast (snd st) @ [c])"
      using 2 by (auto simp: chained_snoc)
    then have "pinned_record (ps @ [p]) (c, butlast (snd st) @ [c])"
      using 2 assms old(1) by (intro record_grows [where ys = "[fst st]"]) auto
    moreover have "pin_step p st = (c, butlast (snd st) @ [c])" using 2 by (metis prod.collapse)
    ultimately show ?thesis by simp
  qed
  then show "pinned_record (ps @ [p]) (pin_step p st)" "prefix (butlast (snd st)) (butlast (snd (pin_step p st)))" by blast+
qed

lemma first_pin:
  assumes "fair_pin sha256 p"
  shows "pinned_record [p] (pin_step p (JNull, []))"
proof -
  note fair = fair_pin_facts [OF assms]
  note pub = published [OF fair(5,1)]
  show ?thesis
    using fair pub by (auto simp: pin_step_def repin_candidate_def append_candidate_chain_def pinned_record_def Let_def)
qed

lemma pins_record:
  "ps \<noteq> [] \<Longrightarrow> \<forall>p\<in>set ps. fair_pin sha256 p \<Longrightarrow> pinned_record ps (pin_all ps)"
proof (induction ps rule: rev_induct)
  case (snoc p ps)
  then show ?case
    using first_pin [of sha256 p] pin_step_record(1) [of ps "pin_all ps" sha256 p]
    by (cases "ps = []") (simp_all add: pin_all_def)
qed simp

lemma pins_keep_history:
  "\<forall>p\<in>set (xs @ ys). fair_pin sha256 p \<Longrightarrow> prefix (butlast (snd (pin_all xs))) (butlast (snd (pin_all (xs @ ys))))"
proof (induction ys rule: rev_induct)
  case (snoc p ys)
  then have IH: "prefix (butlast (snd (pin_all xs))) (butlast (snd (pin_all (xs @ ys))))" by simp
  have "prefix (butlast (snd (pin_all (xs @ ys)))) (butlast (snd (pin_all (xs @ ys @ [p]))))"
  proof (cases "xs @ ys = []")
    case False
    have "fair_pin sha256 p" "\<forall>q\<in>set (xs @ ys). fair_pin sha256 q" using snoc.prems by auto
    then show ?thesis
      using pin_step_record(2) [OF pins_record [OF False]] by (simp add: pin_all_def)
  qed (simp add: pin_all_def)
  with IH show ?case by (rule prefix_order.trans)
qed simp

text \<open>
  C18. No pin is lost and none is rewritten. After any series of pins by minted candidates, with a
  publisher that leaves the pin alone, the tip is the last entry of the chain and carries the
  last candidate's id, each entry names the one before it and differs from it, every commit
  that was pinned stands on an entry of its own candidate and no entry names any other,
  and later pins leave every entry but the tip as it is.
\<close>

theorem pins_are_kept:
  assumes "xs \<noteq> []" and "\<forall>p\<in>set (xs @ ys). fair_pin sha256 p"
  shows "pinned_record (xs @ ys) (pin_all (xs @ ys)) \<and> prefix (butlast (snd (pin_all xs))) (butlast (snd (pin_all (xs @ ys))))"
  using pins_record [OF _ assms(2)] pins_keep_history [OF assms(2)] assms(1) by simp

definition demo_input :: "char \<Rightarrow> char \<Rightarrow> jsval" where
  "demo_input commit tree = JObj [(''repo'', JStr ''r''), (''node_id'', JStr ''task-a''), (''commit'', JStr (replicate 40 commit)),
     (''tree'', JStr (replicate 40 tree)), (''base'', JObj [(''merge_base'', JStr (replicate 40 (CHR ''0'')))]), (''clean'', JBool True)]"

text \<open>A digest that spells the first characters of the tree.\<close>

definition sample_digest :: "string \<Rightarrow> string" where
  "sample_digest key = take 32 (drop 9 key)"

definition demo_pin :: "char \<Rightarrow> char \<Rightarrow> pin" where
  "demo_pin commit tree =
     (case mint_candidate sample_digest (demo_input commit tree) of
        Minted c \<Rightarrow> (c, \<lambda>c. js_set c ''reference'' (JObj [(''verified_at'', JStr ''2026-01-01'')])) | _ \<Rightarrow> (JNull, id))"

definition demo_pins :: "pin list" where
  "demo_pins = [demo_pin (CHR ''1'') (CHR ''a''), demo_pin (CHR ''2'') (CHR ''a''), demo_pin (CHR ''3'') (CHR ''b'')]"

theorem pins_are_kept_witness:
  "pinned_record (demo_pins @ [demo_pin (CHR ''1'') (CHR ''a'')]) (pin_all (demo_pins @ [demo_pin (CHR ''1'') (CHR ''a'')]))
   \<and> prefix (butlast (snd (pin_all demo_pins))) (butlast (snd (pin_all (demo_pins @ [demo_pin (CHR ''1'') (CHR ''a'')]))))"
proof -
  have fair: "fair_pin sample_digest (demo_pin a b)" if "\<exists>c. mint_candidate sample_digest (demo_input a b) = Minted c" for a b
    using that by (auto simp: fair_pin_def demo_pin_def keeps_the_pin_def pin_fields_def)
  have minted: "(case mint_candidate sample_digest (demo_input a b) of Minted c \<Rightarrow> True | _ \<Rightarrow> False) \<Longrightarrow> \<exists>c. mint_candidate sample_digest (demo_input a b) = Minted c" for a b
    by (auto split: mint_result.splits)
  have "list_all (\<lambda>(a, b). case mint_candidate sample_digest (demo_input a b) of Minted c \<Rightarrow> True | _ \<Rightarrow> False)
      [(CHR ''1'', CHR ''a''), (CHR ''2'', CHR ''a''), (CHR ''3'', CHR ''b'')]"
    by code_simp
  then have all: "\<forall>p\<in>set (demo_pins @ [demo_pin (CHR ''1'') (CHR ''a'')]). fair_pin sample_digest p"
    by (auto simp: demo_pins_def intro!: fair minted)
  have "demo_pins \<noteq> []" by (simp add: demo_pins_def)
  from pins_are_kept [OF this all] show ?thesis .
qed

end
