(* ===== verification/Landed.thy ===== *)
theory Landed
  imports Resolution NodeFile "HOL-Library.List_Lexorder" "HOL-Library.Char_ord"
begin

text \<open>
  Landed work, \<^verbatim>\<open>src/lib/kernel/landed.js\<close>: the open tasks and issues that commits reachable from the
  trunk name, the draft resolver and the finding written for each, and what confirming a finding acts on.

  The graph is the one of \<open>Resolution\<close>; a node's \<open>commits:\<close> list, which that record does not
  keep, is an argument, and so is the hash. Texts are bytes, so the bounds on a line count bytes
  (the source counts code units), and the dash, the ellipsis and the arrow of the rendered
  prose are their UTF-8 bytes.
\<close>

subsection \<open>Ids\<close>

definition finding_prefix :: string where
  "finding_prefix = ''find-shipped-on-main-''"

definition draft_prefix :: string where
  "draft_prefix = ''art-shipped-''"

definition max_id_length :: nat where
  "max_id_length = 200"

definition id_char :: "char \<Rightarrow> bool" where
  "id_char c \<longleftrightarrow> is_digit c \<or> (97 \<le> (of_char c :: nat) \<and> (of_char c :: nat) \<le> 122)"

text \<open>\<open>NODE_ID_RE\<close> and \<open>SHA_RE\<close>.\<close>

definition is_node_id :: "string \<Rightarrow> bool" where
  "is_node_id s \<longleftrightarrow> s \<noteq> [] \<and> id_char (hd s) \<and> list_all (\<lambda>c. id_char c \<or> c = CHR ''-'') s"

definition is_sha :: "string \<Rightarrow> bool" where
  "is_sha s \<longleftrightarrow> 7 \<le> length s \<and> length s \<le> 40
     \<and> list_all (\<lambda>c. is_digit c \<or> (97 \<le> (of_char c :: nat) \<and> (of_char c :: nat) \<le> 102)) s"

definition bounded_id :: "(string \<Rightarrow> string) \<Rightarrow> string \<Rightarrow> string \<Rightarrow> string" where
  "bounded_id hash p subject =
     (if length (p @ subject) \<le> max_id_length then p @ subject else p @ take 12 (hash subject))"

definition landed_finding_id :: "(string \<Rightarrow> string) \<Rightarrow> string \<Rightarrow> string" where
  "landed_finding_id hash subject = bounded_id hash finding_prefix subject"

definition draft_id :: "(string \<Rightarrow> string) \<Rightarrow> string \<Rightarrow> string" where
  "draft_id hash subject = bounded_id hash draft_prefix subject"

subsection \<open>What a commit and a node name\<close>

definition trailer_ids :: "string \<Rightarrow> string list" where
  "trailer_ids t =
     dedup_acc [] (filter is_node_id (map trim (concat (map (split_at LF) (split_at (CHR '','') t)))))"

text \<open>A stamp \<open>repo@sha\<close>: the text before and after its last \<open>@\<close>.\<close>

definition split_stamp :: "string \<Rightarrow> (string \<times> string) option" where
  "split_stamp s =
     (let sha = rev (takeWhile (\<lambda>c. c \<noteq> CHR ''@'') (rev s)) in
      if CHR ''@'' \<notin> set s \<or> length s = length sha + 1 then None
      else Some (take (length s - length sha - 1) s, sha))"

definition stamp_sha :: "string \<Rightarrow> jsval \<Rightarrow> string option" where
  "stamp_sha repo e =
     (case split_stamp (trim (js_string e)) of
        None \<Rightarrow> None
      | Some (r, sha) \<Rightarrow> if r = repo \<and> is_sha (lower sha) then Some (lower sha) else None)"

definition commits_field_shas :: "jsval \<Rightarrow> string \<Rightarrow> string list" where
  "commits_field_shas commits repo =
     (case commits of JArr es \<Rightarrow> dedup_acc [] (List.map_filter (stamp_sha repo) es) | _ \<Rightarrow> [])"

subsection \<open>The plan\<close>

datatype skip_reason = Excluded | Unknown | Not_work | Was_superseded | Held | Closed | Resolved

definition skip_reason_of :: "registry \<Rightarrow> graph \<Rightarrow> (string \<rightharpoonup> resolution) \<Rightarrow> node option \<Rightarrow> skip_reason option" where
  "skip_reason_of seed g resolved node =
     (case node of
        None \<Rightarrow> Some Unknown
      | Some n \<Rightarrow>
          if n_type n \<notin> {Some ''task'', Some ''issue''} then Some Not_work
          else if g_superseded g (n_id n) then Some Was_superseded
          else if execution_held n then Some Held
          else if is_terminal_status seed (n_status n) (n_type n) (Some g) then Some Closed
          else if resolved (n_id n) \<noteq> None then Some Resolved else None)"

datatype commit_source = Trailer | Commits_field

record landed_commit =
  lc_sha :: string
  lc_subject :: string
  lc_source :: commit_source

record hit =
  h_id :: string
  h_node :: node
  h_commits :: "landed_commit list"

record skipped_row =
  sk_id :: string
  sk_sha :: string
  sk_reason :: skip_reason

text \<open>A trailer commit of the scanned range: its sha, its subject and the ids it names.\<close>

record trailer_commit =
  tc_sha :: string
  tc_subject :: string
  tc_ids :: "string list"

definition add_commit :: "node \<Rightarrow> landed_commit \<Rightarrow> hit list \<Rightarrow> hit list" where
  "add_commit n c hits =
     (case List.find (\<lambda>h. h_id h = n_id n) hits of
        None \<Rightarrow> hits @ [\<lparr>h_id = n_id n, h_node = n, h_commits = [c]\<rparr>]
      | Some h \<Rightarrow>
          if \<exists>x\<in>set (h_commits h). lc_sha x = lc_sha c then hits
          else update_first (\<lambda>h. h_id h = n_id n) (\<lambda>h. h\<lparr>h_commits := h_commits h @ [c]\<rparr>) hits)"

definition trailer_reason :: "registry \<Rightarrow> graph \<Rightarrow> (string \<rightharpoonup> resolution) \<Rightarrow> string list \<Rightarrow> string \<Rightarrow> skip_reason option" where
  "trailer_reason seed g resolved exclude i =
     (if i \<in> set exclude then Some Excluded else skip_reason_of seed g resolved (g_node g i))"

definition trailer_step :: "registry \<Rightarrow> graph \<Rightarrow> (string \<rightharpoonup> resolution) \<Rightarrow> string list \<Rightarrow> hit list \<times> skipped_row list
    \<Rightarrow> trailer_commit \<times> string \<Rightarrow> hit list \<times> skipped_row list" where
  "trailer_step seed g resolved exclude st p =
     (case p of (c, i) \<Rightarrow>
        (case (trailer_reason seed g resolved exclude i, g_node g i) of
           (None, Some n) \<Rightarrow> (add_commit n \<lparr>lc_sha = tc_sha c, lc_subject = tc_subject c, lc_source = Trailer\<rparr> (fst st), snd st)
         | (Some why, _) \<Rightarrow> (fst st, snd st @ [\<lparr>sk_id = i, sk_sha = tc_sha c, sk_reason = why\<rparr>])
         | _ \<Rightarrow> st))"

text \<open>The reachable stamps of a node: \<open>stamped\<close> gives the commit the caller proved reachable.\<close>

definition stamp_step :: "(string \<Rightarrow> (string \<times> string) option) \<Rightarrow> node \<Rightarrow> hit list \<Rightarrow> string \<Rightarrow> hit list" where
  "stamp_step stamped n hits s =
     (case stamped s of
        None \<Rightarrow> hits
      | Some (sha, subject) \<Rightarrow> add_commit n \<lparr>lc_sha = sha, lc_subject = subject, lc_source = Commits_field\<rparr> hits)"

definition stamped_work :: "registry \<Rightarrow> graph \<Rightarrow> (string \<rightharpoonup> resolution) \<Rightarrow> string list \<Rightarrow> node \<Rightarrow> bool" where
  "stamped_work seed g resolved exclude n \<longleftrightarrow> n_id n \<notin> set exclude \<and> skip_reason_of seed g resolved (Some n) = None"

definition node_step :: "registry \<Rightarrow> graph \<Rightarrow> (string \<rightharpoonup> resolution) \<Rightarrow> string list \<Rightarrow> (node \<Rightarrow> jsval) \<Rightarrow> string
    \<Rightarrow> (string \<Rightarrow> (string \<times> string) option) \<Rightarrow> hit list \<Rightarrow> node \<Rightarrow> hit list" where
  "node_step seed g resolved exclude commits repo stamped hits n =
     (if stamped_work seed g resolved exclude n
      then foldl (stamp_step stamped n) hits (commits_field_shas (commits n) repo) else hits)"

definition plan :: "registry \<Rightarrow> graph \<Rightarrow> (node \<Rightarrow> jsval) \<Rightarrow> string \<Rightarrow> trailer_commit list
    \<Rightarrow> (string \<Rightarrow> (string \<times> string) option) \<Rightarrow> string list \<Rightarrow> hit list \<times> skipped_row list" where
  "plan seed g commits repo trailered stamped exclude =
     (let resolved = resolution_map seed g;
          (hits, skipped) = foldl (trailer_step seed g resolved exclude) ([], [])
            (concat (map (\<lambda>c. map (Pair c) (tc_ids c)) trailered));
          all_hits = foldl (node_step seed g resolved exclude commits repo stamped) hits (g_values g)
      in (sort_key h_id all_hits, skipped))"

subsection \<open>Rendering\<close>

definition bound_line :: "nat \<Rightarrow> string \<Rightarrow> string" where
  "bound_line limit s =
     (let t = trim (squeeze is_space (CHR '' '') False s) in
      if length t \<le> limit then t else trim_end (take (limit - 1) t) @ [CHR 0xE2, CHR 0x80, CHR 0xA6])"

definition bounded_summary :: "string \<Rightarrow> string" where
  "bounded_summary s = bound_line 500 s"

definition long_dash :: string where
  "long_dash = [CHR 0xE2, CHR 0x80, CHR 0x94]"

definition right_arrow :: string where
  "right_arrow = [CHR 0xE2, CHR 0x86, CHR 0x92]"

definition ellipsis_text :: string where
  "ellipsis_text = [CHR 0xE2, CHR 0x80, CHR 0xA6]"

definition short_sha :: "string \<Rightarrow> string" where
  "short_sha s = take 12 s"

definition node_text :: "string list \<Rightarrow> string list \<Rightarrow> string" where
  "node_text front paragraphs =
     ''---'' @ LF # join [LF] front @ LF # ''---'' @ LF # LF # join [LF, LF] paragraphs @ [LF]"

text \<open>What a rendering is run under: \<open>check\<close> is the ref and its tip, \<open>declared\<close> the type's completion status.\<close>

record render_args =
  ra_repo :: string
  ra_ref :: string
  ra_tip :: string
  ra_date :: string
  ra_declared :: "string option"

definition or_word :: "string option \<Rightarrow> string \<Rightarrow> string" where
  "or_word s d = (case s of Some x \<Rightarrow> if x = [] then d else x | None \<Rightarrow> d)"

definition ref_line :: "render_args \<Rightarrow> string" where
  "ref_line a = ''`git merge-base --is-ancestor <sha> '' @ ra_ref a @ ''` passed for every listed commit ('' @ ra_ref a @ '' at `''
     @ short_sha (ra_tip a) @ ''`)''"

definition commit_line :: "render_args \<Rightarrow> landed_commit \<Rightarrow> string" where
  "commit_line a c =
     (let subject = bound_line 120 (lc_subject c) in
      ''- `'' @ ra_repo a @ ''@'' @ lc_sha c @ ''` '' @ long_dash @ '' '' @ (if subject = [] then ''(no subject)'' else subject)
      @ '' ('' @ (if lc_source c = Trailer then ''`Spor:` trailer'' else ''`commits:` stamp'') @ '')'')"

definition commit_lines :: "render_args \<Rightarrow> hit \<Rightarrow> string list" where
  "commit_lines a h =
     map (commit_line a) (take 20 (h_commits h))
     @ (if length (h_commits h) > 20 then [''- '' @ ellipsis_text @ '' and '' @ nat_string (length (h_commits h) - 20) @ '' more''] else [])"

definition completion_word :: "render_args \<Rightarrow> hit \<Rightarrow> string" where
  "completion_word a h = or_word (ra_declared a) (if n_type (h_node h) = Some ''issue'' then ''resolved'' else ''done'')"

definition project_line :: "hit \<Rightarrow> string list" where
  "project_line h = (if truthy (n_project (h_node h)) then [''project: '' @ js_string (n_project (h_node h))] else [])"

text \<open>\<open>a commit\<close>, or how many.\<close>

definition some_commits :: "hit \<Rightarrow> string" where
  "some_commits h = (if length (h_commits h) = 1 then ''a commit'' else nat_string (length (h_commits h)) @ '' commits'')"

definition draft_summary :: "render_args \<Rightarrow> hit \<Rightarrow> string" where
  "draft_summary a h =
     (let subject = lc_subject (hd (h_commits h)) in
      ''DRAFT resolver for '' @ h_id h @ '': '' @ some_commits h @ '' naming it landed on '' @ ra_ref a @ '' of '' @ ra_repo a @ '' (''
      @ join '', '' (map (\<lambda>c. short_sha (lc_sha c)) (take 20 (h_commits h)))
      @ (if length (h_commits h) > 20 then '', '' @ ellipsis_text else []) @ '')''
      @ (if subject = [] then [] else '' '' @ long_dash @ '' '' @ bound_line 140 subject)
      @ ''. Unlinked until a person confirms the close.'')"

definition title_of :: "hit \<Rightarrow> string" where
  "title_of h = bound_line 120 (or_word (n_title (h_node h)) (n_id (h_node h)))"

definition draft_front :: "(string \<Rightarrow> string) \<Rightarrow> render_args \<Rightarrow> hit \<Rightarrow> string list" where
  "draft_front hash a h =
     [''id: '' @ draft_id hash (h_id h), ''type: artifact''] @ project_line h
     @ [''title: '' @ bound_line 200 (''Shipped on '' @ ra_ref a @ '': '' @ title_of h),
        ''summary: '' @ bounded_summary (draft_summary a h),
        ''status: in-review'', ''date: '' @ ra_date a,
        ''commits: ['' @ join '', '' (map (\<lambda>c. ra_repo a @ ''@'' @ lc_sha c) (take 20 (h_commits h))) @ '']'',
        ''edges:'', ''  - {type: mentions, to: '' @ h_id h @ ''}'', ''authored_via: reconcile-landed'']"

definition draft_body :: "(string \<Rightarrow> string) \<Rightarrow> render_args \<Rightarrow> hit \<Rightarrow> string list" where
  "draft_body hash a h =
     [''Drafted by `spor reconcile-landed`: '' @ h_id h @ '' is named by '' @ some_commits h @ '' now reachable from `'' @ ra_ref a
        @ ''` in `'' @ ra_repo a @ ''`.'',
      join [LF] (commit_lines a h),
      ''Reachability: '' @ ref_line a @ ''.'',
      ''This is a DRAFT: status `in-review` and no `resolves` edge, so it retires nothing. A trailer can name a node the commit only relates to ''
        @ long_dash @ '' confirming the close (`spor reconcile-landed --confirm '' @ landed_finding_id hash (h_id h)
        @ ''`) is what marks this `merged`, adds `resolves '' @ right_arrow @ '' '' @ h_id h @ ''` and sets '' @ h_id h @ '' `''
        @ completion_word a h @ ''`.'']"

definition finding_summary :: "render_args \<Rightarrow> hit \<Rightarrow> string" where
  "finding_summary a h =
     h_id h @ '' is still '' @ or_word (n_status (h_node h)) ''open'' @ '', but ''
     @ (if length (h_commits h) = 1 then ''commit '' @ short_sha (lc_sha (hd (h_commits h))) @ '' naming it is''
        else nat_string (length (h_commits h)) @ '' commits naming it are'')
     @ '' reachable from '' @ ra_ref a @ '' in '' @ ra_repo a
     @ '' (git merge-base --is-ancestor passed). Confirm the close, or dismiss if the commit only relates to it.''"

definition finding_front :: "(string \<Rightarrow> string) \<Rightarrow> render_args \<Rightarrow> hit \<Rightarrow> string list" where
  "finding_front hash a h =
     [''id: '' @ landed_finding_id hash (h_id h), ''type: finding''] @ project_line h
     @ [''title: '' @ bound_line 200 (''Shipped on '' @ ra_ref a @ '' '' @ long_dash @ '' confirm close: '' @ h_id h),
        ''summary: '' @ bounded_summary (finding_summary a h),
        ''status: open'', ''date: '' @ ra_date a,
        ''edges:'', ''  - {type: relates-to, to: '' @ h_id h @ ''}'', ''  - {type: relates-to, to: '' @ draft_id hash (h_id h) @ ''}'',
        ''authored_via: reconcile-landed'']"

definition finding_body :: "(string \<Rightarrow> string) \<Rightarrow> render_args \<Rightarrow> hit \<Rightarrow> string list" where
  "finding_body hash a h =
     [''`'' @ h_id h @ ''` ('' @ (case n_type (h_node h) of Some t \<Rightarrow> t | None \<Rightarrow> ''undefined'') @ '', status `''
        @ or_word (n_status (h_node h)) ''open'' @ ''`) looks shipped: ''
        @ (if length (h_commits h) = 1 then ''a commit that names it is'' else ''commits that name it are'')
        @ '' on `'' @ ra_ref a @ ''` in `'' @ ra_repo a @ ''`.'',
      join [LF] (commit_lines a h),
      ''Reachability check passed: '' @ ref_line a @ ''. A commit that exists only on a branch never files this finding.'',
      ''The resolver is drafted, unlinked, as `'' @ draft_id hash (h_id h) @ ''`. To confirm (batch-confirmable '' @ long_dash
        @ '' pass every id at once): `spor reconcile-landed --confirm '' @ landed_finding_id hash (h_id h) @ '' [<more finding ids>'' @ ellipsis_text
        @ '']` '' @ long_dash @ '' it marks the draft `merged`, adds `resolves '' @ right_arrow @ '' '' @ h_id h @ ''`, sets it `''
        @ completion_word a h @ ''` and resolves this finding. If the commit only relates to '' @ h_id h
        @ '', set this finding `dismissed` instead; the draft stays inert.'']"

record rendered =
  rd_finding_id :: string
  rd_draft_id :: string
  rd_draft :: string
  rd_finding :: string

text \<open>\<open>None\<close> is the \<open>TypeError\<close> of a hit without commits, which the plan never makes.\<close>

definition render :: "(string \<Rightarrow> string) \<Rightarrow> render_args \<Rightarrow> hit \<Rightarrow> rendered option" where
  "render hash a h =
     (if h_commits h = [] then None
      else Some \<lparr>rd_finding_id = landed_finding_id hash (h_id h), rd_draft_id = draft_id hash (h_id h),
        rd_draft = node_text (draft_front hash a h) (draft_body hash a h),
        rd_finding = node_text (finding_front hash a h) (finding_body hash a h)\<rparr>)"

subsection \<open>Confirming\<close>

datatype confirm_error = Not_a_finding | Subject_count nat | Id_mismatch string | Draft_missing string

definition starts_with :: "string \<Rightarrow> string \<Rightarrow> bool" where
  "starts_with p s \<longleftrightarrow> after p s \<noteq> None"

definition flat_prop :: "node_file \<Rightarrow> string \<Rightarrow> string" where
  "flat_prop n k = (case node_prop n k of Some (Flat s) \<Rightarrow> s | _ \<Rightarrow> [])"

definition related :: "node_file \<Rightarrow> string list" where
  "related n = map (\<lambda>e. attr e ''to'') (filter (\<lambda>e. attr e ''type'' = ''relates-to'' \<and> attr e ''to'' \<noteq> []) (nf_edges n))"

definition confirm_targets :: "(string \<Rightarrow> string) \<Rightarrow> node_file \<Rightarrow> confirm_error + string \<times> string" where
  "confirm_targets hash finding =
     (if flat_prop finding ''type'' \<noteq> ''finding'' \<or> \<not> starts_with finding_prefix (flat_prop finding ''id'') then Inl Not_a_finding
      else case filter (\<lambda>t. \<not> starts_with draft_prefix t) (related finding) of
        [subject] \<Rightarrow>
          (if landed_finding_id hash subject \<noteq> flat_prop finding ''id'' then Inl (Id_mismatch subject)
           else if draft_id hash subject \<notin> set (related finding) then Inl (Draft_missing (draft_id hash subject))
           else Inr (subject, draft_id hash subject))
      | subjects \<Rightarrow> Inl (Subject_count (length subjects)))"

end
