(* ===== verification/LandedProps.thy ===== *)
theory LandedProps
  imports Landed NodeFileProps
begin

text \<open>
  The rendered draft and finding read back through the node-file grammar, confirming a finding acts on
  the very hit it was rendered from, and the plan holds exactly the open work that landed commits name.
\<close>

subsection \<open>Lines of a rendered node\<close>

definition single_line :: "string \<Rightarrow> bool" where
  "single_line s \<longleftrightarrow> LF \<notin> set s \<and> CR \<notin> set s"

lemma single_line_append [simp]: "single_line (a @ b) \<longleftrightarrow> single_line a \<and> single_line b"
  by (auto simp: single_line_def)

lemma squeeze_chars: "x \<in> set (squeeze is_space (CHR '' '') b s) \<Longrightarrow> x = CHR '' '' \<or> (x \<in> set s \<and> \<not> is_space x)"
  by (induction is_space "CHR '' ''" b s rule: squeeze.induct) (auto split: if_splits)

lemma set_trim_end: "set (trim_end s) \<subseteq> set s"
  using set_dropWhileD by (fastforce simp: trim_end_def)

lemma bound_line_single: "single_line (bound_line limit s)"
proof -
  have "single_line (squeeze is_space (CHR '' '') False s)"
    using squeeze_chars [of _ False s] by (fastforce simp: single_line_def is_space_def ws_chars_def)
  then have t: "single_line (trim (squeeze is_space (CHR '' '') False s))"
    using set_trim by (fastforce simp: single_line_def)
  have "set (trim_end (take (limit - 1) t)) \<subseteq> set t" for t
    using set_trim_end set_take_subset by (rule subset_trans)
  with t show ?thesis
    by (auto simp: bound_line_def Let_def single_line_def)
qed

text \<open>A key line the renderer writes raw, and a list line.\<close>

lemma raw_field:
  assumes "settled st" and "field_key k" and "k \<notin> set list_fields" and "single_line v"
  shows "\<exists>st'. lex_steps lenient f i [k @ '': '' @ v] st st' \<and> settled st'
     \<and> lx_fields st' = set_prop k (Flat (scalar_value (skip_ws v))) (lx_fields st) \<and> seen st' = seen st"
proof -
  let ?l = "k @ '': '' @ v"
  have key: "key_token k" "list_all is_token k" "k \<noteq> ''edges''"
    using assms(2) by (auto simp: field_key_def key_token_def)
  have "CR \<notin> set (skip_ws (CHR '' '' # v))"
    using assms(4) set_dropWhileD by (fastforce simp: single_line_def skip_ws_def)
  then have kv: "kv_match ?l = Some (k, skip_ws v)"
    using kv_line [OF key(1), of "CHR '' '' # v"] by simp
  have lm: "list_match ?l = None"
    using list_line_None [OF key(2) assms(3)] by simp
  let ?st1 = "st\<lparr>lx_buf := None, lx_edges := rows i st\<rparr>"
  let ?st' = "(open_entry \<lparr>en_kind = ScalarEntry, en_key = k, en_form = None, en_from = i, en_upto = i + 1, en_inline = None\<rparr> ?st1)
     \<lparr>lx_in_edges := False, lx_fields := set_prop k (Flat (scalar_value (skip_ws v))) (lx_fields st), lx_last_key := Some k,
      lx_last_raw := skip_ws v, lx_block_key := None\<rparr>"
  have "lex_line lenient f i ?l rest st = Inr (?st', 0)" for rest
    using assms(3) key(3) unfolding lex_line_def lm kv flush_settled [OF assms(1)]
    by (simp add: lex_key_def)
  then have "lex_steps lenient f i [?l] st ?st'"
    by (simp add: steps_line)
  moreover have "seen ?st' = seen st"
    using seen_rows [of i st] by (simp add: seen_def open_entry_def)
  ultimately show ?thesis
    by (intro exI [of _ ?st']) (simp add: open_entry_def)
qed

definition raw_line :: "string \<times> string \<Rightarrow> string" where
  "raw_line p = fst p @ '': '' @ snd p"

definition raw_value :: "string \<times> string \<Rightarrow> string \<times> field_value" where
  "raw_value p = (fst p, Flat (scalar_value (skip_ws (snd p))))"

definition raw_ok :: "string \<times> string \<Rightarrow> bool" where
  "raw_ok p \<longleftrightarrow> field_key (fst p) \<and> fst p \<notin> set list_fields \<and> single_line (snd p)"

lemma raw_keys: "list_all raw_ok ps \<Longrightarrow> ''__proto__'' \<notin> set (map fst ps)"
  by (induction ps) (auto simp: raw_ok_def field_key_def)

lemma raw_fields:
  "settled st \<Longrightarrow> list_all raw_ok ps \<Longrightarrow>
   \<exists>st'. lex_steps lenient f i (map raw_line ps) st st' \<and> settled st'
     \<and> lx_fields st' = foldl (\<lambda>fs (k, v). set_prop k v fs) (lx_fields st) (map raw_value ps) \<and> seen st' = seen st"
proof (induction ps arbitrary: st i)
  case (Cons p ps)
  have "raw_ok p" "list_all raw_ok ps" using Cons.prems(2) by simp_all
  then have p: "field_key (fst p)" "fst p \<notin> set list_fields" "single_line (snd p)" "list_all raw_ok ps"
    by (simp_all add: raw_ok_def)
  obtain st1 where st1: "lex_steps lenient f i [raw_line p] st st1" "settled st1"
      "lx_fields st1 = set_prop (fst p) (Flat (scalar_value (skip_ws (snd p)))) (lx_fields st)" "seen st1 = seen st"
    using raw_field [OF Cons.prems(1) p(1-3)] unfolding raw_line_def by blast
  obtain st' where st': "lex_steps lenient f (i + 1) (map raw_line ps) st1 st'" "settled st'"
      "lx_fields st' = foldl (\<lambda>fs (k, v). set_prop k v fs) (lx_fields st1) (map raw_value ps)" "seen st' = seen st1"
    using Cons.IH [OF st1(2) p(4), of "i + 1"] by blast
  have "lex_steps lenient f i ([raw_line p] @ map raw_line ps) st st'"
    by (rule steps_append [OF st1(1)]) (use st'(1) in simp)
  moreover have "raw_value p = (fst p, Flat (scalar_value (skip_ws (snd p))))" by (simp add: raw_value_def)
  ultimately show ?case using st1 st' by (intro exI [of _ st']) simp
next
  case Nil
  then show ?case by (intro exI [of _ st]) simp
qed

lemma raw_list:
  assumes "settled st" and "k \<in> set list_fields"
  shows "\<exists>st' v. lex_steps lenient f i [k @ '': ['' @ b @ '']''] st st' \<and> settled st'
     \<and> lx_fields st' = set_prop k v (lx_fields st) \<and> seen st' = seen st"
proof -
  have key: "list_all is_token k" using list_fields_tokens [OF assms(2)] by (simp add: key_token_def)
  let ?b = "takeWhile (\<lambda>x. x \<noteq> CHR '']'') (b @ '']'')"
  have "list_match (k @ '': ['' @ b @ '']'') = Some (k, ?b)"
    using key assms(2) by (simp add: list_match_def token_plain)
  then have "\<exists>st'. (\<forall>rest. lex_line lenient f i (k @ '': ['' @ b @ '']'') rest st = Inr (st', 0)) \<and> settled st'
     \<and> lx_fields st' = set_prop k (Items (filter (\<lambda>s. s \<noteq> []) (map trim (split_at (CHR '','') ?b)))) (lx_fields st) \<and> seen st' = seen st"
    using seen_rows [of i st] by (simp add: lex_line_def flush_settled [OF assms(1)] open_entry_def seen_def)
  then show ?thesis using steps_line by blast
qed

text \<open>The edge of a rendered node: its two attributes are tokens.\<close>

definition token_pair :: "string \<times> string \<Rightarrow> attrs" where
  "token_pair p = [(''type'', fst p), (''to'', snd p)]"

definition token_edge_line :: "string \<times> string \<Rightarrow> string" where
  "token_edge_line p = ''  - {type: '' @ fst p @ '', to: '' @ snd p @ ''}''"

lemma token_edges_step:
  assumes "settled st" and "es \<noteq> []" and "list_all (\<lambda>p. simple_token (fst p) \<and> simple_token (snd p)) es"
  shows "\<exists>st'. lex_steps lenient f i (''edges:'' # map token_edge_line es) st st' \<and> settled st' \<and> lx_fields st' = lx_fields st
     \<and> seen st' = seen st @ map token_pair es"
proof -
  let ?es = "map token_pair es"
  have one: "writable_edge (token_pair p) \<and> edge_entry_lines (token_pair p) = [token_edge_line p] \<and> read_edge (token_pair p) = token_pair p"
    if "simple_token (fst p)" "simple_token (snd p)" for p
  proof -
    have fl: "flowable (token_pair p)" "extra_attrs (token_pair p) = []" "flow_tail [] = []"
      using that by (simp_all add: flowable_def token_pair_def attr_text_def extra_attrs_def flow_tail_def)
    have lines': "folded_line (fst p) = fst p" "folded_line (snd p) = snd p" "CR \<notin> set (fst p)" "CR \<notin> set (snd p)"
      using that token_one_line token_plain_line by (auto simp: simple_token_def)
    then show ?thesis
      using fl that by (simp add: writable_edge_def edge_entry_lines_def token_edge_line_def read_edge_def simple_token_def)
        (simp add: token_pair_def attr_text_def simple_token_def)
  qed
  have all: "list_all writable_edge ?es" "concat (map edge_entry_lines ?es) = map token_edge_line es" "map read_edge ?es = ?es"
    using one assms(3) by (induction es) auto
  then have "edges_lines ?es = ''edges:'' # map token_edge_line es"
    using assms(2) by (simp add: edges_lines_def)
  then obtain st' where st': "lex_steps lenient f i (''edges:'' # map token_edge_line es) st st'" "settled st'" "lx_fields st' = lx_fields st"
      "rows (i + length (edges_lines ?es)) st' = rows i st @ edge_rows (i + 1) ?es"
    using edges_step [OF assms(1) all(1), of lenient f i] by auto
  have "seen st' = seen st @ ?es"
    using arg_cong [OF st'(4), of "map ee_edge"] all(3) by (simp add: seen_rows)
  with st' show ?thesis by blast
qed

subsection \<open>A rendered node\<close>

lemma fold_crlf_prefix: "CR \<notin> set a \<Longrightarrow> fold_crlf (a @ t) = a @ fold_crlf t"
proof (induction a)
  case (Cons c a)
  then show ?case by (cases "a @ t") auto
qed simp

lemma split_rendered:
  assumes "ls \<noteq> []" and "\<forall>l\<in>set ls. plain_line l"
  shows "\<exists>d. split_document (node_text ls ps) = Some d \<and> d_frontmatter d = join [LF] ls"
proof -
  let ?head = "''---'' @ LF # join [LF] ls @ LF # ''---'' @ [LF]"
  let ?t = "LF # join [LF, LF] ps @ [LF]"
  have raw: "node_text ls ps = ?head @ ?t" by (simp add: node_text_def)
  have "CR \<notin> set (join [LF] ls)"
    using assms(2) by (induction "[LF]" ls rule: join.induct) (auto simp: plain_line_def)
  then have "fold_crlf (node_text ls ps) = ?head @ fold_crlf ?t"
    unfolding raw by (intro fold_crlf_prefix) auto
  moreover have "after (''---'' @ [LF]) (?head @ fold_crlf ?t) = Some (join [LF] ls @ LF # ''---'' @ LF # fold_crlf ?t)"
    by simp
  moreover have "find_close (join [LF] ls @ LF # ''---'' @ LF # fold_crlf ?t) = Some (join [LF] ls, LF # fold_crlf ?t)"
    using assms find_close_lines [OF assms(1), of "LF # fold_crlf ?t"] by (auto simp: plain_line_def dest: list.set_sel(2))
  ultimately show ?thesis
    unfolding split_document_def by (auto split: prod.split)
qed

lemma rendered_parses:
  assumes "ls \<noteq> []" and "\<forall>l\<in>set ls. plain_line l" and "lex_steps False path 0 ls empty_lex st" and "settled st"
    and "lx_fields st = foldl (\<lambda>fs (k, v). set_prop k v fs) [] kvs" and "distinct (map fst kvs)" and "''__proto__'' \<notin> fst ` set kvs"
  shows "\<exists>m. parse_frontmatter (node_text ls ps) path = Inr m \<and> nf_edges m = seen st
     \<and> (\<forall>k v. (k, v) \<in> set kvs \<longrightarrow> k \<noteq> ''project'' \<longrightarrow> node_prop m k = Some v)"
proof -
  obtain d where d: "split_document (node_text ls ps) = Some d" "d_frontmatter d = join [LF] ls"
    using split_rendered [OF assms(1,2)] by blast
  have "\<forall>l\<in>set ls. LF \<notin> set l" using assms(2) by (simp add: plain_line_def)
  then have lex: "lex_frontmatter False path (d_frontmatter d) = Inr (st\<lparr>lx_buf := None, lx_edges := rows (0 + length ls) st\<rparr>)"
    using steps_lines [OF assms(3,4)] by (simp only: lex_frontmatter_def d(2) split_join_lines [OF assms(1)])
  have kvs: "lx_fields st = kvs"
    using fold_set_prop_fresh [of kvs "[]"] assms(5-7) by simp
  let ?m = "fold_node (st\<lparr>lx_buf := None, lx_edges := rows (0 + length ls) st\<rparr>) (d_body d) path"
  have "node_prop ?m k = Some v" if "(k, v) \<in> set kvs" "k \<noteq> ''project''" for k v
  proof -
    have "map_of kvs k = Some v" using that(1) assms(6) by simp
    then have "map_of (foldl (\<lambda>ps (k, v). set_prop k v ps)
        [(''pin'', Items []), (''exclude'', Items []), (''body'', Flat (trim (d_body d))), (''file'', Flat path)] kvs) k = Some v"
      using assms(7) by (subst map_of_fold_props [OF assms(6)]) (auto simp: image_iff)
    then show ?thesis
      using that(2) by (auto simp: fold_node_def node_prop_def Let_def kvs update_conv' split: option.split)
  qed
  moreover have "nf_edges ?m = seen st"
    using seen_rows [of "0 + length ls" st] by (simp add: fold_node_def Let_def)
  ultimately show ?thesis
    using d lex by (simp add: parse_frontmatter_def)
qed

lemma raw_line_plain: "raw_ok p \<Longrightarrow> plain_line (raw_line p)"
  unfolding raw_line_def by (rule keyed_plain) (auto simp: raw_ok_def field_key_def single_line_def)

lemma token_edge_plain: "simple_token (fst p) \<Longrightarrow> simple_token (snd p) \<Longrightarrow> plain_line (token_edge_line p)"
  using indented_plain [of "'' - {type: '' @ fst p @ '', to: '' @ snd p @ ''}''"] token_plain_line
  by (auto simp: token_edge_line_def simple_token_def)

lemma commits_key: "key_token ''commits''"
  by code_simp

lemma edges_header_plain: "plain_line ''edges:''"
  by code_simp

text \<open>A front of key lines, one optional list line, an edge block and key lines after it.\<close>

lemma front_parses:
  assumes "list_all raw_ok (pre @ post)" and "es \<noteq> []" and "list_all (\<lambda>p. simple_token (fst p) \<and> simple_token (snd p)) es"
    and "extra = [] \<or> (\<exists>b. extra = [''commits: ['' @ b @ '']''] \<and> single_line b)"
    and "distinct (''commits'' # map fst (pre @ post))"
  shows "\<exists>m. parse_frontmatter (node_text (map raw_line pre @ extra @ ''edges:'' # map token_edge_line es @ map raw_line post) ps) path = Inr m
     \<and> nf_edges m = map token_pair es
     \<and> (\<forall>p\<in>set (pre @ post). fst p \<noteq> ''project'' \<longrightarrow> node_prop m (fst p) = Some (Flat (scalar_value (skip_ws (snd p)))))"
proof -
  let ?set = "\<lambda>fs. foldl (\<lambda>fs (k, v). set_prop k v fs) (fs :: (string \<times> field_value) list)"
  have ok: "list_all raw_ok pre" "list_all raw_ok post" using assms(1) by simp_all
  have empty: "settled empty_lex" "lx_fields empty_lex = []" "seen empty_lex = []"
    by (simp_all add: empty_lex_def settled_def seen_def rows_def)
  obtain st1 where st1: "lex_steps False path 0 (map raw_line pre) empty_lex st1" "settled st1"
      "lx_fields st1 = ?set [] (map raw_value pre)" "seen st1 = []"
    using raw_fields [OF empty(1) ok(1), of False "path" 0] empty by auto
  have "\<exists>st2 vs. lex_steps False path (0 + length (map raw_line pre)) extra st1 st2 \<and> settled st2
      \<and> lx_fields st2 = ?set (lx_fields st1) vs \<and> map fst vs = map (\<lambda>_. ''commits'') extra \<and> length vs \<le> 1 \<and> seen st2 = seen st1"
  proof (cases "extra = []")
    case True
    with st1(2) show ?thesis by (intro exI [of _ st1] exI [of _ "[]"]) simp
  next
    case False
    then obtain b where b: "extra = [''commits: ['' @ b @ '']'']" using assms(4) by blast
    have mem: "''commits'' \<in> set list_fields" by code_simp
    obtain st2 v where st2: "lex_steps False path (0 + length (map raw_line pre)) [''commits'' @ '': ['' @ b @ '']''] st1 st2" "settled st2"
        "lx_fields st2 = set_prop ''commits'' v (lx_fields st1)" "seen st2 = seen st1"
      using raw_list [OF st1(2) mem] by blast
    then show ?thesis
      by (intro exI [of _ st2] exI [of _ "[(''commits'', v)]"]) (simp add: b)
  qed
  then obtain st2 vs where st2: "lex_steps False path (0 + length (map raw_line pre)) extra st1 st2" "settled st2"
      "lx_fields st2 = ?set (lx_fields st1) vs" "map fst vs = map (\<lambda>_. ''commits'') extra" "length vs \<le> 1" "seen st2 = seen st1" by blast
  obtain st3 where st3: "lex_steps False path (0 + length (map raw_line pre) + length extra) (''edges:'' # map token_edge_line es) st2 st3"
      "settled st3" "lx_fields st3 = lx_fields st2" "seen st3 = seen st2 @ map token_pair es"
    using token_edges_step [OF st2(2) assms(2,3)] by blast
  obtain st4 where st4: "lex_steps False path (0 + length (map raw_line pre) + length extra + length (''edges:'' # map token_edge_line es)) (map raw_line post) st3 st4"
      "settled st4" "lx_fields st4 = ?set (lx_fields st3) (map raw_value post)" "seen st4 = seen st3"
    using raw_fields [OF st3(2) ok(2)] by blast
  let ?ls = "map raw_line pre @ extra @ ''edges:'' # map token_edge_line es @ map raw_line post"
  let ?kvs = "map raw_value pre @ vs @ map raw_value post"
  have steps: "lex_steps False path 0 ?ls empty_lex st4"
    using steps_append [OF steps_append [OF steps_append [OF st1(1) st2(1)]] , of "''edges:'' # map token_edge_line es" st3 "map raw_line post" st4] st3(1) st4(1)
    by (simp add: add.assoc)
  have fields: "lx_fields st4 = ?set [] ?kvs"
    by (simp add: st4(3) st3(3) st2(3) st1(3))
  have keys: "map fst ?kvs = map fst pre @ map (\<lambda>_. ''commits'') extra @ map fst post"
    by (simp add: st2(4) raw_value_def comp_def)
  have "length extra \<le> 1" using assms(4) by auto
  then have "distinct (map (\<lambda>_. ''commits'') extra)" by (cases extra) auto
  then have distinct: "distinct (map fst ?kvs)"
    unfolding keys using assms(5) by (auto simp: image_iff)
  have proto_extra: "''__proto__'' \<notin> set (map (\<lambda>_. ''commits'') extra)"
    by (induction extra) auto
  have "''__proto__'' \<notin> set (map fst ?kvs)"
    unfolding keys using raw_keys [OF ok(1)] raw_keys [OF ok(2)] proto_extra by (simp del: set_map)
  then have proto: "''__proto__'' \<notin> fst ` set ?kvs" by (simp only: set_map not_False_eq_True)
  have plain: "\<forall>l\<in>set ?ls. plain_line l"
  proof -
    have "plain_line l" if "l \<in> set extra" for l
    proof -
      have "extra \<noteq> []" using that by auto
      then obtain b where b: "extra = [''commits: ['' @ b @ '']'']" "single_line b" using assms(4) by blast
      have "plain_line (''commits'' @ '': ['' @ b @ '']'')"
        using b(2) by (intro keyed_plain) (auto simp: single_line_def commits_key)
      then show ?thesis using that by (simp add: b(1))
    qed
    then show ?thesis
      using assms(1,3) raw_line_plain token_edge_plain edges_header_plain by (auto simp: list_all_iff)
  qed
  obtain m where m: "parse_frontmatter (node_text ?ls ps) path = Inr m" "nf_edges m = seen st4"
      "\<forall>k v. (k, v) \<in> set ?kvs \<longrightarrow> k \<noteq> ''project'' \<longrightarrow> node_prop m k = Some v"
    using rendered_parses [OF _ plain steps st4(2) fields distinct proto, of ps] by blast
  have "node_prop m (fst p) = Some (Flat (scalar_value (skip_ws (snd p))))" if "p \<in> set (pre @ post)" "fst p \<noteq> ''project''" for p
  proof -
    have "raw_value p \<in> set ?kvs" using that(1) by auto
    then have "node_prop m (fst (raw_value p)) = Some (snd (raw_value p))"
      using m(3) [rule_format, of "fst (raw_value p)" "snd (raw_value p)"] that(2) by (simp only: prod.collapse) (simp add: raw_value_def)
    then show ?thesis by (simp add: raw_value_def)
  qed
  then show ?thesis using m st4(4) st3(4) st2(6) st1(4) by auto
qed

subsection \<open>The draft and the finding of a hit\<close>

text \<open>What a rendering needs of the hit, of the hash and of its arguments: the subject's id is a node
  id, the hash is hex, and the texts written raw are single lines.\<close>

definition renderable :: "(string \<Rightarrow> string) \<Rightarrow> render_args \<Rightarrow> hit \<Rightarrow> bool" where
  "renderable hash a h \<longleftrightarrow> h_commits h \<noteq> [] \<and> is_node_id (h_id h) \<and> list_all is_token (hash (h_id h)) \<and> single_line (ra_date a) \<and> single_line (ra_repo a)
     \<and> (truthy (n_project (h_node h)) \<longrightarrow> single_line (js_string (n_project (h_node h))))
     \<and> list_all (\<lambda>c. single_line (lc_sha c)) (h_commits h)"

lemma id_char_word: "id_char c \<Longrightarrow> is_word c"
  by (auto simp: id_char_def is_word_def)

lemma node_id_token: "is_node_id s \<Longrightarrow> simple_token s \<and> key_token s"
  using id_char_word by (auto simp: is_node_id_def simple_token_def key_token_def is_token_def list_all_iff)

lemma bounded_id_token:
  assumes "list_all is_token p" and "p \<noteq> []" and "simple_token s" and "list_all is_token (hash s)"
  shows "simple_token (bounded_id hash p s)"
  using assms by (auto simp: bounded_id_def simple_token_def list_all_iff dest: in_set_takeD)

lemma prefix_tokens: "list_all is_token finding_prefix" "finding_prefix \<noteq> []" "list_all is_token draft_prefix" "draft_prefix \<noteq> []"
  by code_simp+

lemma bounded_id_starts: "starts_with p (bounded_id hash p s)"
  by (auto simp: starts_with_def bounded_id_def)

lemma token_scalar:
  assumes "simple_token s"
  shows "scalar_value (skip_ws s) = s"
proof -
  have ends: "s \<noteq> []" "is_token (hd s)" "is_token (last s)" "list_all is_token s"
    using assms by (auto simp: simple_token_def list_all_iff)
  have "trim s = s" using ends token_not_ws by (intro trim_id) auto
  moreover have "\<not> is_token DQ" "\<not> is_token SQ" by code_simp+
  ultimately show ?thesis
    using ends skip_token [of s "[]"] by (auto simp: scalar_value_def wrapped_in_def unquote_def is_quote_def Let_def)
qed

definition project_pair :: "hit \<Rightarrow> (string \<times> string) list" where
  "project_pair h = (if truthy (n_project (h_node h)) then [(''project'', js_string (n_project (h_node h)))] else [])"

definition finding_pairs :: "(string \<Rightarrow> string) \<Rightarrow> render_args \<Rightarrow> hit \<Rightarrow> (string \<times> string) list" where
  "finding_pairs hash a h =
     [(''id'', landed_finding_id hash (h_id h)), (''type'', ''finding'')] @ project_pair h
     @ [(''title'', bound_line 200 (''Shipped on '' @ ra_ref a @ '' '' @ long_dash @ '' confirm close: '' @ h_id h)),
        (''summary'', bounded_summary (finding_summary a h)), (''status'', ''open''), (''date'', ra_date a)]"

definition draft_pairs :: "(string \<Rightarrow> string) \<Rightarrow> render_args \<Rightarrow> hit \<Rightarrow> (string \<times> string) list" where
  "draft_pairs hash a h =
     [(''id'', draft_id hash (h_id h)), (''type'', ''artifact'')] @ project_pair h
     @ [(''title'', bound_line 200 (''Shipped on '' @ ra_ref a @ '': '' @ title_of h)),
        (''summary'', bounded_summary (draft_summary a h)), (''status'', ''in-review''), (''date'', ra_date a)]"

definition authored_pairs :: "(string \<times> string) list" where
  "authored_pairs = [(''authored_via'', ''reconcile-landed'')]"

lemma finding_front_lines:
  "finding_front hash a h = map raw_line (finding_pairs hash a h) @ [] @ ''edges:''
     # map token_edge_line [(''relates-to'', h_id h), (''relates-to'', draft_id hash (h_id h))] @ map raw_line authored_pairs"
  by (simp add: finding_front_def finding_pairs_def authored_pairs_def raw_line_def token_edge_line_def project_line_def project_pair_def)

lemma draft_front_lines:
  "draft_front hash a h = map raw_line (draft_pairs hash a h)
     @ [''commits: ['' @ join '', '' (map (\<lambda>c. ra_repo a @ ''@'' @ lc_sha c) (take 20 (h_commits h))) @ '']''] @ ''edges:''
     # map token_edge_line [(''mentions'', h_id h)] @ map raw_line authored_pairs"
  by (simp add: draft_front_def draft_pairs_def authored_pairs_def raw_line_def token_edge_line_def project_line_def project_pair_def)

lemma front_keys:
  "list_all (\<lambda>k. field_key k \<and> k \<notin> set list_fields)
     [''id'', ''type'', ''project'', ''title'', ''summary'', ''status'', ''date'', ''authored_via'']"
  by code_simp

lemma single_words:
  "single_line ''finding''" "single_line ''artifact''" "single_line ''open''" "single_line ''in-review''" "single_line ''reconcile-landed''"
  by code_simp+

lemma token_single: "simple_token s \<Longrightarrow> single_line s"
  using token_plain_line by (auto simp: simple_token_def single_line_def)

lemma id_tokens:
  assumes "renderable hash a h"
  shows "simple_token (h_id h)" and "simple_token (landed_finding_id hash (h_id h))" and "simple_token (draft_id hash (h_id h))"
proof -
  show s: "simple_token (h_id h)" using assms node_id_token by (simp add: renderable_def)
  have t: "list_all is_token (hash (h_id h))" using assms by (simp add: renderable_def)
  show "simple_token (landed_finding_id hash (h_id h))" "simple_token (draft_id hash (h_id h))"
    using bounded_id_token [of finding_prefix "h_id h" hash] bounded_id_token [of draft_prefix "h_id h" hash] s t prefix_tokens
    by (simp_all add: landed_finding_id_def draft_id_def)
qed

lemma front_raw_ok:
  assumes "renderable hash a h"
  shows "list_all raw_ok (finding_pairs hash a h @ authored_pairs)" and "list_all raw_ok (draft_pairs hash a h @ authored_pairs)"
  using front_keys single_words bound_line_single id_tokens [OF assms, THEN token_single] assms
  by (auto simp: finding_pairs_def draft_pairs_def authored_pairs_def project_pair_def raw_ok_def bounded_summary_def renderable_def)

lemma front_distinct:
  "distinct (''commits'' # map fst (finding_pairs hash a h @ authored_pairs))"
  "distinct (''commits'' # map fst (draft_pairs hash a h @ authored_pairs))"
  by (simp_all add: finding_pairs_def draft_pairs_def authored_pairs_def project_pair_def)

lemma edge_words: "simple_token ''relates-to''" "simple_token ''mentions''" "simple_token ''finding''" "simple_token ''open''" "simple_token ''in-review''" "simple_token ''artifact''"
  by code_simp+

lemma commits_single: "list_all (\<lambda>c. single_line (lc_sha c)) cs \<Longrightarrow> single_line r \<Longrightarrow>
    single_line (join '', '' (map (\<lambda>c. r @ ''@'' @ lc_sha c) cs))"
  by (induction cs rule: induct_list012) (auto simp: single_line_def)

lemma finding_reads_back:
  assumes "renderable hash a h"
  shows "\<exists>m. parse_frontmatter (node_text (finding_front hash a h) ps) path = Inr m
     \<and> nf_edges m = map token_pair [(''relates-to'', h_id h), (''relates-to'', draft_id hash (h_id h))]
     \<and> node_prop m ''id'' = Some (Flat (landed_finding_id hash (h_id h))) \<and> node_prop m ''type'' = Some (Flat ''finding'')
     \<and> node_prop m ''status'' = Some (Flat ''open'')"
proof -
  obtain m where m: "parse_frontmatter (node_text (finding_front hash a h) ps) path = Inr m"
      "nf_edges m = map token_pair [(''relates-to'', h_id h), (''relates-to'', draft_id hash (h_id h))]"
      "\<forall>p\<in>set (finding_pairs hash a h @ authored_pairs). fst p \<noteq> ''project'' \<longrightarrow> node_prop m (fst p) = Some (Flat (scalar_value (skip_ws (snd p))))"
    using front_parses [OF front_raw_ok(1) [OF assms], where es = "[(''relates-to'', h_id h), (''relates-to'', draft_id hash (h_id h))]"
        and extra = "[]" and ps = ps and path = path]
      front_distinct(1) id_tokens [OF assms] edge_words unfolding finding_front_lines by auto
  have "node_prop m k = Some (Flat v)" if "(k, v) \<in> set (finding_pairs hash a h)" "k \<noteq> ''project''" "simple_token v" for k v
    using bspec [OF m(3), of "(k, v)"] that token_scalar [OF that(3)] by simp
  then show ?thesis
    using m(1,2) id_tokens [OF assms] edge_words by (intro exI [of _ m]) (simp add: finding_pairs_def)
qed

lemma draft_reads_back:
  assumes "renderable hash a h"
  shows "\<exists>m. parse_frontmatter (node_text (draft_front hash a h) ps) path = Inr m
     \<and> nf_edges m = map token_pair [(''mentions'', h_id h)]
     \<and> node_prop m ''id'' = Some (Flat (draft_id hash (h_id h))) \<and> node_prop m ''type'' = Some (Flat ''artifact'')
     \<and> node_prop m ''status'' = Some (Flat ''in-review'')"
proof -
  let ?b = "join '', '' (map (\<lambda>c. ra_repo a @ ''@'' @ lc_sha c) (take 20 (h_commits h)))"
  have b: "single_line ?b"
    using assms by (intro commits_single) (auto simp: renderable_def list_all_iff dest: in_set_takeD)
  obtain m where m: "parse_frontmatter (node_text (draft_front hash a h) ps) path = Inr m"
      "nf_edges m = map token_pair [(''mentions'', h_id h)]"
      "\<forall>p\<in>set (draft_pairs hash a h @ authored_pairs). fst p \<noteq> ''project'' \<longrightarrow> node_prop m (fst p) = Some (Flat (scalar_value (skip_ws (snd p))))"
    using front_parses [OF front_raw_ok(2) [OF assms], where es = "[(''mentions'', h_id h)]" and extra = "[''commits: ['' @ ?b @ '']'']"
        and ps = ps and path = path]
      front_distinct(2) id_tokens [OF assms] edge_words b unfolding draft_front_lines by auto
  have "node_prop m k = Some (Flat v)" if "(k, v) \<in> set (draft_pairs hash a h)" "k \<noteq> ''project''" "simple_token v" for k v
    using bspec [OF m(3), of "(k, v)"] that token_scalar [OF that(3)] by simp
  then show ?thesis
    using m(1,2) id_tokens [OF assms] edge_words by (intro exI [of _ m]) (simp add: draft_pairs_def)
qed

lemma confirms:
  assumes "renderable hash a h" and "nf_edges m = map token_pair [(''relates-to'', h_id h), (''relates-to'', draft_id hash (h_id h))]"
    and "node_prop m ''id'' = Some (Flat (landed_finding_id hash (h_id h)))" and "node_prop m ''type'' = Some (Flat ''finding'')"
  shows "confirm_targets hash m =
     (if starts_with draft_prefix (h_id h) then Inl (Subject_count 0) else Inr (h_id h, draft_id hash (h_id h)))"
proof -
  have "h_id h \<noteq> []" "draft_id hash (h_id h) \<noteq> []"
    using id_tokens [OF assms(1)] by (simp_all add: simple_token_def)
  moreover have "starts_with finding_prefix (landed_finding_id hash (h_id h))" "starts_with draft_prefix (draft_id hash (h_id h))"
    by (simp_all add: landed_finding_id_def draft_id_def bounded_id_starts)
  ultimately show ?thesis
    using assms(2-4) by (simp add: confirm_targets_def related_def flat_prop_def token_pair_def attr_def)
qed

lemma rendered_reads_back:
  assumes "renderable hash a h"
  shows "\<exists>r finding draft. render hash a h = Some r
     \<and> parse_frontmatter (rd_finding r) path = Inr finding \<and> parse_frontmatter (rd_draft r) path' = Inr draft
     \<and> flat_prop finding ''id'' = rd_finding_id r \<and> flat_prop finding ''status'' = ''open''
     \<and> confirm_targets hash finding =
         (if starts_with draft_prefix (h_id h) then Inl (Subject_count 0) else Inr (h_id h, rd_draft_id r))
     \<and> flat_prop draft ''id'' = rd_draft_id r \<and> flat_prop draft ''status'' = ''in-review''
     \<and> nf_edges draft = [[(''type'', ''mentions''), (''to'', h_id h)]]"
proof -
  obtain f where f: "parse_frontmatter (node_text (finding_front hash a h) (finding_body hash a h)) path = Inr f"
      "nf_edges f = map token_pair [(''relates-to'', h_id h), (''relates-to'', draft_id hash (h_id h))]"
      "node_prop f ''id'' = Some (Flat (landed_finding_id hash (h_id h)))" "node_prop f ''type'' = Some (Flat ''finding'')"
      "node_prop f ''status'' = Some (Flat ''open'')"
    using finding_reads_back [OF assms] by blast
  obtain d where d: "parse_frontmatter (node_text (draft_front hash a h) (draft_body hash a h)) path' = Inr d"
      "nf_edges d = map token_pair [(''mentions'', h_id h)]" "node_prop d ''id'' = Some (Flat (draft_id hash (h_id h)))"
      "node_prop d ''status'' = Some (Flat ''in-review'')"
    using draft_reads_back [OF assms] by blast
  have "h_commits h \<noteq> []" using assms by (simp add: renderable_def)
  then show ?thesis
    using f d confirms [OF assms f(2-4)] by (simp add: render_def flat_prop_def token_pair_def)
qed

text \<open>
  C22. What is rendered for a hit reads back. For a hit with commits whose subject has a node id that does not start like a
  draft's (\<^verbatim>\<open>art-shipped-\<close>), rendered under single-line arguments and a hash of word characters, both files are read without a
  fault; confirming the finding acts on the hit it was rendered from and on its own draft; and the draft is in review and
  its only edge mentions the subject, so it resolves nothing before it is confirmed.
\<close>

theorem rendered_finding_confirms_its_hit:
  assumes "renderable hash a h" and "\<not> starts_with draft_prefix (h_id h)"
  shows "\<exists>r finding draft. render hash a h = Some r
     \<and> parse_frontmatter (rd_finding r) path = Inr finding \<and> parse_frontmatter (rd_draft r) path' = Inr draft
     \<and> flat_prop finding ''id'' = rd_finding_id r \<and> flat_prop finding ''status'' = ''open''
     \<and> confirm_targets hash finding = Inr (h_id h, rd_draft_id r)
     \<and> flat_prop draft ''id'' = rd_draft_id r \<and> flat_prop draft ''status'' = ''in-review''
     \<and> nf_edges draft = [[(''type'', ''mentions''), (''to'', h_id h)]]"
  using rendered_reads_back [OF assms(1), of path path'] assms(2) by simp

text \<open>A subject whose own id starts like a draft's is filed, and its finding can never be confirmed.\<close>

lemma draft_like_subject_is_refused:
  assumes "renderable hash a h" and "starts_with draft_prefix (h_id h)"
  shows "\<exists>r finding. render hash a h = Some r \<and> parse_frontmatter (rd_finding r) path = Inr finding
     \<and> confirm_targets hash finding = Inl (Subject_count 0)"
  using rendered_reads_back [OF assms(1), of path path] assms(2) by (auto simp: if_P)

text \<open>A title's closing quote does not survive: \<open>oneLine\<close> writes the draft's title raw, and the reader strips a lone quote.\<close>

lemma closing_quote_is_lost:
  "scalar_value (skip_ws (bound_line 200 (''Shipped on main: say '' @ [DQ] @ ''hi'' @ [DQ]))) = ''Shipped on main: say '' @ [DQ] @ ''hi''"
  by code_simp

subsection \<open>The plan\<close>

definition wf_hits :: "graph \<Rightarrow> hit list \<Rightarrow> bool" where
  "wf_hits g hits \<longleftrightarrow> distinct (map h_id hits)
     \<and> (\<forall>h\<in>set hits. g_node g (h_id h) = Some (h_node h) \<and> h_commits h \<noteq> [] \<and> distinct (map lc_sha (h_commits h)))"

definition filed :: "hit list \<Rightarrow> string \<Rightarrow> string \<Rightarrow> bool" where
  "filed hits i sha \<longleftrightarrow> (\<exists>h\<in>set hits. h_id h = i \<and> sha \<in> lc_sha ` set (h_commits h))"

lemma find_split: "List.find p zs = Some x \<Longrightarrow> \<exists>xs ys. zs = xs @ x # ys \<and> p x \<and> (\<forall>y\<in>set xs. \<not> p y)"
proof (induction zs)
  case (Cons z zs)
  show ?case
  proof (cases "p z")
    case True
    with Cons.prems show ?thesis by (intro exI [of _ "[]"] exI [of _ zs]) simp
  next
    case False
    then obtain xs ys where "zs = xs @ x # ys" "p x" "\<forall>y\<in>set xs. \<not> p y" using Cons by auto
    with False show ?thesis by (intro exI [of _ "z # xs"] exI [of _ ys]) simp
  qed
qed simp

lemma update_first_split: "p x \<Longrightarrow> \<forall>y\<in>set xs. \<not> p y \<Longrightarrow> update_first p f (xs @ x # ys) = xs @ f x # ys"
  by (induction xs) auto

text \<open>A commit is filed under its node once, and nothing else changes.\<close>

lemma add_commit_filed:
  assumes "wf_hits g hits" and "g_node g (n_id n) = Some n"
  shows "wf_hits g (add_commit n c hits)"
    and "filed (add_commit n c hits) i sha \<longleftrightarrow> filed hits i sha \<or> i = n_id n \<and> sha = lc_sha c"
proof -
  have "wf_hits g (add_commit n c hits)
     \<and> (filed (add_commit n c hits) i sha \<longleftrightarrow> filed hits i sha \<or> i = n_id n \<and> sha = lc_sha c)"
  proof (cases "List.find (\<lambda>h. h_id h = n_id n) hits")
    case None
    then have "\<forall>h\<in>set hits. h_id h \<noteq> n_id n" by (simp add: find_None_set)
    with None assms show ?thesis by (auto simp: add_commit_def wf_hits_def filed_def)
  next
    case (Some h)
    obtain xs ys where hits: "hits = xs @ h # ys" "h_id h = n_id n" "\<forall>y\<in>set xs. h_id y \<noteq> n_id n"
      using find_split [OF Some] by blast
    show ?thesis
    proof (cases "lc_sha c \<in> lc_sha ` set (h_commits h)")
      case True
      then have "add_commit n c hits = hits" using Some by (force simp: add_commit_def)
      with True assms(1) hits show ?thesis by (auto simp: filed_def)
    next
      case False
      then have "\<not> (\<exists>x\<in>set (h_commits h). lc_sha x = lc_sha c)" by (auto simp: image_iff)
      moreover have "update_first (\<lambda>h. h_id h = n_id n) f hits = xs @ f h # ys" for f
        unfolding hits(1) by (rule update_first_split [OF hits(2,3)])
      ultimately have "add_commit n c hits = xs @ h\<lparr>h_commits := h_commits h @ [c]\<rparr> # ys"
        using Some by (simp add: add_commit_def)
      with False assms hits show ?thesis by (auto simp: wf_hits_def filed_def)
    qed
  qed
  then show "wf_hits g (add_commit n c hits)"
    and "filed (add_commit n c hits) i sha \<longleftrightarrow> filed hits i sha \<or> i = n_id n \<and> sha = lc_sha c" by simp_all
qed

lemma keyed_node: "keyed_by_id g \<Longrightarrow> g_node g i = Some n \<Longrightarrow> n_id n = i"
  by (auto simp: keyed_by_id_def g_node_def list_all_iff dest!: map_of_SomeD)

lemma keyed_value:
  assumes "keyed_by_id g"
  shows "n \<in> set (g_values g) \<longleftrightarrow> g_node g (n_id n) = Some n"
proof
  assume "n \<in> set (g_values g)"
  then obtain k where k: "(k, n) \<in> set (g_nodes g)" by auto
  then have "n_id n = k" "distinct (map fst (g_nodes g))" using assms by (auto simp: keyed_by_id_def list_all_iff)
  with k show "g_node g (n_id n) = Some n" by (simp add: g_node_def)
next
  assume "g_node g (n_id n) = Some n"
  then have "(n_id n, n) \<in> set (g_nodes g)" by (simp add: g_node_def map_of_SomeD)
  then show "n \<in> set (g_values g)" by (simp add: image_iff) (rule bexI [rotated], assumption, simp)
qed

definition skip_rows :: "(string \<Rightarrow> skip_reason option) \<Rightarrow> (trailer_commit \<times> string) list \<Rightarrow> skipped_row list" where
  "skip_rows why ps = List.map_filter (\<lambda>(c, i). map_option (\<lambda>r. \<lparr>sk_id = i, sk_sha = tc_sha c, sk_reason = r\<rparr>) (why i)) ps"

lemma skip_rows_Nil: "skip_rows why [] = []"
  by (simp add: skip_rows_def List.map_filter_def)

lemma skip_rows_Cons:
  "skip_rows why ((c, i) # ps) =
     (case why i of None \<Rightarrow> [] | Some r \<Rightarrow> [\<lparr>sk_id = i, sk_sha = tc_sha c, sk_reason = r\<rparr>]) @ skip_rows why ps"
  by (simp add: skip_rows_def List.map_filter_def split: option.split)

lemma stamped_values:
  assumes "keyed_by_id g"
  shows "(\<exists>n\<in>set (g_values g). i = n_id n \<and> stamped_work seed g resolved exclude n \<and> Q n)
     \<longleftrightarrow> trailer_reason seed g resolved exclude i = None \<and> (\<exists>n. g_node g i = Some n \<and> Q n)"
proof -
  have key: "stamped_work seed g resolved exclude n \<longleftrightarrow> trailer_reason seed g resolved exclude i = None" if "g_node g i = Some n" for n
    using that keyed_node [OF assms that] by (simp add: stamped_work_def trailer_reason_def)
  show ?thesis
  proof
    assume "\<exists>n\<in>set (g_values g). i = n_id n \<and> stamped_work seed g resolved exclude n \<and> Q n"
    then obtain n where n: "n \<in> set (g_values g)" "i = n_id n" "stamped_work seed g resolved exclude n" "Q n" by blast
    then have "g_node g i = Some n" using keyed_value [OF assms] by blast
    with key n(3,4) show "trailer_reason seed g resolved exclude i = None \<and> (\<exists>n. g_node g i = Some n \<and> Q n)" by blast
  next
    assume "trailer_reason seed g resolved exclude i = None \<and> (\<exists>n. g_node g i = Some n \<and> Q n)"
    then obtain n where n: "trailer_reason seed g resolved exclude i = None" "g_node g i = Some n" "Q n" by blast
    have i: "n_id n = i" using keyed_node [OF assms n(2)] .
    then have "n \<in> set (g_values g)" using keyed_value [OF assms, of n] n(2) by blast
    with i key [OF n(2)] n show "\<exists>n\<in>set (g_values g). i = n_id n \<and> stamped_work seed g resolved exclude n \<and> Q n" by blast
  qed
qed

lemma reason_node:
  assumes "trailer_reason seed g resolved exclude i = None"
  obtains n where "g_node g i = Some n"
  using assms that by (cases "g_node g i") (auto simp: trailer_reason_def skip_reason_of_def split: if_splits)

lemma trailer_fold:
  assumes "keyed_by_id g"
  shows "wf_hits g (fst st) \<Longrightarrow> foldl (trailer_step seed g resolved exclude) st ps = (hits, skipped) \<Longrightarrow>
    wf_hits g hits \<and> skipped = snd st @ skip_rows (trailer_reason seed g resolved exclude) ps
    \<and> (filed hits i sha \<longleftrightarrow> filed (fst st) i sha
        \<or> (\<exists>c. (c, i) \<in> set ps \<and> tc_sha c = sha) \<and> trailer_reason seed g resolved exclude i = None)"
proof (induction ps arbitrary: st)
  case Nil
  then show ?case by (auto simp: skip_rows_Nil)
next
  case (Cons p ps)
  obtain c j where p: "p = (c, j)" by (cases p)
  let ?why = "trailer_reason seed g resolved exclude"
  have run: "foldl (trailer_step seed g resolved exclude) (trailer_step seed g resolved exclude st p) ps = (hits, skipped)"
    using Cons.prems(2) by simp
  show ?case
  proof (cases "?why j")
    case None
    then obtain n where n: "g_node g j = Some n" by (rule reason_node)
    let ?c = "\<lparr>lc_sha = tc_sha c, lc_subject = tc_subject c, lc_source = Trailer\<rparr>"
    have j: "n_id n = j" "g_node g (n_id n) = Some n" using keyed_node [OF assms n] n by simp_all
    have step: "trailer_step seed g resolved exclude st p = (add_commit n ?c (fst st), snd st)"
      using None n by (simp add: trailer_step_def p)
    have "wf_hits g (fst (trailer_step seed g resolved exclude st p))"
      using add_commit_filed(1) [OF Cons.prems(1) j(2)] by (simp add: step)
    note IH = Cons.IH [OF this run]
    have new: "filed (fst (trailer_step seed g resolved exclude st p)) i sha \<longleftrightarrow> filed (fst st) i sha \<or> i = j \<and> sha = tc_sha c"
      using add_commit_filed(2) [OF Cons.prems(1) j(2), of ?c i sha] by (simp add: step j(1))
    have "filed hits i sha \<longleftrightarrow> filed (fst st) i sha \<or> (\<exists>c. (c, i) \<in> set (p # ps) \<and> tc_sha c = sha) \<and> ?why i = None"
      using IH None unfolding new by (cases "i = j") (auto simp: p)
    moreover have "skipped = snd st @ skip_rows ?why (p # ps)"
      using IH None unfolding step by (simp add: p skip_rows_Cons)
    ultimately show ?thesis using IH by blast
  next
    case (Some r)
    then have step: "trailer_step seed g resolved exclude st p = (fst st, snd st @ [\<lparr>sk_id = j, sk_sha = tc_sha c, sk_reason = r\<rparr>])"
      by (cases "g_node g j") (simp_all add: trailer_step_def p)
    have "wf_hits g (fst (trailer_step seed g resolved exclude st p))"
      using Cons.prems(1) by (simp add: step)
    note IH = Cons.IH [OF this run]
    have "filed hits i sha \<longleftrightarrow> filed (fst st) i sha \<or> (\<exists>c. (c, i) \<in> set (p # ps) \<and> tc_sha c = sha) \<and> ?why i = None"
      using IH Some unfolding step by (cases "i = j") (auto simp: p)
    moreover have "skipped = snd st @ skip_rows ?why (p # ps)"
      using IH Some unfolding step by (simp add: p skip_rows_Cons)
    ultimately show ?thesis using IH by blast
  qed
qed

lemma stamp_fold:
  assumes "g_node g (n_id n) = Some n"
  shows "wf_hits g hits \<Longrightarrow> wf_hits g (foldl (stamp_step stamped n) hits ks)
    \<and> (filed (foldl (stamp_step stamped n) hits ks) i sha \<longleftrightarrow> filed hits i sha
        \<or> i = n_id n \<and> (\<exists>k\<in>set ks. \<exists>subject. stamped k = Some (sha, subject)))"
proof (induction ks arbitrary: hits)
  case (Cons k ks)
  show ?case
  proof (cases "stamped k")
    case None
    with Cons show ?thesis by (simp add: stamp_step_def)
  next
    case (Some p)
    obtain x subject where p: "p = (x, subject)" by (cases p)
    let ?c = "\<lparr>lc_sha = x, lc_subject = subject, lc_source = Commits_field\<rparr>"
    have step: "stamp_step stamped n hits k = add_commit n ?c hits" using Some p by (simp add: stamp_step_def)
    from Cons.IH [OF add_commit_filed(1) [OF Cons.prems assms, of ?c]] show ?thesis
      using add_commit_filed(2) [OF Cons.prems assms, of ?c i sha] Some p by (auto simp: step)
  qed
qed simp

lemma node_fold:
  assumes "keyed_by_id g"
  shows "set ns \<subseteq> set (g_values g) \<Longrightarrow> wf_hits g hits \<Longrightarrow>
    wf_hits g (foldl (node_step seed g resolved exclude commits repo stamped) hits ns)
    \<and> (filed (foldl (node_step seed g resolved exclude commits repo stamped) hits ns) i sha \<longleftrightarrow> filed hits i sha
        \<or> (\<exists>n\<in>set ns. i = n_id n \<and> stamped_work seed g resolved exclude n
              \<and> (\<exists>k\<in>set (commits_field_shas (commits n) repo). \<exists>subject. stamped k = Some (sha, subject))))"
proof (induction ns arbitrary: hits)
  case (Cons n ns)
  have n: "g_node g (n_id n) = Some n" using Cons.prems(1) keyed_value [OF assms] by auto
  have sub: "set ns \<subseteq> set (g_values g)" using Cons.prems(1) by simp
  have step: "wf_hits g (node_step seed g resolved exclude commits repo stamped hits n)"
      "filed (node_step seed g resolved exclude commits repo stamped hits n) i sha \<longleftrightarrow> filed hits i sha
        \<or> i = n_id n \<and> stamped_work seed g resolved exclude n
            \<and> (\<exists>k\<in>set (commits_field_shas (commits n) repo). \<exists>subject. stamped k = Some (sha, subject))"
    using stamp_fold [OF n Cons.prems(2)] Cons.prems(2) by (simp_all add: node_step_def)
  from Cons.IH [OF sub step(1)] show ?case by (auto simp: step(2))
qed simp

text \<open>
  C14. The plan holds exactly the landed open work. Its hits are in order of their ids, each is a node of the graph under its
  own id with at least one commit and none twice; a commit is filed under a node exactly when the node is
  an open task or issue nobody excluded, and a scanned trailer names it for that commit or its own
  \<open>commits:\<close> stamps resolve to that reachable commit; and what is reported skipped is exactly the trailer mentions that are not filed,
  in scan order with their reason. So nothing closed, held, superseded or
  resolved is drafted, and no reachable mention of open work is dropped.
\<close>

theorem plan_holds_the_landed_open_work:
  assumes "keyed_by_id g" and "plan seed g commits repo trailered stamped exclude = (hits, skipped)"
  shows "sorted (map h_id hits) \<and> wf_hits g hits
    \<and> skipped = skip_rows (trailer_reason seed g (resolution_map seed g) exclude) (concat (map (\<lambda>c. map (Pair c) (tc_ids c)) trailered))
    \<and> (filed hits i sha \<longleftrightarrow> trailer_reason seed g (resolution_map seed g) exclude i = None
        \<and> ((\<exists>c\<in>set trailered. i \<in> set (tc_ids c) \<and> tc_sha c = sha)
           \<or> (\<exists>n k subject. g_node g i = Some n \<and> k \<in> set (commits_field_shas (commits n) repo) \<and> stamped k = Some (sha, subject))))"
proof -
  let ?r = "resolution_map seed g"
  let ?ps = "concat (map (\<lambda>c. map (Pair c) (tc_ids c)) trailered)"
  let ?nodes = "foldl (node_step seed g ?r exclude commits repo stamped)"
  obtain hs sk where t: "foldl (trailer_step seed g ?r exclude) ([], []) ?ps = (hs, sk)"
    by (cases "foldl (trailer_step seed g ?r exclude) ([], []) ?ps")
  have hits: "hits = sort_key h_id (?nodes hs (g_values g))" "skipped = sk"
    using assms(2) by (simp_all add: plan_def t Let_def)
  have empty: "wf_hits g (fst ([] :: hit list, [] :: skipped_row list))" "\<not> filed [] i sha" by (simp_all add: wf_hits_def filed_def)
  note T = trailer_fold [OF assms(1) empty(1) t, of i sha]
  have "wf_hits g hs" using T by simp
  note N = node_fold [OF assms(1) subset_refl this, of seed ?r exclude commits repo stamped i sha]
  have wf: "wf_hits g hits" using N by (simp add: wf_hits_def hits(1) distinct_map)
  have same: "filed hits i sha = filed (?nodes hs (g_values g)) i sha" by (simp add: filed_def hits(1))
  have pairs: "(\<exists>c. (c, i) \<in> set ?ps \<and> tc_sha c = sha) \<longleftrightarrow> (\<exists>c\<in>set trailered. i \<in> set (tc_ids c) \<and> tc_sha c = sha)" by auto
  have "filed hits i sha \<longleftrightarrow> trailer_reason seed g ?r exclude i = None
        \<and> ((\<exists>c\<in>set trailered. i \<in> set (tc_ids c) \<and> tc_sha c = sha)
           \<or> (\<exists>n k subject. g_node g i = Some n \<and> k \<in> set (commits_field_shas (commits n) repo) \<and> stamped k = Some (sha, subject)))"
    unfolding same N [THEN conjunct2] T [THEN conjunct2, THEN conjunct2] stamped_values [OF assms(1)] pairs fst_conv
    using empty(2) by blast
  moreover have "sorted (map h_id hits)" by (simp add: hits(1))
  ultimately show ?thesis using wf T hits(2) by simp
qed

subsection \<open>A concrete repository\<close>

definition sample_hash :: "string \<Rightarrow> string" where
  "sample_hash s = ''0123456789abcdef''"

definition sample_commits :: "node \<Rightarrow> jsval" where
  "sample_commits n = (if n_id n = ''issue-b'' then JArr [JStr ''app@89ABCDE'', JStr ''lib@1111111'', JStr ''app@2222222''] else JUndef)"

definition sample_stamped :: "string \<Rightarrow> (string \<times> string) option" where
  "sample_stamped k = (if k = ''89abcde'' then Some (''89abcde0'', ''Fix b'') else None)"

definition closed_node :: node where
  "closed_node = (demo_node ''task-c'' ''task'' [])\<lparr>n_status := Some ''DONE''\<rparr>"

definition landed_graph :: graph where
  "landed_graph = \<lparr>g_nodes = [(''issue-b'', demo_node ''issue-b'' ''issue'' []), (''task-a'', demo_node ''task-a'' ''task'' []), (''task-c'', closed_node)],
     g_superseded = (\<lambda>_. False), g_registry = None\<rparr>"

definition sample_trailers :: "trailer_commit list" where
  "sample_trailers = [\<lparr>tc_sha = ''0123abc'', tc_subject = ''Ship a'', tc_ids = trailer_ids (''task-a, task-c'' @ [LF] @ ''Not-An-Id'')\<rparr>]"

definition sample_plan :: "hit list \<times> skipped_row list" where
  "sample_plan = plan demo_seed landed_graph sample_commits ''app'' sample_trailers sample_stamped []"

theorem plan_holds_the_landed_open_work_witness:
  "filed (fst sample_plan) ''task-a'' ''0123abc'' \<and> filed (fst sample_plan) ''issue-b'' ''89abcde0''
   \<and> \<not> filed (fst sample_plan) ''task-c'' ''0123abc'' \<and> wf_hits landed_graph (fst sample_plan)"
proof -
  let ?why = "trailer_reason demo_seed landed_graph (resolution_map demo_seed landed_graph) []"
  have keyed: "keyed_by_id landed_graph" by (simp add: keyed_by_id_def landed_graph_def demo_node_def closed_node_def)
  have run: "plan demo_seed landed_graph sample_commits ''app'' sample_trailers sample_stamped [] = (fst sample_plan, snd sample_plan)"
    by (simp add: sample_plan_def)
  note P = plan_holds_the_landed_open_work [OF keyed run]
  have why: "?why ''task-a'' = None" "?why ''issue-b'' = None" "?why ''task-c'' = Some Closed" by code_simp+
  have ids: "tc_ids (hd sample_trailers) = [''task-a'', ''task-c'']" by code_simp
  have shas: "commits_field_shas (sample_commits (demo_node ''issue-b'' ''issue'' [])) ''app'' = [''89abcde'', ''2222222'']" by code_simp
  have node: "g_node landed_graph ''issue-b'' = Some (demo_node ''issue-b'' ''issue'' [])" by (simp add: g_node_def landed_graph_def)
  have "filed (fst sample_plan) ''task-a'' ''0123abc''"
    using P [of "''task-a''" "''0123abc''"] why(1) ids by (simp add: sample_trailers_def)
  moreover have "filed (fst sample_plan) ''issue-b'' ''89abcde0''"
    using P [of "''issue-b''" "''89abcde0''"] why(2) node shas by (auto simp: sample_stamped_def)
  moreover have "\<not> filed (fst sample_plan) ''task-c'' ''0123abc''"
    using P [of "''task-c''" "''0123abc''"] why(3) by simp
  ultimately show ?thesis using P by blast
qed

definition sample_hit :: hit where
  "sample_hit = \<lparr>h_id = ''task-a'', h_node = demo_node ''task-a'' ''task'' [],
     h_commits = [\<lparr>lc_sha = ''0123abc'', lc_subject = ''Ship: a'', lc_source = Trailer\<rparr>]\<rparr>"

definition sample_args :: render_args where
  "sample_args = \<lparr>ra_repo = ''app'', ra_ref = ''main'', ra_tip = ''0123abcdef012345'', ra_date = ''2026-01-01'', ra_declared = None\<rparr>"

theorem rendered_finding_confirms_its_hit_witness:
  "\<exists>r finding draft. render sample_hash sample_args sample_hit = Some r
     \<and> parse_frontmatter (rd_finding r) ''f.md'' = Inr finding \<and> parse_frontmatter (rd_draft r) ''d.md'' = Inr draft
     \<and> confirm_targets sample_hash finding = Inr (''task-a'', ''art-shipped-task-a'')
     \<and> nf_edges draft = [[(''type'', ''mentions''), (''to'', ''task-a'')]]"
proof -
  have ok: "renderable sample_hash sample_args sample_hit" by code_simp
  have new: "\<not> starts_with draft_prefix (h_id sample_hit)" by code_simp
  have "h_id sample_hit = ''task-a''" by code_simp
  moreover have "rd_draft_id r = ''art-shipped-task-a''" if "render sample_hash sample_args sample_hit = Some r" for r
    using that by (auto simp: render_def sample_hit_def draft_id_def bounded_id_def draft_prefix_def max_id_length_def)
  ultimately show ?thesis
    using rendered_finding_confirms_its_hit [OF ok new, of "''f.md''" "''d.md''"] by (metis (no_types, lifting))
qed

end
