(* ===== verification/Spec2Isabelle.thy ===== *)
theory Spec2Isabelle
  imports StageDriverProps ExecutionDemo ReviewLedgerProps GateObligations CompletionLive Program FactoryProps NodeProps CandidateProps LandedProps
begin

text \<open>
  Spor keeps a graph of work items and drives each item through a software factory: an implementer is dispatched, its candidate
  passes a list of gates (command suites, reviews, human approvals), an integration stage lands it, and a controller writes the
  item's completion. The kernel modules under \<^verbatim>\<open>src/lib/kernel\<close> hold the decisions, the shell modules under
  \<^verbatim>\<open>src/lib/shell\<close> the durable state and the doors to the graph. This development models the deciding code of that pipeline.

  How the parts interact. Every work item, factory and completion is a node file: text with a frontmatter of keys and edges, read, written and
  edited by one grammar (\<open>NodeFile\<close>, \<open>NodeWriter\<close>). A factory definition is read and normalized once (\<open>Factory\<close>); its gates, budgets, protected paths
  (\<open>Coupling\<close>, which holds the glob dialect) and completion boundary are what everything below is run under. A stage of the pipeline is a workflow function run by the replay kernel (\<open>Workflow\<close>), whose
  journal is its only progress; the implementation stage (\<open>ImplementationStage\<close>) is one, driven by \<open>StageDriver\<close>, which
  waits out its timers, delivers its signals and closes the journal of an attempt it refuses. The stage's activities report to the execution record (\<open>Execution\<close>), a reducer over fenced
  events; the local engine (\<open>ExecutionStore\<close>) appends each accepted event to a log and rebuilds the record from it. What an implementer submits is a candidate (\<open>Candidate\<close>), pinned on
  the run record by its tree and reachable through one portable reference. Before a
  dispatch the machine, the profile and the provider are matched (\<open>Satisfiability\<close>); each dispatch is charged to a pool
  (\<open>GateAttempts\<close>); a review gate reads the reviewer's output (\<open>Review\<close>) into a ledger of findings
  (\<open>ReviewLedger\<close>); what a gate owes the graph survives an attempt rollover (\<open>GateObligations\<close>). When the pinned
  boundary is reached the controller swaps the item to its terminal status under its hold (\<open>Completion\<close>), and the hold, the
  terminal vocabulary and the resolving edges (\<open>Resolution\<close>) decide what the queue counts as live (\<open>Queue\<close>)
  and how a program's progress is counted (\<open>Program\<close>). A commit that reached the trunk and names open work is
  planned into a draft resolver and a finding for a person to confirm (\<open>Landed\<close>), both node files of the grammar.

  Theories and sources.
    \<^item> \<open>Prelude\<close>: searching and updating lists in place, the theorem collections, and the locale \<open>event_sourced\<close> (a
      store whose log is replayed by a strict step function rebuilds its state).
    \<^item> \<open>JsValue\<close>: JavaScript values and the coercions the sources use (\<open>Number\<close>, \<open>String\<close>, truthiness,
      object spread, \<open>trim\<close>, lower case).
    \<^item> \<open>NodeFile\<close>, \<open>NodeWriter\<close>: \<^verbatim>\<open>kernel/frontmatter.js\<close>. Each regular expression of the grammar is a
      function, the line loop of \<open>lexFrontmatter\<close> is one step function over the record \<open>lex\<close> of its variables, strict mode's
      throw is the left of a sum, and the editors splice the lines by the lexer's ranges. \<open>NodeJson\<close>: the inline JSON
      reader's fuel. \<open>NodeScalar\<close>, \<open>NodeLines\<close>, \<open>NodeRoundTrip\<close>, \<open>NodeFileProps\<close>: what
      a written scalar, line, key, edge and file read back as, and the strict reader as the lenient one up to its first fault.
      \<open>NodeRanges\<close>: the lexer's ranges are ordered and within the text. \<open>NodeEdits\<close>, \<open>NodeProps\<close>: the edits of
      written files, and the properties.
    \<^item> \<open>Workflow\<close>, \<open>WorkflowReplay\<close>, \<open>WorkflowProps\<close>: \<^verbatim>\<open>kernel/workflow.js\<close>. The class
      \<open>Execution\<close> is the record \<open>st\<close>, its context object the constructors of the workflow's free program, and each method
      one function of the state. \<open>WorkflowRelations\<close>: the relations between workflow functions that the kernel turns into
      facts about their runs.
    \<^item> \<open>ImplementationStage\<close>, \<open>ImplementationProps\<close>: the workflow function of
      \<^verbatim>\<open>shell/implementation-workflow.js\<close>, one definition per closure of \<open>implementationPass\<close> in continuation-passing
      style, and the locale \<open>stage_relation\<close> that walks over it once for each relation. \<open>StageDriver\<close>,
      \<open>StageDriverProps\<close>: \<^verbatim>\<open>shell/stage-workflow.js\<close> and the driver of the stage.
    \<^item> \<open>Execution\<close>, \<open>ExecutionFrame\<close>, \<open>ExecutionProps\<close>, \<open>ExecutionChain\<close>,
      \<open>ExecutionAttempts\<close>: \<^verbatim>\<open>kernel/execution.js\<close>. The record has the source's fields, one definition per
      event of \<open>applyByType\<close> and per door; a refusal is a value.
    \<^item> \<open>ExecutionStore\<close>, \<open>ExecutionReplay\<close>, \<open>ExecutionDemo\<close>: the local engine of
      \<^verbatim>\<open>shell/execution-store.js\<close>, with a concrete pipeline that instantiates the properties.
    \<^item> \<open>Candidate\<close>, \<open>CandidateProps\<close>: \<^verbatim>\<open>kernel/candidate.js\<close>. A candidate is the object
      the source builds, a refusal of a mint or of a reference a constructor, and percent-decoding the language's own on bytes.
    \<^item> \<open>Landed\<close>, \<open>LandedProps\<close>: \<^verbatim>\<open>kernel/landed.js\<close>. The plan over the resolved graph, the two
      rendered node files line by line, and the confirm over a node the reader returned.
    \<^item> \<open>Resolution\<close>: \<^verbatim>\<open>kernel/resolution.js\<close>. \<open>Satisfiability\<close>:
      \<^verbatim>\<open>kernel/satisfiability.js\<close>. \<open>Queue\<close>: the structural signals of \<^verbatim>\<open>kernel/queue.js\<close>.
      \<open>Program\<close>: \<^verbatim>\<open>kernel/program.js\<close>. \<open>Coupling\<close>: \<^verbatim>\<open>kernel/coupling.js\<close>
      and the path checks of \<^verbatim>\<open>kernel/gates.js\<close>.
    \<^item> \<open>Factory\<close>, \<open>FactoryProps\<close>: the definition parser of \<^verbatim>\<open>kernel/gates.js\<close>, from
      \<open>parseCi\<close> to \<open>parseFactory\<close>, every refusal a value.
    \<^item> \<open>Review\<close>, \<open>ReviewLedger\<close>, \<open>ReviewLedgerProps\<close>, \<open>GateAttempts\<close>,
      \<open>GateObligations\<close>: parts of \<^verbatim>\<open>kernel/gates.js\<close>, the loop of
      \<^verbatim>\<open>shell/implementation-workflow.js\<close> and the progress stamp of \<^verbatim>\<open>shell/agent-dispatch-runner.js\<close>.
    \<^item> \<open>Completion\<close>, \<open>CompletionProps\<close>, \<open>CompletionDebt\<close>, \<open>CompletionLive\<close>:
      \<^verbatim>\<open>kernel/completion.js\<close> and \<^verbatim>\<open>shell/completion.js\<close>. Every call through the injected dependencies
      first lets the rest of the world take a step, so the properties hold under every interleaving with other writers, with
      refused calls and with answers that are lost.

  What the lemmas show. The kernel properties (C1, C2, C4) are replay: a verdict is reproduced from the journal, nothing journaled is
  executed twice, tombstones refuse; that the journal only grows and that a failed persist poisons the execution are lemmas beside them.
  The node files (C3, C8, C10, C23, C28): the round trip of the serializer, adding and removing an edge as operations on the edge list,
  one grammar for the loader and the lint, and the body no edit touches. C5 to C7 compose the kernel with the real implementation stage and its
  driver: a settled stage replays under any later definition, nothing executes under a mixed one, and a refused attempt stays refused. C12 and C18 are the candidate: where an accepted reference leads, and what a series of pins leaves on the run record. C9, C11, C13, C15 to C17, C19 and C20 are the execution record: fencing,
  pins, the boundary, exclusive claims, idempotent retries, the candidate chain, attempt handles, and the log
  as a refinement of the record. C14 and C22 are landed work: what the plan files, and what its rendered files read back as; C21 is the graph read. C24 to C27 and C29 to C31 are the gates: what a pass means, the
  ledger fold and its rollback, charging and termination of the implementation stage, and the evidence still owed. C32 to C35 are
  the completion write: order, debt, exclusivity of the hold and the undisturbed pass with every edge it leaves. C36 is the queue's blocking count, C37 and C38 the program view's bounds
  and its exactness, C39 the protected paths against the documented glob dialect, stated as rules on the glob text, and C40 the type of a parsed factory.

  Bounds and fuel. \<open>run_stage\<close> carries the source's own iteration cap and \<open>write_loop\<close> its four attempts; a stage's loop
  of stop requests, which the code leaves unbounded and which ends by suspending, takes a fuel, and \<open>fuel_is_enough\<close> shows that every fuel above the
  journal's length by two runs alike, since a round returns only over entries already journaled; the drive loop and the wait of a
  backoff take a fuel because the outside world may keep them going, and running out is a value of its own. The blocking search ends because unseen nodes run out; the program
  walk because it counts at most \<open>maxNodes\<close> nodes and every other turn shortens the pending list. The JSON reader of
  an inline edge list takes twice the length of its text, and \<open>json_fuel\<close> shows that every larger fuel reads alike. Hash functions and the
  clock are arguments.

  Integers. JavaScript numbers are exact integers here. The sources compare and increment counters, sequence numbers and epoch
  milliseconds; fractions and values beyond \<open>2 ^ 53\<close> are not modelled.

  Text. Strings are sequences of bytes, a character above \<open>007F\<close> as its UTF-8 bytes. White space, letter case and the line
  terminators of a regular expression's dot are the ASCII ones, so \<open>trim\<close> and \<open>\s\<close> do not see a no-break space or a
  line separator. In a node file an object's keys stand in insertion order (JavaScript moves keys that look like integers to the
  front), the values of a node are strings and lists of strings, and a JSON number keeps the spelling it was written in.

  Not modelled: the command line (\<^verbatim>\<open>bin/spor.js\<close>), the engines under \<^verbatim>\<open>scripts\<close>, process spawning,
  git and file input and output, the remote adapter and its outbox, authentication and configuration, because they are input and
  output over services; the loader of the registry and the graph and the content contracts, whose results this development takes as
  data; the retrieval ranker and the analytics, heuristics in floating point; the test driver of the workflow kernel.
\<close>

end
